(* ===== verification/Py_Prelude.thy ===== *)
theory Py_Prelude
  imports Complex_Main "HOL-Library.Char_ord" "HOL-Library.List_Lexorder"
    "HOL-Library.Product_Lexorder" "HOL-Library.Sublist"
begin

text \<open>
  What the components share: Python exceptions as values, the parts of \<open>str\<close> and of the
  SQL the ledgers use, and the lemmas on tables that carry the component proofs.

  A public method is a function that returns the pair of its outcome (an exception or a value)
  and the state after the call, so that a write made before a raise is visible in the model.
  A table is the list of its rows in insertion order.
\<close>

section \<open>Exceptions\<close>

datatype py_error =
    ValueError string
  | TypeError string
  | KeyError string
  | PermissionError string
  | RuntimeError string
  | LookupError string
  | AssertionError
  | OverflowError
  | IntegrityError
  | EffectConflict string
  | EffectTransitionError string
  | AliasConflict string
  | StateTransitionError string
  | AdapterRequestConflict string
  | IdempotencyConflict string
  | FileExistsError string
  | ProgrammingError string

type_synonym 'a result = "py_error + 'a"
type_synonym ('a, 's) outcome = "(py_error + 'a) \<times> 's"

named_theorems table_simps \<open>evaluation and frame laws of the table operations\<close>

section \<open>Strings\<close>

text \<open>
  A Python string is a list of characters with code points below 256. \<open>isspace\<close> holds for the
  characters that \<open>str.strip()\<close> removes in that range.
\<close>

definition isspace :: "char \<Rightarrow> bool" where
  "isspace c \<longleftrightarrow> of_char c \<in> {9, 10, 11, 12, 13, 28, 29, 30, 31, 32, 133, 160 :: nat}"

definition lstrip :: "string \<Rightarrow> string" where
  "lstrip s = dropWhile isspace s"

definition rstrip :: "string \<Rightarrow> string" where
  "rstrip s = rev (dropWhile isspace (rev s))"

definition strip :: "string \<Rightarrow> string" where
  "strip s = rstrip (lstrip s)"

text \<open>\<open>not s.strip()\<close>\<close>

definition blank :: "string \<Rightarrow> bool" where
  "blank s \<longleftrightarrow> strip s = []"

definition startswith :: "string \<Rightarrow> string \<Rightarrow> bool" where
  "startswith s p \<longleftrightarrow> prefix p s"

text \<open>\<open>str.lower()\<close> on the code points below 256.\<close>

definition lower_char :: "char \<Rightarrow> char" where
  "lower_char c =
     (let n = (of_char c :: nat)
      in if 65 \<le> n \<and> n \<le> 90 \<or> 192 \<le> n \<and> n \<le> 222 \<and> n \<noteq> 215 then char_of (n + 32) else c)"

definition lower :: "string \<Rightarrow> string" where
  "lower s = map lower_char s"

lemma dropWhile_idem_hd: "dropWhile P xs = xs \<or> xs \<noteq> [] \<and> P (hd xs)"
  by (cases xs) auto

lemma hd_dropWhile_not: "dropWhile P xs \<noteq> [] \<Longrightarrow> \<not> P (hd (dropWhile P xs))"
  by (rule hd_dropWhile)

lemma rstrip_Nil [simp]: "rstrip [] = []"
  by (simp add: rstrip_def)

lemma rstrip_Cons_nonspace: "\<not> isspace c \<Longrightarrow> \<exists>t. rstrip (c # s) = c # t"
proof -
  assume c: "\<not> isspace c"
  have "\<exists>u. dropWhile isspace (rev s @ [c]) = u @ [c]"
  proof (cases "\<forall>x\<in>set (rev s). isspace x")
    case True
    then have "dropWhile isspace (rev s @ [c]) = dropWhile isspace [c]"
      by (simp add: dropWhile_append)
    with c show ?thesis by simp
  next
    case False
    then obtain x where "x \<in> set (rev s)" and "\<not> isspace x" by blast
    then have "dropWhile isspace (rev s @ [c]) = dropWhile isspace (rev s) @ [c]"
      by (rule dropWhile_append1)
    then show ?thesis by simp
  qed
  then obtain u where "dropWhile isspace (rev s @ [c]) = u @ [c]" by blast
  then have "rstrip (c # s) = c # rev u" by (simp add: rstrip_def)
  then show ?thesis by blast
qed

lemma rstrip_idem: "rstrip (rstrip s) = rstrip s"
  by (simp add: rstrip_def)

lemma lstrip_nonspace: "s = [] \<or> \<not> isspace (hd s) \<Longrightarrow> lstrip s = s"
  by (cases s) (auto simp: lstrip_def)

lemma hd_lstrip: "lstrip s \<noteq> [] \<Longrightarrow> \<not> isspace (hd (lstrip s))"
  unfolding lstrip_def by (rule hd_dropWhile)

lemma hd_strip: "strip s \<noteq> [] \<Longrightarrow> \<not> isspace (hd (strip s))"
proof -
  assume ne: "strip s \<noteq> []"
  then obtain c t where ct: "lstrip s = c # t"
    by (cases "lstrip s") (auto simp: strip_def)
  then have "\<not> isspace c" using hd_lstrip [of s] by simp
  then show ?thesis using rstrip_Cons_nonspace [of c t] ct by (auto simp: strip_def)
qed

text \<open>Cleaning a cleaned string changes nothing.\<close>

lemma strip_idem [simp]: "strip (strip s) = strip s"
proof -
  have "lstrip (strip s) = strip s"
    using hd_strip [of s] by (intro lstrip_nonspace) blast
  then have "strip (strip s) = rstrip (strip s)"
    by (simp add: strip_def [of "strip s"])
  then show ?thesis by (simp add: strip_def rstrip_idem)
qed

lemma blank_strip [simp]: "blank (strip s) = blank s"
  by (simp add: blank_def)

lemma blank_Nil [simp]: "blank []"
  by (simp add: blank_def strip_def lstrip_def)

lemma not_blank: "\<not> isspace c \<Longrightarrow> \<not> blank (c # s)"
  using rstrip_Cons_nonspace [of c s] by (auto simp: blank_def strip_def lstrip_def)

section \<open>Tables\<close>

text \<open>\<open>SELECT ... WHERE P\<close> fetching one row, and \<open>UPDATE ... SET f WHERE P\<close>.\<close>

definition select_one :: "('r \<Rightarrow> bool) \<Rightarrow> 'r list \<Rightarrow> 'r option" where
  "select_one P rs = find P rs"

definition update_where :: "('r \<Rightarrow> bool) \<Rightarrow> ('r \<Rightarrow> 'r) \<Rightarrow> 'r list \<Rightarrow> 'r list" where
  "update_where P f rs = map (\<lambda>r. if P r then f r else r) rs"

text \<open>\<open>ORDER BY key LIMIT 1\<close>; \<open>sort_key\<close> is stable, so ties keep insertion order.\<close>

definition first_by :: "('r \<Rightarrow> 'k::linorder) \<Rightarrow> 'r list \<Rightarrow> 'r option" where
  "first_by key rs = (case sort_key key rs of [] \<Rightarrow> None | r # _ \<Rightarrow> Some r)"

text \<open>\<open>INSERT ... ON CONFLICT(key) DO UPDATE\<close>\<close>

definition upsert_by :: "('r \<Rightarrow> 'k) \<Rightarrow> ('r \<Rightarrow> 'r) \<Rightarrow> 'r \<Rightarrow> 'r list \<Rightarrow> 'r list" where
  "upsert_by key f new rs =
     (if \<exists>r\<in>set rs. key r = key new then update_where (\<lambda>r. key r = key new) f rs
      else rs @ [new])"

lemma select_one_Nil [simp, table_simps]: "select_one P [] = None"
  by (simp add: select_one_def)

lemma select_one_Cons [table_simps]:
  "select_one P (r # rs) = (if P r then Some r else select_one P rs)"
  by (simp add: select_one_def)

lemma select_one_SomeD: "select_one P rs = Some r \<Longrightarrow> r \<in> set rs \<and> P r"
  by (auto simp: select_one_def find_Some_iff)

lemma select_one_None: "select_one P rs = None \<longleftrightarrow> (\<forall>r\<in>set rs. \<not> P r)"
  by (auto simp: select_one_def find_None_iff)

lemma select_one_append [table_simps]:
  "select_one P (rs @ ts) =
     (case select_one P rs of None \<Rightarrow> select_one P ts | Some r \<Rightarrow> Some r)"
  by (induction rs) (auto simp: select_one_def)

lemma select_one_unique:
  "distinct (map key rs) \<Longrightarrow> r \<in> set rs \<Longrightarrow> select_one (\<lambda>x. key x = key r) rs = Some r"
proof (induction rs)
  case (Cons a rs)
  show ?case
  proof (cases "a = r")
    case False
    with Cons.prems have "r \<in> set rs" by simp
    moreover from this Cons.prems(1) have "key a \<noteq> key r" by force
    ultimately show ?thesis using Cons by (simp add: select_one_Cons)
  qed (simp add: select_one_Cons)
qed simp

lemma unique_row:
  "distinct (map key rs) \<Longrightarrow> r \<in> set rs \<Longrightarrow> s \<in> set rs \<Longrightarrow> key r = key s \<Longrightarrow> r = s"
  by (metis option.inject select_one_unique)

lemma filter_one: "distinct xs \<Longrightarrow> x \<in> set xs \<Longrightarrow> (\<And>y. y \<in> set xs \<Longrightarrow> P y \<longleftrightarrow> y = x) \<Longrightarrow> filter P xs = [x]"
proof (induction xs)
  case (Cons a xs)
  then show ?case by (cases "a = x") (auto simp: filter_empty_conv)
qed simp

lemma set_update_where:
  "set (update_where P f rs) = (\<lambda>r. if P r then f r else r) ` set rs"
  by (simp add: update_where_def)

lemma update_where_Nil [simp, table_simps]: "update_where P f [] = []"
  by (simp add: update_where_def)

lemma update_where_Cons [table_simps]:
  "update_where P f (r # rs) = (if P r then f r else r) # update_where P f rs"
  by (simp add: update_where_def)

lemma update_where_append [table_simps]:
  "update_where P f (rs @ ts) = update_where P f rs @ update_where P f ts"
  by (simp add: update_where_def)

lemma length_update_where [simp]: "length (update_where P f rs) = length rs"
  by (simp add: update_where_def)

lemma update_where_none: "(\<forall>r\<in>set rs. \<not> P r) \<Longrightarrow> update_where P f rs = rs"
  by (simp add: update_where_def map_idI)

lemma map_update_where:
  "(\<And>r. P r \<Longrightarrow> g (f r) = g r) \<Longrightarrow> map g (update_where P f rs) = map g rs"
  by (simp add: update_where_def)

lemma select_one_update_where:
  assumes "\<And>r. key r = k' \<Longrightarrow> key (f r) = key r"
  shows "select_one (\<lambda>r. key r = k) (update_where (\<lambda>r. key r = k') f rs) =
     (if k = k' then map_option f (select_one (\<lambda>r. key r = k) rs)
      else select_one (\<lambda>r. key r = k) rs)"
  by (induction rs) (use assms in \<open>auto simp: select_one_Cons update_where_Cons\<close>)

lemma all_update_where:
  assumes "\<forall>r\<in>set rs. I r" and "\<And>r. r \<in> set rs \<Longrightarrow> P r \<Longrightarrow> I (f r)"
  shows "\<forall>r\<in>set (update_where P f rs). I r"
  using assms by (auto simp: set_update_where)

lemma first_by_SomeD:
  assumes "first_by key rs = Some r"
  shows "r \<in> set rs \<and> (\<forall>x\<in>set rs. key r \<le> key x)"
proof -
  from assms obtain ts where s: "sort_key key rs = r # ts"
    by (auto simp: first_by_def split: list.splits)
  then have "set (r # ts) = set rs" by (metis set_sort)
  moreover have "sorted (map key (r # ts))" by (metis s sorted_sort_key)
  ultimately show ?thesis by fastforce
qed

lemma first_by_None: "first_by key rs = None \<longleftrightarrow> rs = []"
proof -
  have "sort_key key rs = [] \<longleftrightarrow> rs = []"
    by (metis length_0_conv length_sort)
  then show ?thesis by (cases "sort_key key rs") (auto simp: first_by_def)
qed

lemma first_by_filter_SomeD:
  "first_by key (filter P rs) = Some r \<Longrightarrow> r \<in> set rs \<and> P r"
  by (auto dest: first_by_SomeD)

subsection \<open>How a table evolves\<close>

text \<open>
  \<open>evolves R rs rs'\<close>: every row of \<open>rs\<close> is still there, in place, changed by \<open>R\<close> at most, and
  rows were only appended.
\<close>

definition evolves :: "('r \<Rightarrow> 'r \<Rightarrow> bool) \<Rightarrow> 'r list \<Rightarrow> 'r list \<Rightarrow> bool" where
  "evolves R rs rs' \<longleftrightarrow> length rs \<le> length rs' \<and> (\<forall>i<length rs. R (rs ! i) (rs' ! i))"

lemma evolvesI_append: "(\<And>r. R r r) \<Longrightarrow> evolves R rs (rs @ ts)"
  by (simp add: evolves_def nth_append)

lemma evolves_refl: "(\<And>r. R r r) \<Longrightarrow> evolves R rs rs"
  by (simp add: evolves_def)

lemma evolves_update_where:
  assumes "\<And>r. R r r" and "\<And>r. r \<in> set rs \<Longrightarrow> P r \<Longrightarrow> R r (f r)"
  shows "evolves R rs (update_where P f rs)"
  using assms by (simp add: evolves_def update_where_def)

lemma evolves_trans:
  assumes "\<And>a b c. R a b \<Longrightarrow> R b c \<Longrightarrow> R a c" "evolves R rs ts" "evolves R ts us"
  shows "evolves R rs us"
  using assms unfolding evolves_def by (meson le_trans order_less_le_trans)

lemma evolves_member:
  "evolves R rs rs' \<Longrightarrow> r \<in> set rs \<Longrightarrow> \<exists>r'\<in>set rs'. R r r'"
  unfolding evolves_def by (metis in_set_conv_nth less_le_trans)

end
