(* ===== verification/Iso_Time.thy ===== *)
theory Iso_Time
  imports Py_Prelude
begin

text \<open>
  UTC instants and their ISO-8601 text, as \<open>datetime.now(UTC).isoformat()\<close> writes it and
  \<open>datetime.fromisoformat\<close> reads it. An instant is the number of microseconds since
  0001-01-01T00:00:00Z. The calendar conversions are the proleptic Gregorian ones of Python's
  \<open>datetime\<close>. The reader covers the extended calendar format: a date, optionally followed by a
  separator and \<open>HH:MM[:SS[.f+]]\<close> and an offset \<open>Z\<close> or \<open>+HH:MM\<close>.

  The two facts the ledgers rest on: a written instant reads back as itself, and the order of the
  texts (the order SQL compares) is the order of the instants.
\<close>

section \<open>The calendar\<close>

definition is_leap :: "int \<Rightarrow> bool" where
  "is_leap y \<longleftrightarrow> y mod 4 = 0 \<and> (y mod 100 \<noteq> 0 \<or> y mod 400 = 0)"

definition days_before_year :: "int \<Rightarrow> int" where
  "days_before_year y = (let p = y - 1 in p * 365 + p div 4 - p div 100 + p div 400)"

definition month_lengths :: "bool \<Rightarrow> int list" where
  "month_lengths leap = [31, if leap then 29 else 28, 31, 30, 31, 30, 31, 31, 30, 31, 30, 31]"

definition ymd2ord :: "int \<Rightarrow> int \<Rightarrow> int \<Rightarrow> int" where
  "ymd2ord y m d =
     days_before_year y + sum_list (take (nat (m - 1)) (month_lengths (is_leap y))) + d"

text \<open>The month and the day of the month, from the day of the year counted from 0.\<close>

fun month_day :: "int \<Rightarrow> int list \<Rightarrow> int \<Rightarrow> int \<times> int" where
  "month_day m [] n = (m, n + 1)"
| "month_day m (l # ls) n = (if n < l then (m, n + 1) else month_day (m + 1) ls (n - l))"

definition ord2ymd :: "int \<Rightarrow> int \<times> int \<times> int" where
  "ord2ymd n =
     (let n0 = n - 1;
          n400 = n0 div 146097; a = n0 mod 146097;
          n100 = a div 36524; b = a mod 36524;
          n4 = b div 1461; c = b mod 1461;
          n1 = c div 365; d = c mod 365;
          y = n400 * 400 + n100 * 100 + n4 * 4 + n1 + 1
      in if n1 = 4 \<or> n100 = 4 then (y - 1, 12, 31)
         else (y, month_day 1 (month_lengths (is_leap y)) d))"

section \<open>Digits\<close>

definition digit :: "int \<Rightarrow> char" where
  "digit k = char_of (nat (48 + k))"

definition digit_val :: "char \<Rightarrow> int option" where
  "digit_val c = (let n = (of_char c :: int) in if 48 \<le> n \<and> n \<le> 57 then Some (n - 48) else None)"

text \<open>\<open>{k:0<n>d}\<close> for \<open>k < 10 ^ n\<close>\<close>

fun pad :: "nat \<Rightarrow> int \<Rightarrow> string" where
  "pad 0 k = []"
| "pad (Suc n) k = pad n (k div 10) @ [digit (k mod 10)]"

fun read_digits :: "int \<Rightarrow> string \<Rightarrow> int option" where
  "read_digits acc [] = Some acc"
| "read_digits acc (c # cs) =
     (case digit_val c of None \<Rightarrow> None | Some k \<Rightarrow> read_digits (acc * 10 + k) cs)"

section \<open>Writing\<close>

definition usec_per_day :: int where
  "usec_per_day = 86400000000"

text \<open>The first instant beyond year 9999.\<close>

definition max_instant :: int where
  "max_instant = 3652059 * usec_per_day"

definition clock_text :: "int \<Rightarrow> string" where
  "clock_text us =
     (let s = us div 1000000; f = us mod 1000000
      in pad 2 (s div 3600) @ '':'' @ pad 2 (s div 60 mod 60) @ '':'' @ pad 2 (s mod 60)
         @ (if f = 0 then '''' else ''.'' @ pad 6 f))"

definition isoformat :: "int \<Rightarrow> string" where
  "isoformat t =
     (let (y, m, d) = ord2ymd (t div usec_per_day + 1)
      in pad 4 y @ ''-'' @ pad 2 m @ ''-'' @ pad 2 d @ ''T''
         @ clock_text (t mod usec_per_day) @ ''+00:00'')"

section \<open>Reading\<close>

text \<open>What \<open>fromisoformat\<close> makes of a text: an error, a naive or an offset-aware time.\<close>

datatype iso_time = NotIso | Naive int | Aware int

definition read2 :: "string \<Rightarrow> int option" where
  "read2 s = (if length s = 2 then read_digits 0 s else None)"

definition read_date :: "string \<Rightarrow> int option" where
  "read_date s =
     (if length s = 10 \<and> s ! 4 = CHR ''-'' \<and> s ! 7 = CHR ''-'' then
        case (read_digits 0 (take 4 s), read2 (take 2 (drop 5 s)), read2 (drop 8 s)) of
          (Some y, Some m, Some d) \<Rightarrow>
            if 1 \<le> y \<and> 1 \<le> m \<and> m \<le> 12 \<and> 1 \<le> d \<and> d \<le> month_lengths (is_leap y) ! nat (m - 1)
            then Some (ymd2ord y m d) else None
        | _ \<Rightarrow> None
      else None)"

text \<open>Digits after the decimal point: at most six count, fewer are padded with zeros.\<close>

definition read_fraction :: "string \<Rightarrow> int option" where
  "read_fraction s =
     (if s = [] then None
      else case read_digits 0 s of None \<Rightarrow> None
        | Some _ \<Rightarrow> read_digits 0 (take 6 (s @ ''000000'')))"

text \<open>\<open>HH:MM[:SS[.f+]]\<close> as microseconds of the day.\<close>

definition read_clock :: "string \<Rightarrow> int option" where
  "read_clock s =
     (if 5 \<le> length s \<and> s ! 2 = CHR '':'' then
        case (read2 (take 2 s), read2 (take 2 (drop 3 s))) of
          (Some h, Some mi) \<Rightarrow>
            if h < 24 \<and> mi < 60 then
              let r = drop 5 s; base = (h * 3600 + mi * 60) * 1000000
              in if r = [] then Some base
                 else if 3 \<le> length r \<and> r ! 0 = CHR '':'' then
                   case read2 (take 2 (drop 1 r)) of
                     None \<Rightarrow> None
                   | Some sec \<Rightarrow>
                       if sec < 60 then
                         let q = drop 3 r
                         in if q = [] then Some (base + sec * 1000000)
                            else if q ! 0 = CHR ''.'' \<or> q ! 0 = CHR '','' then
                              map_option (\<lambda>f. base + sec * 1000000 + f) (read_fraction (drop 1 q))
                            else None
                       else None
                 else None
            else None
        | _ \<Rightarrow> None
      else None)"

text \<open>The offset \<open>Z\<close> or \<open>+HH:MM\<close> at the end of the time, in microseconds.\<close>

definition read_offset :: "string \<Rightarrow> int option" where
  "read_offset s =
     (if s = ''Z'' then Some 0
      else if length s = 6 \<and> s ! 3 = CHR '':'' then
        case (read2 (take 2 (drop 1 s)), read2 (drop 4 s)) of
          (Some h, Some mi) \<Rightarrow>
            if h < 24 \<and> mi < 60
            then Some ((if s ! 0 = CHR ''-'' then -1 else 1) * (h * 60 + mi) * 60000000) else None
        | _ \<Rightarrow> None
      else None)"

definition is_offset_start :: "char \<Rightarrow> bool" where
  "is_offset_start c \<longleftrightarrow> c = CHR ''Z'' \<or> c = CHR ''+'' \<or> c = CHR ''-''"

definition read_time :: "int \<Rightarrow> string \<Rightarrow> iso_time" where
  "read_time day s =
     (let clk = takeWhile (\<lambda>c. \<not> is_offset_start c) s;
          off = dropWhile (\<lambda>c. \<not> is_offset_start c) s
      in case read_clock clk of
           None \<Rightarrow> NotIso
         | Some us \<Rightarrow>
             let local = (day - 1) * usec_per_day + us
             in if off = [] then Naive local
                else case read_offset off of None \<Rightarrow> NotIso | Some delta \<Rightarrow> Aware (local - delta))"

definition fromisoformat :: "string \<Rightarrow> iso_time" where
  "fromisoformat s =
     (case read_date (take 10 s) of
        None \<Rightarrow> NotIso
      | Some day \<Rightarrow>
          if length s = 10 then Naive ((day - 1) * usec_per_day)
          else read_time day (drop 11 s))"


section \<open>Calendar laws\<close>

lemma length_month_lengths [simp]: "length (month_lengths l) = 12"
  by (simp add: month_lengths_def)

lemma sum_month_lengths: "sum_list (month_lengths l) = (if l then 366 else 365)"
  by (simp add: month_lengths_def)

lemma month_lengths_bounds: "i < 12 \<Longrightarrow> 28 \<le> month_lengths l ! i \<and> month_lengths l ! i \<le> 31"
proof -
  assume "i < 12"
  then have "month_lengths l ! i \<in> set (month_lengths l)" by simp
  moreover have "\<forall>x\<in>set (month_lengths l). 28 \<le> x \<and> x \<le> 31"
    by (simp add: month_lengths_def)
  ultimately show ?thesis by blast
qed

lemma month_day_spec:
  assumes "0 \<le> n" "n < sum_list ls" "month_day m ls n = (m', d)"
  shows "\<exists>i<length ls. m' = m + int i \<and> sum_list (take i ls) + d = n + 1 \<and> 1 \<le> d \<and> d \<le> ls ! i"
  using assms
proof (induction m ls n rule: month_day.induct)
  case (2 m l ls n)
  show ?case
  proof (cases "n < l")
    case True
    with 2 show ?thesis by (intro exI [of _ 0]) auto
  next
    case False
    with 2 obtain i where "i < length ls" "m' = m + 1 + int i"
      "sum_list (take i ls) + d = n - l + 1" "1 \<le> d" "d \<le> ls ! i" by auto
    then show ?thesis by (intro exI [of _ "Suc i"]) auto
  qed
qed simp

lemma days_before_year_split:
  assumes "0 \<le> b" "b < 4" "0 \<le> c" "c < 25" "0 \<le> d" "d < 4"
  shows "days_before_year (a * 400 + b * 100 + c * 4 + d + 1) =
    a * 146097 + b * 36524 + c * 1461 + d * 365"
proof -
  let ?p = "a * 400 + b * 100 + c * 4 + d"
  have "?p div 4 = a * 100 + b * 25 + c"
    by (rule int_div_pos_eq [where r = d]) (use assms in auto)
  moreover have "?p div 100 = a * 4 + b"
    by (rule int_div_pos_eq [where r = "c * 4 + d"]) (use assms in auto)
  moreover have "?p div 400 = a"
    by (rule int_div_pos_eq [where r = "b * 100 + c * 4 + d"]) (use assms in auto)
  ultimately show ?thesis by (simp add: days_before_year_def Let_def)
qed

lemma mod_zero_split:
  fixes q r k :: int
  assumes "0 < r" "r \<le> k"
  shows "(k * q + r) mod k = 0 \<longleftrightarrow> r = k"
proof (cases "r = k")
  case False
  with assms have "r mod k = r" by (intro mod_pos_pos_trivial) auto
  with assms False show ?thesis by simp
qed simp

lemma is_leap_split:
  assumes "0 \<le> b" "b < 4" "0 \<le> c" "c < 25" "0 \<le> d" "d < 4"
  shows "is_leap (a * 400 + b * 100 + c * 4 + d + 1) \<longleftrightarrow> d = 3 \<and> (c \<noteq> 24 \<or> b = 3)"
proof -
  let ?y = "a * 400 + b * 100 + c * 4 + d + 1"
  have "?y mod 4 = 0 \<longleftrightarrow> d + 1 = 4"
    using mod_zero_split [of "d + 1" 4 "a * 100 + b * 25 + c"] assms by (simp add: algebra_simps)
  moreover have "?y mod 100 = 0 \<longleftrightarrow> c * 4 + d + 1 = 100"
    using mod_zero_split [of "c * 4 + d + 1" 100 "a * 4 + b"] assms by (simp add: algebra_simps)
  moreover have "?y mod 400 = 0 \<longleftrightarrow> b * 100 + c * 4 + d + 1 = 400"
    using mod_zero_split [of "b * 100 + c * 4 + d + 1" 400 a] assms by (simp add: algebra_simps)
  ultimately show ?thesis unfolding is_leap_def using assms by auto
qed

definition valid_date :: "int \<times> int \<times> int \<Rightarrow> bool" where
  "valid_date = (\<lambda>(y, m, d). 1 \<le> y \<and> 1 \<le> m \<and> m \<le> 12 \<and> 1 \<le> d
     \<and> d \<le> month_lengths (is_leap y) ! nat (m - 1))"

lemma ord2ymd_parts:
  assumes "1 \<le> n"
  obtains a b c d e where "n - 1 = a * 146097 + b * 36524 + c * 1461 + d * 365 + e"
    "0 \<le> a" "0 \<le> b" "0 \<le> c" "c < 25" "0 \<le> d" "0 \<le> e" "e < 365"
    "b \<le> 4" "d \<le> 4" "b = 4 \<longrightarrow> c = 0 \<and> d = 0 \<and> e = 0" "d = 4 \<longrightarrow> e = 0" "d = 4 \<longrightarrow> c \<noteq> 24"
    "ord2ymd n = (let y = a * 400 + b * 100 + c * 4 + d + 1
       in if d = 4 \<or> b = 4 then (y - 1, 12, 31) else (y, month_day 1 (month_lengths (is_leap y)) e))"
proof -
  define a where "a = (n - 1) div 146097"
  define r where "r = (n - 1) mod 146097"
  define b where "b = r div 36524"
  define r2 where "r2 = r mod 36524"
  define c where "c = r2 div 1461"
  define r3 where "r3 = r2 mod 1461"
  define d where "d = r3 div 365"
  define e where "e = r3 mod 365"
  have 1: "n - 1 = a * 146097 + r" "0 \<le> a" "0 \<le> r" "r < 146097"
    using assms by (simp_all add: a_def r_def)
  have 2: "r = b * 36524 + r2" "0 \<le> r2" "r2 < 36524" by (simp_all add: b_def r2_def)
  have 3: "r2 = c * 1461 + r3" "0 \<le> r3" "r3 < 1461" by (simp_all add: c_def r3_def)
  have 4: "r3 = d * 365 + e" "0 \<le> e" "e < 365" by (simp_all add: d_def e_def)
  have 5: "ord2ymd n = (let y = a * 400 + b * 100 + c * 4 + d + 1
       in if d = 4 \<or> b = 4 then (y - 1, 12, 31) else (y, month_day 1 (month_lengths (is_leap y)) e))"
    by (simp add: ord2ymd_def Let_def a_def b_def c_def d_def e_def r_def r2_def r3_def)
  have 6: "0 \<le> b" "0 \<le> c" "0 \<le> d" using 1 2 3 4 by linarith+
  have 7: "b \<le> 4" "c < 25" "d \<le> 4" using 1 2 3 4 by linarith+
  have 8: "c = 0 \<and> d = 0 \<and> e = 0" if "b = 4"
  proof -
    from that 1 2 have "r2 = 0" by linarith
    with 3 6 have "c = 0" "r3 = 0" by linarith+
    with 4 6 show ?thesis by linarith
  qed
  have 9: "e = 0" "c \<noteq> 24" if "d = 4" using that 2 3 4 by linarith+
  have 10: "n - 1 = a * 146097 + b * 36524 + c * 1461 + d * 365 + e" using 1 2 3 4 by linarith
  show thesis
    by (rule that [OF 10 _ _ _ _ _ _ _ _ _ _ _ _ 5]) (use 1 4 6 7 8 9 in blast)+
qed

lemma ord2ymd_correct:
  assumes "1 \<le> n" and eq: "ord2ymd n = (y, m, d)"
  shows "valid_date (y, m, d) \<and> ymd2ord y m d = n"
proof -
  from \<open>1 \<le> n\<close> obtain a b c q e where n: "n - 1 = a * 146097 + b * 36524 + c * 1461 + q * 365 + e"
    and bd: "0 \<le> a" "0 \<le> b" "0 \<le> c" "c < 25" "0 \<le> q" "0 \<le> e" "e < 365" "b \<le> 4" "q \<le> 4"
    and b4: "b = 4 \<longrightarrow> c = 0 \<and> q = 0 \<and> e = 0" and q4: "q = 4 \<longrightarrow> e = 0"
    and lp: "q = 4 \<longrightarrow> c \<noteq> 24"
    and o: "ord2ymd n = (let y = a * 400 + b * 100 + c * 4 + q + 1
       in if q = 4 \<or> b = 4 then (y - 1, 12, 31) else (y, month_day 1 (month_lengths (is_leap y)) e))"
    by (rule ord2ymd_parts)
  consider (century) "b = 4" | (cycle) "b \<noteq> 4" "q = 4" | (reg) "b < 4" "q < 4" using bd by linarith
  then show ?thesis
  proof cases
    case century
    then have y: "y = a * 400 + 3 * 100 + 24 * 4 + 3 + 1" "m = 12" "d = 31"
      using o eq b4 by (auto simp: Let_def)
    have "is_leap y" unfolding y(1) by (subst is_leap_split) auto
    moreover have "days_before_year y = a * 146097 + 3 * 36524 + 24 * 1461 + 3 * 365"
      unfolding y(1) by (rule days_before_year_split) auto
    ultimately show ?thesis using y n bd century b4
      by (auto simp: valid_date_def ymd2ord_def month_lengths_def)
  next
    case cycle
    then have bb: "b < 4" using bd by linarith
    have y: "y = a * 400 + b * 100 + c * 4 + 3 + 1" "m = 12" "d = 31"
      using o eq cycle by (auto simp: Let_def)
    have "is_leap y" unfolding y(1) using bd bb lp cycle by (subst is_leap_split) auto
    moreover have "days_before_year y = a * 146097 + b * 36524 + c * 1461 + 3 * 365"
      unfolding y(1) by (rule days_before_year_split) (use bd bb in auto)
    ultimately show ?thesis using y n bd bb cycle q4
      by (auto simp: valid_date_def ymd2ord_def month_lengths_def)
  next
    case reg
    then have y: "y = a * 400 + b * 100 + c * 4 + q + 1"
      and md: "month_day 1 (month_lengths (is_leap y)) e = (m, d)"
      using o eq by (auto simp: Let_def)
    have dby: "days_before_year y = a * 146097 + b * 36524 + c * 1461 + q * 365"
      unfolding y by (rule days_before_year_split) (use bd reg in auto)
    have "e < sum_list (month_lengths (is_leap y))" using bd by (simp add: sum_month_lengths)
    from month_day_spec [OF \<open>0 \<le> e\<close> this md] obtain i where i: "i < 12" "m = 1 + int i"
      "sum_list (take i (month_lengths (is_leap y))) + d = e + 1"
      "1 \<le> d" "d \<le> month_lengths (is_leap y) ! i" by auto
    then show ?thesis using n dby y bd reg by (auto simp: valid_date_def ymd2ord_def)
  qed
qed

lemma div_pred:
  fixes y k :: int
  assumes "1 < k"
  shows "y div k = (y - 1) div k + (if y mod k = 0 then 1 else 0)"
proof (cases "y mod k = 0")
  case True
  then have "(y - 1) div k = y div k - 1"
    by (intro int_div_pos_eq [where r = "k - 1"])
      (use assms in \<open>auto simp: algebra_simps minus_mod_eq_mult_div [symmetric]\<close>)
  with True show ?thesis by simp
next
  case False
  have "0 \<le> y mod k" "y mod k < k" using assms by simp_all
  then have "(y - 1) div k = y div k"
    by (intro int_div_pos_eq [where r = "y mod k - 1"])
      (use False in \<open>auto simp: algebra_simps minus_mod_eq_mult_div [symmetric]\<close>)
  with False show ?thesis by simp
qed

lemma leap_count:
  fixes a4 b4 a100 b100 a400 b400 y :: int
  assumes "a4 = b4 + (if P then 1 else 0)" "a100 = b100 + (if Q then 1 else 0)"
    "a400 = b400 + (if R then 1 else 0)" "Q \<longrightarrow> P" "R \<longrightarrow> Q"
  shows "y * 365 + a4 - a100 + a400
    = (y - 1) * 365 + b4 - b100 + b400 + (if P \<and> (\<not> Q \<or> R) then 366 else 365)"
proof -
  have "a4 = b4 + 1" if P using that assms(1) by (simp only: if_True)
  moreover have "a4 = b4" if "\<not> P" using that assms(1) by (simp only: if_False add_0_right)
  moreover have "a100 = b100 + 1" if Q using that assms(2) by (simp only: if_True)
  moreover have "a100 = b100" if "\<not> Q" using that assms(2) by (simp only: if_False add_0_right)
  moreover have "a400 = b400 + 1" if R using that assms(3) by (simp only: if_True)
  moreover have "a400 = b400" if "\<not> R" using that assms(3) by (simp only: if_False add_0_right)
  ultimately show ?thesis using assms(4,5) by (cases P; cases Q; cases R) simp_all
qed

lemma mod_multiple_zero: "(y::int) mod (k * m) = 0 \<longrightarrow> y mod k = 0"
  by (auto simp: mod_eq_0_iff_dvd intro: dvd_mult_left)

lemma days_before_year_Suc:
  "days_before_year (y + 1) = days_before_year y + (if is_leap y then 366 else 365)"
proof -
  have "y mod 100 = 0 \<longrightarrow> y mod 4 = 0" "y mod 400 = 0 \<longrightarrow> y mod 100 = 0"
    using mod_multiple_zero [of y 4 25] mod_multiple_zero [of y 100 4] by simp_all
  from leap_count [OF div_pred div_pred div_pred this]
  show ?thesis by (simp only: days_before_year_def is_leap_def Let_def add_diff_cancel_right')
qed

lemma days_before_year_mono: "y \<le> z \<Longrightarrow> days_before_year y \<le> days_before_year z"
proof (induction z rule: int_ge_induct)
  case (step i)
  then show ?case using days_before_year_Suc [of i] by (simp split: if_splits)
qed simp

lemma sum_take_le:
  assumes "\<forall>x\<in>set ls. (0::int) \<le> x" "i \<le> j"
  shows "sum_list (take i ls) \<le> sum_list (take j ls)"
proof -
  have "take j ls = take i ls @ take (j - i) (drop i ls)"
    using assms(2) by (metis le_add_diff_inverse take_add)
  moreover have "0 \<le> sum_list (take (j - i) (drop i ls))"
    using assms(1) by (intro sum_list_nonneg) (meson in_set_dropD in_set_takeD)
  ultimately show ?thesis by simp
qed

lemma sum_take_Suc: "i < length ls \<Longrightarrow> sum_list (take (Suc i) ls) = sum_list (take i ls) + ls ! i"
  by (simp add: take_Suc_conv_app_nth)

lemma ymd2ord_bounds:
  assumes "valid_date (y, m, d)"
  shows "days_before_year y < ymd2ord y m d \<and> ymd2ord y m d \<le> days_before_year (y + 1)"
proof -
  let ?ls = "month_lengths (is_leap y)"
  have nn: "\<forall>x\<in>set ?ls. 0 \<le> x" by (simp add: month_lengths_def)
  have m: "nat (m - 1) < 12" and d: "1 \<le> d" "d \<le> ?ls ! nat (m - 1)"
    using assms by (auto simp: valid_date_def)
  have "0 \<le> sum_list (take (nat (m - 1)) ?ls)" using sum_take_le [OF nn, of 0] by simp
  moreover have "sum_list (take (Suc (nat (m - 1))) ?ls) \<le> sum_list ?ls"
    using sum_take_le [OF nn, of "Suc (nat (m - 1))" 12] m by simp
  moreover have "sum_list (take (Suc (nat (m - 1))) ?ls)
      = sum_list (take (nat (m - 1)) ?ls) + ?ls ! nat (m - 1)"
    using m by (intro sum_take_Suc) simp
  ultimately show ?thesis
    using d by (simp add: ymd2ord_def days_before_year_Suc sum_month_lengths)
qed

lemma ymd2ord_strict_mono:
  assumes v: "valid_date (y, m, d)" and w: "valid_date (y', m', d')"
    and less: "(y, m, d) < (y', m', d')"
  shows "ymd2ord y m d < ymd2ord y' m' d'"
proof -
  consider (year) "y < y'" | (month) "y = y'" "m < m'" | (day) "y = y'" "m = m'" "d < d'"
    using less by (auto simp: less_prod_def le_less)
  then show ?thesis
  proof cases
    case year
    then have "days_before_year (y + 1) \<le> days_before_year y'" by (intro days_before_year_mono) simp
    then show ?thesis using ymd2ord_bounds [OF v] ymd2ord_bounds [OF w] by linarith
  next
    case month
    let ?ls = "month_lengths (is_leap y)"
    have nn: "\<forall>x\<in>set ?ls. 0 \<le> x" by (simp add: month_lengths_def)
    have "sum_list (take (Suc (nat (m - 1))) ?ls) \<le> sum_list (take (nat (m' - 1)) ?ls)"
      using month v by (intro sum_take_le [OF nn]) (auto simp: valid_date_def)
    moreover have "sum_list (take (Suc (nat (m - 1))) ?ls)
        = sum_list (take (nat (m - 1)) ?ls) + ?ls ! nat (m - 1)"
      using v by (intro sum_take_Suc) (auto simp: valid_date_def)
    ultimately show ?thesis using month v w by (auto simp: valid_date_def ymd2ord_def)
  qed (simp add: ymd2ord_def)
qed

text \<open>Later days have later dates.\<close>

lemma ord2ymd_less:
  assumes "1 \<le> n" "1 \<le> k"
  shows "ord2ymd n < ord2ymd k \<longleftrightarrow> n < k"
proof -
  obtain y m d y' m' d' where e: "ord2ymd n = (y, m, d)" "ord2ymd k = (y', m', d')"
    by (metis prod_cases3)
  note c = ord2ymd_correct [OF assms(1) e(1)] ord2ymd_correct [OF assms(2) e(2)]
  consider "(y, m, d) < (y', m', d')" | "(y, m, d) = (y', m', d')" | "(y', m', d') < (y, m, d)"
    by (rule linorder_cases)
  then show ?thesis
    using c ymd2ord_strict_mono [of y m d y' m' d'] ymd2ord_strict_mono [of y' m' d' y m d] e
    by cases auto
qed

section \<open>Digit laws\<close>

lemma of_char_digit [simp]: "0 \<le> k \<Longrightarrow> k \<le> 9 \<Longrightarrow> (of_char (digit k) :: nat) = nat (48 + k)"
  by (simp add: digit_def)

lemma digit_val_digit [simp]: "0 \<le> k \<Longrightarrow> k \<le> 9 \<Longrightarrow> digit_val (digit k) = Some k"
proof -
  assume k: "0 \<le> k" "k \<le> 9"
  then have "int (of_char (digit k)) = 48 + k" by simp
  then have "(of_char (digit k) :: int) = 48 + k" by (metis of_nat_of_char)
  with k show ?thesis by (simp add: digit_val_def Let_def)
qed

lemma digit_less: "0 \<le> j \<Longrightarrow> j \<le> 9 \<Longrightarrow> 0 \<le> k \<Longrightarrow> k \<le> 9 \<Longrightarrow> digit j < digit k \<longleftrightarrow> j < k"
  by (auto simp: less_char_def)

lemma digit_not_punct:
  assumes "0 \<le> k" "k \<le> 9"
  shows "digit k \<noteq> CHR ''Z''" "digit k \<noteq> CHR ''+''" "digit k \<noteq> CHR ''-''"
proof -
  have "(of_char (digit k) :: nat) \<noteq> of_char (CHR ''Z'')"
    "(of_char (digit k) :: nat) \<noteq> of_char (CHR ''+'')"
    "(of_char (digit k) :: nat) \<noteq> of_char (CHR ''-'')"
    using assms by auto
  then show "digit k \<noteq> CHR ''Z''" "digit k \<noteq> CHR ''+''" "digit k \<noteq> CHR ''-''"
    by metis+
qed

lemma length_pad [simp]: "length (pad n k) = n"
  by (induction n arbitrary: k) auto

lemma read_digits_append:
  "read_digits acc (s @ t) = (case read_digits acc s of None \<Rightarrow> None | Some a \<Rightarrow> read_digits a t)"
  by (induction acc s rule: read_digits.induct) (auto split: option.splits)

lemma read_digits_pad:
  "0 \<le> k \<Longrightarrow> k < 10 ^ n \<Longrightarrow> read_digits acc (pad n k) = Some (acc * 10 ^ n + k)"
proof (induction n arbitrary: k)
  case (Suc n)
  then have "0 \<le> k div 10" "k div 10 < 10 ^ n" by auto
  then have "read_digits acc (pad n (k div 10)) = Some (acc * 10 ^ n + k div 10)"
    by (rule Suc.IH)
  then show ?case by (simp add: read_digits_append algebra_simps)
qed auto

lemma read2_pad [simp]: "0 \<le> k \<Longrightarrow> k < 100 \<Longrightarrow> read2 (pad 2 k) = Some k"
  using read_digits_pad [of k 2 0] by (simp add: read2_def)

lemma pad_no_offset: "c \<in> set (pad n k) \<Longrightarrow> \<not> is_offset_start c"
  by (induction n arbitrary: k) (auto simp: is_offset_start_def digit_not_punct)

lemma lex_append:
  fixes xs ys :: "'a::linorder list"
  assumes "length xs = length ys"
  shows "xs @ us < ys @ vs \<longleftrightarrow> xs < ys \<or> xs = ys \<and> us < vs"
  using assms by (induction xs ys rule: list_induct2) auto

lemma pad_inj:
  assumes "0 \<le> j" "j < 10 ^ n" "0 \<le> k" "k < 10 ^ n"
  shows "pad n j = pad n k \<longleftrightarrow> j = k"
proof
  assume "pad n j = pad n k"
  then have "Some (0 * 10 ^ n + j) = Some (0 * 10 ^ n + k)"
    using assms by (metis read_digits_pad)
  then show "j = k" by simp
qed simp

lemma div_mod_less:
  fixes s t k :: int
  assumes "0 < k"
  shows "s div k < t div k \<or> s div k = t div k \<and> s mod k < t mod k \<longleftrightarrow> s < t"
proof -
  consider "s div k < t div k" | "s div k = t div k" | "t div k < s div k" by linarith
  then show ?thesis
  proof cases
    case 1
    then have "\<not> t \<le> s" using assms by (metis leD zdiv_mono1)
    with 1 show ?thesis by simp
  next
    case 2
    have "s = s div k * k + s mod k" "t = t div k * k + t mod k"
      by (rule div_mult_mod_eq [symmetric])+
    then have "s = s div k * k + s mod k" "t = s div k * k + t mod k" using 2 by simp_all
    then have "s mod k < t mod k \<longleftrightarrow> s < t" by linarith
    with 2 show ?thesis by simp
  next
    case 3
    then have "\<not> s \<le> t" using assms by (metis leD zdiv_mono1)
    with 3 show ?thesis by simp
  qed
qed

text \<open>Seconds of the day as hours, minutes and seconds.\<close>

lemma hms_assoc: "h * 3600 + b * 60 + c = (h * 60 + b) * 60 + (c::int)"
  by simp

lemma hms_sum: "(s::int) div 3600 * 3600 + s div 60 mod 60 * 60 + s mod 60 = s"
proof -
  have "s div 3600 = s div 60 div 60" by (simp flip: zdiv_zmult2_eq)
  then show ?thesis by (simp only: hms_assoc div_mult_mod_eq)
qed

lemma hms_less:
  "(s::int) div 3600 < s' div 3600 \<or> s div 3600 = s' div 3600 \<and>
     (s div 60 mod 60 < s' div 60 mod 60 \<or> s div 60 mod 60 = s' div 60 mod 60 \<and>
      (s mod 60 < s' mod 60 \<or> s mod 60 = s' mod 60 \<and> P)) \<longleftrightarrow> s < s' \<or> s = s' \<and> P"
proof -
  have h: "x div 3600 = x div 60 div 60" for x :: int by (simp flip: zdiv_zmult2_eq)
  have "s div 60 < s' div 60 \<longleftrightarrow> s div 3600 < s' div 3600 \<or> s div 3600 = s' div 3600
      \<and> s div 60 mod 60 < s' div 60 mod 60"
    unfolding h by (rule div_mod_less [symmetric]) simp
  moreover have "s < s' \<longleftrightarrow> s div 60 < s' div 60 \<or> s div 60 = s' div 60 \<and> s mod 60 < s' mod 60"
    by (rule div_mod_less [symmetric]) simp
  moreover have "s div 60 = s' div 60 \<longleftrightarrow> s div 3600 = s' div 3600 \<and> s div 60 mod 60 = s' div 60 mod 60"
    unfolding h by (metis div_mult_mod_eq)
  moreover have "s = s' \<longleftrightarrow> s div 60 = s' div 60 \<and> s mod 60 = s' mod 60"
    by (metis div_mult_mod_eq)
  ultimately show ?thesis by blast
qed

lemma pad_less:
  "0 \<le> j \<Longrightarrow> j < 10 ^ n \<Longrightarrow> 0 \<le> k \<Longrightarrow> k < 10 ^ n \<Longrightarrow> pad n j < pad n k \<longleftrightarrow> j < k"
proof (induction n arbitrary: j k)
  case (Suc n)
  have "pad n (j div 10) < pad n (k div 10) \<longleftrightarrow> j div 10 < k div 10"
    by (rule Suc.IH) (use Suc.prems in auto)
  moreover have "pad n (j div 10) = pad n (k div 10) \<longleftrightarrow> j div 10 = k div 10"
    by (rule pad_inj) (use Suc.prems in auto)
  moreover have "j < k \<longleftrightarrow> j div 10 < k div 10 \<or> j div 10 = k div 10 \<and> j mod 10 < k mod 10"
    by (rule div_mod_less [symmetric]) simp
  ultimately show ?case by (simp add: lex_append digit_less)
qed auto

lemma pad_append_less:
  assumes "0 \<le> j" "j < 10 ^ n" "0 \<le> k" "k < 10 ^ n"
  shows "pad n j @ us < pad n k @ vs \<longleftrightarrow> j < k \<or> j = k \<and> us < vs"
  using assms by (simp add: lex_append pad_less pad_inj)

section \<open>Round trip and order of instants\<close>

definition instant :: "int \<Rightarrow> bool" where
  "instant t \<longleftrightarrow> 0 \<le> t \<and> t < max_instant"

lemma year_range:
  assumes "1 \<le> n" "n \<le> 3652059" "ord2ymd n = (y, m, d)"
  shows "1 \<le> y \<and> y \<le> 9999"
proof -
  from ord2ymd_correct [OF assms(1,3)] have v: "valid_date (y, m, d)" and o: "ymd2ord y m d = n"
    by auto
  have "days_before_year y < 3652059" using ymd2ord_bounds [OF v] o assms(2) by simp
  moreover have "days_before_year 10000 = 3652059" by (simp add: days_before_year_def)
  ultimately have "\<not> 10000 \<le> y" using days_before_year_mono [of 10000 y] by auto
  with v show ?thesis by (auto simp: valid_date_def)
qed

lemma day_of_instant:
  assumes "instant t"
  shows "1 \<le> t div usec_per_day + 1" "t div usec_per_day + 1 \<le> 3652059"
    "0 \<le> t mod usec_per_day" "t mod usec_per_day < usec_per_day"
  using assms by (auto simp: instant_def max_instant_def usec_per_day_def)

text \<open>The parts of an instant's text.\<close>

lemma isoformat_parts:
  assumes "instant t"
  obtains y m d where "ord2ymd (t div usec_per_day + 1) = (y, m, d)" "1 \<le> y" "y < 10000"
    "1 \<le> m" "m \<le> 12" "1 \<le> d" "d \<le> month_lengths (is_leap y) ! nat (m - 1)" "d < 32"
    "ymd2ord y m d = t div usec_per_day + 1"
    "isoformat t = pad 4 y @ ''-'' @ pad 2 m @ ''-'' @ pad 2 d @ ''T''
       @ clock_text (t mod usec_per_day) @ ''+00:00''"
proof -
  obtain y m d where e: "ord2ymd (t div usec_per_day + 1) = (y, m, d)" by (metis prod_cases3)
  note c = ord2ymd_correct [OF day_of_instant(1) [OF assms] e]
  note r = year_range [OF day_of_instant(1,2) [OF assms] e]
  have "nat (m - 1) < 12" using c by (auto simp: valid_date_def)
  from month_lengths_bounds [OF this, of "is_leap y"] have "d < 32" using c
    by (auto simp: valid_date_def)
  then show thesis using c r e by (intro that [OF e]) (auto simp: valid_date_def isoformat_def)
qed

lemma read_date_pads:
  assumes "1 \<le> y" "y < 10000" "1 \<le> m" "m \<le> 12" "1 \<le> d"
    "d \<le> month_lengths (is_leap y) ! nat (m - 1)" "d < 32"
  shows "read_date (pad 4 y @ ''-'' @ pad 2 m @ ''-'' @ pad 2 d) = Some (ymd2ord y m d)"
proof -
  have "read_digits 0 (pad 4 y) = Some y" using read_digits_pad [of y 4 0] assms by simp
  then show ?thesis using assms by (simp add: read_date_def nth_append)
qed

lemma read_fraction_pad: "0 \<le> f \<Longrightarrow> f < 1000000 \<Longrightarrow> read_fraction (pad 6 f) = Some f"
proof -
  assume f: "0 \<le> f" "f < 1000000"
  then have "read_digits 0 (pad 6 f) = Some f" using read_digits_pad [of f 6 0] by simp
  moreover have "pad 6 f \<noteq> []" by (metis length_pad list.size(3) zero_neq_numeral)
  ultimately show ?thesis by (simp add: read_fraction_def)
qed

lemma read_clock_text:
  assumes "0 \<le> us" "us < usec_per_day"
  shows "read_clock (clock_text us) = Some us"
proof -
  define s where "s = us div 1000000"
  define f where "f = us mod 1000000"
  have s: "0 \<le> s" "s < 86400" and f: "0 \<le> f" "f < 1000000" and us: "us = s * 1000000 + f"
    using assms by (auto simp: s_def f_def usec_per_day_def)
  have h: "0 \<le> s div 3600" "s div 3600 < 24" "s div 3600 < 100" using s by auto
  have tx: "clock_text us = pad 2 (s div 3600) @ '':'' @ pad 2 (s div 60 mod 60) @ '':''
      @ pad 2 (s mod 60) @ (if f = 0 then '''' else ''.'' @ pad 6 f)"
    by (simp add: clock_text_def Let_def s_def f_def)
  have "read_clock (clock_text us)
      = Some ((s div 3600 * 3600 + s div 60 mod 60 * 60) * 1000000 + s mod 60 * 1000000 + f)"
    unfolding tx using h f
    by (simp add: read_clock_def Let_def nth_append read_fraction_pad)
  moreover have "(s div 3600 * 3600 + s div 60 mod 60 * 60) * 1000000 + s mod 60 * 1000000
      = s * 1000000"
    by (metis distrib_right hms_sum)
  ultimately show ?thesis using us by simp
qed

lemma clock_text_no_offset: "c \<in> set (clock_text us) \<Longrightarrow> \<not> is_offset_start c"
proof -
  have "\<not> is_offset_start (CHR '':'')" "\<not> is_offset_start (CHR ''.'')"
    by (simp_all add: is_offset_start_def)
  then show "c \<in> set (clock_text us) \<Longrightarrow> \<not> is_offset_start c"
    by (auto simp: clock_text_def Let_def dest: pad_no_offset split: if_splits)
qed

text \<open>\<open>fromisoformat (isoformat t)\<close> is the instant itself.\<close>

lemma read_time_clock:
  assumes "instant t"
  shows "read_time (t div usec_per_day + 1) (clock_text (t mod usec_per_day) @ ''+00:00'') = Aware t"
proof -
  let ?c = "clock_text (t mod usec_per_day)"
  have plus: "is_offset_start (CHR ''+'')" by (simp add: is_offset_start_def)
  have "takeWhile (\<lambda>c. \<not> is_offset_start c) (?c @ ''+00:00'') = ?c"
    "dropWhile (\<lambda>c. \<not> is_offset_start c) (?c @ ''+00:00'') = ''+00:00''"
    using clock_text_no_offset plus by (simp_all add: takeWhile_append2 dropWhile_append2)
  moreover have "read_clock ?c = Some (t mod usec_per_day)"
    by (rule read_clock_text) (use day_of_instant [OF assms] in auto)
  moreover have "read_offset ''+00:00'' = Some 0"
    by (simp add: read_offset_def read2_def digit_val_def)
  ultimately show ?thesis by (simp add: read_time_def)
qed

lemma fromisoformat_isoformat:
  assumes "instant t"
  shows "fromisoformat (isoformat t) = Aware t"
proof -
  obtain y m d where p: "1 \<le> y" "y < 10000" "1 \<le> m" "m \<le> 12" "1 \<le> d"
    "d \<le> month_lengths (is_leap y) ! nat (m - 1)" "d < 32"
    "ymd2ord y m d = t div usec_per_day + 1"
    and tx: "isoformat t = pad 4 y @ ''-'' @ pad 2 m @ ''-'' @ pad 2 d @ ''T''
       @ clock_text (t mod usec_per_day) @ ''+00:00''"
    by (rule isoformat_parts [OF assms])
  have "read_date (take 10 (isoformat t)) = Some (t div usec_per_day + 1)"
    using read_date_pads [OF p(1-7)] p(8) by (simp add: tx)
  moreover have "drop 11 (isoformat t) = clock_text (t mod usec_per_day) @ ''+00:00''"
    "length (isoformat t) \<noteq> 10"
    by (simp_all add: tx)
  ultimately show ?thesis using read_time_clock [OF assms] by (simp add: fromisoformat_def)
qed

lemma fraction_less:
  assumes "0 \<le> f" "f < 1000000" "0 \<le> f'" "f' < 1000000"
  shows "(if f = 0 then '''' else ''.'' @ pad 6 f) @ ''+00:00''
      < (if f' = 0 then '''' else ''.'' @ pad 6 f') @ ''+00:00'' \<longleftrightarrow> f < f'"
  using assms by (auto simp: pad_append_less less_char_def)

lemma hms_text_less:
  assumes "0 \<le> s" "s < 86400" "0 \<le> s'" "s' < 86400"
  shows "pad 2 (s div 3600) @ '':'' @ pad 2 (s div 60 mod 60) @ '':'' @ pad 2 (s mod 60) @ us
      < pad 2 (s' div 3600) @ '':'' @ pad 2 (s' div 60 mod 60) @ '':'' @ pad 2 (s' mod 60) @ vs
    \<longleftrightarrow> s < s' \<or> s = s' \<and> us < vs"
proof -
  have "0 \<le> s div 3600" "s div 3600 < 100" "0 \<le> s' div 3600" "s' div 3600 < 100"
    using assms by auto
  then show ?thesis by (simp add: pad_append_less hms_less)
qed

lemma clock_text_less:
  assumes "0 \<le> a" "a < usec_per_day" "0 \<le> b" "b < usec_per_day"
  shows "clock_text a @ ''+00:00'' < clock_text b @ ''+00:00'' \<longleftrightarrow> a < b"
proof -
  define s f where "s = a div 1000000" and "f = a mod 1000000"
  define s' f' where "s' = b div 1000000" and "f' = b mod 1000000"
  have s: "0 \<le> s" "s < 86400" "0 \<le> s'" "s' < 86400"
    and f: "0 \<le> f" "f < 1000000" "0 \<le> f'" "f' < 1000000"
    and ab: "a = s * 1000000 + f" "b = s' * 1000000 + f'"
    using assms by (auto simp: s_def f_def s'_def f'_def usec_per_day_def)
  have tx: "clock_text a = pad 2 (s div 3600) @ '':'' @ pad 2 (s div 60 mod 60) @ '':''
      @ pad 2 (s mod 60) @ (if f = 0 then '''' else ''.'' @ pad 6 f)"
    "clock_text b = pad 2 (s' div 3600) @ '':'' @ pad 2 (s' div 60 mod 60) @ '':''
      @ pad 2 (s' mod 60) @ (if f' = 0 then '''' else ''.'' @ pad 6 f')"
    by (simp_all add: clock_text_def Let_def s_def f_def s'_def f'_def)
  have "clock_text a @ ''+00:00'' < clock_text b @ ''+00:00'' \<longleftrightarrow> s < s' \<or> s = s' \<and> f < f'"
    unfolding tx append_assoc hms_text_less [OF s] fraction_less [OF f] ..
  then show ?thesis using f ab by auto
qed

text \<open>The order of the texts is the order of the instants.\<close>

lemma isoformat_less:
  assumes "instant s" "instant t"
  shows "isoformat s < isoformat t \<longleftrightarrow> s < t"
proof -
  let ?D = usec_per_day
  obtain y m d where e: "ord2ymd (s div ?D + 1) = (y, m, d)" "1 \<le> y" "y < 10000" "1 \<le> m" "m \<le> 12"
    "1 \<le> d" "d < 32" and tx: "isoformat s = pad 4 y @ ''-'' @ pad 2 m @ ''-'' @ pad 2 d @ ''T''
       @ clock_text (s mod ?D) @ ''+00:00''"
    by (rule isoformat_parts [OF assms(1)])
  obtain y' m' d' where e': "ord2ymd (t div ?D + 1) = (y', m', d')" "1 \<le> y'" "y' < 10000"
    "1 \<le> m'" "m' \<le> 12" "1 \<le> d'" "d' < 32"
    and tx': "isoformat t = pad 4 y' @ ''-'' @ pad 2 m' @ ''-'' @ pad 2 d' @ ''T''
       @ clock_text (t mod ?D) @ ''+00:00''"
    by (rule isoformat_parts [OF assms(2)])
  note b = day_of_instant [OF assms(1)] day_of_instant [OF assms(2)]
  have "isoformat s < isoformat t \<longleftrightarrow> y < y' \<or> y = y' \<and> (m < m' \<or> m = m' \<and>
      (d < d' \<or> d = d' \<and> s mod ?D < t mod ?D))"
    unfolding tx tx' using e e' b by (simp add: pad_append_less clock_text_less)
  also have "\<dots> \<longleftrightarrow> (y, m, d) < (y', m', d') \<or> (y, m, d) = (y', m', d') \<and> s mod ?D < t mod ?D"
    by (auto simp: less_prod_def le_less)
  also have "(y, m, d) < (y', m', d') \<longleftrightarrow> s div ?D < t div ?D"
    using ord2ymd_less [OF b(1) b(5), unfolded e(1) e'(1)] by (simp only: add_less_cancel_right)
  also have "(y, m, d) = (y', m', d') \<longleftrightarrow> s div ?D = t div ?D"
    using ord2ymd_less [OF b(1) b(5)] ord2ymd_less [OF b(5) b(1)] e(1) e'(1)
    by (metis add_right_cancel linorder_neq_iff)
  also have "s div ?D < t div ?D \<or> s div ?D = t div ?D \<and> s mod ?D < t mod ?D \<longleftrightarrow> s < t"
    by (rule div_mod_less) (simp add: usec_per_day_def)
  finally show ?thesis .
qed

lemma isoformat_eq: "instant s \<Longrightarrow> instant t \<Longrightarrow> isoformat s = isoformat t \<longleftrightarrow> s = t"
  by (metis fromisoformat_isoformat iso_time.inject(2))

lemma isoformat_le: "instant s \<Longrightarrow> instant t \<Longrightarrow> isoformat s \<le> isoformat t \<longleftrightarrow> s \<le> t"
  by (metis isoformat_eq isoformat_less le_less)

end
