(* ===== verification/Py_Json.thy ===== *)
theory Py_Json
  imports Iso_Time "HOL-Library.Multiset"
begin

text \<open>
  JSON values as the code passes them around (\<open>Json = dict[str, Any]\<close>), Python's equality on
  them, and \<open>json.dumps\<close>. An object is an association list in insertion order. Numbers are
  integers; floats inside a JSON value are outside the model.

  \<open>py_eq\<close> is Python's \<open>==\<close>: the order of the keys does not count and \<open>True == 1\<close>. The canonical
  text sorts the keys and is injective up to that order, so a digest of the text identifies the
  value up to collisions of the hash.
\<close>

datatype json =
    JNull
  | JBool bool
  | JInt int
  | JStr string
  | JArr "json list"
  | JObj "(string \<times> json) list"

type_synonym json_object = "(string \<times> json) list"

section \<open>Access\<close>

text \<open>\<open>d.get(key)\<close>, and \<open>d[key] = v\<close>, which keeps the place of a key that is there.\<close>

definition get :: "json_object \<Rightarrow> string \<Rightarrow> json option" where
  "get d k = map_of d k"

fun put :: "string \<Rightarrow> json \<Rightarrow> json_object \<Rightarrow> json_object" where
  "put k v [] = [(k, v)]"
| "put k v ((k', w) # d) = (if k' = k then (k, v) # d else (k', w) # put k v d)"

text \<open>\<open>x.get(key)\<close> where \<open>x\<close> may be no object: \<open>None\<close> stands for a missing key.\<close>

fun field :: "json \<Rightarrow> string \<Rightarrow> json option" where
  "field (JObj d) k = get d k"
| "field _ k = None"

fun is_obj :: "json \<Rightarrow> bool" where
  "is_obj (JObj _) = True"
| "is_obj _ = False"

fun as_str :: "json \<Rightarrow> string option" where
  "as_str (JStr s) = Some s"
| "as_str _ = None"

text \<open>A value that may be \<open>None\<close>.\<close>

definition opt_str :: "string option \<Rightarrow> json" where
  "opt_str v = (case v of None \<Rightarrow> JNull | Some s \<Rightarrow> JStr s)"

text \<open>Python's truth value.\<close>

fun truthy :: "json \<Rightarrow> bool" where
  "truthy JNull = False"
| "truthy (JBool b) = b"
| "truthy (JInt i) = (i \<noteq> 0)"
| "truthy (JStr s) = (s \<noteq> [])"
| "truthy (JArr xs) = (xs \<noteq> [])"
| "truthy (JObj d) = (d \<noteq> [])"

lemma opt_str_inj [simp]: "opt_str v = opt_str w \<longleftrightarrow> v = w"
  by (simp add: opt_str_def split: option.splits)

lemma get_put [simp]: "get (put k v d) k' = (if k' = k then Some v else get d k')"
  by (induction k v d rule: put.induct) (auto simp: get_def)

lemma keys_put: "fst ` set (put k v d) = insert k (fst ` set d)"
  by (induction k v d rule: put.induct) auto

lemma distinct_keys_put: "distinct (map fst d) \<Longrightarrow> distinct (map fst (put k v d))"
proof (induction k v d rule: put.induct)
  case (2 k v k' w d)
  have "set (map fst (put k v d)) = insert k (set (map fst d))" using keys_put [of k v d] by simp
  with 2 show ?case by auto
qed simp

section \<open>Equality\<close>

primrec eq_form :: "json \<Rightarrow> json" where
  "eq_form JNull = JNull"
| "eq_form (JBool b) = JInt (if b then 1 else 0)"
| "eq_form (JInt i) = JInt i"
| "eq_form (JStr s) = JStr s"
| "eq_form (JArr xs) = JArr (map eq_form xs)"
| "eq_form (JObj d) = JObj (sort_key fst (map (map_prod id eq_form) d))"

definition py_eq :: "json \<Rightarrow> json \<Rightarrow> bool" where
  "py_eq a b \<longleftrightarrow> eq_form a = eq_form b"

lemma py_eq_refl [simp]: "py_eq a a"
  by (simp add: py_eq_def)

lemma py_eq_sym: "py_eq a b \<Longrightarrow> py_eq b a"
  by (simp add: py_eq_def)

lemma py_eq_trans: "py_eq a b \<Longrightarrow> py_eq b c \<Longrightarrow> py_eq a c"
  by (simp add: py_eq_def)

section \<open>Text\<close>

primrec sort_keys :: "json \<Rightarrow> json" where
  "sort_keys JNull = JNull"
| "sort_keys (JBool b) = JBool b"
| "sort_keys (JInt i) = JInt i"
| "sort_keys (JStr s) = JStr s"
| "sort_keys (JArr xs) = JArr (map sort_keys xs)"
| "sort_keys (JObj d) = JObj (sort_key fst (map (map_prod id sort_keys) d))"

fun nat_text :: "nat \<Rightarrow> string" where
  "nat_text n = (if n < 10 then [digit (int n)] else nat_text (n div 10) @ [digit (int (n mod 10))])"

declare nat_text.simps [simp del]

definition int_text :: "int \<Rightarrow> string" where
  "int_text i = (if i < 0 then ''-'' @ nat_text (nat (- i)) else nat_text (nat i))"

definition hex_digit :: "nat \<Rightarrow> char" where
  "hex_digit n = (if n < 10 then char_of (48 + n) else char_of (87 + n))"

text \<open>One character inside a JSON string; \<open>ascii\<close> is \<open>ensure_ascii\<close>.\<close>

definition escape :: "bool \<Rightarrow> char \<Rightarrow> string" where
  "escape ascii c =
     (let n = (of_char c :: nat)
      in if n = 34 then [CHR 0x5C, CHR 0x22]
         else if n = 92 then [CHR 0x5C, CHR 0x5C]
         else if n = 10 then [CHR 0x5C, CHR ''n'']
         else if n = 13 then [CHR 0x5C, CHR ''r'']
         else if n = 9 then [CHR 0x5C, CHR ''t'']
         else if n = 8 then [CHR 0x5C, CHR ''b'']
         else if n = 12 then [CHR 0x5C, CHR ''f'']
         else if n < 32 \<or> ascii \<and> 126 < n
           then [CHR 0x5C, CHR ''u'', CHR ''0'', CHR ''0'', hex_digit (n div 16), hex_digit (n mod 16)]
         else [c])"

definition quote :: "bool \<Rightarrow> string \<Rightarrow> string" where
  "quote ascii s = [CHR 0x22] @ concat (map (escape ascii) s) @ [CHR 0x22]"

fun join :: "string \<Rightarrow> string list \<Rightarrow> string" where
  "join sep [] = []"
| "join sep [x] = x"
| "join sep (x # y # xs) = x @ sep @ join sep (y # xs)"

text \<open>The style: \<open>ensure_ascii\<close>, the item separator and the key separator.\<close>

type_synonym style = "bool \<times> string \<times> string"

definition member_text :: "style \<Rightarrow> string \<times> string \<Rightarrow> string" where
  "member_text st kv = quote (fst st) (fst kv) @ snd (snd st) @ snd kv"

primrec render :: "style \<Rightarrow> json \<Rightarrow> string" where
  "render st JNull = ''null''"
| "render st (JBool b) = (if b then ''true'' else ''false'')"
| "render st (JInt i) = int_text i"
| "render st (JStr s) = quote (fst st) s"
| "render st (JArr xs) = ''['' @ join (fst (snd st)) (map (render st) xs) @ '']''"
| "render st (JObj d) =
     ''{'' @ join (fst (snd st)) (map (member_text st) (map (map_prod id (render st)) d)) @ ''}''"

definition compact :: style where
  "compact = (False, '','', '':'')"

definition compact_ascii :: style where
  "compact_ascii = (True, '','', '':'')"

definition default_style :: style where
  "default_style = (True, '', '', '': '')"

text \<open>\<open>json.dumps(value, sort_keys=True, ...)\<close>\<close>

definition dumps :: "style \<Rightarrow> json \<Rightarrow> string" where
  "dumps st j = render st (sort_keys j)"

section \<open>The canonical text is injective\<close>

text \<open>
  An encoder is self-delimiting when two texts that go on with a delimiter (or end) can only be
  equal if the encoded values and the rests are. The lemmas build this up from the scalars.
\<close>

definition is_digit_char :: "char \<Rightarrow> bool" where
  "is_digit_char c \<longleftrightarrow> digit_val c \<noteq> None"

definition delim :: "string \<Rightarrow> bool" where
  "delim r \<longleftrightarrow> r = [] \<or> \<not> is_digit_char (hd r)"

subsection \<open>Numbers\<close>

lemma is_digit_char_digit [simp]: "k < 10 \<Longrightarrow> is_digit_char (digit (int k))"
  by (simp add: is_digit_char_def)

lemma nat_text_digits: "c \<in> set (nat_text n) \<Longrightarrow> is_digit_char c"
proof (induction n rule: nat_text.induct)
  case (1 n)
  then show ?case by (cases "n < 10") (auto simp: nat_text.simps [of n])
qed

lemma nat_text_ne [simp]: "nat_text n \<noteq> []"
  by (subst nat_text.simps) simp

lemma read_nat_text: "read_digits acc (nat_text n) = Some (acc * 10 ^ length (nat_text n) + int n)"
proof (induction n arbitrary: acc rule: nat_text.induct)
  case (1 n)
  show ?case
  proof (cases "n < 10")
    case True
    then show ?thesis by (simp add: nat_text.simps [of n])
  next
    case False
    moreover have "int (n mod 10) \<le> 9" by simp
    ultimately show ?thesis
      using "1.IH" [of acc]
      by (simp add: nat_text.simps [of n] read_digits_append algebra_simps zdiv_int zmod_int
          mult_div_mod_eq)
  qed
qed

lemma takeWhile_nat_text: "delim r \<Longrightarrow> takeWhile is_digit_char (nat_text n @ r) = nat_text n"
  by (cases r) (auto simp: takeWhile_append2 nat_text_digits delim_def)

lemma nat_text_prefix:
  assumes "nat_text n @ r = nat_text m @ r'" "delim r" "delim r'"
  shows "n = m \<and> r = r'"
proof -
  have t: "nat_text n = nat_text m" using assms by (metis takeWhile_nat_text)
  then have "Some (0 * 10 ^ length (nat_text n) + int n) = Some (0 * 10 ^ length (nat_text n) + int m)"
    by (metis read_nat_text)
  with t assms(1) show ?thesis by simp
qed

lemma minus_not_digit [simp]: "\<not> is_digit_char (CHR ''-'')"
  by (simp add: is_digit_char_def digit_val_def)

lemma hd_nat_text: "is_digit_char (hd (nat_text n))"
  by (rule nat_text_digits [of _ n]) simp

lemma hd_nat_text_app: "hd (nat_text n @ r) \<noteq> CHR ''-''"
  using hd_nat_text [of n] by (auto simp: hd_append)

lemma minus_nat_text: "CHR ''-'' # s \<noteq> nat_text n @ r"
  using hd_nat_text_app [of n r] by (metis list.sel(1))

lemma int_text_prefix:
  assumes "int_text i @ r = int_text j @ r'" "delim r" "delim r'"
  shows "i = j \<and> r = r'"
proof -
  have p: "\<And>k t. 0 \<le> k \<Longrightarrow> int_text k @ t = nat_text (nat k) @ t"
    and n: "\<And>k t. k < 0 \<Longrightarrow> int_text k @ t = CHR ''-'' # nat_text (nat (- k)) @ t"
    by (simp_all add: int_text_def)
  consider "i < 0" "j < 0" | "0 \<le> i" "0 \<le> j" | "i < 0" "0 \<le> j" | "0 \<le> i" "j < 0" by linarith
  then show ?thesis
  proof cases
    case 1
    with assms(1) have "nat_text (nat (- i)) @ r = nat_text (nat (- j)) @ r'" by (simp add: n)
    then have "nat (- i) = nat (- j) \<and> r = r'" using assms by (intro nat_text_prefix)
    with 1 show ?thesis by (metis eq_nat_nat_iff minus_equation_iff neg_0_le_iff_le less_imp_le)
  next
    case 2
    with assms(1) have "nat_text (nat i) @ r = nat_text (nat j) @ r'" by (simp add: p)
    then have "nat i = nat j \<and> r = r'" using assms by (intro nat_text_prefix)
    with 2 show ?thesis by (metis eq_nat_nat_iff)
  next
    case 3
    then have "CHR ''-'' # (nat_text (nat (- i)) @ r) = nat_text (nat j) @ r'"
      using assms(1) by (simp only: n p append_Cons)
    then show ?thesis using minus_nat_text by blast
  next
    case 4
    then have "CHR ''-'' # (nat_text (nat (- j)) @ r') = nat_text (nat i) @ r"
      using assms(1) by (simp only: n p append_Cons)
    then show ?thesis using minus_nat_text by blast
  qed
qed

subsection \<open>Strings\<close>

definition unhex :: "char \<Rightarrow> nat" where
  "unhex c = (let n = of_char c in if n < 58 then n - 48 else n - 87)"

fun unescape :: "string \<Rightarrow> (char \<times> string) option" where
  "unescape [] = None"
| "unescape (c # s) =
     (if c \<noteq> CHR 0x5C then Some (c, s)
      else case s of [] \<Rightarrow> None
        | e # t \<Rightarrow>
            if e = CHR ''n'' then Some (char_of (10::nat), t)
            else if e = CHR ''r'' then Some (char_of (13::nat), t)
            else if e = CHR ''t'' then Some (char_of (9::nat), t)
            else if e = CHR ''b'' then Some (char_of (8::nat), t)
            else if e = CHR ''f'' then Some (char_of (12::nat), t)
            else if e = CHR ''u'' then
              (case t of a # b # x # y # u \<Rightarrow> Some (char_of (unhex x * 16 + unhex y), u) | _ \<Rightarrow> None)
            else Some (e, t))"

lemma unhex_hex_digit [simp]: "n < 16 \<Longrightarrow> unhex (hex_digit n) = n"
  by (simp add: unhex_def hex_digit_def Let_def)

lemma of_char_eqD: "of_char c = (n::nat) \<Longrightarrow> c = char_of n"
  by (metis char_of_char)

lemma of_char_div_16: "(of_char c :: nat) div 16 < 16"
proof -
  have "(of_char c :: nat) < 256" by (metis nat_of_char_less_256)
  then show ?thesis by (simp add: less_mult_imp_div_less)
qed

lemma unescape_plain: "of_char c \<noteq> (92::nat) \<Longrightarrow> unescape (c # s) = Some (c, s)"
  by auto

lemma unescape_hex:
  "unescape (CHR 0x5C # CHR ''u'' # CHR ''0'' # CHR ''0'' # hex_digit (of_char c div 16)
     # hex_digit (of_char c mod 16) # s) = Some (c, s)"
proof -
  have "(of_char c :: nat) div 16 * 16 + of_char c mod 16 = of_char c" by presburger
  then show ?thesis by (simp add: of_char_div_16)
qed

lemma of_char_34: "of_char c = (34::nat) \<longleftrightarrow> c = CHR 0x22"
proof -
  have "of_char (CHR 0x22) = (34::nat)" by simp
  then show ?thesis by (metis char_of_char)
qed

lemma of_char_92: "of_char c = (92::nat) \<longleftrightarrow> c = CHR 0x5C"
proof -
  have "of_char (CHR 0x5C) = (92::nat)" by simp
  then show ?thesis by (metis char_of_char)
qed

lemma unescape_escape: "unescape (escape ascii c @ s) = Some (c, s)"
proof (cases "(of_char c :: nat) \<in> {34, 92, 10, 13, 9, 8, 12}")
  case True
  moreover have "of_char c = (34::nat) \<Longrightarrow> c = CHR 0x22" "of_char c = (92::nat) \<Longrightarrow> c = CHR 0x5C"
    by (simp_all add: of_char_34 of_char_92)
  ultimately show ?thesis by (auto simp: escape_def dest: of_char_eqD)
next
  case False
  then show ?thesis
    using unescape_hex [of c s] unescape_plain [of c s]
    by (auto simp: escape_def Let_def simp del: unescape.simps)
qed

lemma hd_escape: "of_char c \<noteq> (34::nat) \<Longrightarrow> hd (escape ascii c) \<noteq> CHR 0x22"
proof -
  assume c: "of_char c \<noteq> (34::nat)"
  have "of_char (CHR 0x22) = (34::nat)" by simp
  with c have "c \<noteq> CHR 0x22" by metis
  with c show ?thesis by (simp add: escape_def Let_def)
qed

lemma escape_ne: "escape ascii c \<noteq> []"
  by (simp add: escape_def Let_def)

lemma escape_not_quote: "CHR 0x22 # r \<noteq> escape ascii c @ s"
proof (cases "of_char c = (34::nat)")
  case True
  then show ?thesis by (simp add: escape_def)
next
  case False
  have "hd (escape ascii c @ s) = hd (escape ascii c)" using escape_ne by simp
  with hd_escape [OF False, of ascii] show ?thesis by (metis list.sel(1))
qed

lemma escapes_prefix:
  "concat (map (escape ascii) s) @ CHR 0x22 # r = concat (map (escape ascii) t) @ CHR 0x22 # r'
    \<Longrightarrow> s = t \<and> r = r'"
proof (induction s arbitrary: t)
  case Nil
  then show ?case
    by (cases t) (auto simp: escape_not_quote)
next
  case (Cons c s)
  show ?case
  proof (cases t)
    case Nil
    with Cons.prems show ?thesis
      using escape_not_quote [of r' ascii c "concat (map (escape ascii) s) @ CHR 0x22 # r"]
      by (auto simp: eq_commute)
  next
    case (Cons d u)
    with Cons.prems have eq: "escape ascii c @ concat (map (escape ascii) s) @ CHR 0x22 # r
        = escape ascii d @ concat (map (escape ascii) u) @ CHR 0x22 # r'" by simp
    then have "c = d \<and> concat (map (escape ascii) s) @ CHR 0x22 # r
        = concat (map (escape ascii) u) @ CHR 0x22 # r'"
      by (metis option.inject prod.inject unescape_escape)
    with Cons.IH Cons show ?thesis by blast
  qed
qed

lemma quote_prefix: "quote ascii s @ r = quote ascii t @ r' \<Longrightarrow> s = t \<and> r = r'"
  using escapes_prefix [of ascii s r t r'] by (simp add: quote_def)

subsection \<open>Lists and objects\<close>

definition self_delimiting :: "('a \<Rightarrow> string) \<Rightarrow> 'a \<Rightarrow> bool" where
  "self_delimiting f x \<longleftrightarrow>
     (\<forall>y r r'. f x @ r = f y @ r' \<longrightarrow> delim r \<longrightarrow> delim r' \<longrightarrow> x = y \<and> r = r')"

definition starts_item :: "string \<Rightarrow> bool" where
  "starts_item t \<longleftrightarrow> t \<noteq> [] \<and> hd t \<notin> {CHR '','', CHR '']'', CHR ''}''}"

lemma punct_not_digit [simp]:
  "\<not> is_digit_char (CHR '','')" "\<not> is_digit_char (CHR '']'')" "\<not> is_digit_char (CHR ''}'')"
  by (simp_all add: is_digit_char_def digit_val_def)

lemma join_Cons: "join sep (x # xs) = x @ (if xs = [] then [] else sep @ join sep xs)"
  by (cases xs) auto

lemma join_prefix:
  assumes "\<forall>x\<in>set xs. self_delimiting f x" and "\<And>y. starts_item (f y)"
    and "e \<in> {CHR '']'', CHR ''}''}"
    and "join '','' (map f xs) @ e # r = join '','' (map f ys) @ e # r'"
  shows "xs = ys \<and> r = r'"
  using assms(1,4)
proof (induction xs arbitrary: ys)
  case Nil
  then show ?case
  proof (cases ys)
    case (Cons y zs)
    with Nil have "hd (f y) = e"
      using assms(2) [of y] by (cases "f y") (auto simp: join_Cons starts_item_def)
    with assms(2) [of y] assms(3) show ?thesis by (auto simp: starts_item_def)
  qed simp
next
  case (Cons x xs)
  show ?case
  proof (cases ys)
    case Nil
    with Cons.prems(2) have "hd (f x) = e"
      using assms(2) [of x] by (cases "f x") (auto simp: join_Cons starts_item_def)
    with assms(2) [of x] assms(3) show ?thesis by (auto simp: starts_item_def)
  next
    case ys: (Cons y zs)
    define rest where "rest us v = (if us = [] then [] else '','' @ join '','' (map f us)) @ e # v"
      for us v
    have "f x @ rest xs r = f y @ rest zs r'"
      using Cons.prems(2) by (simp add: ys join_Cons rest_def split: if_splits)
    moreover have "delim (rest us v)" for us v
      using assms(3) by (auto simp: rest_def delim_def)
    moreover have "self_delimiting f x" using Cons.prems(1) by simp
    ultimately have xy: "x = y" and rest: "rest xs r = rest zs r'"
      unfolding self_delimiting_def by blast+
    have "xs = [] \<longleftrightarrow> zs = []"
      using rest assms(3) by (auto simp: rest_def split: if_splits)
    then have "join '','' (map f xs) @ e # r = join '','' (map f zs) @ e # r'"
      using rest by (auto simp: rest_def split: if_splits)
    then have "xs = zs \<and> r = r'" using Cons.IH Cons.prems(1) by simp
    with xy ys show ?thesis by simp
  qed
qed

lemma quote_self_delimiting: "self_delimiting (quote ascii) s"
  unfolding self_delimiting_def using quote_prefix by blast

lemma member_self_delimiting:
  assumes "self_delimiting f (snd kv)"
  shows "self_delimiting (\<lambda>kv. member_text compact (fst kv, f (snd kv))) kv"
  unfolding self_delimiting_def
proof (intro allI impI)
  fix y r r'
  assume "member_text compact (fst kv, f (snd kv)) @ r = member_text compact (fst y, f (snd y)) @ r'"
    and d: "delim r" "delim r'"
  then have "quote False (fst kv) @ ('':'' @ f (snd kv) @ r)
      = quote False (fst y) @ ('':'' @ f (snd y) @ r')"
    by (simp add: member_text_def compact_def)
  then have "fst kv = fst y" and "f (snd kv) @ r = f (snd y) @ r'"
    using quote_prefix by blast+
  moreover have "snd kv = snd y \<and> r = r'"
    using assms \<open>f (snd kv) @ r = f (snd y) @ r'\<close> d unfolding self_delimiting_def by blast
  ultimately show "kv = y \<and> r = r'" by (simp add: prod_eq_iff)
qed

subsection \<open>Values\<close>

text \<open>The first character of a text tells the constructor.\<close>

definition kind :: "char \<Rightarrow> nat" where
  "kind c = (if is_digit_char c \<or> c = CHR ''-'' then 2
             else if c = CHR ''n'' then 0 else if c = CHR ''t'' \<or> c = CHR ''f'' then 1
             else if c = CHR 0x22 then 3 else if c = CHR ''['' then 4 else if c = CHR ''{'' then 5
             else 6)"

primrec json_kind :: "json \<Rightarrow> nat" where
  "json_kind JNull = 0"
| "json_kind (JBool _) = 1"
| "json_kind (JInt _) = 2"
| "json_kind (JStr _) = 3"
| "json_kind (JArr _) = 4"
| "json_kind (JObj _) = 5"

lemma not_digits [simp]:
  "\<not> is_digit_char (CHR ''n'')" "\<not> is_digit_char (CHR ''t'')" "\<not> is_digit_char (CHR ''f'')"
  "\<not> is_digit_char (CHR 0x22)" "\<not> is_digit_char (CHR ''['')" "\<not> is_digit_char (CHR ''{'')"
  by (simp_all add: is_digit_char_def digit_val_def)

lemma kind_chars [simp]:
  "kind (CHR ''n'') = 0" "kind (CHR ''t'') = 1" "kind (CHR ''f'') = 1" "kind (CHR 0x22) = 3"
  "kind (CHR ''['') = 4" "kind (CHR ''{'') = 5" "kind (CHR ''-'') = 2"
  "kind (CHR '','') = 6" "kind (CHR '']'') = 6" "kind (CHR ''}'') = 6"
  by (simp_all add: kind_def)

lemma kind_digit: "is_digit_char c \<Longrightarrow> kind c = 2"
  by (simp add: kind_def)

lemma kind_int_text: "kind (hd (int_text i)) = 2"
  by (simp add: int_text_def kind_digit hd_nat_text)

lemma int_text_ne [simp]: "int_text i \<noteq> []"
  by (simp add: int_text_def)

lemma render_ne [simp]: "render st j \<noteq> []"
  by (cases j) (simp_all add: quote_def)

lemma kind_render: "kind (hd (render st j)) = json_kind j"
  by (cases j) (simp_all add: kind_int_text quote_def)

lemma json_kind_le: "json_kind j \<noteq> 6"
  by (cases j) simp_all

lemma kind_starts: "t \<noteq> [] \<Longrightarrow> kind (hd t) \<noteq> 6 \<Longrightarrow> starts_item t"
  by (auto simp: starts_item_def)

lemma starts_item_render: "starts_item (render st j)"
  by (rule kind_starts) (simp_all add: kind_render json_kind_le)

lemma starts_item_member: "starts_item (member_text st kv)"
  by (simp add: starts_item_def member_text_def quote_def)

lemma same_kind:
  assumes "render st a @ r = render st b @ r'" shows "json_kind a = json_kind b"
proof -
  have "hd (render st a @ r) = hd (render st b @ r')" using assms by simp
  then have "hd (render st a) = hd (render st b)" by simp
  then show ?thesis by (metis kind_render)
qed

lemma render_self_delimiting: "self_delimiting (render compact) a"
proof (induction a)
  case JNull
  show ?case unfolding self_delimiting_def
  proof (intro allI impI)
    fix y r r' assume e: "render compact JNull @ r = render compact y @ r'"
    from same_kind [OF e] e show "JNull = y \<and> r = r'" by (cases y) auto
  qed
next
  case (JBool b)
  show ?case unfolding self_delimiting_def
  proof (intro allI impI)
    fix y r r' assume e: "render compact (JBool b) @ r = render compact y @ r'"
    from same_kind [OF e] e show "JBool b = y \<and> r = r'" by (cases y) (auto split: if_splits)
  qed
next
  case (JInt i)
  show ?case unfolding self_delimiting_def
  proof (intro allI impI)
    fix y r r' assume e: "render compact (JInt i) @ r = render compact y @ r'" "delim r" "delim r'"
    from same_kind [OF e(1)] obtain k where "y = JInt k" by (cases y) auto
    with e int_text_prefix [of i r k r'] show "JInt i = y \<and> r = r'" by simp
  qed
next
  case (JStr s)
  show ?case unfolding self_delimiting_def
  proof (intro allI impI)
    fix y r r' assume e: "render compact (JStr s) @ r = render compact y @ r'"
    from same_kind [OF e(1)] obtain t where "y = JStr t" by (cases y) auto
    with e quote_prefix [of "fst compact" s r t r'] show "JStr s = y \<and> r = r'" by simp
  qed
next
  case (JArr xs)
  show ?case unfolding self_delimiting_def
  proof (intro allI impI)
    fix y r r' assume e: "render compact (JArr xs) @ r = render compact y @ r'"
    from same_kind [OF e(1)] obtain ys where y: "y = JArr ys" by (cases y) auto
    have "join '','' (map (render compact) xs) @ CHR '']'' # r
        = join '','' (map (render compact) ys) @ CHR '']'' # r'"
      using e by (simp add: y compact_def)
    moreover have "\<forall>x\<in>set xs. self_delimiting (render compact) x" using JArr by blast
    ultimately have "xs = ys \<and> r = r'"
      using join_prefix [of xs "render compact" "CHR '']''" r ys r'] starts_item_render by blast
    with y show "JArr xs = y \<and> r = r'" by simp
  qed
next
  case (JObj d)
  show ?case unfolding self_delimiting_def
  proof (intro allI impI)
    fix y r r' assume e: "render compact (JObj d) @ r = render compact y @ r'"
    from same_kind [OF e(1)] obtain d' where y: "y = JObj d'" by (cases y) auto
    let ?f = "\<lambda>kv. member_text compact (fst kv, render compact (snd kv))"
    have m: "map (member_text compact) (map (map_prod id (render compact)) u) = map ?f u" for u
      by (simp add: map_prod_def case_prod_beta)
    have "join '','' (map ?f d) @ CHR ''}'' # r = join '','' (map ?f d') @ CHR ''}'' # r'"
      using e by (simp only: y render.simps m) (simp add: compact_def)
    moreover have "\<forall>kv\<in>set d. self_delimiting ?f kv"
      using JObj by (intro ballI member_self_delimiting) (meson snds.intros)
    ultimately have "d = d' \<and> r = r'"
      using join_prefix [of d ?f "CHR ''}''" r d' r'] starts_item_member by blast
    with y show "JObj d = y \<and> r = r'" by simp
  qed
qed

lemma dumps_inj: "dumps compact a = dumps compact b \<longleftrightarrow> sort_keys a = sort_keys b"
proof
  assume "dumps compact a = dumps compact b"
  then have "render compact (sort_keys a) @ [] = render compact (sort_keys b) @ []"
    by (simp add: dumps_def)
  then show "sort_keys a = sort_keys b"
    using render_self_delimiting [of "sort_keys a"] unfolding self_delimiting_def delim_def by blast
qed (simp add: dumps_def)

text \<open>Equal texts of objects with distinct keys give equal texts of every member.\<close>

lemma map_of_sort_key:
  assumes "distinct (map fst d)" shows "map_of (sort_key fst d) = map_of d"
proof (rule map_of_eqI)
  have "mset (map fst (sort_key fst d)) = mset (map fst d)" by (simp only: mset_map mset_sort)
  then have "distinct (map fst (sort_key fst d))" using assms by (metis mset_eq_imp_distinct_iff)
  then show "\<forall>k\<in>set (map fst (sort_key fst d)). map_of (sort_key fst d) k = map_of d k"
    using assms by (auto intro!: map_of_is_SomeI [symmetric] simp: map_of_eq_Some_iff)
qed simp

lemma sort_keys_get:
  assumes "sort_keys (JObj a) = sort_keys (JObj b)" "distinct (map fst a)" "distinct (map fst b)"
  shows "map_option sort_keys (get a k) = map_option sort_keys (get b k)"
proof -
  have m: "map_of (map (map_prod id sort_keys) d) k = map_option sort_keys (map_of d k)" for d
    by (induction d) auto
  have f: "map fst (map (map_prod id sort_keys) d) = map fst d" for d by simp
  have "map_of (sort_key fst (map (map_prod id sort_keys) a))
      = map_of (sort_key fst (map (map_prod id sort_keys) b))" using assms(1) by simp
  then have "map_of (map (map_prod id sort_keys) a) = map_of (map (map_prod id sort_keys) b)"
    by (metis assms(2,3) f map_of_sort_key)
  then show ?thesis by (metis get_def m)
qed

lemma dumps_field:
  assumes "dumps compact (JObj a) = dumps compact (JObj b)" "distinct (map fst a)" "distinct (map fst b)"
  shows "map_option sort_keys (get a k) = map_option sort_keys (get b k)"
  using assms sort_keys_get dumps_inj by blast

lemma sort_keys_opt_str [simp]: "sort_keys (opt_str v) = opt_str v"
  by (simp add: opt_str_def split: option.split)

text \<open>Sorting the keys of a sorted value changes nothing.\<close>

lemma insort_key_fst_map:
  "insort_key fst (map_prod id g x) (map (map_prod id g) xs) = map (map_prod id g) (insort_key fst x xs)"
  by (induction xs) (auto simp: map_prod_def split: prod.split)

lemma sort_key_fst_map: "sort_key fst (map (map_prod id g) xs) = map (map_prod id g) (sort_key fst xs)"
proof (induction xs)
  case (Cons x xs)
  show ?case by (simp only: list.map sort_key_simps Cons.IH insort_key_fst_map)
qed simp

lemma sort_keys_idem [simp]: "sort_keys (sort_keys j) = sort_keys j"
proof (induction j)
  case (JArr xs)
  then show ?case by simp
next
  case (JObj d)
  let ?g = "map_prod id sort_keys"
  have g: "?g (?g kv) = ?g kv" if "kv \<in> set d" for kv
    using JObj [OF that, of "snd kv"] by (cases kv) (simp add: snds.simps)
  have "map (?g \<circ> ?g) (sort_key fst d) = map ?g (sort_key fst d)" using g by simp
  then have "map ?g (sort_key fst (map ?g d)) = sort_key fst (map ?g d)"
    by (simp only: sort_key_fst_map map_map)
  moreover have "sort_key fst (sort_key fst (map ?g d)) = sort_key fst (map ?g d)"
    by (rule sort_key_id_if_sorted) simp
  ultimately show ?case by (simp only: sort_keys.simps)
qed simp_all

end
