(* ===== verification/Hash_Chain.thy ===== *)
theory Hash_Chain
  imports Py_Json
begin

text \<open>
  Hash-chained audit tables. A row carries the hash of the row before it and the hash of its own
  canonical text; the verifier recomputes both in insertion order. \<open>H\<close> is SHA-256 in hexadecimal,
  a parameter: the results hold for every function, and what a reader would get from collision
  resistance is stated as an explicit pair of colliding texts.
\<close>

text \<open>\<open>"0" * 64\<close>\<close>

definition genesis :: string where
  "genesis = replicate 64 (CHR ''0'')"

text \<open>\<open>_canonical_sha256(value)\<close>\<close>

definition canonical_sha256 :: "(string \<Rightarrow> string) \<Rightarrow> json \<Rightarrow> string" where
  "canonical_sha256 H value = H (dumps compact value)"

text \<open>
  The verification loop: \<open>enc\<close> is what the verifier hashes of a row, \<open>prev\<close> and \<open>hash\<close> its two
  hash columns.
\<close>

fun chain_from :: "(string \<Rightarrow> string) \<Rightarrow> ('r \<Rightarrow> string) \<Rightarrow> ('r \<Rightarrow> string) \<Rightarrow> ('r \<Rightarrow> string) \<Rightarrow>
    string \<Rightarrow> 'r list \<Rightarrow> bool" where
  "chain_from H enc prev hash previous [] = True"
| "chain_from H enc prev hash previous (r # rs) =
     (if prev r \<noteq> previous then False
      else if H (enc r) \<noteq> hash r then False
      else chain_from H enc prev hash (H (enc r)) rs)"

text \<open>The hash a new row has to point back to: the last row's, or genesis.\<close>

definition tip :: "('r \<Rightarrow> string) \<Rightarrow> string \<Rightarrow> 'r list \<Rightarrow> string" where
  "tip hash start rs = (if rs = [] then start else hash (last rs))"

lemma tip_Nil [simp]: "tip hash start [] = start"
  by (simp add: tip_def)

lemma tip_snoc [simp]: "tip hash start (rs @ [r]) = hash r"
  by (simp add: tip_def)

lemma tip_Cons: "tip hash start (r # rs) = tip hash (hash r) rs"
  by (simp add: tip_def)

lemma chain_from_append:
  "chain_from H enc prev hash start (rs @ ts) \<longleftrightarrow>
     chain_from H enc prev hash start rs \<and> chain_from H enc prev hash (tip hash start rs) ts"
  by (induction rs arbitrary: start) (auto simp: tip_Cons)

lemma chain_from_snoc:
  "chain_from H enc prev hash start (rs @ [r]) \<longleftrightarrow>
     chain_from H enc prev hash start rs \<and> prev r = tip hash start rs \<and> hash r = H (enc r)"
  by (auto simp: chain_from_append)

text \<open>Two rows among the given ones that hash different texts to the same digest.\<close>

definition colliding :: "(string \<Rightarrow> string) \<Rightarrow> ('r \<Rightarrow> string) \<Rightarrow> 'r list \<Rightarrow> 'r list \<Rightarrow> bool" where
  "colliding H enc rs ts \<longleftrightarrow>
     (\<exists>r\<in>set rs. \<exists>t\<in>set ts. enc r \<noteq> enc t \<and> H (enc r) = H (enc t))"

lemma colliding_snoc: "colliding H enc rs ts \<Longrightarrow> colliding H enc (rs @ [r]) (ts @ [t])"
  by (auto simp: colliding_def)

text \<open>
  The contract of an audit table: the hashed text determines the content of the row and the hash it
  points back to.
\<close>

locale hash_chain =
  fixes enc :: "'r \<Rightarrow> string" and prev :: "'r \<Rightarrow> string" and hash :: "'r \<Rightarrow> string"
  assumes enc_row: "enc r = enc s \<Longrightarrow> hash r = hash s \<Longrightarrow> r = s"
    and enc_prev: "enc r = enc s \<Longrightarrow> prev r = prev s"
begin

text \<open>
  Tamper evidence: two tables that both verify and end in the same hash are the same table, or two
  of their texts collide, or one of their texts hashes to the genesis value.
\<close>

lemma tamper_evident:
  assumes "chain_from H enc prev hash start rs" "chain_from H enc prev hash start ts"
    and "tip hash start rs = tip hash start ts"
  shows "rs = ts \<or> colliding H enc rs ts \<or> (\<exists>r\<in>set (rs @ ts). H (enc r) = start)"
  using assms
proof (induction rs arbitrary: ts rule: rev_induct)
  case Nil
  then show ?case
    by (cases ts rule: rev_cases) (auto simp: chain_from_snoc)
next
  case (snoc r rs)
  show ?case
  proof (cases ts rule: rev_cases)
    case Nil
    with snoc.prems show ?thesis by (auto simp: chain_from_snoc)
  next
    case ts: (snoc us t)
    from snoc.prems have ok: "chain_from H enc prev hash start rs" "prev r = tip hash start rs"
      "hash r = H (enc r)" "chain_from H enc prev hash start us" "prev t = tip hash start us"
      "hash t = H (enc t)" "hash r = hash t"
      by (auto simp: ts chain_from_snoc)
    show ?thesis
    proof (cases "enc r = enc t")
      case True
      with enc_row enc_prev ok have "r = t" and "tip hash start rs = tip hash start us" by metis+
      then show ?thesis
        using snoc.IH [OF ok(1) ok(4)] colliding_snoc [of H enc rs us] by (auto simp: ts)
    next
      case False
      with ok have "colliding H enc (rs @ [r]) ts" by (auto simp: ts colliding_def)
      then show ?thesis by blast
    qed
  qed
qed

text \<open>A change of one row inside a table of the same tip is evident.\<close>

lemma change_evident:
  assumes "chain_from H enc prev hash start (rs @ r # ts)" "r \<noteq> r'"
    and "tip hash start (rs @ r # ts) = tip hash start (rs @ r' # ts)"
    and "\<forall>x\<in>set (rs @ r # r' # ts). H (enc x) \<noteq> start"
    and "\<not> colliding H enc (rs @ r # ts) (rs @ r' # ts)"
  shows "\<not> chain_from H enc prev hash start (rs @ r' # ts)"
  using tamper_evident [OF assms(1) _ assms(3)] assms(2,4,5) by auto

end

end
