(* ===== verification/Effects.thy ===== *)
theory Effects
  imports Hash_Chain
begin

text \<open>
  \<open>frost_core/effects.py\<close>: the durable ledger of the protocol \<open>frost-effect/1.0\<close>. The tables
  \<open>effects\<close> and \<open>effect_history\<close> are lists of rows, each public method is one definition over
  them, and the JSON columns are kept decoded.

  \<open>clk i\<close> is the \<open>i\<close>-th reading of \<open>datetime.now(UTC)\<close> inside a call; the UUIDs a call draws are
  arguments.
\<close>

section \<open>Data\<close>

datatype effect_state =
    PENDING_AUTHORIZATION
  | AUTHORIZED
  | CLAIMED
  | EXECUTING
  | RECOVERY_REQUIRED
  | EXECUTED
  | VERIFIED
  | PUBLISHED
  | ACKNOWLEDGED
  | DENIED
  | FAILED_RETRYABLE
  | FAILED_TERMINAL
  | VERIFICATION_FAILED
  | CANCELLED

primrec state_text :: "effect_state \<Rightarrow> string" where
  "state_text PENDING_AUTHORIZATION = ''PENDING_AUTHORIZATION''"
| "state_text AUTHORIZED = ''AUTHORIZED''"
| "state_text CLAIMED = ''CLAIMED''"
| "state_text EXECUTING = ''EXECUTING''"
| "state_text RECOVERY_REQUIRED = ''RECOVERY_REQUIRED''"
| "state_text EXECUTED = ''EXECUTED''"
| "state_text VERIFIED = ''VERIFIED''"
| "state_text PUBLISHED = ''PUBLISHED''"
| "state_text ACKNOWLEDGED = ''ACKNOWLEDGED''"
| "state_text DENIED = ''DENIED''"
| "state_text FAILED_RETRYABLE = ''FAILED_RETRYABLE''"
| "state_text FAILED_TERMINAL = ''FAILED_TERMINAL''"
| "state_text VERIFICATION_FAILED = ''VERIFICATION_FAILED''"
| "state_text CANCELLED = ''CANCELLED''"

definition terminal_states :: "effect_state set" where
  "terminal_states = {ACKNOWLEDGED, DENIED, FAILED_TERMINAL, VERIFICATION_FAILED, CANCELLED}"

record effect_request =
  capability :: string
  payload :: json
  idempotency_key :: string
  request_id :: string
  actor :: string
  expires_at :: "string option"
  created_at :: string

text \<open>\<open>asdict(request)\<close> and \<open>EffectRequest.sha256\<close>\<close>

definition request_dict :: "effect_request \<Rightarrow> json" where
  "request_dict r = JObj
     [(''capability'', JStr (capability r)), (''payload'', payload r),
      (''idempotency_key'', JStr (idempotency_key r)), (''request_id'', JStr (request_id r)),
      (''actor'', JStr (actor r)), (''expires_at'', opt_str (expires_at r)),
      (''created_at'', JStr (created_at r))]"

definition request_sha256 :: "(string \<Rightarrow> string) \<Rightarrow> effect_request \<Rightarrow> string" where
  "request_sha256 H r = canonical_sha256 H (request_dict r)"

record effect_authorization =
  authorization_id :: string
  auth_request_sha256 :: string
  auth_capability :: string
  auth_actor :: string
  approved :: bool
  auth_expires_at :: string
  constraints :: json

definition authorization_dict :: "effect_authorization \<Rightarrow> json" where
  "authorization_dict a = JObj
     [(''authorization_id'', JStr (authorization_id a)),
      (''request_sha256'', JStr (auth_request_sha256 a)),
      (''capability'', JStr (auth_capability a)), (''actor'', JStr (auth_actor a)),
      (''approved'', JBool (approved a)), (''expires_at'', JStr (auth_expires_at a)),
      (''constraints'', constraints a)]"

text \<open>
  \<open>valid_for\<close>: an expiry that does not parse denies. One without an offset makes the last
  comparison raise, when it is reached.
\<close>

definition valid_for :: "(string \<Rightarrow> string) \<Rightarrow> int \<Rightarrow> effect_authorization \<Rightarrow> effect_request \<Rightarrow> bool result" where
  "valid_for H now a r =
     (case fromisoformat (auth_expires_at a) of
        NotIso \<Rightarrow> Inr False
      | expires \<Rightarrow>
          if \<not> approved a then Inr False
          else if auth_request_sha256 a \<noteq> request_sha256 H r then Inr False
          else if auth_capability a \<noteq> capability r then Inr False
          else (case expires of
                  Aware t \<Rightarrow> Inr (t > now)
                | _ \<Rightarrow> Inl (TypeError ''can't compare offset-naive and offset-aware datetimes'')))"

record effect_claim =
  claim_effect_id :: string
  claim_token_of :: string
  worker_id :: string
  lease_until :: string
  claim_attempt :: int

record execution_intent =
  execution_token :: string
  provider_id :: string
  provider_idempotency_key :: string
  operation :: string
  prepared_at :: string

definition intent_dict :: "execution_intent \<Rightarrow> json" where
  "intent_dict i = JObj
     [(''schema'', JStr ''frost-effect/1.0''), (''execution_token'', JStr (execution_token i)),
      (''provider_id'', JStr (provider_id i)),
      (''provider_idempotency_key'', JStr (provider_idempotency_key i)),
      (''operation'', JStr (operation i)), (''prepared_at'', JStr (prepared_at i))]"

record execution_record =
  result_token :: string
  result :: json
  provider_receipt :: json
  result_sha256 :: string
  recorded_at :: string

definition execution_dict :: "execution_record \<Rightarrow> json" where
  "execution_dict x = JObj
     [(''execution_token'', JStr (result_token x)), (''result'', result x),
      (''provider_receipt'', provider_receipt x), (''result_sha256'', JStr (result_sha256 x)),
      (''recorded_at'', JStr (recorded_at x))]"

record verification_record =
  verifier_id :: string
  passed :: bool
  independent :: bool
  execution_result_sha256 :: string
  evidence :: json
  verified_at :: string

text \<open>A row of the table \<open>effects\<close> and a row of \<open>effect_history\<close>.\<close>

record effect_row =
  effect_id :: string
  request :: effect_request
  row_sha256 :: string
  state :: effect_state
  attempts :: int
  max_attempts :: int
  authorization :: "effect_authorization option"
  claim_token :: "string option"
  claim_worker :: "string option"
  claim_until :: "string option"
  intent :: "execution_intent option"
  execution_result :: "execution_record option"
  verification :: "verification_record option"
  publication :: "json option"
  acknowledgement :: "json option"
  row_created_at :: string
  updated_at :: string

record history_row =
  h_effect_id :: string
  h_event :: string
  from_state :: "string option"
  to_state :: string
  payload_json :: string
  timestamp :: string
  previous_hash :: string
  row_hash :: string

record ledger =
  effects :: "effect_row list"
  history :: "history_row list"

definition empty_ledger :: ledger where
  "empty_ledger = \<lparr>effects = [], history = []\<rparr>"

section \<open>The audit history\<close>

definition history_dict :: "history_row \<Rightarrow> json" where
  "history_dict h = JObj
     [(''effect_id'', JStr (h_effect_id h)), (''event'', JStr (h_event h)),
      (''from_state'', opt_str (from_state h)), (''to_state'', JStr (to_state h)),
      (''payload_json'', JStr (payload_json h)), (''timestamp'', JStr (timestamp h)),
      (''previous_hash'', JStr (previous_hash h))]"

definition history_text :: "history_row \<Rightarrow> string" where
  "history_text h = dumps compact (history_dict h)"

text \<open>\<open>_append_history_locked\<close>; \<open>now\<close> is its reading of the clock.\<close>

definition new_history :: "(string \<Rightarrow> string) \<Rightarrow> int \<Rightarrow> string \<Rightarrow> string \<Rightarrow> effect_state option \<Rightarrow>
    effect_state \<Rightarrow> json \<Rightarrow> history_row list \<Rightarrow> history_row" where
  "new_history H now eid event from to body rows =
     (let record = \<lparr>h_effect_id = eid, h_event = event, from_state = map_option state_text from,
                    to_state = state_text to, payload_json = dumps default_style body,
                    timestamp = isoformat now, previous_hash = tip row_hash genesis rows,
                    row_hash = []\<rparr>
      in record\<lparr>row_hash := canonical_sha256 H (history_dict record)\<rparr>)"

definition append_history :: "(string \<Rightarrow> string) \<Rightarrow> int \<Rightarrow> string \<Rightarrow> string \<Rightarrow> effect_state option \<Rightarrow>
    effect_state \<Rightarrow> json \<Rightarrow> ledger \<Rightarrow> ledger" where
  "append_history H now eid event from to body led =
     led\<lparr>history := history led @ [new_history H now eid event from to body (history led)]\<rparr>"

definition verify_audit_chain :: "(string \<Rightarrow> string) \<Rightarrow> ledger \<Rightarrow> bool" where
  "verify_audit_chain H led =
     chain_from H history_text previous_hash row_hash genesis (history led)"

definition history_of :: "string \<Rightarrow> ledger \<Rightarrow> history_row list" where
  "history_of eid led = filter (\<lambda>h. h_effect_id h = eid) (history led)"

section \<open>Rows\<close>

definition row_locked :: "string \<Rightarrow> ledger \<Rightarrow> effect_row result" where
  "row_locked eid led =
     (case select_one (\<lambda>r. effect_id r = eid) (effects led) of
        None \<Rightarrow> Inl (KeyError eid) | Some r \<Rightarrow> Inr r)"

text \<open>\<open>UPDATE effects SET ... WHERE effect_id=?\<close>\<close>

definition update_effect :: "string \<Rightarrow> (effect_row \<Rightarrow> effect_row) \<Rightarrow> ledger \<Rightarrow> ledger" where
  "update_effect eid f led = led\<lparr>effects := update_where (\<lambda>r. effect_id r = eid) f (effects led)\<rparr>"

definition transition_locked :: "(string \<Rightarrow> string) \<Rightarrow> int \<Rightarrow> int \<Rightarrow> effect_row \<Rightarrow> effect_state \<Rightarrow>
    string \<Rightarrow> json \<Rightarrow> bool \<Rightarrow> bool \<Rightarrow> ledger \<Rightarrow> ledger" where
  "transition_locked H now1 now2 row next event body clear_claim clear_intent led =
     append_history H now2 (effect_id row) event (Some (state row)) next body
       (update_effect (effect_id row)
          (\<lambda>r. r\<lparr>state := next, updated_at := isoformat now1,
                 claim_token := (if clear_claim then None else claim_token r),
                 claim_worker := (if clear_claim then None else claim_worker r),
                 claim_until := (if clear_claim then None else claim_until r),
                 intent := (if clear_intent then None else intent r)\<rparr>) led)"

definition validate_claim_identity :: "effect_row \<Rightarrow> effect_claim \<Rightarrow> unit result" where
  "validate_claim_identity row c =
     (if claim_token row \<noteq> Some (claim_token_of c) \<or> claim_worker row \<noteq> Some (worker_id c)
      then Inl (EffectTransitionError ''claim identity mismatch'') else Inr ())"

definition claimed_row_locked :: "int \<Rightarrow> effect_claim \<Rightarrow> ledger \<Rightarrow> effect_row result" where
  "claimed_row_locked now c led =
     (case row_locked (claim_effect_id c) led of
        Inl e \<Rightarrow> Inl e
      | Inr row \<Rightarrow>
          if state row \<noteq> CLAIMED then Inl (EffectTransitionError ''effect is not currently claimed'')
          else (case validate_claim_identity row c of
                  Inl e \<Rightarrow> Inl e
                | Inr _ \<Rightarrow>
                    (case fromisoformat (case claim_until row of None \<Rightarrow> ''None'' | Some u \<Rightarrow> u) of
                       NotIso \<Rightarrow> Inl (ValueError ''Invalid isoformat string'')
                     | Naive _ \<Rightarrow> Inl (TypeError ''can't compare offset-naive and offset-aware datetimes'')
                     | Aware t \<Rightarrow>
                         if t \<le> now then Inl (EffectTransitionError ''claim lease has expired'')
                         else Inr row)))"

definition validate_request_expiry :: "effect_request \<Rightarrow> unit result" where
  "validate_request_expiry r =
     (case expires_at r of
        None \<Rightarrow> Inr ()
      | Some e \<Rightarrow> (case fromisoformat e of
                      NotIso \<Rightarrow> Inl (ValueError ''Invalid isoformat string'')
                    | Naive _ \<Rightarrow> Inl (ValueError ''expires_at must include a timezone'')
                    | Aware _ \<Rightarrow> Inr ()))"

definition request_expired :: "int \<Rightarrow> effect_request \<Rightarrow> bool result" where
  "request_expired now r =
     (case expires_at r of
        None \<Rightarrow> Inr False
      | Some e \<Rightarrow> (case fromisoformat e of
                      NotIso \<Rightarrow> Inl (ValueError ''Invalid isoformat string'')
                    | Naive _ \<Rightarrow> Inl (TypeError ''can't compare offset-naive and offset-aware datetimes'')
                    | Aware t \<Rightarrow> Inr (t \<le> now)))"

section \<open>Operations\<close>

definition submit :: "(string \<Rightarrow> string) \<Rightarrow> (nat \<Rightarrow> int) \<Rightarrow> string \<Rightarrow> effect_request \<Rightarrow> int \<Rightarrow>
    ledger \<Rightarrow> (string \<times> bool, ledger) outcome" where
  "submit H clk uuid rq max_att led =
     (if blank (capability rq) then (Inl (ValueError ''capability must not be empty''), led)
      else if blank (idempotency_key rq)
        then (Inl (ValueError ''idempotency_key must not be empty''), led)
      else if max_att < 1 then (Inl (ValueError ''max_attempts must be positive''), led)
      else case validate_request_expiry rq of
        Inl e \<Rightarrow> (Inl e, led)
      | Inr _ \<Rightarrow>
          if \<exists>r\<in>set (effects led). effect_id r = uuid
               \<or> idempotency_key (request r) = idempotency_key rq
          then (case select_one (\<lambda>r. idempotency_key (request r) = idempotency_key rq)
                       (effects led) of
                  None \<Rightarrow> (Inl IntegrityError, led)
                | Some row \<Rightarrow>
                    if row_sha256 row \<noteq> request_sha256 H rq
                    then (Inl (EffectConflict
                      ''idempotency key reused for a different immutable request''), led)
                    else (Inr (effect_id row, False), led))
          else
            (let stamp = isoformat (clk 0);
                 row = \<lparr>effect_id = uuid, request = rq, row_sha256 = request_sha256 H rq,
                        state = PENDING_AUTHORIZATION, attempts = 0, max_attempts = max_att,
                        authorization = None, claim_token = None, claim_worker = None,
                        claim_until = None, intent = None, execution_result = None,
                        verification = None, publication = None, acknowledgement = None,
                        row_created_at = stamp, updated_at = stamp\<rparr>
             in (Inr (uuid, True),
                 append_history H (clk 1) uuid ''effect_submitted'' None PENDING_AUTHORIZATION
                   (JObj [(''request_sha256'', JStr (request_sha256 H rq))])
                   (led\<lparr>effects := effects led @ [row]\<rparr>))))"

definition authorize :: "(string \<Rightarrow> string) \<Rightarrow> (nat \<Rightarrow> int) \<Rightarrow> string \<Rightarrow> effect_authorization \<Rightarrow>
    ledger \<Rightarrow> (effect_state, ledger) outcome" where
  "authorize H clk eid a led =
     (case row_locked eid led of
        Inl e \<Rightarrow> (Inl e, led)
      | Inr row \<Rightarrow>
          if state row \<in> {AUTHORIZED, DENIED} then
            (case authorization row of
               Some stored \<Rightarrow>
                 if py_eq (authorization_dict stored) (authorization_dict a)
                 then (Inr (state row), led)
                 else (Inl (EffectTransitionError ''authorization is already immutable''), led)
             | None \<Rightarrow> (Inl (EffectTransitionError ''authorization is already immutable''), led))
          else if state row \<noteq> PENDING_AUTHORIZATION
            then (Inl (EffectTransitionError (''cannot authorize from '' @ state_text (state row))), led)
          else (case valid_for H (clk 0) a (request row) of
            Inl e \<Rightarrow> (Inl e, led)
          | Inr ok \<Rightarrow>
              let next = (if ok then AUTHORIZED else DENIED)
              in (Inr next,
                  append_history H (clk 2) eid
                    (if ok then ''authorization_approved'' else ''authorization_denied'')
                    (Some (state row)) next
                    (JObj [(''authorization_id'', JStr (authorization_id a))])
                    (update_effect eid
                       (\<lambda>r. r\<lparr>state := next, authorization := Some a,
                              updated_at := isoformat (clk 1)\<rparr>) led))))"

text \<open>
  The rows are fetched first; each expired one is moved with the two clock readings of
  \<open>_transition_locked\<close>. \<open>datetime.min\<close> stands before every instant.
\<close>

fun recover_rows :: "(string \<Rightarrow> string) \<Rightarrow> (nat \<Rightarrow> int) \<Rightarrow> nat \<Rightarrow> int \<Rightarrow> effect_row list \<Rightarrow> int \<Rightarrow>
    ledger \<Rightarrow> (int, ledger) outcome" where
  "recover_rows H clk i now [] n led = (Inr n, led)"
| "recover_rows H clk i now (row # rows) n led =
     (let move =
        (let next = (if state row = CLAIMED
                     then (if attempts row < max_attempts row then FAILED_RETRYABLE
                           else FAILED_TERMINAL)
                     else RECOVERY_REQUIRED);
             clear = (state row = CLAIMED);
             event = (if state row = CLAIMED then ''claim_expired_before_execution''
                      else ''claim_expired_during_execution'')
         in recover_rows H clk (i + 2) now rows (n + 1)
              (transition_locked H (clk i) (clk (i + 1)) row next event
                 (JObj [(''lease_until'', opt_str (claim_until row))]) clear False led))
      in case fromisoformat (case claim_until row of None \<Rightarrow> [] | Some u \<Rightarrow> u) of
           NotIso \<Rightarrow> if 0 \<ge> now then recover_rows H clk i now rows n led else move
         | Naive _ \<Rightarrow>
             (Inl (TypeError ''can't compare offset-naive and offset-aware datetimes''), led)
         | Aware lease \<Rightarrow>
             if lease \<ge> now then recover_rows H clk i now rows n led else move)"

definition recover_expired_claims :: "(string \<Rightarrow> string) \<Rightarrow> (nat \<Rightarrow> int) \<Rightarrow> int option \<Rightarrow>
    ledger \<Rightarrow> (int, ledger) outcome" where
  "recover_expired_claims H clk given led =
     recover_rows H clk 1 (case given of None \<Rightarrow> clk 0 | Some t \<Rightarrow> t)
       (filter (\<lambda>r. state r \<in> {CLAIMED, EXECUTING} \<and> claim_until r \<noteq> None) (effects led)) 0 led"

text \<open>
  \<open>claim\<close>: \<open>rclk\<close> is the clock of the nested recovery. A lease end beyond the last \<open>datetime\<close>
  raises.
\<close>

definition claim :: "(string \<Rightarrow> string) \<Rightarrow> (nat \<Rightarrow> int) \<Rightarrow> (nat \<Rightarrow> int) \<Rightarrow> string \<Rightarrow> string \<Rightarrow> int \<Rightarrow>
    ledger \<Rightarrow> (effect_claim option, ledger) outcome" where
  "claim H rclk clk uuid worker lease_seconds led0 =
     (if blank worker then (Inl (ValueError ''worker_id must not be empty''), led0)
      else if lease_seconds < 1 then (Inl (ValueError ''lease_seconds must be positive''), led0)
      else case recover_expired_claims H rclk None led0 of
        (Inl e, led) \<Rightarrow> (Inl e, led)
      | (Inr _, led) \<Rightarrow>
          (case first_by (\<lambda>r. (row_created_at r, effect_id r))
                  (filter (\<lambda>r. state r \<in> {AUTHORIZED, FAILED_RETRYABLE}) (effects led)) of
             None \<Rightarrow> (Inr None, led)
           | Some row \<Rightarrow>
               (case request_expired (clk 0) (request row) of
                  Inl e \<Rightarrow> (Inl e, led)
                | Inr True \<Rightarrow>
                    (Inr None,
                     transition_locked H (clk 1) (clk 2) row CANCELLED
                       ''request_expired_before_claim''
                       (JObj [(''expires_at'', opt_str (expires_at (request row)))]) False False led)
                | Inr False \<Rightarrow>
                    (let attempt = attempts row + 1
                     in if attempt > max_attempts row then
                          (Inr None,
                           transition_locked H (clk 1) (clk 2) row FAILED_TERMINAL
                             ''attempt_budget_exhausted'' (JObj []) False False led)
                        else if \<not> instant (clk 1 + lease_seconds * 1000000)
                          then (Inl OverflowError, led)
                        else
                          (let until = isoformat (clk 1 + lease_seconds * 1000000)
                           in (Inr (Some \<lparr>claim_effect_id = effect_id row, claim_token_of = uuid,
                                          worker_id = worker, lease_until = until,
                                          claim_attempt = attempt\<rparr>),
                               append_history H (clk 3) (effect_id row) ''effect_claimed''
                                 (Some (state row)) CLAIMED
                                 (JObj [(''worker_id'', JStr worker), (''attempt'', JInt attempt),
                                        (''lease_until'', JStr until)])
                                 (update_effect (effect_id row)
                                    (\<lambda>r. r\<lparr>state := CLAIMED, attempts := attempt,
                                           claim_token := Some uuid, claim_worker := Some worker,
                                           claim_until := Some until,
                                           updated_at := isoformat (clk 2)\<rparr>) led)))))))"

definition begin_execution :: "(string \<Rightarrow> string) \<Rightarrow> (nat \<Rightarrow> int) \<Rightarrow> string \<Rightarrow> effect_claim \<Rightarrow> string \<Rightarrow>
    string \<Rightarrow> string \<Rightarrow> ledger \<Rightarrow> (string, ledger) outcome" where
  "begin_execution H clk uuid c provider key opn led =
     (if blank provider \<or> blank key \<or> blank opn
      then (Inl (ValueError
        ''provider_id, provider_idempotency_key, and operation are required''), led)
      else case claimed_row_locked (clk 0) c led of
        Inl e \<Rightarrow> (Inl e, led)
      | Inr _ \<Rightarrow>
          (let it = \<lparr>execution_token = uuid, provider_id = provider,
                     provider_idempotency_key = key, operation = opn,
                     prepared_at = isoformat (clk 1)\<rparr>
           in (Inr uuid,
               append_history H (clk 3) (claim_effect_id c) ''execution_intent_persisted''
                 (Some CLAIMED) EXECUTING (intent_dict it)
                 (update_effect (claim_effect_id c)
                    (\<lambda>r. r\<lparr>state := EXECUTING, intent := Some it,
                           updated_at := isoformat (clk 2)\<rparr>) led))))"

definition record_execution :: "(string \<Rightarrow> string) \<Rightarrow> (nat \<Rightarrow> int) \<Rightarrow> string \<Rightarrow> string \<Rightarrow> json \<Rightarrow> json \<Rightarrow>
    ledger \<Rightarrow> (effect_state, ledger) outcome" where
  "record_execution H clk eid token res receipt led =
     (case row_locked eid led of
        Inl e \<Rightarrow> (Inl e, led)
      | Inr row \<Rightarrow>
          if state row = EXECUTED then
            (case execution_result row of
               Some stored \<Rightarrow>
                 if result_token stored = token then (Inr (state row), led)
                 else (Inl (EffectTransitionError ''execution result is already immutable''), led)
             | None \<Rightarrow> (Inl (EffectTransitionError ''execution result is already immutable''), led))
          else if state row \<notin> {EXECUTING, RECOVERY_REQUIRED}
            then (Inl (EffectTransitionError
              (''cannot record execution from '' @ state_text (state row))), led)
          else (case intent row of
            None \<Rightarrow> (Inl (EffectTransitionError
              ''execution token does not match persisted intent''), led)
          | Some it \<Rightarrow>
              if execution_token it \<noteq> token
              then (Inl (EffectTransitionError
                ''execution token does not match persisted intent''), led)
              else
                (let rec = \<lparr>result_token = token, result = res, provider_receipt = receipt,
                            result_sha256 = canonical_sha256 H res,
                            recorded_at = isoformat (clk 0)\<rparr>
                 in (Inr EXECUTED,
                     append_history H (clk 2) eid ''execution_recorded'' (Some (state row)) EXECUTED
                       (JObj [(''result_sha256'', JStr (result_sha256 rec))])
                       (update_effect eid
                          (\<lambda>r. r\<lparr>state := EXECUTED, execution_result := Some rec,
                                 updated_at := isoformat (clk 1)\<rparr>) led)))))"

definition mark_execution_failure :: "(string \<Rightarrow> string) \<Rightarrow> (nat \<Rightarrow> int) \<Rightarrow> effect_claim \<Rightarrow> json \<Rightarrow> bool \<Rightarrow>
    ledger \<Rightarrow> (effect_state, ledger) outcome" where
  "mark_execution_failure H clk c err not_invoked led =
     (case row_locked (claim_effect_id c) led of
        Inl e \<Rightarrow> (Inl e, led)
      | Inr row \<Rightarrow>
          (case validate_claim_identity row c of
             Inl e \<Rightarrow> (Inl e, led)
           | Inr _ \<Rightarrow>
               if state row \<notin> {CLAIMED, EXECUTING}
               then (Inl (EffectTransitionError
                 (''cannot record execution failure from '' @ state_text (state row))), led)
               else
                 (let next = (if not_invoked
                              then (if attempts row < max_attempts row then FAILED_RETRYABLE
                                    else FAILED_TERMINAL)
                              else RECOVERY_REQUIRED)
                  in (Inr next,
                      transition_locked H (clk 0) (clk 1) row next ''execution_failure_recorded''
                        (JObj [(''error'', err), (''provider_not_invoked'', JBool not_invoked)])
                        not_invoked False led))))"

definition verify :: "(string \<Rightarrow> string) \<Rightarrow> (nat \<Rightarrow> int) \<Rightarrow> string \<Rightarrow> string \<Rightarrow> bool \<Rightarrow> json \<Rightarrow> bool \<Rightarrow>
    ledger \<Rightarrow> (effect_state, ledger) outcome" where
  "verify H clk eid verifier pass ev indep led =
     (if blank verifier then (Inl (ValueError ''verifier_id must not be empty''), led)
      else case row_locked eid led of
        Inl e \<Rightarrow> (Inl e, led)
      | Inr row \<Rightarrow>
          if state row \<in> {VERIFIED, VERIFICATION_FAILED} then
            (case verification row of
               Some stored \<Rightarrow>
                 if verifier_id stored = verifier \<and> passed stored = pass
                 then (Inr (state row), led)
                 else (Inl (EffectTransitionError ''verification is already immutable''), led)
             | None \<Rightarrow> (Inl (EffectTransitionError ''verification is already immutable''), led))
          else if state row \<noteq> EXECUTED
            then (Inl (EffectTransitionError (''cannot verify from '' @ state_text (state row))), led)
          else (case execution_result row of
            None \<Rightarrow> (Inl AssertionError, led)
          | Some ex \<Rightarrow>
              (let ver = \<lparr>verifier_id = verifier, passed = pass, independent = indep,
                          execution_result_sha256 = canonical_sha256 H (execution_dict ex),
                          evidence = ev, verified_at = isoformat (clk 0)\<rparr>;
                   accepted = (pass \<and> indep);
                   next = (if accepted then VERIFIED else VERIFICATION_FAILED)
               in (Inr next,
                   append_history H (clk 2) eid
                     (if accepted then ''verification_passed'' else ''verification_failed'')
                     (Some (state row)) next
                     (JObj [(''verifier_id'', JStr verifier), (''passed'', JBool pass),
                            (''independent'', JBool indep)])
                     (update_effect eid
                        (\<lambda>r. r\<lparr>state := next, verification := Some ver,
                               updated_at := isoformat (clk 1)\<rparr>) led)))))"

definition publish :: "(string \<Rightarrow> string) \<Rightarrow> (nat \<Rightarrow> int) \<Rightarrow> string \<Rightarrow> json \<Rightarrow>
    ledger \<Rightarrow> (effect_state, ledger) outcome" where
  "publish H clk eid pub led =
     (case row_locked eid led of
        Inl e \<Rightarrow> (Inl e, led)
      | Inr row \<Rightarrow>
          if state row = PUBLISHED then
            (case publication row of
               Some stored \<Rightarrow>
                 if py_eq stored pub then (Inr (state row), led)
                 else (Inl (EffectTransitionError ''publication is already immutable''), led)
             | None \<Rightarrow> (Inl (EffectTransitionError ''publication is already immutable''), led))
          else if state row \<noteq> VERIFIED
            then (Inl (EffectTransitionError (''cannot publish from '' @ state_text (state row))), led)
          else
            (Inr PUBLISHED,
             append_history H (clk 1) eid ''result_published'' (Some (state row)) PUBLISHED
               (JObj [(''publication_sha256'', JStr (canonical_sha256 H pub))])
               (update_effect eid
                  (\<lambda>r. r\<lparr>state := PUBLISHED, publication := Some pub,
                         updated_at := isoformat (clk 0)\<rparr>) led)))"

definition acknowledge :: "(string \<Rightarrow> string) \<Rightarrow> (nat \<Rightarrow> int) \<Rightarrow> string \<Rightarrow> json \<Rightarrow>
    ledger \<Rightarrow> (effect_state, ledger) outcome" where
  "acknowledge H clk eid ack led =
     (case row_locked eid led of
        Inl e \<Rightarrow> (Inl e, led)
      | Inr row \<Rightarrow>
          if state row = ACKNOWLEDGED then
            (case acknowledgement row of
               Some stored \<Rightarrow>
                 if py_eq stored ack then (Inr (state row), led)
                 else (Inl (EffectTransitionError ''acknowledgement is already immutable''), led)
             | None \<Rightarrow> (Inl (EffectTransitionError ''acknowledgement is already immutable''), led))
          else if state row \<noteq> PUBLISHED
            then (Inl (EffectTransitionError
              (''cannot acknowledge from '' @ state_text (state row))), led)
          else
            (Inr ACKNOWLEDGED,
             append_history H (clk 1) eid ''delivery_acknowledged'' (Some (state row)) ACKNOWLEDGED
               (JObj [(''ack_sha256'', JStr (canonical_sha256 H ack))])
               (update_effect eid
                  (\<lambda>r. r\<lparr>state := ACKNOWLEDGED, acknowledgement := Some ack,
                         updated_at := isoformat (clk 0)\<rparr>) led)))"

definition reconcile_execution :: "(string \<Rightarrow> string) \<Rightarrow> (nat \<Rightarrow> int) \<Rightarrow> string \<Rightarrow> string \<Rightarrow> string \<Rightarrow>
    json option \<Rightarrow> json option \<Rightarrow> ledger \<Rightarrow> (effect_state, ledger) outcome" where
  "reconcile_execution H clk eid token status res receipt led =
     (if status \<notin> {''NOT_EXECUTED'', ''EXECUTED'', ''UNKNOWN''}
      then (Inl (ValueError ''invalid provider_status''), led)
      else case row_locked eid led of
        Inl e \<Rightarrow> (Inl e, led)
      | Inr row \<Rightarrow>
          if state row \<notin> {EXECUTING, RECOVERY_REQUIRED}
          then (Inl (EffectTransitionError
            (''cannot reconcile execution from '' @ state_text (state row))), led)
          else (case intent row of
            None \<Rightarrow> (Inl (EffectTransitionError
              ''execution token does not match persisted intent''), led)
          | Some it \<Rightarrow>
              if execution_token it \<noteq> token
              then (Inl (EffectTransitionError
                ''execution token does not match persisted intent''), led)
              else if status = ''UNKNOWN'' then
                (Inr RECOVERY_REQUIRED,
                 transition_locked H (clk 0) (clk 1) row RECOVERY_REQUIRED
                   ''provider_execution_unknown'' (JObj [(''execution_token'', JStr token)])
                   False False led)
              else if status = ''EXECUTED'' then
                (case (res, receipt) of
                   (Some x, Some p) \<Rightarrow> record_execution H clk eid token x p led
                 | _ \<Rightarrow> (Inl (ValueError
                     ''executed reconciliation requires result and provider_receipt''), led))
              else
                (let next = (if attempts row < max_attempts row then FAILED_RETRYABLE
                             else FAILED_TERMINAL)
                 in (Inr next,
                     transition_locked H (clk 0) (clk 1) row next
                       ''provider_confirmed_not_executed''
                       (JObj [(''execution_token'', JStr token)]) True True led))))"

text \<open>\<open>snapshot\<close> returns the decoded row, \<open>counts\<close> the number of rows of a state.\<close>

definition snapshot :: "string \<Rightarrow> ledger \<Rightarrow> effect_row result" where
  "snapshot eid led = row_locked eid led"

definition counts :: "ledger \<Rightarrow> effect_state \<Rightarrow> nat" where
  "counts led s = length (filter (\<lambda>r. state r = s) (effects led))"

end
