(* ===== verification/Effect_Protocol.thy ===== *)
theory Effect_Protocol
  imports Effects
begin

text \<open>
  What the effect ledger promises. The abstract protocol is a step relation on rows, \<open>effect_move\<close>,
  with one rule for each kind of transition and the guard that has to hold for it. A ledger step
  creates a pending row or moves one row, and appends the matching history row. Every operation of
  \<open>Effects\<close> is a sequence of ledger steps (\<open>run_op_refines\<close>), so what the steps keep is kept by
  every run.
\<close>

section \<open>The protocol\<close>

inductive effect_edge :: "effect_state \<Rightarrow> effect_state \<Rightarrow> bool" where
  "effect_edge PENDING_AUTHORIZATION AUTHORIZED"
| "effect_edge PENDING_AUTHORIZATION DENIED"
| "s \<in> {AUTHORIZED, FAILED_RETRYABLE} \<Longrightarrow> effect_edge s CLAIMED"
| "s \<in> {AUTHORIZED, FAILED_RETRYABLE} \<Longrightarrow> effect_edge s CANCELLED"
| "effect_edge CLAIMED EXECUTING"
| "s \<in> {CLAIMED, EXECUTING, RECOVERY_REQUIRED} \<Longrightarrow> effect_edge s RECOVERY_REQUIRED"
| "s \<in> {CLAIMED, EXECUTING, RECOVERY_REQUIRED} \<Longrightarrow> effect_edge s FAILED_RETRYABLE"
| "s \<in> {CLAIMED, EXECUTING, RECOVERY_REQUIRED} \<Longrightarrow> effect_edge s FAILED_TERMINAL"
| "s \<in> {EXECUTING, RECOVERY_REQUIRED} \<Longrightarrow> effect_edge s EXECUTED"
| "effect_edge EXECUTED VERIFIED"
| "effect_edge EXECUTED VERIFICATION_FAILED"
| "effect_edge VERIFIED PUBLISHED"
| "effect_edge PUBLISHED ACKNOWLEDGED"

inductive_simps effect_edge_simps: "effect_edge s t"

text \<open>The authorization approves exactly this request.\<close>

definition authorizes :: "(string \<Rightarrow> string) \<Rightarrow> effect_authorization \<Rightarrow> effect_row \<Rightarrow> bool" where
  "authorizes H a r \<longleftrightarrow> approved a \<and> auth_request_sha256 a = request_sha256 H (request r)
     \<and> auth_capability a = capability (request r)"

definition retry_state :: "effect_row \<Rightarrow> effect_state" where
  "retry_state r = (if attempts r < max_attempts r then FAILED_RETRYABLE else FAILED_TERMINAL)"

definition has_claim :: "effect_row \<Rightarrow> bool" where
  "has_claim r \<longleftrightarrow> claim_token r \<noteq> None \<and> claim_worker r \<noteq> None \<and> claim_until r \<noteq> None"

inductive effect_move :: "(string \<Rightarrow> string) \<Rightarrow> effect_row \<Rightarrow> effect_row \<Rightarrow> bool" for H where
  move_authorize: "state r = PENDING_AUTHORIZATION \<Longrightarrow> authorizes H a r \<Longrightarrow>
     effect_move H r (r\<lparr>state := AUTHORIZED, authorization := Some a, updated_at := t\<rparr>)"
| move_deny: "state r = PENDING_AUTHORIZATION \<Longrightarrow>
     effect_move H r (r\<lparr>state := DENIED, authorization := Some a, updated_at := t\<rparr>)"
| move_claim: "state r \<in> {AUTHORIZED, FAILED_RETRYABLE} \<Longrightarrow> attempts r < max_attempts r \<Longrightarrow>
     instant l \<Longrightarrow>
     effect_move H r (r\<lparr>state := CLAIMED, attempts := attempts r + 1, claim_token := Some token,
       claim_worker := Some worker, claim_until := Some (isoformat l), updated_at := t\<rparr>)"
| move_cancel: "state r \<in> {AUTHORIZED, FAILED_RETRYABLE} \<Longrightarrow>
     effect_move H r (r\<lparr>state := CANCELLED, updated_at := t\<rparr>)"
| move_begin: "state r = CLAIMED \<Longrightarrow>
     effect_move H r (r\<lparr>state := EXECUTING, intent := Some i, updated_at := t\<rparr>)"
| move_release: "state r \<in> {CLAIMED, EXECUTING} \<Longrightarrow>
     effect_move H r (r\<lparr>state := retry_state r, updated_at := t, claim_token := None,
       claim_worker := None, claim_until := None\<rparr>)"
| move_not_executed: "state r \<in> {EXECUTING, RECOVERY_REQUIRED} \<Longrightarrow> intent r = Some i \<Longrightarrow>
     effect_move H r (r\<lparr>state := retry_state r, updated_at := t, claim_token := None,
       claim_worker := None, claim_until := None, intent := None\<rparr>)"
| move_uncertain: "state r \<in> {CLAIMED, EXECUTING, RECOVERY_REQUIRED} \<Longrightarrow>
     effect_move H r (r\<lparr>state := RECOVERY_REQUIRED, updated_at := t\<rparr>)"
| move_record: "state r \<in> {EXECUTING, RECOVERY_REQUIRED} \<Longrightarrow> intent r = Some i \<Longrightarrow>
     result_token x = execution_token i \<Longrightarrow> result_sha256 x = canonical_sha256 H (result x) \<Longrightarrow>
     effect_move H r (r\<lparr>state := EXECUTED, execution_result := Some x, updated_at := t\<rparr>)"
| move_verify: "state r = EXECUTED \<Longrightarrow> execution_result r = Some x \<Longrightarrow>
     execution_result_sha256 v = canonical_sha256 H (execution_dict x) \<Longrightarrow>
     effect_move H r (r\<lparr>state := (if passed v \<and> independent v then VERIFIED
       else VERIFICATION_FAILED), verification := Some v, updated_at := t\<rparr>)"
| move_publish: "state r = VERIFIED \<Longrightarrow>
     effect_move H r (r\<lparr>state := PUBLISHED, publication := Some p, updated_at := t\<rparr>)"
| move_acknowledge: "state r = PUBLISHED \<Longrightarrow>
     effect_move H r (r\<lparr>state := ACKNOWLEDGED, acknowledgement := Some p, updated_at := t\<rparr>)"

section \<open>Well-formed rows\<close>

definition executed :: "effect_state \<Rightarrow> bool" where
  "executed s \<longleftrightarrow> s \<in> {EXECUTED, VERIFIED, VERIFICATION_FAILED, PUBLISHED, ACKNOWLEDGED}"

definition verified :: "effect_state \<Rightarrow> bool" where
  "verified s \<longleftrightarrow> s \<in> {VERIFIED, PUBLISHED, ACKNOWLEDGED}"

definition authorization_ok :: "(string \<Rightarrow> string) \<Rightarrow> effect_row \<Rightarrow> bool" where
  "authorization_ok H r \<longleftrightarrow>
     (if state r = PENDING_AUTHORIZATION then authorization r = None
      else if state r = DENIED then authorization r \<noteq> None
      else \<exists>a. authorization r = Some a \<and> authorizes H a r)"

definition claim_ok :: "effect_row \<Rightarrow> bool" where
  "claim_ok r \<longleftrightarrow>
     (state r \<in> {CLAIMED, EXECUTING} \<longrightarrow> has_claim r \<and> 1 \<le> attempts r)
     \<and> (\<forall>u. claim_until r = Some u \<longrightarrow> (\<exists>l. instant l \<and> u = isoformat l))
     \<and> (state r = EXECUTING \<longrightarrow> intent r \<noteq> None)"

definition attempts_ok :: "effect_row \<Rightarrow> bool" where
  "attempts_ok r \<longleftrightarrow> 0 \<le> attempts r \<and> attempts r \<le> max_attempts r \<and> 1 \<le> max_attempts r
     \<and> (state r \<in> {PENDING_AUTHORIZATION, AUTHORIZED, DENIED} \<longrightarrow> attempts r = 0)
     \<and> (state r = FAILED_RETRYABLE \<longrightarrow> attempts r < max_attempts r)"

definition result_ok :: "(string \<Rightarrow> string) \<Rightarrow> effect_row \<Rightarrow> bool" where
  "result_ok H r \<longleftrightarrow>
     (if executed (state r)
      then \<exists>i x. intent r = Some i \<and> execution_result r = Some x \<and> result_token x = execution_token i
             \<and> result_sha256 x = canonical_sha256 H (result x)
      else execution_result r = None)"

definition verification_ok :: "(string \<Rightarrow> string) \<Rightarrow> effect_row \<Rightarrow> bool" where
  "verification_ok H r \<longleftrightarrow>
     (if verified (state r) \<or> state r = VERIFICATION_FAILED
      then \<exists>v x. verification r = Some v \<and> execution_result r = Some x
             \<and> execution_result_sha256 v = canonical_sha256 H (execution_dict x)
             \<and> (verified (state r) \<longleftrightarrow> passed v \<and> independent v)
      else verification r = None)
     \<and> (publication r \<noteq> None \<longleftrightarrow> state r \<in> {PUBLISHED, ACKNOWLEDGED})
     \<and> (acknowledgement r \<noteq> None \<longleftrightarrow> state r = ACKNOWLEDGED)"

definition request_ok :: "(string \<Rightarrow> string) \<Rightarrow> effect_row \<Rightarrow> bool" where
  "request_ok H r \<longleftrightarrow> row_sha256 r = request_sha256 H (request r)
     \<and> validate_request_expiry (request r) = Inr () \<and> \<not> blank (capability (request r))"

definition row_ok :: "(string \<Rightarrow> string) \<Rightarrow> effect_row \<Rightarrow> bool" where
  "row_ok H r \<longleftrightarrow> request_ok H r \<and> authorization_ok H r \<and> attempts_ok r \<and> claim_ok r
     \<and> result_ok H r \<and> verification_ok H r"

lemmas row_parts = request_ok_def authorization_ok_def authorizes_def attempts_ok_def claim_ok_def
  has_claim_def result_ok_def verification_ok_def executed_def verified_def retry_state_def

lemma move_request_ok: "effect_move H r s \<Longrightarrow> request_ok H r \<Longrightarrow> request_ok H s"
  by (erule effect_move.cases) (auto simp: request_ok_def)

lemma move_authorization_ok:
  "effect_move H r s \<Longrightarrow> authorization_ok H r \<Longrightarrow> authorization_ok H s"
  by (erule effect_move.cases)
    (auto simp: authorization_ok_def authorizes_def retry_state_def split: if_splits)

lemma move_attempts_ok: "effect_move H r s \<Longrightarrow> attempts_ok r \<Longrightarrow> attempts_ok s"
  by (erule effect_move.cases) (auto simp: attempts_ok_def retry_state_def)

lemma move_claim_ok: "effect_move H r s \<Longrightarrow> attempts_ok r \<Longrightarrow> claim_ok r \<Longrightarrow> claim_ok s"
  by (erule effect_move.cases)
    (auto simp: claim_ok_def has_claim_def retry_state_def attempts_ok_def)

lemma move_result_ok: "effect_move H r s \<Longrightarrow> result_ok H r \<Longrightarrow> result_ok H s"
  by (erule effect_move.cases) (auto simp: result_ok_def executed_def retry_state_def)

lemma move_verification_ok:
  "effect_move H r s \<Longrightarrow> verification_ok H r \<Longrightarrow> verification_ok H s"
  by (erule effect_move.cases)
    (auto simp: verification_ok_def verified_def retry_state_def)

lemma move_row_ok: "effect_move H r s \<Longrightarrow> row_ok H r \<Longrightarrow> row_ok H s"
  unfolding row_ok_def
  by (blast intro: move_request_ok move_authorization_ok move_attempts_ok move_claim_ok
      move_result_ok move_verification_ok)

lemma move_edge: "effect_move H r s \<Longrightarrow> effect_edge (state r) (state s)"
  by (erule effect_move.cases) (auto simp: effect_edge_simps retry_state_def)

text \<open>What no move changes, and what is written once.\<close>

definition same_effect :: "effect_row \<Rightarrow> effect_row \<Rightarrow> bool" where
  "same_effect r s \<longleftrightarrow> effect_id s = effect_id r \<and> request s = request r
     \<and> row_sha256 s = row_sha256 r \<and> max_attempts s = max_attempts r
     \<and> row_created_at s = row_created_at r \<and> attempts r \<le> attempts s
     \<and> (authorization r \<noteq> None \<longrightarrow> authorization s = authorization r)
     \<and> (execution_result r \<noteq> None \<longrightarrow> execution_result s = execution_result r)
     \<and> (verification r \<noteq> None \<longrightarrow> verification s = verification r)
     \<and> (publication r \<noteq> None \<longrightarrow> publication s = publication r)
     \<and> (state r \<in> terminal_states \<longrightarrow> s = r)"

lemma same_effect_refl [simp]: "same_effect r r"
  by (simp add: same_effect_def)

lemma same_effect_trans: "same_effect r s \<Longrightarrow> same_effect s t \<Longrightarrow> same_effect r t"
  by (cases "state r \<in> terminal_states") (simp_all add: same_effect_def)

lemma move_not_terminal: "effect_move H r s \<Longrightarrow> state r \<notin> terminal_states"
  by (erule effect_move.cases) (auto simp: terminal_states_def)

lemma move_writes_once:
  assumes "effect_move H r s" "row_ok H r"
  shows "(authorization r \<noteq> None \<longrightarrow> authorization s = authorization r)
     \<and> (execution_result r \<noteq> None \<longrightarrow> execution_result s = execution_result r)
     \<and> (verification r \<noteq> None \<longrightarrow> verification s = verification r)
     \<and> (publication r \<noteq> None \<longrightarrow> publication s = publication r)"
proof -
  have p: "state r = PENDING_AUTHORIZATION \<Longrightarrow> authorization r = None"
    and x: "state r \<in> {EXECUTING, RECOVERY_REQUIRED} \<Longrightarrow> execution_result r = None"
    and v: "state r = EXECUTED \<Longrightarrow> verification r = None"
    and u: "state r = VERIFIED \<Longrightarrow> publication r = None"
    using assms(2)
    by (auto simp: row_ok_def authorization_ok_def result_ok_def executed_def verification_ok_def
        verified_def)
  show ?thesis using assms(1) by cases (auto simp: p x v u)
qed

lemma move_identity:
  "effect_move H r s \<Longrightarrow> effect_id s = effect_id r \<and> request s = request r
     \<and> row_sha256 s = row_sha256 r \<and> max_attempts s = max_attempts r
     \<and> row_created_at s = row_created_at r \<and> attempts r \<le> attempts s"
  by (erule effect_move.cases) simp_all

lemma move_same_effect:
  assumes "effect_move H r s" "row_ok H r" shows "same_effect r s"
  using move_not_terminal [OF assms(1)] move_writes_once [OF assms] move_identity [OF assms(1)]
  by (simp only: same_effect_def simp_thms)

section \<open>Steps of the ledger\<close>

inductive ledger_step :: "(string \<Rightarrow> string) \<Rightarrow> ledger \<Rightarrow> ledger \<Rightarrow> bool" for H where
  step_create: "effect_id r \<notin> effect_id ` set (effects led) \<Longrightarrow>
     idempotency_key (request r) \<notin> (idempotency_key \<circ> request) ` set (effects led) \<Longrightarrow>
     state r = PENDING_AUTHORIZATION \<Longrightarrow> row_ok H r \<Longrightarrow>
     ledger_step H led (append_history H now (effect_id r) event None (state r) body
       (led\<lparr>effects := effects led @ [r]\<rparr>))"
| step_move: "r \<in> set (effects led) \<Longrightarrow> effect_move H r s \<Longrightarrow>
     ledger_step H led (append_history H now (effect_id r) event (Some (state r)) (state s) body
       (update_effect (effect_id r) (\<lambda>_. s) led))"

text \<open>
  \<open>traced hs s\<close>: the history \<open>hs\<close> of one effect starts with its creation, follows edges of the
  protocol without a gap and ends in \<open>s\<close>.
\<close>

inductive traced :: "history_row list \<Rightarrow> effect_state \<Rightarrow> bool" where
  traced_created: "from_state h = None \<Longrightarrow> to_state h = state_text PENDING_AUTHORIZATION \<Longrightarrow>
     traced [h] PENDING_AUTHORIZATION"
| traced_moved: "traced hs s \<Longrightarrow> effect_edge s t \<Longrightarrow> from_state h = Some (state_text s) \<Longrightarrow>
     to_state h = state_text t \<Longrightarrow> traced (hs @ [h]) t"

definition ledger_inv :: "(string \<Rightarrow> string) \<Rightarrow> ledger \<Rightarrow> bool" where
  "ledger_inv H led \<longleftrightarrow>
     distinct (map effect_id (effects led))
     \<and> distinct (map (idempotency_key \<circ> request) (effects led))
     \<and> (\<forall>r\<in>set (effects led). row_ok H r)
     \<and> verify_audit_chain H led
     \<and> (\<forall>r\<in>set (effects led). traced (history_of (effect_id r) led) (state r))
     \<and> (\<forall>h\<in>set (history led). h_effect_id h \<in> effect_id ` set (effects led))"

lemma inv_ids: "ledger_inv H led \<Longrightarrow> distinct (map effect_id (effects led))"
  and inv_rows: "ledger_inv H led \<Longrightarrow> r \<in> set (effects led) \<Longrightarrow> row_ok H r"
  and inv_chain: "ledger_inv H led \<Longrightarrow> verify_audit_chain H led"
  and inv_traced: "ledger_inv H led \<Longrightarrow> r \<in> set (effects led) \<Longrightarrow>
        traced (history_of (effect_id r) led) (state r)"
  by (simp_all add: ledger_inv_def)

lemma empty_ledger_inv: "ledger_inv H empty_ledger"
  by (simp add: ledger_inv_def empty_ledger_def verify_audit_chain_def)

subsection \<open>The chain of the history\<close>

lemma effects_append_history [simp]: "effects (append_history H now e ev f t b led) = effects led"
  by (simp add: append_history_def)

lemma history_update_effect [simp]: "history (update_effect e f led) = history led"
  by (simp add: update_effect_def)

lemma new_history_fields [simp]:
  "h_effect_id (new_history H now e ev f t b hs) = e"
  "from_state (new_history H now e ev f t b hs) = map_option state_text f"
  "to_state (new_history H now e ev f t b hs) = state_text t"
  "previous_hash (new_history H now e ev f t b hs) = tip row_hash genesis hs"
  by (simp_all add: new_history_def Let_def)

lemma new_history_hash:
  "row_hash (new_history H now e ev f t b hs) = H (history_text (new_history H now e ev f t b hs))"
  by (simp add: new_history_def Let_def history_text_def canonical_sha256_def history_dict_def)

lemma chain_append_history:
  "verify_audit_chain H led \<Longrightarrow> verify_audit_chain H (append_history H now e ev f t b led)"
  by (simp add: verify_audit_chain_def append_history_def chain_from_snoc new_history_hash)

lemma chain_effects [simp]:
  "verify_audit_chain H (update_effect e g led) = verify_audit_chain H led"
  "verify_audit_chain H (led\<lparr>effects := rs\<rparr>) = verify_audit_chain H led"
  by (simp_all add: verify_audit_chain_def)

lemma history_of_append:
  "history_of e (append_history H now e' ev f t b led) =
     (if e = e' then history_of e led @ [new_history H now e' ev f t b (history led)]
      else history_of e led)"
  by (simp add: history_of_def append_history_def)

lemma history_of_effects [simp]:
  "history_of e (update_effect e' g led) = history_of e led"
  "history_of e (led\<lparr>effects := rs\<rparr>) = history_of e led"
  by (simp_all add: history_of_def)

lemma effects_update: "effects (update_effect e g led) =
    update_where (\<lambda>r. effect_id r = e) g (effects led)"
  by (simp add: update_effect_def)

lemma history_append: "history (append_history H now e ev f t b led) =
    history led @ [new_history H now e ev f t b (history led)]"
  by (simp add: append_history_def)

lemma set_effects_update:
  assumes "distinct (map effect_id (effects led))" "r \<in> set (effects led)" "effect_id s = effect_id r"
  shows "set (effects (update_effect (effect_id r) (\<lambda>_. s) led))
     = insert s (set (effects led) - {r})"
  using assms unique_row [OF assms(1)]
  by (auto simp: effects_update set_update_where)

subsection \<open>Every step keeps the invariant\<close>

lemma history_of_unknown:
  "\<forall>h\<in>set (history led). h_effect_id h \<in> effect_id ` set (effects led) \<Longrightarrow>
   e \<notin> effect_id ` set (effects led) \<Longrightarrow> history_of e led = []"
  by (auto simp: history_of_def filter_empty_conv)

lemma step_create_inv:
  assumes "ledger_inv H led" "effect_id r \<notin> effect_id ` set (effects led)"
    and "idempotency_key (request r) \<notin> (idempotency_key \<circ> request) ` set (effects led)"
    and "state r = PENDING_AUTHORIZATION" "row_ok H r"
  shows "ledger_inv H (append_history H now (effect_id r) ev None (state r) b
           (led\<lparr>effects := effects led @ [r]\<rparr>))" (is "ledger_inv H ?led")
proof -
  have old: "history_of (effect_id r) led = []"
    using assms(1,2) by (intro history_of_unknown) (auto simp: ledger_inv_def)
  have new: "traced [new_history H now (effect_id r) ev None PENDING_AUTHORIZATION b (history led)]
      PENDING_AUTHORIZATION"
    by (rule traced_created) simp_all
  have "traced (history_of (effect_id s) ?led) (state s)" if "s \<in> set (effects ?led)" for s
  proof (cases "s = r")
    case True
    with old new assms(4) show ?thesis by (simp add: history_of_append)
  next
    case False
    with that have s: "s \<in> set (effects led)" by simp
    with assms(2) have "effect_id s \<noteq> effect_id r" by (metis imageI)
    with s assms(1) show ?thesis by (simp add: history_of_append inv_traced)
  qed
  moreover have "verify_audit_chain H ?led"
    using assms(1) by (intro chain_append_history) (simp add: inv_chain)
  ultimately show ?thesis
    using assms by (auto simp: ledger_inv_def history_append)
qed

lemma step_move_inv:
  assumes "ledger_inv H led" "r \<in> set (effects led)" "effect_move H r s"
  shows "ledger_inv H (append_history H now (effect_id r) ev (Some (state r)) (state s) b
           (update_effect (effect_id r) (\<lambda>_. s) led))" (is "ledger_inv H ?led")
proof -
  have ok: "row_ok H r" using assms inv_rows by blast
  have id: "effect_id s = effect_id r" "request s = request r"
    using move_identity [OF assms(3)] by simp_all
  have rows: "set (effects ?led) = insert s (set (effects led) - {r})"
    using set_effects_update [OF inv_ids [OF assms(1)] assms(2) id(1)] by simp
  have uniq: "x = r" if "x \<in> set (effects led)" "effect_id x = effect_id r" for x
    using unique_row [OF inv_ids [OF assms(1)]] that assms(2) by blast
  have maps: "map effect_id (effects ?led) = map effect_id (effects led)"
    by (simp add: effects_update map_update_where id)
  have "map (idempotency_key \<circ> request) (effects ?led) = map (idempotency_key \<circ> request) (effects led)"
    using uniq id by (auto simp: effects_update update_where_def)
  moreover have "traced (history_of (effect_id x) ?led) (state x)" if "x \<in> set (effects ?led)" for x
  proof (cases "effect_id x = effect_id r")
    case True
    with that rows uniq have x: "x = s" by auto
    have "traced (history_of (effect_id r) led) (state r)" using assms inv_traced by blast
    from traced_moved [OF this move_edge [OF assms(3)]] show ?thesis
      by (simp add: x id history_of_append)
  next
    case False
    with that rows id(1) have "x \<in> set (effects led)" by auto
    with False assms(1) show ?thesis by (simp add: history_of_append inv_traced)
  qed
  moreover have "verify_audit_chain H ?led"
    using assms(1) by (intro chain_append_history) (simp add: inv_chain)
  moreover have "effect_id ` set (effects ?led) = effect_id ` set (effects led)"
    using maps by (metis list.set_map)
  ultimately show ?thesis
    using assms(1,2) move_row_ok [OF assms(3) ok] rows
    unfolding ledger_inv_def maps by (auto simp: history_append)
qed

lemma ledger_step_inv: "ledger_step H led led' \<Longrightarrow> ledger_inv H led \<Longrightarrow> ledger_inv H led'"
  by (induction rule: ledger_step.induct) (rule step_create_inv step_move_inv; assumption)+

abbreviation ledger_steps :: "(string \<Rightarrow> string) \<Rightarrow> ledger \<Rightarrow> ledger \<Rightarrow> bool" where
  "ledger_steps H \<equiv> (ledger_step H)\<^sup>*\<^sup>*"

lemma ledger_steps_inv: "ledger_steps H led led' \<Longrightarrow> ledger_inv H led \<Longrightarrow> ledger_inv H led'"
  by (induction rule: rtranclp_induct) (auto intro: ledger_step_inv)

lemma ledger_step_evolves:
  assumes "ledger_step H led led'" "ledger_inv H led"
  shows "evolves same_effect (effects led) (effects led')"
  using assms
proof cases
  case (step_create r now ev b)
  then show ?thesis by (simp add: evolvesI_append)
next
  case (step_move r s now ev b)
  then have "same_effect r s" using assms(2) by (intro move_same_effect) (auto dest: inv_rows)
  moreover have "x = r" if "x \<in> set (effects led)" "effect_id x = effect_id r" for x
    using unique_row [OF inv_ids [OF assms(2)]] that step_move by blast
  ultimately show ?thesis
    using step_move by (auto simp: effects_update intro!: evolves_update_where)
qed

lemma ledger_steps_evolve:
  "ledger_steps H led led' \<Longrightarrow> ledger_inv H led \<Longrightarrow> evolves same_effect (effects led) (effects led')"
proof (induction rule: rtranclp_induct)
  case (step a b)
  then have "ledger_inv H a" using ledger_steps_inv by blast
  with step show ?case
    using ledger_step_evolves [of H a b] evolves_trans [of same_effect] same_effect_trans by blast
qed (simp add: evolves_refl)

section \<open>Every operation is a sequence of steps\<close>

lemma row_locked_Inr: "row_locked eid led = Inr row \<Longrightarrow> row \<in> set (effects led) \<and> effect_id row = eid"
  by (auto simp: row_locked_def dest: select_one_SomeD split: option.splits)

lemma update_effect_row:
  assumes "ledger_inv H led" "row \<in> set (effects led)"
  shows "update_effect (effect_id row) f led = update_effect (effect_id row) (\<lambda>_. f row) led"
proof -
  have "update_where (\<lambda>r. effect_id r = effect_id row) f (effects led)
      = update_where (\<lambda>r. effect_id r = effect_id row) (\<lambda>_. f row) (effects led)"
    unfolding update_where_def using unique_row [OF inv_ids [OF assms(1)]] assms(2)
    by (intro map_cong refl) (metis (no_types, lifting))
  then show ?thesis by (simp add: update_effect_def)
qed

lemma step_by_move:
  assumes "ledger_inv H led" "row \<in> set (effects led)" "effect_move H row (f row)"
    and "eid = effect_id row" "from = Some (state row)" "next = state (f row)"
  shows "ledger_steps H led (append_history H now eid ev from next b (update_effect eid f led))"
  using assms step_move [of row led H "f row" now ev b] update_effect_row [OF assms(1,2), of f]
  by (auto intro: r_into_rtranclp)

text \<open>The three ways \<open>_transition_locked\<close> is called.\<close>

lemma transition_keep:
  assumes "ledger_inv H led" "row \<in> set (effects led)"
    and "effect_move H row (row\<lparr>state := next, updated_at := isoformat t1\<rparr>)"
  shows "ledger_steps H led (transition_locked H t1 t2 row next ev b False False led)"
  unfolding transition_locked_def using assms by (intro step_by_move) simp_all

lemma transition_release:
  assumes "ledger_inv H led" "row \<in> set (effects led)"
    and "effect_move H row (row\<lparr>state := next, updated_at := isoformat t1, claim_token := None,
           claim_worker := None, claim_until := None\<rparr>)"
  shows "ledger_steps H led (transition_locked H t1 t2 row next ev b True False led)"
  unfolding transition_locked_def using assms by (intro step_by_move) simp_all

lemma transition_clear:
  assumes "ledger_inv H led" "row \<in> set (effects led)"
    and "effect_move H row (row\<lparr>state := next, updated_at := isoformat t1, claim_token := None,
           claim_worker := None, claim_until := None, intent := None\<rparr>)"
  shows "ledger_steps H led (transition_locked H t1 t2 row next ev b True True led)"
  unfolding transition_locked_def using assms by (intro step_by_move) simp_all

lemmas transitions = transition_keep transition_release transition_clear

subsection \<open>Submit and authorize\<close>

lemma submit_steps:
  assumes "ledger_inv H led" shows "ledger_steps H led (snd (submit H clk uuid rq n led))"
proof (cases "\<exists>r\<in>set (effects led). effect_id r = uuid
                 \<or> idempotency_key (request r) = idempotency_key rq")
  case True
  then show ?thesis by (auto simp: submit_def split: sum.splits option.splits)
next
  case False
  then show ?thesis
    by (auto simp: submit_def Let_def row_ok_def row_parts split: sum.splits
        intro!: r_into_rtranclp step_create
          [where r = "effect_row.make _ _ _ _ _ _ _ _ _ _ _ _ _ _ _ _ _", simplified effect_row.make_def effect_row.simps])
qed

lemma valid_for_True: "valid_for H now a rq = Inr True \<Longrightarrow>
    approved a \<and> auth_request_sha256 a = request_sha256 H rq \<and> auth_capability a = capability rq
      \<and> (\<exists>t. fromisoformat (auth_expires_at a) = Aware t \<and> now < t)"
  by (auto simp: valid_for_def split: iso_time.splits if_splits)

lemma authorize_steps:
  assumes "ledger_inv H led" shows "ledger_steps H led (snd (authorize H clk eid a led))"
proof (cases "row_locked eid led")
  case (Inr row)
  have row: "row \<in> set (effects led)" "effect_id row = eid" using row_locked_Inr [OF Inr] by simp_all
  show ?thesis
  proof (cases "state row = PENDING_AUTHORIZATION")
    case pending: True
    show ?thesis
    proof (cases "valid_for H (clk 0) a (request row)")
      case (Inr ok)
      have "effect_move H row (row\<lparr>state := if ok then AUTHORIZED else DENIED,
          authorization := Some a, updated_at := isoformat (clk 1)\<rparr>)"
        using Inr pending valid_for_True [of H "clk 0" a "request row"]
        by (cases ok) (auto simp: authorizes_def intro: move_authorize move_deny)
      then show ?thesis
        using \<open>row_locked eid led = Inr row\<close> Inr pending row assms
        by (auto simp: authorize_def Let_def intro!: step_by_move)
    qed (simp add: authorize_def Inr pending)
  qed (auto simp: authorize_def Inr split: option.splits)
qed (simp add: authorize_def)

subsection \<open>Recovery and claim\<close>

lemma transition_rows:
  assumes "x \<in> set (effects led)" "effect_id x \<noteq> effect_id row"
  shows "x \<in> set (effects (transition_locked H t1 t2 row next ev b cc ci led))"
  using assms by (auto simp: transition_locked_def effects_update set_update_where image_iff)

text \<open>One turn of the loop, with the move written as the protocol has it.\<close>

definition expire :: "(string \<Rightarrow> string) \<Rightarrow> int \<Rightarrow> int \<Rightarrow> effect_row \<Rightarrow> ledger \<Rightarrow> ledger" where
  "expire H t1 t2 row led = transition_locked H t1 t2 row
     (if state row = CLAIMED then retry_state row else RECOVERY_REQUIRED)
     (if state row = CLAIMED then ''claim_expired_before_execution''
      else ''claim_expired_during_execution'')
     (JObj [(''lease_until'', opt_str (claim_until row))]) (state row = CLAIMED) False led"

lemma recover_rows_Cons:
  "recover_rows H clk i now (row # rows) n led =
     (case fromisoformat (case claim_until row of None \<Rightarrow> [] | Some u \<Rightarrow> u) of
        NotIso \<Rightarrow> if 0 \<ge> now then recover_rows H clk i now rows n led
                  else recover_rows H clk (i + 2) now rows (n + 1)
                         (expire H (clk i) (clk (i + 1)) row led)
      | Naive _ \<Rightarrow>
          (Inl (TypeError ''can't compare offset-naive and offset-aware datetimes''), led)
      | Aware lease \<Rightarrow> if lease \<ge> now then recover_rows H clk i now rows n led
                  else recover_rows H clk (i + 2) now rows (n + 1)
                         (expire H (clk i) (clk (i + 1)) row led))"
  by (simp only: recover_rows.simps Let_def retry_state_def expire_def)

declare recover_rows.simps(2) [simp del]

lemma expire_steps:
  assumes "ledger_inv H led" "row \<in> set (effects led)" "state row \<in> {CLAIMED, EXECUTING}"
  shows "ledger_steps H led (expire H t1 t2 row led)"
  using assms
  by (cases "state row = CLAIMED")
    (auto simp: expire_def intro!: transition_release transition_keep move_release move_uncertain)

lemma recover_rows_steps:
  "ledger_inv H led \<Longrightarrow> set rows \<subseteq> set (effects led) \<Longrightarrow> distinct (map effect_id rows) \<Longrightarrow>
   \<forall>r\<in>set rows. state r \<in> {CLAIMED, EXECUTING} \<Longrightarrow>
   ledger_steps H led (snd (recover_rows H clk i now rows n led))"
proof (induction rows arbitrary: i n led)
  case (Cons row rows)
  let ?led = "expire H (clk i) (clk (i + 1)) row led"
  have step: "ledger_steps H led ?led" using Cons.prems by (intro expire_steps) auto
  then have inv: "ledger_inv H ?led" using Cons.prems(1) ledger_steps_inv by blast
  have sub: "set rows \<subseteq> set (effects ?led)"
    using Cons.prems(2,3) by (auto intro!: transition_rows simp: image_iff expire_def)
  have moved: "ledger_steps H led (snd (recover_rows H clk (i + 2) now rows (n + 1) ?led))"
  proof -
    have "distinct (map effect_id rows)" "\<forall>r\<in>set rows. state r \<in> {CLAIMED, EXECUTING}"
      using Cons.prems(3,4) by simp_all
    from Cons.IH [OF inv sub this] show ?thesis by (rule rtranclp_trans [OF step])
  qed
  have stay: "ledger_steps H led (snd (recover_rows H clk i now rows n led))"
    using Cons by simp
  show ?case
    unfolding recover_rows_Cons using moved stay
    by (cases "fromisoformat (case claim_until row of None \<Rightarrow> [] | Some u \<Rightarrow> u)")
      (simp_all del: recover_rows.simps)
qed simp

lemma recover_steps:
  assumes "ledger_inv H led"
  shows "ledger_steps H led (snd (recover_expired_claims H clk given led))"
  unfolding recover_expired_claims_def
  using assms by (intro recover_rows_steps) (auto intro: distinct_map_filter dest: inv_ids)

lemma request_expired_ok:
  "validate_request_expiry rq = Inr () \<Longrightarrow> \<exists>b. request_expired now rq = Inr b"
  by (auto simp: validate_request_expiry_def request_expired_def split: option.splits iso_time.splits)

lemma claim_steps:
  assumes "ledger_inv H led" shows "ledger_steps H led (snd (claim H rclk clk uuid w secs led))"
proof -
  obtain res mid where rec: "recover_expired_claims H rclk None led = (res, mid)" by fastforce
  have mid: "ledger_steps H led mid" using recover_steps [OF assms, of rclk None] rec by simp
  then have inv: "ledger_inv H mid" using assms ledger_steps_inv by blast
  let ?ready = "filter (\<lambda>r. state r \<in> {AUTHORIZED, FAILED_RETRYABLE}) (effects mid)"
  let ?first = "first_by (\<lambda>r. (row_created_at r, effect_id r)) ?ready"
  have picked: "ledger_steps H mid (snd (claim H rclk clk uuid w secs led))"
    if ok: "\<not> blank w" "\<not> secs < 1" "res = Inr n" "?first = Some row" for n row
  proof -
    have row: "row \<in> set (effects mid)" "state row \<in> {AUTHORIZED, FAILED_RETRYABLE}"
      using first_by_filter_SomeD [OF ok(4)] by simp_all
    have rok: "row_ok H row" using inv row(1) inv_rows by blast
    then have lt: "attempts row < max_attempts row"
      using row(2) by (auto simp: row_ok_def attempts_ok_def)
    obtain b where b: "request_expired (clk 0) (request row) = Inr b"
      using rok request_expired_ok by (auto simp: row_ok_def request_ok_def)
    have cancel: "effect_move H row (row\<lparr>state := CANCELLED, updated_at := t\<rparr>)" for t
      using row(2) by (rule move_cancel)
    have first: "first_by (\<lambda>r. (row_created_at r, effect_id r))
        (filter (\<lambda>r. state r = AUTHORIZED \<or> state r = FAILED_RETRYABLE) (effects mid)) = Some row"
      using ok(4) by simp
    show ?thesis
    proof (cases b)
      case True
      then show ?thesis
        using transition_keep [OF inv row(1) cancel] by (simp add: claim_def rec ok(1-3) first b)
    next
      case False
      then show ?thesis
        using lt row by (auto simp: claim_def rec ok(1-3) first b Let_def intro!: step_by_move inv move_claim)
    qed
  qed
  show ?thesis
  proof (cases "\<not> blank w \<and> \<not> secs < 1 \<and> (\<exists>n. res = Inr n) \<and> ?first \<noteq> None")
    case True
    then show ?thesis using picked mid by (blast intro: rtranclp_trans)
  next
    case False
    then show ?thesis
      using mid by (auto simp: claim_def rec split: sum.split option.split)
  qed
qed

subsection \<open>Execution and its outcome\<close>

lemma none_not_iso: "fromisoformat ''None'' = NotIso"
  by code_simp

lemma claimed_row_Inr:
  "claimed_row_locked now c led = Inr row \<Longrightarrow>
     row_locked (claim_effect_id c) led = Inr row \<and> state row = CLAIMED
     \<and> claim_token row = Some (claim_token_of c) \<and> claim_worker row = Some (worker_id c)
     \<and> (\<exists>u t. claim_until row = Some u \<and> fromisoformat u = Aware t \<and> now < t)"
  by (auto simp: claimed_row_locked_def validate_claim_identity_def none_not_iso
      split: sum.splits if_splits option.splits iso_time.splits)

lemma begin_execution_steps:
  assumes "ledger_inv H led"
  shows "ledger_steps H led (snd (begin_execution H clk uuid c pr key opn led))"
proof (cases "claimed_row_locked (clk 0) c led")
  case (Inr row)
  have row: "row \<in> set (effects led)" "effect_id row = claim_effect_id c" "state row = CLAIMED"
    using claimed_row_Inr [OF Inr] row_locked_Inr by blast+
  then show ?thesis
    using assms Inr
    by (auto simp: begin_execution_def Let_def intro!: step_by_move move_begin)
qed (simp add: begin_execution_def)

lemma record_execution_steps:
  assumes "ledger_inv H led"
  shows "ledger_steps H led (snd (record_execution H clk eid token res rc led))"
proof (cases "row_locked eid led")
  case (Inr row)
  have row: "row \<in> set (effects led)" "effect_id row = eid" using row_locked_Inr [OF Inr] by simp_all
  show ?thesis
  proof (cases "state row \<in> {EXECUTING, RECOVERY_REQUIRED} \<and>
      (\<exists>i. intent row = Some i \<and> execution_token i = token)")
    case True
    then obtain i where i: "intent row = Some i" "execution_token i = token" by blast
    then show ?thesis
      using True assms Inr row
      by (auto simp: record_execution_def Let_def intro!: step_by_move move_record)
  qed (auto simp: record_execution_def Inr split: option.splits)
qed (simp add: record_execution_def)

lemma mark_execution_failure_steps:
  assumes "ledger_inv H led"
  shows "ledger_steps H led (snd (mark_execution_failure H clk c err ni led))"
proof (cases "row_locked (claim_effect_id c) led")
  case (Inr row)
  have row: "row \<in> set (effects led)" using row_locked_Inr [OF Inr] by simp
  show ?thesis
  proof (cases "state row \<in> {CLAIMED, EXECUTING}")
    case True
    have "ledger_steps H led (transition_locked H (clk 0) (clk 1) row (retry_state row) ev b True False led)"
      "ledger_steps H led (transition_locked H (clk 0) (clk 1) row RECOVERY_REQUIRED ev b False False led)"
      for ev b
      using True by (auto intro!: transition_release transition_keep assms row move_release move_uncertain)
    with True show ?thesis
      by (cases ni) (auto simp: mark_execution_failure_def Inr Let_def retry_state_def split: sum.split)
  qed (auto simp: mark_execution_failure_def Inr split: sum.split)
qed (simp add: mark_execution_failure_def)

lemma verify_steps:
  assumes "ledger_inv H led"
  shows "ledger_steps H led (snd (verify H clk eid v p ev ind led))"
proof (cases "row_locked eid led")
  case (Inr row)
  have row: "row \<in> set (effects led)" "effect_id row = eid" using row_locked_Inr [OF Inr] by simp_all
  show ?thesis
  proof (cases "state row = EXECUTED \<and> (\<exists>x. execution_result row = Some x)")
    case True
    then obtain x where x: "state row = EXECUTED" "execution_result row = Some x" by blast
    define ver where "ver = \<lparr>verifier_id = v, passed = p, independent = ind,
        execution_result_sha256 = canonical_sha256 H (execution_dict x),
        evidence = ev, verified_at = isoformat (clk 0)\<rparr>"
    have move: "effect_move H row (row\<lparr>state := if p \<and> ind then VERIFIED else VERIFICATION_FAILED,
        verification := Some ver, updated_at := t\<rparr>)" for t
      using move_verify [OF x, of ver H t] by (simp add: ver_def)
    show ?thesis
      using x assms Inr row move [of "isoformat (clk 1)"]
      by (auto simp: verify_def Let_def ver_def intro!: step_by_move)
  qed (auto simp: verify_def Inr split: option.splits)
qed (simp add: verify_def)

lemma publish_steps:
  assumes "ledger_inv H led" shows "ledger_steps H led (snd (publish H clk eid p led))"
proof (cases "row_locked eid led")
  case (Inr row)
  have row: "row \<in> set (effects led)" "effect_id row = eid" using row_locked_Inr [OF Inr] by simp_all
  then show ?thesis
    using assms by (auto simp: publish_def Inr split: option.split intro!: step_by_move move_publish)
qed (simp add: publish_def)

lemma acknowledge_steps:
  assumes "ledger_inv H led" shows "ledger_steps H led (snd (acknowledge H clk eid p led))"
proof (cases "row_locked eid led")
  case (Inr row)
  have row: "row \<in> set (effects led)" "effect_id row = eid" using row_locked_Inr [OF Inr] by simp_all
  then show ?thesis
    using assms
    by (auto simp: acknowledge_def Inr split: option.split intro!: step_by_move move_acknowledge)
qed (simp add: acknowledge_def)

lemma reconcile_execution_steps:
  assumes "ledger_inv H led"
  shows "ledger_steps H led (snd (reconcile_execution H clk eid token st res rc led))"
proof (cases "row_locked eid led")
  case (Inr row)
  have row: "row \<in> set (effects led)" "effect_id row = eid" using row_locked_Inr [OF Inr] by simp_all
  show ?thesis
  proof (cases "state row \<in> {EXECUTING, RECOVERY_REQUIRED} \<and> (\<exists>i. intent row = Some i)")
    case True
    then obtain i where i: "intent row = Some i" by blast
    have "ledger_steps H led (transition_locked H t1 t2 row (retry_state row) ev b True True led)"
      "ledger_steps H led (transition_locked H t1 t2 row RECOVERY_REQUIRED ev b False False led)"
      for t1 t2 ev b
      using True i
      by (auto intro!: transition_clear transition_keep assms row move_not_executed move_uncertain)
    with True i show ?thesis
      using record_execution_steps [OF assms]
      by (auto simp: reconcile_execution_def Inr Let_def retry_state_def split: option.split)
  next
    case False
    then show ?thesis by (cases "intent row") (auto simp: reconcile_execution_def Inr)
  qed
qed (simp add: reconcile_execution_def)

end
