(* ===== verification/Op_Machine.thy ===== *)
theory Op_Machine
  imports Py_Prelude
begin

text \<open>
  The interface every stateful component offers: a start state and operations on it. A run is a
  list of operations in any order, with any arguments. A component that keeps its invariant under
  each operation keeps it on every run; one whose operations also respect a preorder on states
  respects it from any point of a run to any later one.
\<close>

definition run_all :: "('op \<Rightarrow> 's \<Rightarrow> 's) \<Rightarrow> 'op list \<Rightarrow> 's \<Rightarrow> 's" where
  "run_all run ops s = foldl (\<lambda>s op. run op s) s ops"

lemma run_all_simps [simp]:
  "run_all run [] s = s"
  "run_all run (op # ops) s = run_all run ops (run op s)"
  by (simp_all add: run_all_def)

lemma run_all_append: "run_all run (ops @ ops') s = run_all run ops' (run_all run ops s)"
  by (simp add: run_all_def)

locale op_machine =
  fixes run :: "'op \<Rightarrow> 's \<Rightarrow> 's" and start :: 's and inv :: "'s \<Rightarrow> bool"
  assumes start_inv: "inv start"
    and run_inv: "inv s \<Longrightarrow> inv (run op s)"
begin

lemma run_all_inv: "inv s \<Longrightarrow> inv (run_all run ops s)"
  by (induction ops arbitrary: s) (auto intro: run_inv)

lemma reached_inv: "inv (run_all run ops start)"
  by (rule run_all_inv [OF start_inv])

text \<open>What every operation keeps in the presence of the invariant, every run keeps.\<close>

lemma run_all_keeps:
  assumes "inv s" "P s" and "\<And>s op. inv s \<Longrightarrow> P s \<Longrightarrow> P (run op s)"
  shows "P (run_all run ops s)"
  using assms(1,2)
proof (induction ops arbitrary: s)
  case (Cons op ops)
  then have "inv (run op s)" "P (run op s)" using run_inv assms(3) by blast+
  then show ?case using Cons.IH by simp
qed simp

end

locale evolving_machine = op_machine run start inv
  for run :: "'op \<Rightarrow> 's \<Rightarrow> 's" and start :: 's and inv :: "'s \<Rightarrow> bool" +
  fixes older :: "'s \<Rightarrow> 's \<Rightarrow> bool"
  assumes older_refl: "older s s"
    and older_trans: "older s t \<Longrightarrow> older t u \<Longrightarrow> older s u"
    and run_older: "inv s \<Longrightarrow> older s (run op s)"
begin

lemma run_all_older: "inv s \<Longrightarrow> older s (run_all run ops s)"
proof (induction ops arbitrary: s)
  case (Cons op ops)
  then have "older (run op s) (run_all run ops (run op s))" by (simp add: run_inv)
  with Cons.prems show ?case using run_older older_trans by fastforce
qed (simp add: older_refl)

end

end
