(* ===== verification/Effect_Claims.thy ===== *)
theory Effect_Claims
  imports Effect_Protocol Op_Machine
begin

text \<open>
  The public interface of the effect ledger as a machine, and its properties.
\<close>

section \<open>The interface\<close>

datatype effect_op =
    Submit "nat \<Rightarrow> int" string effect_request int
  | Authorize "nat \<Rightarrow> int" string effect_authorization
  | Claim "nat \<Rightarrow> int" "nat \<Rightarrow> int" string string int
  | Begin_Execution "nat \<Rightarrow> int" string effect_claim string string string
  | Record_Execution "nat \<Rightarrow> int" string string json json
  | Mark_Execution_Failure "nat \<Rightarrow> int" effect_claim json bool
  | Verify "nat \<Rightarrow> int" string string bool json bool
  | Publish "nat \<Rightarrow> int" string json
  | Acknowledge "nat \<Rightarrow> int" string json
  | Reconcile_Execution "nat \<Rightarrow> int" string string string "json option" "json option"
  | Recover_Expired_Claims "nat \<Rightarrow> int" "int option"

primrec run_effect :: "(string \<Rightarrow> string) \<Rightarrow> effect_op \<Rightarrow> ledger \<Rightarrow> ledger" where
  "run_effect H (Submit clk u rq n) led = snd (submit H clk u rq n led)"
| "run_effect H (Authorize clk e a) led = snd (authorize H clk e a led)"
| "run_effect H (Claim rclk clk u w secs) led = snd (claim H rclk clk u w secs led)"
| "run_effect H (Begin_Execution clk u c p k opn) led = snd (begin_execution H clk u c p k opn led)"
| "run_effect H (Record_Execution clk e t x rc) led = snd (record_execution H clk e t x rc led)"
| "run_effect H (Mark_Execution_Failure clk c err ni) led =
     snd (mark_execution_failure H clk c err ni led)"
| "run_effect H (Verify clk e v p ev ind) led = snd (verify H clk e v p ev ind led)"
| "run_effect H (Publish clk e p) led = snd (publish H clk e p led)"
| "run_effect H (Acknowledge clk e p) led = snd (acknowledge H clk e p led)"
| "run_effect H (Reconcile_Execution clk e t st x rc) led =
     snd (reconcile_execution H clk e t st x rc led)"
| "run_effect H (Recover_Expired_Claims clk t) led = snd (recover_expired_claims H clk t led)"

abbreviation run_effects :: "(string \<Rightarrow> string) \<Rightarrow> effect_op list \<Rightarrow> ledger \<Rightarrow> ledger" where
  "run_effects H \<equiv> run_all (run_effect H)"

lemma run_effect_steps: "ledger_inv H led \<Longrightarrow> ledger_steps H led (run_effect H op led)"
  by (cases op) (simp_all add: submit_steps authorize_steps claim_steps begin_execution_steps
      record_execution_steps mark_execution_failure_steps verify_steps publish_steps
      acknowledge_steps reconcile_execution_steps recover_steps)

abbreviation ledger_older :: "ledger \<Rightarrow> ledger \<Rightarrow> bool" where
  "ledger_older led led' \<equiv> evolves same_effect (effects led) (effects led')"

interpretation effect_machine: evolving_machine "run_effect H" empty_ledger "ledger_inv H" ledger_older
  for H
proof unfold_locales
  show "ledger_inv H empty_ledger" by (rule empty_ledger_inv)
  show "ledger_inv H (run_effect H op s)" if "ledger_inv H s" for op s
    using that run_effect_steps ledger_steps_inv by blast
  show "ledger_older s s" for s by (simp add: evolves_refl)
  show "ledger_older s u" if "ledger_older s t" "ledger_older t u" for s t u
    using that evolves_trans [of same_effect] same_effect_trans by blast
  show "ledger_older s (run_effect H op s)" if "ledger_inv H s" for s op
    using that run_effect_steps ledger_steps_evolve by blast
qed

lemma history_text_fields:
  assumes "history_text r = history_text s"
  shows "h_effect_id r = h_effect_id s \<and> h_event r = h_event s \<and> from_state r = from_state s
     \<and> to_state r = to_state s \<and> payload_json r = payload_json s \<and> timestamp r = timestamp s
     \<and> previous_hash r = previous_hash s"
proof -
  note f = dumps_field [OF assms [unfolded history_text_def history_dict_def], simplified get_def, simplified]
  show ?thesis
    using f [of "''effect_id''"] f [of "''event''"] f [of "''from_state''"] f [of "''to_state''"]
      f [of "''payload_json''"] f [of "''timestamp''"] f [of "''previous_hash''"] by simp
qed

interpretation effect_chain: hash_chain history_text previous_hash row_hash
proof unfold_locales
  show "r = s" if "history_text r = history_text s" "row_hash r = row_hash s" for r s
    using history_text_fields [OF that(1)] that(2) by (cases r, cases s) simp
  show "previous_hash r = previous_hash s" if "history_text r = history_text s" for r s
    using history_text_fields [OF that] by simp
qed

section \<open>A concrete run\<close>

text \<open>
  A small hash, clocks in 2026 (\<open>day0\<close> is 2026-01-01T00:00:00Z) and one effect taken from its
  submission to a running execution.
\<close>

definition demo_hash :: "string \<Rightarrow> string" where
  "demo_hash s = nat_text (length s)"

definition day0 :: int where
  "day0 = 63902822400000000"

definition demo_clk :: "int \<Rightarrow> nat \<Rightarrow> int" where
  "demo_clk k i = day0 + k * 1000000 + int i"

definition demo_request :: effect_request where
  "demo_request = \<lparr>capability = ''mail.send'', payload = JObj [], idempotency_key = ''k1'',
     request_id = ''q1'', actor = ''ann'', expires_at = None, created_at = ''t''\<rparr>"

definition demo_authorization :: effect_authorization where
  "demo_authorization = \<lparr>authorization_id = ''a1'',
     auth_request_sha256 = request_sha256 demo_hash demo_request, auth_capability = ''mail.send'',
     auth_actor = ''ann'', approved = True, auth_expires_at = isoformat (demo_clk 9000000 0),
     constraints = JObj []\<rparr>"

definition demo_claim :: effect_claim where
  "demo_claim = \<lparr>claim_effect_id = ''e1'', claim_token_of = ''c1'', worker_id = ''w1'',
     lease_until = isoformat (demo_clk 63 1), claim_attempt = 1\<rparr>"

definition demo_claimed :: "effect_op list" where
  "demo_claimed = [Submit (demo_clk 1) ''e1'' demo_request 3,
     Authorize (demo_clk 2) ''e1'' demo_authorization,
     Claim (demo_clk 3) (demo_clk 3) ''c1'' ''w1'' 60]"

definition demo_begin :: effect_op where
  "demo_begin = Begin_Execution (demo_clk 4) ''x1'' demo_claim ''p1'' ''pk1'' ''send''"

definition demo_verified :: "effect_op list" where
  "demo_verified = demo_claimed @ [demo_begin,
     Record_Execution (demo_clk 5) ''e1'' ''x1'' (JObj []) (JObj []),
     Verify (demo_clk 6) ''e1'' ''v1'' True (JObj []) True]"

lemma demo_not_blank: "\<not> blank ''mail.send''" "\<not> blank ''k1''" "\<not> blank ''w1''" "\<not> blank ''p1''"
  "\<not> blank ''pk1''" "\<not> blank ''send''" "\<not> blank ''v1''"
  by (simp_all add: not_blank isspace_def)

lemma demo_instant: "0 \<le> k \<Longrightarrow> k \<le> 10000000 \<Longrightarrow> i \<le> 10 \<Longrightarrow> instant (demo_clk k i)"
  by (simp add: instant_def demo_clk_def day0_def max_instant_def usec_per_day_def)

lemma demo_iso: "0 \<le> k \<Longrightarrow> k \<le> 10000000 \<Longrightarrow> i \<le> 10 \<Longrightarrow>
    fromisoformat (isoformat (demo_clk k i)) = Aware (demo_clk k i)"
  by (simp add: fromisoformat_isoformat demo_instant)

lemma demo_clk_order:
  "demo_clk k i < demo_clk l j \<longleftrightarrow> k * 1000000 + int i < l * 1000000 + int j"
  "demo_clk k i \<le> demo_clk l j \<longleftrightarrow> k * 1000000 + int i \<le> l * 1000000 + int j"
  by (simp_all add: demo_clk_def)

lemma demo_clk_add: "demo_clk 3 (Suc 0) + 60000000 = demo_clk 63 (Suc 0)"
  by (simp add: demo_clk_def)

lemmas demo_simps = demo_not_blank demo_instant demo_iso demo_clk_add demo_clk_order

lemmas effect_ops = submit_def validate_request_expiry_def authorize_def row_locked_def
  effects_update table_simps Let_def valid_for_def claim_def recover_expired_claims_def
  first_by_def request_expired_def claimed_row_locked_def validate_claim_identity_def
  begin_execution_def record_execution_def verify_def publish_def acknowledge_def
  mark_execution_failure_def transition_locked_def reconcile_execution_def

definition demo_row :: effect_row where
  "demo_row = \<lparr>effect_id = ''e1'', request = demo_request,
     row_sha256 = request_sha256 demo_hash demo_request, state = CLAIMED, attempts = 1,
     max_attempts = 3, authorization = Some demo_authorization, claim_token = Some ''c1'',
     claim_worker = Some ''w1'', claim_until = Some (isoformat (demo_clk 63 1)), intent = None,
     execution_result = None, verification = None, publication = None, acknowledgement = None,
     row_created_at = isoformat (demo_clk 1 0), updated_at = isoformat (demo_clk 3 2)\<rparr>"

lemma demo_claimed_rows: "effects (run_effects demo_hash demo_claimed empty_ledger) = [demo_row]"
  by (simp add: demo_claimed_def demo_row_def demo_simps empty_ledger_def demo_authorization_def
      demo_request_def effect_ops)

definition demo_intent :: execution_intent where
  "demo_intent = \<lparr>execution_token = ''x1'', provider_id = ''p1'', provider_idempotency_key = ''pk1'',
     operation = ''send'', prepared_at = isoformat (demo_clk 4 1)\<rparr>"

definition demo_record :: execution_record where
  "demo_record = \<lparr>result_token = ''x1'', result = JObj [], provider_receipt = JObj [],
     result_sha256 = canonical_sha256 demo_hash (JObj []), recorded_at = isoformat (demo_clk 5 0)\<rparr>"

definition demo_verification :: verification_record where
  "demo_verification = \<lparr>verifier_id = ''v1'', passed = True, independent = True,
     execution_result_sha256 = canonical_sha256 demo_hash (execution_dict demo_record),
     evidence = JObj [], verified_at = isoformat (demo_clk 6 0)\<rparr>"

lemma demo_executing_rows:
  "effects (run_effects demo_hash (demo_claimed @ [demo_begin]) empty_ledger) =
     [demo_row\<lparr>state := EXECUTING, intent := Some demo_intent, updated_at := isoformat (demo_clk 4 2)\<rparr>]"
  by (simp add: run_all_append demo_claimed_rows demo_begin_def effect_ops demo_row_def demo_claim_def
      demo_simps demo_intent_def)

lemma demo_verified_rows:
  "effects (run_effects demo_hash demo_verified empty_ledger) =
     [demo_row\<lparr>state := VERIFIED, intent := Some demo_intent, execution_result := Some demo_record,
        verification := Some demo_verification, updated_at := isoformat (demo_clk 6 1)\<rparr>]"
proof -
  have split: "demo_verified = (demo_claimed @ [demo_begin]) @
    [Record_Execution (demo_clk 5) ''e1'' ''x1'' (JObj []) (JObj []),
     Verify (demo_clk 6) ''e1'' ''v1'' True (JObj []) True]"
    by (simp add: demo_verified_def)
  show ?thesis
    unfolding split run_all_append [of _ "demo_claimed @ [demo_begin]"]
    by (simp add: demo_executing_rows effect_ops demo_row_def demo_simps demo_intent_def
        demo_record_def demo_verification_def)
qed

section \<open>Properties\<close>

text \<open>
  C1. After any sequence of operations with any arguments the hash chain of the history verifies,
  and the history of each effect is a gapless walk along the edges of the protocol from its
  creation to the state its row is in.
\<close>

theorem effect_history_sound:
  "verify_audit_chain H (run_effects H ops empty_ledger) \<and>
   list_all (\<lambda>r. traced (history_of (effect_id r) (run_effects H ops empty_ledger)) (state r))
     (effects (run_effects H ops empty_ledger))"
  using effect_machine.reached_inv [of H ops] by (simp add: list_all_iff ledger_inv_def)

text \<open>
  C2. Every public operation, on every ledger that operations can produce, is a sequence of
  protocol steps: it creates a pending effect or moves effects by the guarded rules of the
  abstract protocol, one history row for each step, and changes nothing else.
\<close>

theorem effect_operations_refine_protocol:
  "ledger_steps H (run_effects H ops empty_ledger)
     (run_effect H op (run_effects H ops empty_ledger))"
  by (rule run_effect_steps) (rule effect_machine.reached_inv)

text \<open>
  C3. No effect is claimed, executed or anything later without a stored authorization that is
  approved and names exactly the request's digest and capability.
\<close>

theorem effect_needs_authorization:
  assumes "r \<in> set (effects (run_effects H ops empty_ledger))"
    and "state r \<notin> {PENDING_AUTHORIZATION, DENIED}"
  shows "\<exists>a. authorization r = Some a \<and> approved a
    \<and> auth_request_sha256 a = request_sha256 H (request r)
    \<and> auth_capability a = capability (request r)"
proof -
  have "row_ok H r" using effect_machine.reached_inv assms(1) inv_rows by blast
  with assms(2) show ?thesis by (auto simp: row_ok_def authorization_ok_def authorizes_def)
qed

theorem effect_needs_authorization_witness:
  "\<exists>a. authorization (demo_row\<lparr>state := EXECUTING, intent := Some demo_intent,
       updated_at := isoformat (demo_clk 4 2)\<rparr>) = Some a \<and> approved a
    \<and> auth_request_sha256 a = request_sha256 demo_hash demo_request
    \<and> auth_capability a = capability demo_request"
  using effect_needs_authorization [of "demo_row\<lparr>state := EXECUTING, intent := Some demo_intent,
       updated_at := isoformat (demo_clk 4 2)\<rparr>" demo_hash "demo_claimed @ [demo_begin]"]
  by (simp add: demo_executing_rows demo_row_def)

text \<open>
  C4. An effect is verified, published or acknowledged only on a passed verification by an
  independent verifier, over the digest of exactly the execution record that is stored, whose token
  is the one of the persisted intent.
\<close>

theorem effect_verified_independently:
  assumes "r \<in> set (effects (run_effects H ops empty_ledger))"
    and "state r \<in> {VERIFIED, PUBLISHED, ACKNOWLEDGED}"
  shows "\<exists>v x i. verification r = Some v \<and> execution_result r = Some x \<and> intent r = Some i
    \<and> passed v \<and> independent v
    \<and> execution_result_sha256 v = canonical_sha256 H (execution_dict x)
    \<and> result_token x = execution_token i"
proof -
  have "row_ok H r" using effect_machine.reached_inv assms(1) inv_rows by blast
  with assms(2) show ?thesis
    by (auto simp: row_ok_def verification_ok_def verified_def result_ok_def executed_def)
qed

theorem effect_verified_independently_witness:
  "\<exists>v x i. Some demo_verification = Some v \<and> Some demo_record = Some x \<and> Some demo_intent = Some i
    \<and> passed v \<and> independent v
    \<and> execution_result_sha256 v = canonical_sha256 demo_hash (execution_dict x)
    \<and> result_token x = execution_token i"
  using effect_verified_independently [of "demo_row\<lparr>state := VERIFIED, intent := Some demo_intent,
      execution_result := Some demo_record, verification := Some demo_verification,
      updated_at := isoformat (demo_clk 6 1)\<rparr>" demo_hash demo_verified]
  by (simp add: demo_verified_rows)

text \<open>
  From any reachable ledger to any later one, effects keep their place and identity: request,
  digest and attempt budget never change, authorization, execution record, verification and
  publication are written once, and a row in a terminal state never changes at all.
\<close>

theorem effect_rows_evolve:
  "evolves same_effect (effects (run_effects H ops empty_ledger))
     (effects (run_effects H (ops @ later) empty_ledger))"
  unfolding run_all_append by (intro effect_machine.run_all_older effect_machine.reached_inv)

text \<open>
  Tamper evidence: a table that verifies and ends in the same hash as the ledger's own history
  is that history, unless two of their rows hash different texts to one digest or some row hashes
  to the genesis value.
\<close>

theorem effect_history_tamper_evident:
  assumes "verify_audit_chain H forged"
    and "tip row_hash genesis (history forged)
       = tip row_hash genesis (history (run_effects H ops empty_ledger))"
  shows "history forged = history (run_effects H ops empty_ledger)
    \<or> colliding H history_text (history forged) (history (run_effects H ops empty_ledger))
    \<or> (\<exists>h\<in>set (history forged @ history (run_effects H ops empty_ledger)). H (history_text h) = genesis)"
  using assms effect_machine.reached_inv [of H ops]
  by (intro effect_chain.tamper_evident) (auto simp: ledger_inv_def verify_audit_chain_def)

theorem effect_history_tamper_evident_witness:
  "history (run_effects demo_hash demo_claimed empty_ledger) = history (run_effects demo_hash demo_claimed empty_ledger)
    \<or> colliding demo_hash history_text (history (run_effects demo_hash demo_claimed empty_ledger))
        (history (run_effects demo_hash demo_claimed empty_ledger))
    \<or> (\<exists>h\<in>set (history (run_effects demo_hash demo_claimed empty_ledger)
          @ history (run_effects demo_hash demo_claimed empty_ledger)). demo_hash (history_text h) = genesis)"
  using effect_machine.reached_inv [of demo_hash demo_claimed]
  by (intro effect_history_tamper_evident) (simp_all add: ledger_inv_def)

section \<open>Crash safety\<close>

text \<open>
  An effect whose provider may have run, or whose outcome is settled. \<open>stays_uncertain\<close> relates a
  row to its later self when it does not leave that set.
\<close>

definition maybe_ran :: "effect_state \<Rightarrow> bool" where
  "maybe_ran s \<longleftrightarrow> s \<notin> {PENDING_AUTHORIZATION, AUTHORIZED, CLAIMED, FAILED_RETRYABLE, DENIED, CANCELLED}"

definition stays_uncertain :: "effect_row \<Rightarrow> effect_row \<Rightarrow> bool" where
  "stays_uncertain r s \<longleftrightarrow> effect_id s = effect_id r \<and> (maybe_ran (state r) \<longrightarrow> maybe_ran (state s))"

abbreviation uncertain_kept :: "ledger \<Rightarrow> ledger \<Rightarrow> bool" where
  "uncertain_kept led led' \<equiv> evolves stays_uncertain (effects led) (effects led')"

lemma uncertain_refl [simp]: "uncertain_kept led led"
  by (simp add: evolves_refl stays_uncertain_def)

lemma uncertain_trans:
  "uncertain_kept a b \<Longrightarrow> uncertain_kept b c \<Longrightarrow> uncertain_kept a c"
  by (rule evolves_trans [of stays_uncertain]) (auto simp: stays_uncertain_def)

lemma uncertain_update:
  assumes "ledger_inv H led" "row \<in> set (effects led)" "effect_id (f row) = effect_id row"
    and "maybe_ran (state row) \<longrightarrow> maybe_ran (state (f row))" "eid = effect_id row"
  shows "uncertain_kept led (update_effect eid f led)"
proof -
  have "x = row" if "x \<in> set (effects led)" "effect_id x = effect_id row" for x
    using unique_row [OF inv_ids [OF assms(1)]] that assms(2) by blast
  then have "stays_uncertain x (f x)" if "x \<in> set (effects led)" "effect_id x = effect_id row" for x
    using that assms(3,4) by (metis stays_uncertain_def)
  with assms(5) show ?thesis
    unfolding effects_update by (intro evolves_update_where) (simp_all add: stays_uncertain_def)
qed

lemma uncertain_transition:
  assumes "ledger_inv H led" "row \<in> set (effects led)"
    and "maybe_ran (state row) \<longrightarrow> maybe_ran next"
  shows "uncertain_kept led (transition_locked H t1 t2 row next ev b cc ci led)"
  unfolding transition_locked_def effects_append_history
  using assms by (intro uncertain_update) simp_all

lemma uncertain_submit: "uncertain_kept led (snd (submit H clk u rq n led))"
  by (auto simp: submit_def Let_def stays_uncertain_def intro!: evolvesI_append evolves_refl
      split: sum.split option.split)

lemma uncertain_authorize:
  "ledger_inv H led \<Longrightarrow> uncertain_kept led (snd (authorize H clk e a led))"
  by (auto simp: authorize_def Let_def maybe_ran_def dest: row_locked_Inr
      intro!: uncertain_update split: sum.split option.split)

lemma uncertain_recover_rows:
  "ledger_inv H led \<Longrightarrow> set rows \<subseteq> set (effects led) \<Longrightarrow> distinct (map effect_id rows) \<Longrightarrow>
   \<forall>r\<in>set rows. state r \<in> {CLAIMED, EXECUTING} \<Longrightarrow>
   uncertain_kept led (snd (recover_rows H clk i now rows n led))"
proof (induction rows arbitrary: i n led)
  case (Cons row rows)
  let ?led = "expire H (clk i) (clk (i + 1)) row led"
  have "ledger_steps H led ?led" using Cons.prems by (intro expire_steps) auto
  then have inv: "ledger_inv H ?led" using Cons.prems(1) ledger_steps_inv by blast
  have sub: "set rows \<subseteq> set (effects ?led)"
    using Cons.prems(2,3) by (auto intro!: transition_rows simp: image_iff expire_def)
  have "uncertain_kept led ?led"
    using Cons.prems unfolding expire_def
    by (intro uncertain_transition) (auto simp: maybe_ran_def)
  moreover have "uncertain_kept ?led (snd (recover_rows H clk (i + 2) now rows (n + 1) ?led))"
    using Cons.prems by (intro Cons.IH inv sub) simp_all
  ultimately have moved:
    "uncertain_kept led (snd (recover_rows H clk (i + 2) now rows (n + 1) ?led))"
    by (rule uncertain_trans)
  have stay: "uncertain_kept led (snd (recover_rows H clk i now rows n led))"
    using Cons by simp
  show ?case
    unfolding recover_rows_Cons using moved stay
    by (cases "fromisoformat (case claim_until row of None \<Rightarrow> [] | Some u \<Rightarrow> u)")
      (simp_all del: recover_rows.simps)
qed simp

lemma uncertain_recover:
  "ledger_inv H led \<Longrightarrow> uncertain_kept led (snd (recover_expired_claims H clk given led))"
  unfolding recover_expired_claims_def
  by (intro uncertain_recover_rows) (auto intro: distinct_map_filter dest: inv_ids)

lemma uncertain_claim:
  assumes "ledger_inv H led" shows "uncertain_kept led (snd (claim H rclk clk u w secs led))"
proof -
  obtain res mid where rec: "recover_expired_claims H rclk None led = (res, mid)" by fastforce
  have mid: "uncertain_kept led mid" using uncertain_recover [OF assms, of rclk None] rec by simp
  have inv: "ledger_inv H mid"
    using recover_steps [OF assms, of rclk None] rec assms ledger_steps_inv by fastforce
  let ?first = "first_by (\<lambda>r. (row_created_at r, effect_id r))
      (filter (\<lambda>r. state r = AUTHORIZED \<or> state r = FAILED_RETRYABLE) (effects mid))"
  have claimed: "uncertain_kept mid (snd (claim H rclk clk u w secs led))"
    if ok: "\<not> blank w" "\<not> secs < 1" "res = Inr n" for n
  proof (cases ?first)
    case None
    then show ?thesis by (simp add: claim_def rec ok)
  next
    case (Some row)
    have row: "row \<in> set (effects mid)" "\<not> maybe_ran (state row)"
      using first_by_filter_SomeD [OF Some] by (auto simp: maybe_ran_def)
    have t: "uncertain_kept mid (transition_locked H t1 t2 row nx ev b cc ci mid)"
      for t1 t2 nx ev b cc ci
      using row by (intro uncertain_transition [OF inv]) simp_all
    have c: "uncertain_kept mid (update_effect (effect_id row) f mid)"
      if "\<And>r. effect_id (f r) = effect_id r" for f
      using row that by (intro uncertain_update [OF inv]) simp_all
    show ?thesis
    proof (cases "request_expired (clk 0) (request row)")
      case (Inr b)
      then show ?thesis by (cases b) (simp_all add: claim_def rec ok Some Let_def t c)
    qed (simp add: claim_def rec ok Some)
  qed
  show ?thesis
  proof (cases "\<not> blank w \<and> \<not> secs < 1 \<and> (\<exists>n. res = Inr n)")
    case True
    then show ?thesis using claimed mid uncertain_trans by blast
  next
    case False
    then show ?thesis using mid by (auto simp: claim_def rec split: sum.split)
  qed
qed

lemma uncertain_begin:
  "ledger_inv H led \<Longrightarrow> uncertain_kept led (snd (begin_execution H clk u c p k opn led))"
  by (auto simp: begin_execution_def Let_def maybe_ran_def
      dest!: claimed_row_Inr row_locked_Inr intro!: uncertain_update split: sum.split)

lemma uncertain_record:
  "ledger_inv H led \<Longrightarrow> uncertain_kept led (snd (record_execution H clk e t x rc led))"
  by (auto simp: record_execution_def Let_def maybe_ran_def
      dest!: row_locked_Inr intro!: uncertain_update split: sum.split option.split)

lemma uncertain_verify:
  "ledger_inv H led \<Longrightarrow> uncertain_kept led (snd (verify H clk e v p ev ind led))"
  by (auto simp: verify_def Let_def maybe_ran_def
      dest!: row_locked_Inr intro!: uncertain_update split: sum.split option.split)

lemma uncertain_publish:
  "ledger_inv H led \<Longrightarrow> uncertain_kept led (snd (publish H clk e p led))"
  by (auto simp: publish_def maybe_ran_def dest!: row_locked_Inr intro!: uncertain_update
      split: sum.split option.split)

lemma uncertain_acknowledge:
  "ledger_inv H led \<Longrightarrow> uncertain_kept led (snd (acknowledge H clk e p led))"
  by (auto simp: acknowledge_def maybe_ran_def dest!: row_locked_Inr intro!: uncertain_update
      split: sum.split option.split)

lemma uncertain_mark:
  assumes "ledger_inv H led" "\<not> ni"
  shows "uncertain_kept led (snd (mark_execution_failure H clk c err ni led))"
  using assms
  by (auto simp: mark_execution_failure_def Let_def maybe_ran_def
      dest!: row_locked_Inr intro!: uncertain_transition split: sum.split)

lemma uncertain_reconcile:
  assumes "ledger_inv H led" "st \<noteq> ''NOT_EXECUTED''"
  shows "uncertain_kept led (snd (reconcile_execution H clk e t st x rc led))"
proof (cases "row_locked e led")
  case (Inr row)
  have row: "row \<in> set (effects led)" using row_locked_Inr [OF Inr] by simp
  show ?thesis
  proof (cases "intent row")
    case None
    then show ?thesis by (simp add: reconcile_execution_def Inr)
  next
    case (Some i)
    have "uncertain_kept led (transition_locked H t1 t2 row RECOVERY_REQUIRED ev b cc ci led)"
      for t1 t2 ev b cc ci
      using row by (intro uncertain_transition [OF assms(1)]) (simp_all add: maybe_ran_def)
    then show ?thesis
      using assms(2) uncertain_record [OF assms(1)]
      by (simp add: reconcile_execution_def Inr Some split: option.split)
  qed
qed (simp add: reconcile_execution_def)

lemma evolves_uncertain_row:
  assumes "uncertain_kept led led'" "ledger_inv H led'" "r \<in> set (effects led)" "s \<in> set (effects led')"
    and "effect_id s = effect_id r"
  shows "stays_uncertain r s"
proof -
  obtain t where t: "t \<in> set (effects led')" "stays_uncertain r t"
    using evolves_member [OF assms(1,3)] by blast
  then have "effect_id t = effect_id s" using assms(5) by (simp add: stays_uncertain_def)
  then have "t = s" using unique_row [OF inv_ids [OF assms(2)] t(1) assms(4)] by blast
  with t show ?thesis by simp
qed

text \<open>The two operations that say the provider did not run, addressed at the row.\<close>

definition says_not_run :: "effect_op \<Rightarrow> effect_row \<Rightarrow> bool" where
  "says_not_run op r = (case op of
       Mark_Execution_Failure clk c err ni \<Rightarrow> ni \<and> claim_effect_id c = effect_id r
         \<and> claim_token r = Some (claim_token_of c) \<and> claim_worker r = Some (worker_id c)
     | Reconcile_Execution clk e t st x rc \<Rightarrow> st = ''NOT_EXECUTED'' \<and> e = effect_id r
         \<and> map_option execution_token (intent r) = Some t
     | _ \<Rightarrow> False)"

lemma mark_kept:
  assumes "ledger_inv H led" "r \<in> set (effects led)" "\<not> says_not_run (Mark_Execution_Failure clk c err ni) r"
    and "s \<in> set (effects (snd (mark_execution_failure H clk c err ni led)))" "effect_id s = effect_id r"
    and "ledger_inv H (snd (mark_execution_failure H clk c err ni led))"
  shows "stays_uncertain r s"
proof (cases "ni \<and> claim_effect_id c = effect_id r")
  case True
  have "row_locked (effect_id r) led = Inr r"
    using select_one_unique [OF inv_ids [OF assms(1)] assms(2)] by (simp add: row_locked_def)
  then have "snd (mark_execution_failure H clk c err ni led) = led"
    using True assms(3) by (auto simp: mark_execution_failure_def says_not_run_def validate_claim_identity_def)
  then have "s = r" using assms unique_row [OF inv_ids [OF assms(1)]] by metis
  then show ?thesis by (simp add: stays_uncertain_def)
next
  case False
  show ?thesis
  proof (cases ni)
    case False
    then show ?thesis
      using evolves_uncertain_row [OF uncertain_mark [OF assms(1) False] assms(6,2,4,5)] by simp
  next
    case True
    with False have "claim_effect_id c \<noteq> effect_id r" by simp
    then have "s \<in> set (effects led)"
      using assms(4,5)
      by (auto simp: mark_execution_failure_def Let_def transition_locked_def effects_update
          set_update_where dest: row_locked_Inr split: sum.splits if_splits)
    then have "s = r" using assms unique_row [OF inv_ids [OF assms(1)]] by metis
    then show ?thesis by (simp add: stays_uncertain_def)
  qed
qed

lemma reconcile_kept:
  assumes "ledger_inv H led" "r \<in> set (effects led)"
    and "\<not> says_not_run (Reconcile_Execution clk e t st x rc) r"
    and "s \<in> set (effects (snd (reconcile_execution H clk e t st x rc led)))" "effect_id s = effect_id r"
    and "ledger_inv H (snd (reconcile_execution H clk e t st x rc led))"
  shows "stays_uncertain r s"
proof (cases "st = ''NOT_EXECUTED''")
  case False
  then show ?thesis
    using evolves_uncertain_row [OF uncertain_reconcile [OF assms(1) False] assms(6,2,4,5)] by simp
next
  case st: True
  have "s \<in> set (effects led)"
  proof (cases "e = effect_id r")
    case True
    have "row_locked (effect_id r) led = Inr r"
      using select_one_unique [OF inv_ids [OF assms(1)] assms(2)] by (simp add: row_locked_def)
    then have "snd (reconcile_execution H clk e t st x rc led) = led"
      using True st assms(3)
      by (auto simp: reconcile_execution_def says_not_run_def split: option.splits)
    with assms(4) show ?thesis by simp
  next
    case False
    with st assms(4,5) show ?thesis
      by (auto simp: reconcile_execution_def Let_def transition_locked_def effects_update
          set_update_where dest!: row_locked_Inr split: sum.splits if_splits option.splits)
  qed
  then have "s = r" using assms unique_row [OF inv_ids [OF assms(1)]] by metis
  then show ?thesis by (simp add: stays_uncertain_def)
qed

lemma uncertain_run:
  assumes "ledger_inv H led" "r \<in> set (effects led)" "s \<in> set (effects (run_effect H op led))"
    and "effect_id s = effect_id r" "\<not> says_not_run op r"
  shows "stays_uncertain r s"
proof -
  have inv': "ledger_inv H (run_effect H op led)" using assms(1) effect_machine.run_inv by blast
  note kept = evolves_uncertain_row [OF _ inv' assms(2,3,4)]
  show ?thesis
    using kept assms inv' mark_kept reconcile_kept
    by (cases op) (simp_all add: uncertain_submit uncertain_authorize uncertain_claim uncertain_begin
        uncertain_record uncertain_verify uncertain_publish uncertain_acknowledge uncertain_recover)
qed

text \<open>
  C5. A crash is never retried silently: an effect that is executing, or whose outcome is unknown,
  cannot be claimable again after an operation, in any reachable ledger, unless the operation is
  the claim holder's report that the provider was not invoked, or a reconciliation with the token
  of the stored intent that says NOT_EXECUTED.
\<close>

theorem effect_never_silently_retried:
  assumes "r \<in> set (effects (run_effects H ops empty_ledger))"
    and "s \<in> set (effects (run_effect H op (run_effects H ops empty_ledger)))"
    and "effect_id s = effect_id r" "state r \<in> {EXECUTING, RECOVERY_REQUIRED}"
    and "state s \<in> {AUTHORIZED, CLAIMED, FAILED_RETRYABLE}"
  shows "(\<exists>clk c err. op = Mark_Execution_Failure clk c err True \<and> claim_effect_id c = effect_id r
            \<and> claim_token r = Some (claim_token_of c) \<and> claim_worker r = Some (worker_id c))
    \<or> (\<exists>clk i x rc. op = Reconcile_Execution clk (effect_id r) (execution_token i) ''NOT_EXECUTED'' x rc
            \<and> intent r = Some i)"
proof -
  have "says_not_run op r"
  proof (rule ccontr)
    assume "\<not> says_not_run op r"
    with uncertain_run [OF effect_machine.reached_inv assms(1-3)] have "stays_uncertain r s" .
    with assms(4,5) show False by (auto simp: stays_uncertain_def maybe_ran_def)
  qed
  then show ?thesis by (cases op) (auto simp: says_not_run_def)
qed

definition demo_executing :: effect_row where
  "demo_executing = demo_row\<lparr>state := EXECUTING, intent := Some demo_intent,
     updated_at := isoformat (demo_clk 4 2)\<rparr>"

definition demo_failure :: effect_op where
  "demo_failure = Mark_Execution_Failure (demo_clk 5) demo_claim (JObj []) True"

definition demo_retry :: effect_row where
  "demo_retry = demo_executing\<lparr>state := FAILED_RETRYABLE, updated_at := isoformat (demo_clk 5 0),
     claim_token := None, claim_worker := None, claim_until := None\<rparr>"

lemma demo_retry_rows:
  "effects (run_effect demo_hash demo_failure
     (run_effects demo_hash (demo_claimed @ [demo_begin]) empty_ledger)) = [demo_retry]"
  by (simp add: demo_executing_rows demo_failure_def effect_ops demo_row_def demo_claim_def
      demo_retry_def demo_executing_def)

theorem effect_never_silently_retried_witness:
  "(\<exists>clk c err. demo_failure = Mark_Execution_Failure clk c err True
            \<and> claim_effect_id c = effect_id demo_executing
            \<and> claim_token demo_executing = Some (claim_token_of c)
            \<and> claim_worker demo_executing = Some (worker_id c))
    \<or> (\<exists>clk i x rc. demo_failure = Reconcile_Execution clk (effect_id demo_executing)
            (execution_token i) ''NOT_EXECUTED'' x rc \<and> intent demo_executing = Some i)"
proof (rule effect_never_silently_retried)
  show "demo_executing \<in> set (effects (run_effects demo_hash (demo_claimed @ [demo_begin]) empty_ledger))"
    by (simp add: demo_executing_rows demo_executing_def)
  show "demo_retry \<in> set (effects (run_effect demo_hash demo_failure
      (run_effects demo_hash (demo_claimed @ [demo_begin]) empty_ledger)))"
    by (simp add: demo_retry_rows)
qed (simp_all add: demo_retry_def demo_executing_def)

section \<open>Guards, idempotency, recovery\<close>

text \<open>
  On a reachable ledger \<open>begin_execution\<close> with non-empty identities succeeds exactly for the
  current claim: a claimed effect whose stored token and worker are the claim's and whose lease
  ends after now. Otherwise it raises and the ledger is unchanged.
\<close>

theorem begin_execution_exactly_for_live_claim:
  assumes "\<not> blank pr" "\<not> blank key" "\<not> blank opn"
  shows "if (\<exists>r\<in>set (effects (run_effects H ops empty_ledger)). effect_id r = claim_effect_id c
            \<and> state r = CLAIMED \<and> claim_token r = Some (claim_token_of c)
            \<and> claim_worker r = Some (worker_id c)
            \<and> (\<exists>t. instant t \<and> claim_until r = Some (isoformat t) \<and> clk 0 < t))
     then fst (begin_execution H clk uuid c pr key opn (run_effects H ops empty_ledger)) = Inr uuid
     else (\<exists>e. begin_execution H clk uuid c pr key opn (run_effects H ops empty_ledger)
                = (Inl e, run_effects H ops empty_ledger))"
proof -
  let ?led = "run_effects H ops empty_ledger"
  have inv: "ledger_inv H ?led" by (rule effect_machine.reached_inv)
  have ok: "(\<exists>r\<in>set (effects ?led). effect_id r = claim_effect_id c
            \<and> state r = CLAIMED \<and> claim_token r = Some (claim_token_of c)
            \<and> claim_worker r = Some (worker_id c)
            \<and> (\<exists>t. instant t \<and> claim_until r = Some (isoformat t) \<and> clk 0 < t))
      \<longleftrightarrow> (\<exists>r. claimed_row_locked (clk 0) c ?led = Inr r)" (is "?live \<longleftrightarrow> ?found")
  proof
    assume ?live
    then obtain r t where r: "r \<in> set (effects ?led)" "effect_id r = claim_effect_id c"
      "state r = CLAIMED" "claim_token r = Some (claim_token_of c)" "claim_worker r = Some (worker_id c)"
      "instant t" "claim_until r = Some (isoformat t)" "clk 0 < t" by blast
    have "row_locked (claim_effect_id c) ?led = Inr r"
      using select_one_unique [OF inv_ids [OF inv] r(1)] r(2) by (simp add: row_locked_def)
    with r show ?found
      by (simp add: claimed_row_locked_def validate_claim_identity_def fromisoformat_isoformat)
  next
    assume ?found
    then obtain r where found: "claimed_row_locked (clk 0) c ?led = Inr r" by blast
    from claimed_row_Inr [OF found] obtain u t where r: "row_locked (claim_effect_id c) ?led = Inr r"
      "state r = CLAIMED" "claim_token r = Some (claim_token_of c)" "claim_worker r = Some (worker_id c)"
      "claim_until r = Some u" "fromisoformat u = Aware t" "clk 0 < t" by blast
    have mem: "r \<in> set (effects ?led)" "effect_id r = claim_effect_id c"
      using row_locked_Inr [OF r(1)] by simp_all
    then have "claim_ok r" using inv inv_rows by (auto simp: row_ok_def)
    then obtain l where "instant l" "u = isoformat l" using r(5) by (auto simp: claim_ok_def)
    with r mem show ?live by (auto simp: fromisoformat_isoformat)
  qed
  show ?thesis
    unfolding ok using assms
    by (cases "claimed_row_locked (clk 0) c ?led") (simp_all add: begin_execution_def Let_def)
qed

theorem begin_execution_exactly_for_live_claim_witness:
  "fst (begin_execution demo_hash (demo_clk 4) ''x1'' demo_claim ''p1'' ''pk1'' ''send''
     (run_effects demo_hash demo_claimed empty_ledger)) = Inr ''x1''"
proof -
  have "\<exists>t. instant t \<and> isoformat (demo_clk 63 1) = isoformat t \<and> demo_clk 4 0 < t"
    by (rule exI [of _ "demo_clk 63 1"]) (simp add: demo_simps)
  then show ?thesis
    using begin_execution_exactly_for_live_claim [of "''p1''" "''pk1''" "''send''" demo_hash demo_claimed
      demo_claim "demo_clk 4" "''x1''"]
    by (simp add: demo_not_blank demo_claimed_rows demo_row_def demo_claim_def)
qed

text \<open>
  C6. A submission is idempotent for ever: once a request was accepted, whatever operations run
  afterwards, submitting it again returns the same effect and changes nothing, and submitting a
  request with the same key and another digest raises \<open>EffectConflict\<close> and changes nothing.
\<close>

theorem submit_idempotent_forever:
  assumes "submit H clk u rq n (run_effects H ops empty_ledger) = (Inr (eid, fresh), led)"
    and "1 \<le> m"
  shows "submit H clk' u' rq m (run_effects H later led) = (Inr (eid, False), run_effects H later led)
    \<and> (\<forall>rq'. \<not> blank (capability rq') \<and> validate_request_expiry rq' = Inr ()
          \<and> idempotency_key rq' = idempotency_key rq \<and> request_sha256 H rq' \<noteq> request_sha256 H rq \<longrightarrow>
         submit H clk' u' rq' m (run_effects H later led)
           = (Inl (EffectConflict ''idempotency key reused for a different immutable request''),
              run_effects H later led))"
proof -
  have inv0: "ledger_inv H (run_effects H ops empty_ledger)" by (rule effect_machine.reached_inv)
  have led: "led = run_effect H (Submit clk u rq n) (run_effects H ops empty_ledger)"
    using assms(1) by simp
  have inv: "ledger_inv H led" unfolding led by (rule effect_machine.run_inv [OF inv0])
  have ok: "\<not> blank (capability rq)" "\<not> blank (idempotency_key rq)" "validate_request_expiry rq = Inr ()"
    using assms(1) by (auto simp: submit_def split: if_splits sum.splits)
  have "\<exists>r\<in>set (effects led). effect_id r = eid
      \<and> idempotency_key (request r) = idempotency_key rq \<and> row_sha256 r = request_sha256 H rq"
    using assms(1) by (auto simp: submit_def Let_def split: if_splits sum.splits option.splits
        dest: select_one_SomeD)
  then obtain r where r: "r \<in> set (effects led)" "effect_id r = eid"
    "idempotency_key (request r) = idempotency_key rq" "row_sha256 r = request_sha256 H rq" by blast
  let ?later = "run_effects H later led"
  have "ledger_inv H ?later" using inv by (rule effect_machine.run_all_inv)
  obtain s where s: "s \<in> set (effects ?later)" "same_effect r s"
    using evolves_member [OF effect_machine.run_all_older [OF inv] r(1)] by blast
  then have s': "effect_id s = eid" "idempotency_key (request s) = idempotency_key rq"
    "row_sha256 s = request_sha256 H rq" using r by (auto simp: same_effect_def)
  have "distinct (map (idempotency_key \<circ> request) (effects ?later))"
    using \<open>ledger_inv H ?later\<close> by (simp add: ledger_inv_def)
  from select_one_unique [OF this s(1)] s'(2)
  have found: "select_one (\<lambda>x. idempotency_key (request x) = idempotency_key rq) (effects ?later) = Some s"
    by simp
  have "submit H clk' u' rq m ?later = (Inr (eid, False), ?later)"
    using ok assms(2) s s' found by (auto simp: submit_def)
  moreover have "submit H clk' u' rq' m ?later
      = (Inl (EffectConflict ''idempotency key reused for a different immutable request''), ?later)"
    if "\<not> blank (capability rq')" "validate_request_expiry rq' = Inr ()"
      "idempotency_key rq' = idempotency_key rq" "request_sha256 H rq' \<noteq> request_sha256 H rq" for rq'
    using that ok assms(2) s s' found by (auto simp: submit_def)
  ultimately show ?thesis by blast
qed

theorem submit_idempotent_forever_witness:
  "submit demo_hash (demo_clk 9) ''e9'' demo_request 1 (run_effects demo_hash (tl demo_claimed)
       (run_effects demo_hash [hd demo_claimed] empty_ledger))
     = (Inr (''e1'', False), run_effects demo_hash (tl demo_claimed)
          (run_effects demo_hash [hd demo_claimed] empty_ledger))"
  by (rule submit_idempotent_forever [where ops = "[]" and clk = "demo_clk 1" and u = "''e1''" and n = 3
        and fresh = True, THEN conjunct1])
    (simp_all add: demo_claimed_def empty_ledger_def submit_def demo_request_def demo_not_blank
      validate_request_expiry_def Let_def append_history_def)

text \<open>A claimed or executing row whose lease ended before \<open>now\<close>, and what recovery makes of it.\<close>

definition expired :: "int \<Rightarrow> effect_row \<Rightarrow> bool" where
  "expired now r \<longleftrightarrow> state r \<in> {CLAIMED, EXECUTING}
     \<and> (case fromisoformat (case claim_until r of None \<Rightarrow> [] | Some u \<Rightarrow> u) of
          Aware l \<Rightarrow> l < now | _ \<Rightarrow> False)"

definition recovered :: "effect_row \<Rightarrow> effect_row \<Rightarrow> bool" where
  "recovered r s \<longleftrightarrow> effect_id s = effect_id r \<and> attempts s = attempts r
     \<and> state s = (if state r = CLAIMED then retry_state r else RECOVERY_REQUIRED)
     \<and> intent s = intent r
     \<and> (state r = CLAIMED \<longrightarrow> claim_token s = None \<and> claim_worker s = None \<and> claim_until s = None)"

lemma expire_effects:
  assumes "ledger_inv H led" "row \<in> set (effects led)" "state row \<in> {CLAIMED, EXECUTING}"
  shows "\<exists>s. recovered row s \<and>
    effects (expire H t1 t2 row led) = map (\<lambda>r. if r = row then s else r) (effects led)"
proof -
  have "effect_id x = effect_id row \<longleftrightarrow> x = row" if "x \<in> set (effects led)" for x
    using unique_row [OF inv_ids [OF assms(1)]] that assms(2) by blast
  then have "effects (expire H t1 t2 row led)
      = map (\<lambda>r. if r = row then effects (expire H t1 t2 row (led\<lparr>effects := [row]\<rparr>)) ! 0 else r) (effects led)"
    by (auto simp: expire_def transition_locked_def effects_update update_where_def)
  moreover have "recovered row (effects (expire H t1 t2 row (led\<lparr>effects := [row]\<rparr>)) ! 0)"
    using assms(3) by (auto simp: expire_def transition_locked_def effects_update update_where_def recovered_def)
  ultimately show ?thesis by blast
qed

lemma recover_rows_result:
  "ledger_inv H led \<Longrightarrow> set rows \<subseteq> set (effects led) \<Longrightarrow> distinct (map effect_id rows) \<Longrightarrow>
   \<forall>r\<in>set rows. state r \<in> {CLAIMED, EXECUTING} \<Longrightarrow>
   \<exists>led'. recover_rows H clk i now rows n led = (Inr (n + int (length (filter (expired now) rows))), led')
     \<and> list_all2 (\<lambda>r s. if r \<in> set rows \<and> expired now r then recovered r s else s = r)
         (effects led) (effects led')"
proof (induction rows arbitrary: i n led)
  case Nil
  then show ?case by (simp add: list.rel_eq list_all2_refl)
next
  case (Cons row rows)
  have mem: "row \<in> set (effects led)" and st: "state row \<in> {CLAIMED, EXECUTING}" using Cons.prems by simp_all
  have "claim_ok row" using Cons.prems(1) mem inv_rows by (auto simp: row_ok_def)
  then obtain l where l: "claim_until row = Some (isoformat l)" "instant l"
    using st by (auto simp: claim_ok_def has_claim_def)
  then have iso: "fromisoformat (case claim_until row of None \<Rightarrow> [] | Some u \<Rightarrow> u) = Aware l"
    by (simp add: fromisoformat_isoformat)
  have fresh: "row \<notin> set rows" using Cons.prems(3) by auto
  show ?case
  proof (cases "l \<ge> now")
    case True
    have ne: "\<not> expired now row" using True iso by (simp add: expired_def)
    obtain led' where "recover_rows H clk i now rows n led
        = (Inr (n + int (length (filter (expired now) rows))), led')"
      "list_all2 (\<lambda>r s. if r \<in> set rows \<and> expired now r then recovered r s else s = r)
         (effects led) (effects led')"
      using Cons.IH [of led i n] Cons.prems by auto
    then show ?thesis
      using True iso ne by (auto simp: recover_rows_Cons elim!: list_all2_mono split: if_splits)
  next
    case False
    let ?led = "expire H (clk i) (clk (i + 1)) row led"
    have ex: "expired now row" using False iso st by (simp add: expired_def)
    have inv: "ledger_inv H ?led"
      using expire_steps [OF Cons.prems(1) mem st] Cons.prems(1) ledger_steps_inv by blast
    have sub: "set rows \<subseteq> set (effects ?led)"
      using Cons.prems(2,3) by (auto intro!: transition_rows simp: image_iff expire_def)
    obtain s where s: "recovered row s" "effects ?led = map (\<lambda>r. if r = row then s else r) (effects led)"
      using expire_effects [OF Cons.prems(1) mem st] by blast
    have "effect_id s \<notin> effect_id ` set rows" using s(1) Cons.prems(3) by (simp add: recovered_def)
    then have sfresh: "s \<notin> set rows" by (metis imageI)
    obtain led' where r: "recover_rows H clk (i + 2) now rows (n + 1) ?led
        = (Inr (n + 1 + int (length (filter (expired now) rows))), led')"
      and rel: "list_all2 (\<lambda>r s. if r \<in> set rows \<and> expired now r then recovered r s else s = r)
         (effects ?led) (effects led')"
      using Cons.IH [OF inv sub] Cons.prems(3,4) by fastforce
    from rel have "list_all2 (\<lambda>r s'. if r \<in> set (row # rows) \<and> expired now r then recovered r s' else s' = r)
         (effects led) (effects led')"
      unfolding s(2) list_all2_map1
      by (rule list_all2_mono) (use s(1) sfresh fresh ex in \<open>auto split: if_splits\<close>)
    then show ?thesis using False iso r ex by (simp add: recover_rows_Cons add.assoc)
  qed
qed

text \<open>
  Recovery on a reachable ledger returns, counts exactly the expired claims, releases a claim
  that expired before execution (for a retry while attempts are left), moves one that expired
  during execution to RECOVERY_REQUIRED with its intent kept, and leaves every other effect as it is.
\<close>

theorem recovery_moves_exactly_the_expired:
  "\<exists>led'. recover_expired_claims H clk (Some now) (run_effects H ops empty_ledger)
       = (Inr (int (length (filter (expired now) (effects (run_effects H ops empty_ledger))))), led')
     \<and> list_all2 (\<lambda>r s. if expired now r then recovered r s else s = r)
         (effects (run_effects H ops empty_ledger)) (effects led')"
proof -
  let ?led = "run_effects H ops empty_ledger"
  let ?rows = "filter (\<lambda>r. state r \<in> {CLAIMED, EXECUTING} \<and> claim_until r \<noteq> None) (effects ?led)"
  have inv: "ledger_inv H ?led" by (rule effect_machine.reached_inv)
  have ex: "state r \<in> {CLAIMED, EXECUTING} \<and> claim_until r \<noteq> None"
    if "r \<in> set (effects ?led)" "expired now r" for r
    using that inv inv_rows [OF inv that(1)] by (auto simp: expired_def row_ok_def claim_ok_def has_claim_def)
  have "filter (expired now) ?rows = filter (expired now) (effects ?led)"
    unfolding filter_filter by (rule filter_cong) (use ex in auto)
  moreover have "distinct (map effect_id ?rows)" using inv by (auto intro: distinct_map_filter dest: inv_ids)
  ultimately obtain led' where r: "recover_rows H clk 1 now ?rows 0 ?led
      = (Inr (int (length (filter (expired now) (effects ?led)))), led')"
    and rel: "list_all2 (\<lambda>r s. if r \<in> set ?rows \<and> expired now r then recovered r s else s = r)
        (effects ?led) (effects led')"
    using recover_rows_result [OF inv, of ?rows clk 1 now 0] by auto
  from rel have "list_all2 (\<lambda>r s. if expired now r then recovered r s else s = r) (effects ?led) (effects led')"
    unfolding list_all2_conv_all_nth using ex nth_mem by fastforce
  with r show ?thesis by (simp add: recover_expired_claims_def)
qed

text \<open>A row that requires recovery without an intent, and its later self.\<close>

definition stuck :: "effect_row \<Rightarrow> effect_row \<Rightarrow> bool" where
  "stuck r s \<longleftrightarrow> effect_id s = effect_id r \<and>
     (state r = RECOVERY_REQUIRED \<and> intent r = None \<longrightarrow> state s = RECOVERY_REQUIRED \<and> intent s = None)"

lemma stuck_trans: "stuck r s \<Longrightarrow> stuck s t \<Longrightarrow> stuck r t"
  by (auto simp: stuck_def)

lemma stuck_refl: "stuck r r"
  by (simp add: stuck_def)

lemma move_stuck: "effect_move H r s \<Longrightarrow> stuck r s"
  by (erule effect_move.cases) (auto simp: stuck_def)

lemma steps_stuck:
  "ledger_steps H led led' \<Longrightarrow> ledger_inv H led \<Longrightarrow> evolves stuck (effects led) (effects led')"
proof (induction rule: rtranclp_induct)
  case (step a b)
  from step have inv: "ledger_inv H a" using ledger_steps_inv by blast
  from step(2) have "evolves stuck (effects a) (effects b)"
  proof cases
    case (step_move r s now ev bd)
    have "x = r" if "x \<in> set (effects a)" "effect_id x = effect_id r" for x
      using unique_row [OF inv_ids [OF inv]] that step_move by blast
    then show ?thesis
      using step_move move_stuck
      by (auto simp: effects_update intro!: evolves_update_where stuck_refl)
  qed (simp add: evolvesI_append stuck_refl)
  with step show ?case using evolves_trans [of stuck] stuck_trans by blast
qed (simp add: evolves_refl stuck_refl)

text \<open>
  A dead end of the protocol: an effect that failed while claimed, with the provider not known
  to be uninvoked, requires recovery but has no intent to reconcile against. No sequence of
  operations ever moves it again.
\<close>

theorem recovery_without_intent_is_stuck:
  assumes "r \<in> set (effects (run_effects H ops empty_ledger))"
    and "state r = RECOVERY_REQUIRED" "intent r = None"
  shows "\<exists>s\<in>set (effects (run_effects H (ops @ later) empty_ledger)).
    effect_id s = effect_id r \<and> state s = RECOVERY_REQUIRED"
proof -
  have steps: "ledger_steps H led (run_effects H later led)" if "ledger_inv H led" for led
    using that
  proof (rule effect_machine.run_all_keeps)
    show "ledger_steps H led (run_effect H op x)" if "ledger_inv H x" "ledger_steps H led x" for x op
      using that(2) run_effect_steps [OF that(1)] by (rule rtranclp_trans)
  qed simp
  have "evolves stuck (effects (run_effects H ops empty_ledger))
      (effects (run_effects H (ops @ later) empty_ledger))"
    unfolding run_all_append by (intro steps_stuck [of H] steps effect_machine.reached_inv)
  from evolves_member [OF this assms(1)] show ?thesis using assms(2,3) by (auto simp: stuck_def)
qed

definition demo_lost :: effect_row where
  "demo_lost = demo_row\<lparr>state := RECOVERY_REQUIRED, updated_at := isoformat (demo_clk 5 0)\<rparr>"

lemma demo_lost_rows:
  "effects (run_effects demo_hash (demo_claimed @
     [Mark_Execution_Failure (demo_clk 5) demo_claim (JObj []) False]) empty_ledger) = [demo_lost]"
  by (simp add: run_all_append demo_claimed_rows effect_ops demo_row_def demo_claim_def demo_lost_def)

theorem recovery_without_intent_is_stuck_witness:
  "\<exists>s\<in>set (effects (run_effects demo_hash ((demo_claimed @
      [Mark_Execution_Failure (demo_clk 5) demo_claim (JObj []) False]) @
      [Reconcile_Execution (demo_clk 6) ''e1'' ''x1'' ''NOT_EXECUTED'' None None]) empty_ledger)).
    effect_id s = effect_id demo_lost \<and> state s = RECOVERY_REQUIRED"
  by (rule recovery_without_intent_is_stuck)
    (simp_all only: demo_lost_rows, simp_all add: demo_lost_def demo_row_def)

end
