(* ===== verification/Condition_Watch.thy ===== *)
theory Condition_Watch
  imports Op_Machine
begin

text \<open>
  \<open>frost_core/condition_watch.py\<close>: observations of a target until it is terminal, and one outbox
  delivery per target that is leased, acknowledged or failed. Every method runs in one transaction
  that is rolled back on an exception. \<open>REAL\<close> times are rational numbers; a time argument that may
  be omitted is an option, and \<open>clk\<close> is then the reading of \<open>time.time()\<close>.
\<close>

section \<open>Data\<close>

datatype delivery_status = PENDING | DELIVERING | DELIVERED | FAILED_TERMINAL | LEGACY_UNCERTAIN

record watch_row =
  target_key :: string
  last_state :: string
  first_terminal_state :: "string option"
  terminal_notified_at :: "rat option"
  observation_count :: int
  watch_created_at :: rat
  watch_updated_at :: rat
  terminal_enqueued_at :: "rat option"
  delivery_state :: "delivery_status option"

record outbox_row =
  delivery_id :: string
  out_target :: string
  terminal_state :: string
  status :: delivery_status
  attempt_count :: int
  lease_owner :: "string option"
  lease_until :: "rat option"
  last_error :: "string option"
  out_created_at :: rat
  out_updated_at :: rat
  delivered_at :: "rat option"

record watch_event =
  ev_target :: string
  ev_state :: string
  ev_terminal :: bool
  ev_notify :: bool
  ev_at :: rat
  ev_delivery :: "string option"

record watch_ledger =
  watches :: "watch_row list"
  outbox :: "outbox_row list"
  events :: "watch_event list"

record watch_decision =
  d_target :: string
  d_state :: string
  d_terminal :: bool
  d_notify :: bool
  d_first_terminal :: "string option"
  d_count :: int
  d_delivery_id :: "string option"
  d_delivery_state :: "delivery_status option"

record delivery_claim =
  c_delivery_id :: string
  c_target :: string
  c_terminal_state :: string
  c_attempt :: int
  c_owner :: string
  c_until :: rat

section \<open>Operations\<close>

definition clean :: "string \<Rightarrow> string \<Rightarrow> string result" where
  "clean value name =
     (let out = strip value
      in if out = [] then Inl (ValueError (name @ '' must not be empty'')) else Inr out)"

definition delivery_id_of :: "(string \<Rightarrow> string) \<Rightarrow> string \<Rightarrow> string" where
  "delivery_id_of H key = ''cwd-'' @ take 32 (H (''condition-watch:'' @ key))"

text \<open>\<open>INSERT OR IGNORE\<close>: the row is dropped when its id or its target is taken.\<close>

definition insert_or_ignore :: "outbox_row \<Rightarrow> outbox_row list \<Rightarrow> outbox_row list" where
  "insert_or_ignore new rows =
     (if \<exists>x\<in>set rows. delivery_id x = delivery_id new \<or> out_target x = out_target new
      then rows else rows @ [new])"

definition update_watch :: "string \<Rightarrow> (watch_row \<Rightarrow> watch_row) \<Rightarrow> watch_ledger \<Rightarrow> watch_ledger" where
  "update_watch key f s = s\<lparr>watches := update_where (\<lambda>w. target_key w = key) f (watches s)\<rparr>"

definition update_outbox :: "string \<Rightarrow> (outbox_row \<Rightarrow> outbox_row) \<Rightarrow> watch_ledger \<Rightarrow> watch_ledger" where
  "update_outbox did f s = s\<lparr>outbox := update_where (\<lambda>x. delivery_id x = did) f (outbox s)\<rparr>"

text \<open>\<open>_migrate_v1\<close> for one fetched row, then for all rows that have to be migrated.\<close>

definition migrate_row :: "(string \<Rightarrow> string) \<Rightarrow> watch_ledger \<Rightarrow> watch_row \<Rightarrow> watch_ledger" where
  "migrate_row H s w =
     (case (first_terminal_state w, terminal_notified_at w) of
        (Some terminal, Some at_time) \<Rightarrow>
          update_watch (target_key w)
            (\<lambda>w. w\<lparr>terminal_enqueued_at := Some at_time, terminal_notified_at := None,
                   delivery_state := Some LEGACY_UNCERTAIN\<rparr>)
            (s\<lparr>outbox := insert_or_ignore
                 \<lparr>delivery_id = delivery_id_of H (target_key w), out_target = target_key w,
                  terminal_state = terminal, status = LEGACY_UNCERTAIN, attempt_count = 0,
                  lease_owner = None, lease_until = None, last_error = None,
                  out_created_at = at_time, out_updated_at = at_time, delivered_at = None\<rparr> (outbox s)\<rparr>)
      | _ \<Rightarrow> s)"

definition migrate_v1 :: "(string \<Rightarrow> string) \<Rightarrow> watch_ledger \<Rightarrow> watch_ledger" where
  "migrate_v1 H s =
     foldl (migrate_row H) s
       (filter (\<lambda>w. terminal_notified_at w \<noteq> None \<and> terminal_enqueued_at w = None) (watches s))"

fun clean_all :: "string list \<Rightarrow> string \<Rightarrow> string list result" where
  "clean_all [] name = Inr []"
| "clean_all (x # xs) name =
     (case clean x name of
        Inl e \<Rightarrow> Inl e
      | Inr y \<Rightarrow> (case clean_all xs name of Inl e \<Rightarrow> Inl e | Inr ys \<Rightarrow> Inr (y # ys)))"

text \<open>The statements of \<open>observe\<close>: the watch row, then the outbox when the state is terminal.\<close>

definition record_observation :: "string \<Rightarrow> string \<Rightarrow> bool \<Rightarrow> rat \<Rightarrow> watch_ledger \<Rightarrow>
    string option \<times> int \<times> watch_ledger" where
  "record_observation key st is_terminal now s =
     (case select_one (\<lambda>w. target_key w = key) (watches s) of
        None \<Rightarrow>
          (let first = (if is_terminal then Some st else None)
           in (first, 1,
               s\<lparr>watches := watches s @
                 [\<lparr>target_key = key, last_state = st, first_terminal_state = first,
                   terminal_notified_at = None, observation_count = 1, watch_created_at = now,
                   watch_updated_at = now, terminal_enqueued_at = None, delivery_state = None\<rparr>]\<rparr>))
      | Some row \<Rightarrow>
          (let count = observation_count row + 1
           in (first_terminal_state row, count,
               update_watch key (\<lambda>w. w\<lparr>last_state := st, observation_count := count,
                 watch_updated_at := now\<rparr>) s)))"

definition set_first_terminal :: "string \<Rightarrow> string \<Rightarrow> string option \<Rightarrow> watch_ledger \<Rightarrow>
    string \<times> watch_ledger" where
  "set_first_terminal key st first s =
     (case first of
        None \<Rightarrow> (st, update_watch key (\<lambda>w. w\<lparr>first_terminal_state := Some st\<rparr>) s)
      | Some f \<Rightarrow> (f, s))"

definition new_delivery :: "(string \<Rightarrow> string) \<Rightarrow> string \<Rightarrow> string \<Rightarrow> rat \<Rightarrow> outbox_row" where
  "new_delivery H key first now =
     \<lparr>delivery_id = delivery_id_of H key, out_target = key, terminal_state = first,
      status = PENDING, attempt_count = 0, lease_owner = None, lease_until = None,
      last_error = None, out_created_at = now, out_updated_at = now, delivered_at = None\<rparr>"

definition add_event :: "string \<Rightarrow> string \<Rightarrow> bool \<Rightarrow> bool \<Rightarrow> rat \<Rightarrow> string option \<Rightarrow> watch_ledger \<Rightarrow>
    watch_ledger" where
  "add_event key st is_terminal notify now did s =
     s\<lparr>events := events s @ [\<lparr>ev_target = key, ev_state = st, ev_terminal = is_terminal,
        ev_notify = notify, ev_at = now, ev_delivery = did\<rparr>]\<rparr>"

definition observe :: "(string \<Rightarrow> string) \<Rightarrow> rat \<Rightarrow> string \<Rightarrow> string \<Rightarrow> string list \<Rightarrow> rat option \<Rightarrow>
    watch_ledger \<Rightarrow> (watch_decision, watch_ledger) outcome" where
  "observe H clk target st0 terminal_states observed_at s =
     (case clean target ''target_key'' of
        Inl e \<Rightarrow> (Inl e, s)
      | Inr key \<Rightarrow> (case clean st0 ''observed_state'' of
          Inl e \<Rightarrow> (Inl e, s)
        | Inr st \<Rightarrow> (case clean_all terminal_states ''terminal_state'' of
            Inl e \<Rightarrow> (Inl e, s)
          | Inr terminals \<Rightarrow>
              if terminals = [] then (Inl (ValueError ''terminal_states must not be empty''), s)
              else
                (let now = (case observed_at of None \<Rightarrow> clk | Some t \<Rightarrow> t);
                     is_terminal = (st \<in> set terminals);
                     (first, count, s1) = record_observation key st is_terminal now s
                 in if \<not> is_terminal then
                      (Inr \<lparr>d_target = key, d_state = st, d_terminal = False, d_notify = False,
                            d_first_terminal = first, d_count = count, d_delivery_id = None,
                            d_delivery_state = None\<rparr>,
                       add_event key st False False now None s1)
                    else
                      (let (f, s2) = set_first_terminal key st first s1;
                           did = delivery_id_of H key;
                           rows = insert_or_ignore (new_delivery H key f now) (outbox s2);
                           notify = (rows \<noteq> outbox s2)
                       in case select_one (\<lambda>x. delivery_id x = did) rows of
                            None \<Rightarrow> (Inl (TypeError ''NoneType object is not subscriptable''), s)
                          | Some out \<Rightarrow>
                              (Inr \<lparr>d_target = key, d_state = st, d_terminal = True,
                                    d_notify = notify, d_first_terminal = Some f, d_count = count,
                                    d_delivery_id = Some did, d_delivery_state = Some (status out)\<rparr>,
                               add_event key st True notify now (Some did)
                                 (update_watch key
                                    (\<lambda>w. w\<lparr>terminal_enqueued_at :=
                                            (case terminal_enqueued_at w of
                                               None \<Rightarrow> Some (out_created_at out) | Some t \<Rightarrow> Some t),
                                          delivery_state := Some (status out)\<rparr>)
                                    (s2\<lparr>outbox := rows\<rparr>))))))))"

text \<open>The \<open>WHERE\<close> clause of a claim.\<close>

definition ready :: "rat \<Rightarrow> string option \<Rightarrow> outbox_row \<Rightarrow> bool" where
  "ready current key x \<longleftrightarrow>
     (status x = PENDING
      \<or> status x = DELIVERING \<and> (case lease_until x of None \<Rightarrow> False | Some u \<Rightarrow> u \<le> current))
     \<and> (case key of None \<Rightarrow> True | Some k \<Rightarrow> out_target x = k)"

definition claim_delivery :: "rat \<Rightarrow> string \<Rightarrow> rat \<Rightarrow> rat option \<Rightarrow> string option \<Rightarrow>
    watch_ledger \<Rightarrow> (delivery_claim option, watch_ledger) outcome" where
  "claim_delivery clk worker_arg lease_seconds now target s =
     (case clean worker_arg ''worker_id'' of
        Inl e \<Rightarrow> (Inl e, s)
      | Inr worker \<Rightarrow>
          if lease_seconds \<le> 0 then (Inl (ValueError ''lease_seconds must be positive''), s)
          else
            (let current = (case now of None \<Rightarrow> clk | Some t \<Rightarrow> t)
             in case (case target of None \<Rightarrow> Inr None
                      | Some k \<Rightarrow> map_sum id Some (clean k ''target_key'')) of
                  Inl e \<Rightarrow> (Inl e, s)
                | Inr key \<Rightarrow>
                    (case first_by (\<lambda>x. (out_created_at x, delivery_id x))
                       (filter (ready current key) (outbox s)) of
                       None \<Rightarrow> (Inr None, s)
                     | Some row \<Rightarrow>
                         (let until = current + lease_seconds;
                              attempt = attempt_count row + 1
                          in (Inr (Some \<lparr>c_delivery_id = delivery_id row, c_target = out_target row,
                                 c_terminal_state = terminal_state row, c_attempt = attempt,
                                 c_owner = worker, c_until = until\<rparr>),
                              update_watch (out_target row)
                                (\<lambda>w. w\<lparr>delivery_state := Some DELIVERING, watch_updated_at := current\<rparr>)
                                (update_outbox (delivery_id row)
                                   (\<lambda>x. x\<lparr>status := DELIVERING, attempt_count := attempt,
                                          lease_owner := Some worker, lease_until := Some until,
                                          out_updated_at := current, last_error := None\<rparr>) s))))))"

definition validate_attempt_count :: "int \<Rightarrow> int result" where
  "validate_attempt_count n =
     (if n \<le> 0 then Inl (ValueError ''attempt_count must be a positive integer'') else Inr n)"

definition require_lease :: "outbox_row \<Rightarrow> string \<Rightarrow> int \<Rightarrow> unit result" where
  "require_lease row worker attempt =
     (if status row \<noteq> DELIVERING
      then Inl (ValueError (''delivery '' @ delivery_id row @ '' is not leased''))
      else if lease_owner row \<noteq> Some worker
      then Inl (PermissionError (''delivery '' @ delivery_id row @ '' is leased by another worker''))
      else if attempt_count row \<noteq> attempt
      then Inl (PermissionError (''delivery '' @ delivery_id row @ '' is leased under another attempt''))
      else Inr ())"

text \<open>
  \<open>acknowledge_delivery\<close> and \<open>fail_delivery\<close> share their checks: the cleaned identity, the row,
  a delivered row is a no-op, the lease. \<open>WHERE\<close> repeats the lease, so that the update touches one
  row or the call raises.
\<close>

definition leased_row :: "string \<Rightarrow> string \<Rightarrow> int \<Rightarrow> watch_ledger \<Rightarrow> outbox_row option result" where
  "leased_row did worker attempt s =
     (case select_one (\<lambda>x. delivery_id x = did) (outbox s) of
        None \<Rightarrow> Inl (KeyError did)
      | Some row \<Rightarrow>
          if status row = DELIVERED then Inr None
          else (case require_lease row worker attempt of Inl e \<Rightarrow> Inl e | Inr _ \<Rightarrow> Inr (Some row)))"

definition finish_lease :: "string \<Rightarrow> string \<Rightarrow> int \<Rightarrow> (outbox_row \<Rightarrow> outbox_row) \<Rightarrow> string \<Rightarrow> string \<Rightarrow>
    (watch_row \<Rightarrow> watch_row) \<Rightarrow> watch_ledger \<Rightarrow> (bool, watch_ledger) outcome" where
  "finish_lease did worker attempt f what target g s =
     (let hit = (\<lambda>x. delivery_id x = did \<and> status x = DELIVERING \<and> lease_owner x = Some worker
                   \<and> attempt_count x = attempt)
      in if length (filter hit (outbox s)) \<noteq> 1
         then (Inl (RuntimeError (''delivery '' @ did @ '' lease changed during '' @ what)), s)
         else (Inr True, update_watch target g (s\<lparr>outbox := update_where hit f (outbox s)\<rparr>)))"

definition acknowledge_delivery :: "rat \<Rightarrow> string \<Rightarrow> string \<Rightarrow> int \<Rightarrow> rat option \<Rightarrow>
    watch_ledger \<Rightarrow> (bool, watch_ledger) outcome" where
  "acknowledge_delivery clk did_arg worker_arg attempt_arg delivered s =
     (case clean did_arg ''delivery_id'' of
        Inl e \<Rightarrow> (Inl e, s)
      | Inr did \<Rightarrow> (case clean worker_arg ''worker_id'' of
          Inl e \<Rightarrow> (Inl e, s)
        | Inr worker \<Rightarrow> (case validate_attempt_count attempt_arg of
            Inl e \<Rightarrow> (Inl e, s)
          | Inr attempt \<Rightarrow>
              (let now = (case delivered of None \<Rightarrow> clk | Some t \<Rightarrow> t)
               in case leased_row did worker attempt s of
                    Inl e \<Rightarrow> (Inl e, s)
                  | Inr None \<Rightarrow> (Inr False, s)
                  | Inr (Some row) \<Rightarrow>
                      finish_lease did worker attempt
                        (\<lambda>x. x\<lparr>status := DELIVERED, lease_owner := None, lease_until := None,
                               delivered_at := Some now, out_updated_at := now, last_error := None\<rparr>)
                        ''acknowledgement'' (out_target row)
                        (\<lambda>w. w\<lparr>terminal_notified_at := Some now, delivery_state := Some DELIVERED,
                               watch_updated_at := now\<rparr>) s))))"

definition fail_delivery :: "rat \<Rightarrow> string \<Rightarrow> string \<Rightarrow> string \<Rightarrow> int \<Rightarrow> bool \<Rightarrow> rat option \<Rightarrow>
    watch_ledger \<Rightarrow> (bool, watch_ledger) outcome" where
  "fail_delivery clk did_arg worker_arg error_arg attempt_arg retryable failed s =
     (case clean did_arg ''delivery_id'' of
        Inl e \<Rightarrow> (Inl e, s)
      | Inr did \<Rightarrow> (case clean worker_arg ''worker_id'' of
          Inl e \<Rightarrow> (Inl e, s)
        | Inr worker \<Rightarrow> (case validate_attempt_count attempt_arg of
            Inl e \<Rightarrow> (Inl e, s)
          | Inr attempt \<Rightarrow> (case clean error_arg ''error'' of
              Inl e \<Rightarrow> (Inl e, s)
            | Inr message \<Rightarrow>
                (let now = (case failed of None \<Rightarrow> clk | Some t \<Rightarrow> t);
                     next = (if retryable then PENDING else FAILED_TERMINAL)
                 in case leased_row did worker attempt s of
                      Inl e \<Rightarrow> (Inl e, s)
                    | Inr None \<Rightarrow> (Inr False, s)
                    | Inr (Some row) \<Rightarrow>
                        finish_lease did worker attempt
                          (\<lambda>x. x\<lparr>status := next, lease_owner := None, lease_until := None,
                                 last_error := Some (take 4000 message), out_updated_at := now\<rparr>)
                          ''failure completion'' (out_target row)
                          (\<lambda>w. w\<lparr>delivery_state := Some next, watch_updated_at := now\<rparr>) s)))))"

definition resolve_legacy :: "rat \<Rightarrow> string \<Rightarrow> bool \<Rightarrow> rat option \<Rightarrow>
    watch_ledger \<Rightarrow> (unit, watch_ledger) outcome" where
  "resolve_legacy clk did_arg delivered resolved s =
     (case clean did_arg ''delivery_id'' of
        Inl e \<Rightarrow> (Inl e, s)
      | Inr did \<Rightarrow>
          (let now = (case resolved of None \<Rightarrow> clk | Some t \<Rightarrow> t)
           in case select_one (\<lambda>x. delivery_id x = did) (outbox s) of
                None \<Rightarrow> (Inl (KeyError did), s)
              | Some row \<Rightarrow>
                  if status row \<noteq> LEGACY_UNCERTAIN
                  then (Inl (ValueError (''delivery '' @ did @ '' is not legacy-uncertain'')), s)
                  else
                    (let next = (if delivered then DELIVERED else PENDING);
                         stamp = (if delivered then Some now else None)
                     in (Inr (),
                         update_watch (out_target row)
                           (\<lambda>w. w\<lparr>terminal_notified_at := stamp, delivery_state := Some next,
                                  watch_updated_at := now\<rparr>)
                           (update_outbox did
                              (\<lambda>x. x\<lparr>status := next, delivered_at := stamp,
                                     out_updated_at := now\<rparr>) s)))))"

text \<open>The readers.\<close>

definition get_watch :: "string \<Rightarrow> watch_ledger \<Rightarrow> watch_row result" where
  "get_watch target s =
     (case clean target ''target_key'' of
        Inl e \<Rightarrow> Inl e
      | Inr key \<Rightarrow> (case select_one (\<lambda>w. target_key w = key) (watches s) of
                     None \<Rightarrow> Inl (KeyError key) | Some w \<Rightarrow> Inr w))"

definition delivery :: "string \<Rightarrow> watch_ledger \<Rightarrow> outbox_row result" where
  "delivery did_arg s =
     (case clean did_arg ''delivery_id'' of
        Inl e \<Rightarrow> Inl e
      | Inr did \<Rightarrow> (case select_one (\<lambda>x. delivery_id x = did) (outbox s) of
                     None \<Rightarrow> Inl (KeyError did) | Some x \<Rightarrow> Inr x))"

definition status_of_text :: "string \<Rightarrow> delivery_status option" where
  "status_of_text t = map_of [(''PENDING'', PENDING), (''DELIVERING'', DELIVERING),
     (''DELIVERED'', DELIVERED), (''FAILED_TERMINAL'', FAILED_TERMINAL),
     (''LEGACY_UNCERTAIN'', LEGACY_UNCERTAIN)] t"

definition deliveries :: "string option \<Rightarrow> watch_ledger \<Rightarrow> outbox_row list result" where
  "deliveries wanted s =
     (case wanted of
        None \<Rightarrow> Inr (sort_key (\<lambda>x. (out_created_at x, delivery_id x)) (outbox s))
      | Some t \<Rightarrow> (case clean t ''status'' of
          Inl e \<Rightarrow> Inl e
        | Inr c \<Rightarrow> (case status_of_text c of
            None \<Rightarrow> Inl (ValueError (''unsupported delivery status: '' @ c))
          | Some st \<Rightarrow> Inr (sort_key (\<lambda>x. (out_created_at x, delivery_id x))
                             (filter (\<lambda>x. status x = st) (outbox s))))))"

definition watch_history :: "string \<Rightarrow> watch_ledger \<Rightarrow> watch_event list result" where
  "watch_history target s =
     (case clean target ''target_key'' of
        Inl e \<Rightarrow> Inl e | Inr key \<Rightarrow> Inr (filter (\<lambda>e. ev_target e = key) (events s)))"

end
