(* ===== verification/Condition_Watch_Claims.thy ===== *)
theory Condition_Watch_Claims
  imports Condition_Watch
begin

text \<open>
  The invariant of the watch ledger, what every operation respects, and the properties: one outbox
  row and one notification per target, fencing of stale workers, absorbing outcomes.
\<close>

section \<open>Invariant\<close>

definition out_ok :: "outbox_row \<Rightarrow> bool" where
  "out_ok x \<longleftrightarrow> 0 \<le> attempt_count x
     \<and> (if status x = DELIVERING then lease_owner x \<noteq> None \<and> lease_until x \<noteq> None \<and> 1 \<le> attempt_count x
        else lease_owner x = None \<and> lease_until x = None)
     \<and> (delivered_at x \<noteq> None \<longleftrightarrow> status x = DELIVERED)"

text \<open>The watch row agrees with its delivery.\<close>

definition mirrors :: "watch_row \<Rightarrow> outbox_row \<Rightarrow> bool" where
  "mirrors w x \<longleftrightarrow> target_key w = out_target x \<and> first_terminal_state w = Some (terminal_state x)
     \<and> delivery_state w = Some (status x)"

definition notified :: "string \<Rightarrow> watch_event list \<Rightarrow> nat" where
  "notified key es = length (filter (\<lambda>e. ev_target e = key \<and> ev_notify e) es)"

definition watch_inv :: "(string \<Rightarrow> string) \<Rightarrow> watch_ledger \<Rightarrow> bool" where
  "watch_inv H s \<longleftrightarrow>
     distinct (map target_key (watches s)) \<and> distinct (map delivery_id (outbox s))
     \<and> distinct (map out_target (outbox s))
     \<and> (\<forall>x\<in>set (outbox s). delivery_id x = delivery_id_of H (out_target x) \<and> out_ok x
          \<and> (\<exists>w\<in>set (watches s). mirrors w x))
     \<and> (\<forall>w\<in>set (watches s). first_terminal_state w \<noteq> None \<longrightarrow>
          delivery_id_of H (target_key w) \<in> delivery_id ` set (outbox s))
     \<and> (\<forall>key. notified key (events s) \<le> 1
          \<and> (notified key (events s) = 1 \<longrightarrow> delivery_id_of H key \<in> delivery_id ` set (outbox s)))"

definition empty_watches :: watch_ledger where
  "empty_watches = \<lparr>watches = [], outbox = [], events = []\<rparr>"

lemma empty_watches_inv: "watch_inv H empty_watches"
  by (simp add: watch_inv_def empty_watches_def notified_def)

text \<open>What no operation changes.\<close>

definition same_watch :: "watch_row \<Rightarrow> watch_row \<Rightarrow> bool" where
  "same_watch w v \<longleftrightarrow> target_key v = target_key w \<and> observation_count w \<le> observation_count v
     \<and> (first_terminal_state w \<noteq> None \<longrightarrow> first_terminal_state v = first_terminal_state w)"

definition same_delivery :: "outbox_row \<Rightarrow> outbox_row \<Rightarrow> bool" where
  "same_delivery x y \<longleftrightarrow> delivery_id y = delivery_id x \<and> out_target y = out_target x
     \<and> terminal_state y = terminal_state x \<and> out_created_at y = out_created_at x
     \<and> attempt_count x \<le> attempt_count y
     \<and> (attempt_count x = attempt_count y \<and> status y = DELIVERING \<longrightarrow> y = x)
     \<and> (status x \<in> {DELIVERED, FAILED_TERMINAL} \<longrightarrow> y = x)"

definition watch_older :: "watch_ledger \<Rightarrow> watch_ledger \<Rightarrow> bool" where
  "watch_older s t \<longleftrightarrow> evolves same_watch (watches s) (watches t)
     \<and> evolves same_delivery (outbox s) (outbox t)"

lemma same_watch_refl [simp]: "same_watch w w"
  by (simp add: same_watch_def)

lemma same_delivery_refl [simp]: "same_delivery x x"
  by (simp add: same_delivery_def)

lemma same_watch_trans: "same_watch a b \<Longrightarrow> same_watch b c \<Longrightarrow> same_watch a c"
  by (auto simp: same_watch_def)

text \<open>
  A later row in the same attempt that is still being delivered is the row itself: a delivery only
  starts with a new attempt.
\<close>

lemma same_delivery_trans:
  assumes "same_delivery a b" "same_delivery b c" shows "same_delivery a c"
proof -
  have le: "attempt_count a \<le> attempt_count b" "attempt_count b \<le> attempt_count c"
    and bc: "attempt_count b = attempt_count c \<and> status c = DELIVERING \<Longrightarrow> c = b"
    and fin: "status a \<in> {DELIVERED, FAILED_TERMINAL} \<Longrightarrow> b = a"
    using assms unfolding same_delivery_def by blast+
  have ids: "delivery_id c = delivery_id a" "out_target c = out_target a"
    "terminal_state c = terminal_state a" "out_created_at c = out_created_at a"
    using assms by (simp_all add: same_delivery_def)
  show ?thesis
  proof (cases "status a \<in> {DELIVERED, FAILED_TERMINAL} \<or> attempt_count a = attempt_count c \<and> status c = DELIVERING")
    case True
    then have "b = a \<or> c = b" using le bc fin by (metis order_antisym)
    with assms show ?thesis by blast
  next
    case False
    then show ?thesis unfolding same_delivery_def using ids le by auto
  qed
qed

lemma watch_older_refl [simp]: "watch_older s s"
  by (simp add: watch_older_def evolves_refl)

lemma evolves_watch_trans:
  "evolves same_watch a b \<Longrightarrow> evolves same_watch b c \<Longrightarrow> evolves same_watch a c"
  using evolves_trans [of same_watch] same_watch_trans by blast

lemma evolves_delivery_trans:
  "evolves same_delivery a b \<Longrightarrow> evolves same_delivery b c \<Longrightarrow> evolves same_delivery a c"
  using evolves_trans [of same_delivery] same_delivery_trans by blast

lemma watch_older_trans: "watch_older s t \<Longrightarrow> watch_older t u \<Longrightarrow> watch_older s u"
  unfolding watch_older_def using evolves_watch_trans evolves_delivery_trans by blast

section \<open>Moving one delivery and its watch together\<close>

lemma watches_touch: "watches (update_watch k g (update_outbox d f s)) =
    update_where (\<lambda>w. target_key w = k) g (watches s)"
  and outbox_touch: "outbox (update_watch k g (update_outbox d f s)) =
    update_where (\<lambda>x. delivery_id x = d) f (outbox s)"
  and events_touch: "events (update_watch k g (update_outbox d f s)) = events s"
  by (simp_all add: update_watch_def update_outbox_def)

definition touches :: "outbox_row \<Rightarrow> (outbox_row \<Rightarrow> outbox_row) \<Rightarrow> (watch_row \<Rightarrow> watch_row) \<Rightarrow> bool" where
  "touches x f g \<longleftrightarrow> (\<forall>y. delivery_id (f y) = delivery_id y \<and> out_target (f y) = out_target y
        \<and> terminal_state (f y) = terminal_state y)
     \<and> (\<forall>w. target_key (g w) = target_key w \<and> first_terminal_state (g w) = first_terminal_state w
        \<and> observation_count (g w) = observation_count w \<and> delivery_state (g w) = Some (status (f x)))
     \<and> (out_ok x \<longrightarrow> out_ok (f x)) \<and> same_delivery x (f x)"

lemma touch_inv:
  assumes inv: "watch_inv H s" and x: "x \<in> set (outbox s)" and t: "touches x f g"
  shows "watch_inv H (update_watch (out_target x) g (update_outbox (delivery_id x) f s))"
    (is "watch_inv H ?s")
proof -
  have uniq: "y = x" if "y \<in> set (outbox s)" "delivery_id y = delivery_id x \<or> out_target y = out_target x" for y
    using that x inv unique_row [of delivery_id "outbox s"] unique_row [of out_target "outbox s"]
    unfolding watch_inv_def by blast
  have maps: "map delivery_id (outbox ?s) = map delivery_id (outbox s)"
    "map out_target (outbox ?s) = map out_target (outbox s)"
    "map target_key (watches ?s) = map target_key (watches s)"
    using t by (simp_all add: outbox_touch watches_touch map_update_where touches_def)
  have ids: "delivery_id ` set (outbox ?s) = delivery_id ` set (outbox s)"
    by (metis maps(1) list.set_map)
  have row: "delivery_id y = delivery_id_of H (out_target y) \<and> out_ok y \<and> (\<exists>w\<in>set (watches ?s). mirrors w y)"
    if "y \<in> set (outbox ?s)" for y
  proof -
    from that obtain z where z: "z \<in> set (outbox s)"
      and y: "y = (if delivery_id z = delivery_id x then f z else z)"
      by (auto simp: outbox_touch set_update_where)
    from inv z obtain w where w: "w \<in> set (watches s)" "mirrors w z"
      and ok: "delivery_id z = delivery_id_of H (out_target z)" "out_ok z"
      unfolding watch_inv_def by blast
    let ?w = "if target_key w = out_target x then g w else w"
    have "?w \<in> set (watches ?s)" using w(1) by (auto simp: watches_touch set_update_where)
    moreover have "mirrors ?w y"
      using w(2) y t uniq [OF z] by (auto simp: mirrors_def touches_def)
    moreover have "delivery_id y = delivery_id_of H (out_target y) \<and> out_ok y"
      using ok y t uniq [OF z] by (auto simp: touches_def)
    ultimately show ?thesis by blast
  qed
  have "first_terminal_state w \<noteq> None \<longrightarrow> delivery_id_of H (target_key w) \<in> delivery_id ` set (outbox ?s)"
    if "w \<in> set (watches ?s)" for w
    using that inv t unfolding ids watch_inv_def
    by (auto simp: watches_touch set_update_where touches_def split: if_splits)
  with row inv show ?thesis
    unfolding watch_inv_def ids events_touch maps by blast
qed

lemma touch_older:
  assumes inv: "watch_inv H s" and x: "x \<in> set (outbox s)" and t: "touches x f g"
  shows "watch_older s (update_watch (out_target x) g (update_outbox (delivery_id x) f s))"
proof -
  have "same_delivery y (f y)" if "y \<in> set (outbox s)" "delivery_id y = delivery_id x" for y
    using that x inv t unique_row [of delivery_id "outbox s" y x] unfolding watch_inv_def touches_def by blast
  moreover have "same_watch w (g w)" for w using t by (simp add: touches_def same_watch_def)
  ultimately show ?thesis
    by (auto simp: watch_older_def watches_touch outbox_touch intro!: evolves_update_where)
qed

section \<open>Every operation\<close>

text \<open>An operation is good on a state when it keeps the invariant and the order.\<close>

definition good :: "(string \<Rightarrow> string) \<Rightarrow> watch_ledger \<Rightarrow> watch_ledger \<Rightarrow> bool" where
  "good H s t \<longleftrightarrow> watch_inv H t \<and> watch_older s t"

lemma good_refl: "watch_inv H s \<Longrightarrow> good H s s"
  by (simp add: good_def)

lemma good_trans: "good H s t \<Longrightarrow> good H t u \<Longrightarrow> good H s u"
  by (auto simp: good_def intro: watch_older_trans)

lemma good_touch:
  "watch_inv H s \<Longrightarrow> x \<in> set (outbox s) \<Longrightarrow> touches x f g \<Longrightarrow>
   good H s (update_watch (out_target x) g (update_outbox (delivery_id x) f s))"
  by (simp add: good_def touch_inv touch_older)

lemma claim_delivery_good:
  assumes "watch_inv H s" shows "good H s (snd (claim_delivery clk w secs now target s))"
proof -
  have "good H s (update_watch (out_target x) (\<lambda>w. w\<lparr>delivery_state := Some DELIVERING, watch_updated_at := c\<rparr>)
      (update_outbox (delivery_id x) (\<lambda>y. y\<lparr>status := DELIVERING, attempt_count := attempt_count x + 1,
                      lease_owner := Some o', lease_until := Some u, out_updated_at := c,
                      last_error := None\<rparr>) s))"
    if "first_by (\<lambda>x. (out_created_at x, delivery_id x)) (filter (ready c key) (outbox s)) = Some x"
    for c key x o' u
    using first_by_filter_SomeD [OF that] assms
    by (intro good_touch) (auto simp: touches_def out_ok_def same_delivery_def ready_def)
  then show ?thesis
    using assms
    by (auto simp: claim_delivery_def Let_def good_refl split: sum.split option.split)
qed

lemma leased_row_Some:
  "leased_row did w a s = Inr (Some x) \<Longrightarrow> x \<in> set (outbox s) \<and> delivery_id x = did
     \<and> status x = DELIVERING \<and> lease_owner x = Some w \<and> attempt_count x = a"
  by (auto simp: leased_row_def require_lease_def dest: select_one_SomeD
      split: option.splits if_splits sum.splits)

text \<open>The update guarded by the lease is the update of the leased row.\<close>

lemma finish_lease_eq:
  assumes "watch_inv H s" "x \<in> set (outbox s)" "status x = DELIVERING"
    and "lease_owner x = Some w" "attempt_count x = a"
  shows "finish_lease (delivery_id x) w a f what k g s
     = (Inr True, update_watch k g (update_outbox (delivery_id x) f s))"
proof -
  let ?hit = "\<lambda>y. delivery_id y = delivery_id x \<and> status y = DELIVERING \<and> lease_owner y = Some w
                   \<and> attempt_count y = a"
  have d: "distinct (map delivery_id (outbox s))" using assms(1) by (simp add: watch_inv_def)
  have hit: "?hit y \<longleftrightarrow> delivery_id y = delivery_id x" if "y \<in> set (outbox s)" for y
    using unique_row [OF d that assms(2)] assms(3-5) by blast
  have "distinct (outbox s)" using d by (simp add: distinct_map)
  then have "filter ?hit (outbox s) = [x]"
    using assms(2) hit unique_row [OF d] by (intro filter_one) metis+
  then have "length (filter ?hit (outbox s)) = 1" by simp
  moreover have "update_where ?hit f (outbox s) = update_where (\<lambda>y. delivery_id y = delivery_id x) f (outbox s)"
    unfolding update_where_def using hit by (intro map_cong) auto
  ultimately show ?thesis by (simp add: finish_lease_def update_outbox_def)
qed

lemma acknowledge_good:
  assumes "watch_inv H s" shows "good H s (snd (acknowledge_delivery clk d w a t s))"
proof -
  have "good H s (snd (finish_lease d' w' a' (\<lambda>x. x\<lparr>status := DELIVERED, lease_owner := None,
      lease_until := None, delivered_at := Some n, out_updated_at := n, last_error := None\<rparr>)
      what (out_target x) (\<lambda>w. w\<lparr>terminal_notified_at := Some n, delivery_state := Some DELIVERED,
        watch_updated_at := n\<rparr>) s))"
    if "leased_row d' w' a' s = Inr (Some x)" for d' w' a' n what x
    using leased_row_Some [OF that] assms finish_lease_eq [OF assms, of x w' a']
    by (auto simp: touches_def out_ok_def same_delivery_def intro!: good_touch)
  then show ?thesis
    using assms
    by (auto simp: acknowledge_delivery_def Let_def good_refl split: sum.split option.split)
qed

lemma fail_good:
  assumes "watch_inv H s" shows "good H s (snd (fail_delivery clk d w err a r t s))"
proof -
  have "good H s (snd (finish_lease d' w' a' (\<lambda>x. x\<lparr>status := if r then PENDING else FAILED_TERMINAL,
      lease_owner := None, lease_until := None, last_error := Some m, out_updated_at := n\<rparr>)
      what (out_target x) (\<lambda>w. w\<lparr>delivery_state := Some (if r then PENDING else FAILED_TERMINAL),
        watch_updated_at := n\<rparr>) s))"
    if "leased_row d' w' a' s = Inr (Some x)" for d' w' a' n what x m
    using leased_row_Some [OF that] assms finish_lease_eq [OF assms, of x w' a']
    by (auto simp: touches_def out_ok_def same_delivery_def intro!: good_touch)
  then show ?thesis
    using assms by (auto simp: fail_delivery_def Let_def good_refl split: sum.split option.split)
qed

lemma resolve_good:
  assumes "watch_inv H s" shows "good H s (snd (resolve_legacy clk d b t s))"
proof -
  have "good H s (update_watch (out_target x) g (update_outbox d' f s))"
    if "select_one (\<lambda>x. delivery_id x = d') (outbox s) = Some x" "status x = LEGACY_UNCERTAIN"
      and "f = (\<lambda>x. x\<lparr>status := if b then DELIVERED else PENDING,
                      delivered_at := if b then Some n else None, out_updated_at := n\<rparr>)"
      and "g = (\<lambda>w. w\<lparr>terminal_notified_at := if b then Some n else None,
                      delivery_state := Some (if b then DELIVERED else PENDING), watch_updated_at := n\<rparr>)"
    for d' x f g n
    using select_one_SomeD [OF that(1)] that(2-4) assms good_touch [OF assms, of x f g]
    by (auto simp: touches_def out_ok_def same_delivery_def)
  then show ?thesis
    using assms by (auto simp: resolve_legacy_def Let_def good_refl split: sum.split option.split)
qed

subsection \<open>Observations\<close>

text \<open>The invariant while the delivery of one terminal target is still to be written.\<close>

definition inv_but :: "(string \<Rightarrow> string) \<Rightarrow> string set \<Rightarrow> watch_ledger \<Rightarrow> bool" where
  "inv_but H K s \<longleftrightarrow>
     distinct (map target_key (watches s)) \<and> distinct (map delivery_id (outbox s))
     \<and> distinct (map out_target (outbox s))
     \<and> (\<forall>x\<in>set (outbox s). delivery_id x = delivery_id_of H (out_target x) \<and> out_ok x
          \<and> (\<exists>w\<in>set (watches s). mirrors w x))
     \<and> (\<forall>w\<in>set (watches s). first_terminal_state w \<noteq> None \<longrightarrow> target_key w \<in> K \<or>
          delivery_id_of H (target_key w) \<in> delivery_id ` set (outbox s))
     \<and> (\<forall>key. notified key (events s) \<le> 1
          \<and> (notified key (events s) = 1 \<longrightarrow> delivery_id_of H key \<in> delivery_id ` set (outbox s)))"

lemma inv_but_empty: "inv_but H {} s \<longleftrightarrow> watch_inv H s"
  by (simp add: inv_but_def watch_inv_def)

lemma inv_but_mono: "inv_but H K s \<Longrightarrow> K \<subseteq> K' \<Longrightarrow> inv_but H K' s"
  unfolding inv_but_def by blast

lemma update_watch_fields [simp]:
  "watches (update_watch k g s) = update_where (\<lambda>w. target_key w = k) g (watches s)"
  "outbox (update_watch k g s) = outbox s" "events (update_watch k g s) = events s"
  by (simp_all add: update_watch_def)

text \<open>A change of one watch that its delivery, if it has one, does not see.\<close>

lemma watch_update_inv:
  assumes inv: "inv_but H K s"
    and g: "\<And>w. target_key (g w) = target_key w"
    and mir: "\<And>w x. w \<in> set (watches s) \<Longrightarrow> x \<in> set (outbox s) \<Longrightarrow> target_key w = k \<Longrightarrow> mirrors w x \<Longrightarrow> mirrors (g w) x"
    and new: "\<And>w. w \<in> set (watches s) \<Longrightarrow> target_key w = k \<Longrightarrow> first_terminal_state (g w) \<noteq> None \<Longrightarrow>
       first_terminal_state w \<noteq> None \<or> k \<in> K"
  shows "inv_but H K (update_watch k g s)" (is "inv_but H K ?s")
proof -
  have map: "map target_key (watches ?s) = map target_key (watches s)"
    by (simp add: map_update_where g)
  have row: "\<exists>w\<in>set (watches ?s). mirrors w x" if x: "x \<in> set (outbox s)" for x
  proof -
    obtain w where w: "w \<in> set (watches s)" "mirrors w x" using inv x unfolding inv_but_def by blast
    let ?w = "if target_key w = k then g w else w"
    have "?w \<in> set (watches ?s)" using w(1) by (simp add: set_update_where)
    moreover have "mirrors ?w x" using mir [OF w(1) x] w(2) by simp
    ultimately show ?thesis by blast
  qed
  have trm: "target_key v \<in> K \<or> delivery_id_of H (target_key v) \<in> delivery_id ` set (outbox s)"
    if v: "v \<in> set (watches ?s)" "first_terminal_state v \<noteq> None" for v
  proof -
    from v(1) obtain w where w: "w \<in> set (watches s)" "v = (if target_key w = k then g w else w)"
      by (auto simp: set_update_where)
    then have "target_key v = target_key w" using g by simp
    moreover have "first_terminal_state w \<noteq> None \<or> target_key w \<in> K" using new [OF w(1)] w(2) v(2)
      by (cases "target_key w = k") auto
    ultimately show ?thesis using inv w(1) unfolding inv_but_def by auto
  qed
  show ?thesis
    using inv row trm unfolding inv_but_def map update_watch_fields(2,3) by blast
qed

lemma watch_update_older:
  "(\<And>w. w \<in> set (watches s) \<Longrightarrow> target_key w = k \<Longrightarrow> same_watch w (g w)) \<Longrightarrow>
   watch_older s (update_watch k g s)"
  by (auto simp: watch_older_def evolves_refl intro!: evolves_update_where)

lemma record_observation_spec:
  assumes inv: "watch_inv H s" and r: "record_observation key st tm now s = (first, count, s1)"
  shows "inv_but H (if tm then {key} else {}) s1 \<and> watch_older s s1 \<and> outbox s1 = outbox s
    \<and> events s1 = events s \<and> (\<exists>w\<in>set (watches s1). target_key w = key \<and> first_terminal_state w = first)"
proof (cases "select_one (\<lambda>w. target_key w = key) (watches s)")
  case None
  let ?w = "\<lparr>target_key = key, last_state = st, first_terminal_state = first,
              terminal_notified_at = None, observation_count = 1, watch_created_at = now,
              watch_updated_at = now, terminal_enqueued_at = None, delivery_state = None\<rparr>"
  have s1: "s1 = s\<lparr>watches := watches s @ [?w]\<rparr>" "first = (if tm then Some st else None)"
    using None r by (auto simp: record_observation_def Let_def)
  have "key \<notin> target_key ` set (watches s)" using None by (auto simp: select_one_None)
  then show ?thesis
    using inv unfolding s1(1) watch_inv_def inv_but_def
    by (auto simp: watch_older_def evolvesI_append evolves_refl s1(2))
next
  case (Some w)
  let ?g = "\<lambda>v. v\<lparr>last_state := st, observation_count := observation_count w + 1, watch_updated_at := now\<rparr>"
  have w: "w \<in> set (watches s)" "target_key w = key" using select_one_SomeD [OF Some] by simp_all
  have s1: "s1 = update_watch key ?g s" "first = first_terminal_state w"
    using Some r by (auto simp: record_observation_def Let_def)
  have uniq: "v = w" if "v \<in> set (watches s)" "target_key v = key" for v
    using that w unique_row [of target_key "watches s"] inv unfolding watch_inv_def by blast
  have "inv_but H {} s1"
    unfolding s1(1) using inv by (intro watch_update_inv) (auto simp: inv_but_empty mirrors_def)
  then have "inv_but H (if tm then {key} else {}) s1" by (rule inv_but_mono) simp
  moreover have "watch_older s s1"
    unfolding s1(1) using uniq by (intro watch_update_older) (auto simp: same_watch_def)
  moreover have "?g w \<in> set (watches s1)" using w by (auto simp: s1(1) set_update_where)
  then have "\<exists>v\<in>set (watches s1). target_key v = key \<and> first_terminal_state v = first"
    by (rule bexI [rotated]) (simp add: w s1(2))
  ultimately show ?thesis by (simp add: s1(1))
qed

lemma set_first_terminal_spec:
  assumes inv: "inv_but H {key} s1" and r: "set_first_terminal key st first s1 = (f, s2)"
    and w: "w \<in> set (watches s1)" "target_key w = key" "first_terminal_state w = first"
  shows "inv_but H {key} s2 \<and> watch_older s1 s2 \<and> outbox s2 = outbox s1 \<and> events s2 = events s1
    \<and> (\<exists>w\<in>set (watches s2). target_key w = key \<and> first_terminal_state w = Some f)"
proof (cases first)
  case None
  let ?g = "\<lambda>v. v\<lparr>first_terminal_state := Some st\<rparr>"
  have s2: "s2 = update_watch key ?g s1" "f = st" using None r by (auto simp: set_first_terminal_def)
  have uniq: "v = w" if "v \<in> set (watches s1)" "target_key v = key" for v
    using that w unique_row [of target_key "watches s1"] inv unfolding inv_but_def by blast
  have none: "first_terminal_state v = None" if "v \<in> set (watches s1)" "target_key v = key" for v
    using uniq [OF that] w(3) None by simp
  have "inv_but H {key} s2"
    unfolding s2(1)
  proof (rule watch_update_inv [OF inv])
    show "mirrors (?g v) x" if "v \<in> set (watches s1)" "target_key v = key" "mirrors v x" for v x
      using none [OF that(1,2)] that(3) by (simp add: mirrors_def)
  qed simp_all
  moreover have "watch_older s1 s2"
    unfolding s2(1) by (rule watch_update_older) (simp add: same_watch_def none)
  moreover have "?g w \<in> set (watches s2)" using w by (auto simp: s2(1) set_update_where)
  then have "\<exists>v\<in>set (watches s2). target_key v = key \<and> first_terminal_state v = Some f"
    by (rule bexI [rotated]) (simp add: w s2(2))
  ultimately show ?thesis by (simp add: s2(1))
next
  case (Some x)
  with r have "s2 = s1" "f = x" by (simp_all add: set_first_terminal_def)
  with w inv Some show ?thesis by auto
qed

lemma notified_snoc: "notified k (es @ [e]) = notified k es + (if ev_target e = k \<and> ev_notify e then 1 else 0)"
  by (simp add: notified_def)

lemma insert_or_ignore_cases:
  "(rows = old \<and> insert_or_ignore n old = old \<and> (\<exists>x\<in>set old. delivery_id x = delivery_id n \<or> out_target x = out_target n))
   \<or> (rows = old @ [n] \<and> insert_or_ignore n old = old @ [n]
      \<and> (\<forall>x\<in>set old. delivery_id x \<noteq> delivery_id n \<and> out_target x \<noteq> out_target n))"
  if "rows = insert_or_ignore n old"
  using that by (auto simp: insert_or_ignore_def)

lemma deliver_inv:
  assumes inv: "inv_but H {key} s2"
    and w: "w \<in> set (watches s2)" "target_key w = key" "first_terminal_state w = Some f"
    and n: "n = new_delivery H key f now"
    and rows: "rows = insert_or_ignore n (outbox s2)"
    and out: "select_one (\<lambda>x. delivery_id x = delivery_id_of H key) rows = Some out"
    and g: "\<And>v. target_key (g v) = target_key v \<and> first_terminal_state (g v) = first_terminal_state v
              \<and> delivery_state (g v) = Some (status out) \<and> observation_count (g v) = observation_count v"
  shows "good H s2 (add_event key st True (rows \<noteq> outbox s2) now (Some (delivery_id_of H key))
           (update_watch key g (s2\<lparr>outbox := rows\<rparr>)))" (is "good H s2 ?t")
proof -
  have nid: "delivery_id n = delivery_id_of H key" "out_target n = key" "terminal_state n = f"
    "status n = PENDING" "out_ok n"
    by (simp_all add: n new_delivery_def out_ok_def)
  have outm: "out \<in> set rows" "delivery_id out = delivery_id_of H key"
    using select_one_SomeD [OF out] by simp_all
  have parts: "watches ?t = update_where (\<lambda>v. target_key v = key) g (watches s2)" "outbox ?t = rows"
    by (simp_all add: add_event_def)
  have cases: "rows = outbox s2 \<or> rows = outbox s2 @ [n] \<and> (\<forall>x\<in>set (outbox s2).
      delivery_id x \<noteq> delivery_id n \<and> out_target x \<noteq> out_target n)"
    using insert_or_ignore_cases [OF rows] by blast
  have dold: "distinct (map delivery_id (outbox s2))" "distinct (map out_target (outbox s2))"
    using inv unfolding inv_but_def by blast+
  have drows: "distinct (map delivery_id rows)" "distinct (map out_target rows)"
    using cases dold by (auto simp: image_iff) metis+
  have old: "delivery_id x = delivery_id_of H (out_target x) \<and> out_ok x" if "x \<in> set rows" for x
    using that cases inv nid by (auto simp: inv_but_def)
  have same_out: "x = out" if "x \<in> set rows" "out_target x = key" for x
    using old [OF that(1)] that outm unique_row [OF drows(1) that(1) outm(1)] by simp
  have mir: "\<exists>v\<in>set (watches ?t). mirrors v x" if x: "x \<in> set rows" for x
  proof -
    have "\<exists>v\<in>set (watches s2). target_key v = out_target x \<and> first_terminal_state v = Some (terminal_state x)
        \<and> (out_target x = key \<or> delivery_state v = Some (status x))"
    proof (cases "x \<in> set (outbox s2)")
      case True
      then show ?thesis using inv unfolding inv_but_def mirrors_def by blast
    next
      case False
      then have "x = n" using x cases by auto
      then show ?thesis using w nid by (intro bexI [of _ w]) simp_all
    qed
    then obtain v where v: "v \<in> set (watches s2)" "target_key v = out_target x"
      "first_terminal_state v = Some (terminal_state x)"
      "out_target x = key \<or> delivery_state v = Some (status x)" by blast
    let ?v = "if target_key v = key then g v else v"
    have "?v \<in> set (watches ?t)" using v(1) by (simp add: parts set_update_where)
    moreover have "mirrors ?v x"
    proof (cases "out_target x = key")
      case True
      with same_out [OF x True] v(2,3) g show ?thesis by (simp add: mirrors_def)
    next
      case False
      with v show ?thesis by (simp add: mirrors_def)
    qed
    ultimately show ?thesis by blast
  qed
  have idin: "delivery_id_of H key \<in> delivery_id ` set rows" using outm by (metis imageI)
  have sub: "delivery_id ` set (outbox s2) \<subseteq> delivery_id ` set rows" using cases by auto
  have trm: "delivery_id_of H (target_key v) \<in> delivery_id ` set rows"
    if v: "v \<in> set (watches ?t)" "first_terminal_state v \<noteq> None" for v
  proof -
    from v(1) obtain u where u: "u \<in> set (watches s2)" "v = (if target_key u = key then g u else u)"
      by (auto simp: parts set_update_where)
    then have "target_key v = target_key u" "first_terminal_state u \<noteq> None"
      using g v(2) by (cases "target_key u = key"; simp)+
    moreover have "target_key u \<in> {key} \<or> delivery_id_of H (target_key u) \<in> delivery_id ` set (outbox s2)"
      if "first_terminal_state u \<noteq> None"
      using inv u(1) that unfolding inv_but_def by blast
    ultimately show ?thesis using idin sub by (metis singletonD subsetD)
  qed
  have ev: "notified k (events ?t) = notified k (events s2) + (if k = key \<and> rows \<noteq> outbox s2 then 1 else 0)" for k
    by (simp add: add_event_def notified_snoc)
  have zero: "notified key (events s2) = 0" if "rows \<noteq> outbox s2"
  proof (rule ccontr)
    assume "notified key (events s2) \<noteq> 0"
    moreover have "notified key (events s2) \<le> 1" using inv unfolding inv_but_def by blast
    ultimately have "notified key (events s2) = 1" by linarith
    then have "delivery_id_of H key \<in> delivery_id ` set (outbox s2)" using inv unfolding inv_but_def by blast
    with that cases nid(1) show False by auto
  qed
  have cnt: "notified k (events ?t) \<le> 1
      \<and> (notified k (events ?t) = 1 \<longrightarrow> delivery_id_of H k \<in> delivery_id ` set rows)" for k
  proof -
    have "notified k (events s2) \<le> 1"
      "notified k (events s2) = 1 \<longrightarrow> delivery_id_of H k \<in> delivery_id ` set (outbox s2)"
      using inv unfolding inv_but_def by blast+
    then show ?thesis
      using zero idin sub unfolding ev by (cases "k = key \<and> rows \<noteq> outbox s2") auto
  qed
  have "map target_key (watches ?t) = map target_key (watches s2)"
    by (simp add: parts map_update_where g)
  then have "watch_inv H ?t"
    using inv drows old mir trm cnt unfolding watch_inv_def inv_but_def parts(2) by simp
  moreover have "evolves same_delivery (outbox s2) rows"
    using cases by (auto intro: evolves_refl evolvesI_append)
  then have "watch_older s2 ?t"
    using g by (auto simp: watch_older_def parts same_watch_def intro!: evolves_update_where)
  ultimately show ?thesis by (simp add: good_def)
qed

lemma plain_event_inv:
  "watch_inv H s \<Longrightarrow> watch_inv H (add_event k st tm False now d s) \<and> watch_older s (add_event k st tm False now d s)"
  by (auto simp: watch_inv_def add_event_def notified_snoc watch_older_def evolves_refl)

lemma observe_good:
  assumes "watch_inv H s" shows "good H s (snd (observe H clk target st0 terms t s))"
proof (cases "clean target ''target_key''")
  case key: (Inr key)
  show ?thesis
  proof (cases "clean st0 ''observed_state''")
    case st: (Inr st)
    show ?thesis
    proof (cases "clean_all terms ''terminal_state''")
      case terms: (Inr terminals)
      define now where "now = (case t of None \<Rightarrow> clk | Some t \<Rightarrow> t)"
      obtain first count s1 where r: "record_observation key st (st \<in> set terminals) now s = (first, count, s1)"
        by (metis prod_cases3)
      note spec = record_observation_spec [OF assms r]
      show ?thesis
      proof (cases "st \<in> set terminals")
        case False
        with spec have "watch_inv H s1" "watch_older s s1" by (simp_all add: inv_but_empty)
        with False key st terms r show ?thesis
          using plain_event_inv [of H s1] watch_older_trans assms
          by (auto simp: observe_def Let_def now_def good_def)
      next
        case True
        obtain f s2 where f: "set_first_terminal key st first s1 = (f, s2)" by fastforce
        obtain w where w: "w \<in> set (watches s1)" "target_key w = key" "first_terminal_state w = first"
          using spec by blast
        have i1: "inv_but H {key} s1" "watch_older s s1" using spec True by simp_all
        note spec2 = set_first_terminal_spec [OF i1(1) f w]
        then have i2: "inv_but H {key} s2" "watch_older s s2" using i1(2) watch_older_trans by blast+
        obtain v where v: "v \<in> set (watches s2)" "target_key v = key" "first_terminal_state v = Some f"
          using spec2 by blast
        let ?rows = "insert_or_ignore (new_delivery H key f now) (outbox s2)"
        show ?thesis
        proof (cases "select_one (\<lambda>x. delivery_id x = delivery_id_of H key) ?rows")
          case None
          with True key st terms r f show ?thesis
            using assms by (auto simp: observe_def Let_def now_def good_refl)
        next
          case (Some out)
          let ?g = "\<lambda>w. w\<lparr>terminal_enqueued_at := (case terminal_enqueued_at w of
                        None \<Rightarrow> Some (out_created_at out) | Some t \<Rightarrow> Some t),
                      delivery_state := Some (status out)\<rparr>"
          have "good H s2 (add_event key st True (?rows \<noteq> outbox s2) now (Some (delivery_id_of H key))
              (update_watch key ?g (s2\<lparr>outbox := ?rows\<rparr>)))"
            by (rule deliver_inv [OF i2(1) v refl refl Some]) simp
          with i2(2) have "good H s (add_event key st True (?rows \<noteq> outbox s2) now (Some (delivery_id_of H key))
              (update_watch key ?g (s2\<lparr>outbox := ?rows\<rparr>)))"
            by (auto simp: good_def intro: watch_older_trans)
          with True key st terms r f Some show ?thesis
            by (auto simp: observe_def Let_def now_def)
        qed
      qed
    qed (simp add: observe_def key st good_refl assms split: if_splits)
  qed (simp add: observe_def key good_refl assms)
qed (simp add: observe_def good_refl assms)

section \<open>The interface\<close>

datatype watch_op =
    Observe rat string string "string list" "rat option"
  | Claim_Delivery rat string rat "rat option" "string option"
  | Acknowledge_Delivery rat string string int "rat option"
  | Fail_Delivery rat string string string int bool "rat option"
  | Resolve_Legacy rat string bool "rat option"

primrec run_watch :: "(string \<Rightarrow> string) \<Rightarrow> watch_op \<Rightarrow> watch_ledger \<Rightarrow> watch_ledger" where
  "run_watch H (Observe clk k st ts t) s = snd (observe H clk k st ts t s)"
| "run_watch H (Claim_Delivery clk w secs now k) s = snd (claim_delivery clk w secs now k s)"
| "run_watch H (Acknowledge_Delivery clk d w a t) s = snd (acknowledge_delivery clk d w a t s)"
| "run_watch H (Fail_Delivery clk d w e a r t) s = snd (fail_delivery clk d w e a r t s)"
| "run_watch H (Resolve_Legacy clk d b t) s = snd (resolve_legacy clk d b t s)"

abbreviation run_watches :: "(string \<Rightarrow> string) \<Rightarrow> watch_op list \<Rightarrow> watch_ledger \<Rightarrow> watch_ledger" where
  "run_watches H \<equiv> run_all (run_watch H)"

lemma run_watch_good: "watch_inv H s \<Longrightarrow> good H s (run_watch H op s)"
  by (cases op) (simp_all add: observe_good claim_delivery_good acknowledge_good fail_good resolve_good)

interpretation watch_machine: evolving_machine "run_watch H" empty_watches "watch_inv H" watch_older for H
  using run_watch_good
  by unfold_locales (auto simp: empty_watches_inv good_def intro: watch_older_trans)

subsection \<open>Every delivery was notified\<close>

definition announced :: "watch_ledger \<Rightarrow> bool" where
  "announced s \<longleftrightarrow> (\<forall>x\<in>set (outbox s). 1 \<le> notified (out_target x) (events s))"

lemma announced_touch:
  "announced s \<Longrightarrow> (\<And>x. out_target (f x) = out_target x) \<Longrightarrow>
   announced (update_watch k g (s\<lparr>outbox := update_where P f (outbox s)\<rparr>))"
  by (auto simp: announced_def set_update_where)

lemma announced_event: "announced s \<Longrightarrow> announced (add_event k st tm b now d s)"
  by (auto simp: announced_def add_event_def notified_snoc)

lemma announced_tables:
  "announced s \<Longrightarrow> outbox t = outbox s \<Longrightarrow> events t = events s \<Longrightarrow> announced t"
  by (simp add: announced_def)

lemma announced_insert:
  "announced s \<Longrightarrow> rows = insert_or_ignore n (outbox s) \<Longrightarrow> out_target n = key \<Longrightarrow>
   announced (add_event key st True (rows \<noteq> outbox s) now d (update_watch k g (s\<lparr>outbox := rows\<rparr>)))"
  using insert_or_ignore_cases [of rows n "outbox s"]
  by (auto simp: announced_def add_event_def notified_snoc)

lemma record_observation_tables:
  "record_observation key st tm now s = (first, count, s1) \<Longrightarrow> outbox s1 = outbox s \<and> events s1 = events s"
  by (auto simp: record_observation_def Let_def split: option.splits)

lemma set_first_terminal_tables:
  "set_first_terminal key st first s = (f, s1) \<Longrightarrow> outbox s1 = outbox s \<and> events s1 = events s"
  by (auto simp: set_first_terminal_def split: option.splits)

lemma observe_announced:
  assumes "announced s" shows "announced (snd (observe H clk target st0 terms t s))"
proof -
  have plain: "announced (add_event key st False False now None s1)"
    if "record_observation key st tm now s = (first, count, s1)" for key st tm now first count s1
    using that record_observation_tables assms announced_tables announced_event by metis
  have trm: "announced (add_event key st True
      (insert_or_ignore (new_delivery H key f now) (outbox s2) \<noteq> outbox s2) now d
      (update_watch key g (s2\<lparr>outbox := insert_or_ignore (new_delivery H key f now) (outbox s2)\<rparr>)))"
    if "record_observation key st tm now s = (first, count, s1)" "set_first_terminal key st first s1 = (f, s2)"
    for key st tm now first count s1 s2 f d g
  proof -
    have "announced s2"
      using record_observation_tables [OF that(1)] set_first_terminal_tables [OF that(2)] assms
        announced_tables by metis
    moreover have "out_target (new_delivery H key f now) = key" by (simp add: new_delivery_def)
    ultimately show ?thesis using announced_insert [OF _ refl] by blast
  qed
  show ?thesis
    using plain trm assms
    by (auto simp: observe_def Let_def split: sum.split prod.split option.split)
qed

lemma run_announced: "announced s \<Longrightarrow> announced (run_watch H op s)"
proof (cases op)
  case (Observe clk k st ts t)
  then show "announced s \<Longrightarrow> ?thesis" by (simp add: observe_announced)
next
  case (Claim_Delivery clk w secs now k)
  then show "announced s \<Longrightarrow> ?thesis"
    by (auto simp: claim_delivery_def Let_def update_outbox_def intro!: announced_touch
        split: sum.split option.split)
next
  case (Acknowledge_Delivery clk d w a t)
  then show "announced s \<Longrightarrow> ?thesis"
    by (auto simp: acknowledge_delivery_def finish_lease_def Let_def intro!: announced_touch
        split: sum.split option.split)
next
  case (Fail_Delivery clk d w e a r t)
  then show "announced s \<Longrightarrow> ?thesis"
    by (auto simp: fail_delivery_def finish_lease_def Let_def intro!: announced_touch
        split: sum.split option.split)
next
  case (Resolve_Legacy clk d b t)
  then show "announced s \<Longrightarrow> ?thesis"
    by (auto simp: resolve_legacy_def Let_def update_outbox_def intro!: announced_touch
        split: sum.split option.split)
qed

lemma reached_announced: "announced (run_watches H ops empty_watches)"
  by (rule watch_machine.run_all_keeps [of H]) (simp_all add: empty_watches_inv run_announced, simp add: announced_def empty_watches_def)

lemma clean_Inr: "clean v n = Inr u \<Longrightarrow> u = strip v"
  by (simp add: clean_def Let_def split: if_splits)

lemma acknowledged_row:
  assumes "acknowledge_delivery clk d w a t s = (Inr True, s')"
  shows "\<exists>y. leased_row (strip d) (strip w) a s = Inr (Some y)"
proof (cases "clean d ''delivery_id''")
  case d: (Inr d')
  show ?thesis
  proof (cases "clean w ''worker_id''")
    case w: (Inr w')
    with d assms show ?thesis
      using clean_Inr [OF d] clean_Inr [OF w]
      by (auto simp: acknowledge_delivery_def validate_attempt_count_def Let_def
          split: sum.splits option.splits if_splits)
  qed (use assms d in \<open>simp add: acknowledge_delivery_def\<close>)
qed (use assms in \<open>simp add: acknowledge_delivery_def\<close>)

lemma claimed_row:
  assumes "claim_delivery clk worker secs now target s = (Inr (Some c), t)"
  shows "\<exists>x\<in>set (outbox t). delivery_id x = c_delivery_id c \<and> status x = DELIVERING
      \<and> lease_owner x = Some (c_owner c) \<and> attempt_count x = c_attempt c"
proof -
  have hit: "f x \<in> set (update_where (\<lambda>y. delivery_id y = delivery_id x) f rows)"
    if "x \<in> set rows" for x f and rows :: "outbox_row list"
    using that by (auto simp: set_update_where)
  from assms obtain row cur key until where
    row: "first_by (\<lambda>x. (out_created_at x, delivery_id x)) (filter (ready cur key) (outbox s)) = Some row"
    and c: "c_delivery_id c = delivery_id row" "c_attempt c = attempt_count row + 1"
    and t: "outbox t = update_where (\<lambda>x. delivery_id x = delivery_id row)
        (\<lambda>x. x\<lparr>status := DELIVERING, attempt_count := attempt_count row + 1,
               lease_owner := Some (c_owner c), lease_until := Some until,
               out_updated_at := cur, last_error := None\<rparr>) (outbox s)"
    by (auto simp: claim_delivery_def Let_def update_outbox_def split: sum.splits option.splits if_splits)
  have "row \<in> set (outbox s)" using first_by_filter_SomeD [OF row] by simp
  from hit [OF this] show ?thesis unfolding t c by (rule bexI [rotated]) simp
qed

section \<open>Properties\<close>

text \<open>
  After any sequence of operations each target has at most one delivery, and the row of its
  watch agrees with it: the terminal state that is delivered is the first terminal state the watch
  recorded, and the watch shows the status of the delivery.
\<close>

theorem one_mirrored_delivery_per_target:
  "distinct (map out_target (outbox (run_watches H ops empty_watches))) \<and>
   list_all (\<lambda>x. \<exists>w\<in>set (watches (run_watches H ops empty_watches)).
       target_key w = out_target x \<and> first_terminal_state w = Some (terminal_state x)
       \<and> delivery_state w = Some (status x))
     (outbox (run_watches H ops empty_watches))"
  using watch_machine.reached_inv [of H ops]
  by (auto simp: watch_inv_def mirrors_def list_all_iff)

text \<open>
  C7. Exactly one notification: a watched target that reached a terminal state was notified once
  over the whole history, however often it was observed, unless its delivery id collides with
  another target's; a target is never notified twice.
\<close>

theorem notified_exactly_once:
  assumes "w \<in> set (watches (run_watches H ops empty_watches))" "first_terminal_state w \<noteq> None"
  shows "notified (target_key w) (events (run_watches H ops empty_watches)) = 1
    \<or> (\<exists>x\<in>set (outbox (run_watches H ops empty_watches)). out_target x \<noteq> target_key w
         \<and> delivery_id_of H (out_target x) = delivery_id_of H (target_key w)
         \<and> notified (target_key w) (events (run_watches H ops empty_watches)) \<le> 1)"
proof -
  let ?s = "run_watches H ops empty_watches"
  have inv: "watch_inv H ?s" by (rule watch_machine.reached_inv)
  have le: "notified (target_key w) (events ?s) \<le> 1" using inv unfolding watch_inv_def by blast
  obtain x where x: "x \<in> set (outbox ?s)" "delivery_id x = delivery_id_of H (target_key w)"
    using inv assms unfolding watch_inv_def by (metis imageE)
  then have id: "delivery_id_of H (out_target x) = delivery_id_of H (target_key w)"
    using inv unfolding watch_inv_def by metis
  show ?thesis
  proof (cases "out_target x = target_key w")
    case True
    then have "1 \<le> notified (target_key w) (events ?s)"
      using reached_announced [of H ops] x(1) unfolding announced_def by metis
    with le show ?thesis by simp
  next
    case False
    with x(1) id le show ?thesis by blast
  qed
qed

text \<open>
  Fencing: a worker that claimed a delivery can acknowledge it later, after any operations by
  anybody, only when its very lease is still in force: nobody claimed, failed or finished the
  delivery in between. (A delivery id holds a hexadecimal digest, so cleaning does not change it.)
\<close>

theorem acknowledgement_is_fenced:
  assumes "claim_delivery clk worker secs now target (run_watches H ops empty_watches) = (Inr (Some c), s)"
    and "acknowledge_delivery clk' (c_delivery_id c) w (c_attempt c) t (run_watches H later s) = (Inr True, s')"
    and "strip (c_delivery_id c) = c_delivery_id c"
  shows "\<exists>x\<in>set (outbox s). x \<in> set (outbox (run_watches H later s)) \<and> delivery_id x = c_delivery_id c
    \<and> status x = DELIVERING \<and> lease_owner x = Some (c_owner c) \<and> attempt_count x = c_attempt c
    \<and> strip w = c_owner c"
proof -
  let ?t = "run_watches H later s"
  have inv0: "watch_inv H (run_watches H ops empty_watches)" by (rule watch_machine.reached_inv)
  have s: "s = run_watch H (Claim_Delivery clk worker secs now target) (run_watches H ops empty_watches)"
    using assms(1) by simp
  have inv: "watch_inv H s" unfolding s by (rule watch_machine.run_inv [OF inv0])
  have old: "watch_older s ?t" by (rule watch_machine.run_all_older [OF inv])
  have invt: "watch_inv H ?t" by (rule watch_machine.run_all_inv [OF inv])
  have "\<exists>x\<in>set (outbox s). delivery_id x = c_delivery_id c \<and> status x = DELIVERING
      \<and> lease_owner x = Some (c_owner c) \<and> attempt_count x = c_attempt c"
    by (rule claimed_row [OF assms(1)])
  then obtain x where x: "x \<in> set (outbox s)" "delivery_id x = c_delivery_id c" "status x = DELIVERING"
    "lease_owner x = Some (c_owner c)" "attempt_count x = c_attempt c" by blast
  obtain y where y: "leased_row (strip (c_delivery_id c)) (strip w) (c_attempt c) ?t = Inr (Some y)"
    using acknowledged_row [OF assms(2)] by blast
  note ly = leased_row_Some [OF y]
  have "evolves same_delivery (outbox s) (outbox ?t)" using old unfolding watch_older_def by blast
  from evolves_member [OF this x(1)] obtain z where z: "z \<in> set (outbox ?t)" "same_delivery x z" by blast
  have "delivery_id z = delivery_id x" using z(2) unfolding same_delivery_def by blast
  then have "delivery_id z = delivery_id y" using x(2) ly assms(3) by metis
  then have "z = y"
    using unique_row [of delivery_id "outbox ?t" z y] invt z(1) ly unfolding watch_inv_def by blast
  then have "y = x" using z(2) ly x(5) unfolding same_delivery_def by metis
  then have "x \<in> set (outbox ?t)" "lease_owner x = Some (strip w)" using ly by simp_all
  moreover from this x(4) have "strip w = c_owner c" by simp
  ultimately show ?thesis using x by blast
qed

text \<open>
  From any reachable ledger to any later one deliveries keep their place, id, target and
  terminal state, attempts never decrease, the first terminal state of a watch never changes, and a
  delivered or terminally failed delivery never changes at all.
\<close>

theorem outcomes_are_final:
  "evolves same_watch (watches (run_watches H ops empty_watches))
     (watches (run_watches H (ops @ later) empty_watches))
   \<and> evolves same_delivery (outbox (run_watches H ops empty_watches))
     (outbox (run_watches H (ops @ later) empty_watches))"
  using watch_machine.run_all_older [OF watch_machine.reached_inv, of H ops later]
  by (simp add: watch_older_def run_all_append)

section \<open>Concrete runs\<close>

definition demo_id :: string where
  "demo_id = delivery_id_of (\<lambda>s. s) ''t''"

definition demo_observed :: watch_ledger where
  "demo_observed =
     \<lparr>watches = [\<lparr>target_key = ''t'', last_state = ''done'', first_terminal_state = Some ''done'',
        terminal_notified_at = None, observation_count = 1, watch_created_at = 5,
        watch_updated_at = 5, terminal_enqueued_at = Some 5, delivery_state = Some PENDING\<rparr>],
      outbox = [new_delivery (\<lambda>s. s) ''t'' ''done'' 5],
      events = [\<lparr>ev_target = ''t'', ev_state = ''done'', ev_terminal = True, ev_notify = True,
        ev_at = 5, ev_delivery = Some demo_id\<rparr>]\<rparr>"

lemma clean_demo: "clean ''t'' n = Inr ''t''" "clean ''done'' n = Inr ''done''" "clean ''w'' n = Inr ''w''"
  "clean demo_id n = Inr demo_id"
  by (simp_all add: clean_def strip_def lstrip_def rstrip_def isspace_def demo_id_def delivery_id_of_def
      Let_def)

lemma strip_demo: "strip demo_id = demo_id" "strip ''w'' = ''w''"
  by (simp_all add: strip_def lstrip_def rstrip_def isspace_def demo_id_def delivery_id_of_def)

lemma demo_observed_run:
  "run_watches (\<lambda>s. s) [Observe 5 ''t'' ''done'' [''done''] None] empty_watches = demo_observed"
  by (simp add: observe_def clean_demo empty_watches_def record_observation_def table_simps Let_def
      set_first_terminal_def insert_or_ignore_def new_delivery_def add_event_def update_watch_def
      demo_observed_def demo_id_def)

theorem notified_exactly_once_witness:
  "notified ''t'' (events demo_observed) = 1
    \<or> (\<exists>x\<in>set (outbox demo_observed). out_target x \<noteq> ''t''
         \<and> delivery_id_of (\<lambda>s. s) (out_target x) = delivery_id_of (\<lambda>s. s) ''t''
         \<and> notified ''t'' (events demo_observed) \<le> 1)"
  using notified_exactly_once [of "hd (watches demo_observed)" "\<lambda>s. s"
      "[Observe 5 ''t'' ''done'' [''done''] None]"]
  unfolding demo_observed_run by (simp add: demo_observed_def)

definition demo_delivery_claim :: delivery_claim where
  "demo_delivery_claim = \<lparr>c_delivery_id = demo_id, c_target = ''t'', c_terminal_state = ''done'',
     c_attempt = 1, c_owner = ''w'', c_until = 16\<rparr>"

definition demo_leased :: watch_ledger where
  "demo_leased = snd (claim_delivery 6 ''w'' 10 None None demo_observed)"

lemma demo_leased_run:
  "claim_delivery 6 ''w'' 10 None None demo_observed = (Inr (Some demo_delivery_claim), demo_leased)"
  by (simp add: demo_leased_def claim_delivery_def clean_demo demo_observed_def Let_def first_by_def
      ready_def new_delivery_def demo_delivery_claim_def demo_id_def)

lemma demo_leased_outbox: "outbox demo_leased = [(new_delivery (\<lambda>s. s) ''t'' ''done'' 5)\<lparr>status := DELIVERING,
     attempt_count := 1, lease_owner := Some ''w'', lease_until := Some 16, out_updated_at := 6,
     last_error := None\<rparr>]"
  by (simp add: demo_leased_def claim_delivery_def clean_demo demo_observed_def Let_def first_by_def
      ready_def new_delivery_def update_outbox_def table_simps)

theorem acknowledgement_is_fenced_witness:
  "\<exists>x\<in>set (outbox demo_leased). x \<in> set (outbox (run_watches (\<lambda>s. s) [] demo_leased))
    \<and> delivery_id x = c_delivery_id demo_delivery_claim
    \<and> status x = DELIVERING \<and> lease_owner x = Some (c_owner demo_delivery_claim)
    \<and> attempt_count x = c_attempt demo_delivery_claim \<and> strip ''w'' = c_owner demo_delivery_claim"
proof (rule acknowledgement_is_fenced)
  show "claim_delivery 6 ''w'' 10 None None (run_watches (\<lambda>s. s)
      [Observe 5 ''t'' ''done'' [''done''] None] empty_watches) = (Inr (Some demo_delivery_claim), demo_leased)"
    unfolding demo_observed_run by (rule demo_leased_run)
  let ?ack = "acknowledge_delivery 7 (c_delivery_id demo_delivery_claim) ''w'' (c_attempt demo_delivery_claim)
      None (run_watches (\<lambda>s. s) [] demo_leased)"
  have "fst ?ack = Inr True"
    by (simp add: acknowledge_delivery_def demo_delivery_claim_def clean_demo validate_attempt_count_def
        Let_def leased_row_def demo_leased_outbox table_simps new_delivery_def demo_id_def [symmetric]
        require_lease_def finish_lease_def)
  then show "?ack = (Inr True, snd ?ack)" by (metis prod.collapse)
  show "strip (c_delivery_id demo_delivery_claim) = c_delivery_id demo_delivery_claim"
    by (simp add: demo_delivery_claim_def strip_demo)
qed

end
