(* ===== verification/Capability_Factory.thy ===== *)
theory Capability_Factory
  imports Hash_Chain Op_Machine
begin

text \<open>
  \<open>frost_core/capability_factory.py\<close>: candidates, the evidence recorded for their promotion gates
  and the promotion decisions. A candidate is identified by the digest of all its fields, and gate
  evidence is kept under that identity. \<open>H\<close> is SHA-256.
\<close>

section \<open>Data\<close>

datatype capability_stage =
    DISCOVERED | WRAPPED | BUILDABLE | TESTED | DEPLOYED | REACHABLE
  | CHATGPT_CALLABLE_VERIFIED | PROMOTED | BLOCKED | QUARANTINED | DEMOTED

text \<open>\<open>ORDERED_STAGES\<close> and \<open>ORDERED_STAGES.index\<close>.\<close>

definition ordered_stages :: "capability_stage list" where
  "ordered_stages = [DISCOVERED, WRAPPED, BUILDABLE, TESTED, DEPLOYED, REACHABLE,
     CHATGPT_CALLABLE_VERIFIED, PROMOTED]"

definition stage_index :: "capability_stage \<Rightarrow> nat result" where
  "stage_index s =
     (if s \<in> set ordered_stages then Inr (length (takeWhile (\<lambda>t. t \<noteq> s) ordered_stages))
      else Inl (ValueError ''tuple.index(x): x not in tuple''))"

definition required_gates :: "string list" where
  "required_gates = [''provider_deployment_exists'', ''health_200'', ''source_hash_match'',
     ''capabilities_contract'', ''semantic_invoke'', ''guardian_denial'',
     ''independent_verification'', ''provenance_receipt'']"

record candidate =
  capability_id :: string
  operation :: string
  source_identity :: string
  adapter_identity :: string
  risk_class :: string
  provider_id :: string
  schema_identity :: string
  metadata :: json

definition candidate_dict :: "candidate \<Rightarrow> json" where
  "candidate_dict c = JObj
     [(''capability_id'', JStr (capability_id c)), (''operation'', JStr (operation c)),
      (''source_identity'', JStr (source_identity c)),
      (''adapter_identity'', JStr (adapter_identity c)), (''risk_class'', JStr (risk_class c)),
      (''provider_id'', JStr (provider_id c)), (''schema_identity'', JStr (schema_identity c)),
      (''metadata'', metadata c)]"

definition identity :: "(string \<Rightarrow> string) \<Rightarrow> candidate \<Rightarrow> string" where
  "identity H c = canonical_sha256 H (candidate_dict c)"

record gate_evidence =
  ge_gate :: string
  ge_passed :: bool
  ge_evidence :: json
  ge_recorded_at :: string

record promotion_decision =
  pd_capability :: string
  previous_stage :: capability_stage
  new_stage :: capability_stage
  reason :: string
  failed_gates :: "string list"
  evidence_hash :: string

record candidate_row =
  row_id :: string
  candidate_identity :: string
  row_candidate :: candidate
  stage :: capability_stage
  updated_at :: string

record gate_row =
  gate_capability :: string
  gate_identity :: string
  gate :: string
  passed :: bool
  evidence :: json
  recorded_at :: string

record factory =
  candidates :: "candidate_row list"
  gates :: "gate_row list"
  decisions :: "(promotion_decision \<times> string) list"

definition empty_factory :: factory where
  "empty_factory = \<lparr>candidates = [], gates = [], decisions = []\<rparr>"

section \<open>Operations\<close>

definition candidate_row_of :: "string \<Rightarrow> factory \<Rightarrow> candidate_row result" where
  "candidate_row_of cid f =
     (case select_one (\<lambda>r. row_id r = cid) (candidates f) of
        None \<Rightarrow> Inl (KeyError cid) | Some r \<Rightarrow> Inr r)"

definition set_stage :: "int \<Rightarrow> string \<Rightarrow> capability_stage \<Rightarrow> factory \<Rightarrow> factory" where
  "set_stage now cid st f =
     f\<lparr>candidates := update_where (\<lambda>r. row_id r = cid)
        (\<lambda>r. r\<lparr>stage := st, updated_at := isoformat now\<rparr>) (candidates f)\<rparr>"

definition discover :: "(string \<Rightarrow> string) \<Rightarrow> int \<Rightarrow> candidate \<Rightarrow> factory \<Rightarrow>
    (capability_stage, factory) outcome" where
  "discover H now c f =
     (if blank (capability_id c) \<or> blank (operation c)
      then (Inl (ValueError ''capability_id and operation are required''), f)
      else if lower (risk_class c) \<in> {''shell'', ''arbitrary_shell'', ''remote_shell''}
      then (Inl (ValueError ''unrestricted shell capabilities are not admissible''), f)
      else
        (let new = \<lparr>row_id = capability_id c, candidate_identity = identity H c,
                    row_candidate = c, stage = DISCOVERED, updated_at = isoformat now\<rparr>;
             stored = f\<lparr>candidates := upsert_by row_id
                 (\<lambda>r. r\<lparr>candidate_identity := identity H c, row_candidate := c,
                        stage := DISCOVERED, updated_at := isoformat now\<rparr>) new (candidates f)\<rparr>
         in case select_one (\<lambda>r. row_id r = capability_id c) (candidates f) of
              None \<Rightarrow> (Inr DISCOVERED, stored)
            | Some row \<Rightarrow>
                if candidate_identity row = identity H c then (Inr (stage row), f)
                else (Inr DISCOVERED, stored)))"

definition advance_structural :: "int \<Rightarrow> string \<Rightarrow> capability_stage \<Rightarrow> factory \<Rightarrow>
    (capability_stage, factory) outcome" where
  "advance_structural now cid target f =
     (if target \<notin> set (take 5 ordered_stages)
      then (Inl (ValueError ''structural advancement is limited through DEPLOYED''), f)
      else case candidate_row_of cid f of
        Inl e \<Rightarrow> (Inl e, f)
      | Inr row \<Rightarrow>
          (case stage_index (stage row) of
             Inl e \<Rightarrow> (Inl e, f)
           | Inr current_index \<Rightarrow>
               (case stage_index target of
                  Inl e \<Rightarrow> (Inl e, f)
                | Inr target_index \<Rightarrow>
                    if target_index > current_index + 1
                    then (Inl (ValueError ''capability stages may not be skipped''), f)
                    else if target_index \<le> current_index then (Inr (stage row), f)
                    else (Inr target, set_stage now cid target f))))"

definition record_gate :: "string \<Rightarrow> gate_evidence \<Rightarrow> factory \<Rightarrow> (unit, factory) outcome" where
  "record_gate cid e f =
     (if ge_gate e \<notin> set required_gates
      then (Inl (ValueError (''unknown promotion gate: '' @ ge_gate e)), f)
      else case candidate_row_of cid f of
        Inl err \<Rightarrow> (Inl err, f)
      | Inr row \<Rightarrow>
          (Inr (),
           f\<lparr>gates := upsert_by (\<lambda>g. (gate_capability g, gate_identity g, gate g))
               (\<lambda>g. g\<lparr>passed := ge_passed e, evidence := ge_evidence e,
                      recorded_at := ge_recorded_at e\<rparr>)
               \<lparr>gate_capability = cid, gate_identity = candidate_identity row, gate = ge_gate e,
                passed = ge_passed e, evidence = ge_evidence e, recorded_at = ge_recorded_at e\<rparr>
               (gates f)\<rparr>))"

definition gates_of :: "string \<Rightarrow> string \<Rightarrow> factory \<Rightarrow> gate_row list" where
  "gates_of cid ident f = filter (\<lambda>g. gate_capability g = cid \<and> gate_identity g = ident) (gates f)"

definition observed :: "gate_row list \<Rightarrow> string \<Rightarrow> bool option" where
  "observed gs name = map_of (rev (map (\<lambda>g. (gate g, passed g)) gs)) name"

definition failed_of :: "gate_row list \<Rightarrow> string list" where
  "failed_of gs = filter (\<lambda>n. observed gs n \<noteq> Some True) required_gates"

definition evidence_payload :: "string \<Rightarrow> gate_row list \<Rightarrow> json" where
  "evidence_payload ident gs = JObj
     [(''candidate_identity'', JStr ident),
      (''gates'', JObj (foldl (\<lambda>d g. put (gate g) (JObj [(''passed'', JBool (passed g)),
                                                       (''evidence'', evidence g)]) d) [] gs))]"

text \<open>The decision table of \<open>evaluate\<close>.\<close>

definition decide_stage :: "capability_stage \<Rightarrow> gate_row list \<Rightarrow> capability_stage \<times> string" where
  "decide_stage previous gs =
     (if failed_of gs = [] then (PROMOTED, ''all mandatory promotion gates passed'')
      else if previous = PROMOTED then (DEMOTED, ''promoted capability regressed a mandatory gate'')
      else if observed gs ''source_hash_match'' = Some False
        then (QUARANTINED, ''source identity mismatch'')
      else if observed gs ''provider_deployment_exists'' = Some False
        then (BLOCKED, ''execution provider unavailable'')
      else if observed gs ''health_200'' = Some True
          \<and> observed gs ''provider_deployment_exists'' = Some True
        then (REACHABLE, ''provider reachable; semantic promotion gates incomplete'')
      else (previous, ''promotion gates incomplete''))"

definition evaluate :: "(string \<Rightarrow> string) \<Rightarrow> (nat \<Rightarrow> int) \<Rightarrow> string \<Rightarrow> factory \<Rightarrow>
    (promotion_decision, factory) outcome" where
  "evaluate H clk cid f =
     (case candidate_row_of cid f of
        Inl e \<Rightarrow> (Inl e, f)
      | Inr row \<Rightarrow>
          (let gs = gates_of cid (candidate_identity row) f;
               (st, why) = decide_stage (stage row) gs;
               d = \<lparr>pd_capability = cid, previous_stage = stage row, new_stage = st, reason = why,
                    failed_gates = failed_of gs,
                    evidence_hash = canonical_sha256 H (evidence_payload (candidate_identity row) gs)\<rparr>;
               f' = set_stage (clk 0) cid st f
           in (Inr d, f'\<lparr>decisions := decisions f' @ [(d, isoformat (clk 1))]\<rparr>)))"

definition status :: "string \<Rightarrow> factory \<Rightarrow> candidate_row result" where
  "status cid f = candidate_row_of cid f"

section \<open>The interface\<close>

datatype factory_op =
    Discover int candidate
  | Advance_Structural int string capability_stage
  | Record_Gate string gate_evidence
  | Evaluate "nat \<Rightarrow> int" string

primrec run_factory :: "(string \<Rightarrow> string) \<Rightarrow> factory_op \<Rightarrow> factory \<Rightarrow> factory" where
  "run_factory H (Discover now c) f = snd (discover H now c f)"
| "run_factory H (Advance_Structural now cid t) f = snd (advance_structural now cid t f)"
| "run_factory H (Record_Gate cid e) f = snd (record_gate cid e f)"
| "run_factory H (Evaluate clk cid) f = snd (evaluate H clk cid f)"

section \<open>Invariant\<close>

definition all_passed :: "string \<Rightarrow> string \<Rightarrow> factory \<Rightarrow> bool" where
  "all_passed cid ident f \<longleftrightarrow> (\<forall>n\<in>set required_gates.
     \<exists>g\<in>set (gates f). gate_capability g = cid \<and> gate_identity g = ident \<and> gate g = n \<and> passed g)"

definition factory_inv :: "(string \<Rightarrow> string) \<Rightarrow> factory \<Rightarrow> bool" where
  "factory_inv H f \<longleftrightarrow>
     distinct (map row_id (candidates f))
     \<and> distinct (map (\<lambda>g. (gate_capability g, gate_identity g, gate g)) (gates f))
     \<and> (\<forall>r\<in>set (candidates f). row_id r = capability_id (row_candidate r)
          \<and> candidate_identity r = identity H (row_candidate r)
          \<and> lower (risk_class (row_candidate r)) \<notin> {''shell'', ''arbitrary_shell'', ''remote_shell''})
     \<and> (\<forall>g\<in>set (gates f). gate g \<in> set required_gates)"

lemma distinct_upsert:
  "distinct (map key rs) \<Longrightarrow> (\<And>r. key (g r) = key r) \<Longrightarrow> distinct (map key (upsert_by key g new rs))"
  by (auto simp: upsert_by_def map_update_where image_iff)

lemma set_upsert: "x \<in> set (upsert_by key g new rs) \<Longrightarrow>
    x = new \<or> (\<exists>r\<in>set rs. x = r \<and> key r \<noteq> key new \<or> x = g r \<and> key r = key new)"
  by (auto simp: upsert_by_def set_update_where split: if_splits)

lemma candidate_row_Inr: "candidate_row_of cid f = Inr r \<Longrightarrow> r \<in> set (candidates f) \<and> row_id r = cid"
  by (auto simp: candidate_row_of_def dest: select_one_SomeD split: option.splits)

lemma set_stage_inv: "factory_inv H f \<Longrightarrow> factory_inv H (set_stage now cid st f)"
  by (auto simp: factory_inv_def set_stage_def map_update_where set_update_where)

lemma discover_inv: "factory_inv H f \<Longrightarrow> factory_inv H (snd (discover H now c f))"
  by (auto simp: discover_def Let_def factory_inv_def distinct_upsert dest!: set_upsert
      split: option.splits)

lemma advance_inv: "factory_inv H f \<Longrightarrow> factory_inv H (snd (advance_structural now cid t f))"
  by (auto simp: advance_structural_def set_stage_inv split: sum.splits)

lemma record_gate_inv: "factory_inv H f \<Longrightarrow> factory_inv H (snd (record_gate cid e f))"
  by (auto simp: record_gate_def factory_inv_def distinct_upsert dest!: set_upsert split: sum.splits)

lemma evaluate_inv: "factory_inv H f \<Longrightarrow> factory_inv H (snd (evaluate H clk cid f))"
  using set_stage_inv [of H f "clk 0" cid]
  by (auto simp: evaluate_def Let_def factory_inv_def split: sum.splits prod.splits)

interpretation factory_machine: op_machine "run_factory H" empty_factory "factory_inv H" for H
proof unfold_locales
  show "factory_inv H empty_factory" by (simp add: factory_inv_def empty_factory_def)
  show "factory_inv H (run_factory H op f)" if "factory_inv H f" for op f
    using that by (cases op) (simp_all add: discover_inv advance_inv record_gate_inv evaluate_inv)
qed

section \<open>Properties\<close>

lemma observed_True: "observed gs n = Some True \<Longrightarrow> \<exists>g\<in>set gs. gate g = n \<and> passed g"
  by (auto simp: observed_def dest!: map_of_SomeD)

lemma failed_of_Nil:
  "failed_of (gates_of cid ident f) = [] \<Longrightarrow> all_passed cid ident f"
  unfolding all_passed_def
proof
  fix n assume "failed_of (gates_of cid ident f) = []" "n \<in> set required_gates"
  then have "observed (gates_of cid ident f) n = Some True" by (simp add: failed_of_def filter_empty_conv)
  from observed_True [OF this] show "\<exists>g\<in>set (gates f). gate_capability g = cid \<and> gate_identity g = ident
      \<and> gate g = n \<and> passed g" by (auto simp: gates_of_def)
qed

lemma decide_PROMOTED:
  "fst (decide_stage previous gs) = PROMOTED \<Longrightarrow> failed_of gs = []"
  by (auto simp: decide_stage_def split: if_splits)

lemma set_stage_member: "r \<in> set (candidates (set_stage now cid st f)) \<Longrightarrow>
    (r \<in> set (candidates f) \<and> row_id r \<noteq> cid) \<or>
    (row_id r = cid \<and> stage r = st
      \<and> (\<exists>p\<in>set (candidates f). row_id p = cid \<and> candidate_identity p = candidate_identity r))"
  by (auto simp: set_stage_def set_update_where split: if_splits)

lemma discover_member: "r \<in> set (candidates (snd (discover H now c f))) \<Longrightarrow>
    r \<in> set (candidates f) \<or> stage r = DISCOVERED"
  by (auto simp: discover_def Let_def dest!: set_upsert split: if_splits option.splits)

lemma advance_member: "r \<in> set (candidates (snd (advance_structural now cid t f))) \<Longrightarrow>
    r \<in> set (candidates f) \<or> stage r \<in> set (take 5 ordered_stages)"
  by (auto simp: advance_structural_def dest!: set_stage_member split: if_splits sum.splits)

text \<open>
  C8. A candidate becomes PROMOTED only through \<open>evaluate\<close>, and only when every one of the eight
  mandatory gates has a recorded pass under the candidate's current identity. Neither discovery nor
  structural advancement nor recorded evidence alone ever promotes.
\<close>

theorem promotion_needs_every_gate:
  assumes "r \<in> set (candidates (run_factory H op (run_all (run_factory H) ops empty_factory)))"
    and "stage r = PROMOTED"
    and "\<not> (\<exists>p\<in>set (candidates (run_all (run_factory H) ops empty_factory)). row_id p = row_id r
            \<and> candidate_identity p = candidate_identity r \<and> stage p = PROMOTED)"
  shows "(\<exists>clk. op = Evaluate clk (row_id r)) \<and>
    (\<forall>n\<in>set required_gates. \<exists>g\<in>set (gates (run_all (run_factory H) ops empty_factory)).
       gate_capability g = row_id r \<and> gate_identity g = candidate_identity r \<and> gate g = n \<and> passed g)"
proof -
  let ?f = "run_all (run_factory H) ops empty_factory"
  have inv: "factory_inv H ?f" by (rule factory_machine.reached_inv)
  have old: "r \<notin> set (candidates ?f)" using assms(2,3) by blast
  have take5: "PROMOTED \<notin> set (take 5 ordered_stages)" by (simp add: ordered_stages_def)
  show ?thesis
  proof (cases op)
    case (Discover now c)
    with assms(1,2) old discover_member [of r H now c ?f] show ?thesis by auto
  next
    case (Advance_Structural now cid t)
    with assms(1,2) old take5 advance_member [of r now cid t ?f] show ?thesis by auto
  next
    case (Record_Gate cid e)
    with assms(1) old show ?thesis
      by (auto simp: record_gate_def split: if_splits sum.splits)
  next
    case (Evaluate clk cid)
    show ?thesis
    proof (cases "candidate_row_of cid ?f")
      case (Inl e)
      with assms(1) old Evaluate show ?thesis by (simp add: evaluate_def)
    next
      case (Inr row)
      let ?gs = "gates_of cid (candidate_identity row) ?f"
      have "r \<in> set (candidates (set_stage (clk 0) cid (fst (decide_stage (stage row) ?gs)) ?f))"
        using assms(1) Evaluate Inr by (simp add: evaluate_def Let_def case_prod_beta)
      from set_stage_member [OF this] old obtain p where p: "row_id r = cid"
        "stage r = fst (decide_stage (stage row) ?gs)" "p \<in> set (candidates ?f)" "row_id p = cid"
        "candidate_identity p = candidate_identity r" by blast
      moreover have "p = row"
        using candidate_row_Inr [OF Inr] p(3,4) inv unique_row [of row_id "candidates ?f"]
        unfolding factory_inv_def by blast
      moreover have "failed_of ?gs = []"
        using p(2) assms(2) by (intro decide_PROMOTED [of "stage row"]) simp
      ultimately show ?thesis
        using Evaluate failed_of_Nil [of cid "candidate_identity row" ?f] by (simp add: all_passed_def)
    qed
  qed
qed

text \<open>
  Trust is not inherited across new bytes: discovering a changed candidate resets its stage to
  DISCOVERED, and when no evidence was recorded under the new identity the next evaluation fails all
  eight gates and leaves the stage, whatever was recorded under any other identity.
\<close>

theorem changed_identity_starts_over:
  assumes "r \<in> set (candidates (run_all (run_factory H) ops empty_factory))"
    and "row_id r = capability_id c" "candidate_identity r \<noteq> identity H c"
    and "\<not> blank (capability_id c)" "\<not> blank (operation c)"
    and "lower (risk_class c) \<notin> {''shell'', ''arbitrary_shell'', ''remote_shell''}"
    and "gates_of (capability_id c) (identity H c) (run_all (run_factory H) ops empty_factory) = []"
  shows "\<exists>f d f'. discover H now c (run_all (run_factory H) ops empty_factory) = (Inr DISCOVERED, f)
    \<and> evaluate H clk (capability_id c) f = (Inr d, f')
    \<and> failed_gates d = required_gates \<and> new_stage d = DISCOVERED"
proof -
  let ?f = "run_all (run_factory H) ops empty_factory"
  let ?new = "\<lparr>row_id = capability_id c, candidate_identity = identity H c,
                row_candidate = c, stage = DISCOVERED, updated_at = isoformat now\<rparr>"
  let ?upd = "\<lambda>r. r\<lparr>candidate_identity := identity H c, row_candidate := c,
                        stage := DISCOVERED, updated_at := isoformat now\<rparr>"
  let ?g = "?f\<lparr>candidates := upsert_by row_id ?upd ?new (candidates ?f)\<rparr>"
  have inv: "factory_inv H ?f" by (rule factory_machine.reached_inv)
  have sel: "select_one (\<lambda>x. row_id x = capability_id c) (candidates ?f) = Some r"
    using inv select_one_unique [of row_id "candidates ?f" r] assms(1,2) by (simp add: factory_inv_def)
  have disc: "discover H now c ?f = (Inr DISCOVERED, ?g)"
    using assms(3-6) sel by (simp add: discover_def Let_def)
  have "candidates ?g = update_where (\<lambda>x. row_id x = capability_id c) ?upd (candidates ?f)"
    using assms(1,2) by (auto simp: upsert_by_def)
  then have "candidate_row_of (capability_id c) ?g = Inr (?upd r)"
    using sel select_one_update_where [of row_id "capability_id c" ?upd "capability_id c" "candidates ?f"]
    by (simp add: candidate_row_of_def)
  then show ?thesis
    using disc assms(7)
    by (simp add: evaluate_def Let_def gates_of_def decide_stage_def failed_of_def observed_def
        required_gates_def)
qed

text \<open>
  Structural advancement moves a capability at most one stage along the order and never past
  DEPLOYED: on success the stage asked for lies at most one above the stored one, the stored stage
  becomes it or stays when it was already there, and every other candidate is untouched.
\<close>

theorem structural_steps_do_not_skip:
  assumes "advance_structural now cid t f = (Inr st, f')" "candidate_row_of cid f = Inr row"
    and "distinct (map row_id (candidates f))"
  shows "\<exists>i j. stage_index (stage row) = Inr i \<and> stage_index t = Inr j \<and> j \<le> 4 \<and> j \<le> i + 1
    \<and> st = (if j = i + 1 then t else stage row)
    \<and> map_sum id stage (candidate_row_of cid f') = Inr st
    \<and> gates f' = gates f
    \<and> list_all2 (\<lambda>p q. if row_id p = cid then candidate_identity q = candidate_identity p else q = p)
        (candidates f) (candidates f')"
proof -
  have t: "t \<in> set (take 5 ordered_stages)"
    using assms(1) by (auto simp: advance_structural_def split: if_splits)
  then have "\<exists>j\<le>4. stage_index t = Inr j"
    by (auto simp: ordered_stages_def stage_index_def)
  then obtain j where j: "stage_index t = Inr j" "j \<le> 4" by blast
  obtain i where i: "stage_index (stage row) = Inr i"
    using assms(1,2) t by (auto simp: advance_structural_def split: sum.splits)
  have le: "j \<le> i + 1" using assms(1,2) t i j by (auto simp: advance_structural_def split: if_splits)
  have same: "list_all2 (\<lambda>p q. if row_id p = cid then candidate_identity q = candidate_identity p else q = p)
        (candidates f) (candidates f')"
    using assms(1,2) t i j
    by (auto simp: advance_structural_def set_stage_def update_where_def list_all2_map2
        intro!: list.rel_refl split: if_splits)
  have sel: "select_one (\<lambda>r. row_id r = cid) (candidates f) = Some row"
    using assms(2) by (auto simp: candidate_row_of_def split: option.splits)
  show ?thesis
  proof (cases "j = i + 1")
    case True
    then have f': "f' = set_stage now cid t f" "st = t"
      using assms(1,2) t i j by (auto simp: advance_structural_def split: if_splits)
    have "map_sum id stage (candidate_row_of cid f') = Inr t"
      unfolding f' candidate_row_of_def set_stage_def
      using sel select_one_update_where [of row_id cid "\<lambda>r. r\<lparr>stage := t, updated_at := isoformat now\<rparr>" cid
          "candidates f"] by simp
    then show ?thesis using i j le same True f' by (simp add: set_stage_def)
  next
    case False
    then have "f' = f" "st = stage row"
      using assms(1,2) t i j le by (auto simp: advance_structural_def split: if_splits)
    then show ?thesis using i j le same False assms(2) by simp
  qed
qed

section \<open>Concrete runs\<close>

definition demo_candidate :: "string \<Rightarrow> candidate" where
  "demo_candidate src = \<lparr>capability_id = ''c'', operation = ''o'', source_identity = src,
     adapter_identity = ''a'', risk_class = ''read'', provider_id = ''p'', schema_identity = ''s'',
     metadata = JObj []\<rparr>"

definition demo_gates :: "factory_op list" where
  "demo_gates = map (\<lambda>n. Record_Gate ''c'' \<lparr>ge_gate = n, ge_passed = True, ge_evidence = JNull,
     ge_recorded_at = ''t''\<rparr>) required_gates"

definition demo_ready :: factory where
  "demo_ready = run_all (run_factory (\<lambda>s. s)) (Discover 0 (demo_candidate ''b1'') # demo_gates) empty_factory"

definition demo_row :: "capability_stage \<Rightarrow> candidate_row" where
  "demo_row st = \<lparr>row_id = ''c'', candidate_identity = identity (\<lambda>s. s) (demo_candidate ''b1''),
     row_candidate = demo_candidate ''b1'', stage = st, updated_at = isoformat 0\<rparr>"

lemma demo_discover: "run_factory (\<lambda>s. s) (Discover 0 (demo_candidate ''b1'')) empty_factory =
    \<lparr>candidates = [demo_row DISCOVERED], gates = [], decisions = []\<rparr>"
  by (simp add: discover_def demo_candidate_def empty_factory_def not_blank isspace_def lower_def
      lower_char_def Let_def upsert_by_def demo_row_def)

lemma demo_ready_eq: "demo_ready = \<lparr>candidates = [demo_row DISCOVERED],
    gates = map (\<lambda>n. \<lparr>gate_capability = ''c'', gate_identity = identity (\<lambda>s. s) (demo_candidate ''b1''),
       gate = n, passed = True, evidence = JNull, recorded_at = ''t''\<rparr>) required_gates, decisions = []\<rparr>"
  unfolding demo_ready_def run_all_simps demo_discover demo_gates_def
  by (simp add: required_gates_def record_gate_def candidate_row_of_def table_simps demo_row_def
      upsert_by_def)

lemma demo_promoted: "candidates (run_factory (\<lambda>s. s) (Evaluate (\<lambda>_. 0) ''c'') demo_ready) = [demo_row PROMOTED]"
  unfolding demo_ready_eq
  by (simp add: evaluate_def candidate_row_of_def table_simps demo_row_def gates_of_def Let_def
      decide_stage_def failed_of_def observed_def required_gates_def set_stage_def)

theorem promotion_needs_every_gate_witness:
  "(\<exists>clk. Evaluate (\<lambda>_. 0) ''c'' = Evaluate clk (row_id (demo_row PROMOTED))) \<and>
    list_all (\<lambda>n. \<exists>g\<in>set (gates demo_ready).
       gate_capability g = row_id (demo_row PROMOTED)
       \<and> gate_identity g = candidate_identity (demo_row PROMOTED) \<and> gate g = n \<and> passed g) required_gates"
  unfolding demo_ready_def list_all_iff
proof (rule promotion_needs_every_gate)
  show "demo_row PROMOTED \<in> set (candidates (run_factory (\<lambda>s. s) (Evaluate (\<lambda>_. 0) ''c'')
      (run_all (run_factory (\<lambda>s. s)) (Discover 0 (demo_candidate ''b1'') # demo_gates) empty_factory)))"
    unfolding demo_ready_def [symmetric] demo_promoted by simp
  show "\<not> (\<exists>p\<in>set (candidates (run_all (run_factory (\<lambda>s. s))
      (Discover 0 (demo_candidate ''b1'') # demo_gates) empty_factory)). row_id p = row_id (demo_row PROMOTED)
            \<and> candidate_identity p = candidate_identity (demo_row PROMOTED) \<and> stage p = PROMOTED)"
    unfolding demo_ready_def [symmetric] demo_ready_eq by (simp add: demo_row_def)
qed (simp add: demo_row_def)

text \<open>A hash that tells the two demonstration candidates apart.\<close>

definition tell_hash :: "string \<Rightarrow> string" where
  "tell_hash s = nat_text (length s)"

lemma tell_identities: "identity tell_hash (demo_candidate ''b1'') \<noteq> identity tell_hash (demo_candidate ''b22'')"
  by code_simp

theorem changed_identity_starts_over_witness:
  "\<exists>f d f'. discover tell_hash 1 (demo_candidate ''b22'')
      (run_all (run_factory tell_hash) [Discover 0 (demo_candidate ''b1'')] empty_factory) = (Inr DISCOVERED, f)
    \<and> evaluate tell_hash (\<lambda>_. 0) (capability_id (demo_candidate ''b22'')) f = (Inr d, f')
    \<and> failed_gates d = required_gates \<and> new_stage d = DISCOVERED"
proof (rule changed_identity_starts_over)
  let ?run = "run_all (run_factory tell_hash) [Discover 0 (demo_candidate ''b1'')] empty_factory"
  have run: "?run = \<lparr>candidates = [\<lparr>row_id = ''c'', candidate_identity = identity tell_hash (demo_candidate ''b1''),
     row_candidate = demo_candidate ''b1'', stage = DISCOVERED, updated_at = isoformat 0\<rparr>], gates = [], decisions = []\<rparr>"
    by (simp add: discover_def empty_factory_def not_blank isspace_def lower_def lower_char_def Let_def
        upsert_by_def, simp add: demo_candidate_def not_blank isspace_def lower_def lower_char_def)
  show "\<lparr>row_id = ''c'', candidate_identity = identity tell_hash (demo_candidate ''b1''),
     row_candidate = demo_candidate ''b1'', stage = DISCOVERED, updated_at = isoformat 0\<rparr> \<in> set (candidates ?run)"
    unfolding run by simp
  show "gates_of (capability_id (demo_candidate ''b22'')) (identity tell_hash (demo_candidate ''b22'')) ?run = []"
    unfolding run by (simp add: gates_of_def)
qed (simp_all add: tell_identities, simp_all add: demo_candidate_def not_blank isspace_def lower_def lower_char_def)

theorem structural_steps_do_not_skip_witness:
  "\<exists>i j. stage_index (stage (demo_row DISCOVERED)) = Inr i \<and> stage_index WRAPPED = Inr j \<and> j \<le> 4 \<and> j \<le> i + 1
    \<and> WRAPPED = (if j = i + 1 then WRAPPED else stage (demo_row DISCOVERED))
    \<and> map_sum id stage (candidate_row_of ''c'' (set_stage 0 ''c'' WRAPPED demo_ready)) = Inr WRAPPED
    \<and> gates (set_stage 0 ''c'' WRAPPED demo_ready) = gates demo_ready
    \<and> list_all2 (\<lambda>p q. if row_id p = ''c'' then candidate_identity q = candidate_identity p else q = p)
        (candidates demo_ready) (candidates (set_stage 0 ''c'' WRAPPED demo_ready))"
  by (rule structural_steps_do_not_skip [where now = 0])
    (simp_all add: demo_ready_eq advance_structural_def candidate_row_of_def table_simps demo_row_def
      stage_index_def ordered_stages_def)

end
