(* ===== verification/Supervisor.thy ===== *)
theory Supervisor
  imports Py_Json Op_Machine
begin

text \<open>
  \<open>frost_core/supervisor.py\<close>: the leased job queue and the dispatcher over it. Times are rational
  numbers, \<open>now\<close> is the reading of \<open>time.time()\<close> of a call, JSON columns are kept decoded. The
  handlers are code outside the module: a parameter that returns a result or the name and message
  of an exception. Finished jobs of a batch may complete in any order, which is an argument.
\<close>

section \<open>Data\<close>

datatype job_state = QUEUED | RUNNING | PASS | REVIEW | FAIL | ERROR

definition state_of_text :: "string \<Rightarrow> job_state option" where
  "state_of_text t = map_of [(''PASS'', PASS), (''REVIEW'', REVIEW), (''FAIL'', FAIL), (''ERROR'', ERROR)] t"

record supervisor_result =
  res_state :: job_state
  res_payload :: json

text \<open>The constructor with its \<open>__post_init__\<close>.\<close>

definition make_result :: "string \<Rightarrow> json \<Rightarrow> supervisor_result result" where
  "make_result t payload =
     (case state_of_text t of
        None \<Rightarrow> Inl (ValueError (''invalid supervisor result state: '' @ t))
      | Some st \<Rightarrow> Inr \<lparr>res_state = st, res_payload = payload\<rparr>)"

record job =
  job_id :: string
  operation :: string
  input :: json
  job_key :: "string option"
  priority :: int
  state :: job_state
  attempts :: int
  max_attempts :: int
  lease_owner :: "string option"
  lease_expires :: "rat option"
  job_result :: "json option"
  created_at :: rat
  updated_at :: rat

record job_event =
  ev_job :: string
  ev_state :: job_state
  ev_payload :: json
  ev_at :: rat

record queue =
  jobs :: "job list"
  job_history :: "job_event list"

definition empty_queue :: queue where
  "empty_queue = \<lparr>jobs = [], job_history = []\<rparr>"

section \<open>The queue\<close>

definition log_event :: "string \<Rightarrow> job_state \<Rightarrow> json \<Rightarrow> rat \<Rightarrow> queue \<Rightarrow> queue" where
  "log_event jid st payload now q =
     q\<lparr>job_history := job_history q @ [\<lparr>ev_job = jid, ev_state = st, ev_payload = payload, ev_at = now\<rparr>]\<rparr>"

definition update_job :: "string \<Rightarrow> (job \<Rightarrow> job) \<Rightarrow> queue \<Rightarrow> queue" where
  "update_job jid f q = q\<lparr>jobs := update_where (\<lambda>j. job_id j = jid) f (jobs q)\<rparr>"

text \<open>
  An empty key is not looked up, but it is stored, so that a second one violates \<open>UNIQUE\<close>.
\<close>

definition submit :: "rat \<Rightarrow> string \<Rightarrow> string \<Rightarrow> json \<Rightarrow> string option \<Rightarrow> int \<Rightarrow> int \<Rightarrow> queue \<Rightarrow>
    (string, queue) outcome" where
  "submit now uuid opn inp key prio max_att q =
     (if max_att < 1 then (Inl (ValueError ''max_attempts must be >= 1''), q)
      else
        (let existing = (if key \<noteq> None \<and> key \<noteq> Some [] then select_one (\<lambda>j. job_key j = key) (jobs q)
                         else None)
         in case existing of
              Some j \<Rightarrow> (Inr (job_id j), q)
            | None \<Rightarrow>
                if (\<exists>j\<in>set (jobs q). job_id j = uuid \<or> key \<noteq> None \<and> job_key j = key)
                then (Inl IntegrityError, q)
                else
                  (Inr uuid,
                   log_event uuid QUEUED inp now
                     (q\<lparr>jobs := jobs q @
                        [\<lparr>job_id = uuid, operation = opn, input = inp, job_key = key, priority = prio,
                          state = QUEUED, attempts = 0, max_attempts = max_att, lease_owner = None,
                          lease_expires = None, job_result = None, created_at = now,
                          updated_at = now\<rparr>]\<rparr>))))"

definition lease_expired :: "rat \<Rightarrow> job \<Rightarrow> bool" where
  "lease_expired current j \<longleftrightarrow> state j = RUNNING
     \<and> (case lease_expires j of None \<Rightarrow> False | Some t \<Rightarrow> t < current)"

definition recover_job :: "rat \<Rightarrow> queue \<Rightarrow> job \<Rightarrow> queue" where
  "recover_job current q j =
     (let st = (if attempts j < max_attempts j then QUEUED else ERROR);
          res = JObj [(''reason'', JStr ''lease_expired'')]
      in log_event (job_id j) st res current
           (update_job (job_id j) (\<lambda>r. r\<lparr>state := st, lease_owner := None, lease_expires := None,
              job_result := Some res, updated_at := current\<rparr>) q))"

definition recover_expired :: "rat \<Rightarrow> rat option \<Rightarrow> queue \<Rightarrow> int \<times> queue" where
  "recover_expired clk given q =
     (let current = (case given of None \<Rightarrow> clk | Some t \<Rightarrow> t);
          rows = filter (lease_expired current) (jobs q)
      in (int (length rows), foldl (recover_job current) q rows))"

text \<open>The row that \<open>claim\<close> returns is the one it read, with the new number of attempts.\<close>

definition claim :: "rat \<Rightarrow> string \<Rightarrow> rat \<Rightarrow> queue \<Rightarrow> (job option, queue) outcome" where
  "claim now worker lease_seconds q =
     (if lease_seconds \<le> 0 then (Inl (ValueError ''lease_seconds must be positive''), q)
      else case first_by (\<lambda>j. (- priority j, created_at j, job_id j))
                 (filter (\<lambda>j. state j = QUEUED) (jobs q)) of
        None \<Rightarrow> (Inr None, q)
      | Some row \<Rightarrow>
          (let n = attempts row + 1
           in (Inr (Some (row\<lparr>attempts := n\<rparr>)),
               log_event (job_id row) RUNNING
                 (JObj [(''worker_id'', JStr worker), (''attempt'', JInt n)]) now
                 (q\<lparr>jobs := update_where (\<lambda>j. job_id j = job_id row \<and> state j = QUEUED)
                    (\<lambda>j. j\<lparr>state := RUNNING, attempts := n, lease_owner := Some worker,
                           lease_expires := Some (now + lease_seconds), updated_at := now\<rparr>) (jobs q)\<rparr>))))"

definition heartbeat :: "rat \<Rightarrow> string \<Rightarrow> string \<Rightarrow> rat \<Rightarrow> queue \<Rightarrow> (unit, queue) outcome" where
  "heartbeat now jid worker lease_seconds q =
     (let hit = (\<lambda>j. job_id j = jid \<and> state j = RUNNING \<and> lease_owner j = Some worker)
      in if length (filter hit (jobs q)) \<noteq> 1
         then (Inl (PermissionError ''job is not leased by this worker''), q)
         else (Inr (), q\<lparr>jobs := update_where hit
                  (\<lambda>j. j\<lparr>lease_expires := Some (now + lease_seconds), updated_at := now\<rparr>) (jobs q)\<rparr>))"

definition finish :: "rat \<Rightarrow> string \<Rightarrow> string \<Rightarrow> supervisor_result \<Rightarrow> queue \<Rightarrow> (unit, queue) outcome" where
  "finish now jid worker res q =
     (case select_one (\<lambda>j. job_id j = jid) (jobs q) of
        None \<Rightarrow> (Inl (KeyError jid), q)
      | Some row \<Rightarrow>
          if state row \<noteq> RUNNING \<or> lease_owner row \<noteq> Some worker
          then (Inl (PermissionError ''job is not leased by this worker''), q)
          else
            (let st = (if res_state res = ERROR \<and> attempts row < max_attempts row then QUEUED
                       else res_state res)
             in (Inr (),
                 log_event jid st (res_payload res) now
                   (update_job jid (\<lambda>j. j\<lparr>state := st, job_result := Some (res_payload res),
                      lease_owner := None, lease_expires := None, updated_at := now\<rparr>) q))))"

definition get_job :: "string \<Rightarrow> queue \<Rightarrow> job result" where
  "get_job jid q =
     (case select_one (\<lambda>j. job_id j = jid) (jobs q) of None \<Rightarrow> Inl (KeyError jid) | Some j \<Rightarrow> Inr j)"

section \<open>The dispatcher\<close>

type_synonym handlers = "string \<Rightarrow> (json \<Rightarrow> (string \<times> string) + supervisor_result) option"

definition handler_result :: "handlers \<Rightarrow> job \<Rightarrow> supervisor_result" where
  "handler_result hs j =
     (case hs (operation j) of
        None \<Rightarrow> \<lparr>res_state = FAIL, res_payload = JObj [(''error'', JStr ''unregistered_operation''),
                   (''operation'', JStr (operation j))]\<rparr>
      | Some h \<Rightarrow>
          (case h (input j) of
             Inr r \<Rightarrow> r
           | Inl (name, message) \<Rightarrow> \<lparr>res_state = ERROR,
               res_payload = JObj [(''error'', JStr name), (''message'', JStr message)]\<rparr>))"

definition run_claimed :: "handlers \<Rightarrow> string \<Rightarrow> rat \<Rightarrow> job \<Rightarrow> queue \<Rightarrow> (string, queue) outcome" where
  "run_claimed hs worker now j q =
     (case finish now (job_id j) worker (handler_result hs j) q of
        (Inl e, q') \<Rightarrow> (Inl e, q')
      | (Inr _, q') \<Rightarrow> (Inr (job_id j), q'))"

fun claim_many :: "nat \<Rightarrow> (nat \<Rightarrow> rat) \<Rightarrow> string \<Rightarrow> rat \<Rightarrow> queue \<Rightarrow> (job list, queue) outcome" where
  "claim_many 0 clk worker secs q = (Inr [], q)"
| "claim_many (Suc n) clk worker secs q =
     (case claim (clk 0) worker secs q of
        (Inl e, q') \<Rightarrow> (Inl e, q')
      | (Inr None, q') \<Rightarrow> (Inr [], q')
      | (Inr (Some j), q') \<Rightarrow>
          (case claim_many n (\<lambda>i. clk (Suc i)) worker secs q' of
             (Inl e, q'') \<Rightarrow> (Inl e, q'')
           | (Inr js, q'') \<Rightarrow> (Inr (j # js), q'')))"

text \<open>\<open>asyncio.gather\<close>: every coroutine runs; the first exception is what the caller sees.\<close>

fun gather :: "handlers \<Rightarrow> string \<Rightarrow> (nat \<Rightarrow> rat) \<Rightarrow> job list \<Rightarrow> queue \<Rightarrow> (string list, queue) outcome" where
  "gather hs worker clk [] q = (Inr [], q)"
| "gather hs worker clk (j # js) q =
     (case run_claimed hs worker (clk 0) j q of
        (r, q') \<Rightarrow>
          (case gather hs worker (\<lambda>i. clk (Suc i)) js q' of
             (rs, q'') \<Rightarrow>
               ((case (r, rs) of (Inl e, _) \<Rightarrow> Inl e | (Inr _, Inl e) \<Rightarrow> Inl e
                 | (Inr x, Inr xs) \<Rightarrow> Inr (x # xs)), q'')))"

definition run_batch :: "handlers \<Rightarrow> string \<Rightarrow> nat \<Rightarrow> rat \<Rightarrow> (job list \<Rightarrow> job list) \<Rightarrow> rat \<Rightarrow> (nat \<Rightarrow> rat) \<Rightarrow>
    (nat \<Rightarrow> rat) \<Rightarrow> queue \<Rightarrow> (string list, queue) outcome" where
  "run_batch hs worker concurrency secs order now clk1 clk2 q =
     (case claim_many concurrency clk1 worker secs (snd (recover_expired now None q)) of
        (Inl e, q') \<Rightarrow> (Inl e, q')
      | (Inr [], q') \<Rightarrow> (Inr [], q')
      | (Inr js, q') \<Rightarrow>
          (case gather hs worker clk2 (order js) q' of
             (Inl e, q'') \<Rightarrow> (Inl e, q'')
           | (Inr _, q'') \<Rightarrow> (Inr (map job_id js), q'')))"

text \<open>\<open>run_until_idle\<close>: \<open>batch i\<close> is the \<open>i\<close>-th call of \<open>run_batch\<close>.\<close>

fun run_until_idle :: "(nat \<Rightarrow> queue \<Rightarrow> (string list, queue) outcome) \<Rightarrow> nat \<Rightarrow> nat \<Rightarrow> nat \<Rightarrow> queue \<Rightarrow>
    (nat, queue) outcome" where
  "run_until_idle batch i 0 n q = (Inr n, q)"
| "run_until_idle batch i (Suc m) n q =
     (case batch i q of
        (Inl e, q') \<Rightarrow> (Inl e, q')
      | (Inr [], q') \<Rightarrow> (Inr n, q')
      | (Inr (x # xs), q') \<Rightarrow> run_until_idle batch (Suc i) m (n + length (x # xs)) q')"

end
