(* ===== verification/Supervisor_Claims.thy ===== *)
theory Supervisor_Claims
  imports Supervisor
begin

text \<open>
  The invariant of the job queue and its properties: bounded starts, final outcomes, completion
  only by the lease holder.
\<close>

section \<open>Invariant\<close>

definition job_ok :: "job \<Rightarrow> bool" where
  "job_ok j \<longleftrightarrow> 1 \<le> max_attempts j \<and> 0 \<le> attempts j \<and> attempts j \<le> max_attempts j
     \<and> (state j = QUEUED \<longrightarrow> attempts j < max_attempts j)
     \<and> (if state j = RUNNING then lease_owner j \<noteq> None \<and> lease_expires j \<noteq> None \<and> 1 \<le> attempts j
        else lease_owner j = None \<and> lease_expires j = None)"

definition starts :: "string \<Rightarrow> queue \<Rightarrow> nat" where
  "starts jid q = length (filter (\<lambda>e. ev_job e = jid \<and> ev_state e = RUNNING) (job_history q))"

definition queue_inv :: "queue \<Rightarrow> bool" where
  "queue_inv q \<longleftrightarrow> distinct (map job_id (jobs q))
     \<and> (\<forall>j\<in>set (jobs q). job_ok j \<and> int (starts (job_id j) q) = attempts j)
     \<and> (\<forall>e\<in>set (job_history q). ev_job e \<in> job_id ` set (jobs q))"

definition same_job :: "job \<Rightarrow> job \<Rightarrow> bool" where
  "same_job j k \<longleftrightarrow> job_id k = job_id j \<and> operation k = operation j \<and> input k = input j
     \<and> job_key k = job_key j \<and> max_attempts k = max_attempts j \<and> created_at k = created_at j
     \<and> attempts j \<le> attempts k
     \<and> (state j \<in> {PASS, REVIEW, FAIL, ERROR} \<longrightarrow> k = j)"

abbreviation queue_older :: "queue \<Rightarrow> queue \<Rightarrow> bool" where
  "queue_older q q' \<equiv> evolves same_job (jobs q) (jobs q')"

lemma same_job_refl [simp]: "same_job j j"
  by (simp add: same_job_def)

lemma same_job_trans: "same_job i j \<Longrightarrow> same_job j k \<Longrightarrow> same_job i k"
proof (cases "state i \<in> {PASS, REVIEW, FAIL, ERROR}")
  case True
  assume "same_job i j" "same_job j k"
  moreover from this True have "j = i" unfolding same_job_def by blast
  ultimately show ?thesis by simp
next
  case False
  assume "same_job i j" "same_job j k"
  with False show ?thesis by (simp add: same_job_def)
qed

definition good :: "queue \<Rightarrow> queue \<Rightarrow> bool" where
  "good q q' \<longleftrightarrow> queue_inv q' \<and> queue_older q q'"

lemma queue_good_refl: "queue_inv q \<Longrightarrow> good q q"
  by (simp add: good_def evolves_refl)

lemma queue_older_trans: "queue_older a b \<Longrightarrow> queue_older b c \<Longrightarrow> queue_older a c"
  using evolves_trans [of same_job] same_job_trans by blast

lemma queue_good_trans: "good a b \<Longrightarrow> good b c \<Longrightarrow> good a c"
  unfolding good_def using queue_older_trans by blast

section \<open>Every operation\<close>

lemma inv_unique: "queue_inv q \<Longrightarrow> j \<in> set (jobs q) \<Longrightarrow> k \<in> set (jobs q) \<Longrightarrow> job_id k = job_id j \<Longrightarrow> k = j"
  using unique_row [of job_id "jobs q" k j] unfolding queue_inv_def by blast

lemma starts_log: "starts i (log_event jid st p now q) = starts i q + (if i = jid \<and> st = RUNNING then 1 else 0)"
  by (simp add: starts_def log_event_def)

lemma log_event_jobs [simp]: "jobs (log_event jid st p now q) = jobs q"
  by (simp add: log_event_def)

lemma log_event_history [simp]:
  "job_history (log_event jid st p now q) = job_history q @ [\<lparr>ev_job = jid, ev_state = st, ev_payload = p, ev_at = now\<rparr>]"
  by (simp add: log_event_def)

lemma starts_jobs [simp]: "starts i (q\<lparr>jobs := js\<rparr>) = starts i q"
  by (simp add: starts_def)

lemma good_update:
  assumes inv: "queue_inv q" and j: "j \<in> set (jobs q)" and same: "same_job j (f j)" and ok: "job_ok (f j)"
    and n: "attempts (f j) = attempts j + (if st = RUNNING then 1 else 0)"
    and P: "\<And>k. k \<in> set (jobs q) \<Longrightarrow> P k \<longleftrightarrow> job_id k = job_id j"
  shows "good q (log_event (job_id j) st p now (q\<lparr>jobs := update_where P f (jobs q)\<rparr>))" (is "good q ?q")
proof -
  have id: "job_id (f j) = job_id j" using same unfolding same_job_def by blast
  have hit: "P k \<longleftrightarrow> k = j" if "k \<in> set (jobs q)" for k
    using P [OF that] inv_unique [OF inv j that] j by blast
  have map: "map job_id (jobs ?q) = map job_id (jobs q)"
    using hit id by (auto simp: update_where_def)
  have members: "k = f j \<or> k \<in> set (jobs q) \<and> job_id k \<noteq> job_id j" if "k \<in> set (jobs ?q)" for k
    using that hit P by (auto simp: set_update_where split: if_splits)
  have row: "job_ok k \<and> int (starts (job_id k) ?q) = attempts k" if "k \<in> set (jobs ?q)" for k
    using members [OF that]
  proof
    assume k: "k = f j"
    have "int (starts (job_id j) q) = attempts j" using inv j unfolding queue_inv_def by blast
    then show ?thesis using ok n id by (simp add: k starts_log)
  next
    assume k: "k \<in> set (jobs q) \<and> job_id k \<noteq> job_id j"
    then have "job_ok k" "int (starts (job_id k) q) = attempts k" using inv unfolding queue_inv_def by blast+
    then show ?thesis using k by (simp add: starts_log)
  qed
  have ids: "job_id ` set (jobs ?q) = job_id ` set (jobs q)" by (metis map list.set_map)
  have "ev_job e \<in> job_id ` set (jobs q)" if "e \<in> set (job_history ?q)" for e
    using that inv j by (auto simp: log_event_def queue_inv_def)
  then have "queue_inv ?q" using inv row unfolding queue_inv_def ids map by blast
  moreover have "queue_older q ?q" using hit same by (auto intro!: evolves_update_where)
  ultimately show ?thesis by (simp add: good_def)
qed

lemma submit_good:
  assumes inv: "queue_inv q" shows "good q (snd (submit now u opn inp key prio n q))"
proof -
  have "good q (log_event u QUEUED inp now (q\<lparr>jobs := jobs q @ [j]\<rparr>))"
    if "\<forall>k\<in>set (jobs q). job_id k \<noteq> u" "job_id j = u" "state j = QUEUED" "attempts j = 0" "1 \<le> max_attempts j"
      "lease_owner j = None" "lease_expires j = None" for j
  proof -
    have "u \<notin> ev_job ` set (job_history q)" using inv that(1) unfolding queue_inv_def by fastforce
    then have "starts u q = 0" by (auto simp: starts_def filter_empty_conv)
    then show ?thesis
      using inv that by (auto simp: good_def queue_inv_def starts_log job_ok_def evolvesI_append)
  qed
  then show ?thesis
    using assms by (auto simp: submit_def Let_def queue_good_refl split: option.split)
qed

lemma claim_good:
  assumes inv: "queue_inv q" shows "good q (snd (claim now w secs q))"
proof (cases "first_by (\<lambda>j. (- priority j, created_at j, job_id j)) (filter (\<lambda>j. state j = QUEUED) (jobs q))")
  case None
  then show ?thesis using inv by (simp add: claim_def queue_good_refl)
next
  case (Some row)
  have row: "row \<in> set (jobs q)" "state row = QUEUED" using first_by_filter_SomeD [OF Some] by simp_all
  then have "job_ok row" using inv unfolding queue_inv_def by blast
  moreover have "job_id k = job_id row \<and> state k = QUEUED \<longleftrightarrow> job_id k = job_id row" if "k \<in> set (jobs q)" for k
    using inv_unique [OF inv row(1) that] row(2) by blast
  ultimately have g: "good q (log_event (job_id row) RUNNING p now
      (q\<lparr>jobs := update_where (\<lambda>j. job_id j = job_id row \<and> state j = QUEUED)
         (\<lambda>j. j\<lparr>state := RUNNING, attempts := attempts row + 1, lease_owner := Some w,
            lease_expires := Some (now + secs), updated_at := now\<rparr>) (jobs q)\<rparr>))" for p
    using row inv by (intro good_update) (simp_all add: job_ok_def same_job_def)
  then show ?thesis using inv Some by (simp add: claim_def Let_def queue_good_refl)
qed

lemma recover_job_good:
  assumes "queue_inv q" "j \<in> set (jobs q)" "state j = RUNNING"
  shows "good q (recover_job now q j)"
proof -
  have "job_ok j" using assms unfolding queue_inv_def by blast
  then show ?thesis
    unfolding recover_job_def Let_def update_job_def
    using assms by (intro good_update) (auto simp: job_ok_def same_job_def)
qed

lemma recover_jobs_good:
  "queue_inv q \<Longrightarrow> set rows \<subseteq> set (jobs q) \<Longrightarrow> distinct (map job_id rows) \<Longrightarrow>
   \<forall>j\<in>set rows. state j = RUNNING \<Longrightarrow> good q (foldl (recover_job now) q rows)"
proof (induction rows arbitrary: q)
  case (Cons j rows)
  let ?q = "recover_job now q j"
  have g: "good q ?q" using Cons.prems by (intro recover_job_good) auto
  have "k \<in> set (jobs ?q)" if "k \<in> set rows" for k
  proof -
    have "job_id k \<noteq> job_id j" using Cons.prems(3) that by (metis distinct.simps(2) image_eqI list.set_map list.simps(9))
    then show ?thesis
      using that Cons.prems(2) by (auto simp: recover_job_def Let_def update_job_def set_update_where image_iff)
  qed
  then have "good ?q (foldl (recover_job now) ?q rows)"
    using Cons.prems g by (intro Cons.IH) (auto simp: good_def)
  with g queue_good_trans show ?case by fastforce
qed (simp add: queue_good_refl)

lemma recover_good:
  assumes "queue_inv q" shows "good q (snd (recover_expired clk given q))"
proof -
  have "distinct (map job_id (filter P (jobs q)))" for P
    using assms by (auto simp: queue_inv_def intro: distinct_map_filter)
  then show ?thesis
    using assms by (auto simp: recover_expired_def Let_def lease_expired_def intro!: recover_jobs_good)
qed

lemma heartbeat_good:
  assumes inv: "queue_inv q" shows "good q (snd (heartbeat now jid w secs q))"
proof -
  let ?hit = "\<lambda>j. job_id j = jid \<and> state j = RUNNING \<and> lease_owner j = Some w"
  let ?f = "\<lambda>j. j\<lparr>lease_expires := Some (now + secs), updated_at := now\<rparr>"
  have "map job_id (update_where ?hit ?f (jobs q)) = map job_id (jobs q)" by (simp add: map_update_where)
  then have ids: "job_id ` set (update_where ?hit ?f (jobs q)) = job_id ` set (jobs q)"
    and d: "distinct (map job_id (update_where ?hit ?f (jobs q))) = distinct (map job_id (jobs q))"
    by (metis list.set_map, simp only:)
  have "job_ok k \<and> int (starts (job_id k) q) = attempts k"
    if "k \<in> set (update_where ?hit ?f (jobs q))" for k
    using that inv by (auto simp: set_update_where queue_inv_def job_ok_def)
  then have "queue_inv (q\<lparr>jobs := update_where ?hit ?f (jobs q)\<rparr>)"
    using inv unfolding queue_inv_def by (simp add: ids d)
  moreover have "evolves same_job (jobs q) (update_where ?hit ?f (jobs q))"
    by (rule evolves_update_where) (auto simp: same_job_def)
  ultimately show ?thesis using inv by (simp add: heartbeat_def good_def evolves_refl Let_def)
qed

lemma finish_good:
  assumes inv: "queue_inv q" and "res_state r \<in> {PASS, REVIEW, FAIL, ERROR}"
  shows "good q (snd (finish now jid w r q))"
proof (cases "select_one (\<lambda>j. job_id j = jid) (jobs q)")
  case None
  then show ?thesis using inv by (simp add: finish_def queue_good_refl)
next
  case (Some row)
  have row: "row \<in> set (jobs q)" "job_id row = jid" using select_one_SomeD [OF Some] by simp_all
  then have ok: "job_ok row" using inv unfolding queue_inv_def by blast
  show ?thesis
  proof (cases "state row = RUNNING \<and> lease_owner row = Some w")
    case True
    let ?st = "if res_state r = ERROR \<and> attempts row < max_attempts row then QUEUED else res_state r"
    let ?f = "\<lambda>j. j\<lparr>state := ?st, job_result := Some (res_payload r), lease_owner := None,
                   lease_expires := None, updated_at := now\<rparr>"
    have "job_ok (?f row)" "?st \<noteq> RUNNING"
      using ok assms(2) by (auto simp: job_ok_def)
    moreover have "same_job row (?f row)" using True by (simp add: same_job_def)
    ultimately have "good q (log_event (job_id row) ?st (res_payload r) now
        (q\<lparr>jobs := update_where (\<lambda>j. job_id j = job_id row) ?f (jobs q)\<rparr>))"
      using inv row(1) by (intro good_update) simp_all
    then show ?thesis using Some True row(2) by (simp add: finish_def Let_def update_job_def)
  qed (use Some inv in \<open>auto simp: finish_def queue_good_refl\<close>)
qed

section \<open>The interface\<close>

text \<open>A result that can be built: its state is one of the four of \<open>make_result\<close>.\<close>

datatype queue_op =
    Submit rat string string json "string option" int int
  | Recover rat "rat option"
  | Claim rat string rat
  | Heartbeat rat string string rat
  | Finish rat string string string json

fun run_queue :: "queue_op \<Rightarrow> queue \<Rightarrow> queue" where
  "run_queue (Submit now u opn inp key prio n) q = snd (submit now u opn inp key prio n q)"
| "run_queue (Recover clk t) q = snd (recover_expired clk t q)"
| "run_queue (Claim now w secs) q = snd (claim now w secs q)"
| "run_queue (Heartbeat now jid w secs) q = snd (heartbeat now jid w secs q)"
| "run_queue (Finish now jid w t p) q =
     (case make_result t p of Inl _ \<Rightarrow> q | Inr r \<Rightarrow> snd (finish now jid w r q))"

abbreviation run_queues :: "queue_op list \<Rightarrow> queue \<Rightarrow> queue" where
  "run_queues \<equiv> run_all run_queue"

lemma make_result_state: "make_result t p = Inr r \<Longrightarrow> res_state r \<in> {PASS, REVIEW, FAIL, ERROR}"
  by (auto simp: make_result_def state_of_text_def split: option.splits if_splits)

lemma run_queue_good: "queue_inv q \<Longrightarrow> good q (run_queue op q)"
proof (cases op)
  case (Finish now jid w t p)
  then show "queue_inv q \<Longrightarrow> ?thesis"
    using finish_good make_result_state by (auto simp: queue_good_refl split: sum.split)
qed (simp_all add: submit_good recover_good claim_good heartbeat_good)

interpretation queue_machine: evolving_machine run_queue empty_queue queue_inv queue_older
proof unfold_locales
  show "queue_inv empty_queue" by (simp add: queue_inv_def empty_queue_def)
  show "queue_inv (run_queue op q)" "queue_older q (run_queue op q)" if "queue_inv q" for op q
    using run_queue_good [OF that] by (simp_all add: good_def)
  show "queue_older q q" for q by (simp add: evolves_refl)
  show "queue_older a c" if "queue_older a b" "queue_older b c" for a b c
    using that by (rule queue_older_trans)
qed

section \<open>Properties\<close>

text \<open>
  C9. Bounded retry: over the whole history a job was started exactly as often as its attempts say
  and never more than its budget, and a job that waits in the queue has an attempt left.
\<close>

theorem starts_are_bounded:
  assumes "j \<in> set (jobs (run_queues ops empty_queue))"
  shows "int (starts (job_id j) (run_queues ops empty_queue)) = attempts j \<and> attempts j \<le> max_attempts j
    \<and> (state j = QUEUED \<longrightarrow> attempts j < max_attempts j)"
proof -
  have "queue_inv (run_queues ops empty_queue)" by (rule queue_machine.reached_inv)
  then have "job_ok j" "int (starts (job_id j) (run_queues ops empty_queue)) = attempts j"
    using assms unfolding queue_inv_def by blast+
  then show ?thesis by (simp add: job_ok_def)
qed

text \<open>
  Outcomes are final: a job that passed, failed, needs review or is out of attempts never
  changes again in any later queue, so an evaluated FAIL is never retried; the operation, the input
  and the budget of a job never change.
\<close>

theorem finished_jobs_are_final:
  "evolves same_job (jobs (run_queues ops empty_queue)) (jobs (run_queues (ops @ later) empty_queue))"
  unfolding run_all_append by (intro queue_machine.run_all_older queue_machine.reached_inv)

text \<open>
  A worker can finish a job exactly while it holds the lease, whatever happened before. An
  ERROR with attempts left queues the job again, every other result is stored as the outcome, and
  in both cases the lease is released. Otherwise the call raises and the queue is unchanged.
\<close>

theorem finish_only_under_lease:
  assumes "j \<in> set (jobs (run_queues ops empty_queue))"
  shows "if state j = RUNNING \<and> lease_owner j = Some w
    then \<exists>q' k. finish now (job_id j) w r (run_queues ops empty_queue) = (Inr (), q')
       \<and> get_job (job_id j) q' = Inr k \<and> lease_owner k = None \<and> lease_expires k = None
       \<and> state k = (if res_state r = ERROR \<and> attempts j < max_attempts j then QUEUED else res_state r)
       \<and> job_result k = Some (res_payload r)
    else finish now (job_id j) w r (run_queues ops empty_queue)
       = (Inl (PermissionError ''job is not leased by this worker''), run_queues ops empty_queue)"
proof -
  let ?q = "run_queues ops empty_queue"
  have "distinct (map job_id (jobs ?q))" using queue_machine.reached_inv [of ops] by (simp add: queue_inv_def)
  then have sel: "select_one (\<lambda>k. job_id k = job_id j) (jobs ?q) = Some j"
    using assms by (rule select_one_unique)
  then show ?thesis
    using select_one_update_where [of job_id "job_id j" _ "job_id j" "jobs ?q"]
    by (auto simp: finish_def Let_def get_job_def update_job_def)
qed

section \<open>A concrete run\<close>

definition demo_ops :: "queue_op list" where
  "demo_ops = [Submit 1 ''j'' ''o'' JNull None 0 2, Claim 2 ''w'' 60]"

definition demo_job :: job where
  "demo_job = \<lparr>job_id = ''j'', operation = ''o'', input = JNull, job_key = None, priority = 0,
     state = RUNNING, attempts = 1, max_attempts = 2, lease_owner = Some ''w'',
     lease_expires = Some 62, job_result = None, created_at = 1, updated_at = 2\<rparr>"

lemma demo_jobs: "jobs (run_queues demo_ops empty_queue) = [demo_job]"
  by (simp add: demo_ops_def demo_job_def empty_queue_def submit_def claim_def first_by_def Let_def
      log_event_def table_simps)

theorem starts_are_bounded_witness:
  "int (starts ''j'' (run_queues demo_ops empty_queue)) = 1 \<and> (1::int) \<le> 2"
  using starts_are_bounded [of demo_job demo_ops] by (simp add: demo_jobs) (simp add: demo_job_def)

theorem finish_only_under_lease_witness:
  "\<exists>q' k. finish 3 ''j'' ''w'' \<lparr>res_state = ERROR, res_payload = JNull\<rparr> (run_queues demo_ops empty_queue) = (Inr (), q')
     \<and> get_job ''j'' q' = Inr k \<and> lease_owner k = None \<and> state k = QUEUED"
  using finish_only_under_lease [of demo_job demo_ops "''w''" 3 "\<lparr>res_state = ERROR, res_payload = JNull\<rparr>"]
  by (simp add: demo_jobs) (auto simp: demo_job_def)

end
