(* ===== verification/Supervisor_Rest.thy ===== *)
theory Supervisor_Rest
  imports Supervisor_Claims
begin

text \<open>
  Termination of the dispatcher loop: the attempts left in the queue bound the number of batches.
\<close>

section \<open>The dispatcher comes to rest\<close>

text \<open>The attempts that are left in the whole queue.\<close>

definition budget :: "queue \<Rightarrow> nat" where
  "budget q = sum_list (map (\<lambda>j. nat (max_attempts j - attempts j)) (jobs q))"

definition spends :: "queue \<Rightarrow> queue \<Rightarrow> bool" where
  "spends q q' \<longleftrightarrow> good q q' \<and> length (jobs q') = length (jobs q)"

lemma spends_refl: "queue_inv q \<Longrightarrow> spends q q"
  by (simp add: spends_def queue_good_refl)

lemma spends_trans: "spends a b \<Longrightarrow> spends b c \<Longrightarrow> spends a c"
  unfolding spends_def using queue_good_trans by metis

lemma spends_inv: "spends q q' \<Longrightarrow> queue_inv q'"
  by (simp add: spends_def good_def)

lemma spends_budget: "spends q q' \<Longrightarrow> budget q' \<le> budget q"
proof -
  assume s: "spends q q'"
  have "nat (max_attempts (jobs q' ! i) - attempts (jobs q' ! i)) \<le> nat (max_attempts (jobs q ! i) - attempts (jobs q ! i))"
    if "i < length (jobs q)" for i
  proof -
    have "same_job (jobs q ! i) (jobs q' ! i)" using s that unfolding spends_def good_def evolves_def by blast
    then show ?thesis by (auto simp: same_job_def)
  qed
  then show ?thesis
    using s unfolding budget_def spends_def
    by (auto simp: sum_list_sum_nth atLeast0LessThan intro!: sum_mono)
qed

lemma length_log_event [simp]: "length (jobs (log_event i st p now q)) = length (jobs q)"
  by simp

lemma finish_spends:
  "queue_inv q \<Longrightarrow> res_state r \<in> {PASS, REVIEW, FAIL, ERROR} \<Longrightarrow> spends q (snd (finish now jid w r q))"
  using finish_good by (auto simp: spends_def finish_def Let_def update_job_def split: option.split)

lemma length_recover: "length (jobs (foldl (recover_job now) q rows)) = length (jobs q)"
  by (induction rows arbitrary: q) (simp_all add: recover_job_def Let_def update_job_def)

lemma recover_spends: "queue_inv q \<Longrightarrow> spends q (snd (recover_expired clk given q))"
  using recover_good by (auto simp: spends_def recover_expired_def Let_def length_recover)

lemma claim_spends: "queue_inv q \<Longrightarrow> spends q (snd (claim now w secs q))"
  using claim_good by (auto simp: spends_def claim_def Let_def split: option.split)

lemma budget_update:
  assumes d: "distinct (map job_id js)" and j: "j \<in> set js"
    and P: "\<And>k. k \<in> set js \<Longrightarrow> P k \<longleftrightarrow> k = j" and less: "(c (f j) :: nat) < c j"
  shows "sum_list (map c (update_where P f js)) < sum_list (map c js)"
  using d j P
proof (induction js)
  case (Cons a js)
  show ?case
  proof (cases "a = j")
    case True
    then have "\<forall>k\<in>set js. \<not> P k" using Cons.prems by auto
    then show ?thesis using True Cons.prems less by (simp add: update_where_Cons update_where_none)
  next
    case False
    then show ?thesis using Cons by (simp add: update_where_Cons)
  qed
qed simp

lemma claim_budget:
  assumes inv: "queue_inv q" and c: "claim now w secs q = (Inr (Some j), q')"
  shows "budget q' < budget q"
proof -
  obtain row where sel: "first_by (\<lambda>j. (- priority j, created_at j, job_id j)) (filter (\<lambda>j. state j = QUEUED) (jobs q)) = Some row"
    using c by (auto simp: claim_def Let_def split: if_splits option.splits)
  have row: "row \<in> set (jobs q)" "state row = QUEUED" using first_by_filter_SomeD [OF sel] by blast+
  let ?P = "\<lambda>j. job_id j = job_id row \<and> state j = QUEUED"
  let ?f = "\<lambda>j. j\<lparr>state := RUNNING, attempts := attempts row + 1, lease_owner := Some w,
    lease_expires := Some (now + secs), updated_at := now\<rparr>"
  have "?P k \<longleftrightarrow> k = row" if "k \<in> set (jobs q)" for k using inv_unique [OF inv row(1) that] row by blast
  moreover have "attempts row < max_attempts row"
  proof -
    have "job_ok row" using inv row(1) unfolding queue_inv_def by blast
    then show ?thesis using row(2) by (simp add: job_ok_def)
  qed
  moreover have "distinct (map job_id (jobs q))" using inv by (simp add: queue_inv_def)
  ultimately have "sum_list (map (\<lambda>j. nat (max_attempts j - attempts j)) (update_where ?P ?f (jobs q)))
      < sum_list (map (\<lambda>j. nat (max_attempts j - attempts j)) (jobs q))"
    using row(1) by (intro budget_update) auto
  moreover have "jobs q' = update_where ?P ?f (jobs q)"
    using c sel by (auto simp: claim_def Let_def split: if_splits)
  ultimately show ?thesis by (simp add: budget_def)
qed

lemma claim_none: "claim now w secs q = (Inr None, q') \<Longrightarrow> q' = q \<and> (\<forall>j\<in>set (jobs q). state j \<noteq> QUEUED)"
  by (auto simp: claim_def Let_def first_by_None filter_empty_conv split: if_splits option.splits)

lemma claim_many_spends:
  assumes "queue_inv q" "claim_many n clk w secs q = (r, q')"
  shows "spends q q' \<and> (\<forall>x xs. r = Inr (x # xs) \<longrightarrow> budget q' < budget q)
    \<and> (r = Inr [] \<longrightarrow> 0 < n \<longrightarrow> (\<forall>j\<in>set (jobs q'). state j \<noteq> QUEUED))"
  using assms
proof (induction n arbitrary: clk q r q')
  case (Suc n)
  obtain c p where c: "claim (clk 0) w secs q = (c, p)" by fastforce
  have s: "spends q p" using claim_spends [OF Suc.prems(1)] c by (metis snd_conv)
  show ?case
  proof (cases c)
    case (Inl e)
    then show ?thesis using Suc.prems(2) c s by auto
  next
    case (Inr jo)
    show ?thesis
    proof (cases jo)
      case None
      then have "p = q \<and> (\<forall>j\<in>set (jobs q). state j \<noteq> QUEUED)" using claim_none c Inr by blast
      then show ?thesis using Suc.prems(2) c s Inr None by auto
    next
      case (Some j)
      obtain rs p' where m: "claim_many n (\<lambda>i. clk (Suc i)) w secs p = (rs, p')" by fastforce
      have b: "budget p < budget q" using claim_budget [OF Suc.prems(1)] c Inr Some by blast
      have sp: "spends p p'" using Suc.IH [OF spends_inv [OF s] m] by blast
      have "q' = p'" using Suc.prems(2) c Inr Some m by (auto split: sum.splits)
      moreover have "r \<noteq> Inr []" using Suc.prems(2) c Inr Some m by (auto split: sum.splits)
      ultimately show ?thesis using spends_trans [OF s sp] spends_budget [OF sp] b by auto
    qed
  qed
qed (auto simp: spends_refl)

text \<open>Handlers return results that passed the check of their class.\<close>

definition handlers_ok :: "handlers \<Rightarrow> bool" where
  "handlers_ok hs \<longleftrightarrow> (\<forall>op h x r. hs op = Some h \<longrightarrow> h x = Inr r \<longrightarrow> res_state r \<in> {PASS, REVIEW, FAIL, ERROR})"

lemma handler_result_ok: "handlers_ok hs \<Longrightarrow> res_state (handler_result hs j) \<in> {PASS, REVIEW, FAIL, ERROR}"
  unfolding handlers_ok_def handler_result_def by (auto split: option.split sum.split)

lemma gather_spends:
  assumes ok: "handlers_ok hs" and "queue_inv q" shows "spends q (snd (gather hs w clk js q))"
  using assms(2)
proof (induction js arbitrary: clk q)
  case (Cons j js)
  let ?p = "snd (run_claimed hs w (clk 0) j q)"
  have p: "?p = snd (finish (clk 0) (job_id j) w (handler_result hs j) q)"
    by (simp add: run_claimed_def split: prod.split sum.split)
  have s: "spends q ?p" unfolding p using Cons.prems handler_result_ok [OF ok] by (rule finish_spends)
  have "snd (gather hs w clk (j # js) q) = snd (gather hs w (\<lambda>i. clk (Suc i)) js ?p)"
    by (simp add: case_prod_beta)
  then show ?case using spends_trans [OF s] Cons.IH [OF spends_inv [OF s]] by simp
qed (simp add: spends_refl)

lemma run_batch_step:
  assumes ok: "handlers_ok hs" and inv: "queue_inv q" and conc: "0 < conc"
    and b: "run_batch hs w conc secs order now clk1 clk2 q = (r, q')"
  shows "queue_inv q' \<and> (\<forall>x xs. r = Inr (x # xs) \<longrightarrow> budget q' < budget q)
    \<and> (r = Inr [] \<longrightarrow> (\<forall>j\<in>set (jobs q'). state j \<noteq> QUEUED))"
proof -
  let ?p = "snd (recover_expired now None q)"
  have s: "spends q ?p" using recover_spends [OF inv] .
  obtain c p' where c: "claim_many conc clk1 w secs ?p = (c, p')" by fastforce
  note cm = claim_many_spends [OF spends_inv [OF s] c]
  then have inv': "queue_inv p'" using spends_inv by blast
  show ?thesis
  proof (cases c)
    case (Inl e)
    then show ?thesis using b c inv' by (auto simp: run_batch_def)
  next
    case (Inr js)
    show ?thesis
    proof (cases js)
      case Nil
      then show ?thesis using b c Inr inv' cm conc by (auto simp: run_batch_def)
    next
      case (Cons x xs)
      have g: "spends p' (snd (gather hs w clk2 (order js) p'))" using gather_spends [OF ok inv'] .
      have q': "q' = snd (gather hs w clk2 (order js) p')"
        using b c Inr Cons by (auto simp: run_batch_def split: prod.splits sum.splits)
      have "r \<noteq> Inr []" using b c Inr Cons by (auto simp: run_batch_def split: prod.splits sum.splits)
      moreover have "budget p' < budget ?p" using cm Inr Cons by blast
      ultimately show ?thesis
        using g q' spends_inv spends_budget [OF g] spends_budget [OF s] by fastforce
    qed
  qed
qed

lemma idle_enough:
  assumes step: "\<And>i q r q'. queue_inv q \<Longrightarrow> batch i q = (r, q') \<Longrightarrow> queue_inv q'
      \<and> (\<forall>x xs. r = Inr (x # xs) \<longrightarrow> budget q' < budget q) \<and> (r = Inr [] \<longrightarrow> (\<forall>j\<in>set (jobs q'). state j \<noteq> QUEUED))"
  shows "queue_inv q \<Longrightarrow> budget q < m \<Longrightarrow> run_until_idle batch i (m + k) n q = run_until_idle batch i m n q
    \<and> (\<forall>c q'. run_until_idle batch i m n q = (Inr c, q') \<longrightarrow> (\<forall>j\<in>set (jobs q'). state j \<noteq> QUEUED))"
proof (induction m arbitrary: i n q)
  case (Suc m)
  obtain r p where b: "batch i q = (r, p)" by fastforce
  note st = step [OF Suc.prems(1) b]
  show ?case
  proof (cases r)
    case (Inl e)
    then show ?thesis using b by simp
  next
    case (Inr js)
    show ?thesis
    proof (cases js)
      case Nil
      then show ?thesis using b Inr st by simp
    next
      case (Cons x xs)
      then have "budget p < m" using st Inr Suc.prems(2) by fastforce
      moreover have "queue_inv p" using st by blast
      ultimately show ?thesis
        using Suc.IH [of p "Suc i" "n + length (x # xs)"] b Inr Cons by simp
    qed
  qed
qed simp

text \<open>
  C10. The dispatcher comes to rest: with more batches allowed than attempts are left in the queue,
  \<open>run_until_idle\<close> stops by itself whatever the handlers return, the clocks say and the order in
  which a batch completes, more batches change nothing, and if no exception ended it no job is left
  waiting.
\<close>

theorem run_until_idle_comes_to_rest:
  fixes ops hs w conc secs order now clk1 clk2 extra max_batches
  defines "q \<equiv> run_queues ops empty_queue"
  defines "batch \<equiv> \<lambda>i. run_batch hs w conc secs (order i) (now i) (clk1 i) (clk2 i)"
  assumes ok: "handlers_ok hs" and conc: "0 < conc" and enough: "budget q < max_batches"
  shows "run_until_idle batch 0 (max_batches + extra) 0 q = run_until_idle batch 0 max_batches 0 q
    \<and> (\<forall>n q'. run_until_idle batch 0 max_batches 0 q = (Inr n, q') \<longrightarrow> (\<forall>j\<in>set (jobs q'). state j \<noteq> QUEUED))"
proof (rule idle_enough)
  show "queue_inv q" unfolding q_def by (rule queue_machine.reached_inv)
  show "budget q < max_batches" by (rule enough)
  show "queue_inv p' \<and> (\<forall>x xs. r = Inr (x # xs) \<longrightarrow> budget p' < budget p)
      \<and> (r = Inr [] \<longrightarrow> (\<forall>j\<in>set (jobs p'). state j \<noteq> QUEUED))"
    if "queue_inv p" "batch i p = (r, p')" for i p r p'
    using run_batch_step [OF ok that(1) conc] that(2) unfolding batch_def by blast
qed

theorem run_until_idle_comes_to_rest_witness:
  "run_until_idle (\<lambda>i. run_batch (\<lambda>_. None) ''w'' 2 60 id 3 (\<lambda>_. 4) (\<lambda>_. 5)) 0 1000 0
      (run_queues [Submit 1 ''j'' ''o'' JNull None 0 2] empty_queue)
   = run_until_idle (\<lambda>i. run_batch (\<lambda>_. None) ''w'' 2 60 id 3 (\<lambda>_. 4) (\<lambda>_. 5)) 0 3 0
      (run_queues [Submit 1 ''j'' ''o'' JNull None 0 2] empty_queue)"
proof -
  have "budget (run_queues [Submit 1 ''j'' ''o'' JNull None 0 2] empty_queue) < 3"
    by (simp add: budget_def submit_def empty_queue_def Let_def log_event_def)
  from run_until_idle_comes_to_rest [where extra = 997 and order = "\<lambda>_. id" and now = "\<lambda>_. 3" and ?clk1.0 = "\<lambda>_ _. 4"
      and ?clk2.0 = "\<lambda>_ _. 5" and hs = "\<lambda>_. None" and w = "''w''" and conc = 2 and secs = 60, OF _ _ this]
  show ?thesis by (simp add: handlers_ok_def)
qed

end
