(* ===== verification/Object_Store.thy ===== *)
theory Object_Store
  imports Hash_Chain Op_Machine
begin

text \<open>
  \<open>frost_core/object_store.py\<close>: immutable objects under the digest of their envelope, their
  provenance, links between objects, and aliases with a history. A JSON body is kept decoded, times
  are rational numbers, \<open>now\<close> is the reading of \<open>time.time()\<close>, and \<open>H\<close> is SHA-256. A call that
  raises leaves the tables as they were. What \<open>get\<close> decodes is the body with its keys sorted, and a
  name quoted in an error message is one without quotes or control characters.
\<close>

section \<open>Data\<close>

record object_row =
  object_id :: string
  kind :: string
  payload :: json
  created_at :: rat

record provenance_row =
  prov_object :: string
  source_type :: string
  source_ref :: string
  evidence_class :: string
  captured_at :: rat

record link_row =
  parent_id :: string
  relation :: string
  child_id :: string
  linked_at :: rat

record alias_row =
  alias_name :: string
  target :: string
  updated_at :: rat

record store =
  objects :: "object_row list"
  provenances :: "provenance_row list"
  links :: "link_row list"
  aliases :: "alias_row list"
  alias_history :: "alias_row list"

definition empty_store :: store where
  "empty_store = \<lparr>objects = [], provenances = [], links = [], aliases = [], alias_history = []\<rparr>"

section \<open>Objects\<close>

definition envelope :: "string \<Rightarrow> json \<Rightarrow> json" where
  "envelope k p = JObj [(''schema'', JInt 1), (''kind'', JStr k), (''payload'', p)]"

definition object_id_of :: "(string \<Rightarrow> string) \<Rightarrow> string \<Rightarrow> json \<Rightarrow> string" where
  "object_id_of H k p = canonical_sha256 H (envelope k p)"

text \<open>\<open>INSERT OR IGNORE\<close> under a unique key.\<close>

definition insert_new :: "('r \<Rightarrow> 'k) \<Rightarrow> 'r \<Rightarrow> 'r list \<Rightarrow> 'r list" where
  "insert_new key r rs = (if \<exists>x\<in>set rs. key x = key r then rs else rs @ [r])"

definition prov_key :: "provenance_row \<Rightarrow> string \<times> string \<times> string \<times> string" where
  "prov_key p = (prov_object p, source_type p, source_ref p, evidence_class p)"

definition link_key :: "link_row \<Rightarrow> string \<times> string \<times> string" where
  "link_key l = (parent_id l, relation l, child_id l)"

definition put_object :: "(string \<Rightarrow> string) \<Rightarrow> rat \<Rightarrow> string \<Rightarrow> json \<Rightarrow> string \<Rightarrow> string \<Rightarrow> string \<Rightarrow>
    rat option \<Rightarrow> store \<Rightarrow> (string, store) outcome" where
  "put_object H clk kind_arg p st sr ec captured s =
     (let k = strip kind_arg
      in if k = [] then (Inl (ValueError ''kind may not be empty''), s)
         else
           (let oid = object_id_of H k p;
                now = (case captured of None \<Rightarrow> clk | Some t \<Rightarrow> t)
            in (Inr oid,
                s\<lparr>objects := insert_new object_id
                     \<lparr>object_id = oid, kind = k, payload = sort_keys p, created_at = now\<rparr> (objects s),
                  provenances := insert_new prov_key
                     \<lparr>prov_object = oid, source_type = st, source_ref = sr, evidence_class = ec,
                      captured_at = now\<rparr> (provenances s)\<rparr>)))"

definition get_object :: "string \<Rightarrow> store \<Rightarrow> object_row result" where
  "get_object oid s =
     (case select_one (\<lambda>r. object_id r = oid) (objects s) of
        None \<Rightarrow> Inl (KeyError oid) | Some r \<Rightarrow> Inr r)"

definition known :: "string \<Rightarrow> store \<Rightarrow> bool" where
  "known oid s \<longleftrightarrow> (\<exists>r\<in>set (objects s). object_id r = oid)"

definition link :: "rat \<Rightarrow> string \<Rightarrow> string \<Rightarrow> string \<Rightarrow> store \<Rightarrow> (unit, store) outcome" where
  "link now parent rel_arg child s =
     (let rel = strip rel_arg
      in if rel = [] then (Inl (ValueError ''relation may not be empty''), s)
         else if \<not> known parent s then (Inl (KeyError parent), s)
         else if \<not> known child s then (Inl (KeyError child), s)
         else (Inr (), s\<lparr>links := insert_new link_key
                 \<lparr>parent_id = parent, relation = rel, child_id = child, linked_at = now\<rparr> (links s)\<rparr>))"

definition link_typed :: "rat \<Rightarrow> string \<Rightarrow> string \<Rightarrow> string \<Rightarrow> string \<Rightarrow> string \<Rightarrow> store \<Rightarrow>
    (unit, store) outcome" where
  "link_typed now parent parent_kind rel child child_kind s =
     (case get_object parent s of
        Inl e \<Rightarrow> (Inl e, s)
      | Inr p \<Rightarrow> (case get_object child s of
          Inl e \<Rightarrow> (Inl e, s)
        | Inr c \<Rightarrow>
            if kind p \<noteq> parent_kind
            then (Inl (ValueError (''parent kind mismatch: expected '' @ parent_kind @ '', got '' @ kind p)), s)
            else if kind c \<noteq> child_kind
            then (Inl (ValueError (''child kind mismatch: expected '' @ child_kind @ '', got '' @ kind c)), s)
            else link now parent rel child s))"

section \<open>Aliases\<close>

definition point :: "rat \<Rightarrow> string \<Rightarrow> string \<Rightarrow> rat option \<Rightarrow> store \<Rightarrow> (unit, store) outcome" where
  "point clk alias_arg oid given s =
     (let a = strip alias_arg; now = (case given of None \<Rightarrow> clk | Some t \<Rightarrow> t)
      in if a = [] then (Inl (ValueError ''alias may not be empty''), s)
         else if \<not> known oid s then (Inl (KeyError oid), s)
         else
           (let row = \<lparr>alias_name = a, target = oid, updated_at = now\<rparr>
            in (Inr (), s\<lparr>aliases := upsert_by alias_name (\<lambda>r. r\<lparr>target := oid, updated_at := now\<rparr>) row (aliases s),
                          alias_history := alias_history s @ [row]\<rparr>)))"

definition current_target :: "string \<Rightarrow> store \<Rightarrow> string option" where
  "current_target a s = map_option target (select_one (\<lambda>r. alias_name r = a) (aliases s))"

definition quoted :: "string \<Rightarrow> string" where
  "quoted v = [CHR 0x27] @ v @ [CHR 0x27]"

definition quoted_opt :: "string option \<Rightarrow> string" where
  "quoted_opt v = (case v of None \<Rightarrow> ''None'' | Some x \<Rightarrow> quoted x)"

definition point_if_current :: "rat \<Rightarrow> string \<Rightarrow> string option \<Rightarrow> string \<Rightarrow> rat option \<Rightarrow> store \<Rightarrow>
    (unit, store) outcome" where
  "point_if_current clk alias_arg expected new given s =
     (let a = strip alias_arg; now = (case given of None \<Rightarrow> clk | Some t \<Rightarrow> t)
      in if a = [] then (Inl (ValueError ''alias may not be empty''), s)
         else if \<not> known new s then (Inl (KeyError new), s)
         else if current_target a s \<noteq> expected
         then (Inl (AliasConflict (''alias '' @ quoted a @ '' expected '' @ quoted_opt expected
                 @ '', observed '' @ quoted_opt (current_target a s))), s)
         else
           (let row = \<lparr>alias_name = a, target = new, updated_at = now\<rparr>;
                logged = s\<lparr>alias_history := alias_history s @ [row]\<rparr>
            in case current_target a s of
                 None \<Rightarrow> (Inr (), logged\<lparr>aliases := aliases s @ [row]\<rparr>)
               | Some _ \<Rightarrow>
                   (let hit = (\<lambda>r. alias_name r = a \<and> Some (target r) = expected)
                    in if length (filter hit (aliases s)) \<noteq> 1
                       then (Inl (AliasConflict (''alias '' @ quoted a @ '' changed concurrently'')), s)
                       else (Inr (), logged\<lparr>aliases := update_where hit
                               (\<lambda>r. r\<lparr>target := new, updated_at := now\<rparr>) (aliases s)\<rparr>))))"

definition resolve :: "string \<Rightarrow> store \<Rightarrow> object_row result" where
  "resolve a s = (case current_target a s of None \<Rightarrow> Inl (KeyError a) | Some oid \<Rightarrow> get_object oid s)"

section \<open>Readers\<close>

definition list_kind :: "string \<Rightarrow> store \<Rightarrow> object_row list" where
  "list_kind k s = sort_key (\<lambda>r. (created_at r, object_id r)) (filter (\<lambda>r. kind r = k) (objects s))"

definition provenance :: "string \<Rightarrow> store \<Rightarrow> provenance_row list" where
  "provenance oid s = filter (\<lambda>p. prov_object p = oid) (provenances s)"

definition count_kind :: "string \<Rightarrow> store \<Rightarrow> nat" where
  "count_kind k s = length (filter (\<lambda>r. kind r = k) (objects s))"

text \<open>\<open>PRAGMA foreign_key_check\<close>: the tables and ids of the references that point nowhere.\<close>

definition foreign_key_violations :: "store \<Rightarrow> (string \<times> string) list" where
  "foreign_key_violations s = filter (\<lambda>v. \<not> known (snd v) s)
     (map (\<lambda>p. (''provenance'', prov_object p)) (provenances s)
      @ concat (map (\<lambda>l. [(''links'', parent_id l), (''links'', child_id l)]) (links s))
      @ map (\<lambda>a. (''aliases'', target a)) (aliases s)
      @ map (\<lambda>a. (''alias_history'', target a)) (alias_history s))"

record integrity =
  status :: string
  violations :: "(string \<times> string) list"
  without_provenance :: "string list"
  unaliased :: nat
  gc_authorized :: bool

definition integrity_report :: "store \<Rightarrow> integrity" where
  "integrity_report s =
     (let fk = foreign_key_violations s;
          wp = sort (map object_id (filter (\<lambda>r. provenance (object_id r) s = []) (objects s)))
      in \<lparr>status = (if fk = [] \<and> wp = [] then ''PASS'' else ''REVIEW''), violations = fk,
          without_provenance = wp,
          unaliased = length (filter (\<lambda>r. \<not> (\<exists>a\<in>set (aliases s). target a = object_id r)) (objects s)),
          gc_authorized = False\<rparr>)"

fun ingest_many :: "(string \<Rightarrow> string) \<Rightarrow> (nat \<Rightarrow> rat) \<Rightarrow> string \<Rightarrow> json list \<Rightarrow> string \<Rightarrow> string \<Rightarrow> string \<Rightarrow>
    rat option \<Rightarrow> store \<Rightarrow> (string list, store) outcome" where
  "ingest_many H clk k [] st sr ec t s = (Inr [], s)"
| "ingest_many H clk k (r # rs) st sr ec t s =
     (case put_object H (clk 0) k r st sr ec t s of
        (Inl e, s') \<Rightarrow> (Inl e, s')
      | (Inr oid, s') \<Rightarrow>
          (case ingest_many H (\<lambda>i. clk (Suc i)) k rs st sr ec t s' of
             (Inl e, s'') \<Rightarrow> (Inl e, s'')
           | (Inr ids, s'') \<Rightarrow> (Inr (oid # ids), s'')))"

end
