(* ===== verification/Object_Store_Claims.thy ===== *)
theory Object_Store_Claims
  imports Object_Store
begin

text \<open>
  The invariant of the object store and its properties: references never dangle, objects are
  immutable, what was put can be read back, an alias is what its history says, and the conditional
  update of an alias is a compare-and-swap.
\<close>

section \<open>The machine\<close>

datatype store_op =
    Put rat string json string string string "rat option"
  | Ingest "nat \<Rightarrow> rat" string "json list" string string string "rat option"
  | Link rat string string string
  | LinkTyped rat string string string string string
  | Point rat string string "rat option"
  | PointIfCurrent rat string "string option" string "rat option"

fun run_store :: "(string \<Rightarrow> string) \<Rightarrow> store_op \<Rightarrow> store \<Rightarrow> store" where
  "run_store H (Put clk k p st sr ec t) s = snd (put_object H clk k p st sr ec t s)"
| "run_store H (Ingest clk k rs st sr ec t) s = snd (ingest_many H clk k rs st sr ec t s)"
| "run_store H (Link now a rel b) s = snd (link now a rel b s)"
| "run_store H (LinkTyped now a ak rel b bk) s = snd (link_typed now a ak rel b bk s)"
| "run_store H (Point clk a oid t) s = snd (point clk a oid t s)"
| "run_store H (PointIfCurrent clk a e oid t) s = snd (point_if_current clk a e oid t s)"

section \<open>Invariant\<close>

definition object_ok :: "(string \<Rightarrow> string) \<Rightarrow> object_row \<Rightarrow> bool" where
  "object_ok H r \<longleftrightarrow> object_id r = object_id_of H (kind r) (payload r)
     \<and> kind r \<noteq> [] \<and> strip (kind r) = kind r \<and> sort_keys (payload r) = payload r"

text \<open>The entry of the history that made the current state of an alias.\<close>

definition last_entry :: "string \<Rightarrow> alias_row list \<Rightarrow> alias_row option" where
  "last_entry a h = select_one (\<lambda>r. alias_name r = a) (rev h)"

definition replayed :: "alias_row list \<Rightarrow> alias_row list \<Rightarrow> bool" where
  "replayed als h \<longleftrightarrow> (\<forall>a. select_one (\<lambda>r. alias_name r = a) als = last_entry a h)"

definition store_inv :: "(string \<Rightarrow> string) \<Rightarrow> store \<Rightarrow> bool" where
  "store_inv H s \<longleftrightarrow> distinct (map object_id (objects s)) \<and> distinct (map alias_name (aliases s))
     \<and> (\<forall>r\<in>set (objects s). object_ok H r \<and> provenance (object_id r) s \<noteq> [])
     \<and> (\<forall>p\<in>set (provenances s). known (prov_object p) s)
     \<and> (\<forall>l\<in>set (links s). known (parent_id l) s \<and> known (child_id l) s)
     \<and> (\<forall>a\<in>set (alias_history s). known (target a) s)
     \<and> replayed (aliases s) (alias_history s)"

definition grows :: "store \<Rightarrow> store \<Rightarrow> bool" where
  "grows s s' \<longleftrightarrow> prefix (objects s) (objects s') \<and> prefix (provenances s) (provenances s')
     \<and> prefix (links s) (links s') \<and> prefix (alias_history s) (alias_history s')"

definition good :: "(string \<Rightarrow> string) \<Rightarrow> store \<Rightarrow> store \<Rightarrow> bool" where
  "good H s s' \<longleftrightarrow> store_inv H s' \<and> grows s s'"

lemma grows_refl [simp]: "grows s s"
  by (simp add: grows_def)

lemma grows_trans: "grows s t \<Longrightarrow> grows t u \<Longrightarrow> grows s u"
  unfolding grows_def by (meson prefix_order.trans)

lemma store_good_refl: "store_inv H s \<Longrightarrow> good H s s"
  by (simp add: good_def)

lemma store_good_trans: "good H s t \<Longrightarrow> good H t u \<Longrightarrow> good H s u"
  unfolding good_def using grows_trans by blast

section \<open>Lemmas on the tables\<close>

lemma insert_new_prefix: "prefix rs (insert_new key r rs)"
  by (simp add: insert_new_def)

lemma set_insert_new: "x \<in> set (insert_new key r rs) \<Longrightarrow> x = r \<or> x \<in> set rs"
  by (auto simp: insert_new_def split: if_splits)

lemma key_insert_new: "\<exists>x\<in>set (insert_new key r rs). key x = key r"
  by (auto simp: insert_new_def)

lemma distinct_insert_new: "distinct (map key rs) \<Longrightarrow> distinct (map key (insert_new key r rs))"
  by (auto simp: insert_new_def)

lemma provenance_eq: "provenance oid s = [] \<longleftrightarrow> (\<forall>p\<in>set (provenances s). prov_object p \<noteq> oid)"
  by (auto simp: provenance_def filter_empty_conv)

lemma known_grows: "known oid s \<Longrightarrow> grows s s' \<Longrightarrow> known oid s'"
  unfolding known_def grows_def by (meson set_mono_prefix subsetD)

lemma object_id_sort_keys [simp]: "object_id_of H k (sort_keys p) = object_id_of H k p"
  by (simp add: object_id_of_def canonical_sha256_def envelope_def dumps_def)

lemma last_entry_snoc:
  "last_entry a (h @ [r]) = (if alias_name r = a then Some r else last_entry a h)"
  by (simp add: last_entry_def select_one_Cons)

section \<open>Every operation\<close>

lemma put_object_good:
  assumes inv: "store_inv H s" shows "good H s (snd (put_object H clk k0 p st sr ec t s))"
proof (cases "strip k0 = []")
  case True
  then show ?thesis using inv by (simp add: put_object_def store_good_refl)
next
  case False
  define k where "k = strip k0"
  define now where "now = (case t of None \<Rightarrow> clk | Some t \<Rightarrow> t)"
  define r where "r = \<lparr>object_id = object_id_of H k p, kind = k, payload = sort_keys p, created_at = now\<rparr>"
  define v where "v = \<lparr>prov_object = object_id_of H k p, source_type = st, source_ref = sr,
    evidence_class = ec, captured_at = now\<rparr>"
  let ?s = "s\<lparr>objects := insert_new object_id r (objects s), provenances := insert_new prov_key v (provenances s)\<rparr>"
  have s': "snd (put_object H clk k0 p st sr ec t s) = ?s"
    using False by (simp add: put_object_def Let_def k_def now_def r_def v_def)
  have g: "grows s ?s" by (simp add: grows_def insert_new_prefix)
  have ok: "object_ok H r" using False by (simp add: object_ok_def r_def k_def)
  have kn: "known (prov_object v) ?s"
    using key_insert_new [of object_id r "objects s"] by (simp add: known_def r_def v_def)
  obtain w where w: "w \<in> set (provenances ?s)" "prov_object w = object_id r"
    using key_insert_new [of prov_key v "provenances s"] by (auto simp: prov_key_def r_def v_def)
  have old: "provenance i ?s \<noteq> []" if "provenance i s \<noteq> []" for i
    using that set_mono_prefix [OF insert_new_prefix [of "provenances s" prov_key v]]
    by (auto simp: provenance_eq)
  have "store_inv H ?s" unfolding store_inv_def
  proof (intro conjI)
    show "\<forall>x\<in>set (objects ?s). object_ok H x \<and> provenance (object_id x) ?s \<noteq> []"
    proof
      fix x assume "x \<in> set (objects ?s)"
      then consider "x = r" | "x \<in> set (objects s)" by (auto dest: set_insert_new)
      then show "object_ok H x \<and> provenance (object_id x) ?s \<noteq> []"
      proof cases
        case 1
        have "provenance (object_id r) ?s \<noteq> []" unfolding provenance_eq using w by blast
        with 1 ok show ?thesis by blast
      next
        case 2
        then show ?thesis using inv old unfolding store_inv_def by blast
      qed
    qed
    show "\<forall>x\<in>set (provenances ?s). known (prov_object x) ?s"
      using inv kn known_grows [OF _ g] unfolding store_inv_def by (auto dest!: set_insert_new)
    show "distinct (map object_id (objects ?s))"
      using inv by (simp add: store_inv_def distinct_insert_new)
  qed (use inv known_grows [OF _ g] in \<open>auto simp: store_inv_def\<close>)
  with g show ?thesis by (simp add: good_def s')
qed

lemma ingest_many_good:
  assumes "store_inv H s" shows "good H s (snd (ingest_many H clk k rs st sr ec t s))"
  using assms
proof (induction rs arbitrary: s clk)
  case (Cons r rs)
  obtain e s' where p: "put_object H (clk 0) k r st sr ec t s = (e, s')" by fastforce
  have g: "good H s s'" using put_object_good [OF Cons.prems] by (metis p snd_conv)
  then have "good H s' (snd (ingest_many H (\<lambda>i. clk (Suc i)) k rs st sr ec t s'))"
    using Cons.IH by (simp add: good_def)
  then have t: "good H s (snd (ingest_many H (\<lambda>i. clk (Suc i)) k rs st sr ec t s'))"
    using store_good_trans [OF g] by blast
  have "snd (ingest_many H clk k (r # rs) st sr ec t s) = s'
      \<or> snd (ingest_many H clk k (r # rs) st sr ec t s) = snd (ingest_many H (\<lambda>i. clk (Suc i)) k rs st sr ec t s')"
    by (simp add: p split: sum.split prod.split)
  with g t show ?case by metis
qed (simp add: store_good_refl)

lemma link_good:
  assumes inv: "store_inv H s" shows "good H s (snd (link now a rel b s))"
proof (cases "strip rel = [] \<or> \<not> known a s \<or> \<not> known b s")
  case True
  then show ?thesis using inv by (auto simp: link_def Let_def store_good_refl)
next
  case False
  define l where "l = \<lparr>parent_id = a, relation = strip rel, child_id = b, linked_at = now\<rparr>"
  let ?s = "s\<lparr>links := insert_new link_key l (links s)\<rparr>"
  have s': "snd (link now a rel b s) = ?s" using False by (simp add: link_def l_def)
  have g: "grows s ?s" by (simp add: grows_def insert_new_prefix)
  have "known a ?s" "known b ?s" using False known_grows [OF _ g] by blast+
  moreover have "provenance i ?s = provenance i s" for i by (simp add: provenance_def)
  ultimately have "store_inv H ?s"
    using inv known_grows [OF _ g] unfolding store_inv_def
    by (auto simp: l_def dest!: set_insert_new)
  with g show ?thesis by (simp add: good_def s')
qed

lemma link_typed_good:
  "store_inv H s \<Longrightarrow> good H s (snd (link_typed now a ak rel b bk s))"
  by (auto simp: link_typed_def store_good_refl link_good split: sum.splits)

subsection \<open>Aliases\<close>

lemma set_alias_good:
  assumes inv: "store_inv H s" and k: "known (target row) s"
    and d: "distinct (map alias_name als)"
    and sel: "\<And>b. select_one (\<lambda>r. alias_name r = b) als
      = (if b = alias_name row then Some row else select_one (\<lambda>r. alias_name r = b) (aliases s))"
  shows "good H s (s\<lparr>aliases := als, alias_history := alias_history s @ [row]\<rparr>)" (is "good H s ?s")
proof -
  have g: "grows s ?s" by (simp add: grows_def)
  have p: "provenance i ?s = provenance i s" and kn: "known i ?s = known i s" for i
    by (simp_all add: provenance_def known_def)
  have "replayed (aliases s) (alias_history s)" using inv unfolding store_inv_def by blast
  then have sel': "replayed als (alias_history s @ [row])"
    unfolding replayed_def last_entry_snoc sel by metis
  have tables: "objects ?s = objects s" "provenances ?s = provenances s" "links ?s = links s"
    "aliases ?s = als" "alias_history ?s = alias_history s @ [row]" by simp_all
  have h: "\<forall>a\<in>set (alias_history s @ [row]). known (target a) s"
    using inv k unfolding store_inv_def by (metis Un_iff empty_iff list.set(1,2) insert_iff set_append)
  have "store_inv H ?s" unfolding store_inv_def p kn tables
    using inv d sel' h unfolding store_inv_def by blast
  with g show ?thesis by (simp add: good_def)
qed

lemma upsert_alias:
  assumes d: "distinct (map alias_name als)" and row: "row = \<lparr>alias_name = a, target = oid, updated_at = now\<rparr>"
  defines "als' \<equiv> upsert_by alias_name (\<lambda>r. r\<lparr>target := oid, updated_at := now\<rparr>) row als"
  shows "distinct (map alias_name als')"
    and "select_one (\<lambda>r. alias_name r = b) als'
      = (if b = a then Some row else select_one (\<lambda>r. alias_name r = b) als)"
proof -
  show "distinct (map alias_name als')"
    using d by (auto simp: als'_def upsert_by_def row map_update_where)
  have *: "select_one (\<lambda>r. alias_name r = b) (update_where (\<lambda>r. alias_name r = a)
      (\<lambda>r. r\<lparr>target := oid, updated_at := now\<rparr>) als)
    = (if b = a then map_option (\<lambda>r. r\<lparr>target := oid, updated_at := now\<rparr>)
        (select_one (\<lambda>r. alias_name r = b) als) else select_one (\<lambda>r. alias_name r = b) als)"
    by (rule select_one_update_where) simp
  show "select_one (\<lambda>r. alias_name r = b) als'
      = (if b = a then Some row else select_one (\<lambda>r. alias_name r = b) als)"
  proof (cases "\<exists>r\<in>set als. alias_name r = a")
    case True
    then have "select_one (\<lambda>r. alias_name r = a) als \<noteq> None" by (simp add: select_one_None)
    then obtain r where "select_one (\<lambda>r. alias_name r = a) als = Some r" by blast
    moreover from this have "alias_name r = a" by (auto dest: select_one_SomeD)
    ultimately show ?thesis using True * by (auto simp: als'_def upsert_by_def row)
  next
    case False
    then have "select_one (\<lambda>r. alias_name r = a) als = None" by (simp add: select_one_None)
    then show ?thesis using False
      by (auto simp: als'_def upsert_by_def row select_one_append select_one_Cons split: option.split)
  qed
qed

lemma point_good:
  assumes inv: "store_inv H s" shows "good H s (snd (point clk a0 oid t s))"
proof (cases "strip a0 = [] \<or> \<not> known oid s")
  case True
  then show ?thesis using inv by (auto simp: point_def Let_def store_good_refl)
next
  case False
  define now where "now = (case t of None \<Rightarrow> clk | Some t \<Rightarrow> t)"
  define row where "row = \<lparr>alias_name = strip a0, target = oid, updated_at = now\<rparr>"
  have d: "distinct (map alias_name (aliases s))" using inv by (simp add: store_inv_def)
  have "snd (point clk a0 oid t s) = s\<lparr>aliases := upsert_by alias_name
      (\<lambda>r. r\<lparr>target := oid, updated_at := now\<rparr>) row (aliases s), alias_history := alias_history s @ [row]\<rparr>"
    using False by (simp add: point_def Let_def row_def now_def)
  then show ?thesis
    using set_alias_good [OF inv _ upsert_alias(1) [OF d row_def]] upsert_alias(2) [OF d row_def] False
    by (simp add: row_def)
qed

text \<open>With one row per alias the conditional update is a comparison in front of \<open>point\<close>.\<close>

lemma point_if_current_guarded:
  assumes d: "distinct (map alias_name (aliases s))"
  shows "point_if_current clk a0 e oid t s =
    (if strip a0 = [] \<or> \<not> known oid s \<or> current_target (strip a0) s = e then point clk a0 oid t s
     else (Inl (AliasConflict (''alias '' @ quoted (strip a0) @ '' expected '' @ quoted_opt e
                 @ '', observed '' @ quoted_opt (current_target (strip a0) s))), s))"
proof (cases "strip a0 = [] \<or> \<not> known oid s \<or> current_target (strip a0) s \<noteq> e")
  case True
  then show ?thesis by (auto simp: point_if_current_def point_def Let_def)
next
  case False
  let ?a = "strip a0"
  define now where "now = (case t of None \<Rightarrow> clk | Some t \<Rightarrow> t)"
  define row where "row = \<lparr>alias_name = ?a, target = oid, updated_at = now\<rparr>"
  let ?f = "\<lambda>r. r\<lparr>target := oid, updated_at := now\<rparr>"
  have pt: "point clk a0 oid t s
      = (Inr (), s\<lparr>aliases := upsert_by alias_name ?f row (aliases s), alias_history := alias_history s @ [row]\<rparr>)"
    using False by (simp add: point_def Let_def row_def now_def)
  show ?thesis
  proof (cases "select_one (\<lambda>r. alias_name r = ?a) (aliases s)")
    case None
    then have "\<forall>r\<in>set (aliases s). alias_name r \<noteq> ?a" by (simp add: select_one_None)
    then have "upsert_by alias_name ?f row (aliases s) = aliases s @ [row]"
      by (auto simp: upsert_by_def row_def)
    moreover have "current_target ?a s = None" using None by (simp add: current_target_def)
    ultimately show ?thesis using False pt
      by (simp add: point_if_current_def Let_def row_def now_def)
  next
    case (Some r)
    then have r: "r \<in> set (aliases s)" "alias_name r = ?a" by (auto dest: select_one_SomeD)
    have cur: "current_target ?a s = Some (target r)" "e = Some (target r)"
      using Some False by (auto simp: current_target_def)
    let ?hit = "\<lambda>x. alias_name x = ?a \<and> Some (target x) = e"
    have hit: "?hit x \<longleftrightarrow> x = r" "alias_name x = ?a \<longleftrightarrow> x = r" if "x \<in> set (aliases s)" for x
      using unique_row [OF d that r(1)] r cur by auto
    have "filter ?hit (aliases s) = [r]" using d r hit by (intro filter_one) (auto simp: distinct_map)
    moreover have "update_where ?hit ?f (aliases s) = upsert_by alias_name ?f row (aliases s)"
      using hit r by (auto simp: upsert_by_def row_def update_where_def)
    ultimately show ?thesis using False pt cur
      by (simp add: point_if_current_def Let_def row_def now_def)
  qed
qed

lemma point_if_current_good:
  "store_inv H s \<Longrightarrow> good H s (snd (point_if_current clk a e oid t s))"
  by (subst point_if_current_guarded) (auto simp: store_inv_def [of H s] store_good_refl point_good)

lemma run_store_good: "store_inv H s \<Longrightarrow> good H s (run_store H op s)"
  by (cases op) (simp_all add: put_object_good ingest_many_good link_good link_typed_good point_good
      point_if_current_good)

lemma empty_store_inv: "store_inv H empty_store"
  by (simp add: store_inv_def empty_store_def last_entry_def replayed_def)

interpretation store: evolving_machine "run_store H" empty_store "store_inv H" grows for H
  using run_store_good unfolding good_def
  by unfold_locales (auto simp: empty_store_inv intro: grows_trans)

section \<open>Properties\<close>

lemma known_get: "known oid s \<Longrightarrow> \<exists>r. get_object oid s = Inr r \<and> r \<in> set (objects s) \<and> object_id r = oid"
  by (cases "select_one (\<lambda>r. object_id r = oid) (objects s)")
     (auto simp: known_def get_object_def select_one_None dest: select_one_SomeD)

lemma get_object_grows:
  assumes "get_object oid s = Inr r" "grows s s'" shows "get_object oid s' = Inr r"
proof -
  obtain ts where "objects s' = objects s @ ts" using assms(2) unfolding grows_def prefix_def by blast
  with assms(1) show ?thesis by (simp add: get_object_def select_one_append split: option.splits)
qed

lemma put_known:
  assumes "put_object H clk k p st sr ec t s = (Inr oid, s')"
  shows "oid = object_id_of H (strip k) p \<and> known oid s'"
proof -
  have "\<exists>x\<in>set (insert_new object_id r (objects s)). object_id x = object_id r" for r
    by (rule key_insert_new)
  from this [of "\<lparr>object_id = oid, kind = strip k, payload = sort_keys p,
      created_at = (case t of None \<Rightarrow> clk | Some t \<Rightarrow> t)\<rparr>"]
  show ?thesis using assms by (auto simp: put_object_def known_def Let_def split: if_splits)
qed

lemma put_outcome: "strip k \<noteq> [] \<Longrightarrow> \<exists>oid. put_object H clk k p st sr ec t s
    = (Inr oid, run_store H (Put clk k p st sr ec t) s)"
  by (simp add: put_object_def Let_def)

lemma put_then_get:
  assumes "store_inv H s" "put_object H clk k p st sr ec t s = (Inr oid, s')"
  shows "\<exists>r. get_object oid s' = Inr r \<and> object_id_of H (kind r) (payload r) = object_id_of H (strip k) p"
proof -
  have "store_inv H s'" using put_object_good [OF assms(1)] assms(2) unfolding good_def by (metis snd_conv)
  moreover obtain r where "get_object oid s' = Inr r" "r \<in> set (objects s')" "object_id r = oid"
    using put_known [OF assms(2)] known_get by blast
  ultimately show ?thesis
    using put_known [OF assms(2)] unfolding store_inv_def object_ok_def by metis
qed

lemma envelope_text: 
  assumes "dumps compact (envelope k p) = dumps compact (envelope k' p')"
  shows "k = k' \<and> sort_keys p = sort_keys p'"
proof -
  let ?e = "\<lambda>k p. [(''schema'', JInt 1), (''kind'', JStr k), (''payload'', p)]"
  have "map_option sort_keys (get (?e k p) x) = map_option sort_keys (get (?e k' p') x)" for x
    using assms by (intro dumps_field) (simp_all add: envelope_def)
  from this [of "''kind''"] this [of "''payload''"] show ?thesis by (simp add: get_def)
qed

lemma inv_clean: 
  assumes "store_inv H s"
  shows "foreign_key_violations s = [] \<and> filter (\<lambda>r. provenance (object_id r) s = []) (objects s) = []"
proof
  have "known (target a) s" if "a \<in> set (aliases s)" for a
  proof -
    have d: "distinct (map alias_name (aliases s))" and r: "replayed (aliases s) (alias_history s)"
      using assms unfolding store_inv_def by blast+
    have "last_entry (alias_name a) (alias_history s) = Some a"
      using select_one_unique [OF d that] r unfolding replayed_def by metis
    then have "a \<in> set (alias_history s)"
      using select_one_SomeD [of _ "rev (alias_history s)" a] unfolding last_entry_def by auto
    then show ?thesis using assms unfolding store_inv_def by blast
  qed
  then show "foreign_key_violations s = []"
    using assms unfolding foreign_key_violations_def filter_empty_conv store_inv_def by auto
  show "filter (\<lambda>r. provenance (object_id r) s = []) (objects s) = []"
    using assms unfolding filter_empty_conv store_inv_def by blast
qed

text \<open>
  Whatever is called and in whatever order, the integrity report of the store is PASS with no
  dangling reference and no object without provenance; every object is stored once, under the
  digest of its own envelope.
\<close>

theorem store_integrity_holds:
  fixes H ops
  defines "s \<equiv> run_all (run_store H) ops empty_store"
  shows "status (integrity_report s) = ''PASS'' \<and> violations (integrity_report s) = []
    \<and> without_provenance (integrity_report s) = []
    \<and> distinct (map object_id (objects s))
    \<and> map object_id (objects s) = map (\<lambda>r. object_id_of H (kind r) (payload r)) (objects s)"
proof -
  have inv: "store_inv H s" unfolding s_def by (rule store.reached_inv)
  then have "map object_id (objects s) = map (\<lambda>r. object_id_of H (kind r) (payload r)) (objects s)"
    unfolding store_inv_def object_ok_def by (auto intro!: map_cong)
  moreover have "distinct (map object_id (objects s))" using inv unfolding store_inv_def by blast
  ultimately show ?thesis using inv_clean [OF inv] by (simp add: integrity_report_def Let_def)
qed

text \<open>
  C11. Put and get: an identifier that \<open>put\<close> returned resolves at every later time to the same row,
  and the row holds the kind and the payload (with its keys sorted) that were put, or the two
  envelopes are different texts with the same digest.
\<close>

theorem put_then_get_forever:
  fixes H ops ops'
  defines "s \<equiv> run_all (run_store H) ops empty_store"
  assumes put: "put_object H clk k p st sr ec t s = (Inr oid, s')"
  shows "\<exists>r. get_object oid s' = Inr r \<and> get_object oid (run_all (run_store H) ops' s') = Inr r
    \<and> (kind r = strip k \<and> payload r = sort_keys p
       \<or> (let a = dumps compact (envelope (kind r) (payload r)); b = dumps compact (envelope (strip k) p)
          in a \<noteq> b \<and> H a = H b))"
proof -
  have inv: "store_inv H s" unfolding s_def by (rule store.reached_inv)
  have inv': "store_inv H s'" using put_object_good [OF inv] put unfolding good_def by (metis snd_conv)
  obtain r where r: "get_object oid s' = Inr r"
    and d: "object_id_of H (kind r) (payload r) = object_id_of H (strip k) p"
    using put_then_get [OF inv put] by blast
  have "get_object oid (run_all (run_store H) ops' s') = Inr r"
    by (rule get_object_grows [OF r store.run_all_older [OF inv']])
  moreover have "sort_keys (payload r) = payload r"
    using r inv' select_one_SomeD unfolding get_object_def store_inv_def object_ok_def
    by (fastforce split: option.splits)
  ultimately show ?thesis
    using r d envelope_text [of "kind r" "payload r" "strip k" p]
    unfolding object_id_of_def canonical_sha256_def Let_def by metis
qed

lemma put_then_get_forever_witness:
  "\<exists>oid s' r. put_object id 5 ''note'' (JObj [(''b'', JInt 1), (''a'', JNull)]) ''generated'' [] ''X'' None empty_store
      = (Inr oid, s') \<and> get_object oid (run_all (run_store id) [Point 6 ''head'' oid None] s') = Inr r
    \<and> payload r = JObj [(''a'', JNull), (''b'', JInt 1)]"
proof -
  let ?p = "JObj [(''b'', JInt 1), (''a'', JNull)]"
  have k: "strip ''note'' = ''note''" by code_simp
  obtain oid s' where put: "put_object id 5 ''note'' ?p ''generated'' [] ''X'' None
      (run_all (run_store id) [] empty_store) = (Inr oid, s')"
    using put_outcome [of "''note''"] k by (metis list.distinct(1))
  from put_then_get_forever [OF put, of "[Point 6 ''head'' oid None]"] put k show ?thesis by (auto simp: Let_def)
qed

text \<open>
  C12. The conditional update of an alias is a compare-and-swap: it succeeds exactly when the name
  is not blank, the new object is stored and the alias is where the caller expects it to be (absent
  for \<open>None\<close>); then only this alias has moved, one entry is logged and no object is touched. In every
  other case it raises and changes nothing.
\<close>

theorem alias_compare_and_swap:
  fixes H ops clk a0 e oid t
  defines "s \<equiv> run_all (run_store H) ops empty_store"
  defines "r \<equiv> point_if_current clk a0 e oid t s"
  defines "a \<equiv> strip a0"
  shows "(fst r = Inr () \<longleftrightarrow> a \<noteq> [] \<and> known oid s \<and> current_target a s = e)
    \<and> (fst r = Inr () \<longrightarrow> current_target a (snd r) = Some oid
         \<and> (\<forall>b. b \<noteq> a \<longrightarrow> current_target b (snd r) = current_target b s)
         \<and> length (alias_history (snd r)) = length (alias_history s) + 1 \<and> objects (snd r) = objects s)
    \<and> (fst r \<noteq> Inr () \<longrightarrow> snd r = s)"
proof -
  have inv: "store_inv H s" unfolding s_def by (rule store.reached_inv)
  then have d: "distinct (map alias_name (aliases s))" unfolding store_inv_def by blast
  let ?now = "case t of None \<Rightarrow> clk | Some t \<Rightarrow> t"
  note up = upsert_alias(2) [OF d refl, where a = a and oid = oid and now = ?now]
  have pt: "point clk a0 oid t s = (if a = [] then (Inl (ValueError ''alias may not be empty''), s)
      else if \<not> known oid s then (Inl (KeyError oid), s)
      else (Inr (), s\<lparr>aliases := upsert_by alias_name (\<lambda>r. r\<lparr>target := oid, updated_at := ?now\<rparr>)
          \<lparr>alias_name = a, target = oid, updated_at = ?now\<rparr> (aliases s),
          alias_history := alias_history s @ [\<lparr>alias_name = a, target = oid, updated_at = ?now\<rparr>]\<rparr>))"
    by (simp add: point_def Let_def a_def)
  show ?thesis
    unfolding r_def point_if_current_guarded [OF d] pt
    by (auto simp: a_def [symmetric] current_target_def up)
qed

lemma alias_compare_and_swap_witness:
  "\<exists>oid s'. put_object id 5 ''note'' JNull ''generated'' [] ''X'' None empty_store = (Inr oid, s')
    \<and> fst (point_if_current 6 ''head'' None oid None s') = Inr ()
    \<and> fst (point_if_current 6 ''head'' (Some ''other'') oid None s') \<noteq> Inr ()"
proof -
  have k: "strip ''note'' = ''note''" "strip ''head'' = ''head''" by code_simp+
  let ?s = "run_all (run_store id) [Put 5 ''note'' JNull ''generated'' [] ''X'' None] empty_store"
  obtain oid where put: "put_object id 5 ''note'' JNull ''generated'' [] ''X'' None empty_store = (Inr oid, ?s)"
    using put_outcome [of "''note''"] k by (simp del: run_store.simps) (metis list.distinct(1))
  have kn: "known oid ?s" using put_known [OF put] by blast
  have cur: "current_target ''head'' ?s = None"
    by (simp add: put_object_def k current_target_def empty_store_def Let_def)
  have ne: "''head'' \<noteq> []" by simp
  have "fst (point_if_current 6 ''head'' e oid None ?s) = Inr () \<longleftrightarrow> current_target ''head'' ?s = e" for e
    using alias_compare_and_swap [where H = id and clk = 6 and ?a0.0 = "''head''" and t = None and oid = oid
        and e = e and ops = "[Put 5 ''note'' JNull ''generated'' [] ''X'' None]"] kn ne unfolding k by blast
  with put cur show ?thesis by (metis option.distinct(1))
qed

text \<open>
  The alias table is the replay of its history: an alias points to the object of its last
  history entry, resolving it returns that object, and it fails only for a name that was never
  pointed anywhere.
\<close>

theorem aliases_replay_history:
  fixes H ops a
  defines "s \<equiv> run_all (run_store H) ops empty_store"
  shows "case last_entry a (alias_history s) of
      None \<Rightarrow> current_target a s = None \<and> resolve a s = Inl (KeyError a)
    | Some r \<Rightarrow> current_target a s = Some (target r)
        \<and> (\<exists>x. resolve a s = Inr x \<and> object_id x = target r \<and> x \<in> set (objects s))"
proof -
  have inv: "store_inv H s" unfolding s_def by (rule store.reached_inv)
  then have e: "select_one (\<lambda>r. alias_name r = a) (aliases s) = last_entry a (alias_history s)"
    unfolding store_inv_def replayed_def by blast
  show ?thesis
  proof (cases "last_entry a (alias_history s)")
    case (Some r)
    then have "r \<in> set (alias_history s)"
      using select_one_SomeD [of _ "rev (alias_history s)" r] unfolding last_entry_def by auto
    then have "known (target r) s" using inv unfolding store_inv_def by blast
    then show ?thesis using known_get e Some by (fastforce simp: current_target_def resolve_def)
  qed (simp add: e current_target_def resolve_def)
qed

end
