(* ===== verification/Reconciliation.thy ===== *)
theory Reconciliation
  imports Hash_Chain Op_Machine
begin

text \<open>
  \<open>frost_core/reconciliation.py\<close>: the difference between what a control plane shows and what it
  should show, the ledger of decisions, and the last mirrored state. JSON columns are kept decoded;
  \<open>now\<close> is the text of \<open>_now()\<close>.
\<close>

section \<open>Difference\<close>

definition set_op :: "json \<Rightarrow> json" where
  "set_op v = JObj [(''op'', JStr ''set''), (''value'', v)]"

definition set_op_observed :: "json \<Rightarrow> json \<Rightarrow> json" where
  "set_op_observed v w = JObj [(''op'', JStr ''set''), (''value'', v), (''observed'', w)]"

text \<open>
  \<open>_diff\<close> on two dictionaries; its loop runs over the items of \<open>desired\<close>. The recursive call is
  made for two dictionaries only, so its last line is reached from the outermost call alone.
\<close>

fun diff_items :: "json_object \<Rightarrow> json_object \<Rightarrow> json_object" where
  "diff_items observed [] = []"
| "diff_items observed ((key, expected) # rest) =
     (let tail = diff_items observed rest
      in case get observed key of
           None \<Rightarrow> (key, set_op expected) # tail
         | Some actual \<Rightarrow>
             (case (expected, actual) of
                (JObj e, JObj a) \<Rightarrow>
                  (let nested = diff_items a e
                   in if nested \<noteq> [] then (key, JObj nested) # tail else tail)
              | _ \<Rightarrow> if \<not> py_eq actual expected then (key, set_op_observed expected actual) # tail else tail))"

definition diff_json :: "json \<Rightarrow> json \<Rightarrow> json_object" where
  "diff_json observed desired =
     (case (desired, observed) of
        (JObj d, JObj b) \<Rightarrow> diff_items b d
      | _ \<Rightarrow> if py_eq observed desired then [] else [(''$'', set_op desired)])"

section \<open>Ledger\<close>

datatype recon_state = PENDING | APPLIED | DIVERGED | BLOCKED

record snapshot =
  adapter_id :: string
  object_type :: string
  object_id :: string
  desired :: json_object
  observed :: json_object
  immutable_evidence_identity :: string
  observed_at :: string

definition snapshot_dict :: "snapshot \<Rightarrow> json" where
  "snapshot_dict s = JObj
     [(''adapter_id'', JStr (adapter_id s)), (''object_type'', JStr (object_type s)),
      (''object_id'', JStr (object_id s)), (''desired'', JObj (desired s)),
      (''observed'', JObj (observed s)),
      (''immutable_evidence_identity'', JStr (immutable_evidence_identity s)),
      (''observed_at'', JStr (observed_at s))]"

definition snapshot_identity :: "(string \<Rightarrow> string) \<Rightarrow> snapshot \<Rightarrow> string" where
  "snapshot_identity H s = canonical_sha256 H (snapshot_dict s)"

record decision =
  decided :: string
  state :: recon_state
  patch :: json_object
  reason :: string
  evidence_identity :: string

record snapshot_row =
  row_identity :: string
  row_snapshot :: snapshot
  row_state :: recon_state
  row_decision :: decision
  recorded_at :: string

record mirror =
  mirror_adapter :: string
  mirror_type :: string
  mirror_object :: string
  last_snapshot :: string
  last_observed :: json_object
  updated_at :: string

record ledger =
  snapshots :: "snapshot_row list"
  mirrors :: "mirror list"

definition empty_ledger :: ledger where
  "empty_ledger = \<lparr>snapshots = [], mirrors = []\<rparr>"

text \<open>\<open>INSERT OR REPLACE\<close>: the old row with the key is deleted.\<close>

definition insert_or_replace :: "('r \<Rightarrow> 'k) \<Rightarrow> 'r \<Rightarrow> 'r list \<Rightarrow> 'r list" where
  "insert_or_replace key r rs = filter (\<lambda>x. key x \<noteq> key r) rs @ [r]"

definition evaluate :: "(string \<Rightarrow> string) \<Rightarrow> string \<Rightarrow> snapshot \<Rightarrow> ledger \<Rightarrow> (decision, ledger) outcome" where
  "evaluate H now snap l =
     (if blank (immutable_evidence_identity snap)
      then (Inl (ValueError ''immutable execution evidence identity is required''), l)
      else if blank (adapter_id snap) \<or> blank (object_id snap)
      then (Inl (ValueError ''adapter_id and object_id are required''), l)
      else
        (let p = diff_items (observed snap) (desired snap);
             st = (if p = [] then APPLIED else PENDING);
             why = (if p = [] then ''already converged'' else ''control-plane mirror requires update'');
             d = \<lparr>decided = snapshot_identity H snap, state = st, patch = p, reason = why,
                  evidence_identity = immutable_evidence_identity snap\<rparr>
         in (Inr d, l\<lparr>snapshots := insert_or_replace row_identity
               \<lparr>row_identity = snapshot_identity H snap, row_snapshot = snap, row_state = st,
                row_decision = d, recorded_at = now\<rparr> (snapshots l)\<rparr>)))"

definition mirror_key :: "mirror \<Rightarrow> string \<times> string \<times> string" where
  "mirror_key m = (mirror_adapter m, mirror_type m, mirror_object m)"

definition mark_applied :: "(string \<Rightarrow> string) \<Rightarrow> string \<Rightarrow> snapshot \<Rightarrow> json_object \<Rightarrow> ledger \<Rightarrow>
    (decision, ledger) outcome" where
  "mark_applied H now snap observed_after l =
     (let p = diff_items observed_after (desired snap);
          st = (if p \<noteq> [] then DIVERGED else APPLIED);
          why = (if p \<noteq> [] then ''post-write readback diverged from desired mirror state''
                 else ''post-write readback matches desired mirror state'');
          i = snapshot_identity H snap;
          d = \<lparr>decided = i, state = st, patch = p, reason = why,
               evidence_identity = immutable_evidence_identity snap\<rparr>
      in (Inr d, l\<lparr>
           snapshots := update_where (\<lambda>r. row_identity r = i)
             (\<lambda>r. r\<lparr>row_state := st, row_decision := d, recorded_at := now\<rparr>) (snapshots l),
           mirrors := upsert_by mirror_key
             (\<lambda>m. m\<lparr>last_snapshot := i, last_observed := observed_after, updated_at := now\<rparr>)
             \<lparr>mirror_adapter = adapter_id snap, mirror_type = object_type snap, mirror_object = object_id snap,
              last_snapshot = i, last_observed = observed_after, updated_at = now\<rparr> (mirrors l)\<rparr>))"

definition last_mirror :: "string \<Rightarrow> string \<Rightarrow> string \<Rightarrow> ledger \<Rightarrow> mirror option" where
  "last_mirror a t i l = select_one (\<lambda>m. mirror_key m = (a, t, i)) (mirrors l)"

end
