(* ===== verification/Reconciliation_Claims.thy ===== *)
theory Reconciliation_Claims
  imports Reconciliation
begin

text \<open>
  What the difference means, path by path; that applying it converges in one round; and what the
  ledger keeps.
\<close>

section \<open>The difference against a specification by paths\<close>

text \<open>No dictionary of the value has a key twice, as in every value of the code.\<close>

primrec dict_ok :: "json \<Rightarrow> bool" where
  "dict_ok JNull = True"
| "dict_ok (JBool b) = True"
| "dict_ok (JInt i) = True"
| "dict_ok (JStr s) = True"
| "dict_ok (JArr xs) = list_all id (map dict_ok xs)"
| "dict_ok (JObj d) = (distinct (map fst d) \<and> list_all snd (map (map_prod id dict_ok) d))"

text \<open>The value at the end of a path of keys.\<close>

fun fetch :: "json \<Rightarrow> string list \<Rightarrow> json option" where
  "fetch j [] = Some j"
| "fetch (JObj d) (k # ks) = (case get d k of None \<Rightarrow> None | Some j \<Rightarrow> fetch j ks)"
| "fetch _ (k # ks) = None"

text \<open>
  Every path of the desired value leads somewhere in the observed one, to a dictionary where it
  should be one and to an equal value otherwise.
\<close>

definition agrees :: "json \<Rightarrow> json \<Rightarrow> bool" where
  "agrees a e \<longleftrightarrow> (if is_obj e then is_obj a else py_eq a e)"

definition conforms :: "json \<Rightarrow> json \<Rightarrow> bool" where
  "conforms a e \<longleftrightarrow> (\<forall>ks x. fetch e ks = Some x \<longrightarrow> (\<exists>y. fetch a ks = Some y \<and> agrees y x))"

lemma fetch_scalar: "\<not> is_obj e \<Longrightarrow> fetch e ks = Some x \<longleftrightarrow> ks = [] \<and> x = e"
  by (cases e; cases ks) auto

lemma conforms_scalar: "\<not> is_obj e \<Longrightarrow> conforms a e \<longleftrightarrow> py_eq a e"
  by (auto simp: conforms_def fetch_scalar agrees_def)

lemma conforms_obj:
  "conforms a (JObj e) \<longleftrightarrow>
     (\<exists>b. a = JObj b \<and> (\<forall>k x. get e k = Some x \<longrightarrow> (\<exists>y. get b k = Some y \<and> conforms y x)))"
proof
  assume c: "conforms a (JObj e)"
  have "\<exists>y. fetch a [] = Some y \<and> agrees y (JObj e)" using c unfolding conforms_def by (metis fetch.simps(1))
  then obtain b where b: "a = JObj b" by (cases a) (auto simp: agrees_def)
  have "\<exists>y. get b k = Some y \<and> conforms y x" if k: "get e k = Some x" for k x
  proof -
    have at_path: "\<exists>y. fetch (JObj b) (k # ks) = Some y \<and> agrees y z" if "fetch x ks = Some z" for ks z
      using c that k unfolding conforms_def b by (metis fetch.simps(2) option.simps(5))
    from at_path [of "[]" x] obtain y where y: "get b k = Some y" by (auto split: option.splits)
    with at_path have "conforms y x" unfolding conforms_def by simp
    with y show ?thesis by blast
  qed
  with b show "\<exists>b. a = JObj b \<and> (\<forall>k x. get e k = Some x \<longrightarrow> (\<exists>y. get b k = Some y \<and> conforms y x))" by blast
next
  assume "\<exists>b. a = JObj b \<and> (\<forall>k x. get e k = Some x \<longrightarrow> (\<exists>y. get b k = Some y \<and> conforms y x))"
  then obtain b where b: "a = JObj b" "\<And>k x. get e k = Some x \<Longrightarrow> \<exists>y. get b k = Some y \<and> conforms y x" by blast
  show "conforms a (JObj e)" unfolding conforms_def
  proof (intro allI impI)
    fix ks x assume f: "fetch (JObj e) ks = Some x"
    show "\<exists>y. fetch a ks = Some y \<and> agrees y x"
    proof (cases ks)
      case Nil
      with f b show ?thesis by (auto simp: agrees_def)
    next
      case (Cons k ts)
      with f obtain z where z: "get e k = Some z" "fetch z ts = Some x" by (auto split: option.splits)
      with b(2) obtain y where "get b k = Some y" "conforms y z" by blast
      with z Cons b(1) show ?thesis unfolding conforms_def by fastforce
    qed
  qed
qed

lemma py_eq_obj: "py_eq a b \<Longrightarrow> is_obj a = is_obj b"
  by (cases a; cases b) (auto simp: py_eq_def)

text \<open>One item of the desired dictionary against the observed one.\<close>

definition item_ok :: "json_object \<Rightarrow> string \<times> json \<Rightarrow> bool" where
  "item_ok b ke \<longleftrightarrow> (\<exists>a. get b (fst ke) = Some a
     \<and> (if is_obj (snd ke) \<and> is_obj a then diff_json a (snd ke) = [] else py_eq a (snd ke)))"

lemma diff_items_empty: "diff_items b d = [] \<longleftrightarrow> (\<forall>ke\<in>set d. item_ok b ke)"
proof (induction d)
  case (Cons ke d)
  obtain k e where ke: "ke = (k, e)" by fastforce
  show ?case
  proof (cases "get b k")
    case (Some a)
    then show ?thesis using Cons.IH ke
      by (cases e; cases a) (auto simp: item_ok_def diff_json_def Let_def)
  qed (simp add: ke item_ok_def Let_def)
qed simp

lemma dict_ok_member: "dict_ok (JObj d) \<Longrightarrow> (k, e) \<in> set d \<Longrightarrow> dict_ok e"
  by (auto simp: list_all_iff)

lemma diff_json_empty: "dict_ok e \<Longrightarrow> diff_json a e = [] \<longleftrightarrow> conforms a e"
proof (induction e arbitrary: a)
  case (JObj d)
  have get_d: "get d k = Some x \<longleftrightarrow> (k, x) \<in> set d" for k x
    using JObj.prems by (simp add: get_def)
  show ?case
  proof (cases "is_obj a")
    case True
    then obtain b where b: "a = JObj b" by (cases a) auto
    have "item_ok b (k, e) \<longleftrightarrow> (\<exists>y. get b k = Some y \<and> conforms y e)" if m: "(k, e) \<in> set d" for k e
    proof -
      have ok: "dict_ok e" using dict_ok_member [OF JObj.prems m] .
      have ih: "diff_json y e = [] \<longleftrightarrow> conforms y e" for y
        using JObj.IH [OF m, of e] ok by (simp add: snds.simps)
      have "py_eq y e \<Longrightarrow> \<not> (is_obj e \<and> is_obj y) \<Longrightarrow> \<not> is_obj e" for y using py_eq_obj by blast
      moreover have "is_obj e \<Longrightarrow> conforms y e \<Longrightarrow> is_obj y" for y
        using conforms_obj by (cases e) auto
      ultimately show ?thesis unfolding item_ok_def using ih conforms_scalar by (metis fst_conv snd_conv)
    qed
    then have "(\<forall>ke\<in>set d. item_ok b ke) \<longleftrightarrow> (\<forall>k e. get d k = Some e \<longrightarrow> (\<exists>y. get b k = Some y \<and> conforms y e))"
      using get_d by fastforce
    then show ?thesis by (simp add: b diff_json_def diff_items_empty conforms_obj)
  next
    case False
    then have "\<not> conforms a (JObj d)" by (auto simp: conforms_obj)
    moreover have "\<not> py_eq a (JObj d)" using False py_eq_obj by fastforce
    ultimately show ?thesis using False by (cases a) (auto simp: diff_json_def)
  qed
qed (auto simp: diff_json_def conforms_scalar split: json.splits)

section \<open>Applying a patch\<close>

text \<open>
  What a control plane does with a patch: a leaf sets the value of its key, and any other entry is
  a patch for the dictionary below the key.
\<close>

definition new_value :: "json_object \<Rightarrow> json" where
  "new_value p = (case get p ''value'' of None \<Rightarrow> JNull | Some v \<Rightarrow> v)"

fun apply_patch :: "json_object \<Rightarrow> json_object \<Rightarrow> json_object" where
  "apply_patch [] b = b"
| "apply_patch ((k, JObj p) # rest) b =
     (if get p ''op'' = Some (JStr ''set'') then apply_patch rest (put k (new_value p) b)
      else (case get b k of
              Some (JObj c) \<Rightarrow> apply_patch rest (put k (JObj (apply_patch p c)) b)
            | _ \<Rightarrow> apply_patch rest b))"
| "apply_patch (_ # rest) b = apply_patch rest b"

text \<open>The value under one key afterwards.\<close>

definition merged :: "json option \<Rightarrow> json \<Rightarrow> json" where
  "merged v e = (case v of None \<Rightarrow> e
     | Some a \<Rightarrow> (case (e, a) of
          (JObj d, JObj b) \<Rightarrow> JObj (apply_patch (diff_items b d) b)
        | _ \<Rightarrow> if py_eq a e then a else e))"

lemma diff_items_obj: "(k, v) \<in> set (diff_items b d) \<Longrightarrow> is_obj v"
  by (induction b d rule: diff_items.induct)
     (auto simp: Let_def set_op_def set_op_observed_def split: option.splits json.splits if_splits)

lemma diff_items_not_leaf: "get (diff_items b d) ''op'' \<noteq> Some (JStr ''set'')"
  using diff_items_obj [of "''op''" "JStr ''set''" b d] by (auto simp: get_def dest: map_of_SomeD)

lemma apply_set_op [simp]:
  "apply_patch ((k, set_op v) # rest) b = apply_patch rest (put k v b)"
  "apply_patch ((k, set_op_observed v w) # rest) b = apply_patch rest (put k v b)"
  by (simp_all add: set_op_def set_op_observed_def get_def new_value_def)

lemma apply_nested:
  "get b k = Some (JObj c) \<Longrightarrow> apply_patch ((k, JObj (diff_items c d)) # rest) b
     = apply_patch rest (put k (JObj (apply_patch (diff_items c d) c)) b)"
  by (simp add: diff_items_not_leaf)

text \<open>One step of the patch, whether or not the item is in it.\<close>

lemma apply_head:
  assumes "get c k = get b k"
  shows "\<exists>c'. apply_patch (diff_items b ((k, e) # d)) c = apply_patch (diff_items b d) c'
    \<and> (\<forall>x. get c' x = (if x = k then Some (merged (get b k) e) else get c x))"
proof (cases "get b k")
  case None
  then have "apply_patch (diff_items b ((k, e) # d)) c = apply_patch (diff_items b d) (put k e c)"
    by (simp add: Let_def)
  moreover have "\<forall>x. get (put k e c) x = (if x = k then Some (merged (get b k) e) else get c x)"
    by (auto simp: merged_def None)
  ultimately show ?thesis by blast
next
  case (Some a)
  show ?thesis
  proof (cases "\<exists>f g. e = JObj f \<and> a = JObj g")
    case True
    then obtain f g where fg: "e = JObj f" "a = JObj g" by blast
    let ?n = "JObj (apply_patch (diff_items g f) g)"
    have m: "merged (get b k) e = ?n" by (simp add: Some merged_def fg)
    show ?thesis
    proof (cases "diff_items g f = []")
      case True
      then have "apply_patch (diff_items b ((k, e) # d)) c = apply_patch (diff_items b d) c"
        by (simp add: Let_def Some fg)
      moreover have "\<forall>x. get c x = (if x = k then Some ?n else get c x)"
        using True assms Some fg by simp
      ultimately show ?thesis unfolding m by blast
    next
      case False
      then have "apply_patch (diff_items b ((k, e) # d)) c
          = apply_patch ((k, JObj (diff_items g f)) # diff_items b d) c"
        by (simp add: Let_def Some fg)
      also have "\<dots> = apply_patch (diff_items b d) (put k ?n c)"
        using assms Some fg by (intro apply_nested) simp
      finally show ?thesis unfolding m by (metis get_put)
    qed
  next
    case False
    then have d: "diff_items b ((k, e) # d)
        = (if \<not> py_eq a e then (k, set_op_observed e a) # diff_items b d else diff_items b d)"
      by (cases e; cases a) (simp_all add: Let_def Some)
    have m: "merged (get b k) e = (if py_eq a e then a else e)"
      using False by (cases e; cases a) (simp_all add: Some merged_def)
    show ?thesis
    proof (cases "py_eq a e")
      case True
      then have "\<forall>x. get c x = (if x = k then Some (merged (get b k) e) else get c x)"
        using m assms Some by simp
      then show ?thesis unfolding d using True by auto
    next
      case False
      then show ?thesis unfolding d m by (intro exI [of _ "put k e c"]) simp
    qed
  qed
qed

lemma get_patched:
  assumes "distinct (map fst d)" "\<forall>k\<in>fst ` set d. get c k = get b k"
  shows "get (apply_patch (diff_items b d) c) x
    = (case get d x of None \<Rightarrow> get c x | Some e \<Rightarrow> Some (merged (get b x) e))"
  using assms
proof (induction d arbitrary: c)
  case (Cons ke d)
  obtain k e where ke: "ke = (k, e)" by fastforce
  have "get c k = get b k" using Cons.prems ke by simp
  then obtain c' where c': "apply_patch (diff_items b ((k, e) # d)) c = apply_patch (diff_items b d) c'"
    and g: "\<And>y. get c' y = (if y = k then Some (merged (get b k) e) else get c y)"
    using apply_head by blast
  have k: "k \<notin> fst ` set d" using Cons.prems ke by simp
  have "\<forall>y\<in>fst ` set d. get c' y = get b y"
  proof
    fix y assume y: "y \<in> fst ` set d"
    then have "y \<noteq> k" using k by blast
    then show "get c' y = get b y" using Cons.prems(2) y g by (auto simp: ke)
  qed
  moreover have "get d k = None" using k by (simp add: get_def map_of_eq_None_iff)
  ultimately have r: "get (apply_patch (diff_items b (ke # d)) c) x
      = (case get d x of None \<Rightarrow> get c' x | Some e \<Rightarrow> Some (merged (get b x) e))" "get d k = None"
    using Cons.IH [of c'] Cons.prems(1) c' by (simp_all add: ke)
  show ?case
  proof (cases "x = k")
    case True
    then show ?thesis using r g by (simp add: ke get_def)
  next
    case False
    then have "get (ke # d) x = get d x" by (simp add: ke get_def)
    moreover have "get c' x = get c x" using g False by simp
    ultimately show ?thesis using r(1) by (simp split: option.split)
  qed
qed (simp add: get_def)

lemma conforms_refl: "conforms e e"
  by (simp add: conforms_def agrees_def)

lemma patched_json:
  "dict_ok e \<Longrightarrow> e = JObj d \<Longrightarrow> conforms (JObj (apply_patch (diff_items b d) b)) (JObj d)"
proof (induction e arbitrary: d b)
  case (JObj items)
  then have prems: "dict_ok (JObj d)" and items: "items = d" by simp_all
  have dist: "distinct (map fst d)" using prems by simp
  have "conforms (merged v x) x" if x: "get d k = Some x" for k x v
  proof -
    have m: "(k, x) \<in> set d" using x by (simp add: get_def map_of_SomeD)
    have ok: "dict_ok x" using dict_ok_member [OF prems m] .
    show ?thesis
    proof (cases v)
      case (Some a)
      show ?thesis
      proof (cases "\<exists>f g. x = JObj f \<and> a = JObj g")
        case True
        then obtain f g where fg: "x = JObj f" "a = JObj g" by blast
        have "conforms (JObj (apply_patch (diff_items g f) g)) (JObj f)"
          using JObj.IH [of "(k, x)" x f g] m ok fg unfolding items by (simp add: snds.simps)
        then show ?thesis by (simp add: merged_def Some fg)
      next
        case False
        then have "merged v x = (if py_eq a x then a else x)"
          by (cases x; cases a) (simp_all add: Some merged_def)
        moreover have "py_eq a x \<Longrightarrow> \<not> is_obj x"
          using False by (metis is_obj.elims(2) py_eq_obj)
        ultimately show ?thesis by (simp add: conforms_scalar conforms_refl)
      qed
    qed (simp add: merged_def conforms_refl)
  qed
  then show ?case using get_patched [OF dist, of b b] by (auto simp: conforms_obj)
qed simp_all

lemma patched_conforms:
  "dict_ok (JObj d) \<Longrightarrow> conforms (JObj (apply_patch (diff_items b d) b)) (JObj d)"
  by (rule patched_json) simp_all

section \<open>The ledger\<close>

datatype recon_op = Evaluate string snapshot | Mark_Applied string snapshot json_object

fun run_recon :: "(string \<Rightarrow> string) \<Rightarrow> recon_op \<Rightarrow> ledger \<Rightarrow> ledger" where
  "run_recon H (Evaluate now snap) l = snd (evaluate H now snap l)"
| "run_recon H (Mark_Applied now snap after) l = snd (mark_applied H now snap after l)"

text \<open>Two snapshots whose canonical texts differ and have the same digest.\<close>

definition snapshot_collision :: "(string \<Rightarrow> string) \<Rightarrow> bool" where
  "snapshot_collision H \<longleftrightarrow> (\<exists>s t. dumps compact (snapshot_dict s) \<noteq> dumps compact (snapshot_dict t)
     \<and> snapshot_identity H s = snapshot_identity H t)"

definition row_ok :: "(string \<Rightarrow> string) \<Rightarrow> snapshot_row \<Rightarrow> bool" where
  "row_ok H r \<longleftrightarrow> row_identity r = snapshot_identity H (row_snapshot r)
     \<and> decided (row_decision r) = row_identity r \<and> state (row_decision r) = row_state r
     \<and> (row_state r = APPLIED \<longleftrightarrow> patch (row_decision r) = []) \<and> row_state r \<noteq> BLOCKED
     \<and> \<not> blank (immutable_evidence_identity (row_snapshot r))
     \<and> \<not> blank (adapter_id (row_snapshot r)) \<and> \<not> blank (object_id (row_snapshot r))
     \<and> (evidence_identity (row_decision r) = immutable_evidence_identity (row_snapshot r)
        \<or> snapshot_collision H)"

definition recon_inv :: "(string \<Rightarrow> string) \<Rightarrow> ledger \<Rightarrow> bool" where
  "recon_inv H l \<longleftrightarrow> distinct (map row_identity (snapshots l)) \<and> distinct (map mirror_key (mirrors l))
     \<and> (\<forall>r\<in>set (snapshots l). row_ok H r)"

lemma same_identity:
  assumes "snapshot_identity H s = snapshot_identity H t"
  shows "immutable_evidence_identity s = immutable_evidence_identity t \<or> snapshot_collision H"
proof (cases "dumps compact (snapshot_dict s) = dumps compact (snapshot_dict t)")
  case True
  let ?k = "''immutable_evidence_identity''"
  have "map_option sort_keys (field (snapshot_dict s) ?k) = map_option sort_keys (field (snapshot_dict t) ?k)"
    using True unfolding snapshot_dict_def field.simps by (intro dumps_field) simp_all
  then show ?thesis by (simp add: snapshot_dict_def get_def)
next
  case False
  with assms show ?thesis unfolding snapshot_collision_def by blast
qed

lemma recon_evaluate_inv: assumes "recon_inv H l" shows "recon_inv H (snd (evaluate H now snap l))"
proof (cases "blank (immutable_evidence_identity snap) \<or> blank (adapter_id snap) \<or> blank (object_id snap)")
  case True
  then show ?thesis using assms by (auto simp: evaluate_def)
next
  case False
  have "distinct (map row_identity (filter P (snapshots l)))" for P
    using assms unfolding recon_inv_def by (simp add: distinct_map_filter)
  then show ?thesis using assms False
    by (auto simp: evaluate_def recon_inv_def Let_def insert_or_replace_def row_ok_def)
qed

lemma upsert_distinct: "distinct (map key rs) \<Longrightarrow> (\<And>r. key (f r) = key r) \<Longrightarrow> distinct (map key (upsert_by key f new rs))"
  by (auto simp: upsert_by_def map_update_where)

lemma mark_applied_inv: assumes inv: "recon_inv H l" shows "recon_inv H (snd (mark_applied H now snap after l))"
proof -
  let ?l = "snd (mark_applied H now snap after l)"
  have rows: "row_ok H r" if "r \<in> set (snapshots ?l)" for r
    using that inv same_identity unfolding recon_inv_def
    by (fastforce simp: mark_applied_def Let_def set_update_where row_ok_def split: if_splits)
  have "distinct (map row_identity (snapshots ?l))"
    using inv by (simp add: recon_inv_def mark_applied_def Let_def map_update_where)
  moreover have "distinct (map mirror_key (mirrors ?l))"
    using inv by (auto simp: recon_inv_def mark_applied_def Let_def mirror_key_def intro!: upsert_distinct)
  ultimately show ?thesis using rows unfolding recon_inv_def by blast
qed

interpretation recon: op_machine "run_recon H" empty_ledger "recon_inv H" for H
proof
  show "recon_inv H empty_ledger" by (simp add: recon_inv_def empty_ledger_def)
next
  fix l op assume "recon_inv H l"
  then show "recon_inv H (run_recon H op l)" by (cases op) (simp_all add: recon_evaluate_inv mark_applied_inv)
qed

section \<open>Properties\<close>

lemma diff_empty: "dict_ok (JObj d) \<Longrightarrow> diff_items b d = [] \<longleftrightarrow> conforms (JObj b) (JObj d)"
  using diff_json_empty [of "JObj d" "JObj b"] by (simp add: diff_json_def)

lemma recon_rows_row:
  assumes "recon_inv H l" "r \<in> set (snapshots l)"
  shows "state (row_decision r) = row_state r \<and> (row_state r = APPLIED \<longleftrightarrow> patch (row_decision r) = [])
    \<and> \<not> blank (immutable_evidence_identity (row_snapshot r))
    \<and> (evidence_identity (row_decision r) = immutable_evidence_identity (row_snapshot r)
       \<or> snapshot_collision H)"
  using assms unfolding recon_inv_def row_ok_def by blast

text \<open>
  C13. What a decision says is true of the states it compares: \<open>evaluate\<close> answers APPLIED exactly when
  every path of the desired dictionary leads to the same value in the observed one, and PENDING
  otherwise; \<open>mark_applied\<close> answers APPLIED or DIVERGED by the same test on the readback; and the
  patch is empty exactly then.
\<close>

theorem decisions_mean_conformance:
  assumes "dict_ok (JObj (desired snap))"
  shows "(\<forall>d. fst (evaluate H now snap l) = Inr d \<longrightarrow>
        state d = (if conforms (JObj (observed snap)) (JObj (desired snap)) then APPLIED else PENDING)
        \<and> (patch d = [] \<longleftrightarrow> conforms (JObj (observed snap)) (JObj (desired snap))))
    \<and> (\<forall>d. fst (mark_applied H now snap after l) = Inr d \<longrightarrow>
        state d = (if conforms (JObj after) (JObj (desired snap)) then APPLIED else DIVERGED)
        \<and> (patch d = [] \<longleftrightarrow> conforms (JObj after) (JObj (desired snap))))"
proof (intro conjI allI impI)
  fix d
  assume "fst (evaluate H now snap l) = Inr d"
  then have p: "patch d = diff_items (observed snap) (desired snap)"
    and st: "state d = (if patch d = [] then APPLIED else PENDING)"
    by (simp_all add: evaluate_def Let_def split: if_splits) auto
  then show "state d = (if conforms (JObj (observed snap)) (JObj (desired snap)) then APPLIED else PENDING)"
    and "patch d = [] \<longleftrightarrow> conforms (JObj (observed snap)) (JObj (desired snap))"
    using diff_empty [OF assms, of "observed snap"] by metis+
next
  fix d
  assume "fst (mark_applied H now snap after l) = Inr d"
  then have p: "patch d = diff_items after (desired snap)"
    and st: "state d = (if patch d \<noteq> [] then DIVERGED else APPLIED)"
    by (simp_all add: mark_applied_def Let_def) auto
  then show "state d = (if conforms (JObj after) (JObj (desired snap)) then APPLIED else DIVERGED)"
    and "patch d = [] \<longleftrightarrow> conforms (JObj after) (JObj (desired snap))"
    using diff_empty [OF assms, of after] by metis+
qed

text \<open>
  One round converges: when the control plane applies the patch of an accepted evaluation to
  what was observed, \<open>mark_applied\<close> reports APPLIED with nothing left to do, the mirror holds the new
  state under the identity of the snapshot, and the stored row is APPLIED.
\<close>

theorem one_round_converges:
  assumes ok: "dict_ok (JObj (desired snap))"
    and ev: "evaluate H now snap l = (Inr d, l')"
  defines "after \<equiv> apply_patch (patch d) (observed snap)"
  shows "\<exists>d' l''. mark_applied H now' snap after l' = (Inr d', l'')
    \<and> state d' = APPLIED \<and> patch d' = [] \<and> conforms (JObj after) (JObj (desired snap))
    \<and> (\<exists>m. last_mirror (adapter_id snap) (object_type snap) (object_id snap) l'' = Some m
         \<and> last_observed m = after \<and> last_snapshot m = decided d)
    \<and> (\<exists>r\<in>set (snapshots l''). row_identity r = decided d \<and> row_decision r = d' \<and> row_state r = APPLIED)"
proof -
  have d: "patch d = diff_items (observed snap) (desired snap)" "decided d = snapshot_identity H snap"
    and row: "\<exists>r\<in>set (snapshots l'). row_identity r = decided d"
    using ev by (auto simp: evaluate_def Let_def insert_or_replace_def split: if_splits)
  have conf: "conforms (JObj after) (JObj (desired snap))"
    unfolding after_def d using patched_conforms [OF ok] .
  then have empty: "diff_items after (desired snap) = []" using diff_empty [OF ok] by blast
  define l'' where "l'' = snd (mark_applied H now' snap after l')"
  let ?k = "(adapter_id snap, object_type snap, object_id snap)"
  let ?m = "\<lparr>mirror_adapter = adapter_id snap, mirror_type = object_type snap, mirror_object = object_id snap,
    last_snapshot = decided d, last_observed = after, updated_at = now'\<rparr>"
  let ?f = "\<lambda>m. m\<lparr>last_snapshot := decided d, last_observed := after, updated_at := now'\<rparr>"
  have k: "mirror_key ?m = ?k" by (simp add: mirror_key_def)
  have "\<exists>m. select_one (\<lambda>m. mirror_key m = ?k) (upsert_by mirror_key ?f ?m (mirrors l')) = Some m
      \<and> last_observed m = after \<and> last_snapshot m = decided d"
  proof (cases "select_one (\<lambda>m. mirror_key m = ?k) (mirrors l')")
    case None
    then have "\<not> (\<exists>m\<in>set (mirrors l'). mirror_key m = ?k)" by (simp add: select_one_None)
    then show ?thesis using None
      by (simp add: upsert_by_def k select_one_append select_one_Cons)
  next
    case (Some m)
    then have "\<exists>m\<in>set (mirrors l'). mirror_key m = ?k" by (auto dest: select_one_SomeD)
    moreover have "select_one (\<lambda>m. mirror_key m = ?k)
        (update_where (\<lambda>m. mirror_key m = ?k) ?f (mirrors l')) = Some (?f m)"
      using Some by (subst select_one_update_where) (simp_all add: mirror_key_def)
    ultimately show ?thesis by (simp add: upsert_by_def k)
  qed
  then have mirrored: "\<exists>m. last_mirror (adapter_id snap) (object_type snap) (object_id snap) l'' = Some m
      \<and> last_observed m = after \<and> last_snapshot m = decided d"
    unfolding last_mirror_def l''_def mark_applied_def d by (simp add: Let_def)
  obtain r where r: "r \<in> set (snapshots l')" "row_identity r = decided d" using row by blast
  let ?d = "\<lparr>decided = decided d, state = APPLIED, patch = [],
    reason = ''post-write readback matches desired mirror state'',
    evidence_identity = immutable_evidence_identity snap\<rparr>"
  have m: "mark_applied H now' snap after l' = (Inr ?d, l'')"
    by (simp add: l''_def mark_applied_def Let_def empty d)
  have "r\<lparr>row_state := APPLIED, row_decision := ?d, recorded_at := now'\<rparr> \<in> set (snapshots l'')"
    using r by (force simp: l''_def mark_applied_def Let_def empty d set_update_where)
  with r(2) have "\<exists>r\<in>set (snapshots l''). row_identity r = decided d \<and> row_decision r = ?d \<and> row_state r = APPLIED"
    by (rule_tac x = "r\<lparr>row_state := APPLIED, row_decision := ?d, recorded_at := now'\<rparr>" in bexI) simp_all
  with m mirrored conf show ?thesis by (intro exI [of _ ?d] exI [of _ l'']) simp
qed

text \<open>
  Whatever is evaluated and marked in whatever order, every stored row is consistent: its state
  is that of its decision, APPLIED exactly when the patch is empty, the snapshot names the evidence
  it rests on, and the decision names the same evidence, unless two different snapshots have the
  same digest.
\<close>

theorem recon_rows_consistent:
  assumes "r \<in> set (snapshots (run_all (run_recon H) ops empty_ledger))"
  shows "state (row_decision r) = row_state r \<and> (row_state r = APPLIED \<longleftrightarrow> patch (row_decision r) = [])
    \<and> \<not> blank (immutable_evidence_identity (row_snapshot r))
    \<and> (evidence_identity (row_decision r) = immutable_evidence_identity (row_snapshot r)
       \<or> snapshot_collision H)"
  by (rule recon_rows_row [OF recon.reached_inv assms])

definition example_snapshot :: snapshot where
  "example_snapshot = \<lparr>adapter_id = ''base44'', object_type = ''queue'', object_id = ''q1'',
     desired = [(''a'', JObj [(''b'', JInt 1)]), (''c'', JStr ''x'')],
     observed = [(''a'', JObj [(''b'', JInt 2), (''z'', JNull)])],
     immutable_evidence_identity = ''e1'', observed_at = ''t''\<rparr>"

lemma example_nonblank: "\<not> blank ''base44'' \<and> \<not> blank ''q1'' \<and> \<not> blank ''e1''"
  by code_simp

lemma example_ok: "dict_ok (JObj (desired example_snapshot))"
  by (simp add: example_snapshot_def)

lemma example_not_conforming: "\<not> conforms (JObj (observed example_snapshot)) (JObj (desired example_snapshot))"
  by (auto simp: example_snapshot_def conforms_obj get_def)

lemma example_evaluates:
  "\<exists>d l'. evaluate H now example_snapshot l = (Inr d, l')"
  using example_nonblank by (simp add: evaluate_def example_snapshot_def Let_def)

lemma decisions_mean_conformance_witness:
  "\<exists>d. fst (evaluate id ''t'' example_snapshot empty_ledger) = Inr d \<and> state d = PENDING"
proof -
  obtain d l' where "evaluate id ''t'' example_snapshot empty_ledger = (Inr d, l')"
    using example_evaluates by blast
  then show ?thesis
    using decisions_mean_conformance [OF example_ok, of id "''t''" empty_ledger] example_not_conforming by auto
qed

lemma one_round_converges_witness:
  "\<exists>d l' d' l''. evaluate id ''t'' example_snapshot empty_ledger = (Inr d, l')
     \<and> mark_applied id ''u'' example_snapshot (apply_patch (patch d) (observed example_snapshot)) l' = (Inr d', l'')
     \<and> state d' = APPLIED"
proof -
  obtain d l' where e: "evaluate id ''t'' example_snapshot empty_ledger = (Inr d, l')"
    using example_evaluates by blast
  from one_round_converges [OF example_ok e, of "''u''"] e show ?thesis by blast
qed

lemma recon_rows_consistent_witness:
  "\<exists>r\<in>set (snapshots (run_all (run_recon id) [Evaluate ''t'' example_snapshot] empty_ledger)).
     row_state r = APPLIED \<longleftrightarrow> patch (row_decision r) = []"
proof -
  have "snapshots (run_all (run_recon id) [Evaluate ''t'' example_snapshot] empty_ledger) \<noteq> []"
    using example_nonblank
    by (simp add: evaluate_def example_snapshot_def Let_def insert_or_replace_def empty_ledger_def)
  then obtain r where r: "r \<in> set (snapshots (run_all (run_recon id) [Evaluate ''t'' example_snapshot] empty_ledger))"
    by (meson list.set_sel(1))
  from recon_rows_consistent [OF r] r show ?thesis by blast
qed

end
