(* ===== verification/Objective_Integrity.thy ===== *)
theory Objective_Integrity
  imports Object_Store
begin

text \<open>
  \<open>frost_core/objective_integrity.py\<close>: who may turn an objective into an executable one, and the
  capability tokens checked at every invocation. The store behind the registry is the object store;
  the verifier of an owner's authorization is a parameter (a protocol the code leaves open). Sets of
  strings are lists read by membership.
\<close>

section \<open>Data\<close>

datatype objective_source =
  OWNER | OWNER_POLICY | LOCAL_AGENT | REMOTE_AGENT | TOOL | IMPORTED_DOCUMENT | WEB | UNKNOWN

fun source_text :: "objective_source \<Rightarrow> string" where
  "source_text OWNER = ''OWNER''"
| "source_text OWNER_POLICY = ''OWNER_POLICY''"
| "source_text LOCAL_AGENT = ''LOCAL_AGENT''"
| "source_text REMOTE_AGENT = ''REMOTE_AGENT''"
| "source_text TOOL = ''TOOL''"
| "source_text IMPORTED_DOCUMENT = ''IMPORTED_DOCUMENT''"
| "source_text WEB = ''WEB''"
| "source_text UNKNOWN = ''UNKNOWN''"

datatype objective_decision = EXECUTE | PROPOSE_ONLY | QUARANTINE | DENY

fun decision_text :: "objective_decision \<Rightarrow> string" where
  "decision_text EXECUTE = ''EXECUTE''"
| "decision_text PROPOSE_ONLY = ''PROPOSE_ONLY''"
| "decision_text QUARANTINE = ''QUARANTINE''"
| "decision_text DENY = ''DENY''"

definition executable_sources :: "objective_source list" where
  "executable_sources = [OWNER, OWNER_POLICY]"

definition default_forbidden_capabilities :: "string list" where
  "default_forbidden_capabilities =
     [''credential_export'', ''secret_read'', ''identity_change'', ''disable_logging'', ''delete_evidence'',
      ''modify_objective_registry'', ''unrestricted_network'']"

record proposal =
  objective_id :: string
  objective_text :: string
  objective_source :: objective_source
  proposal_ref :: string
  root_objective :: string
  parent_objective_id :: "string option"
  requested_capabilities :: "string list"
  authorization_ref :: "string option"

record evaluation =
  evaluated_objective :: string
  decision :: objective_decision
  reasons :: "string list"
  authorization_verified :: bool

record capability_token =
  task_id :: string
  token_objective :: string
  token_root :: string
  allowed_actions :: "string list"
  network_scope :: "string list"
  allowed_secrets :: "string list"
  destructive_actions :: bool

record action =
  action_name :: string
  destination :: "string option"
  secret_id :: "string option"
  destructive :: bool
  requires_network :: bool

section \<open>The registry\<close>

record registry =
  canonical_roots :: "string list"
  verifier :: "proposal \<Rightarrow> bool"
  forbidden_capabilities :: "string list"

definition deny_all :: "proposal \<Rightarrow> bool" where
  "deny_all p = False"

definition make_registry :: "string list \<Rightarrow> (proposal \<Rightarrow> bool) option \<Rightarrow> string list \<Rightarrow> registry result" where
  "make_registry roots v forbidden =
     (let rs = map strip (filter (\<lambda>x. strip x \<noteq> []) roots)
      in if rs = [] then Inl (ValueError ''canonical_roots may not be empty'')
         else Inr \<lparr>canonical_roots = rs, verifier = (case v of None \<Rightarrow> deny_all | Some f \<Rightarrow> f),
                   forbidden_capabilities = forbidden\<rparr>)"

definition verdict :: "proposal \<Rightarrow> objective_decision \<Rightarrow> string list \<Rightarrow> bool \<Rightarrow> evaluation" where
  "verdict p d why v = \<lparr>evaluated_objective = objective_id p, decision = d, reasons = why,
     authorization_verified = v\<rparr>"

definition evaluate :: "registry \<Rightarrow> proposal \<Rightarrow> evaluation" where
  "evaluate reg p =
     (if blank (objective_id p) then verdict p DENY [''missing_objective_id''] False
      else if blank (objective_text p) then verdict p DENY [''missing_objective_text''] False
      else
        (let why = (if blank (proposal_ref p) then [''missing_source_ref''] else [])
         in if objective_source p \<notin> set executable_sources
            then verdict p PROPOSE_ONLY (why @ [''non_owner_source'']) False
            else if root_objective p \<notin> set (canonical_roots reg)
            then verdict p QUARANTINE (why @ [''unknown_root_objective'']) False
            else
              (let forbidden = sort (remdups (filter (\<lambda>c. c \<in> set (requested_capabilities p))
                                                     (forbidden_capabilities reg)))
               in if forbidden \<noteq> []
                  then verdict p DENY (why @ map (\<lambda>x. ''forbidden_capability:'' @ x) forbidden) False
                  else if \<not> verifier reg p
                  then verdict p QUARANTINE (why @ [''authorization_not_verified'']) False
                  else verdict p EXECUTE [] True)))"

section \<open>Recording\<close>

definition proposal_dict :: "proposal \<Rightarrow> json_object" where
  "proposal_dict p =
     [(''objective_id'', JStr (objective_id p)), (''text'', JStr (objective_text p)),
      (''source'', JStr (source_text (objective_source p))), (''source_ref'', JStr (proposal_ref p)),
      (''root_objective'', JStr (root_objective p)),
      (''parent_objective_id'', opt_str (parent_objective_id p)),
      (''requested_capabilities'', JArr (map JStr (requested_capabilities p))),
      (''authorization_ref'', opt_str (authorization_ref p))]"

definition evaluation_dict :: "evaluation \<Rightarrow> json_object" where
  "evaluation_dict e =
     [(''objective_id'', JStr (evaluated_objective e)), (''decision'', JStr (decision_text (decision e))),
      (''reasons'', JArr (map JStr (reasons e))), (''authorization_verified'', JBool (authorization_verified e))]"

definition authorized_dict :: "proposal \<Rightarrow> string \<Rightarrow> json_object" where
  "authorized_dict p decision_id = proposal_dict p @ [(''evaluation_object_id'', JStr decision_id)]"

definition current_alias :: "string \<Rightarrow> string" where
  "current_alias oid = ''objective/current/'' @ oid"

text \<open>One call after another; an exception ends the sequence.\<close>

definition and_then :: "('a, 's) outcome \<Rightarrow> ('a \<Rightarrow> 's \<Rightarrow> ('b, 's) outcome) \<Rightarrow> ('b, 's) outcome" where
  "and_then r f = (case r of (Inl e, s) \<Rightarrow> (Inl e, s) | (Inr x, s) \<Rightarrow> f x s)"

text \<open>\<open>clk i\<close> is the reading of the clock in the \<open>i\<close>-th call to the store.\<close>

definition record_proposal :: "(string \<Rightarrow> string) \<Rightarrow> registry \<Rightarrow> (nat \<Rightarrow> rat) \<Rightarrow> proposal \<Rightarrow> store \<Rightarrow>
    (string \<times> string \<times> evaluation, store) outcome" where
  "record_proposal H reg clk p s =
     (let ev = evaluate reg p;
          src = source_text (objective_source p);
          cls = (if objective_source p \<notin> set executable_sources then ''UNTRUSTED_PROPOSAL''
                 else ''OWNER_ASSERTED_PROPOSAL'')
      in and_then (put_object H (clk 0) ''objective_proposal'' (JObj (proposal_dict p)) src (proposal_ref p) cls None s)
        (\<lambda>pid s. and_then (put_object H (clk 1) ''objective_evaluation'' (JObj (evaluation_dict ev))
                             ''objective_integrity'' pid ''AUTHORIZATION_DECISION'' None s)
          (\<lambda>did s. and_then (link (clk 2) pid ''evaluated_as'' did s)
            (\<lambda>_ s. if decision ev = EXECUTE
               then and_then (put_object H (clk 3) ''authorized_objective'' (JObj (authorized_dict p did))
                               ''objective_integrity'' did ''OWNER_AUTHORIZED'' None s)
                 (\<lambda>aid s. and_then (link (clk 4) did ''authorizes'' aid s)
                   (\<lambda>_ s. and_then (point (clk 5) (current_alias (objective_id p)) aid None s)
                     (\<lambda>_ s. (Inr (pid, did, ev), s))))
               else (Inr (pid, did, ev), s)))))"

section \<open>Capability tokens\<close>

definition child_capabilities_valid :: "capability_token \<Rightarrow> capability_token \<Rightarrow> bool" where
  "child_capabilities_valid parent child \<longleftrightarrow>
     token_root child = token_root parent \<and> token_objective child = token_objective parent
     \<and> set (allowed_actions child) \<subseteq> set (allowed_actions parent)
     \<and> set (network_scope child) \<subseteq> set (network_scope parent)
     \<and> set (allowed_secrets child) \<subseteq> set (allowed_secrets parent)
     \<and> (\<not> destructive_actions child \<or> destructive_actions parent)"

text \<open>Truth of an optional string, and its value then.\<close>

definition truthy_opt :: "string option \<Rightarrow> bool" where
  "truthy_opt v = (case v of None \<Rightarrow> False | Some s \<Rightarrow> s \<noteq> [])"

definition execution_gate :: "capability_token \<Rightarrow> action \<Rightarrow> bool" where
  "execution_gate t a =
     (if action_name a \<notin> set (allowed_actions t) then False
      else if destructive a \<and> \<not> destructive_actions t then False
      else if requires_network a
              \<and> (\<not> truthy_opt (destination a) \<or> the (destination a) \<notin> set (network_scope t)) then False
      else \<not> (truthy_opt (secret_id a) \<and> the (secret_id a) \<notin> set (allowed_secrets t)))"

end
