(* ===== verification/Runtime_Governance.thy ===== *)
theory Runtime_Governance
  imports Objective_Integrity
begin

text \<open>
  \<open>frost_core/runtime_governance.py\<close>: the check in front of a consequential invocation. It reads
  the authorized objective, its evaluation and a capability token from the object store and the
  request from the task.
\<close>

record governance_decision =
  allowed :: bool
  status :: string
  reason :: string
  governed_objective :: "string option"

definition refuse :: "string \<Rightarrow> string \<Rightarrow> string option \<Rightarrow> governance_decision" where
  "refuse st why oid = \<lparr>allowed = False, status = st, reason = why, governed_objective = oid\<rparr>"

text \<open>\<open>_text\<close> and \<open>_string_set\<close>; a missing key and \<open>None\<close> are the same here.\<close>

fun text_of :: "json option \<Rightarrow> string option" where
  "text_of (Some (JStr s)) = (if blank s then None else Some s)"
| "text_of _ = None"

fun strings_of :: "json list \<Rightarrow> string list option" where
  "strings_of [] = Some []"
| "strings_of (JStr s # xs) = (if s = [] then None else map_option (Cons s) (strings_of xs))"
| "strings_of (_ # xs) = None"

fun string_set :: "json option \<Rightarrow> string list option" where
  "string_set (Some (JArr xs)) = strings_of xs"
| "string_set _ = None"

text \<open>\<open>payload.get(key, default)\<close>\<close>

definition get_or :: "json_object \<Rightarrow> string \<Rightarrow> json \<Rightarrow> json" where
  "get_or d k v = (case get d k of None \<Rightarrow> v | Some x \<Rightarrow> x)"

fun token_of :: "json \<Rightarrow> capability_token option" where
  "token_of (JObj d) =
     (case (text_of (get d ''task_id''), text_of (get d ''objective_id''), text_of (get d ''root_objective''),
            string_set (get d ''allowed_actions''), string_set (Some (get_or d ''network_scope'' (JArr []))),
            string_set (Some (get_or d ''allowed_secrets'' (JArr []))),
            get_or d ''destructive_actions'' (JBool False)) of
        (Some t, Some ob, Some r, Some acts, Some net, Some sec, JBool destr) \<Rightarrow>
          Some \<lparr>task_id = t, token_objective = ob, token_root = r, allowed_actions = acts,
                network_scope = net, allowed_secrets = sec, destructive_actions = destr\<rparr>
      | _ \<Rightarrow> None)"
| "token_of _ = None"

definition has_provenance :: "store \<Rightarrow> string \<Rightarrow> string \<Rightarrow> string \<Rightarrow> bool" where
  "has_provenance s oid st ec =
     (\<exists>p\<in>set (provenance oid s). source_type p = st \<and> evidence_class p = ec)"

definition task_action :: "json_object \<Rightarrow> string \<Rightarrow> action" where
  "task_action task nm =
     \<lparr>action_name = nm, destination = text_of (get task ''network_destination''),
      secret_id = text_of (get task ''secret_id''),
      destructive = (get task ''destructive'' = Some (JBool True)),
      requires_network = (get task ''requires_network'' = Some (JBool True))\<rparr>"

text \<open>The part of the check that starts when the three objects are there.\<close>

definition verify_token :: "store \<Rightarrow> json_object \<Rightarrow> string \<Rightarrow> string \<Rightarrow> string \<Rightarrow> object_row \<Rightarrow>
    governance_decision" where
  "verify_token s task nm oid rt tok =
     (if \<not> has_provenance s (object_id tok) ''guardian'' ''CAPABILITY_AUTHORIZATION''
      then refuse ''CAPABILITY_TOKEN_INVALID'' ''guardian_provenance_missing'' (Some oid)
      else case token_of (payload tok) of
        None \<Rightarrow> refuse ''CAPABILITY_TOKEN_INVALID'' ''token_payload_invalid'' (Some oid)
      | Some t \<Rightarrow>
          if token_objective t \<noteq> oid \<or> token_root t \<noteq> rt
          then refuse ''CAPABILITY_TOKEN_INVALID'' ''token_objective_binding_mismatch'' (Some oid)
          else if text_of (get task ''task_id'') \<noteq> Some (task_id t)
          then refuse ''CAPABILITY_TOKEN_INVALID'' ''token_task_binding_mismatch'' (Some oid)
          else if \<not> execution_gate t (task_action task nm)
          then refuse ''CAPABILITY_SCOPE_DENIED'' ''invocation_scope_exceeds_token'' (Some oid)
          else \<lparr>allowed = True, status = ''OBJECTIVE_AUTHORIZED'', reason = ''runtime_gate_passed'',
                governed_objective = Some oid\<rparr>)"

definition verify_objects :: "store \<Rightarrow> json_object \<Rightarrow> string \<Rightarrow> object_row \<Rightarrow> object_row \<Rightarrow> object_row \<Rightarrow>
    governance_decision" where
  "verify_objects s task nm auth ev tok =
     (if kind auth \<noteq> ''authorized_objective''
      then refuse ''OBJECTIVE_CONTEXT_INVALID'' ''wrong_objective_kind'' None
      else if kind ev \<noteq> ''objective_evaluation''
      then refuse ''OBJECTIVE_CONTEXT_INVALID'' ''wrong_evaluation_kind'' None
      else if kind tok \<noteq> ''capability_token''
      then refuse ''OBJECTIVE_CONTEXT_INVALID'' ''wrong_token_kind'' None
      else if \<not> is_obj (payload auth) \<or> \<not> is_obj (payload ev)
      then refuse ''OBJECTIVE_CONTEXT_INVALID'' ''invalid_object_payload'' None
      else
        (case (text_of (field (payload auth) ''objective_id''), text_of (field (payload auth) ''root_objective'')) of
           (Some oid, Some rt) \<Rightarrow>
             (if field (payload auth) ''evaluation_object_id'' \<noteq> Some (JStr (object_id ev))
              then refuse ''OBJECTIVE_CONTEXT_INVALID'' ''objective_evaluation_binding_mismatch'' (Some oid)
              else if field (payload ev) ''objective_id'' \<noteq> Some (JStr oid)
                \<or> field (payload ev) ''decision'' \<noteq> Some (JStr ''EXECUTE'')
                \<or> field (payload ev) ''authorization_verified'' \<noteq> Some (JBool True)
              then refuse ''OBJECTIVE_NOT_AUTHORIZED'' ''evaluation_not_executable'' (Some oid)
              else if \<not> has_provenance s (object_id auth) ''objective_integrity'' ''OWNER_AUTHORIZED''
              then refuse ''OBJECTIVE_NOT_AUTHORIZED'' ''objective_provenance_invalid'' (Some oid)
              else case resolve (current_alias oid) s of
                Inl _ \<Rightarrow> refuse ''OBJECTIVE_NOT_CURRENT'' ''current_objective_alias_missing'' (Some oid)
              | Inr cur \<Rightarrow>
                  if object_id cur \<noteq> object_id auth
                  then refuse ''OBJECTIVE_NOT_CURRENT'' ''authorized_objective_superseded'' (Some oid)
                  else verify_token s task nm oid rt tok)
         | _ \<Rightarrow> refuse ''OBJECTIVE_CONTEXT_INVALID'' ''objective_identity_missing'' None))"

definition verify_runtime_objective_context :: "store \<Rightarrow> json_object \<Rightarrow> string \<Rightarrow> governance_decision" where
  "verify_runtime_objective_context s task nm =
     (case get task ''objective_context'' of
        Some (JObj ctx) \<Rightarrow>
          (case (text_of (get ctx ''authorized_objective_id''), text_of (get ctx ''objective_evaluation_id''),
                 text_of (get ctx ''capability_token_id'')) of
             (Some a, Some e, Some t) \<Rightarrow>
               (case (get_object a s, get_object e s, get_object t s) of
                  (Inr auth, Inr ev, Inr tok) \<Rightarrow> verify_objects s task nm auth ev tok
                | _ \<Rightarrow> refuse ''OBJECTIVE_REFERENCE_NOT_FOUND'' ''canonical_object_missing'' None)
           | _ \<Rightarrow> refuse ''OBJECTIVE_CONTEXT_INVALID'' ''missing_immutable_reference'' None)
      | _ \<Rightarrow> refuse ''OBJECTIVE_CONTEXT_REQUIRED'' ''missing_context'' None)"

end
