(* ===== verification/Governance_Claims.thy ===== *)
theory Governance_Claims
  imports Runtime_Governance Object_Store_Claims
begin

text \<open>
  The authority chain across the object store, the objective registry and the runtime gate: what a
  record does to the store, that delegation never amplifies, and that the gate opens only for
  objectives an owner authorized.
\<close>

section \<open>Evaluation\<close>

lemma executes_iff:
  "decision (evaluate reg p) = EXECUTE \<longleftrightarrow>
     \<not> blank (objective_id p) \<and> \<not> blank (objective_text p) \<and> objective_source p \<in> {OWNER, OWNER_POLICY}
     \<and> root_objective p \<in> set (canonical_roots reg)
     \<and> set (forbidden_capabilities reg) \<inter> set (requested_capabilities p) = {} \<and> verifier reg p"
proof -
  have "sort (remdups (filter (\<lambda>c. c \<in> set (requested_capabilities p)) (forbidden_capabilities reg))) = []
      \<longleftrightarrow> set (forbidden_capabilities reg) \<inter> set (requested_capabilities p) = {}"
    by (subst set_empty [symmetric]) auto
  then show ?thesis by (auto simp: evaluate_def verdict_def Let_def executable_sources_def)
qed

lemma evaluate_frame [simp]:
  "evaluated_objective (evaluate reg p) = objective_id p"
  "authorization_verified (evaluate reg p) \<longleftrightarrow> decision (evaluate reg p) = EXECUTE"
  by (simp_all add: evaluate_def verdict_def Let_def)

section \<open>What a record does to the store\<close>

lemma kinds_clean:
  "strip ''objective_proposal'' = ''objective_proposal''" "strip ''objective_evaluation'' = ''objective_evaluation''"
  "strip ''authorized_objective'' = ''authorized_objective''" "strip ''evaluated_as'' = ''evaluated_as''"
  "strip ''authorizes'' = ''authorizes''"
  by code_simp+

lemma strip_nonspace_ne: "\<not> isspace c \<Longrightarrow> strip (c # s) \<noteq> []"
  using not_blank by (simp add: blank_def)

lemma current_alias_ne: "strip (current_alias i) \<noteq> []"
proof -
  have "\<not> isspace (CHR ''o'')" by code_simp
  then show ?thesis unfolding current_alias_def by (simp add: strip_nonspace_ne)
qed

lemma put_runs:
  assumes "strip k \<noteq> []"
  shows "put_object H clk k p st sr ec t s = (Inr (object_id_of H (strip k) p), run_store H (Put clk k p st sr ec t) s)"
    and "known (object_id_of H (strip k) p) (run_store H (Put clk k p st sr ec t) s)"
proof -
  obtain oid where *: "put_object H clk k p st sr ec t s = (Inr oid, run_store H (Put clk k p st sr ec t) s)"
    using put_outcome [OF assms] by blast
  from * put_known [OF *]
  show "put_object H clk k p st sr ec t s = (Inr (object_id_of H (strip k) p), run_store H (Put clk k p st sr ec t) s)"
    and "known (object_id_of H (strip k) p) (run_store H (Put clk k p st sr ec t) s)" by auto
qed

lemma link_runs:
  "strip rel \<noteq> [] \<Longrightarrow> known a s \<Longrightarrow> known b s \<Longrightarrow> link now a rel b s = (Inr (), run_store H (Link now a rel b) s)"
  by (simp add: link_def Let_def)

lemma point_runs:
  "strip a \<noteq> [] \<Longrightarrow> known i s \<Longrightarrow> point clk a i t s = (Inr (), run_store H (Point clk a i t) s)"
  by (simp add: point_def Let_def)

lemma known_link: "known i s \<Longrightarrow> known i (run_store H (Link now a rel b) s)"
  by (simp add: link_def Let_def known_def)

lemma known_put: "known i s \<Longrightarrow> known i (run_store H (Put clk k p st sr ec t) s)"
  by (auto simp: put_object_def Let_def known_def insert_new_def)

definition proposal_id :: "(string \<Rightarrow> string) \<Rightarrow> proposal \<Rightarrow> string" where
  "proposal_id H p = object_id_of H ''objective_proposal'' (JObj (proposal_dict p))"

definition evaluation_id :: "(string \<Rightarrow> string) \<Rightarrow> registry \<Rightarrow> proposal \<Rightarrow> string" where
  "evaluation_id H reg p = object_id_of H ''objective_evaluation'' (JObj (evaluation_dict (evaluate reg p)))"

definition authorized_id :: "(string \<Rightarrow> string) \<Rightarrow> registry \<Rightarrow> proposal \<Rightarrow> string" where
  "authorized_id H reg p =
     object_id_of H ''authorized_objective'' (JObj (authorized_dict p (evaluation_id H reg p)))"

definition proposal_ops :: "(string \<Rightarrow> string) \<Rightarrow> registry \<Rightarrow> (nat \<Rightarrow> rat) \<Rightarrow> proposal \<Rightarrow> store_op list" where
  "proposal_ops H reg clk p =
     [Put (clk 0) ''objective_proposal'' (JObj (proposal_dict p)) (source_text (objective_source p)) (proposal_ref p)
        (if objective_source p \<notin> set executable_sources then ''UNTRUSTED_PROPOSAL'' else ''OWNER_ASSERTED_PROPOSAL'') None,
      Put (clk 1) ''objective_evaluation'' (JObj (evaluation_dict (evaluate reg p))) ''objective_integrity''
        (proposal_id H p) ''AUTHORIZATION_DECISION'' None,
      Link (clk 2) (proposal_id H p) ''evaluated_as'' (evaluation_id H reg p)]"

definition authorization_ops :: "(string \<Rightarrow> string) \<Rightarrow> registry \<Rightarrow> (nat \<Rightarrow> rat) \<Rightarrow> proposal \<Rightarrow> store_op list" where
  "authorization_ops H reg clk p =
     [Put (clk 3) ''authorized_objective'' (JObj (authorized_dict p (evaluation_id H reg p))) ''objective_integrity''
        (evaluation_id H reg p) ''OWNER_AUTHORIZED'' None,
      Link (clk 4) (evaluation_id H reg p) ''authorizes'' (authorized_id H reg p),
      Point (clk 5) (current_alias (objective_id p)) (authorized_id H reg p) None]"

definition record_ops :: "(string \<Rightarrow> string) \<Rightarrow> registry \<Rightarrow> (nat \<Rightarrow> rat) \<Rightarrow> proposal \<Rightarrow> store_op list" where
  "record_ops H reg clk p = proposal_ops H reg clk p
     @ (if decision (evaluate reg p) = EXECUTE then authorization_ops H reg clk p else [])"

text \<open>A record never raises: it is a fixed sequence of store operations.\<close>

lemma record_runs:
  "record_proposal H reg clk p s =
     (Inr (proposal_id H p, evaluation_id H reg p, evaluate reg p), run_all (run_store H) (record_ops H reg clk p) s)"
proof -
  let ?cls = "if objective_source p \<notin> set executable_sources then ''UNTRUSTED_PROPOSAL'' else ''OWNER_ASSERTED_PROPOSAL''"
  define s1 where "s1 = run_store H (Put (clk 0) ''objective_proposal'' (JObj (proposal_dict p))
    (source_text (objective_source p)) (proposal_ref p) ?cls None) s"
  define s2 where "s2 = run_store H (Put (clk 1) ''objective_evaluation'' (JObj (evaluation_dict (evaluate reg p)))
    ''objective_integrity'' (proposal_id H p) ''AUTHORIZATION_DECISION'' None) s1"
  define s3 where "s3 = run_store H (Link (clk 2) (proposal_id H p) ''evaluated_as'' (evaluation_id H reg p)) s2"
  define s4 where "s4 = run_store H (Put (clk 3) ''authorized_objective'' (JObj (authorized_dict p (evaluation_id H reg p)))
    ''objective_integrity'' (evaluation_id H reg p) ''OWNER_AUTHORIZED'' None) s3"
  define s5 where "s5 = run_store H (Link (clk 4) (evaluation_id H reg p) ''authorizes'' (authorized_id H reg p)) s4"
  have k1: "known (proposal_id H p) s1" and k2: "known (evaluation_id H reg p) s2" and k4: "known (authorized_id H reg p) s4"
    unfolding s1_def s2_def s4_def proposal_id_def evaluation_id_def authorized_id_def
    using put_runs(2) kinds_clean by (metis list.distinct(1))+
  have k1': "known (proposal_id H p) s2" using k1 unfolding s2_def by (rule known_put)
  have k2': "known (evaluation_id H reg p) s4" using k2 unfolding s3_def s4_def by (intro known_put known_link)
  have k4': "known (authorized_id H reg p) s5" using k4 unfolding s5_def by (rule known_link)
  have p1: "put_object H (clk 0) ''objective_proposal'' (JObj (proposal_dict p)) (source_text (objective_source p))
      (proposal_ref p) ?cls None s = (Inr (proposal_id H p), s1)"
    unfolding s1_def proposal_id_def by (subst put_runs(1)) (simp_all add: kinds_clean)
  have p2: "put_object H (clk 1) ''objective_evaluation'' (JObj (evaluation_dict (evaluate reg p)))
      ''objective_integrity'' (proposal_id H p) ''AUTHORIZATION_DECISION'' None s1 = (Inr (evaluation_id H reg p), s2)"
    unfolding s2_def evaluation_id_def by (subst put_runs(1)) (simp_all add: kinds_clean)
  have p3: "link (clk 2) (proposal_id H p) ''evaluated_as'' (evaluation_id H reg p) s2 = (Inr (), s3)"
    unfolding s3_def by (rule link_runs [OF _ k1' k2]) (simp add: kinds_clean)
  have p4: "put_object H (clk 3) ''authorized_objective'' (JObj (authorized_dict p (evaluation_id H reg p)))
      ''objective_integrity'' (evaluation_id H reg p) ''OWNER_AUTHORIZED'' None s3 = (Inr (authorized_id H reg p), s4)"
    unfolding s4_def authorized_id_def by (subst put_runs(1)) (simp_all add: kinds_clean)
  have p5: "link (clk 4) (evaluation_id H reg p) ''authorizes'' (authorized_id H reg p) s4 = (Inr (), s5)"
    unfolding s5_def by (rule link_runs [OF _ k2' k4]) (simp add: kinds_clean)
  have p6: "point (clk 5) (current_alias (objective_id p)) (authorized_id H reg p) None s5
      = (Inr (), run_store H (Point (clk 5) (current_alias (objective_id p)) (authorized_id H reg p) None) s5)"
    by (rule point_runs [OF current_alias_ne k4'])
  have "run_all (run_store H) (proposal_ops H reg clk p) s = s3"
    by (simp only: proposal_ops_def run_all_simps s1_def s2_def s3_def)
  moreover have "run_all (run_store H) (authorization_ops H reg clk p) s3
      = run_store H (Point (clk 5) (current_alias (objective_id p)) (authorized_id H reg p) None) s5"
    by (simp only: authorization_ops_def run_all_simps s4_def s5_def)
  ultimately show ?thesis
    unfolding record_proposal_def Let_def
    by (simp only: p1 p2 p3 p4 p5 p6 and_then_def prod.case sum.case record_ops_def run_all_append split: if_split)
       simp
qed

section \<open>Runs of the store and the registry\<close>

datatype gov_op = Store_Op store_op | Record "nat \<Rightarrow> rat" proposal

fun run_gov :: "(string \<Rightarrow> string) \<Rightarrow> registry \<Rightarrow> gov_op \<Rightarrow> store \<Rightarrow> store" where
  "run_gov H reg (Store_Op op) s = run_store H op s"
| "run_gov H reg (Record clk p) s = snd (record_proposal H reg clk p s)"

text \<open>The operations that write under the provenance of the registry's authorizations.\<close>

fun writes_as :: "string \<Rightarrow> string \<Rightarrow> store_op \<Rightarrow> bool" where
  "writes_as st ec (Put _ _ _ st' _ ec' _) = (st' = st \<and> ec' = ec)"
| "writes_as st ec (Ingest _ _ _ st' _ ec' _) = (st' = st \<and> ec' = ec)"
| "writes_as st ec _ = False"

fun forges :: "gov_op \<Rightarrow> bool" where
  "forges (Store_Op op) = writes_as ''objective_integrity'' ''OWNER_AUTHORIZED'' op"
| "forges (Record _ _) = False"

definition authorizing :: "provenance_row \<Rightarrow> bool" where
  "authorizing v \<longleftrightarrow> source_type v = ''objective_integrity'' \<and> evidence_class v = ''OWNER_AUTHORIZED''"

lemma put_provenance:
  "v \<in> set (provenances (snd (put_object H clk k p st sr ec t s))) \<Longrightarrow> v \<notin> set (provenances s) \<Longrightarrow>
    source_type v = st \<and> evidence_class v = ec \<and> prov_object v = object_id_of H (strip k) p"
  by (auto simp: put_object_def Let_def insert_new_def split: if_splits)

lemma ingest_provenance:
  "v \<in> set (provenances (snd (ingest_many H clk k rs st sr ec t s))) \<Longrightarrow> v \<notin> set (provenances s) \<Longrightarrow>
    source_type v = st \<and> evidence_class v = ec \<and> (\<exists>r\<in>set rs. prov_object v = object_id_of H (strip k) r)"
proof (induction rs arbitrary: s clk)
  case (Cons r rs)
  obtain e s' where p: "put_object H (clk 0) k r st sr ec t s = (e, s')" by fastforce
  have "snd (ingest_many H clk k (r # rs) st sr ec t s) = s'
      \<or> snd (ingest_many H clk k (r # rs) st sr ec t s) = snd (ingest_many H (\<lambda>i. clk (Suc i)) k rs st sr ec t s')"
    by (simp add: p split: sum.split prod.split)
  then show ?case
    using Cons put_provenance [of v H "clk 0" k r st sr ec t s] p by (metis list.set_intros snd_conv)
qed simp

text \<open>The operations that store the object under the given provenance.\<close>

fun puts_object :: "(string \<Rightarrow> string) \<Rightarrow> string \<Rightarrow> string \<Rightarrow> string \<Rightarrow> store_op \<Rightarrow> bool" where
  "puts_object H oid st ec (Put _ k p st' _ ec' _) = (st' = st \<and> ec' = ec \<and> oid = object_id_of H (strip k) p)"
| "puts_object H oid st ec (Ingest _ k rs st' _ ec' _) = (st' = st \<and> ec' = ec \<and> (\<exists>r\<in>set rs. oid = object_id_of H (strip k) r))"
| "puts_object H oid st ec _ = False"

text \<open>A row of provenance was written by an operation that stored its object.\<close>

lemma provenance_origin:
  assumes "v \<in> set (provenances (run_store H op s))" "v \<notin> set (provenances s)"
  shows "puts_object H (prov_object v) (source_type v) (evidence_class v) op"
proof (cases op)
  case (Put clk k p st sr ec t)
  then show ?thesis using assms put_provenance [of v H clk k p st sr ec t s] by auto
next
  case (Ingest clk k rs st sr ec t)
  then show ?thesis using assms ingest_provenance [of v H clk k rs st sr ec t s] by auto
next
  case (Link now a rel b)
  then show ?thesis using assms by (simp add: link_def Let_def split: if_splits)
next
  case (LinkTyped now a ak rel b bk)
  then show ?thesis using assms by (simp add: link_typed_def link_def Let_def split: if_splits sum.splits)
next
  case (Point clk a i t)
  then show ?thesis using assms by (simp add: point_def Let_def split: if_splits)
next
  case (PointIfCurrent clk a e i t)
  then show ?thesis using assms by (simp add: point_if_current_def Let_def split: if_splits option.splits)
qed

lemma provenance_origin_run:
  "v \<in> set (provenances (run_all (run_store H) ops s)) \<Longrightarrow> v \<notin> set (provenances s) \<Longrightarrow>
    \<exists>op\<in>set ops. puts_object H (prov_object v) (source_type v) (evidence_class v) op"
proof (induction ops arbitrary: s)
  case (Cons op ops)
  show ?case
  proof (cases "v \<in> set (provenances (run_store H op s))")
    case True
    then show ?thesis using provenance_origin [OF True Cons.prems(2)] by auto
  next
    case False
    then show ?thesis using Cons.IH [OF _ False] Cons.prems(1) by auto
  qed
qed simp

text \<open>The registry writes no capability authorization, so each one was put into the store from outside it.\<close>

lemma capability_origin:
  assumes "v \<in> set (provenances (run_all (run_gov H reg) ops s))" "v \<notin> set (provenances s)"
    and "evidence_class v = ''CAPABILITY_AUTHORIZATION''"
  shows "\<exists>op. Store_Op op \<in> set ops \<and> puts_object H (prov_object v) (source_type v) ''CAPABILITY_AUTHORIZATION'' op"
  using assms(1,2)
proof (induction ops arbitrary: s)
  case (Cons op ops)
  show ?case
  proof (cases "v \<in> set (provenances (run_gov H reg op s))")
    case False
    then show ?thesis using Cons.IH [OF _ False] Cons.prems(1) by auto
  next
    case True
    show ?thesis
    proof (cases op)
      case (Store_Op sop)
      then show ?thesis using provenance_origin [of v H sop s] True Cons.prems(2) assms(3) by auto
    next
      case (Record clk p)
      then have "\<exists>op\<in>set (record_ops H reg clk p). puts_object H (prov_object v) (source_type v) ''CAPABILITY_AUTHORIZATION'' op"
        using provenance_origin_run [of v H "record_ops H reg clk p" s] True Cons.prems(2) assms(3) by (simp add: record_runs)
      then have False by (auto simp: record_ops_def proposal_ops_def authorization_ops_def split: if_splits)
      then show ?thesis ..
    qed
  qed
qed simp

text \<open>An operation that does not write as the registry adds no authorization.\<close>

lemma plain_provenance:
  assumes "\<not> writes_as ''objective_integrity'' ''OWNER_AUTHORIZED'' op"
    and "v \<in> set (provenances (run_store H op s))" "authorizing v"
  shows "v \<in> set (provenances s)"
proof (cases op)
  case (Put clk k p st sr ec t)
  then show ?thesis using assms put_provenance [of v H clk k p st sr ec t s] by (auto simp: authorizing_def)
next
  case (Ingest clk k rs st sr ec t)
  then show ?thesis using assms ingest_provenance [of v H clk k rs st sr ec t s] by (auto simp: authorizing_def)
next
  case (Link now a rel b)
  then show ?thesis using assms(2) by (simp add: link_def Let_def split: if_splits)
next
  case (LinkTyped now a ak rel b bk)
  then show ?thesis using assms(2)
    by (simp add: link_typed_def link_def Let_def split: if_splits sum.splits)
next
  case (Point clk a i t)
  then show ?thesis using assms(2) by (simp add: point_def Let_def split: if_splits)
next
  case (PointIfCurrent clk a e i t)
  then show ?thesis using assms(2) by (simp add: point_if_current_def Let_def split: if_splits option.splits)
qed

lemma plain_run:
  assumes "\<forall>op\<in>set ops. \<not> writes_as ''objective_integrity'' ''OWNER_AUTHORIZED'' op"
    and "v \<in> set (provenances (run_all (run_store H) ops s))" "authorizing v"
  shows "v \<in> set (provenances s)"
  using assms by (induction ops arbitrary: s) (auto dest: plain_provenance)

text \<open>A record adds at most the authorization of its own proposal, after an EXECUTE.\<close>

lemma record_provenance:
  assumes "v \<in> set (provenances (snd (record_proposal H reg clk p s)))" "authorizing v"
  shows "v \<in> set (provenances s) \<or> decision (evaluate reg p) = EXECUTE \<and> prov_object v = authorized_id H reg p"
proof -
  define t where "t = run_all (run_store H) (proposal_ops H reg clk p) s"
  have first: "v \<in> set (provenances t) \<Longrightarrow> v \<in> set (provenances s)"
    unfolding t_def by (rule plain_run [OF _ _ assms(2), where ops = "proposal_ops H reg clk p"])
      (simp_all add: proposal_ops_def)
  show ?thesis
  proof (cases "decision (evaluate reg p) = EXECUTE")
    case False
    then show ?thesis using assms(1) first by (simp add: record_runs record_ops_def t_def)
  next
    case True
    let ?put = "Put (clk 3) ''authorized_objective'' (JObj (authorized_dict p (evaluation_id H reg p)))
      ''objective_integrity'' (evaluation_id H reg p) ''OWNER_AUTHORIZED'' None"
    have "v \<in> set (provenances (run_all (run_store H) (tl (authorization_ops H reg clk p)) (run_store H ?put t)))"
      using assms(1) True by (simp add: record_runs record_ops_def run_all_append t_def authorization_ops_def)
    then have "v \<in> set (provenances (run_store H ?put t))"
      by (rule plain_run [OF _ _ assms(2), rotated]) (simp add: authorization_ops_def)
    then show ?thesis
      using first True put_provenance [of v H "clk 3" "''authorized_objective''"
          "JObj (authorized_dict p (evaluation_id H reg p))" "''objective_integrity''" "evaluation_id H reg p"
          "''OWNER_AUTHORIZED''" None t]
      by (auto simp: authorized_id_def kinds_clean)
  qed
qed

definition gov_inv :: "(string \<Rightarrow> string) \<Rightarrow> registry \<Rightarrow> proposal set \<Rightarrow> store \<Rightarrow> bool" where
  "gov_inv H reg recorded s \<longleftrightarrow> store_inv H s
     \<and> (\<forall>v\<in>set (provenances s). authorizing v \<longrightarrow>
          (\<exists>p\<in>recorded. decision (evaluate reg p) = EXECUTE \<and> prov_object v = authorized_id H reg p))"

definition recorded :: "gov_op list \<Rightarrow> proposal set" where
  "recorded ops = {p. \<exists>clk. Record clk p \<in> set ops}"

lemma run_gov_inv:
  assumes inv: "gov_inv H reg R s" and op: "\<not> forges op" "recorded [op] \<subseteq> R"
  shows "gov_inv H reg R (run_gov H reg op s)"
proof (cases op)
  case (Store_Op sop)
  have "store_inv H (run_store H sop s)" using run_store_good inv unfolding good_def gov_inv_def by blast
  moreover have "v \<in> set (provenances s)" if "v \<in> set (provenances (run_store H sop s))" "authorizing v" for v
    using plain_provenance [OF _ that] op Store_Op by simp
  ultimately show ?thesis using inv unfolding gov_inv_def Store_Op run_gov.simps by blast
next
  case (Record clk p)
  have "store_inv H (snd (record_proposal H reg clk p s))"
    unfolding record_runs using store.run_all_inv inv by (simp add: gov_inv_def)
  moreover have "p \<in> R" using op(2) Record by (auto simp: recorded_def)
  ultimately show ?thesis
    using inv record_provenance [of _ H reg clk p s] unfolding gov_inv_def Record run_gov.simps by blast
qed

lemma run_all_gov_inv:
  assumes "gov_inv H reg R s" "\<forall>op\<in>set ops. \<not> forges op" "recorded ops \<subseteq> R"
  shows "gov_inv H reg R (run_all (run_gov H reg) ops s)"
  using assms
proof (induction ops arbitrary: s)
  case (Cons op ops)
  have "recorded [op] \<subseteq> R" "recorded ops \<subseteq> R" using Cons.prems(3) by (auto simp: recorded_def)
  then show ?case using Cons.IH [OF run_gov_inv [OF Cons.prems(1)]] Cons.prems(2) by simp
qed simp

lemma reached_gov_inv:
  assumes "\<forall>op\<in>set ops. \<not> forges op"
  shows "gov_inv H reg (recorded ops) (run_all (run_gov H reg) ops empty_store)"
  by (rule run_all_gov_inv [OF _ assms order_refl]) (simp add: gov_inv_def empty_store_inv, simp add: empty_store_def)

section \<open>The gate\<close>

lemma refuse_not_allowed [simp]: "\<not> allowed (refuse st why oid)"
  by (simp add: refuse_def)

lemma verify_token_allowed:
  assumes "allowed (verify_token s task nm oid rt tok)"
  shows "governed_objective (verify_token s task nm oid rt tok) = Some oid
    \<and> (\<exists>t. token_of (payload tok) = Some t \<and> token_objective t = oid \<and> token_root t = rt
        \<and> text_of (get task ''task_id'') = Some (task_id t) \<and> execution_gate t (task_action task nm)
        \<and> has_provenance s (object_id tok) ''guardian'' ''CAPABILITY_AUTHORIZATION'')"
  using assms by (auto simp: verify_token_def split: if_splits option.splits)

lemma text_of_nonblank: "text_of v = Some x \<Longrightarrow> \<not> blank x"
  by (cases v rule: text_of.cases) (auto split: if_splits)

text \<open>The evaluation of an objective as the gate wants it.\<close>

definition executable_evaluation :: "string \<Rightarrow> object_row \<Rightarrow> bool" where
  "executable_evaluation oid ev \<longleftrightarrow> kind ev = ''objective_evaluation'' \<and> field (payload ev) ''objective_id'' = Some (JStr oid)
     \<and> field (payload ev) ''decision'' = Some (JStr ''EXECUTE'') \<and> field (payload ev) ''authorization_verified'' = Some (JBool True)"

lemma verify_objects_allowed:
  assumes a: "allowed (verify_objects s task nm auth ev tok)"
  shows "\<exists>oid rt cur. verify_objects s task nm auth ev tok = verify_token s task nm oid rt tok
    \<and> kind auth = ''authorized_objective'' \<and> text_of (field (payload auth) ''objective_id'') = Some oid
    \<and> text_of (field (payload auth) ''root_objective'') = Some rt
    \<and> field (payload auth) ''evaluation_object_id'' = Some (JStr (object_id ev))
    \<and> executable_evaluation oid ev \<and> kind tok = ''capability_token''
    \<and> has_provenance s (object_id auth) ''objective_integrity'' ''OWNER_AUTHORIZED''
    \<and> resolve (current_alias oid) s = Inr cur \<and> object_id cur = object_id auth"
proof (cases "text_of (field (payload auth) ''objective_id'')")
  case None
  then show ?thesis using a by (simp add: verify_objects_def split: if_splits)
next
  case oid: (Some oid)
  show ?thesis
  proof (cases "text_of (field (payload auth) ''root_objective'')")
    case None
    then show ?thesis using a oid by (simp add: verify_objects_def split: if_splits)
  next
    case rt: (Some rt)
    show ?thesis
    proof (cases "resolve (current_alias oid) s")
      case (Inl e)
      then show ?thesis using a oid rt by (simp add: verify_objects_def split: if_splits)
    next
      case (Inr cur)
      then show ?thesis using a oid rt by (simp add: verify_objects_def executable_evaluation_def split: if_splits)
    qed
  qed
qed

lemma text_of_Some: "text_of v = Some x \<Longrightarrow> v = Some (JStr x)"
  by (cases v rule: text_of.cases) (auto split: if_splits)

lemma verify_context_allowed:
  assumes a: "allowed (verify_runtime_objective_context s task nm)"
  shows "\<exists>ctx a e t auth ev tok. get task ''objective_context'' = Some (JObj ctx)
    \<and> get ctx ''authorized_objective_id'' = Some (JStr a) \<and> get ctx ''objective_evaluation_id'' = Some (JStr e)
    \<and> get ctx ''capability_token_id'' = Some (JStr t)
    \<and> get_object a s = Inr auth \<and> get_object e s = Inr ev \<and> get_object t s = Inr tok
    \<and> verify_runtime_objective_context s task nm = verify_objects s task nm auth ev tok"
proof -
  note d = verify_runtime_objective_context_def
  obtain ctx where ctx: "get task ''objective_context'' = Some (JObj ctx)"
    using a by (auto simp: d split: option.splits json.splits)
  obtain x where x: "text_of (get ctx ''authorized_objective_id'') = Some x"
    using a by (auto simp: d ctx split: option.splits)
  obtain y where y: "text_of (get ctx ''objective_evaluation_id'') = Some y"
    using a by (auto simp: d ctx x split: option.splits)
  obtain z where z: "text_of (get ctx ''capability_token_id'') = Some z"
    using a by (auto simp: d ctx x y split: option.splits)
  obtain auth where auth: "get_object x s = Inr auth"
    using a by (cases "get_object x s") (auto simp: d ctx x y z)
  obtain ev where ev: "get_object y s = Inr ev"
    using a by (cases "get_object y s") (auto simp: d ctx x y z auth)
  obtain tok where tok: "get_object z s = Inr tok"
    using a by (cases "get_object z s") (auto simp: d ctx x y z auth ev)
  have "verify_runtime_objective_context s task nm = verify_objects s task nm auth ev tok"
    by (simp add: d ctx x y z auth ev tok)
  with ctx auth ev tok text_of_Some [OF x] text_of_Some [OF y] text_of_Some [OF z] show ?thesis by blast
qed

lemma get_object_SomeD: "get_object a s = Inr r \<Longrightarrow> r \<in> set (objects s) \<and> object_id r = a"
  by (auto simp: get_object_def dest: select_one_SomeD split: option.splits)

section \<open>Objects and their digests\<close>

text \<open>Two envelopes with different texts and the same digest.\<close>

definition envelope_collision :: "(string \<Rightarrow> string) \<Rightarrow> bool" where
  "envelope_collision H \<longleftrightarrow> (\<exists>k p k' p'. dumps compact (envelope k p) \<noteq> dumps compact (envelope k' p')
     \<and> object_id_of H k p = object_id_of H k' p')"

lemma field_sort_keys:
  "distinct (map fst d) \<Longrightarrow> field (sort_keys (JObj d)) k = map_option sort_keys (get d k)"
proof -
  assume d: "distinct (map fst d)"
  have "map_of (sort_key fst (map (map_prod id sort_keys) d)) k = map_of (map (map_prod id sort_keys) d) k"
    using d by (simp add: map_of_sort_key)
  also have "\<dots> = map_option sort_keys (map_of d k)" by (induction d) auto
  finally show ?thesis by (simp add: get_def)
qed

lemma object_content:
  assumes "store_inv H s" "get_object i s = Inr r" "i = object_id_of H k p"
  shows "envelope_collision H \<or> kind r = k \<and> payload r = sort_keys p"
proof -
  have r: "object_ok H r" "object_id r = i"
    using assms(1) get_object_SomeD [OF assms(2)] unfolding store_inv_def by blast+
  then have e: "object_id_of H (kind r) (payload r) = object_id_of H k p"
    using assms(3) unfolding object_ok_def by metis
  show ?thesis
  proof (cases "dumps compact (envelope (kind r) (payload r)) = dumps compact (envelope k p)")
    case True
    then show ?thesis using r(1) envelope_text unfolding object_ok_def by metis
  next
    case False
    then show ?thesis using e unfolding envelope_collision_def by blast
  qed
qed

lemma authorized_fields:
  "field (sort_keys (JObj (authorized_dict p i))) ''objective_id'' = Some (JStr (objective_id p))"
  "field (sort_keys (JObj (authorized_dict p i))) ''root_objective'' = Some (JStr (root_objective p))"
  "field (sort_keys (JObj (authorized_dict p i))) ''evaluation_object_id'' = Some (JStr i)"
proof -
  have d: "distinct (map fst (authorized_dict p i))" by (simp add: authorized_dict_def proposal_dict_def)
  show "field (sort_keys (JObj (authorized_dict p i))) ''objective_id'' = Some (JStr (objective_id p))"
    "field (sort_keys (JObj (authorized_dict p i))) ''root_objective'' = Some (JStr (root_objective p))"
    "field (sort_keys (JObj (authorized_dict p i))) ''evaluation_object_id'' = Some (JStr i)"
    unfolding field_sort_keys [OF d] by (simp_all add: authorized_dict_def proposal_dict_def get_def)
qed

lemma evaluation_fields:
  "field (sort_keys (JObj (evaluation_dict e))) ''objective_id'' = Some (JStr (evaluated_objective e))"
  "field (sort_keys (JObj (evaluation_dict e))) ''decision'' = Some (JStr (decision_text (decision e)))"
  "field (sort_keys (JObj (evaluation_dict e))) ''authorization_verified'' = Some (JBool (authorization_verified e))"
proof -
  have d: "distinct (map fst (evaluation_dict e))" by (simp add: evaluation_dict_def)
  show "field (sort_keys (JObj (evaluation_dict e))) ''objective_id'' = Some (JStr (evaluated_objective e))"
    "field (sort_keys (JObj (evaluation_dict e))) ''decision'' = Some (JStr (decision_text (decision e)))"
    "field (sort_keys (JObj (evaluation_dict e))) ''authorization_verified'' = Some (JBool (authorization_verified e))"
    unfolding field_sort_keys [OF d] by (simp_all add: evaluation_dict_def get_def)
qed

text \<open>The same, with the two texts: what a stored object is when its id is the digest of a given envelope.\<close>

lemma object_text:
  assumes "store_inv H s" "get_object (object_id_of H k p) s = Inr r"
  shows "kind r = k \<and> payload r = sort_keys p
    \<or> (let a = dumps compact (envelope (kind r) (payload r)); b = dumps compact (envelope k p) in a \<noteq> b \<and> H a = H b)"
proof -
  have r: "object_ok H r" "object_id r = object_id_of H k p"
    using assms(1) get_object_SomeD [OF assms(2)] unfolding store_inv_def by blast+
  then have "H (dumps compact (envelope (kind r) (payload r))) = H (dumps compact (envelope k p))"
    unfolding object_ok_def object_id_of_def canonical_sha256_def by metis
  then show ?thesis using r(1) envelope_text [of "kind r" "payload r" k p] unfolding object_ok_def Let_def by metis
qed

text \<open>A stored object collides with the authorization of a recorded proposal.\<close>

definition authorization_collision :: "(string \<Rightarrow> string) \<Rightarrow> registry \<Rightarrow> proposal set \<Rightarrow> store \<Rightarrow> bool" where
  "authorization_collision H reg R s \<longleftrightarrow> (\<exists>p\<in>R. \<exists>r. get_object (authorized_id H reg p) s = Inr r
     \<and> (let a = dumps compact (envelope (kind r) (payload r));
            b = dumps compact (envelope ''authorized_objective'' (JObj (authorized_dict p (evaluation_id H reg p))))
        in a \<noteq> b \<and> H a = H b))"

text \<open>What an action may do under a token.\<close>

definition permitted :: "capability_token \<Rightarrow> action \<Rightarrow> bool" where
  "permitted t a \<longleftrightarrow> action_name a \<in> set (allowed_actions t) \<and> (destructive a \<longrightarrow> destructive_actions t)
     \<and> (requires_network a \<longrightarrow> (\<exists>d\<in>set (network_scope t). destination a = Some d \<and> d \<noteq> []))
     \<and> (\<forall>x. secret_id a = Some x \<and> x \<noteq> [] \<longrightarrow> x \<in> set (allowed_secrets t))"

lemma execution_gate_permitted: "execution_gate t a \<longleftrightarrow> permitted t a"
  by (cases "destination a"; cases "secret_id a") (auto simp: execution_gate_def permitted_def truthy_opt_def)

text \<open>The three objects that the task names.\<close>

definition names_objects :: "json_object \<Rightarrow> string \<Rightarrow> string \<Rightarrow> string \<Rightarrow> bool" where
  "names_objects task a e t \<longleftrightarrow> (\<exists>ctx. get task ''objective_context'' = Some (JObj ctx)
     \<and> get ctx ''authorized_objective_id'' = Some (JStr a) \<and> get ctx ''objective_evaluation_id'' = Some (JStr e)
     \<and> get ctx ''capability_token_id'' = Some (JStr t))"

text \<open>What stands behind an open gate.\<close>

lemma gate_opened:
  assumes inv: "gov_inv H reg R s" and gate: "allowed (verify_runtime_objective_context s task nm)"
  shows "authorization_collision H reg R s \<or> (\<exists>p\<in>R. \<exists>ev tid tok t. decision (evaluate reg p) = EXECUTE
    \<and> governed_objective (verify_runtime_objective_context s task nm) = Some (objective_id p)
    \<and> names_objects task (authorized_id H reg p) (evaluation_id H reg p) tid
    \<and> current_target (current_alias (objective_id p)) s = Some (authorized_id H reg p)
    \<and> get_object (evaluation_id H reg p) s = Inr ev \<and> executable_evaluation (objective_id p) ev
    \<and> get_object tid s = Inr tok \<and> kind tok = ''capability_token'' \<and> token_of (payload tok) = Some t
    \<and> has_provenance s tid ''guardian'' ''CAPABILITY_AUTHORIZATION''
    \<and> token_objective t = objective_id p \<and> token_root t = root_objective p
    \<and> get task ''task_id'' = Some (JStr (task_id t)) \<and> permitted t (task_action task nm))"
proof -
  let ?d = "verify_runtime_objective_context s task nm"
  have si: "store_inv H s" using inv by (simp add: gov_inv_def)
  obtain ctx a e tid auth ev tok where ctx: "get task ''objective_context'' = Some (JObj ctx)"
      "get ctx ''authorized_objective_id'' = Some (JStr a)" "get ctx ''objective_evaluation_id'' = Some (JStr e)"
      "get ctx ''capability_token_id'' = Some (JStr tid)"
    and auth: "get_object a s = Inr auth" and ev: "get_object e s = Inr ev" and tok: "get_object tid s = Inr tok"
    and d: "?d = verify_objects s task nm auth ev tok"
    using verify_context_allowed [OF gate] by blast
  obtain i rt cur where v: "?d = verify_token s task nm i rt tok"
    and i: "text_of (field (payload auth) ''objective_id'') = Some i"
    and rt: "text_of (field (payload auth) ''root_objective'') = Some rt"
    and eid: "field (payload auth) ''evaluation_object_id'' = Some (JStr (object_id ev))"
    and exec: "executable_evaluation i ev" and ktok: "kind tok = ''capability_token''"
    and prov: "has_provenance s (object_id auth) ''objective_integrity'' ''OWNER_AUTHORIZED''"
    and cur: "resolve (current_alias i) s = Inr cur" "object_id cur = object_id auth"
    using verify_objects_allowed [of s task nm auth ev tok] gate unfolding d by metis
  obtain t where g: "governed_objective ?d = Some i" and t: "token_of (payload tok) = Some t" "token_objective t = i" "token_root t = rt"
      "text_of (get task ''task_id'') = Some (task_id t)" "execution_gate t (task_action task nm)"
      "has_provenance s (object_id tok) ''guardian'' ''CAPABILITY_AUTHORIZATION''"
    using verify_token_allowed [of s task nm i rt tok] gate unfolding v by metis
  obtain w where "w \<in> set (provenances s)" "authorizing w" "prov_object w = object_id auth"
    using prov unfolding has_provenance_def provenance_def authorizing_def by auto
  then obtain p where p: "p \<in> R" "decision (evaluate reg p) = EXECUTE" "object_id auth = authorized_id H reg p"
    using inv unfolding gov_inv_def by metis
  have a: "a = authorized_id H reg p" using get_object_SomeD [OF auth] p by simp
  consider (coll) "authorization_collision H reg R s"
    | (same) "payload auth = sort_keys (JObj (authorized_dict p (evaluation_id H reg p)))"
    using object_text [OF si auth [unfolded a authorized_id_def]] auth [unfolded a] p(1) unfolding authorization_collision_def by blast
  then show ?thesis
  proof cases
    case same
    have "i = objective_id p" "rt = root_objective p" "object_id ev = evaluation_id H reg p"
      using text_of_Some [OF i] text_of_Some [OF rt] eid unfolding same
      by (simp_all only: authorized_fields option.inject json.inject)
    moreover have "current_target (current_alias i) s = Some (object_id cur)"
      using cur(1) get_object_SomeD unfolding resolve_def by (fastforce split: option.splits)
    moreover have "e = object_id ev" "tid = object_id tok" using get_object_SomeD [OF ev] get_object_SomeD [OF tok] by simp_all
    ultimately show ?thesis
      using p t g cur(2) ctx a ev tok exec ktok text_of_Some [OF t(4)] unfolding names_objects_def execution_gate_permitted by metis
  qed blast
qed

lemma gate_chain:
  assumes inv: "gov_inv H reg R s" and gate: "allowed (verify_runtime_objective_context s task nm)"
    and nc: "\<not> envelope_collision H"
  shows "\<exists>p\<in>R. \<exists>t. decision (evaluate reg p) = EXECUTE
    \<and> governed_objective (verify_runtime_objective_context s task nm) = Some (objective_id p)
    \<and> current_target (current_alias (objective_id p)) s = Some (authorized_id H reg p)
    \<and> token_objective t = objective_id p \<and> token_root t = root_objective p
    \<and> text_of (get task ''task_id'') = Some (task_id t) \<and> execution_gate t (task_action task nm)"
proof -
  have "\<not> authorization_collision H reg R s"
    using nc unfolding authorization_collision_def envelope_collision_def object_id_of_def canonical_sha256_def Let_def by blast
  moreover have "text_of (get task ''task_id'') = Some (task_id t)"
    if "get task ''task_id'' = Some (JStr (task_id t))" "token_of x = Some t" for t x
    using that by (cases x) (auto split: option.splits json.splits dest!: text_of_nonblank)
  ultimately show ?thesis using gate_opened [OF inv gate] unfolding execution_gate_permitted by blast
qed

section \<open>Properties\<close>

text \<open>
  C14. The authority chain: whatever is stored and recorded, as long as nobody but the registry writes under the
  provenance of its authorizations, the runtime gate opens a task only when the three objects the task names are
  what they must be. The first is the authorization of an objective that was recorded with the verified
  authorization of an owner, under a canonical root and without a forbidden capability, and it is the current one of
  its name. The second is the evaluation of this very proposal, with the decision EXECUTE. The third is a stored
  capability token that some operation of the run put there as the guardian, with the class of a capability
  authorization; it is bound to this objective, this root and this task, and the action is inside it. Otherwise a
  stored object and the authorization of a recorded proposal are two different texts of the same digest.
\<close>

theorem runtime_gate_needs_owner:
  fixes H reg ops task nm
  defines "s \<equiv> run_all (run_gov H reg) ops empty_store"
  assumes honest: "\<forall>op\<in>set ops. \<not> forges op"
    and gate: "allowed (verify_runtime_objective_context s task nm)"
  shows "(\<exists>p ev tid tok t. (\<exists>clk. Record clk p \<in> set ops)
      \<and> governed_objective (verify_runtime_objective_context s task nm) = Some (objective_id p)
      \<and> objective_source p \<in> {OWNER, OWNER_POLICY} \<and> root_objective p \<in> set (canonical_roots reg)
      \<and> set (forbidden_capabilities reg) \<inter> set (requested_capabilities p) = {} \<and> verifier reg p
      \<and> names_objects task (authorized_id H reg p) (evaluation_id H reg p) tid
      \<and> current_target (current_alias (objective_id p)) s = Some (authorized_id H reg p)
      \<and> get_object (evaluation_id H reg p) s = Inr ev \<and> executable_evaluation (objective_id p) ev
      \<and> get_object tid s = Inr tok \<and> kind tok = ''capability_token'' \<and> token_of (payload tok) = Some t
      \<and> (\<exists>op. Store_Op op \<in> set ops \<and> puts_object H tid ''guardian'' ''CAPABILITY_AUTHORIZATION'' op)
      \<and> token_objective t = objective_id p \<and> token_root t = root_objective p
      \<and> get task ''task_id'' = Some (JStr (task_id t)) \<and> permitted t (task_action task nm))
    \<or> authorization_collision H reg (recorded ops) s"
proof -
  have "gov_inv H reg (recorded ops) s" unfolding s_def by (rule reached_gov_inv [OF honest])
  note opened = gate_opened [OF this gate]
  have origin: "\<exists>op. Store_Op op \<in> set ops \<and> puts_object H tid ''guardian'' ''CAPABILITY_AUTHORIZATION'' op"
    if g: "has_provenance s tid ''guardian'' ''CAPABILITY_AUTHORIZATION''" for tid
  proof -
    obtain v where "v \<in> set (provenances s)" "prov_object v = tid" "source_type v = ''guardian''"
        "evidence_class v = ''CAPABILITY_AUTHORIZATION''"
      using g unfolding has_provenance_def provenance_def by auto
    then show ?thesis using capability_origin [of v H reg ops empty_store] unfolding s_def by (auto simp: empty_store_def)
  qed
  show ?thesis using opened unfolding executes_iff recorded_def using origin by blast
qed

lemma delegated_gate:
  assumes "child_capabilities_valid parent child" "execution_gate child a" shows "execution_gate parent a"
  using assms unfolding child_capabilities_valid_def execution_gate_def by (auto split: if_splits)

text \<open>
  C15. Delegation never amplifies: along any chain of valid delegations, an action the last token
  lets through was let through by every token before it, and the chain stays with one objective and
  one root.
\<close>

theorem delegation_never_amplifies:
  assumes "\<forall>i. Suc i < length ts \<longrightarrow> child_capabilities_valid (ts ! i) (ts ! Suc i)"
    and "i \<le> j" "j < length ts" "execution_gate (ts ! j) a"
  shows "execution_gate (ts ! i) a \<and> token_objective (ts ! j) = token_objective (ts ! i)
    \<and> token_root (ts ! j) = token_root (ts ! i)"
  using assms(2-4)
proof (induction j rule: dec_induct)
  case (step j)
  then have c: "child_capabilities_valid (ts ! j) (ts ! Suc j)" using assms(1) by blast
  then have "execution_gate (ts ! j) a" using delegated_gate step.prems by blast
  then show ?case using step.IH step.prems c by (simp add: child_capabilities_valid_def)
qed simp

section \<open>The gate opens\<close>

lemma run_gov_good: "store_inv H s \<Longrightarrow> store_inv H (run_gov H reg op s) \<and> grows s (run_gov H reg op s)"
proof (cases op)
  case (Store_Op sop)
  then show "store_inv H s \<Longrightarrow> ?thesis" using run_store_good unfolding good_def by simp
next
  case (Record clk p)
  then show "store_inv H s \<Longrightarrow> ?thesis" by (simp add: record_runs store.run_all_inv store.run_all_older)
qed

interpretation gov: evolving_machine "run_gov H reg" empty_store "store_inv H" grows for H reg
  using run_gov_good by unfold_locales (auto simp: empty_store_inv intro: grows_trans)

lemma after_op:
  assumes "op \<in> set ops"
  shows "\<exists>s0. store_inv H s0 \<and> grows (run_gov H reg op s0) (run_all (run_gov H reg) ops empty_store)"
proof -
  obtain xs ys where ops: "ops = xs @ op # ys" using assms split_list by metis
  define s0 where "s0 = run_all (run_gov H reg) xs empty_store"
  have i: "store_inv H s0" unfolding s0_def by (rule gov.reached_inv)
  then have "grows (run_gov H reg op s0) (run_all (run_gov H reg) ys (run_gov H reg op s0))"
    by (intro gov.run_all_older gov.run_inv)
  with i show ?thesis by (auto simp: ops run_all_append s0_def)
qed

lemma has_provenance_grows: "has_provenance s i st ec \<Longrightarrow> grows s s' \<Longrightarrow> has_provenance s' i st ec"
  unfolding has_provenance_def provenance_def grows_def by (auto dest: set_mono_prefix)

lemma put_leaves:
  assumes "strip k \<noteq> []"
  shows "known (object_id_of H (strip k) p) (run_store H (Put clk k p st sr ec t) s)
    \<and> has_provenance (run_store H (Put clk k p st sr ec t) s) (object_id_of H (strip k) p) st ec"
proof
  show "known (object_id_of H (strip k) p) (run_store H (Put clk k p st sr ec t) s)"
    using put_runs(2) [OF assms] .
  let ?v = "\<lparr>prov_object = object_id_of H (strip k) p, source_type = st, source_ref = sr, evidence_class = ec,
    captured_at = (case t of None \<Rightarrow> clk | Some t \<Rightarrow> t)\<rparr>"
  obtain v where "v \<in> set (insert_new prov_key ?v (provenances s))" "prov_key v = prov_key ?v"
    using key_insert_new [of prov_key ?v] by blast
  then show "has_provenance (run_store H (Put clk k p st sr ec t) s) (object_id_of H (strip k) p) st ec"
    using assms by (auto simp: has_provenance_def provenance_def put_object_def Let_def prov_key_def)
qed

lemma record_leaves:
  fixes H reg clk p s
  assumes inv: "store_inv H s" and ex: "decision (evaluate reg p) = EXECUTE"
  defines "s' \<equiv> snd (record_proposal H reg clk p s)"
  shows "known (evaluation_id H reg p) s' \<and> known (authorized_id H reg p) s'
    \<and> has_provenance s' (authorized_id H reg p) ''objective_integrity'' ''OWNER_AUTHORIZED''"
proof -
  let ?put0 = "proposal_ops H reg clk p ! 0" and ?put1 = "proposal_ops H reg clk p ! 1"
    and ?link = "proposal_ops H reg clk p ! 2" and ?put3 = "authorization_ops H reg clk p ! 0"
  define t1 where "t1 = run_store H ?put1 (run_store H ?put0 s)"
  define t3 where "t3 = run_store H ?put3 (run_store H ?link t1)"
  have all: "s' = run_all (run_store H) (tl (authorization_ops H reg clk p)) t3"
    "t3 = run_all (run_store H) [?link, ?put3] t1"
    using ex by (simp_all add: s'_def record_runs record_ops_def run_all_append t1_def t3_def
        proposal_ops_def authorization_ops_def numeral_2_eq_2)
  have i1: "store_inv H t1" unfolding t1_def using inv by (intro store.run_inv)
  then have i3: "store_inv H t3" unfolding t3_def by (intro store.run_inv)
  have g: "grows t1 t3" "grows t3 s'" unfolding all
    using store.run_all_older [OF i1] store.run_all_older [OF i3] all(2) by metis+
  have "known (evaluation_id H reg p) t1"
    using put_runs(2) [of "''objective_evaluation''" H "JObj (evaluation_dict (evaluate reg p))"]
    by (simp add: t1_def proposal_ops_def evaluation_id_def kinds_clean del: run_store.simps)
  moreover have "known (authorized_id H reg p) t3
      \<and> has_provenance t3 (authorized_id H reg p) ''objective_integrity'' ''OWNER_AUTHORIZED''"
    using put_leaves [of "''authorized_objective''" H "JObj (authorized_dict p (evaluation_id H reg p))"]
    by (simp add: t3_def authorization_ops_def authorized_id_def kinds_clean del: run_store.simps)
  ultimately show ?thesis using g known_grows has_provenance_grows by blast
qed

definition token_dict :: "capability_token \<Rightarrow> json_object" where
  "token_dict t =
     [(''task_id'', JStr (task_id t)), (''objective_id'', JStr (token_objective t)),
      (''root_objective'', JStr (token_root t)), (''allowed_actions'', JArr (map JStr (allowed_actions t))),
      (''network_scope'', JArr (map JStr (network_scope t))),
      (''allowed_secrets'', JArr (map JStr (allowed_secrets t))),
      (''destructive_actions'', JBool (destructive_actions t))]"

definition token_wf :: "capability_token \<Rightarrow> bool" where
  "token_wf t \<longleftrightarrow> \<not> blank (task_id t) \<and> \<not> blank (token_objective t) \<and> \<not> blank (token_root t)
     \<and> [] \<notin> set (allowed_actions t) \<union> set (network_scope t) \<union> set (allowed_secrets t)"

lemma strings_of_map: "[] \<notin> set xs \<Longrightarrow> strings_of (map JStr xs) = Some xs"
  by (induction xs) auto

lemma token_of_sorted: "token_wf t \<Longrightarrow> token_of (sort_keys (JObj (token_dict t))) = Some t"
proof -
  assume wf: "token_wf t"
  have d: "distinct (map fst (token_dict t))" by (simp add: token_dict_def)
  obtain d' where d': "sort_keys (JObj (token_dict t)) = JObj d'" by simp
  have f: "get d' k = map_option sort_keys (get (token_dict t) k)" for k
    using field_sort_keys [OF d, of k] unfolding d' by simp
  have m: "map (sort_keys \<circ> JStr) xs = map JStr xs" for xs by simp
  show ?thesis unfolding d' token_of.simps get_or_def f
    using wf by (simp add: token_dict_def get_def token_wf_def strings_of_map m)
qed

lemma known_object:
  "known i s \<Longrightarrow> \<exists>r. get_object i s = Inr r \<and> object_id r = i"
  using known_get by blast

lemma gate_opens:
  fixes H reg ops task nm
  defines "s \<equiv> run_all (run_gov H reg) ops empty_store"
  assumes nc: "\<not> envelope_collision H" and nb: "\<And>x. \<not> blank (H x)"
    and recd: "Record clk p \<in> set ops" and ex: "decision (evaluate reg p) = EXECUTE"
    and token: "Store_Op (Put c ''capability_token'' (JObj (token_dict t)) ''guardian'' sr
        ''CAPABILITY_AUTHORIZATION'' tm) \<in> set ops" and wf: "token_wf t"
    and bound: "token_objective t = objective_id p" "token_root t = root_objective p"
    and current: "current_target (current_alias (objective_id p)) s = Some (authorized_id H reg p)"
    and ctx: "get task ''objective_context'' = Some (JObj ctx)"
      "get ctx ''authorized_objective_id'' = Some (JStr (authorized_id H reg p))"
      "get ctx ''objective_evaluation_id'' = Some (JStr (evaluation_id H reg p))"
      "get ctx ''capability_token_id'' = Some (JStr (object_id_of H ''capability_token'' (JObj (token_dict t))))"
    and tid: "get task ''task_id'' = Some (JStr (task_id t))"
    and scope: "execution_gate t (task_action task nm)"
  shows "verify_runtime_objective_context s task nm =
    \<lparr>allowed = True, status = ''OBJECTIVE_AUTHORIZED'', reason = ''runtime_gate_passed'',
     governed_objective = Some (objective_id p)\<rparr>"
proof -
  have inv: "store_inv H s" unfolding s_def by (rule gov.reached_inv)
  let ?tok = "object_id_of H ''capability_token'' (JObj (token_dict t))"
  have ktok: "strip ''capability_token'' = ''capability_token''" by code_simp
  have ids: "\<not> blank (authorized_id H reg p)" "\<not> blank (evaluation_id H reg p)" "\<not> blank ?tok"
    using nb by (simp_all add: authorized_id_def evaluation_id_def object_id_of_def canonical_sha256_def)
  obtain s0 where "store_inv H s0" "grows (run_gov H reg (Record clk p) s0) s"
    using after_op [OF recd] unfolding s_def by blast
  then have rec: "known (evaluation_id H reg p) s" "known (authorized_id H reg p) s"
    "has_provenance s (authorized_id H reg p) ''objective_integrity'' ''OWNER_AUTHORIZED''"
    using record_leaves [OF _ ex] known_grows has_provenance_grows unfolding run_gov.simps by blast+
  obtain s1 where "grows (run_store H (Put c ''capability_token'' (JObj (token_dict t)) ''guardian'' sr
      ''CAPABILITY_AUTHORIZATION'' tm) s1) s"
    using after_op [OF token] unfolding s_def run_gov.simps by blast
  then have tok: "known ?tok s" "has_provenance s ?tok ''guardian'' ''CAPABILITY_AUTHORIZATION''"
    using put_leaves [of "''capability_token''" H "JObj (token_dict t)" c "''guardian''" sr
        "''CAPABILITY_AUTHORIZATION''" tm s1] known_grows has_provenance_grows unfolding ktok
    by blast+
  obtain ra where ra: "get_object (authorized_id H reg p) s = Inr ra" "object_id ra = authorized_id H reg p"
    using known_object [OF rec(2)] by blast
  obtain re where re: "get_object (evaluation_id H reg p) s = Inr re" "object_id re = evaluation_id H reg p"
    using known_object [OF rec(1)] by blast
  obtain rt where rt: "get_object ?tok s = Inr rt" "object_id rt = ?tok"
    using known_object [OF tok(1)] by blast
  have pa: "kind ra = ''authorized_objective''" "payload ra = sort_keys (JObj (authorized_dict p (evaluation_id H reg p)))"
    using object_content [OF inv ra(1)] nc unfolding authorized_id_def by blast+
  have pe: "kind re = ''objective_evaluation''" "payload re = sort_keys (JObj (evaluation_dict (evaluate reg p)))"
    using object_content [OF inv re(1)] nc unfolding evaluation_id_def by blast+
  have pt: "kind rt = ''capability_token''" "payload rt = sort_keys (JObj (token_dict t))"
    using object_content [OF inv rt(1)] nc by blast+
  have obj: "is_obj (sort_keys (JObj d))" for d by simp
  have texts: "\<not> blank (objective_id p)" "\<not> blank (root_objective p)" "\<not> blank (task_id t)"
    using wf bound by (simp_all add: token_wf_def)
  have cur: "resolve (current_alias (objective_id p)) s = Inr ra"
    using current ra by (simp add: resolve_def)
  have gate: "verify_token s task nm (objective_id p) (root_objective p) rt =
    \<lparr>allowed = True, status = ''OBJECTIVE_AUTHORIZED'', reason = ''runtime_gate_passed'',
     governed_objective = Some (objective_id p)\<rparr>"
    unfolding verify_token_def rt(2) pt(2) token_of_sorted [OF wf]
    using tok(2) bound tid texts scope by simp
  have "verify_objects s task nm ra re rt = verify_token s task nm (objective_id p) (root_objective p) rt"
    unfolding verify_objects_def pa pe(2) pt(1) obj authorized_fields evaluation_fields ra(2) re(2)
    using pe(1) texts rec(3) cur ex ra(2) by simp
  then show ?thesis
    unfolding verify_runtime_objective_context_def using ctx ids ra(1) re(1) rt(1) gate by simp
qed

section \<open>A concrete chain\<close>

definition example_proposal :: proposal where
  "example_proposal = \<lparr>objective_id = ''o1'', objective_text = ''ship'', objective_source = OWNER,
     proposal_ref = ''msg'', root_objective = ''root'', parent_objective_id = None,
     requested_capabilities = [''build''], authorization_ref = Some ''sig''\<rparr>"

definition example_registry :: registry where
  "example_registry = \<lparr>canonical_roots = [''root''], verifier = (\<lambda>p. authorization_ref p = Some ''sig''),
     forbidden_capabilities = default_forbidden_capabilities\<rparr>"

definition example_token :: capability_token where
  "example_token = \<lparr>task_id = ''t1'', token_objective = ''o1'', token_root = ''root'',
     allowed_actions = [''write:code''], network_scope = [], allowed_secrets = [], destructive_actions = False\<rparr>"

text \<open>A digest that never collides and is never blank.\<close>

definition tagged :: "string \<Rightarrow> string" where
  "tagged x = CHR ''#'' # x"

definition example_task :: json_object where
  "example_task = [(''task_id'', JStr ''t1''), (''objective_context'', JObj
     [(''authorized_objective_id'', JStr (authorized_id tagged example_registry example_proposal)),
      (''objective_evaluation_id'', JStr (evaluation_id tagged example_registry example_proposal)),
      (''capability_token_id'', JStr (object_id_of tagged ''capability_token'' (JObj (token_dict example_token))))])]"

definition example_ops :: "gov_op list" where
  "example_ops = [Store_Op (Put 1 ''capability_token'' (JObj (token_dict example_token)) ''guardian'' []
     ''CAPABILITY_AUTHORIZATION'' None), Record (\<lambda>i. 2) example_proposal]"

lemma tagged_no_collision: "\<not> envelope_collision tagged"
  by (auto simp: envelope_collision_def object_id_of_def canonical_sha256_def tagged_def)

lemma tagged_not_blank: "\<not> blank (tagged x)"
  unfolding tagged_def by (rule not_blank) code_simp

lemma example_executes: "decision (evaluate example_registry example_proposal) = EXECUTE"
proof -
  have "\<not> blank ''o1''" "\<not> blank ''ship''" by code_simp+
  then show ?thesis
    by (simp add: executes_iff example_registry_def example_proposal_def default_forbidden_capabilities_def)
qed

lemma example_token_wf: "token_wf example_token"
proof -
  have "\<not> blank ''o1''" "\<not> blank ''t1''" "\<not> blank ''root''" by code_simp+
  then show ?thesis by (simp add: token_wf_def example_token_def)
qed

lemma example_scope: "execution_gate example_token (task_action example_task ''write:code'')"
  by (simp add: execution_gate_def example_token_def task_action_def example_task_def get_def truthy_opt_def)

lemma point_current:
  assumes "strip a = a" "a \<noteq> []" "known i s" "distinct (map alias_name (aliases s))"
  shows "current_target a (run_store H (Point clk a i t) s) = Some i"
  using assms upsert_alias(2) [OF assms(4) refl]
  by (simp add: point_def Let_def current_target_def)

lemma record_current:
  assumes inv: "store_inv H s" and ex: "decision (evaluate reg p) = EXECUTE"
    and clean: "strip (current_alias (objective_id p)) = current_alias (objective_id p)"
  shows "current_target (current_alias (objective_id p)) (snd (record_proposal H reg clk p s)) = Some (authorized_id H reg p)"
proof -
  let ?ops = "proposal_ops H reg clk p @ butlast (authorization_ops H reg clk p)"
  define t where "t = run_all (run_store H) ?ops s"
  have e: "snd (record_proposal H reg clk p s)
      = run_store H (Point (clk 5) (current_alias (objective_id p)) (authorized_id H reg p) None) t"
    using ex by (simp add: t_def record_runs record_ops_def authorization_ops_def run_all_append)
  have i: "store_inv H t" unfolding t_def using inv by (rule store.run_all_inv)
  have "known (authorized_id H reg p) (snd (record_proposal H reg clk p s))"
    using record_leaves [OF inv ex] by blast
  then have "known (authorized_id H reg p) t"
    unfolding e by (simp add: point_def Let_def known_def split: if_splits)
  moreover have "distinct (map alias_name (aliases t))" using i by (simp add: store_inv_def)
  ultimately show ?thesis unfolding e using clean current_alias_ne [of "objective_id p"]
    by (intro point_current) simp_all
qed

lemma example_current:
  "current_target (current_alias (objective_id example_proposal))
     (run_all (run_gov tagged example_registry) example_ops empty_store)
   = Some (authorized_id tagged example_registry example_proposal)"
proof -
  let ?s = "run_all (run_gov tagged example_registry) [hd example_ops] empty_store"
  have "strip (current_alias ''o1'') = current_alias ''o1''" by code_simp
  then have "strip (current_alias (objective_id example_proposal)) = current_alias (objective_id example_proposal)"
    by (simp add: example_proposal_def)
  moreover have "store_inv tagged ?s" by (rule gov.reached_inv)
  ultimately have "current_target (current_alias (objective_id example_proposal))
      (snd (record_proposal tagged example_registry (\<lambda>i. 2) example_proposal ?s))
      = Some (authorized_id tagged example_registry example_proposal)"
    by (intro record_current example_executes)
  then show ?thesis by (simp add: example_ops_def)
qed

lemma example_fields:
  "get example_task ''objective_context'' = Some (JObj
     [(''authorized_objective_id'', JStr (authorized_id tagged example_registry example_proposal)),
      (''objective_evaluation_id'', JStr (evaluation_id tagged example_registry example_proposal)),
      (''capability_token_id'', JStr (object_id_of tagged ''capability_token'' (JObj (token_dict example_token))))])"
  "get example_task ''task_id'' = Some (JStr (task_id example_token))"
  by (simp_all add: example_task_def get_def example_token_def)

lemma example_bound:
  "token_objective example_token = objective_id example_proposal"
  "token_root example_token = root_objective example_proposal"
  by (simp_all add: example_token_def example_proposal_def)

lemma example_members:
  "Record (\<lambda>i. 2) example_proposal \<in> set example_ops"
  "Store_Op (Put 1 ''capability_token'' (JObj (token_dict example_token)) ''guardian'' []
     ''CAPABILITY_AUTHORIZATION'' None) \<in> set example_ops"
  "\<forall>op\<in>set example_ops. \<not> forges op"
  by (simp_all add: example_ops_def)

lemma example_context:
  "get [(''authorized_objective_id'', JStr a), (''objective_evaluation_id'', JStr e), (''capability_token_id'', JStr t)]
     ''authorized_objective_id'' = Some (JStr a)"
  "get [(''authorized_objective_id'', JStr a), (''objective_evaluation_id'', JStr e), (''capability_token_id'', JStr t)]
     ''objective_evaluation_id'' = Some (JStr e)"
  "get [(''authorized_objective_id'', JStr a), (''objective_evaluation_id'', JStr e), (''capability_token_id'', JStr t)]
     ''capability_token_id'' = Some (JStr t)"
  by (simp_all add: get_def)

lemma example_gate:
  "allowed (verify_runtime_objective_context (run_all (run_gov tagged example_registry) example_ops empty_store)
     example_task ''write:code'')"
  by (subst gate_opens [OF tagged_no_collision tagged_not_blank example_members(1) example_executes example_members(2)
      example_token_wf example_bound example_current example_fields(1) example_context example_fields(2) example_scope])
     simp

text \<open>
  The gate opens for the rightful caller: once an objective was recorded with the decision
  EXECUTE and a guardian stored a well-formed token for it, at any two points of the run, a task
  that names the three objects passes as long as the objective is the current one and the token
  allows the action (unless two envelopes collide; digests are never blank).
\<close>

theorem runtime_gate_opens:
  fixes H reg ops task nm
  defines "s \<equiv> run_all (run_gov H reg) ops empty_store"
  assumes nc: "\<not> envelope_collision H" and nb: "\<And>x. \<not> blank (H x)"
    and recd: "Record clk p \<in> set ops" and ex: "decision (evaluate reg p) = EXECUTE"
    and token: "Store_Op (Put c ''capability_token'' (JObj (token_dict t)) ''guardian'' sr
        ''CAPABILITY_AUTHORIZATION'' tm) \<in> set ops" and wf: "token_wf t"
    and bound: "token_objective t = objective_id p" "token_root t = root_objective p"
    and current: "current_target (current_alias (objective_id p)) s = Some (authorized_id H reg p)"
    and ctx: "get task ''objective_context'' = Some (JObj ctx)"
      "get ctx ''authorized_objective_id'' = Some (JStr (authorized_id H reg p))"
      "get ctx ''objective_evaluation_id'' = Some (JStr (evaluation_id H reg p))"
      "get ctx ''capability_token_id'' = Some (JStr (object_id_of H ''capability_token'' (JObj (token_dict t))))"
    and tid: "get task ''task_id'' = Some (JStr (task_id t))"
    and scope: "execution_gate t (task_action task nm)"
  shows "verify_runtime_objective_context s task nm =
    \<lparr>allowed = True, status = ''OBJECTIVE_AUTHORIZED'', reason = ''runtime_gate_passed'',
     governed_objective = Some (objective_id p)\<rparr>"
  unfolding s_def
  by (rule gate_opens [OF nc nb recd ex token wf bound current [unfolded s_def] ctx tid scope])

lemma runtime_gate_opens_witness:
  "status (verify_runtime_objective_context (run_all (run_gov tagged example_registry) example_ops empty_store)
     example_task ''write:code'') = ''OBJECTIVE_AUTHORIZED''"
  by (subst runtime_gate_opens [OF tagged_no_collision tagged_not_blank example_members(1) example_executes
      example_members(2) example_token_wf example_bound example_current example_fields(1) example_context
      example_fields(2) example_scope]) simp

lemma example_unforged: "\<not> authorization_collision tagged example_registry R s"
  by (auto simp: authorization_collision_def tagged_def Let_def)

lemma runtime_gate_needs_owner_witness:
  "\<exists>p clk tid t op. Record clk p \<in> set example_ops \<and> verifier example_registry p
     \<and> governed_objective (verify_runtime_objective_context
          (run_all (run_gov tagged example_registry) example_ops empty_store) example_task ''write:code'')
       = Some (objective_id p)
     \<and> names_objects example_task (authorized_id tagged example_registry p) (evaluation_id tagged example_registry p) tid
     \<and> Store_Op op \<in> set example_ops \<and> puts_object tagged tid ''guardian'' ''CAPABILITY_AUTHORIZATION'' op
     \<and> token_objective t = objective_id p \<and> permitted t (task_action example_task ''write:code'')"
  using runtime_gate_needs_owner [OF example_members(3) example_gate] example_unforged by blast

lemma delegation_never_amplifies_witness:
  "execution_gate example_token \<lparr>action_name = ''write:code'', destination = None, secret_id = None,
     destructive = False, requires_network = False\<rparr>"
proof -
  let ?a = "\<lparr>action_name = ''write:code'', destination = None, secret_id = None, destructive = False,
    requires_network = False\<rparr>"
  let ?ts = "[example_token, example_token\<lparr>network_scope := []\<rparr>]"
  have "\<forall>i. Suc i < length ?ts \<longrightarrow> child_capabilities_valid (?ts ! i) (?ts ! Suc i)"
    by (simp add: child_capabilities_valid_def example_token_def)
  moreover have "execution_gate (?ts ! 1) ?a"
    by (simp add: execution_gate_def example_token_def truthy_opt_def)
  ultimately show ?thesis using delegation_never_amplifies [of ?ts 0 1 ?a] by simp
qed

end
