(* ===== verification/Agent_Execution_Plane.thy ===== *)
theory Agent_Execution_Plane
  imports Runtime_Governance
begin

text \<open>
  \<open>centinal26/agent_execution_plane.py\<close>: the authority decision for a task and its bounded
  execution. Parameters: the policy file as it was read (\<open>Inl\<close> the text of the error), the object
  store below the root (\<open>None\<close> without a root), the process (\<open>spawn\<close>), and the elapsed time, a float,
  as the JSON value it is written as. The state of \<open>run_task\<close> is the list of processes it started.
\<close>

section \<open>Policy and task\<close>

text \<open>The policy in the shape of \<open>config/agent_authority.json\<close>; \<open>None\<close> is an absent key.\<close>

record authority_policy =
  roles :: "(string \<times> bool option) list"
  root_deny :: "string list"
  default_action :: "string option"
  write_prefix :: "string option"
  consequential_requires_judge :: "bool option"

definition known_roles :: "string list" where
  "known_roles = [''planner'', ''builder'', ''judge'', ''sre'', ''sentinel'', ''release'']"

definition max_timeout_seconds :: int where
  "max_timeout_seconds = 900"

definition or_default :: "'a option \<Rightarrow> 'a \<Rightarrow> 'a" where
  "or_default v d = (case v of None \<Rightarrow> d | Some x \<Rightarrow> x)"

record authorization =
  status :: string
  role :: json
  action :: json
  requires_judge :: bool
  reason :: string
  denied :: "string list"
  for_objective :: "string option"

definition decide :: "string \<Rightarrow> json \<Rightarrow> json \<Rightarrow> bool \<Rightarrow> string \<Rightarrow> authorization" where
  "decide st r a j why = \<lparr>status = st, role = r, action = a, requires_judge = j, reason = why, denied = [],
     for_objective = None\<rparr>"

definition task_action_of :: "authority_policy \<Rightarrow> json_object \<Rightarrow> json" where
  "task_action_of pol task =
     (let a = get_or task ''action'' JNull
      in if truthy a then a else JStr (or_default (default_action pol) ''execute:bounded_task''))"

definition is_mutation :: "authority_policy \<Rightarrow> string \<Rightarrow> bool" where
  "is_mutation pol a = startswith a (or_default (write_prefix pol) ''write:'')"

definition consequential :: "json_object \<Rightarrow> bool" where
  "consequential task = truthy (get_or task ''consequential'' (JBool False))"

definition needs_judge :: "authority_policy \<Rightarrow> json_object \<Rightarrow> string \<Rightarrow> bool" where
  "needs_judge pol task a =
     (consequential task \<and> is_mutation pol a \<and> or_default (consequential_requires_judge pol) True)"

definition authorize_bounded :: "authority_policy \<Rightarrow> store option \<Rightarrow> json_object \<Rightarrow> string \<Rightarrow> string \<Rightarrow>
    authorization" where
  "authorize_bounded pol st task r a =
     (let judge = needs_judge pol task a
      in if judge \<and> get task ''judge_verified'' \<noteq> Some (JBool True)
         then decide ''REQUIRES_INDEPENDENT_JUDGE'' (JStr r) (JStr a) True
                ''consequential_mutation_not_independently_verified''
         else if is_mutation pol a \<or> consequential task then
           (if \<not> (case get task ''objective_context'' of Some v \<Rightarrow> is_obj v | None \<Rightarrow> False)
            then decide ''OBJECTIVE_CONTEXT_REQUIRED'' (JStr r) (JStr a) judge
                   ''consequential_or_mutating_task_missing_objective_context''
            else case st of
              None \<Rightarrow> decide ''OBJECTIVE_STORE_REQUIRED'' (JStr r) (JStr a) judge
                        ''runtime_object_store_not_available''
            | Some s \<Rightarrow>
                (let g = verify_runtime_objective_context s task a
                 in if \<not> allowed g
                    then (decide (governance_decision.status g) (JStr r) (JStr a) judge
                            (governance_decision.reason g))\<lparr>for_objective := governed_objective g\<rparr>
                    else (decide ''AUTHORIZED_BOUNDED'' (JStr r) (JStr a) judge
                            ''policy_and_objective_authorized_subject_to_external_adapter_permissions'')
                         \<lparr>for_objective := governed_objective g\<rparr>))
         else decide ''AUTHORIZED_BOUNDED'' (JStr r) (JStr a) judge
                ''policy_and_objective_authorized_subject_to_external_adapter_permissions'')"

definition authorize_role :: "authority_policy \<Rightarrow> store option \<Rightarrow> json_object \<Rightarrow> string \<Rightarrow> bool option \<Rightarrow>
    authorization" where
  "authorize_role pol st task r mutating =
     (case task_action_of pol task of
        JStr a \<Rightarrow>
          (if a = [] then decide ''INVALID_TASK'' (JStr r) (JStr a) False ''invalid_action''
           else case string_set (Some (get_or task ''capabilities'' (JArr []))) of
             None \<Rightarrow> decide ''INVALID_TASK'' (JStr r) (JStr a) False ''invalid_capabilities''
           | Some caps \<Rightarrow>
               (let bad = filter (\<lambda>c. c \<in> set (root_deny pol)) caps
                          @ (if a \<in> set (root_deny pol) then [a] else [])
                in if bad \<noteq> []
                   then (decide ''BLOCKED_ROOT_DENY'' (JStr r) (JStr a) False
                           ''protected_recovery_root_operation'')\<lparr>denied := sort (remdups bad)\<rparr>
                   else if is_mutation pol a \<and> \<not> or_default mutating False
                   then decide ''DENY_ROLE_MODE'' (JStr r) (JStr a) False ''role_non_mutating_by_default''
                   else authorize_bounded pol st task r a))
      | a \<Rightarrow> decide ''INVALID_TASK'' (JStr r) a False ''invalid_action'')"

text \<open>A role that is a list or a dictionary cannot be looked up: \<open>TypeError\<close>.\<close>

definition authorize_task :: "string + authority_policy \<Rightarrow> store option \<Rightarrow> json_object \<Rightarrow>
    authorization result" where
  "authorize_task policy st task =
     (let r = get_or task ''role'' (JStr ''builder''); raw = get_or task ''action'' JNull
      in case policy of
           Inl e \<Rightarrow> Inr (decide ''POLICY_ERROR'' r raw False e)
         | Inr pol \<Rightarrow>
             (case r of
                JStr nm \<Rightarrow>
                  (case map_of (roles pol) nm of
                     Some mutating \<Rightarrow>
                       if nm \<in> set known_roles then Inr (authorize_role pol st task nm mutating)
                       else Inr (decide ''INVALID_ROLE'' r raw False ''unknown_role'')
                   | None \<Rightarrow> Inr (decide ''INVALID_ROLE'' r raw False ''unknown_role''))
              | JArr _ \<Rightarrow> Inl (TypeError ''unhashable type: list'')
              | JObj _ \<Rightarrow> Inl (TypeError ''unhashable type: dict'')
              | _ \<Rightarrow> Inr (decide ''INVALID_ROLE'' r raw False ''unknown_role'')))"

section \<open>Execution\<close>

text \<open>\<open>int(value)\<close>: single underscores between digits, at most 4300 digits.\<close>

fun groups_ok :: "string \<Rightarrow> bool" where
  "groups_ok [] = False"
| "groups_ok [c] = (c \<noteq> CHR ''_'')"
| "groups_ok (c # d # cs) = (\<not> (c = CHR ''_'' \<and> d = CHR ''_'') \<and> groups_ok (d # cs))"

definition int_of_digits :: "string \<Rightarrow> int option" where
  "int_of_digits s =
     (let ds = filter (\<lambda>c. c \<noteq> CHR ''_'') s
      in if groups_ok s \<and> hd s \<noteq> CHR ''_'' \<and> length ds \<le> 4300 then read_digits 0 ds else None)"

definition int_of_text :: "string \<Rightarrow> int option" where
  "int_of_text s =
     (let t = strip s
      in if t \<noteq> [] \<and> hd t = CHR ''-'' then map_option uminus (int_of_digits (tl t))
         else if t \<noteq> [] \<and> hd t = CHR ''+'' then int_of_digits (tl t)
         else int_of_digits t)"

fun int_of_json :: "json \<Rightarrow> int option" where
  "int_of_json (JInt i) = Some i"
| "int_of_json (JBool b) = Some (if b then 1 else 0)"
| "int_of_json (JStr s) = int_of_text s"
| "int_of_json _ = None"

datatype process_result =
    Completed int string string
  | Timed_Out "string option" "string option"
  | Os_Error string

definition tail_of :: "string option \<Rightarrow> string" where
  "tail_of v = (case v of None \<Rightarrow> [] | Some s \<Rightarrow> drop (length s - 12000) s)"

definition digest :: "(string \<Rightarrow> string) \<Rightarrow> json_object \<Rightarrow> string" where
  "digest H d = H (dumps default_style (JObj d))"

definition make_result :: "(string \<Rightarrow> string) \<Rightarrow> string \<Rightarrow> json_object \<Rightarrow> json_object \<Rightarrow> json_object" where
  "make_result H st task extra =
     (let r = (''status'', JStr st) # (''task_digest'', JStr (digest H task)) # extra
      in r @ [(''evidence_digest'', JStr (digest H r))])"

definition process_fields :: "process_result \<Rightarrow> json \<Rightarrow> int \<Rightarrow> authorization \<Rightarrow> json_object" where
  "process_fields p elapsed timeout au =
     [(''role'', role au), (''action'', action au)] @
     (case p of
        Completed code so se \<Rightarrow>
          [(''requires_judge'', JBool (requires_judge au)), (''objective_id'', opt_str (for_objective au)),
           (''returncode'', JInt code), (''stdout'', JStr (tail_of (Some so))),
           (''stderr'', JStr (tail_of (Some se))), (''elapsed_s'', elapsed)]
      | Timed_Out so se \<Rightarrow>
          [(''returncode'', JNull), (''stdout'', JStr (tail_of so)), (''stderr'', JStr (tail_of se)),
           (''elapsed_s'', elapsed), (''timeout_s'', JInt timeout)]
      | Os_Error e \<Rightarrow>
          [(''returncode'', JNull), (''stdout'', JStr []), (''stderr'', JStr e), (''elapsed_s'', elapsed)])"

definition process_status :: "process_result \<Rightarrow> string" where
  "process_status p = (case p of
      Completed code _ _ \<Rightarrow> if code = 0 then ''PASS'' else ''FAIL''
    | Timed_Out _ _ \<Rightarrow> ''TIMEOUT'' | Os_Error _ \<Rightarrow> ''EXECUTION_ERROR'')"

type_synonym process_log = "(string list \<times> int) list"

definition run_task :: "(string \<Rightarrow> string) \<Rightarrow> string + authority_policy \<Rightarrow> store \<Rightarrow>
    (string list \<Rightarrow> int \<Rightarrow> process_result) \<Rightarrow> json \<Rightarrow> json_object \<Rightarrow> process_log \<Rightarrow>
    (json_object, process_log) outcome" where
  "run_task H policy st spawn elapsed task started =
     (case authorize_task policy (Some st) task of
        Inl e \<Rightarrow> (Inl e, started)
      | Inr au \<Rightarrow>
          if status au \<noteq> ''AUTHORIZED_BOUNDED''
          then (Inr (make_result H (status au) task
                  [(''role'', role au), (''action'', action au), (''requires_judge'', JBool (requires_judge au)),
                   (''reason'', JStr (reason au)), (''denied'', JArr (map JStr (denied au))),
                   (''objective_id'', opt_str (for_objective au))]), started)
          else
            (case string_set (get task ''command'') of
               None \<Rightarrow> (Inr (make_result H ''INVALID_TASK'' task
                         [(''role'', role au), (''action'', action au), (''reason'', JStr ''invalid_command'')]), started)
             | Some cmd \<Rightarrow>
                 if cmd = [] then (Inr (make_result H ''INVALID_TASK'' task
                         [(''role'', role au), (''action'', action au), (''reason'', JStr ''invalid_command'')]), started)
                 else
                   (case int_of_json (get_or task ''timeout'' (JInt 120)) of
                      None \<Rightarrow> (Inr (make_result H ''INVALID_TASK'' task
                           [(''role'', role au), (''action'', action au), (''reason'', JStr ''invalid_timeout'')]), started)
                    | Some n \<Rightarrow>
                        (let timeout = max 1 (min n max_timeout_seconds); p = spawn cmd timeout
                         in (Inr (make_result H (process_status p) task (process_fields p elapsed timeout au)),
                             started @ [(cmd, timeout)])))))"

end
