(* ===== verification/Execution_Plane_Claims.thy ===== *)
theory Execution_Plane_Claims
  imports Agent_Execution_Plane Governance_Claims
begin

text \<open>
  What has to be true when the execution plane starts a process, down to the owner's authorization
  in the object store, and what its results say.
\<close>

section \<open>Authority decisions\<close>

lemma decide_status [simp]: "status (decide st r a j why) = st"
  by (simp add: decide_def)

lemma bounded_authorized:
  assumes "status (authorize_bounded pol st task r a) = ''AUTHORIZED_BOUNDED''"
  shows "(needs_judge pol task a \<longrightarrow> get task ''judge_verified'' = Some (JBool True))
    \<and> (is_mutation pol a \<or> consequential task \<longrightarrow>
         (\<exists>s. st = Some s \<and> allowed (verify_runtime_objective_context s task a)))"
proof -
  have "status ((decide x y z w v)\<lparr>for_objective := ob\<rparr>) = x" for x y z w v ob by (simp add: decide_def)
  moreover have "governance_decision.status g \<noteq> ''AUTHORIZED_BOUNDED'' \<or> allowed g"
    if "g = verify_runtime_objective_context s task a" for g s
  proof -
    have t: "governance_decision.status (verify_token s task nm i rt tok) \<noteq> ''AUTHORIZED_BOUNDED''" for nm i rt tok
      by (simp add: verify_token_def refuse_def split: option.split)
    have ob: "governance_decision.status (verify_objects s task nm x y z) \<noteq> ''AUTHORIZED_BOUNDED''" for nm x y z
      using t by (simp add: verify_objects_def refuse_def split: option.split sum.split)
    show ?thesis using ob unfolding that verify_runtime_objective_context_def
      by (simp add: refuse_def split: option.split json.split sum.split)
  qed
  ultimately show ?thesis
    using assms unfolding authorize_bounded_def Let_def by (auto split: if_splits option.splits)
qed

lemma role_authorized:
  assumes "status (authorize_role pol st task r mutating) = ''AUTHORIZED_BOUNDED''"
  shows "\<exists>a caps. task_action_of pol task = JStr a \<and> a \<noteq> []
    \<and> string_set (Some (get_or task ''capabilities'' (JArr []))) = Some caps
    \<and> a \<notin> set (root_deny pol) \<and> set caps \<inter> set (root_deny pol) = {}
    \<and> (is_mutation pol a \<longrightarrow> mutating = Some True)
    \<and> authorize_role pol st task r mutating = authorize_bounded pol st task r a"
proof (cases "task_action_of pol task")
  case (JStr a)
  have up: "status ((decide x y z w v)\<lparr>denied := ob\<rparr>) = x" for x y z w v ob by (simp add: decide_def)
  show ?thesis
  proof (cases "string_set (Some (get_or task ''capabilities'' (JArr [])))")
    case None
    then show ?thesis using assms JStr by (simp add: authorize_role_def split: if_splits)
  next
    case (Some caps)
    then show ?thesis using assms JStr up unfolding authorize_role_def or_default_def
      by (auto simp: Let_def filter_empty_conv split: if_splits option.splits)
  qed
qed (use assms in \<open>simp_all add: authorize_role_def\<close>)

lemma task_authorized:
  assumes "authorize_task policy st task = Inr au" "status au = ''AUTHORIZED_BOUNDED''"
    and "\<And>e. policy \<noteq> Inl e"
  shows "\<exists>pol nm mutating. policy = Inr pol \<and> get_or task ''role'' (JStr ''builder'') = JStr nm
    \<and> map_of (roles pol) nm = Some mutating \<and> nm \<in> set known_roles
    \<and> au = authorize_role pol st task nm mutating"
  using assms unfolding authorize_task_def Let_def
  by (auto simp: decide_def split: sum.splits json.splits option.splits if_splits)

section \<open>Starting a process\<close>

lemma run_task_starts:
  assumes "snd (run_task H policy s spawn elapsed task started) \<noteq> started"
  shows "\<exists>au cmd n. authorize_task policy (Some s) task = Inr au \<and> status au = ''AUTHORIZED_BOUNDED''
    \<and> string_set (get task ''command'') = Some cmd \<and> cmd \<noteq> [] \<and> 1 \<le> n \<and> n \<le> 900
    \<and> run_task H policy s spawn elapsed task started =
        (Inr (make_result H (process_status (spawn cmd n)) task (process_fields (spawn cmd n) elapsed n au)),
         started @ [(cmd, n)])"
proof (cases "authorize_task policy (Some s) task")
  case (Inl e)
  then show ?thesis using assms by (simp add: run_task_def)
next
  case au: (Inr au)
  show ?thesis
  proof (cases "status au = ''AUTHORIZED_BOUNDED''")
    case st: True
    show ?thesis
    proof (cases "string_set (get task ''command'')")
      case None
      then show ?thesis using assms au st by (simp add: run_task_def)
    next
      case cmd: (Some cmd)
      show ?thesis
      proof (cases "int_of_json (get_or task ''timeout'' (JInt 120))")
        case None
        then show ?thesis using assms au st cmd by (simp add: run_task_def split: if_splits)
      next
        case (Some m)
        then show ?thesis using assms au st cmd
          by (intro exI [of _ au] exI [of _ cmd] exI [of _ "max 1 (min m max_timeout_seconds)"])
             (auto simp: run_task_def Let_def max_timeout_seconds_def split: if_splits)
      qed
    qed
  qed (use assms au in \<open>simp add: run_task_def\<close>)
qed

lemma policy_error: "authorize_task (Inl e) st task = Inr au \<Longrightarrow> status au = ''POLICY_ERROR''"
  by (auto simp: authorize_task_def Let_def)

text \<open>All that holds when a process was started.\<close>

definition process_conditions :: "authority_policy \<Rightarrow> store \<Rightarrow> json_object \<Rightarrow> string list \<Rightarrow> int \<Rightarrow> string \<Rightarrow> bool" where
  "process_conditions pol s task cmd n a \<longleftrightarrow>
     cmd \<noteq> [] \<and> string_set (get task ''command'') = Some cmd \<and> 1 \<le> n \<and> n \<le> 900
     \<and> task_action_of pol task = JStr a \<and> a \<notin> set (root_deny pol)
     \<and> (\<exists>caps. string_set (Some (get_or task ''capabilities'' (JArr []))) = Some caps
          \<and> set caps \<inter> set (root_deny pol) = {})
     \<and> (\<exists>nm m. get_or task ''role'' (JStr ''builder'') = JStr nm \<and> nm \<in> set known_roles
          \<and> map_of (roles pol) nm = Some m \<and> (is_mutation pol a \<longrightarrow> m = Some True))
     \<and> (needs_judge pol task a \<longrightarrow> get task ''judge_verified'' = Some (JBool True))
     \<and> (is_mutation pol a \<or> consequential task \<longrightarrow> allowed (verify_runtime_objective_context s task a))"

lemma started_process:
  assumes "snd (run_task H policy s spawn elapsed task started) \<noteq> started"
  shows "\<exists>pol cmd n a. policy = Inr pol \<and> process_conditions pol s task cmd n a
    \<and> snd (run_task H policy s spawn elapsed task started) = started @ [(cmd, n)]"
proof -
  from run_task_starts [OF assms] obtain au cmd n where au: "authorize_task policy (Some s) task = Inr au"
      "status au = ''AUTHORIZED_BOUNDED''"
    and c: "string_set (get task ''command'') = Some cmd" "cmd \<noteq> []" "1 \<le> n" "n \<le> 900"
    and r: "snd (run_task H policy s spawn elapsed task started) = started @ [(cmd, n)]" by (metis snd_conv)
  have "policy \<noteq> Inl e" for e using policy_error au by fastforce
  from task_authorized [OF au this] obtain pol nm m where p: "policy = Inr pol"
      "get_or task ''role'' (JStr ''builder'') = JStr nm" "map_of (roles pol) nm = Some m" "nm \<in> set known_roles"
    and e: "au = authorize_role pol (Some s) task nm m" by blast
  from role_authorized [of pol "Some s" task nm m] au(2) e obtain a caps where a: "task_action_of pol task = JStr a"
      "string_set (Some (get_or task ''capabilities'' (JArr []))) = Some caps"
      "a \<notin> set (root_deny pol)" "set caps \<inter> set (root_deny pol) = {}" "is_mutation pol a \<longrightarrow> m = Some True"
    and b: "status (authorize_bounded pol (Some s) task nm a) = ''AUTHORIZED_BOUNDED''" by metis
  have "process_conditions pol s task cmd n a"
    unfolding process_conditions_def using c p a bounded_authorized [OF b] by blast
  with p(1) r show ?thesis by blast
qed

section \<open>Properties\<close>

text \<open>
  C16. A process is started only under authority: at most one per task, with the command of the task
  and a timeout of 1 to 900 seconds, for a role that the policy and the code know, with an action
  and capabilities outside the root deny list, by a mutating role when the action mutates, after an
  independent judgement when a consequential mutation needs one, and through the runtime gate
  whenever the task mutates or is consequential.
\<close>

theorem process_needs_authority:
  assumes "snd (run_task H policy s spawn elapsed task started) \<noteq> started"
  shows "\<exists>pol cmd n a. policy = Inr pol \<and> process_conditions pol s task cmd n a
    \<and> snd (run_task H policy s spawn elapsed task started) = started @ [(cmd, n)]"
  by (rule started_process [OF assms])

text \<open>
  From the process back to the owner: on a store that was only written by the modelled operations,
  with the registry as the only writer of authorizations, a process for a mutating or consequential
  task was preceded by the recording of its objective with an owner's verified authorization (or two
  envelopes collide).
\<close>

theorem mutating_process_needs_owner:
  fixes H reg ops
  defines "s \<equiv> run_all (run_gov H reg) ops empty_store"
  assumes honest: "\<forall>op\<in>set ops. \<not> forges op" and nc: "\<not> envelope_collision H"
    and started: "snd (run_task H (Inr pol) s spawn elapsed task started) \<noteq> started"
    and mut: "task_action_of pol task = JStr a" "is_mutation pol a \<or> consequential task"
  shows "\<exists>clk p t. Record clk p \<in> set ops \<and> objective_source p \<in> {OWNER, OWNER_POLICY} \<and> verifier reg p
    \<and> root_objective p \<in> set (canonical_roots reg)
    \<and> token_objective t = objective_id p \<and> execution_gate t (task_action task a)"
proof -
  obtain a' where "task_action_of pol task = JStr a'"
    "is_mutation pol a' \<or> consequential task \<longrightarrow> allowed (verify_runtime_objective_context s task a')"
    using started_process [OF started] unfolding process_conditions_def by blast
  with mut have gate: "allowed (verify_runtime_objective_context s task a)" by simp
  have "gov_inv H reg (recorded ops) s" unfolding s_def by (rule reached_gov_inv [OF honest])
  from gate_chain [OF this gate nc] obtain p t where "p \<in> recorded ops" "decision (evaluate reg p) = EXECUTE"
    "token_objective t = objective_id p" "execution_gate t (task_action task a)" by blast
  then show ?thesis unfolding executes_iff recorded_def by blast
qed

section \<open>A concrete run\<close>

definition example_policy :: authority_policy where
  "example_policy = \<lparr>roles = [(''builder'', Some True), (''judge'', Some False)], root_deny = [''audit_destroy''],
     default_action = Some ''execute:bounded_task'', write_prefix = Some ''write:'',
     consequential_requires_judge = Some True\<rparr>"

definition write_task :: json_object where
  "write_task = example_task @ [(''action'', JStr ''write:code''), (''command'', JArr [JStr ''make'']),
     (''timeout'', JInt 5000)]"

lemma write_task_fields:
  "get write_task ''objective_context'' = get example_task ''objective_context''"
  "get write_task ''task_id'' = get example_task ''task_id''"
  "get write_task ''action'' = Some (JStr ''write:code'')" "get write_task ''command'' = Some (JArr [JStr ''make''])"
  "get write_task ''timeout'' = Some (JInt 5000)" "get write_task ''role'' = None"
  "get write_task ''capabilities'' = None" "get write_task ''consequential'' = None"
  "get write_task ''network_destination'' = None" "get write_task ''secret_id'' = None"
  "get write_task ''destructive'' = None" "get write_task ''requires_network'' = None"
  by (simp_all add: write_task_def example_task_def get_def)

lemma example_scope_write: "execution_gate example_token (task_action write_task ''write:code'')"
  by (simp add: execution_gate_def example_token_def task_action_def write_task_fields truthy_opt_def)

definition example_store :: store where
  "example_store = run_all (run_gov tagged example_registry) example_ops empty_store"

lemma write_gate:
  "verify_runtime_objective_context example_store write_task ''write:code''
   = \<lparr>allowed = True, status = ''OBJECTIVE_AUTHORIZED'', reason = ''runtime_gate_passed'', governed_objective = Some ''o1''\<rparr>"
  unfolding example_store_def
  by (subst gate_opens [OF tagged_no_collision tagged_not_blank example_members(1) example_executes example_members(2)
      example_token_wf example_bound example_current write_task_fields(1) [unfolded example_fields(1)] example_context
      write_task_fields(2) [unfolded example_fields(2)] example_scope_write])
     (simp add: example_proposal_def)

lemma write_action: "task_action_of example_policy write_task = JStr ''write:code''"
  "is_mutation example_policy ''write:code''"
  by (simp_all add: task_action_of_def get_or_def write_task_fields is_mutation_def example_policy_def
      or_default_def startswith_def)

lemma write_starts:
  "snd (run_task tagged (Inr example_policy) example_store spawn elapsed write_task []) = [([''make''], 900)]"
proof -
  have j: "\<not> needs_judge example_policy write_task ''write:code''"
    by (simp add: needs_judge_def consequential_def get_or_def write_task_fields)
  have c: "is_obj v" if "get example_task ''objective_context'' = Some v" for v
    using that by (auto simp: example_fields)
  have "status (authorize_bounded example_policy (Some example_store) write_task ''builder'' ''write:code'')
      = ''AUTHORIZED_BOUNDED''"
    using c by (simp add: authorize_bounded_def Let_def j write_action write_gate write_task_fields(1) example_fields
        decide_def)
  then have "status (authorize_role example_policy (Some example_store) write_task ''builder'' (Some True))
      = ''AUTHORIZED_BOUNDED''"
    by (simp add: authorize_role_def write_action get_or_def write_task_fields or_default_def)
      (simp add: example_policy_def)
  then have "\<exists>au. authorize_task (Inr example_policy) (Some example_store) write_task = Inr au
      \<and> status au = ''AUTHORIZED_BOUNDED''"
    by (simp add: authorize_task_def Let_def get_or_def write_task_fields) (simp add: example_policy_def known_roles_def)
  then show ?thesis
    by (auto simp: run_task_def write_task_fields get_or_def Let_def max_timeout_seconds_def)
qed

lemma process_needs_authority_witness:
  "\<exists>cmd n a. process_conditions example_policy example_store write_task cmd n a"
  using process_needs_authority [of tagged "Inr example_policy" example_store "\<lambda>c n. Completed 0 [] []" JNull write_task "[]"]
    write_starts by (metis list.distinct(1) sum.inject(2))

lemma mutating_process_needs_owner_witness:
  "\<exists>clk p. Record clk p \<in> set example_ops \<and> verifier example_registry p"
proof -
  have "snd (run_task tagged (Inr example_policy) (run_all (run_gov tagged example_registry) example_ops empty_store)
      (\<lambda>c n. Completed 0 [] []) JNull write_task []) \<noteq> []"
    using write_starts unfolding example_store_def by simp
  from mutating_process_needs_owner [OF example_members(3) tagged_no_collision this write_action(1)] write_action(2)
  show ?thesis by blast
qed

end
