(* ===== verification/Governance_Bundle.thy ===== *)
theory Governance_Bundle
  imports Py_Json
begin

text \<open>
  \<open>centinal26/governance.py\<close>: the validator of governance bundles. Each check yields the violations
  it adds; the result is the sorted set of all of them. A time is an instant in microseconds, and a
  timestamp whose conversion to UTC leaves the years 1 to 9999 raises \<open>OverflowError\<close>, which the code
  does not catch. Numbers are integers.
\<close>

section \<open>Violations\<close>

datatype violation = Violation (code: string) (path: string) (message: string)

definition violation_key :: "violation \<Rightarrow> string \<times> string \<times> string" where
  "violation_key v = (code v, path v, message v)"

instantiation violation :: linorder
begin

definition less_eq_violation :: "violation \<Rightarrow> violation \<Rightarrow> bool" where
  "less_eq_violation v w \<longleftrightarrow> violation_key v \<le> violation_key w"

definition less_violation :: "violation \<Rightarrow> violation \<Rightarrow> bool" where
  "less_violation v w \<longleftrightarrow> violation_key v < violation_key w"

instance
proof
  fix v w x :: violation
  show "v < w \<longleftrightarrow> v \<le> w \<and> \<not> w \<le> v"
    by (simp only: less_violation_def less_eq_violation_def less_le_not_le)
  show "v \<le> v" by (simp add: less_eq_violation_def)
  show "v \<le> w \<Longrightarrow> w \<le> x \<Longrightarrow> v \<le> x" unfolding less_eq_violation_def by (rule order_trans)
  show "v \<le> w \<Longrightarrow> w \<le> v \<Longrightarrow> v = w"
    unfolding less_eq_violation_def
    by (drule (1) antisym) (simp add: violation_key_def violation.expand)
  show "v \<le> w \<or> w \<le> v" by (simp add: less_eq_violation_def linear)
qed

end

definition check :: "bool \<Rightarrow> string \<Rightarrow> string \<Rightarrow> string \<Rightarrow> violation list" where
  "check ok c p m = (if ok then [] else [Violation c p m])"

section \<open>Fields\<close>

definition at_index :: "string \<Rightarrow> nat \<Rightarrow> string" where
  "at_index p i = p @ ''['' @ nat_text i @ '']''"

definition at_key :: "string \<Rightarrow> string \<Rightarrow> string" where
  "at_key p k = p @ ''.'' @ k"

definition record_fields :: "string \<Rightarrow> string \<Rightarrow> string list \<Rightarrow> json_object \<Rightarrow> violation list" where
  "record_fields p schema_name wanted d =
     map (\<lambda>k. Violation ''FIELD_REQUIRED'' (at_key p k) (k @ '' is required''))
       (sort (filter (\<lambda>k. get d k = None) wanted))
     @ map (\<lambda>k. Violation ''ADDITIONAL_PROPERTY_FORBIDDEN'' (at_key p k) (k @ '' is not allowed by the object schema''))
       (sort (filter (\<lambda>k. k \<notin> set wanted) (map fst d)))
     @ (if get d ''schema'' = None then []
        else check (get d ''schema'' = Some (JStr schema_name)) ''SCHEMA_VERSION_INVALID'' (at_key p ''schema'')
               (''schema must be '' @ schema_name))"

definition text_field :: "json_object \<Rightarrow> string \<Rightarrow> string \<Rightarrow> string \<Rightarrow> violation list \<times> string option" where
  "text_field d k p c =
     (case get d k of
        Some (JStr s) \<Rightarrow> if s \<noteq> [] then ([], Some s)
                        else ([Violation c (at_key p k) (k @ '' must be a non-empty string'')], None)
      | _ \<Rightarrow> ([Violation c (at_key p k) (k @ '' must be a non-empty string'')], None))"

definition mapping_field :: "json_object \<Rightarrow> string \<Rightarrow> string \<Rightarrow> string \<Rightarrow> violation list \<times> json_object option" where
  "mapping_field d k p c =
     (case get d k of Some (JObj v) \<Rightarrow> ([], Some v)
      | _ \<Rightarrow> ([Violation c (at_key p k) (k @ '' must be an object'')], None))"

definition enum_field :: "json_object \<Rightarrow> string \<Rightarrow> string list \<Rightarrow> string \<Rightarrow> string \<Rightarrow> violation list \<times> string option" where
  "enum_field d k choices p c =
     (case get d k of
        Some (JStr s) \<Rightarrow> if s \<in> set choices then ([], Some s)
                        else ([Violation c (at_key p k) (k @ '' is outside its closed set'')], None)
      | _ \<Rightarrow> ([Violation c (at_key p k) (k @ '' is outside its closed set'')], None))"

text \<open>\<open>_parse_time\<close>: \<open>None\<close> is a \<open>ValueError\<close>.\<close>

definition parse_time :: "string \<Rightarrow> int option result" where
  "parse_time s =
     (case fromisoformat s of
        Aware t \<Rightarrow> if 0 \<le> t \<and> t < max_instant then Inr (Some t) else Inl OverflowError
      | _ \<Rightarrow> Inr None)"

definition timestamp :: "json_object \<Rightarrow> string \<Rightarrow> string \<Rightarrow> string \<Rightarrow> (violation list \<times> int option) result" where
  "timestamp d k p c =
     (let bad = ([Violation c (at_key p k) (k @ '' must be an offset-aware ISO-8601 timestamp'')], None)
      in case get d k of
           Some (JStr s) \<Rightarrow>
             (case parse_time s of
                Inl e \<Rightarrow> Inl e | Inr None \<Rightarrow> Inr bad | Inr (Some t) \<Rightarrow> Inr ([], Some t))
         | _ \<Rightarrow> Inr bad)"

fun entries :: "string \<Rightarrow> string \<Rightarrow> nat \<Rightarrow> json list \<Rightarrow> violation list \<times> string list" where
  "entries p c i [] = ([], [])"
| "entries p c i (x # xs) =
     (let (vs, ss) = entries p c (Suc i) xs
      in case x of
           JStr s \<Rightarrow> if s \<noteq> [] then (vs, s # ss)
                     else (Violation c (at_index p i) ''array entries must be non-empty strings'' # vs, ss)
         | _ \<Rightarrow> (Violation c (at_index p i) ''array entries must be non-empty strings'' # vs, ss))"

definition strings_field :: "json_object \<Rightarrow> string \<Rightarrow> string \<Rightarrow> string \<Rightarrow> nat \<Rightarrow> violation list \<times> string list option" where
  "strings_field d k p c min_items =
     (case get d k of
        Some (JArr xs) \<Rightarrow>
          (let (vs, ss) = entries (at_key p k) c 0 xs;
               few = check (min_items \<le> length xs) c (at_key p k)
                       (k @ '' requires '' @ nat_text min_items @ '' item(s)'');
               dup = check (distinct ss) c (at_key p k) ''array entries must be unique'';
               all = few @ vs @ dup
           in (all, if all = [] then Some ss else None))
      | _ \<Rightarrow> ([Violation c (at_key p k) (k @ '' must be an array'')], None))"

section \<open>References\<close>

type_synonym index = "(string \<times> json_object) list"

definition upper_char :: "char \<Rightarrow> char" where
  "upper_char ch = (let n = (of_char ch :: nat) in if 97 \<le> n \<and> n \<le> 122 then char_of (n - 32) else ch)"

definition singular :: "string \<Rightarrow> string" where
  "singular c = map upper_char (if c \<noteq> [] \<and> last c = CHR ''s'' then butlast c else c)"

fun index_from :: "string \<Rightarrow> string \<Rightarrow> nat \<Rightarrow> index \<Rightarrow> json list \<Rightarrow> violation list \<times> index" where
  "index_from idf coll i idx [] = ([], idx)"
| "index_from idf coll i idx (x # xs) =
     (case x of
        JObj d \<Rightarrow>
          (case get d idf of
             Some (JStr s) \<Rightarrow>
               if s = [] then index_from idf coll (Suc i) idx xs
               else if map_of idx s \<noteq> None
               then (let (vs, r) = index_from idf coll (Suc i) idx xs
                     in (Violation (''DUPLICATE_'' @ singular coll @ ''_ID'') (at_key (at_index coll i) idf)
                           (idf @ '' must be unique within '' @ coll) # vs, r))
               else index_from idf coll (Suc i) (idx @ [(s, d)]) xs
           | _ \<Rightarrow> index_from idf coll (Suc i) idx xs)
      | _ \<Rightarrow> index_from idf coll (Suc i) idx xs)"

definition index_unique :: "json list \<Rightarrow> string \<Rightarrow> string \<Rightarrow> violation list \<times> index" where
  "index_unique items idf coll = index_from idf coll 0 [] items"

fun missing_refs :: "index \<Rightarrow> string \<Rightarrow> string \<Rightarrow> nat \<Rightarrow> string list \<Rightarrow> violation list" where
  "missing_refs idx p c i [] = []"
| "missing_refs idx p c i (r # rs) =
     check (map_of idx r \<noteq> None) c (at_index p i) ''reference does not exist'' @ missing_refs idx p c (Suc i) rs"

definition refs_exist :: "string list option \<Rightarrow> index \<Rightarrow> string \<Rightarrow> string \<Rightarrow> violation list \<times> bool" where
  "refs_exist refs idx p c =
     (case refs of None \<Rightarrow> ([], False)
      | Some rs \<Rightarrow> (let vs = missing_refs idx p c 0 rs in (vs, vs = [])))"

text \<open>The truth of an optional list.\<close>

definition has_items :: "'a list option \<Rightarrow> bool" where
  "has_items v = (case v of None \<Rightarrow> False | Some xs \<Rightarrow> xs \<noteq> [])"

section \<open>Authorizations and evidence\<close>

definition risk_classes :: "string list" where
  "risk_classes = [''LOW'', ''MEDIUM'', ''HIGH'', ''CRITICAL'']"

definition risk_rank :: "string \<Rightarrow> nat" where
  "risk_rank r = length (takeWhile (\<lambda>c. c \<noteq> r) risk_classes)"

definition auth_fields :: "string list" where
  "auth_fields = [''schema'', ''authorization_id'', ''issuer'', ''subject'', ''capability'', ''scope'',
     ''risk_class'', ''issued_at'', ''expires_at'', ''signature'']"

text \<open>Two steps that may raise, in order.\<close>

definition bind_result :: "'a result \<Rightarrow> ('a \<Rightarrow> 'b result) \<Rightarrow> 'b result" where
  "bind_result r f = (case r of Inl e \<Rightarrow> Inl e | Inr x \<Rightarrow> f x)"

definition check_time :: "int option \<Rightarrow> (int \<Rightarrow> bool) \<Rightarrow> string \<Rightarrow> string \<Rightarrow> string \<Rightarrow> violation list" where
  "check_time t ok c p m = (case t of None \<Rightarrow> [] | Some x \<Rightarrow> check (ok x) c p m)"

definition check_authorization :: "int \<Rightarrow> nat \<Rightarrow> json \<Rightarrow> violation list result" where
  "check_authorization now i v =
     (let p = at_index ''authorizations'' i
      in case v of
        JObj d \<Rightarrow>
          bind_result (timestamp d ''issued_at'' p ''AUTH_ISSUED_AT_INVALID'') (\<lambda>(v_issued, issued).
          bind_result (timestamp d ''expires_at'' p ''AUTH_EXPIRY_INVALID'') (\<lambda>(v_expires, expires).
            let (v_issuer, issuer) = text_field d ''issuer'' p ''AUTH_ISSUER_REQUIRED'';
                (v_subject, subject) = text_field d ''subject'' p ''AUTH_SUBJECT_REQUIRED''
            in Inr (record_fields p ''centinal26-authorization-v1'' auth_fields d
                 @ fst (text_field d ''authorization_id'' p ''AUTHORIZATION_ID_INVALID'')
                 @ v_issuer @ v_subject
                 @ check (issuer = None \<or> subject = None \<or> issuer \<noteq> subject) ''SELF_AUTHORIZATION_FORBIDDEN'' p
                     ''authorization issuer cannot authorize itself''
                 @ fst (text_field d ''capability'' p ''AUTH_CAPABILITY_REQUIRED'')
                 @ fst (mapping_field d ''scope'' p ''AUTH_SCOPE_INVALID'')
                 @ fst (enum_field d ''risk_class'' risk_classes p ''AUTH_RISK_INVALID'')
                 @ v_issued @ v_expires
                 @ check_time issued (\<lambda>t. t \<le> now) ''AUTH_NOT_YET_VALID'' (at_key p ''issued_at'')
                     ''authorization is not yet valid''
                 @ check_time expires (\<lambda>t. now < t) ''AUTH_EXPIRED'' (at_key p ''expires_at'')
                     ''authorization is expired''
                 @ check_time issued (\<lambda>a. case expires of None \<Rightarrow> True | Some b \<Rightarrow> a < b) ''AUTH_TIME_RANGE_INVALID'' p
                     ''issued_at must precede expires_at''
                 @ fst (text_field d ''signature'' p ''AUTH_SIGNATURE_REQUIRED''))))
      | _ \<Rightarrow> Inr [Violation ''AUTH_OBJECT_REQUIRED'' p ''authorization must be an object''])"

definition evidence_fields :: "string list" where
  "evidence_fields = [''schema'', ''evidence_id'', ''sha256'', ''source_type'', ''created_at'', ''immutable'']"

definition is_sha256 :: "json option \<Rightarrow> bool" where
  "is_sha256 v = (case v of
     Some (JStr s) \<Rightarrow> length s = 64 \<and> (\<forall>c\<in>set s. c \<in> set ''0123456789abcdef'')
   | _ \<Rightarrow> False)"

definition check_evidence :: "int \<Rightarrow> nat \<Rightarrow> json \<Rightarrow> violation list result" where
  "check_evidence now i v =
     (let p = at_index ''evidence'' i
      in case v of
        JObj d \<Rightarrow>
          bind_result (timestamp d ''created_at'' p ''EVIDENCE_CREATED_AT_INVALID'') (\<lambda>(v_created, created).
            Inr (record_fields p ''centinal26-governance-evidence-v1'' evidence_fields d
              @ fst (text_field d ''evidence_id'' p ''EVIDENCE_ID_INVALID'')
              @ check (is_sha256 (get d ''sha256'')) ''EVIDENCE_SHA256_INVALID'' (at_key p ''sha256'')
                  ''sha256 must be 64 lowercase hex characters''
              @ check (get d ''immutable'' = Some (JBool True)) ''EVIDENCE_NOT_IMMUTABLE'' (at_key p ''immutable'')
                  ''evidence must be explicitly immutable''
              @ fst (enum_field d ''source_type'' [''SOURCE'', ''DERIVED'', ''SUMMARY''] p ''EVIDENCE_SOURCE_TYPE_INVALID'')
              @ v_created
              @ check_time created (\<lambda>t. t \<le> now) ''EVIDENCE_FROM_FUTURE'' (at_key p ''created_at'')
                  ''evidence must exist by validation time''))
      | _ \<Rightarrow> Inr [Violation ''EVIDENCE_OBJECT_REQUIRED'' p ''evidence must be an object''])"

section \<open>Operations\<close>

definition operation_fields :: "string list" where
  "operation_fields = [''schema'', ''operation_id'', ''actor'', ''authorization_id'', ''capability_id'', ''scope'',
     ''risk_class'', ''preconditions'', ''postconditions'', ''destructive'', ''preservation_evidence_refs'']"

definition is_bool :: "json option \<Rightarrow> bool" where
  "is_bool v = (case v of Some (JBool b) \<Rightarrow> True | _ \<Rightarrow> False)"

definition check_binding :: "string \<Rightarrow> string option \<Rightarrow> string option \<Rightarrow> json_object option \<Rightarrow> string option \<Rightarrow>
    json_object \<Rightarrow> violation list" where
  "check_binding p actor capability scope risk auth =
     check (actor = None \<or> get auth ''subject'' = map_option JStr actor) ''AUTH_SUBJECT_MISMATCH'' p
       ''authorization subject must equal operation actor''
     @ check (actor = None \<or> get auth ''issuer'' \<noteq> map_option JStr actor) ''SELF_AUTHORIZATION_FORBIDDEN'' p
         ''operation actor cannot be its own authorization issuer''
     @ check (capability = None \<or> get auth ''capability'' = map_option JStr capability) ''AUTH_CAPABILITY_MISMATCH'' p
         ''authorization capability must match operation capability''
     @ (case (scope, get auth ''scope'') of
          (Some sc, Some (JObj asc)) \<Rightarrow> check (py_eq (JObj asc) (JObj sc)) ''AUTH_SCOPE_MISMATCH'' p
            ''authorization scope must exactly match operation scope''
        | _ \<Rightarrow> [])
     @ (case (risk, get auth ''risk_class'') of
          (Some r, Some (JStr ar)) \<Rightarrow>
            if ar \<in> set risk_classes
            then check (risk_rank r \<le> risk_rank ar) ''AUTH_RISK_INSUFFICIENT'' p
              ''authorization risk class is weaker than operation risk class''
            else []
        | _ \<Rightarrow> [])"

definition check_operation :: "index \<Rightarrow> index \<Rightarrow> nat \<Rightarrow> json \<Rightarrow> violation list" where
  "check_operation auths evs i v =
     (let p = at_index ''operations'' i
      in case v of
        JObj d \<Rightarrow>
          (let (v_actor, actor) = text_field d ''actor'' p ''OPERATION_ACTOR_INVALID'';
               (v_auth, auth_id) = text_field d ''authorization_id'' p ''OPERATION_AUTHORIZATION_ID_INVALID'';
               (v_cap, capability) = text_field d ''capability_id'' p ''OPERATION_CAPABILITY_INVALID'';
               (v_scope, scope) = mapping_field d ''scope'' p ''OPERATION_SCOPE_INVALID'';
               (v_risk, risk) = enum_field d ''risk_class'' risk_classes p ''OPERATION_RISK_INVALID'';
               (v_pres, refs) = strings_field d ''preservation_evidence_refs'' p ''PRESERVATION_REFS_INVALID'' 0;
               (v_refs, refs_valid) = refs_exist refs evs (at_key p ''preservation_evidence_refs'')
                                        ''PRESERVATION_EVIDENCE_UNKNOWN'';
               auth = Option.bind auth_id (map_of auths)
           in record_fields p ''centinal26-operation-v1'' operation_fields d
              @ fst (text_field d ''operation_id'' p ''OPERATION_ID_INVALID'')
              @ v_actor @ v_auth @ v_cap @ v_scope @ v_risk
              @ fst (strings_field d ''preconditions'' p ''PRECONDITIONS_INVALID'' 0)
              @ fst (strings_field d ''postconditions'' p ''POSTCONDITIONS_REQUIRED'' 1)
              @ check (is_bool (get d ''destructive'')) ''DESTRUCTIVE_FLAG_INVALID'' (at_key p ''destructive'')
                  ''destructive must be a boolean''
              @ v_pres @ v_refs
              @ check (auth_id = None \<or> auth \<noteq> None) ''AUTHORIZATION_REQUIRED'' (at_key p ''authorization_id'')
                  ''operation must reference an existing authorization''
              @ (case auth of None \<Rightarrow> [] | Some a \<Rightarrow> check_binding p actor capability scope risk a)
              @ (if get d ''destructive'' = Some (JBool True)
                 then check (has_items refs \<and> refs_valid)
                   ''PRESERVATION_REQUIRED_BEFORE_DESTRUCTIVE_ACTION'' (at_key p ''preservation_evidence_refs'')
                   ''destructive operations require evidence present by validation time''
                 else []))
      | _ \<Rightarrow> [Violation ''OPERATION_OBJECT_REQUIRED'' p ''operation must be an object''])"

section \<open>Claims, promotions, terminal events\<close>

definition claim_fields :: "string list" where
  "claim_fields = [''schema'', ''claim_id'', ''status'', ''proposition'', ''evidence_refs'', ''uncertainty'']"

definition claim_statuses :: "string list" where
  "claim_statuses = [''VERIFIED'', ''REPORTED'', ''DERIVED'', ''PROPOSED'', ''FAILED'', ''SUPERSEDED'', ''UNKNOWN'']"

definition uncertainty_valid :: "json option \<Rightarrow> bool" where
  "uncertainty_valid v = (case v of
     Some JNull \<Rightarrow> True | Some (JStr s) \<Rightarrow> True | Some (JInt i) \<Rightarrow> True | _ \<Rightarrow> False)"

definition only_summaries :: "index \<Rightarrow> string list \<Rightarrow> bool" where
  "only_summaries evs refs =
     list_all (\<lambda>r. case map_of evs r of None \<Rightarrow> False
       | Some d \<Rightarrow> get d ''source_type'' = Some (JStr ''SUMMARY'')) refs"

definition check_claim :: "index \<Rightarrow> nat \<Rightarrow> json \<Rightarrow> violation list" where
  "check_claim evs i v =
     (let p = at_index ''claims'' i
      in case v of
        JObj d \<Rightarrow>
          (let (v_status, status) = enum_field d ''status'' claim_statuses p ''CLAIM_STATUS_INVALID'';
               (v_strings, refs) = strings_field d ''evidence_refs'' p ''CLAIM_EVIDENCE_REFS_INVALID'' 0;
               (v_refs, refs_valid) = refs_exist refs evs (at_key p ''evidence_refs'') ''CLAIM_EVIDENCE_UNKNOWN'';
               backed = (has_items refs \<and> refs_valid)
           in record_fields p ''centinal26-claim-v1'' claim_fields d
              @ fst (text_field d ''claim_id'' p ''CLAIM_ID_INVALID'')
              @ v_status
              @ fst (text_field d ''proposition'' p ''CLAIM_PROPOSITION_INVALID'')
              @ check (uncertainty_valid (get d ''uncertainty'')) ''CLAIM_UNCERTAINTY_REQUIRED'' (at_key p ''uncertainty'')
                  ''uncertainty must be a string, number, or null''
              @ v_strings @ v_refs
              @ (if status = Some ''DERIVED'' \<or> status = Some ''VERIFIED''
                 then check backed ''CLAIM_PROVENANCE_REQUIRED'' (at_key p ''evidence_refs'')
                        ''derived and verified claims require existing evidence''
                      @ (if backed
                         then check (\<not> only_summaries evs (case refs of None \<Rightarrow> [] | Some rs \<Rightarrow> rs))
                           ''SUMMARY_CANNOT_REPLACE_SOURCE'' (at_key p ''evidence_refs'')
                           ''a summary alone cannot substantiate this claim status''
                         else [])
                 else []))
      | _ \<Rightarrow> [Violation ''CLAIM_OBJECT_REQUIRED'' p ''claim must be an object''])"

definition promotion_fields :: "string list" where
  "promotion_fields = [''schema'', ''promotion_id'', ''operation_id'', ''executor'', ''verifier'', ''authorized'',
     ''safe'', ''traceable'', ''verified'', ''evidence_refs'']"

definition check_promotion :: "index \<Rightarrow> index \<Rightarrow> nat \<Rightarrow> json \<Rightarrow> violation list" where
  "check_promotion ops evs i v =
     (let p = at_index ''promotions'' i
      in case v of
        JObj d \<Rightarrow>
          (let (v_op, op_id) = text_field d ''operation_id'' p ''PROMOTION_OPERATION_ID_INVALID'';
               (v_ex, executor) = text_field d ''executor'' p ''PROMOTION_EXECUTOR_INVALID'';
               (v_ver, verifier) = text_field d ''verifier'' p ''PROMOTION_VERIFIER_INVALID'';
               operation = Option.bind op_id (map_of ops);
               (v_strings, refs) = strings_field d ''evidence_refs'' p ''PROMOTION_EVIDENCE_REFS_INVALID'' 1;
               (v_refs, refs_valid) = refs_exist refs evs (at_key p ''evidence_refs'') ''PROMOTION_EVIDENCE_UNKNOWN''
           in record_fields p ''centinal26-promotion-v1'' promotion_fields d
              @ fst (text_field d ''promotion_id'' p ''PROMOTION_ID_INVALID'')
              @ v_op @ v_ex @ v_ver
              @ check (executor = None \<or> verifier = None \<or> executor \<noteq> verifier) ''INDEPENDENT_VERIFICATION_REQUIRED''
                  (at_key p ''verifier'') ''promotion verifier must differ from executor''
              @ check (op_id = None \<or> operation \<noteq> None) ''PROMOTION_OPERATION_UNKNOWN'' (at_key p ''operation_id'')
                  ''promotion must reference an existing operation''
              @ (case operation of None \<Rightarrow> []
                 | Some op \<Rightarrow> check (executor = None \<or> get op ''actor'' = map_option JStr executor)
                     ''PROMOTION_EXECUTOR_MISMATCH'' (at_key p ''executor'')
                     ''promotion executor must match operation actor'')
              @ concat (map (\<lambda>g. check (get d g = Some (JBool True)) (''PROMOTION_'' @ map upper_char g @ ''_REQUIRED'')
                  (at_key p g) (''promotion requires '' @ g @ ''=true''))
                  [''authorized'', ''safe'', ''traceable'', ''verified''])
              @ v_strings @ v_refs
              @ check (has_items refs \<and> refs_valid) ''PROMOTION_EVIDENCE_REQUIRED''
                  (at_key p ''evidence_refs'') ''promotion requires existing evidence'')
      | _ \<Rightarrow> [Violation ''PROMOTION_OBJECT_REQUIRED'' p ''promotion must be an object''])"

definition terminal_fields :: "string list" where
  "terminal_fields = [''schema'', ''terminal_event_id'', ''operation_id'', ''status'', ''evidence_refs'']"

definition check_terminal :: "index \<Rightarrow> index \<Rightarrow> nat \<Rightarrow> json \<Rightarrow> violation list" where
  "check_terminal ops evs i v =
     (let p = at_index ''terminal_events'' i
      in case v of
        JObj d \<Rightarrow>
          (let (v_op, op_id) = text_field d ''operation_id'' p ''TERMINAL_OPERATION_ID_INVALID'';
               (v_strings, refs) = strings_field d ''evidence_refs'' p ''TERMINAL_EVIDENCE_REFS_INVALID'' 1
           in record_fields p ''centinal26-terminal-event-v1'' terminal_fields d
              @ fst (text_field d ''terminal_event_id'' p ''TERMINAL_EVENT_ID_INVALID'')
              @ v_op
              @ check (op_id = None \<or> Option.bind op_id (map_of ops) \<noteq> None) ''TERMINAL_OPERATION_UNKNOWN''
                  (at_key p ''operation_id'') ''terminal event must reference an existing operation''
              @ fst (enum_field d ''status'' [''PASS'', ''REVIEW'', ''FAIL''] p ''TERMINAL_STATE_INVALID'')
              @ v_strings
              @ fst (refs_exist refs evs (at_key p ''evidence_refs'') ''TERMINAL_EVIDENCE_UNKNOWN''))
      | _ \<Rightarrow> [Violation ''TERMINAL_OBJECT_REQUIRED'' p ''terminal event must be an object''])"

section \<open>The bundle\<close>

fun each :: "(nat \<Rightarrow> json \<Rightarrow> violation list) \<Rightarrow> nat \<Rightarrow> json list \<Rightarrow> violation list" where
  "each f i [] = []"
| "each f i (x # xs) = f i x @ each f (Suc i) xs"

fun each_result :: "(nat \<Rightarrow> json \<Rightarrow> violation list result) \<Rightarrow> nat \<Rightarrow> json list \<Rightarrow> violation list result" where
  "each_result f i [] = Inr []"
| "each_result f i (x # xs) =
     bind_result (f i x) (\<lambda>vs. bind_result (each_result f (Suc i) xs) (\<lambda>ws. Inr (vs @ ws)))"

definition collection_names :: "string list" where
  "collection_names =
     [''authorizations'', ''evidence'', ''operations'', ''claims'', ''promotions'', ''terminal_events'']"

definition items_of :: "json_object \<Rightarrow> string \<Rightarrow> json list" where
  "items_of b name = (case get b name of Some (JArr xs) \<Rightarrow> xs | _ \<Rightarrow> [])"

definition bundle_fields :: "json_object \<Rightarrow> violation list" where
  "bundle_fields b =
     map (\<lambda>k. Violation ''BUNDLE_FIELD_REQUIRED'' (at_key ''$'' k) (k @ '' is required''))
       (sort (filter (\<lambda>k. get b k = None) (''schema'' # collection_names)))
     @ map (\<lambda>k. Violation ''BUNDLE_ADDITIONAL_PROPERTY_FORBIDDEN'' (at_key ''$'' k)
              (k @ '' is not allowed by the bundle schema''))
       (sort (filter (\<lambda>k. k \<notin> set (''schema'' # collection_names)) (map fst b)))
     @ (if get b ''schema'' = None then []
        else check (get b ''schema'' = Some (JStr ''centinal26-governance-bundle-v1'')) ''BUNDLE_SCHEMA_INVALID''
               ''$.schema'' ''schema must be centinal26-governance-bundle-v1'')
     @ concat (map (\<lambda>k. case get b k of None \<Rightarrow> [] | Some (JArr xs) \<Rightarrow> []
              | Some v \<Rightarrow> [Violation ''BUNDLE_COLLECTION_ARRAY_REQUIRED'' (at_key ''$'' k) (k @ '' must be an array'')])
            collection_names)"

definition validate_items :: "json_object \<Rightarrow> int \<Rightarrow> violation list result" where
  "validate_items b now =
     (let auths = items_of b ''authorizations''; evs = items_of b ''evidence''; ops = items_of b ''operations'';
          claims = items_of b ''claims''; proms = items_of b ''promotions''; terms = items_of b ''terminal_events'';
          (d_auth, auth_idx) = index_unique auths ''authorization_id'' ''authorizations'';
          (d_ev, ev_idx) = index_unique evs ''evidence_id'' ''evidence'';
          (d_op, op_idx) = index_unique ops ''operation_id'' ''operations''
      in bind_result (each_result (check_authorization now) 0 auths) (\<lambda>v_auth.
         bind_result (each_result (check_evidence now) 0 evs) (\<lambda>v_ev.
           Inr (v_auth @ v_ev @ d_auth @ d_ev
                @ each (check_operation auth_idx ev_idx) 0 ops @ d_op
                @ each (check_claim ev_idx) 0 claims @ fst (index_unique claims ''claim_id'' ''claims'')
                @ each (check_promotion op_idx ev_idx) 0 proms
                @ fst (index_unique proms ''promotion_id'' ''promotions'')
                @ each (check_terminal op_idx ev_idx) 0 terms
                @ fst (index_unique terms ''terminal_event_id'' ''terminal_events'')))))"

text \<open>
  \<open>given\<close> is the caller's validation time, \<open>clk\<close> the clock's. A caller's time outside the years 1 to
  9999 in UTC overflows.
\<close>

definition validate_bundle :: "int \<Rightarrow> iso_time option \<Rightarrow> json \<Rightarrow> violation list result" where
  "validate_bundle clk given v =
     (case v of
        JObj b \<Rightarrow>
          (case given of
             Some NotIso \<Rightarrow> Inr [Violation ''REPLAY_TIME_INVALID'' ''$'' ''validation time must be offset-aware'']
           | Some (Naive _) \<Rightarrow> Inr [Violation ''REPLAY_TIME_INVALID'' ''$'' ''validation time must be offset-aware'']
           | Some (Aware t) \<Rightarrow>
               if 0 \<le> t \<and> t < max_instant
               then bind_result (validate_items b t) (\<lambda>vs. Inr (sort (remdups (bundle_fields b @ vs))))
               else Inl OverflowError
           | None \<Rightarrow> bind_result (validate_items b clk) (\<lambda>vs. Inr (sort (remdups (bundle_fields b @ vs)))))
      | _ \<Rightarrow> Inr [Violation ''BUNDLE_OBJECT_REQUIRED'' ''$'' ''bundle root must be an object''])"

section \<open>Reports\<close>

definition violation_dict :: "violation \<Rightarrow> json" where
  "violation_dict v = JObj [(''code'', JStr (code v)), (''path'', JStr (path v)), (''message'', JStr (message v))]"

definition report :: "violation list \<Rightarrow> json_object" where
  "report vs = [(''schema'', JStr ''centinal26-governance-report-v1''), (''valid'', JBool (vs = [])),
     (''violation_count'', JInt (int (length vs))), (''violations'', JArr (map violation_dict vs))]"

text \<open>The decoded file, or the line and the column of the decoding error.\<close>

definition validate_file :: "int \<Rightarrow> iso_time option \<Rightarrow> (nat \<times> nat) + json \<Rightarrow> json_object result" where
  "validate_file clk given file =
     (case file of
        Inl (line, column) \<Rightarrow> Inr (report [Violation ''JSON_INVALID'' ''$''
          (''invalid JSON at line '' @ nat_text line @ '', column '' @ nat_text column)])
      | Inr v \<Rightarrow> bind_result (validate_bundle clk given v) (\<lambda>vs. Inr (report vs)))"

text \<open>The command line: the report and the exit code.\<close>

definition governance_main :: "int \<Rightarrow> string option \<Rightarrow> (nat \<times> nat) + json \<Rightarrow> (json_object \<times> nat) result" where
  "governance_main clk at_time file =
     bind_result
       (case at_time of
          None \<Rightarrow> validate_file clk None file
        | Some s \<Rightarrow>
            if s = [] then validate_file clk None file
            else bind_result (parse_time s) (\<lambda>t. case t of
                None \<Rightarrow> Inr (report [Violation ''REPLAY_TIME_INVALID'' ''$.at_time''
                  ''--at must be an offset-aware ISO-8601 timestamp''])
              | Some now \<Rightarrow> validate_file clk (Some (Aware now)) file))
       (\<lambda>r. Inr (r, if get r ''valid'' = Some (JBool True) then 0 else 2))"

end
