(* ===== verification/Governance_Bundle_Claims.thy ===== *)
theory Governance_Bundle_Claims
  imports Governance_Bundle
begin

text \<open>
  What an accepted bundle guarantees, stated on the bundle itself, without positions, indexes or the
  order of the checks.
\<close>

section \<open>Empty violation lists\<close>

lemma check_empty [simp]: "check ok c p m = [] \<longleftrightarrow> ok"
  by (simp add: check_def)

lemma check_time_empty [simp]: "check_time t ok c p m = [] \<longleftrightarrow> (\<forall>x\<in>set_option t. ok x)"
  by (simp add: check_time_def split: option.split)

lemma has_items_Some [simp]: "has_items (Some xs) \<longleftrightarrow> xs \<noteq> []"
  by (simp add: has_items_def)

lemma text_field_empty:
  "fst (text_field d k p c) = [] \<longleftrightarrow> (\<exists>s. get d k = Some (JStr s) \<and> s \<noteq> [] \<and> text_field d k p c = ([], Some s))"
  by (simp add: text_field_def split: option.split json.split)

lemma mapping_field_empty:
  "fst (mapping_field d k p c) = [] \<longleftrightarrow> (\<exists>v. get d k = Some (JObj v) \<and> mapping_field d k p c = ([], Some v))"
  by (simp add: mapping_field_def split: option.split json.split)

lemma enum_field_empty:
  "fst (enum_field d k cs p c) = [] \<longleftrightarrow>
     (\<exists>s. get d k = Some (JStr s) \<and> s \<in> set cs \<and> enum_field d k cs p c = ([], Some s))"
  by (simp add: enum_field_def split: option.split json.split)

lemma entries_empty: "fst (entries p c i xs) = [] \<Longrightarrow> xs = map JStr (snd (entries p c i xs))"
  by (induction p c i xs rule: entries.induct) (auto simp: case_prod_beta split: json.splits if_splits)

lemma strings_field_empty:
  "fst (strings_field d k p c n) = [] \<Longrightarrow>
     (\<exists>ss. get d k = Some (JArr (map JStr ss)) \<and> n \<le> length ss \<and> distinct ss \<and> strings_field d k p c n = ([], Some ss))"
  using entries_empty [of "at_key p k" c 0]
  by (auto simp: strings_field_def case_prod_beta Let_def split: option.splits json.splits)
     (metis length_map)

lemma missing_refs_empty: "missing_refs idx p c i rs = [] \<longleftrightarrow> (\<forall>r\<in>set rs. map_of idx r \<noteq> None)"
  by (induction idx p c i rs rule: missing_refs.induct) auto

lemma refs_exist_empty:
  "fst (refs_exist (Some rs) idx p c) = [] \<longleftrightarrow> (\<forall>r\<in>set rs. map_of idx r \<noteq> None)"
  by (simp add: refs_exist_def missing_refs_empty Let_def)

lemma each_empty: "each f i xs = [] \<Longrightarrow> v \<in> set xs \<Longrightarrow> \<exists>j. f j v = []"
  by (induction f i xs rule: each.induct) auto

lemma bind_result_Inr: "bind_result r f = Inr y \<longleftrightarrow> (\<exists>x. r = Inr x \<and> f x = Inr y)"
  by (cases r) (auto simp: bind_result_def)

lemma each_result_empty: "each_result f i xs = Inr [] \<Longrightarrow> v \<in> set xs \<Longrightarrow> \<exists>j. f j v = Inr []"
  by (induction f i xs rule: each_result.induct) (auto simp: bind_result_Inr)

text \<open>An index without a duplicate finds exactly the objects of its list.\<close>

lemma index_from_empty:
  "index_from idf coll i idx xs = ([], r) \<Longrightarrow>
     map_of r s = Some d \<longleftrightarrow> map_of idx s = Some d \<or> JObj d \<in> set xs \<and> get d idf = Some (JStr s) \<and> s \<noteq> []"
proof (induction xs arbitrary: i idx)
  case (Cons x xs)
  show ?case
  proof (cases "\<exists>e t. x = JObj e \<and> get e idf = Some (JStr t) \<and> t \<noteq> []")
    case True
    then obtain e t where x: "x = JObj e" "get e idf = Some (JStr t)" "t \<noteq> []" by blast
    have fresh: "map_of idx t = None"
      using Cons.prems x by (cases "map_of idx t") (simp_all add: case_prod_beta)
    then have "index_from idf coll (Suc i) (idx @ [(t, e)]) xs = ([], r)" using Cons.prems x by simp
    then have "map_of r s = Some d \<longleftrightarrow> map_of (idx @ [(t, e)]) s = Some d
        \<or> JObj d \<in> set xs \<and> get d idf = Some (JStr s) \<and> s \<noteq> []"
      by (rule Cons.IH)
    moreover have "map_of (idx @ [(t, e)]) s = Some d \<longleftrightarrow> map_of idx s = Some d \<or> s = t \<and> d = e"
      using fresh by (auto simp: map_add_def split: option.splits)
    ultimately show ?thesis using x by auto
  next
    case False
    have rest: "index_from idf coll (Suc i) idx xs = ([], r)"
      using Cons.prems False by (auto split: json.splits option.splits if_splits)
    from Cons.IH [OF this] False show ?thesis by auto
  qed
qed simp

lemma index_unique_finds:
  "fst (index_unique xs idf coll) = [] \<Longrightarrow>
     map_of (snd (index_unique xs idf coll)) s = Some d \<longleftrightarrow> JObj d \<in> set xs \<and> get d idf = Some (JStr s) \<and> s \<noteq> []"
  using index_from_empty [of idf coll 0 "[]" xs "snd (index_unique xs idf coll)" s d]
  by (simp add: index_unique_def prod_eq_iff)

section \<open>What the checks mean\<close>

definition live_at :: "int \<Rightarrow> json_object \<Rightarrow> bool" where
  "live_at now a \<longleftrightarrow> (\<exists>s e t u. get a ''issued_at'' = Some (JStr s) \<and> parse_time s = Inr (Some t)
     \<and> get a ''expires_at'' = Some (JStr e) \<and> parse_time e = Inr (Some u) \<and> t \<le> now \<and> now < u)"

definition sound_evidence :: "int \<Rightarrow> json_object \<Rightarrow> bool" where
  "sound_evidence now e \<longleftrightarrow> get e ''immutable'' = Some (JBool True) \<and> is_sha256 (get e ''sha256'')
     \<and> (\<exists>s t. get e ''created_at'' = Some (JStr s) \<and> parse_time s = Inr (Some t) \<and> t \<le> now)"

definition authorizes :: "json_object \<Rightarrow> json_object \<Rightarrow> bool" where
  "authorizes a d \<longleftrightarrow> get a ''authorization_id'' = get d ''authorization_id''
     \<and> get a ''subject'' = get d ''actor'' \<and> get a ''issuer'' \<noteq> get d ''actor''
     \<and> get a ''capability'' = get d ''capability_id''
     \<and> (\<exists>s s'. get a ''scope'' = Some (JObj s) \<and> get d ''scope'' = Some (JObj s') \<and> py_eq (JObj s) (JObj s'))
     \<and> (\<exists>r r'. get a ''risk_class'' = Some (JStr r) \<and> get d ''risk_class'' = Some (JStr r')
          \<and> r \<in> set risk_classes \<and> r' \<in> set risk_classes \<and> risk_rank r' \<le> risk_rank r)"

lemma timestamp_empty:
  "timestamp d k p c = Inr ([], t) \<Longrightarrow> \<exists>s x. get d k = Some (JStr s) \<and> parse_time s = Inr (Some x) \<and> t = Some x"
  by (auto simp: timestamp_def Let_def split: option.splits json.splits sum.splits)

lemma authorization_ok:
  assumes "check_authorization now i v = Inr []"
  shows "\<exists>a. v = JObj a \<and> live_at now a \<and> get a ''issuer'' \<noteq> get a ''subject''
    \<and> (\<exists>s. get a ''scope'' = Some (JObj s)) \<and> (\<exists>r. get a ''risk_class'' = Some (JStr r) \<and> r \<in> set risk_classes)"
proof (cases v)
  case (JObj a)
  define p where "p = at_index ''authorizations'' i"
  obtain v1 issued v2 expires where
    t1: "timestamp a ''issued_at'' p ''AUTH_ISSUED_AT_INVALID'' = Inr (v1, issued)"
    and t2: "timestamp a ''expires_at'' p ''AUTH_EXPIRY_INVALID'' = Inr (v2, expires)"
    using assms unfolding check_authorization_def JObj p_def [symmetric] Let_def
    by (auto simp: bind_result_Inr)
  note all = assms [unfolded check_authorization_def JObj p_def [symmetric] Let_def json.case t1 t2 bind_result_def
      sum.case case_prod_beta fst_conv snd_conv sum.inject append_is_Nil_conv check_empty check_time_empty]
  then have v: "v1 = []" "v2 = []" by simp_all
  obtain s t where s: "get a ''issued_at'' = Some (JStr s)" "parse_time s = Inr (Some t)" "issued = Some t"
    using timestamp_empty t1 v by blast
  obtain e u where e: "get a ''expires_at'' = Some (JStr e)" "parse_time e = Inr (Some u)" "expires = Some u"
    using timestamp_empty t2 v by blast
  have "t \<le> now" "now < u" using all s e by simp_all
  then have "live_at now a" unfolding live_at_def using s e by blast
  moreover have "get a ''issuer'' \<noteq> get a ''subject''"
    using all text_field_empty [of a "''issuer''" p] text_field_empty [of a "''subject''" p] by auto
  moreover have "\<exists>s. get a ''scope'' = Some (JObj s)" using all mapping_field_empty by blast
  moreover have "\<exists>r. get a ''risk_class'' = Some (JStr r) \<and> r \<in> set risk_classes" using all enum_field_empty by blast
  ultimately show ?thesis using JObj by blast
qed (use assms in \<open>simp_all add: check_authorization_def Let_def\<close>)

lemma evidence_ok:
  assumes "check_evidence now i v = Inr []"
  shows "\<exists>e. v = JObj e \<and> sound_evidence now e"
proof (cases v)
  case (JObj e)
  define p where "p = at_index ''evidence'' i"
  obtain v1 created where t1: "timestamp e ''created_at'' p ''EVIDENCE_CREATED_AT_INVALID'' = Inr (v1, created)"
    using assms unfolding check_evidence_def JObj p_def [symmetric] Let_def by (auto simp: bind_result_Inr)
  note all = assms [unfolded check_evidence_def JObj p_def [symmetric] Let_def json.case t1 bind_result_def
      sum.case case_prod_beta fst_conv snd_conv sum.inject append_is_Nil_conv check_empty check_time_empty]
  then have "v1 = []" by simp
  with t1 timestamp_empty obtain s t where "get e ''created_at'' = Some (JStr s)" "parse_time s = Inr (Some t)"
    "created = Some t" by blast
  with all JObj show ?thesis unfolding sound_evidence_def by simp
qed (use assms in \<open>simp_all add: check_evidence_def Let_def\<close>)

text \<open>The references of a list field, each to an object of the index.\<close>

definition refers :: "index \<Rightarrow> json_object \<Rightarrow> string \<Rightarrow> bool" where
  "refers idx d k \<longleftrightarrow> (\<exists>rs. get d k = Some (JArr (map JStr rs)) \<and> rs \<noteq> [] \<and> (\<forall>r\<in>set rs. map_of idx r \<noteq> None))"

lemma operation_ok:
  assumes "check_operation auths evs i v = []"
  shows "\<exists>d a s. v = JObj d \<and> get d ''authorization_id'' = Some (JStr s) \<and> map_of auths s = Some a
    \<and> get a ''subject'' = get d ''actor'' \<and> get a ''issuer'' \<noteq> get d ''actor''
    \<and> get a ''capability'' = get d ''capability_id''
    \<and> (\<forall>x. get a ''scope'' = Some (JObj x) \<longrightarrow> (\<exists>y. get d ''scope'' = Some (JObj y) \<and> py_eq (JObj x) (JObj y)))
    \<and> (\<forall>r. get a ''risk_class'' = Some (JStr r) \<longrightarrow> r \<in> set risk_classes \<longrightarrow>
         (\<exists>r'. get d ''risk_class'' = Some (JStr r') \<and> r' \<in> set risk_classes \<and> risk_rank r' \<le> risk_rank r))
    \<and> (get d ''destructive'' = Some (JBool True) \<longrightarrow> refers evs d ''preservation_evidence_refs'')"
proof (cases v)
  case (JObj d)
  define p where "p = at_index ''operations'' i"
  note all = assms [unfolded check_operation_def JObj p_def [symmetric] Let_def json.case case_prod_beta
      append_is_Nil_conv check_empty]
  obtain actor where actor: "get d ''actor'' = Some (JStr actor)"
      "text_field d ''actor'' p ''OPERATION_ACTOR_INVALID'' = ([], Some actor)"
    using all text_field_empty by blast
  obtain s where s: "get d ''authorization_id'' = Some (JStr s)"
      "text_field d ''authorization_id'' p ''OPERATION_AUTHORIZATION_ID_INVALID'' = ([], Some s)"
    using all text_field_empty by blast
  obtain cap where cap: "get d ''capability_id'' = Some (JStr cap)"
      "text_field d ''capability_id'' p ''OPERATION_CAPABILITY_INVALID'' = ([], Some cap)"
    using all text_field_empty by blast
  obtain sc where sc: "get d ''scope'' = Some (JObj sc)"
      "mapping_field d ''scope'' p ''OPERATION_SCOPE_INVALID'' = ([], Some sc)"
    using all mapping_field_empty by blast
  obtain r' where r': "get d ''risk_class'' = Some (JStr r')" "r' \<in> set risk_classes"
      "enum_field d ''risk_class'' risk_classes p ''OPERATION_RISK_INVALID'' = ([], Some r')"
    using all enum_field_empty by blast
  obtain rs where rs: "get d ''preservation_evidence_refs'' = Some (JArr (map JStr rs))"
      "strings_field d ''preservation_evidence_refs'' p ''PRESERVATION_REFS_INVALID'' 0 = ([], Some rs)"
    using all strings_field_empty [of d "''preservation_evidence_refs''" p "''PRESERVATION_REFS_INVALID''" 0] by blast
  have auth: "Option.bind (Some s) (map_of auths) \<noteq> None"
    using all unfolding s(2) snd_conv by simp
  then obtain a where a: "map_of auths s = Some a" by auto
  have "check_binding p (Some actor) (Some cap) (Some sc) (Some r') a = []"
    using all unfolding actor(2) cap(2) sc(2) r'(3) s(2) snd_conv by (simp add: a)
  note b = this [unfolded check_binding_def append_is_Nil_conv check_empty]
  have "get d ''destructive'' = Some (JBool True) \<longrightarrow> refers evs d ''preservation_evidence_refs''"
    using all unfolding rs(2) snd_conv refs_exist_empty refers_def rs(1) by auto
  moreover have "get a ''subject'' = get d ''actor''" "get a ''issuer'' \<noteq> get d ''actor''"
    "get a ''capability'' = get d ''capability_id''" using b actor cap by auto
  moreover have "\<forall>x. get a ''scope'' = Some (JObj x) \<longrightarrow> (\<exists>y. get d ''scope'' = Some (JObj y) \<and> py_eq (JObj x) (JObj y))"
    using b sc by auto
  moreover have "\<forall>r. get a ''risk_class'' = Some (JStr r) \<longrightarrow> r \<in> set risk_classes \<longrightarrow>
      (\<exists>r'. get d ''risk_class'' = Some (JStr r') \<and> r' \<in> set risk_classes \<and> risk_rank r' \<le> risk_rank r)"
    using b r' by auto
  ultimately show ?thesis using JObj s a by blast
qed (use assms in \<open>simp_all add: check_operation_def Let_def\<close>)

lemma promotion_ok:
  assumes "check_promotion ops evs i v = []"
  shows "\<exists>d s op. v = JObj d \<and> get d ''operation_id'' = Some (JStr s) \<and> map_of ops s = Some op
    \<and> get d ''executor'' = get op ''actor'' \<and> get d ''verifier'' \<noteq> get d ''executor''
    \<and> (\<exists>e v. get d ''executor'' = Some (JStr e) \<and> get d ''verifier'' = Some (JStr v))
    \<and> (\<forall>g\<in>{''authorized'', ''safe'', ''traceable'', ''verified''}. get d g = Some (JBool True))
    \<and> refers evs d ''evidence_refs''"
proof (cases v)
  case (JObj d)
  define p where "p = at_index ''promotions'' i"
  note all = assms [unfolded check_promotion_def JObj p_def [symmetric] Let_def json.case case_prod_beta
      append_is_Nil_conv check_empty]
  obtain s where s: "get d ''operation_id'' = Some (JStr s)"
      "text_field d ''operation_id'' p ''PROMOTION_OPERATION_ID_INVALID'' = ([], Some s)"
    using all text_field_empty by blast
  obtain e where e: "get d ''executor'' = Some (JStr e)"
      "text_field d ''executor'' p ''PROMOTION_EXECUTOR_INVALID'' = ([], Some e)"
    using all text_field_empty by blast
  obtain w where w: "get d ''verifier'' = Some (JStr w)"
      "text_field d ''verifier'' p ''PROMOTION_VERIFIER_INVALID'' = ([], Some w)"
    using all text_field_empty by blast
  obtain rs where rs: "get d ''evidence_refs'' = Some (JArr (map JStr rs))" "1 \<le> length rs"
      "strings_field d ''evidence_refs'' p ''PROMOTION_EVIDENCE_REFS_INVALID'' 1 = ([], Some rs)"
    using all strings_field_empty [of d "''evidence_refs''" p "''PROMOTION_EVIDENCE_REFS_INVALID''" 1] by blast
  have "Option.bind (Some s) (map_of ops) \<noteq> None" using all unfolding s(2) snd_conv by simp
  then obtain op where op: "map_of ops s = Some op" by auto
  have "get d ''executor'' = get op ''actor''" using all unfolding s(2) e(2) snd_conv by (simp add: op e(1))
  moreover have "get d ''verifier'' \<noteq> get d ''executor''" using all unfolding e(2) w(2) snd_conv by (auto simp: e w)
  moreover have "refers evs d ''evidence_refs''"
    using all unfolding rs(3) snd_conv refs_exist_empty refers_def rs(1) by auto
  moreover have "\<forall>g\<in>{''authorized'', ''safe'', ''traceable'', ''verified''}. get d g = Some (JBool True)"
    using all by simp
  ultimately show ?thesis using JObj s op e w by blast
qed (use assms in \<open>simp_all add: check_promotion_def Let_def\<close>)

section \<open>An accepted bundle\<close>

definition validation_time :: "int \<Rightarrow> iso_time option \<Rightarrow> int" where
  "validation_time clk given = (case given of Some (Aware t) \<Rightarrow> t | _ \<Rightarrow> clk)"

lemma sorted_set_empty: "sort (remdups vs) = [] \<longleftrightarrow> vs = ([] :: violation list)"
  by (metis remdups_eq_nil_iff set_empty set_sort)

lemma accepted_items:
  "validate_bundle clk given (JObj b) = Inr [] \<Longrightarrow> validate_items b (validation_time clk given) = Inr []"
  by (auto simp: validate_bundle_def validation_time_def bind_result_Inr sorted_set_empty
      split: option.splits iso_time.splits if_splits)

lemma accepted:
  assumes "validate_bundle clk given (JObj b) = Inr []"
  defines "now \<equiv> validation_time clk given"
  defines "auths \<equiv> snd (index_unique (items_of b ''authorizations'') ''authorization_id'' ''authorizations'')"
  defines "evs \<equiv> snd (index_unique (items_of b ''evidence'') ''evidence_id'' ''evidence'')"
  defines "ops \<equiv> snd (index_unique (items_of b ''operations'') ''operation_id'' ''operations'')"
  shows "\<And>v. v \<in> set (items_of b ''authorizations'') \<Longrightarrow> \<exists>i. check_authorization now i v = Inr []"
    and "\<And>v. v \<in> set (items_of b ''evidence'') \<Longrightarrow> \<exists>i. check_evidence now i v = Inr []"
    and "\<And>v. v \<in> set (items_of b ''operations'') \<Longrightarrow> \<exists>i. check_operation auths evs i v = []"
    and "\<And>v. v \<in> set (items_of b ''claims'') \<Longrightarrow> \<exists>i. check_claim evs i v = []"
    and "\<And>v. v \<in> set (items_of b ''promotions'') \<Longrightarrow> \<exists>i. check_promotion ops evs i v = []"
    and "\<And>s a. map_of auths s = Some a \<longleftrightarrow> JObj a \<in> set (items_of b ''authorizations'')
           \<and> get a ''authorization_id'' = Some (JStr s) \<and> s \<noteq> []"
    and "\<And>s e. map_of evs s = Some e \<longleftrightarrow> JObj e \<in> set (items_of b ''evidence'')
           \<and> get e ''evidence_id'' = Some (JStr s) \<and> s \<noteq> []"
    and "\<And>s d. map_of ops s = Some d \<longleftrightarrow> JObj d \<in> set (items_of b ''operations'')
           \<and> get d ''operation_id'' = Some (JStr s) \<and> s \<noteq> []"
proof -
  obtain va ve where va: "each_result (check_authorization now) 0 (items_of b ''authorizations'') = Inr va"
    and ve: "each_result (check_evidence now) 0 (items_of b ''evidence'') = Inr ve"
    and rest: "va @ ve @ fst (index_unique (items_of b ''authorizations'') ''authorization_id'' ''authorizations'')
        @ fst (index_unique (items_of b ''evidence'') ''evidence_id'' ''evidence'')
        @ each (check_operation auths evs) 0 (items_of b ''operations'')
        @ fst (index_unique (items_of b ''operations'') ''operation_id'' ''operations'')
        @ each (check_claim evs) 0 (items_of b ''claims'')
        @ fst (index_unique (items_of b ''claims'') ''claim_id'' ''claims'')
        @ each (check_promotion ops evs) 0 (items_of b ''promotions'')
        @ fst (index_unique (items_of b ''promotions'') ''promotion_id'' ''promotions'')
        @ each (check_terminal ops evs) 0 (items_of b ''terminal_events'')
        @ fst (index_unique (items_of b ''terminal_events'') ''terminal_event_id'' ''terminal_events'') = []"
    using accepted_items [OF assms(1)] unfolding validate_items_def Let_def case_prod_beta bind_result_Inr
      now_def auths_def evs_def ops_def by blast
  note e = rest [unfolded append_is_Nil_conv]
  show "\<exists>i. check_authorization now i v = Inr []" if "v \<in> set (items_of b ''authorizations'')" for v
    using each_result_empty [OF _ that] va e by blast
  show "\<exists>i. check_evidence now i v = Inr []" if "v \<in> set (items_of b ''evidence'')" for v
    using each_result_empty [OF _ that] ve e by blast
  show "\<exists>i. check_operation auths evs i v = []" if "v \<in> set (items_of b ''operations'')" for v
    using each_empty [OF _ that] e by blast
  show "\<exists>i. check_claim evs i v = []" if "v \<in> set (items_of b ''claims'')" for v
    using each_empty [OF _ that] e by blast
  show "\<exists>i. check_promotion ops evs i v = []" if "v \<in> set (items_of b ''promotions'')" for v
    using each_empty [OF _ that] e by blast
  show "map_of auths s = Some a \<longleftrightarrow> JObj a \<in> set (items_of b ''authorizations'')
      \<and> get a ''authorization_id'' = Some (JStr s) \<and> s \<noteq> []" for s a
    unfolding auths_def by (rule index_unique_finds) (use e in blast)
  show "map_of evs s = Some d \<longleftrightarrow> JObj d \<in> set (items_of b ''evidence'')
      \<and> get d ''evidence_id'' = Some (JStr s) \<and> s \<noteq> []" for s d
    unfolding evs_def by (rule index_unique_finds) (use e in blast)
  show "map_of ops s = Some d \<longleftrightarrow> JObj d \<in> set (items_of b ''operations'')
      \<and> get d ''operation_id'' = Some (JStr s) \<and> s \<noteq> []" for s d
    unfolding ops_def by (rule index_unique_finds) (use e in blast)
qed

text \<open>A list field whose every entry names sound evidence of the bundle.\<close>

definition rests_on_evidence :: "json_object \<Rightarrow> int \<Rightarrow> json_object \<Rightarrow> string \<Rightarrow> bool" where
  "rests_on_evidence b now d k \<longleftrightarrow> (\<exists>rs. get d k = Some (JArr (map JStr rs)) \<and> rs \<noteq> []
     \<and> (\<forall>r\<in>set rs. \<exists>e. JObj e \<in> set (items_of b ''evidence'') \<and> get e ''evidence_id'' = Some (JStr r)
          \<and> sound_evidence now e))"

lemma accepted_refers:
  assumes acc: "validate_bundle clk given (JObj b) = Inr []"
    and r: "refers (snd (index_unique (items_of b ''evidence'') ''evidence_id'' ''evidence'')) d k"
  shows "rests_on_evidence b (validation_time clk given) d k"
proof -
  obtain rs where rs: "get d k = Some (JArr (map JStr rs))" "rs \<noteq> []"
    "\<forall>x\<in>set rs. map_of (snd (index_unique (items_of b ''evidence'') ''evidence_id'' ''evidence'')) x \<noteq> None"
    using r unfolding refers_def by blast
  have "\<exists>e. JObj e \<in> set (items_of b ''evidence'') \<and> get e ''evidence_id'' = Some (JStr x)
      \<and> sound_evidence (validation_time clk given) e" if x: "x \<in> set rs" for x
  proof -
    obtain e where e: "JObj e \<in> set (items_of b ''evidence'')" "get e ''evidence_id'' = Some (JStr x)"
      using rs(3) x accepted(7) [OF acc] by blast
    then obtain i where "check_evidence (validation_time clk given) i (JObj e) = Inr []"
      using accepted(2) [OF acc] by blast
    with evidence_ok e show ?thesis by blast
  qed
  with rs show ?thesis unfolding rests_on_evidence_def by blast
qed

lemma operation_authorized:
  assumes acc: "validate_bundle clk given (JObj b) = Inr []" and v: "v \<in> set (items_of b ''operations'')"
  shows "\<exists>d a. v = JObj d \<and> JObj a \<in> set (items_of b ''authorizations'') \<and> authorizes a d
    \<and> live_at (validation_time clk given) a
    \<and> (get d ''destructive'' = Some (JBool True) \<longrightarrow>
         rests_on_evidence b (validation_time clk given) d ''preservation_evidence_refs'')"
proof -
  obtain i where "check_operation (snd (index_unique (items_of b ''authorizations'') ''authorization_id'' ''authorizations''))
      (snd (index_unique (items_of b ''evidence'') ''evidence_id'' ''evidence'')) i v = []"
    using accepted(3) [OF acc v] by blast
  from operation_ok [OF this] obtain d a s where d: "v = JObj d" "get d ''authorization_id'' = Some (JStr s)"
    and a: "map_of (snd (index_unique (items_of b ''authorizations'') ''authorization_id'' ''authorizations'')) s = Some a"
    and bind: "get a ''subject'' = get d ''actor''" "get a ''issuer'' \<noteq> get d ''actor''"
      "get a ''capability'' = get d ''capability_id''"
      "\<forall>x. get a ''scope'' = Some (JObj x) \<longrightarrow> (\<exists>y. get d ''scope'' = Some (JObj y) \<and> py_eq (JObj x) (JObj y))"
      "\<forall>r. get a ''risk_class'' = Some (JStr r) \<longrightarrow> r \<in> set risk_classes \<longrightarrow>
         (\<exists>r'. get d ''risk_class'' = Some (JStr r') \<and> r' \<in> set risk_classes \<and> risk_rank r' \<le> risk_rank r)"
    and destr: "get d ''destructive'' = Some (JBool True) \<longrightarrow>
      refers (snd (index_unique (items_of b ''evidence'') ''evidence_id'' ''evidence'')) d ''preservation_evidence_refs''"
    by blast
  have in_auths: "JObj a \<in> set (items_of b ''authorizations'')" "get a ''authorization_id'' = Some (JStr s)"
    using accepted(6) [OF acc] a by blast+
  then obtain j where "check_authorization (validation_time clk given) j (JObj a) = Inr []"
    using accepted(1) [OF acc] by blast
  from authorization_ok [OF this] have live: "live_at (validation_time clk given) a"
    and sc: "\<exists>x. get a ''scope'' = Some (JObj x)" and ri: "\<exists>r. get a ''risk_class'' = Some (JStr r) \<and> r \<in> set risk_classes"
    by blast+
  have "authorizes a d" unfolding authorizes_def using d(2) in_auths(2) bind sc ri by metis
  with d in_auths live destr accepted_refers [OF acc] show ?thesis by blast
qed

section \<open>Properties\<close>

text \<open>
  C17. In an accepted bundle every operation is authorized: by an authorization of the bundle that
  names the operation's actor as its subject and someone else as its issuer, grants the same
  capability and an equal scope at no lower risk class, and is in force at the validation time; and
  a destructive operation names immutable evidence of the bundle that already existed then.
\<close>

theorem accepted_operations_are_authorized:
  assumes "validate_bundle clk given (JObj b) = Inr []" and "v \<in> set (items_of b ''operations'')"
  shows "\<exists>d a. v = JObj d \<and> JObj a \<in> set (items_of b ''authorizations'') \<and> authorizes a d
    \<and> live_at (validation_time clk given) a
    \<and> (get d ''destructive'' = Some (JBool True) \<longrightarrow>
         rests_on_evidence b (validation_time clk given) d ''preservation_evidence_refs'')"
  by (rule operation_authorized [OF assms])

text \<open>
  In an accepted bundle a promotion keeps three parties apart: its executor is the actor of an
  operation of the bundle, the verifier is someone else, and so is the issuer of the live
  authorization of that operation; all four gates are true and the promotion rests on immutable
  evidence that existed at the validation time.
\<close>

theorem accepted_promotions_separate_duties:
  assumes acc: "validate_bundle clk given (JObj b) = Inr []" and v: "v \<in> set (items_of b ''promotions'')"
  shows "\<exists>p d a. v = JObj p \<and> JObj d \<in> set (items_of b ''operations'') \<and> get d ''operation_id'' = get p ''operation_id''
    \<and> get p ''executor'' = get d ''actor'' \<and> get p ''verifier'' \<noteq> get p ''executor''
    \<and> JObj a \<in> set (items_of b ''authorizations'') \<and> authorizes a d \<and> get a ''issuer'' \<noteq> get p ''executor''
    \<and> live_at (validation_time clk given) a
    \<and> (\<forall>g\<in>{''authorized'', ''safe'', ''traceable'', ''verified''}. get p g = Some (JBool True))
    \<and> rests_on_evidence b (validation_time clk given) p ''evidence_refs''"
proof -
  obtain i where "check_promotion (snd (index_unique (items_of b ''operations'') ''operation_id'' ''operations''))
      (snd (index_unique (items_of b ''evidence'') ''evidence_id'' ''evidence'')) i v = []"
    using accepted(5) [OF acc v] by blast
  from promotion_ok [OF this] obtain p s d where p: "v = JObj p" "get p ''operation_id'' = Some (JStr s)"
    and d: "map_of (snd (index_unique (items_of b ''operations'') ''operation_id'' ''operations'')) s = Some d"
    and ex: "get p ''executor'' = get d ''actor''" "get p ''verifier'' \<noteq> get p ''executor''"
    and gates: "\<forall>g\<in>{''authorized'', ''safe'', ''traceable'', ''verified''}. get p g = Some (JBool True)"
    and refs: "refers (snd (index_unique (items_of b ''evidence'') ''evidence_id'' ''evidence'')) p ''evidence_refs''"
    by blast
  have dd: "JObj d \<in> set (items_of b ''operations'')" "get d ''operation_id'' = Some (JStr s)"
    using accepted(8) [OF acc] d by blast+
  from operation_authorized [OF acc dd(1)] obtain a where "JObj a \<in> set (items_of b ''authorizations'')" "authorizes a d"
    "live_at (validation_time clk given) a" by blast
  moreover from this have "get a ''issuer'' \<noteq> get p ''executor''" unfolding authorizes_def ex(1) by blast
  ultimately show ?thesis using p dd ex gates accepted_refers [OF acc refs] by metis
qed

section \<open>A concrete bundle\<close>

definition example_bundle :: json_object where
  "example_bundle =
    [(''schema'', JStr ''centinal26-governance-bundle-v1''),
     (''authorizations'', JArr [JObj [(''schema'', JStr ''centinal26-authorization-v1''),
        (''authorization_id'', JStr ''a1''), (''issuer'', JStr ''owner''), (''subject'', JStr ''bot''),
        (''capability'', JStr ''write''), (''scope'', JObj []), (''risk_class'', JStr ''HIGH''),
        (''issued_at'', JStr ''2026-01-01T00:00:00Z''), (''expires_at'', JStr ''2026-12-31T00:00:00Z''),
        (''signature'', JStr ''s'')]]),
     (''evidence'', JArr [JObj [(''schema'', JStr ''centinal26-governance-evidence-v1''), (''evidence_id'', JStr ''e1''),
        (''sha256'', JStr (replicate 64 (CHR ''0''))), (''source_type'', JStr ''SOURCE''),
        (''created_at'', JStr ''2026-01-01T00:00:00Z''), (''immutable'', JBool True)]]),
     (''operations'', JArr [JObj [(''schema'', JStr ''centinal26-operation-v1''), (''operation_id'', JStr ''o1''),
        (''actor'', JStr ''bot''), (''authorization_id'', JStr ''a1''), (''capability_id'', JStr ''write''),
        (''scope'', JObj []), (''risk_class'', JStr ''LOW''), (''preconditions'', JArr []),
        (''postconditions'', JArr [JStr ''done'']), (''destructive'', JBool True),
        (''preservation_evidence_refs'', JArr [JStr ''e1''])]]),
     (''claims'', JArr []),
     (''promotions'', JArr [JObj [(''schema'', JStr ''centinal26-promotion-v1''), (''promotion_id'', JStr ''p1''),
        (''operation_id'', JStr ''o1''), (''executor'', JStr ''bot''), (''verifier'', JStr ''judge''),
        (''authorized'', JBool True), (''safe'', JBool True), (''traceable'', JBool True), (''verified'', JBool True),
        (''evidence_refs'', JArr [JStr ''e1''])]]),
     (''terminal_events'', JArr [])]"

definition example_now :: int where
  "example_now = 63916300800000000"

lemma example_times:
  "parse_time ''2026-01-01T00:00:00Z'' = Inr (Some 63902822400000000)"
  "parse_time ''2026-12-31T00:00:00Z'' = Inr (Some 63934272000000000)"
  by code_simp+

lemma example_accepted: "validate_bundle 0 (Some (Aware example_now)) (JObj example_bundle) = Inr []"
  by code_simp

lemma example_operation: "hd (items_of example_bundle ''operations'') \<in> set (items_of example_bundle ''operations'')"
  by (simp add: items_of_def example_bundle_def get_def)

lemma example_promotion: "hd (items_of example_bundle ''promotions'') \<in> set (items_of example_bundle ''promotions'')"
  by (simp add: items_of_def example_bundle_def get_def)

lemma accepted_operations_are_authorized_witness:
  "\<exists>d a. JObj d \<in> set (items_of example_bundle ''operations'')
     \<and> JObj a \<in> set (items_of example_bundle ''authorizations'') \<and> authorizes a d"
  using accepted_operations_are_authorized [OF example_accepted example_operation] example_operation by metis

lemma accepted_promotions_separate_duties_witness:
  "\<exists>p d. JObj p \<in> set (items_of example_bundle ''promotions'') \<and> JObj d \<in> set (items_of example_bundle ''operations'')
     \<and> get p ''verifier'' \<noteq> get d ''actor''"
  using accepted_promotions_separate_duties [OF example_accepted example_promotion] example_promotion by metis

text \<open>A timestamp that leaves the calendar in UTC makes the validator raise instead of reporting it.\<close>

lemma overflowing_timestamp_raises:
  "validate_bundle 0 (Some (Aware example_now)) (JObj [(''evidence'', JArr [JObj
     [(''created_at'', JStr ''0001-01-01T00:00:00+05:00'')]])]) = Inl OverflowError"
  by code_simp

end
