(* ===== verification/Event_State.thy ===== *)
theory Event_State
  imports Hash_Chain Op_Machine
begin

text \<open>
  \<open>centinal26/event_state.py\<close>: the append-only event log with its hash chain, and the project state
  it reduces to. The triggers of the table forbid updates and deletions, so a log only grows. \<open>H\<close> is
  SHA-256, \<open>uuid\<close> and \<open>now\<close> are the fresh identifier and the text of the clock, and a payload is kept
  decoded, with its keys sorted as the canonical text has them.
\<close>

section \<open>Events\<close>

definition event_types :: "string list" where
  "event_types =
     [''SOURCE_INGESTED'', ''GOAL_DISCOVERED'', ''TASK_CREATED'', ''DEPENDENCY_ADDED'', ''TASK_READY'',
      ''TASK_AUTHORIZED'', ''TASK_STARTED'', ''TASK_EXECUTED'', ''VERIFICATION_PASSED'', ''VERIFICATION_FAILED'',
      ''TASK_COMPLETED'', ''TASK_FAILED'', ''ARTIFACT_CREATED'', ''DECISION_RECORDED'', ''BLOCKER_RECORDED'']"

definition task_event_status :: "(string \<times> string) list" where
  "task_event_status =
     [(''TASK_READY'', ''READY''), (''TASK_AUTHORIZED'', ''AUTHORIZED''), (''TASK_STARTED'', ''RUNNING''),
      (''TASK_EXECUTED'', ''EXECUTED''), (''VERIFICATION_PASSED'', ''VERIFIED''),
      (''VERIFICATION_FAILED'', ''VERIFICATION_FAILED''), (''TASK_COMPLETED'', ''COMPLETE''),
      (''TASK_FAILED'', ''FAILED'')]"

definition terminal_task_states :: "string list" where
  "terminal_task_states = [''COMPLETE'', ''FAILED'', ''VERIFICATION_FAILED'']"

record event =
  seq :: int
  event_id :: string
  ts :: string
  type_of :: string
  entity_id :: "string option"
  payload :: json_object
  prev_hash :: string
  event_hash :: string

definition event_body :: "event \<Rightarrow> json" where
  "event_body e = JObj
     [(''schema_version'', JInt 1), (''event_id'', JStr (event_id e)), (''ts'', JStr (ts e)),
      (''type'', JStr (type_of e)), (''entity_id'', opt_str (entity_id e)), (''payload'', JObj (payload e)),
      (''prev_hash'', JStr (prev_hash e))]"

definition event_text :: "event \<Rightarrow> string" where
  "event_text e = dumps compact (event_body e)"

text \<open>A stored row, which may hold what \<open>append\<close> never writes.\<close>

record event_row =
  row_event :: event
  row_payload :: json
  schema_version :: int

definition row_to_event :: "event_row \<Rightarrow> event result" where
  "row_to_event r =
     (if schema_version r \<noteq> 1
      then Inl (StateTransitionError (''unsupported event schema version: '' @ int_text (schema_version r)))
      else case row_payload r of
        JObj d \<Rightarrow> Inr ((row_event r)\<lparr>payload := d\<rparr>)
      | _ \<Rightarrow> Inl (StateTransitionError ''event payload is not a JSON object''))"

fun events :: "event_row list \<Rightarrow> event list result" where
  "events [] = Inr []"
| "events (r # rs) =
     (case row_to_event r of
        Inl e \<Rightarrow> Inl e
      | Inr ev \<Rightarrow> (case events rs of Inl e \<Rightarrow> Inl e | Inr evs \<Rightarrow> Inr (ev # evs)))"

text \<open>\<open>x or y\<close> for an optional string.\<close>

definition or_else :: "string option \<Rightarrow> string \<Rightarrow> string" where
  "or_else v d = (case v of None \<Rightarrow> d | Some s \<Rightarrow> if s = [] then d else s)"

fun as_object :: "json \<Rightarrow> json_object option" where
  "as_object (JObj d) = Some d"
| "as_object _ = None"

definition append_event :: "(string \<Rightarrow> string) \<Rightarrow> string \<Rightarrow> string \<Rightarrow> string \<Rightarrow> json option \<Rightarrow> string option \<Rightarrow>
    string option \<Rightarrow> string option \<Rightarrow> event_row list \<Rightarrow> (event, event_row list) outcome" where
  "append_event H uuid now ty given entity eid at_time rows =
     (if ty \<notin> set event_types then (Inl (ValueError (''unknown event type: '' @ ty)), rows)
      else case as_object (sort_keys (case given of None \<Rightarrow> JObj [] | Some v \<Rightarrow> v)) of
        None \<Rightarrow> (Inl (TypeError ''payload must be a dict''), rows)
      | Some d \<Rightarrow>
          (let prev = (if rows = [] then genesis else event_hash (row_event (last rows)));
               n = int (length rows) + 1;
               e0 = \<lparr>seq = n, event_id = or_else eid uuid, ts = or_else at_time now, type_of = ty,
                     entity_id = entity, payload = d, prev_hash = prev, event_hash = []\<rparr>;
               e = e0\<lparr>event_hash := canonical_sha256 H (event_body e0)\<rparr>
           in if \<exists>r\<in>set rows. event_id (row_event r) = event_id e \<or> event_hash (row_event r) = event_hash e
              then (Inl IntegrityError, rows)
              else (Inr e, rows @ [\<lparr>row_event = e, row_payload = JObj d, schema_version = 1\<rparr>])))"

fun verify_from :: "(string \<Rightarrow> string) \<Rightarrow> string \<Rightarrow> event list \<Rightarrow> bool" where
  "verify_from H previous [] = True"
| "verify_from H previous (e # es) =
     (if prev_hash e \<noteq> previous then False
      else if type_of e \<notin> set event_types then False
      else if canonical_sha256 H (event_body e) \<noteq> event_hash e then False
      else verify_from H (event_hash e) es)"

definition verify_chain :: "(string \<Rightarrow> string) \<Rightarrow> event_row list \<Rightarrow> bool" where
  "verify_chain H rows = (case events rows of Inl _ \<Rightarrow> False | Inr es \<Rightarrow> verify_from H genesis es)"

section \<open>The reduced state\<close>

text \<open>A dictionary that keeps the place of a key that is there.\<close>

fun set_key :: "string \<Rightarrow> 'v \<Rightarrow> (string \<times> 'v) list \<Rightarrow> (string \<times> 'v) list" where
  "set_key k v [] = [(k, v)]"
| "set_key k v ((k', w) # d) = (if k' = k then (k, v) # d else (k', w) # set_key k v d)"

type_synonym entities = "(string \<times> json_object) list"

record project_state =
  sources :: entities
  goals :: entities
  tasks :: entities
  artifacts :: entities
  recorded_decisions :: entities
  blockers :: entities
  last_seq :: int
  last_hash :: string

definition initial_state :: project_state where
  "initial_state = \<lparr>sources = [], goals = [], tasks = [], artifacts = [], recorded_decisions = [],
     blockers = [], last_seq = 0, last_hash = genesis\<rparr>"

fun str_items :: "json option \<Rightarrow> string list" where
  "str_items (Some (JArr xs)) = concat (map (\<lambda>x. case x of JStr s \<Rightarrow> [s] | _ \<Rightarrow> []) xs)"
| "str_items _ = []"

definition dependencies_of :: "json_object \<Rightarrow> string list" where
  "dependencies_of t = str_items (get t ''dependencies'')"

definition sorted_set :: "string list \<Rightarrow> json" where
  "sorted_set xs = JArr (map JStr (sort (remdups xs)))"

definition entity_of :: "event \<Rightarrow> string \<Rightarrow> string result" where
  "entity_of e key =
     (let c = (case entity_id e of Some s \<Rightarrow> Some s
               | None \<Rightarrow> (case get (payload e) key of Some (JStr s) \<Rightarrow> Some s | _ \<Rightarrow> None))
      in case c of
           None \<Rightarrow> Inl (StateTransitionError (type_of e @ '' requires an entity id''))
         | Some s \<Rightarrow> if s = [] then Inl (StateTransitionError (type_of e @ '' requires an entity id'')) else Inr s)"

definition with_entity :: "event \<Rightarrow> string \<Rightarrow> (string \<Rightarrow> project_state result) \<Rightarrow> project_state result" where
  "with_entity e key f = (case entity_of e key of Inl err \<Rightarrow> Inl err | Inr i \<Rightarrow> f i)"

definition dependency_task :: "event \<Rightarrow> json" where
  "dependency_task e =
     (case get (payload e) ''task_id'' of
        Some v \<Rightarrow> if truthy v then v else opt_str (entity_id e)
      | None \<Rightarrow> opt_str (entity_id e))"

definition apply_event :: "project_state \<Rightarrow> event \<Rightarrow> project_state result" where
  "apply_event s e =
     (if type_of e = ''SOURCE_INGESTED'' then
        with_entity e ''source_id'' (\<lambda>i. Inr (s\<lparr>sources := set_key i (payload e) (sources s)\<rparr>))
      else if type_of e = ''GOAL_DISCOVERED'' then
        with_entity e ''goal_id'' (\<lambda>i. Inr (s\<lparr>goals := set_key i (payload e) (goals s)\<rparr>))
      else if type_of e = ''TASK_CREATED'' then
        with_entity e ''task_id'' (\<lambda>i.
          if map_of (tasks s) i \<noteq> None then Inl (StateTransitionError (''task already exists: '' @ i))
          else Inr (s\<lparr>tasks := set_key i
                 (put ''dependencies'' (JArr []) (put ''status'' (JStr ''DISCOVERED'') (payload e))) (tasks s)\<rparr>))
      else if type_of e = ''DEPENDENCY_ADDED'' then
        (case (dependency_task e, get (payload e) ''depends_on'') of
           (JStr i, Some (JStr dep)) \<Rightarrow>
             (case map_of (tasks s) i of
                None \<Rightarrow> Inl (StateTransitionError (''unknown task: '' @ i))
              | Some t \<Rightarrow> Inr (s\<lparr>tasks := set_key i
                    (put ''dependencies'' (sorted_set (dependencies_of t @ [dep])) t) (tasks s)\<rparr>))
         | _ \<Rightarrow> Inl (StateTransitionError ''DEPENDENCY_ADDED requires task_id and depends_on''))
      else if map_of task_event_status (type_of e) \<noteq> None then
        with_entity e ''task_id'' (\<lambda>i.
          case map_of (tasks s) i of
            None \<Rightarrow> Inl (StateTransitionError (''unknown task: '' @ i))
          | Some t \<Rightarrow>
              (let t1 = put ''status'' (JStr (the (map_of task_event_status (type_of e)))) t;
                   t2 = (if payload e \<noteq> [] then put ''last_event'' (JObj (payload e)) t1 else t1)
               in Inr (s\<lparr>tasks := set_key i t2 (tasks s)\<rparr>)))
      else if type_of e = ''ARTIFACT_CREATED'' then
        with_entity e ''artifact_id'' (\<lambda>i. Inr (s\<lparr>artifacts := set_key i (payload e) (artifacts s)\<rparr>))
      else if type_of e = ''DECISION_RECORDED'' then
        with_entity e ''decision_id'' (\<lambda>i. Inr (s\<lparr>recorded_decisions := set_key i (payload e) (recorded_decisions s)\<rparr>))
      else if type_of e = ''BLOCKER_RECORDED'' then
        with_entity e ''blocker_id'' (\<lambda>i. Inr (s\<lparr>blockers := set_key i (payload e) (blockers s)\<rparr>))
      else Inl (StateTransitionError (''unhandled event type: '' @ type_of e)))"

definition reduce_event :: "project_state \<Rightarrow> event \<Rightarrow> project_state result" where
  "reduce_event s e =
     (if seq e \<le> last_seq s
      then Inl (StateTransitionError ''events must be reduced in strictly increasing sequence order'')
      else if prev_hash e \<noteq> last_hash s
      then Inl (StateTransitionError ''event hash linkage does not match reducer state'')
      else case apply_event s e of
        Inl err \<Rightarrow> Inl err
      | Inr s' \<Rightarrow> Inr (s'\<lparr>last_seq := seq e, last_hash := event_hash e\<rparr>))"

fun rebuild_from :: "project_state \<Rightarrow> event list \<Rightarrow> project_state result" where
  "rebuild_from s [] = Inr s"
| "rebuild_from s (e # es) = (case reduce_event s e of Inl err \<Rightarrow> Inl err | Inr s' \<Rightarrow> rebuild_from s' es)"

definition rebuild_state :: "event list \<Rightarrow> project_state result" where
  "rebuild_state es = rebuild_from initial_state es"

text \<open>\<open>rebuild_state(store.events())\<close>\<close>

definition replay :: "event_row list \<Rightarrow> project_state result" where
  "replay rows = (case events rows of Inl e \<Rightarrow> Inl e | Inr es \<Rightarrow> rebuild_state es)"

definition busy_states :: "string list" where
  "busy_states = terminal_task_states @ [''AUTHORIZED'', ''RUNNING'', ''EXECUTED'', ''VERIFIED'']"

definition has_status :: "json_object \<Rightarrow> string list \<Rightarrow> bool" where
  "has_status t sts = (case get t ''status'' of Some (JStr st) \<Rightarrow> st \<in> set sts | _ \<Rightarrow> False)"

definition is_ready :: "project_state \<Rightarrow> json_object \<Rightarrow> bool" where
  "is_ready s t \<longleftrightarrow> \<not> has_status t busy_states
     \<and> list_all (\<lambda>d. case map_of (tasks s) d of None \<Rightarrow> False | Some u \<Rightarrow> has_status u [''COMPLETE'']) (dependencies_of t)"

definition derive_ready_tasks :: "project_state \<Rightarrow> string list" where
  "derive_ready_tasks s = sort (map fst (filter (\<lambda>(i, t). is_ready s t) (tasks s)))"

section \<open>Reports\<close>

definition ordered :: "entities \<Rightarrow> json" where
  "ordered d = JObj (map (\<lambda>(k, v). (k, JObj v)) (sort_key fst d))"

definition state_dict :: "project_state \<Rightarrow> json_object" where
  "state_dict s =
     [(''sources'', ordered (sources s)), (''goals'', ordered (goals s)),
      (''tasks'', ordered (map (\<lambda>(k, t). (k, put ''dependencies'' (JArr (map JStr (sort (dependencies_of t)))) t)) (tasks s))),
      (''artifacts'', ordered (artifacts s)), (''decisions'', ordered (recorded_decisions s)),
      (''blockers'', ordered (blockers s)), (''last_seq'', JInt (last_seq s)), (''last_hash'', JStr (last_hash s))]"

definition state_summary :: "(string \<Rightarrow> string) \<Rightarrow> event_row list \<Rightarrow> json_object result" where
  "state_summary H rows =
     (let ok = verify_chain H rows
      in case (if ok then replay rows else Inr initial_state) of
           Inl e \<Rightarrow> Inl e
         | Inr s \<Rightarrow> Inr
             [(''event_count'', JInt (int (length rows))), (''event_chain_valid'', JBool ok),
              (''last_seq'', if ok then JInt (last_seq s) else JNull),
              (''last_hash'', if ok then JStr (last_hash s) else JNull),
              (''counts'', JObj [(''sources'', JInt (int (length (sources s)))), (''goals'', JInt (int (length (goals s)))),
                 (''tasks'', JInt (int (length (tasks s)))), (''artifacts'', JInt (int (length (artifacts s)))),
                 (''decisions'', JInt (int (length (recorded_decisions s)))),
                 (''blockers'', JInt (int (length (blockers s))))]),
              (''ready_tasks'', JArr (if ok then map JStr (derive_ready_tasks s) else []))])"

end
