(* ===== verification/Event_State_Claims.thy ===== *)
theory Event_State_Claims
  imports Event_State
begin

text \<open>
  The log is a verified chain whatever is appended, the linkage checks of the reducer never fire on
  it, a log that does not reduce never will again, and a reduced state is well typed.
\<close>

section \<open>The log\<close>

datatype log_op = Append string string string "json option" "string option" "string option" "string option"

fun run_log :: "(string \<Rightarrow> string) \<Rightarrow> log_op \<Rightarrow> event_row list \<Rightarrow> event_row list" where
  "run_log H (Append uuid now ty p entity eid t) rows = snd (append_event H uuid now ty p entity eid t rows)"

definition row_ok :: "event_row \<Rightarrow> bool" where
  "row_ok r \<longleftrightarrow> schema_version r = 1 \<and> row_payload r = JObj (payload (row_event r))"

definition log_inv :: "(string \<Rightarrow> string) \<Rightarrow> event_row list \<Rightarrow> bool" where
  "log_inv H rows \<longleftrightarrow> (\<forall>r\<in>set rows. row_ok r \<and> type_of (row_event r) \<in> set event_types)
     \<and> chain_from H event_text prev_hash event_hash genesis (map row_event rows)
     \<and> map (\<lambda>r. seq (row_event r)) rows = map int [1..<Suc (length rows)]
     \<and> distinct (map (\<lambda>r. event_id (row_event r)) rows)"

lemma verify_from_chain:
  "verify_from H p es \<longleftrightarrow> chain_from H event_text prev_hash event_hash p es \<and> (\<forall>e\<in>set es. type_of e \<in> set event_types)"
  by (induction es arbitrary: p) (auto simp: canonical_sha256_def event_text_def)

lemma events_ok: "\<forall>r\<in>set rows. row_ok r \<Longrightarrow> events rows = Inr (map row_event rows)"
  by (induction rows) (auto simp: row_to_event_def row_ok_def)

lemma log_events: "log_inv H rows \<Longrightarrow> events rows = Inr (map row_event rows)"
  using events_ok unfolding log_inv_def by blast

lemma event_text_hash [simp]: "event_text (e\<lparr>event_hash := h\<rparr>) = event_text e"
  by (simp add: event_text_def event_body_def)

lemma append_snoc:
  assumes "log_inv H rows" "ty \<in> set event_types"
    and "row = \<lparr>row_event = e\<lparr>event_hash := H (event_text e)\<rparr>, row_payload = JObj (payload e), schema_version = 1\<rparr>"
    and "type_of e = ty" "seq e = int (length rows) + 1"
    and "prev_hash e = (if rows = [] then genesis else event_hash (row_event (last rows)))"
    and "\<forall>r\<in>set rows. event_id (row_event r) \<noteq> event_id e"
  shows "log_inv H (rows @ [row])"
proof -
  have "tip event_hash genesis (map row_event rows) = prev_hash e"
    using assms(6) by (simp add: tip_def last_map)
  then show ?thesis
    using assms by (auto simp: log_inv_def row_ok_def chain_from_snoc)
qed

lemma append_cases:
  assumes inv: "log_inv H rows"
  shows "snd (append_event H uuid now ty p entity eid t rows) = rows
    \<or> (\<exists>row. snd (append_event H uuid now ty p entity eid t rows) = rows @ [row] \<and> log_inv H (rows @ [row]))"
proof (cases "ty \<in> set event_types")
  case ty: True
  show ?thesis
  proof (cases "as_object (sort_keys (case p of None \<Rightarrow> JObj [] | Some v \<Rightarrow> v))")
    case None
    then show ?thesis using ty by (simp add: append_event_def)
  next
    case (Some d)
    define e where "e = \<lparr>seq = int (length rows) + 1, event_id = or_else eid uuid, ts = or_else t now, type_of = ty,
      entity_id = entity, payload = d,
      prev_hash = (if rows = [] then genesis else event_hash (row_event (last rows))), event_hash = []\<rparr>"
    let ?row = "\<lparr>row_event = e\<lparr>event_hash := H (event_text e)\<rparr>, row_payload = JObj d, schema_version = 1\<rparr>"
    have r: "append_event H uuid now ty p entity eid t rows
      = (if \<exists>r\<in>set rows. event_id (row_event r) = event_id e \<or> event_hash (row_event r) = H (event_text e)
         then (Inl IntegrityError, rows) else (Inr (row_event ?row), rows @ [?row]))"
      using ty Some by (simp add: append_event_def Let_def e_def canonical_sha256_def event_text_def)
    show ?thesis
    proof (cases "\<exists>r\<in>set rows. event_id (row_event r) = event_id e \<or> event_hash (row_event r) = H (event_text e)")
      case False
      then have "log_inv H (rows @ [?row])"
        by (intro append_snoc [OF inv ty, where e = e]) (auto simp: e_def)
      then show ?thesis using r False by simp
    qed (simp add: r)
  qed
qed (simp add: append_event_def)

interpretation log: evolving_machine "run_log H" "[]" "log_inv H" prefix for H
proof
  show "log_inv H []" by (simp add: log_inv_def)
  show "log_inv H (run_log H op rows)" if "log_inv H rows" for op rows
    using append_cases [OF that] that by (cases op) (metis run_log.simps)
  show "prefix rows (run_log H op rows)" if "log_inv H rows" for op rows
    using append_cases [OF that] by (cases op) (metis prefix_order.refl prefixI run_log.simps)
qed auto

lemma log_verified: "log_inv H rows \<Longrightarrow> verify_chain H rows"
  by (simp add: verify_chain_def log_events verify_from_chain) (auto simp: log_inv_def)

section \<open>Reduction\<close>

fun apply_all :: "project_state \<Rightarrow> event list \<Rightarrow> project_state result" where
  "apply_all s [] = Inr s"
| "apply_all s (e # es) = (case apply_event s e of Inl err \<Rightarrow> Inl err | Inr s' \<Rightarrow> apply_all s' es)"

definition stamp :: "int \<Rightarrow> string \<Rightarrow> project_state \<Rightarrow> project_state" where
  "stamp n h s = s\<lparr>last_seq := n, last_hash := h\<rparr>"

lemma stamp_fields [simp]:
  "last_seq (stamp n h s) = n" "last_hash (stamp n h s) = h" "tasks (stamp n h s) = tasks s"
  "sources (stamp n h s) = sources s" "goals (stamp n h s) = goals s" "artifacts (stamp n h s) = artifacts s"
  "recorded_decisions (stamp n h s) = recorded_decisions s" "blockers (stamp n h s) = blockers s"
  by (simp_all add: stamp_def)

definition lift :: "int \<Rightarrow> string \<Rightarrow> project_state result \<Rightarrow> project_state result" where
  "lift n h r = (case r of Inl err \<Rightarrow> Inl err | Inr s \<Rightarrow> Inr (stamp n h s))"

lemma lift_simps [simp]: "lift n h (Inl err) = Inl err" "lift n h (Inr s) = Inr (stamp n h s)"
  by (simp_all add: lift_def)

lemma with_entity_lift:
  "(\<And>i. f' i = lift n h (f i)) \<Longrightarrow> with_entity e k f' = lift n h (with_entity e k f)"
  by (simp add: with_entity_def split: sum.split)

lemma stamp_update:
  "(stamp n h s)\<lparr>sources := x\<rparr> = stamp n h (s\<lparr>sources := x\<rparr>)" "(stamp n h s)\<lparr>goals := x\<rparr> = stamp n h (s\<lparr>goals := x\<rparr>)"
  "(stamp n h s)\<lparr>tasks := x\<rparr> = stamp n h (s\<lparr>tasks := x\<rparr>)"
  "(stamp n h s)\<lparr>artifacts := x\<rparr> = stamp n h (s\<lparr>artifacts := x\<rparr>)"
  "(stamp n h s)\<lparr>recorded_decisions := x\<rparr> = stamp n h (s\<lparr>recorded_decisions := x\<rparr>)"
  "(stamp n h s)\<lparr>blockers := x\<rparr> = stamp n h (s\<lparr>blockers := x\<rparr>)"
  by (simp_all add: stamp_def)

lemma apply_stamp: "apply_event (stamp n h s) e = lift n h (apply_event s e)"
  unfolding apply_event_def if_distrib [of "lift n h"] stamp_fields stamp_update
  by (intro if_cong refl with_entity_lift) (simp_all add: Let_def split: option.split json.split)

text \<open>On linked events the reducer is \<open>apply_event\<close> folded over them.\<close>

lemma rebuild_linked:
  assumes "chain_from H event_text prev_hash event_hash h es" "map seq es = map int [Suc n..<Suc (n + length es)]"
  shows "rebuild_from (stamp (int n) h s) es
    = lift (int (n + length es)) (tip event_hash h es) (apply_all s es)"
  using assms
proof (induction es arbitrary: s n h)
  case (Cons e es)
  have c: "prev_hash e = h" "chain_from H event_text prev_hash event_hash (event_hash e) es"
    using Cons.prems(1) by (simp_all split: if_splits)
  have q: "seq e = int (Suc n)" "map seq es = map int [Suc (Suc n)..<Suc (Suc n + length es)]"
    using Cons.prems(2) upt_conv_Cons [of "Suc n" "Suc (n + length (e # es))"]
    by (simp_all del: upt_Suc)
  have st: "(stamp m g x)\<lparr>last_seq := int (Suc n), last_hash := event_hash e\<rparr> = stamp (int (Suc n)) (event_hash e) x"
    for m g x by (simp add: stamp_def)
  show ?case
  proof (cases "apply_event s e")
    case (Inl err)
    then show ?thesis using c q by (simp add: reduce_event_def apply_stamp)
  next
    case (Inr s')
    have "reduce_event (stamp (int n) h s) e = Inr (stamp (int (Suc n)) (event_hash e) s')"
      using c(1) q(1) Inr st by (simp add: reduce_event_def apply_stamp)
    then show ?thesis using Cons.IH [OF c(2) q(2), of s'] Inr by (simp add: tip_Cons split: sum.split)
  qed
qed simp

lemma initial_stamp: "initial_state = stamp (int 0) genesis initial_state"
  by (simp add: initial_state_def stamp_def)

lemma replay_linked:
  assumes "log_inv H rows"
  shows "replay rows = lift (int (length rows)) (tip event_hash genesis (map row_event rows))
    (apply_all initial_state (map row_event rows))"
proof -
  have "chain_from H event_text prev_hash event_hash genesis (map row_event rows)"
    "map seq (map row_event rows) = map int [Suc 0..<Suc (0 + length (map row_event rows))]"
    using assms unfolding log_inv_def by (simp_all add: comp_def)
  from rebuild_linked [OF this, of initial_state] show ?thesis
    unfolding replay_def log_events [OF assms] rebuild_state_def initial_stamp [symmetric] by simp
qed

lemma apply_all_append:
  "apply_all s (es @ fs) = (case apply_all s es of Inl err \<Rightarrow> Inl err | Inr s' \<Rightarrow> apply_all s' fs)"
  by (induction es arbitrary: s) (auto split: sum.split)

lemma replay_prefix: "log_inv H (rows @ later) \<Longrightarrow> replay (rows @ later) = Inr st' \<Longrightarrow> log_inv H rows \<Longrightarrow> \<exists>st. replay rows = Inr st"
  by (auto simp: replay_linked lift_def apply_all_append split: sum.splits)

lemma replay_snoc:
  assumes "log_inv H (rows @ [r])" "log_inv H rows" "replay rows = Inr st"
  shows "replay (rows @ [r]) = lift (int (length (rows @ [r]))) (tip event_hash genesis (map row_event (rows @ [r])))
    (apply_event st (row_event r))"
proof -
  obtain s0 where s0: "apply_all initial_state (map row_event rows) = Inr s0"
    "st = stamp (int (length rows)) (tip event_hash genesis (map row_event rows)) s0"
    using assms(3) unfolding replay_linked [OF assms(2)] by (auto simp: lift_def split: sum.splits)
  have two: "lift n h (lift m g x) = lift n h x" for n h m g x
    by (cases x) (simp_all add: lift_def stamp_def)
  show ?thesis unfolding replay_linked [OF assms(1)] s0(2) apply_stamp two by (simp add: apply_all_append s0(1) split: sum.split)
qed

lemma log_inv_prefix: "log_inv H (rows @ later) \<Longrightarrow> log_inv H rows"
proof -
  assume a: "log_inv H (rows @ later)"
  have "map (\<lambda>r. seq (row_event r)) (rows @ later) = map int [1..<Suc (length (rows @ later))]"
    using a unfolding log_inv_def by blast
  then have "take (length rows) (map (\<lambda>r. seq (row_event r)) (rows @ later)) = take (length rows) (map int [1..<Suc (length (rows @ later))])"
    by metis
  then have "map (\<lambda>r. seq (row_event r)) rows = map int [1..<Suc (length rows)]"
    by (simp add: take_map take_upt del: upt_Suc)
  with a show ?thesis unfolding log_inv_def by (simp add: chain_from_append)
qed

section \<open>Types of the reduced state\<close>

definition task_states :: "string list" where
  "task_states = ''DISCOVERED'' # map snd task_event_status"

definition task_ok :: "json_object \<Rightarrow> bool" where
  "task_ok t \<longleftrightarrow> (\<exists>st. get t ''status'' = Some (JStr st) \<and> st \<in> set task_states)
     \<and> (\<exists>ds. get t ''dependencies'' = Some (JArr (map JStr ds)) \<and> sorted ds \<and> distinct ds)"

definition state_ok :: "project_state \<Rightarrow> bool" where
  "state_ok s \<longleftrightarrow> distinct (map fst (tasks s)) \<and> (\<forall>(i, t)\<in>set (tasks s). task_ok t)"

lemma map_of_set_key: "map_of (set_key k v d) = (map_of d)(k \<mapsto> v)"
  by (induction k v d rule: set_key.induct) auto

lemma set_key_keys: "fst ` set (set_key k v d) = insert k (fst ` set d)"
  by (induction k v d rule: set_key.induct) auto

lemma set_key_distinct: "distinct (map fst d) \<Longrightarrow> distinct (map fst (set_key k v d))"
proof (induction k v d rule: set_key.induct)
  case (2 k v k' w d)
  have "set (map fst (set_key k v d)) = insert k (set (map fst d))" using set_key_keys [of k v d] by simp
  with 2 show ?case by auto
qed simp

lemma set_key_member: "(i, t) \<in> set (set_key k v d) \<Longrightarrow> t = v \<or> (i, t) \<in> set d"
  by (induction k v d rule: set_key.induct) (auto split: if_splits)

lemma state_ok_set: "state_ok s \<Longrightarrow> task_ok t \<Longrightarrow> state_ok (s\<lparr>tasks := set_key i t (tasks s)\<rparr>)"
  by (auto simp: state_ok_def set_key_distinct dest: set_key_member)

lemma state_ok_get: "state_ok s \<Longrightarrow> map_of (tasks s) i = Some t \<Longrightarrow> task_ok t"
  by (auto simp: state_ok_def dest: map_of_SomeD)

lemma str_items_map [simp]: "str_items (Some (JArr (map JStr ds))) = ds"
  by (induction ds) auto

lemma task_ok_dependency: "task_ok t \<Longrightarrow> task_ok (put ''dependencies'' (sorted_set (dependencies_of t @ [d])) t)"
  by (fastforce simp: task_ok_def sorted_set_def)

lemma task_ok_status:
  "task_ok t \<Longrightarrow> map_of task_event_status ty = Some st \<Longrightarrow> task_ok (put ''status'' (JStr st) t)"
  by (auto simp: task_ok_def task_states_def dest!: map_of_SomeD intro: rev_image_eqI)

lemma task_ok_event: "task_ok t \<Longrightarrow> task_ok (put ''last_event'' v t)"
  by (simp add: task_ok_def)

lemma task_ok_new: "task_ok (put ''dependencies'' (JArr []) (put ''status'' (JStr ''DISCOVERED'') p))"
  unfolding task_ok_def by (auto simp: task_states_def intro!: exI [of _ "[]"])

lemma with_entity_Inr: "with_entity e k f = Inr s \<Longrightarrow> \<exists>i. f i = Inr s"
  by (auto simp: with_entity_def split: sum.splits)

lemma state_ok_tasks: "tasks s' = tasks s \<Longrightarrow> state_ok s' = state_ok s"
  by (simp add: state_ok_def)

lemma dependency_branch:
  assumes ok: "state_ok s"
    and r: "(case (v, w) of (JStr i, Some (JStr dep)) \<Rightarrow>
             (case map_of (tasks s) i of
                None \<Rightarrow> Inl (StateTransitionError (''unknown task: '' @ i))
              | Some t \<Rightarrow> Inr (s\<lparr>tasks := set_key i
                    (put ''dependencies'' (sorted_set (dependencies_of t @ [dep])) t) (tasks s)\<rparr>))
         | _ \<Rightarrow> Inl (StateTransitionError m)) = Inr s'"
  shows "state_ok s'"
proof -
  obtain i dep t where "map_of (tasks s) i = Some t"
    "s' = s\<lparr>tasks := set_key i (put ''dependencies'' (sorted_set (dependencies_of t @ [dep])) t) (tasks s)\<rparr>"
    using r by (auto split: json.splits option.splits)
  then show ?thesis using state_ok_set [OF ok task_ok_dependency [OF state_ok_get [OF ok]]] by simp
qed

lemma status_branch:
  assumes ok: "state_ok s" and st: "map_of task_event_status ty = Some st"
    and r: "(case map_of (tasks s) i of
            None \<Rightarrow> Inl (StateTransitionError m)
          | Some t \<Rightarrow>
              (let t1 = put ''status'' (JStr st) t; t2 = (if p \<noteq> [] then put ''last_event'' (JObj p) t1 else t1)
               in Inr (s\<lparr>tasks := set_key i t2 (tasks s)\<rparr>))) = Inr s'"
  shows "state_ok s'"
proof -
  obtain t where t: "map_of (tasks s) i = Some t" using r by (auto split: option.splits)
  have "task_ok (put ''status'' (JStr st) t)" using task_ok_status [OF state_ok_get [OF ok t] st] .
  then show ?thesis using r t state_ok_set [OF ok] task_ok_event by (auto simp: Let_def split: if_splits)
qed

lemma apply_event_ok:
  assumes ok: "state_ok s" and a: "apply_event s e = Inr s'" shows "state_ok s'"
proof -
  consider "type_of e = ''TASK_CREATED''" | "type_of e = ''DEPENDENCY_ADDED''"
    | st where "map_of task_event_status (type_of e) = Some st" "type_of e \<notin> {''TASK_CREATED'', ''DEPENDENCY_ADDED''}"
    | "map_of task_event_status (type_of e) = None" "type_of e \<notin> {''TASK_CREATED'', ''DEPENDENCY_ADDED''}" by blast
  then show ?thesis
  proof cases
    case 1
    have "with_entity e ''task_id'' (\<lambda>i.
          if map_of (tasks s) i \<noteq> None then Inl (StateTransitionError (''task already exists: '' @ i))
          else Inr (s\<lparr>tasks := set_key i
                 (put ''dependencies'' (JArr []) (put ''status'' (JStr ''DISCOVERED'') (payload e))) (tasks s)\<rparr>)) = Inr s'"
      using a 1 unfolding apply_event_def by simp
    from with_entity_Inr [OF this] obtain i where "s' = s\<lparr>tasks := set_key i
         (put ''dependencies'' (JArr []) (put ''status'' (JStr ''DISCOVERED'') (payload e))) (tasks s)\<rparr>"
      by (auto split: if_splits)
    then show ?thesis using state_ok_set [OF ok task_ok_new] by simp
  next
    case 2
    then show ?thesis using a dependency_branch [OF ok] unfolding apply_event_def by simp
  next
    case (3 st)
    then have n: "type_of e \<noteq> ''SOURCE_INGESTED''" "type_of e \<noteq> ''GOAL_DISCOVERED''"
      by (auto simp: task_event_status_def split: if_splits)
    have "with_entity e ''task_id'' (\<lambda>i. case map_of (tasks s) i of
            None \<Rightarrow> Inl (StateTransitionError (''unknown task: '' @ i))
          | Some t \<Rightarrow>
              (let t1 = put ''status'' (JStr (the (map_of task_event_status (type_of e)))) t;
                   t2 = (if payload e \<noteq> [] then put ''last_event'' (JObj (payload e)) t1 else t1)
               in Inr (s\<lparr>tasks := set_key i t2 (tasks s)\<rparr>))) = Inr s'"
      using a 3 n unfolding apply_event_def by simp
    from with_entity_Inr [OF this [unfolded 3(1) option.sel]] show ?thesis
      using status_branch [OF ok 3(1)] by blast
  next
    case 4
    have kept: "tasks s' = tasks s" if "with_entity e k (\<lambda>i. Inr (f i)) = Inr s'" "\<And>i. tasks (f i) = tasks s" for k f
      using with_entity_Inr [OF that(1)] that(2) by auto
    consider "type_of e = ''SOURCE_INGESTED''" | "type_of e = ''GOAL_DISCOVERED''" | "type_of e = ''ARTIFACT_CREATED''"
      | "type_of e = ''DECISION_RECORDED''" | "type_of e = ''BLOCKER_RECORDED''"
      using a 4 unfolding apply_event_def by (simp split: if_splits)
    then have "tasks s' = tasks s"
    proof cases
      case 1
      then show ?thesis using a unfolding apply_event_def by simp (erule kept, simp)
    next
      case 2
      then show ?thesis using a unfolding apply_event_def by simp (erule kept, simp)
    next
      case 3
      then show ?thesis using a 4 unfolding apply_event_def by simp (erule kept, simp)
    next
      case 4
      then show ?thesis using a \<open>map_of task_event_status (type_of e) = None\<close> unfolding apply_event_def
        by simp (erule kept, simp)
    next
      case 5
      then show ?thesis using a 4 unfolding apply_event_def by simp (erule kept, simp)
    qed
    then show ?thesis using ok by (rule state_ok_tasks [THEN iffD2])
  qed
qed

lemma apply_all_ok: "state_ok s \<Longrightarrow> apply_all s es = Inr s' \<Longrightarrow> state_ok s'"
  by (induction es arbitrary: s) (auto split: sum.splits dest: apply_event_ok)

lemma replay_ok:
  assumes inv: "log_inv H rows" and r: "replay rows = Inr s" shows "state_ok s"
proof -
  obtain s0 where s0: "apply_all initial_state (map row_event rows) = Inr s0"
    and s: "s = stamp (int (length rows)) (tip event_hash genesis (map row_event rows)) s0"
    using r unfolding replay_linked [OF inv] by (auto simp: lift_def split: sum.splits)
  have "state_ok initial_state" by (simp add: state_ok_def initial_state_def)
  from apply_all_ok [OF this s0] show ?thesis unfolding s by (simp add: state_ok_def)
qed

lemma not_busy: "task_ok t \<Longrightarrow> \<not> has_status t busy_states \<longleftrightarrow> has_status t [''DISCOVERED'', ''READY'']"
  by (auto simp: task_ok_def has_status_def busy_states_def terminal_task_states_def task_states_def
      task_event_status_def)

section \<open>Properties\<close>

text \<open>
  C18. Whatever is appended and in whatever order, the chain verifies, the events are numbered 1 to n
  in order, no event is ever changed or removed by what comes later, and the checks of order and
  linkage in the reducer never fire: replaying the log is folding the meaning of its events.
\<close>

theorem event_log_sound:
  fixes H ops later
  defines "rows \<equiv> run_all (run_log H) ops []"
  shows "verify_chain H rows \<and> map (\<lambda>r. seq (row_event r)) rows = map int [1..<Suc (length rows)]
    \<and> prefix rows (run_all (run_log H) later rows)
    \<and> replay rows = lift (int (length rows)) (tip event_hash genesis (map row_event rows))
        (apply_all initial_state (map row_event rows))"
proof -
  have inv: "log_inv H rows" unfolding rows_def by (rule log.reached_inv)
  then have "verify_chain H rows" by (rule log_verified)
  moreover have "map (\<lambda>r. seq (row_event r)) rows = map int [1..<Suc (length rows)]" using inv unfolding log_inv_def by blast
  ultimately show ?thesis using replay_linked [OF inv] log.run_all_older [OF inv] by blast
qed

text \<open>
  A log that does not reduce never does again: \<open>append\<close> accepts any event of a known type, and once
  the reducer has raised on the log, it raises the same error after whatever is appended, and so does
  the summary.
\<close>

theorem unreducible_log_stays_so:
  fixes H ops later
  defines "rows \<equiv> run_all (run_log H) ops []"
  assumes bad: "replay rows = Inl err"
  shows "replay (run_all (run_log H) later rows) = Inl err
    \<and> state_summary H (run_all (run_log H) later rows) = Inl err"
proof -
  have inv: "log_inv H rows" unfolding rows_def by (rule log.reached_inv)
  let ?after = "run_all (run_log H) later rows"
  have inv': "log_inv H ?after" using inv by (rule log.run_all_inv)
  obtain ts where ts: "?after = rows @ ts" using log.run_all_older [OF inv] by (auto simp: prefix_def)
  have "apply_all initial_state (map row_event rows) = Inl err"
    using bad unfolding replay_linked [OF inv] by (auto simp: lift_def split: sum.splits)
  then have r: "replay ?after = Inl err" unfolding replay_linked [OF inv'] by (simp add: ts apply_all_append)
  have "verify_chain H ?after" by (rule log_verified [OF inv'])
  with r show ?thesis by (simp add: state_summary_def)
qed

text \<open>
  C19. A reduced state is well typed, and what it calls ready is: every task has one of the nine
  states and a sorted list of different dependencies; the ready tasks are listed in order, once
  each, and are exactly those that were not started or settled and whose dependencies are all
  complete.
\<close>

theorem reduced_state_well_typed:
  fixes H ops s
  assumes s: "replay (run_all (run_log H) ops []) = Inr s"
  shows "list_all (\<lambda>(i, t). task_ok t) (tasks s) \<and> sorted (derive_ready_tasks s) \<and> distinct (derive_ready_tasks s)
    \<and> set (derive_ready_tasks s) = {i. \<exists>t. map_of (tasks s) i = Some t \<and> has_status t [''DISCOVERED'', ''READY'']
         \<and> set (dependencies_of t) \<subseteq> {d. \<exists>u. map_of (tasks s) d = Some u \<and> has_status u [''COMPLETE'']}}"
proof -
  have ok: "state_ok s" using replay_ok [OF log.reached_inv s] .
  then have d: "distinct (map fst (tasks s))" by (simp add: state_ok_def)
  have r: "is_ready s t \<longleftrightarrow> has_status t [''DISCOVERED'', ''READY'']
      \<and> set (dependencies_of t) \<subseteq> {d. \<exists>u. map_of (tasks s) d = Some u \<and> has_status u [''COMPLETE'']}"
    if "map_of (tasks s) i = Some t" for i t
    using not_busy [OF state_ok_get [OF ok that]]
    by (auto simp: is_ready_def list_all_iff split: option.splits)
  have "set (derive_ready_tasks s) = {i. \<exists>t. map_of (tasks s) i = Some t \<and> is_ready s t}"
    using d by (force simp: derive_ready_tasks_def)
  also have "\<dots> = {i. \<exists>t. map_of (tasks s) i = Some t \<and> has_status t [''DISCOVERED'', ''READY'']
         \<and> set (dependencies_of t) \<subseteq> {d. \<exists>u. map_of (tasks s) d = Some u \<and> has_status u [''COMPLETE'']}}"
    using r by blast
  finally have set: "set (derive_ready_tasks s) = \<dots>" .
  have "distinct (map fst (filter (\<lambda>(i, t). is_ready s t) (tasks s)))" using d by (simp add: distinct_map_filter)
  then have "distinct (derive_ready_tasks s)" by (simp add: derive_ready_tasks_def)
  then show ?thesis using set ok by (simp add: state_ok_def list_all_iff derive_ready_tasks_def)
qed

lemma unreducible_log_stays_so_witness:
  "replay (run_all (run_log id) [Append ''u2'' ''t2'' ''TASK_CREATED'' None (Some ''x'') None None]
     (run_all (run_log id) [Append ''u1'' ''t1'' ''TASK_READY'' None (Some ''x'') None None] []))
   = Inl (StateTransitionError ''unknown task: x'')"
proof -
  have "replay (run_all (run_log id) [Append ''u1'' ''t1'' ''TASK_READY'' None (Some ''x'') None None] [])
      = Inl (StateTransitionError ''unknown task: x'')"
    by (simp add: append_event_def event_types_def or_else_def replay_def row_to_event_def rebuild_state_def
        reduce_event_def initial_state_def apply_event_def task_event_status_def with_entity_def entity_of_def Let_def)
  from unreducible_log_stays_so [OF this] show ?thesis by blast
qed

lemma reduced_state_well_typed_witness:
  "\<exists>s. replay (run_all (run_log id) [Append ''u1'' ''t1'' ''TASK_CREATED'' None (Some ''x'') None None] []) = Inr s
     \<and> sorted (derive_ready_tasks s) \<and> list_all (\<lambda>(i, t). task_ok t) (tasks s)"
proof -
  have "\<exists>s. replay (run_all (run_log id) [Append ''u1'' ''t1'' ''TASK_CREATED'' None (Some ''x'') None None] []) = Inr s"
    by (simp add: append_event_def event_types_def or_else_def replay_def row_to_event_def rebuild_state_def
        reduce_event_def initial_state_def apply_event_def with_entity_def entity_of_def Let_def)
  then obtain s where "replay (run_all (run_log id) [Append ''u1'' ''t1'' ''TASK_CREATED'' None (Some ''x'') None None] []) = Inr s" ..
  from reduced_state_well_typed [OF this] this show ?thesis by blast
qed

end
