(* ===== verification/Audit_Log.thy ===== *)
theory Audit_Log
  imports Hash_Chain
begin

text \<open>
  The parts of \<open>centinal26/core.py\<close> both engines use: grants, and the audit file, one JSON record a
  line, each with the hash of the one before it. The file is the list of its records; a missing file
  is the empty list. \<open>H\<close> is SHA-256 and \<open>now\<close> the reading of the clock of a call.
\<close>

section \<open>Grants\<close>

record grant =
  grant_id :: string
  granted_capability :: string
  expires_at :: string

definition grant_json :: "grant \<Rightarrow> json" where
  "grant_json g = JObj [(''grant_id'', JStr (grant_id g)), (''capability'', JStr (granted_capability g)),
     (''expires_at'', JStr (expires_at g))]"

definition permits :: "grant \<Rightarrow> string \<Rightarrow> int \<Rightarrow> bool result" where
  "permits g cap now =
     (if granted_capability g \<noteq> cap then Inr False
      else case fromisoformat (expires_at g) of
        NotIso \<Rightarrow> Inl (ValueError ''Invalid isoformat string'')
      | Naive _ \<Rightarrow> Inl (TypeError ''can't compare offset-naive and offset-aware datetimes'')
      | Aware t \<Rightarrow> Inr (t > now))"

lemma permits_True:
  "permits g cap now = Inr True \<longleftrightarrow>
     granted_capability g = cap \<and> (\<exists>t. fromisoformat (expires_at g) = Aware t \<and> now < t)"
  by (auto simp: permits_def split: iso_time.split)

text \<open>Whether a grant raises does not depend on the clock.\<close>

lemma permits_raises: "permits g cap now = Inl e \<Longrightarrow> permits g cap now' = Inl e"
  by (auto simp: permits_def split: if_splits iso_time.splits)

section \<open>The audit file\<close>

record audit_record =
  timestamp :: string
  audit_event :: string
  audit_payload :: json
  previous_hash :: string
  record_hash :: string

definition audit_text :: "audit_record \<Rightarrow> string" where
  "audit_text r = dumps compact_ascii (JObj
     [(''timestamp'', JStr (timestamp r)), (''event'', JStr (audit_event r)), (''payload'', audit_payload r),
      (''previous_hash'', JStr (previous_hash r))])"

definition audit_record_of :: "(string \<Rightarrow> string) \<Rightarrow> int \<Rightarrow> string \<Rightarrow> json \<Rightarrow> audit_record list \<Rightarrow> audit_record" where
  "audit_record_of H now ev p recs =
     (let r = \<lparr>timestamp = isoformat now, audit_event = ev, audit_payload = p,
               previous_hash = (if recs = [] then genesis else record_hash (last recs)), record_hash = []\<rparr>
      in r\<lparr>record_hash := H (audit_text r)\<rparr>)"

definition audit_append :: "(string \<Rightarrow> string) \<Rightarrow> int \<Rightarrow> string \<Rightarrow> json \<Rightarrow> audit_record list \<Rightarrow> audit_record list" where
  "audit_append H now ev p recs = recs @ [audit_record_of H now ev p recs]"

fun audit_verify_from :: "(string \<Rightarrow> string) \<Rightarrow> string \<Rightarrow> audit_record list \<Rightarrow> bool" where
  "audit_verify_from H previous [] = True"
| "audit_verify_from H previous (r # rs) =
     (if previous_hash r \<noteq> previous then False
      else if H (audit_text r) \<noteq> record_hash r then False
      else audit_verify_from H (record_hash r) rs)"

definition audit_verify :: "(string \<Rightarrow> string) \<Rightarrow> audit_record list \<Rightarrow> bool" where
  "audit_verify H recs = audit_verify_from H genesis recs"

lemma audit_text_hash [simp]: "audit_text (r\<lparr>record_hash := h\<rparr>) = audit_text r"
  by (simp add: audit_text_def)

lemma audit_verify_from_chain:
  "audit_verify_from H p recs \<longleftrightarrow> chain_from H audit_text previous_hash record_hash p recs"
  by (induction recs arbitrary: p) auto

text \<open>Appending keeps the chain, extends the file and is the only thing that happens to it.\<close>

lemma audit_verify_append [simp]: "audit_verify H (audit_append H now ev p recs) \<longleftrightarrow> audit_verify H recs"
  by (auto simp: audit_verify_def audit_verify_from_chain audit_append_def chain_from_snoc audit_record_of_def
      Let_def tip_def audit_text_def)

lemma audit_verify_Nil [simp]: "audit_verify H []"
  by (simp add: audit_verify_def)

lemma prefix_audit_append [simp]: "prefix recs (audit_append H now ev p recs)"
  by (simp add: audit_append_def)

lemma prefix_audit_append_trans: "prefix a recs \<Longrightarrow> prefix a (audit_append H now ev p recs)"
  by (simp add: audit_append_def prefix_prefix)

lemma audit_append_ne [simp]: "audit_append H now ev p recs \<noteq> []"
  by (simp add: audit_append_def)

lemma audit_events_append:
  "map (\<lambda>r. (audit_event r, audit_payload r)) (audit_append H now ev p recs)
     = map (\<lambda>r. (audit_event r, audit_payload r)) recs @ [(ev, p)]"
  by (simp add: audit_append_def audit_record_of_def Let_def)

end
