(* ===== verification/Engine_Core.thy ===== *)
theory Engine_Core
  imports Audit_Log Op_Machine
begin

text \<open>
  \<open>centinal26/core.py\<close>: the job table and the engine over it. A capability and its verifier are code
  outside the module: functions on JSON values that return or raise. \<open>clk\<close> is the clock as a call
  reads it, one reading after the other. The columns are kept decoded; the queue is read in the order
  of \<open>created_at\<close>, rows of the same instant in the order they were inserted.
\<close>

section \<open>Data\<close>

record verification =
  passed :: bool
  evidence :: json_object

definition verification_json :: "verification \<Rightarrow> json" where
  "verification_json v = JObj [(''passed'', JBool (passed v)), (''evidence'', JObj (evidence v))]"

text \<open>What code outside the module returns, or the type name and the text of what it raises.\<close>

type_synonym 'a external = "(string \<times> string) + 'a"

text \<open>A verifier that returns no \<open>Verification\<close> returns \<open>None\<close> here.\<close>

record registered_capability =
  execute :: "json \<Rightarrow> json external"
  verify :: "json \<Rightarrow> json \<Rightarrow> verification option external"

record core_job =
  job_id :: string
  capability :: string
  input :: json
  grant :: grant
  state :: string
  job_result :: "json option"
  created_at :: string
  updated_at :: string

record core_engine =
  jobs :: "core_job list"
  audit :: "audit_record list"
  capabilities :: "string \<Rightarrow> registered_capability option"

definition empty_engine :: core_engine where
  "empty_engine = \<lparr>jobs = [], audit = [], capabilities = (\<lambda>_. None)\<rparr>"

section \<open>The job table\<close>

definition store_submit :: "int \<Rightarrow> string \<Rightarrow> string \<Rightarrow> json \<Rightarrow> grant \<Rightarrow> core_job list \<Rightarrow> (string, core_job list) outcome" where
  "store_submit now uuid cap data g js =
     (if \<exists>j\<in>set js. job_id j = uuid then (Inl IntegrityError, js)
      else (Inr uuid, js @ [\<lparr>job_id = uuid, capability = cap, input = data, grant = g, state = ''queued'',
              job_result = None, created_at = isoformat now, updated_at = isoformat now\<rparr>]))"

definition next_job :: "core_job list \<Rightarrow> core_job option" where
  "next_job js = first_by created_at (filter (\<lambda>j. state j = ''queued'') js)"

definition transition :: "int \<Rightarrow> string \<Rightarrow> string \<Rightarrow> json \<Rightarrow> core_job list \<Rightarrow> core_job list" where
  "transition now jid st res js = update_where (\<lambda>j. job_id j = jid)
     (\<lambda>j. j\<lparr>state := st, job_result := Some res, updated_at := isoformat now\<rparr>) js"

definition counts :: "core_job list \<Rightarrow> (string \<times> int) list" where
  "counts js = map (\<lambda>st. (st, int (length (filter (\<lambda>j. state j = st) js)))) (sort (remdups (map state js)))"

section \<open>The engine\<close>

definition log_audit :: "(string \<Rightarrow> string) \<Rightarrow> int \<Rightarrow> string \<Rightarrow> json_object \<Rightarrow> core_engine \<Rightarrow> core_engine" where
  "log_audit H now ev p e = e\<lparr>audit := audit_append H now ev (JObj p) (audit e)\<rparr>"

definition register :: "string \<Rightarrow> (json \<Rightarrow> json external) \<Rightarrow> (json \<Rightarrow> json \<Rightarrow> verification option external) \<Rightarrow>
    core_engine \<Rightarrow> core_engine" where
  "register name f v e = e\<lparr>capabilities := (capabilities e)(name \<mapsto> \<lparr>execute = f, verify = v\<rparr>)\<rparr>"

definition submit :: "(string \<Rightarrow> string) \<Rightarrow> (nat \<Rightarrow> int) \<Rightarrow> string \<Rightarrow> string \<Rightarrow> json \<Rightarrow> grant \<Rightarrow> core_engine \<Rightarrow>
    (string, core_engine) outcome" where
  "submit H clk uuid cap data g e =
     (case permits g cap (clk 0) of
        Inl err \<Rightarrow> (Inl err, e)
      | Inr False \<Rightarrow> (Inl (PermissionError ''grant does not authorize this capability''),
                      log_audit H (clk 1) ''authorization_denied'' [(''capability'', JStr cap)] e)
      | Inr True \<Rightarrow>
          if capabilities e cap = None then (Inl (KeyError (''unknown capability: '' @ cap)), e)
          else
            (case store_submit (clk 1) uuid cap data g (jobs e) of
               (Inl err, js) \<Rightarrow> (Inl err, e\<lparr>jobs := js\<rparr>)
             | (Inr jid, js) \<Rightarrow>
                 (Inr jid, log_audit H (clk 2) ''job_queued''
                    [(''job_id'', JStr jid), (''capability'', JStr cap)] (e\<lparr>jobs := js\<rparr>))))"

text \<open>\<open>self.store.transition(job_id, state, result)\<close> and the audit record that follows it.\<close>

definition settle :: "(string \<Rightarrow> string) \<Rightarrow> int \<Rightarrow> int \<Rightarrow> string \<Rightarrow> string \<Rightarrow> json_object \<Rightarrow> core_engine \<Rightarrow> core_engine" where
  "settle H t1 t2 jid st res e =
     log_audit H t2 (''job_'' @ st) ((''job_id'', JStr jid) # res)
       (e\<lparr>jobs := transition t1 jid st (JObj res) (jobs e)\<rparr>)"

definition rejected_result :: "json \<Rightarrow> string \<Rightarrow> string \<Rightarrow> json_object" where
  "rejected_result out name message =
     [(''ok'', JBool False), (''output'', out),
      (''verification'', JObj [(''passed'', JBool False), (''error'', JStr name), (''message'', JStr message)])]"

definition verify_output :: "registered_capability \<Rightarrow> json \<Rightarrow> json \<Rightarrow> string \<times> json_object" where
  "verify_output r data out =
     (case verify r data out of
        Inl (name, message) \<Rightarrow> (''verification_failed'', rejected_result out name message)
      | Inr None \<Rightarrow> (''verification_failed'',
          rejected_result out ''InvalidVerificationResult'' ''verifier must return Verification'')
      | Inr (Some v) \<Rightarrow>
          (if passed v then ''verified'' else ''verification_failed'',
           [(''ok'', JBool (passed v)), (''output'', out), (''verification'', verification_json v)]))"

definition run_job :: "(string \<Rightarrow> string) \<Rightarrow> (nat \<Rightarrow> int) \<Rightarrow> core_job \<Rightarrow> registered_capability \<Rightarrow> core_engine \<Rightarrow> core_engine" where
  "run_job H clk j r e0 =
     (let jid = job_id j;
          e = log_audit H (clk 1) ''job_started''
                [(''job_id'', JStr jid), (''capability'', JStr (capability j))] e0
      in case execute r (input j) of
           Inl (name, message) \<Rightarrow>
             settle H (clk 2) (clk 3) jid ''failed''
               [(''ok'', JBool False), (''error'', JStr name), (''message'', JStr message)] e
         | Inr out \<Rightarrow>
             (let e' = settle H (clk 2) (clk 3) jid ''executed'' [(''ok'', JBool True), (''output'', out)] e
              in case verify_output r (input j) out of (st, res) \<Rightarrow> settle H (clk 4) (clk 5) jid st res e'))"

definition run_once :: "(string \<Rightarrow> string) \<Rightarrow> (nat \<Rightarrow> int) \<Rightarrow> core_engine \<Rightarrow> (string option, core_engine) outcome" where
  "run_once H clk e =
     (case next_job (jobs e) of
        None \<Rightarrow> (Inr None, e)
      | Some j \<Rightarrow>
          (case permits (grant j) (capability j) (clk 0) of
             Inl err \<Rightarrow> (Inl err, e)
           | Inr False \<Rightarrow> (Inr (Some (job_id j)), settle H (clk 1) (clk 2) (job_id j) ''rejected''
               [(''error'', JStr ''authorization expired or mismatched'')] e)
           | Inr True \<Rightarrow>
               (case capabilities e (capability j) of
                  None \<Rightarrow> (Inr (Some (job_id j)), settle H (clk 1) (clk 2) (job_id j) ''rejected''
                    [(''error'', JStr ''capability is no longer registered'')] e)
                | Some r \<Rightarrow> (Inr (Some (job_id j)), run_job H clk j r e))))"

end
