(* ===== verification/Engine_Core_Claims.thy ===== *)
theory Engine_Core_Claims
  imports Engine_Core
begin

text \<open>
  Whatever is registered, submitted and run: one run settles the first job of the queue and touches no
  other, and a job is verified exactly when its verifier passed the output of an authorized run.
\<close>

section \<open>The engine as a machine\<close>

datatype core_op =
    Register string "json \<Rightarrow> json external" "json \<Rightarrow> json \<Rightarrow> verification option external"
  | Submit "nat \<Rightarrow> int" string string json grant
  | Run_Once "nat \<Rightarrow> int"

fun run_core :: "(string \<Rightarrow> string) \<Rightarrow> core_op \<Rightarrow> core_engine \<Rightarrow> core_engine" where
  "run_core H (Register name f v) e = register name f v e"
| "run_core H (Submit clk uuid cap data g) e = snd (submit H clk uuid cap data g e)"
| "run_core H (Run_Once clk) e = snd (run_once H clk e)"

definition settled_states :: "string list" where
  "settled_states = [''rejected'', ''failed'', ''verification_failed'', ''verified'']"

text \<open>A job came in through \<open>submit\<close>: its grant is for its capability and has a readable expiry.\<close>

definition core_job_ok :: "core_job \<Rightarrow> bool" where
  "core_job_ok j \<longleftrightarrow> state j \<in> set (''queued'' # settled_states)
     \<and> (\<exists>now. permits (grant j) (capability j) now = Inr True)"

definition core_inv :: "(string \<Rightarrow> string) \<Rightarrow> core_engine \<Rightarrow> bool" where
  "core_inv H e \<longleftrightarrow> audit_verify H (audit e) \<and> distinct (map job_id (jobs e)) \<and> list_all core_job_ok (jobs e)"

lemma log_audit_simps [simp]:
  "jobs (log_audit H now ev p e) = jobs e"
  "audit (log_audit H now ev p e) = audit_append H now ev (JObj p) (audit e)"
  "capabilities (log_audit H now ev p e) = capabilities e"
  by (simp_all add: log_audit_def)

lemma settle_simps [simp]:
  "jobs (settle H t1 t2 jid st res e) = transition t1 jid st (JObj res) (jobs e)"
  "audit (settle H t1 t2 jid st res e) = audit_append H t2 (''job_'' @ st) (JObj ((''job_id'', JStr jid) # res)) (audit e)"
  "capabilities (settle H t1 t2 jid st res e) = capabilities e"
  by (simp_all add: settle_def)

lemma transition_twice:
  "transition t jid st res (transition t' jid st' res' js) = transition t jid st res js"
  by (simp add: transition_def update_where_def comp_def cong: map_cong if_cong)

lemma transition_row:
  assumes "distinct (map job_id js)" "j \<in> set js"
  shows "transition t (job_id j) st res js
    = map (\<lambda>x. if x = j then j\<lparr>state := st, job_result := Some res, updated_at := isoformat t\<rparr> else x) js"
  unfolding transition_def update_where_def using unique_row [OF assms(1) _ assms(2)] by (intro map_cong refl) auto

lemma transition_ids: "map job_id (transition t jid st res js) = map job_id js"
  unfolding transition_def by (rule map_update_where) simp

lemma transition_ok:
  assumes "list_all core_job_ok js" "st \<in> set settled_states" shows "list_all core_job_ok (transition t jid st res js)"
  using assms by (auto simp: list_all_iff transition_def set_update_where core_job_ok_def)

lemma core_inv_settle:
  "core_inv H e \<Longrightarrow> st \<in> set settled_states \<Longrightarrow> core_inv H (settle H t1 t2 jid st res e)"
  by (simp add: core_inv_def transition_ids transition_ok)

lemma core_inv_log: "core_inv H e \<Longrightarrow> core_inv H (log_audit H now ev p e)"
  by (simp add: core_inv_def)

lemma core_inv_submit: "core_inv H e \<Longrightarrow> core_inv H (snd (submit H clk uuid cap data g e))"
  by (auto simp: submit_def store_submit_def core_inv_def core_job_ok_def
      split: sum.split bool.split)

text \<open>What the run of a job with a registered capability makes of it.\<close>

definition job_end :: "core_engine \<Rightarrow> int \<Rightarrow> core_job \<Rightarrow> string \<times> json_object" where
  "job_end e now j =
     (if permits (grant j) (capability j) now \<noteq> Inr True
      then (''rejected'', [(''error'', JStr ''authorization expired or mismatched'')])
      else case capabilities e (capability j) of
        None \<Rightarrow> (''rejected'', [(''error'', JStr ''capability is no longer registered'')])
      | Some r \<Rightarrow>
          (case execute r (input j) of
             Inl (name, message) \<Rightarrow>
               (''failed'', [(''ok'', JBool False), (''error'', JStr name), (''message'', JStr message)])
           | Inr out \<Rightarrow> verify_output r (input j) out))"

lemma verify_output_settled: "fst (verify_output r data out) \<in> set settled_states"
  by (auto simp: verify_output_def settled_states_def split: sum.split option.split prod.split)

lemma job_end_settled: "fst (job_end e now j) \<in> set settled_states"
  using verify_output_settled by (auto simp: job_end_def settled_states_def split: sum.split option.split prod.split)

lemma verify_output_verified:
  "fst (verify_output r data out) = ''verified'' \<longleftrightarrow> (\<exists>v. verify r data out = Inr (Some v) \<and> passed v)"
  by (auto simp: verify_output_def split: sum.split option.split prod.split)

lemma job_end_verified:
  "fst (job_end e now j) = ''verified'' \<longleftrightarrow> permits (grant j) (capability j) now = Inr True
     \<and> (\<exists>r out v. capabilities e (capability j) = Some r \<and> execute r (input j) = Inr out
          \<and> verify r (input j) out = Inr (Some v) \<and> passed v)"
  by (auto simp: job_end_def verify_output_verified split: sum.split option.split prod.split)

lemma run_once_job:
  assumes inv: "core_inv H e" and j: "next_job (jobs e) = Some j"
  shows "\<exists>t e'. run_once H clk e = (Inr (Some (job_id j)), e')
    \<and> jobs e' = transition t (job_id j) (fst (job_end e (clk 0) j)) (JObj (snd (job_end e (clk 0) j))) (jobs e)
    \<and> audit_verify H (audit e') \<and> prefix (audit e) (audit e') \<and> capabilities e' = capabilities e"
proof -
  have mem: "j \<in> set (jobs e)" using j by (auto simp: next_job_def dest: first_by_filter_SomeD)
  then obtain now where "permits (grant j) (capability j) now = Inr True"
    using inv by (auto simp: core_inv_def list_all_iff core_job_ok_def)
  then have "permits (grant j) (capability j) (clk 0) \<noteq> Inl err" for err
    using permits_raises [of "grant j" "capability j" "clk 0" err now] by auto
  then obtain b where b: "permits (grant j) (capability j) (clk 0) = Inr b"
    by (cases "permits (grant j) (capability j) (clk 0)") auto
  then consider "permits (grant j) (capability j) (clk 0) = Inr False"
    | "permits (grant j) (capability j) (clk 0) = Inr True" "capabilities e (capability j) = None"
    | r where "permits (grant j) (capability j) (clk 0) = Inr True" "capabilities e (capability j) = Some r"
    by (cases b; cases "capabilities e (capability j)") auto
  then show ?thesis
  proof cases
    case (3 r)
    show ?thesis
    proof (cases "execute r (input j)")
      case (Inl a)
      then show ?thesis using j 3 inv
        by (auto simp: run_once_def run_job_def Let_def job_end_def core_inv_def prefix_audit_append_trans
            split: prod.split)
    next
      case (Inr out)
      then show ?thesis using j 3 inv
        by (auto simp: run_once_def run_job_def Let_def job_end_def core_inv_def prefix_audit_append_trans
            transition_twice split: prod.split)
    qed
  qed (use j inv in \<open>auto simp: run_once_def job_end_def core_inv_def\<close>)
qed

lemma core_inv_run_once: "core_inv H e \<Longrightarrow> core_inv H (snd (run_once H clk e))"
proof (cases "next_job (jobs e)")
  case (Some j)
  assume inv: "core_inv H e"
  from run_once_job [OF this Some, of clk] show ?thesis
    using inv transition_ok [OF _ job_end_settled] by (auto simp: core_inv_def transition_ids)
qed (simp add: run_once_def)

interpretation core: op_machine "run_core H" empty_engine "core_inv H" for H
proof
  show "core_inv H empty_engine" by (simp add: core_inv_def empty_engine_def)
  show "core_inv H (run_core H op e)" if "core_inv H e" for op e
  proof (cases op)
    case (Register name f v)
    with that show ?thesis by (simp add: core_inv_def register_def)
  qed (use that in \<open>simp_all add: core_inv_submit core_inv_run_once\<close>)
qed

section \<open>Properties\<close>

text \<open>
  Whatever was registered, submitted and run before: a run settles the first queued job, in one
  of four states, and changes no other row; it never raises; the job is verified exactly when its
  grant was live, its capability registered, the execution returned and the verifier passed that
  output; and the audit file stays a verified chain that only grows.
\<close>

theorem core_run_settles_first_job:
  fixes H ops clk
  defines "e \<equiv> run_all (run_core H) ops empty_engine"
  shows "case next_job (jobs e) of
      None \<Rightarrow> run_once H clk e = (Inr None, e)
    | Some j \<Rightarrow> \<exists>j' e'. run_once H clk e = (Inr (Some (job_id j)), e')
        \<and> jobs e' = map (\<lambda>x. if x = j then j' else x) (jobs e)
        \<and> job_id j' = job_id j \<and> input j' = input j \<and> grant j' = grant j
        \<and> state j' \<in> set settled_states
        \<and> (state j' = ''verified'' \<longleftrightarrow> permits (grant j) (capability j) (clk 0) = Inr True
             \<and> (\<exists>r out v. capabilities e (capability j) = Some r \<and> execute r (input j) = Inr out
                  \<and> verify r (input j) out = Inr (Some v) \<and> passed v))
        \<and> audit_verify H (audit e') \<and> prefix (audit e) (audit e')"
proof (cases "next_job (jobs e)")
  case None
  then show ?thesis by (simp add: run_once_def)
next
  case (Some j)
  have inv: "core_inv H e" unfolding e_def by (rule core.reached_inv)
  then have d: "distinct (map job_id (jobs e))" by (simp add: core_inv_def)
  have mem: "j \<in> set (jobs e)" using Some by (auto simp: next_job_def dest: first_by_filter_SomeD)
  obtain t e' where r: "run_once H clk e = (Inr (Some (job_id j)), e')"
    and js: "jobs e' = transition t (job_id j) (fst (job_end e (clk 0) j)) (JObj (snd (job_end e (clk 0) j))) (jobs e)"
    and a: "audit_verify H (audit e')" "prefix (audit e) (audit e')"
    using run_once_job [OF inv Some] by blast
  let ?j' = "j\<lparr>state := fst (job_end e (clk 0) j), job_result := Some (JObj (snd (job_end e (clk 0) j))),
    updated_at := isoformat t\<rparr>"
  have "jobs e' = map (\<lambda>x. if x = j then ?j' else x) (jobs e)" using js transition_row [OF d mem] by simp
  then have "\<exists>j' e'. run_once H clk e = (Inr (Some (job_id j)), e')
        \<and> jobs e' = map (\<lambda>x. if x = j then j' else x) (jobs e)
        \<and> job_id j' = job_id j \<and> input j' = input j \<and> grant j' = grant j
        \<and> state j' \<in> set settled_states
        \<and> (state j' = ''verified'' \<longleftrightarrow> permits (grant j) (capability j) (clk 0) = Inr True
             \<and> (\<exists>r out v. capabilities e (capability j) = Some r \<and> execute r (input j) = Inr out
                  \<and> verify r (input j) out = Inr (Some v) \<and> passed v))
        \<and> audit_verify H (audit e') \<and> prefix (audit e) (audit e')"
    using r a by (intro exI [of _ ?j'] exI [of _ e']) (simp add: job_end_settled job_end_verified)
  then show ?thesis by (simp add: Some)
qed

end
