(* ===== verification/Pipeline.thy ===== *)
theory Pipeline
  imports Audit_Log
begin

text \<open>
  \<open>centinal26/pipeline.py\<close>: the durable queue, the evidence files and the engine that commits state only
  on verified evidence. Capabilities are code outside the module: functions on JSON values that return
  or raise. \<open>H\<close> is SHA-256, \<open>clk\<close> the clock as a call reads it, one reading after the other, and
  \<open>num\<close> the JSON value of a floating point number. Columns and files are kept decoded, with the keys
  sorted as the stored text has them; a file is named by its job, attempt and kind.
\<close>

section \<open>Data\<close>

type_synonym 'a external = "(string \<times> string) + 'a"

record intent =
  intent_capability :: string
  intent_payload :: json
  actor :: string
  constraints :: json
  intent_id :: string
  intent_created :: string

definition intent_json :: "intent \<Rightarrow> json" where
  "intent_json i = JObj
     [(''capability'', JStr (intent_capability i)), (''payload'', intent_payload i), (''actor'', JStr (actor i)),
      (''constraints'', constraints i), (''intent_id'', JStr (intent_id i)), (''created_at'', JStr (intent_created i))]"

definition intent_sha256 :: "(string \<Rightarrow> string) \<Rightarrow> intent \<Rightarrow> string" where
  "intent_sha256 H i = canonical_sha256 H (intent_json i)"

text \<open>The intent read back from its column.\<close>

definition stored_intent :: "intent \<Rightarrow> intent" where
  "stored_intent i = i\<lparr>intent_payload := sort_keys (intent_payload i), constraints := sort_keys (constraints i)\<rparr>"

record capability_spec =
  spec_name :: string
  executor :: "json \<Rightarrow> json external"
  verifier :: "json \<Rightarrow> json \<Rightarrow> bool external"
  verifier_name :: string
  reducer :: "(json \<Rightarrow> json \<Rightarrow> json external) option"
  timeout_seconds :: rat
  spec_max_attempts :: int
  verifier_independent :: bool

record rt_job =
  job_id :: string
  idempotency_key :: string
  job_intent_sha256 :: "string option"
  job_intent :: intent
  job_grant :: grant
  capability :: string
  state :: string
  attempts :: int
  max_attempts :: int
  lease_until :: "string option"
  job_result :: "json option"
  evidence_path :: "string option"
  created_at :: string
  updated_at :: string

record state_row =
  state_key :: string
  state_value :: json
  version :: int
  state_updated :: string

record run_row =
  run_id :: string
  run_verified :: bool
  evidence_complete :: bool
  state_diverged :: bool
  recovery_test :: bool
  run_independent :: bool
  run_at :: string

record runtime_store =
  jobs :: "rt_job list"
  canonical_state :: "state_row list"
  run_history :: "run_row list"

section \<open>The runtime store\<close>

definition migrate_jobs :: "(string \<Rightarrow> string) \<Rightarrow> rt_job list \<Rightarrow> rt_job list" where
  "migrate_jobs H js = update_where (\<lambda>j. job_intent_sha256 j = None \<or> job_intent_sha256 j = Some [])
     (\<lambda>j. j\<lparr>job_intent_sha256 := Some (intent_sha256 H (job_intent j))\<rparr>) js"

definition known_sha :: "(string \<Rightarrow> string) \<Rightarrow> rt_job \<Rightarrow> string" where
  "known_sha H j = (case job_intent_sha256 j of
     Some s \<Rightarrow> if s = [] then intent_sha256 H (job_intent j) else s
   | None \<Rightarrow> intent_sha256 H (job_intent j))"

definition store_submit :: "(string \<Rightarrow> string) \<Rightarrow> int \<Rightarrow> string \<Rightarrow> intent \<Rightarrow> grant \<Rightarrow> string \<Rightarrow> int \<Rightarrow> rt_job list \<Rightarrow>
    (string \<times> bool, rt_job list) outcome" where
  "store_submit H now uuid i g key max_att js =
     (if blank key then (Inl (ValueError ''idempotency key must not be empty''), js)
      else if \<exists>j\<in>set js. job_id j = uuid \<or> idempotency_key j = key then
        (case select_one (\<lambda>j. idempotency_key j = key) js of
           None \<Rightarrow> (Inl IntegrityError, js)
         | Some row \<Rightarrow>
             if known_sha H row \<noteq> intent_sha256 H i
             then (Inl (IdempotencyConflict ''idempotency key reused with different intent content''), js)
             else (Inr (job_id row, False), js))
      else (Inr (uuid, True),
            js @ [\<lparr>job_id = uuid, idempotency_key = key, job_intent_sha256 = Some (intent_sha256 H i),
                   job_intent = stored_intent i, job_grant = g, capability = intent_capability i,
                   state = ''queued'', attempts = 0, max_attempts = max_att, lease_until = None,
                   job_result = None, evidence_path = None, created_at = isoformat now,
                   updated_at = isoformat now\<rparr>]))"

definition lease_over :: "string \<Rightarrow> rt_job \<Rightarrow> bool" where
  "lease_over stamp j \<longleftrightarrow> state j = ''running'' \<and> (case lease_until j of None \<Rightarrow> False | Some t \<Rightarrow> t < stamp)"

definition recover_row :: "string \<Rightarrow> rt_job list \<Rightarrow> rt_job \<Rightarrow> rt_job list" where
  "recover_row stamp js row = update_where (\<lambda>j. job_id j = job_id row)
     (\<lambda>j. j\<lparr>state := (if attempts row < max_attempts row then ''queued'' else ''failed''),
            lease_until := None, updated_at := stamp\<rparr>) js"

definition recover :: "int \<Rightarrow> rt_job list \<Rightarrow> int \<times> rt_job list" where
  "recover now js =
     (let rows = filter (lease_over (isoformat now)) js
      in (int (length rows), foldl (recover_row (isoformat now)) js rows))"

definition claim :: "(nat \<Rightarrow> int) \<Rightarrow> int \<Rightarrow> rt_job list \<Rightarrow> (rt_job option, rt_job list) outcome" where
  "claim clk lease_seconds js0 =
     (if lease_seconds < 1 then (Inl (ValueError ''lease_seconds must be positive''), js0)
      else
        (let js = snd (recover (clk 0) js0)
         in case first_by (\<lambda>j. (created_at j, job_id j)) (filter (\<lambda>j. state j = ''queued'') js) of
              None \<Rightarrow> (Inr None, js)
            | Some row \<Rightarrow>
                if clk 1 + lease_seconds * 1000000 \<ge> max_instant then (Inl OverflowError, js)
                else
                  (let js' = update_where (\<lambda>j. job_id j = job_id row \<and> state j = ''queued'')
                         (\<lambda>j. j\<lparr>state := ''running'', attempts := attempts j + 1,
                                lease_until := Some (isoformat (clk 1 + lease_seconds * 1000000)),
                                updated_at := isoformat (clk 2)\<rparr>) js
                   in (Inr (select_one (\<lambda>j. job_id j = job_id row) js'), js'))))"

definition finish :: "int \<Rightarrow> string \<Rightarrow> string \<Rightarrow> json \<Rightarrow> string option \<Rightarrow> rt_job list \<Rightarrow> rt_job list" where
  "finish now jid st res path js = update_where (\<lambda>j. job_id j = jid)
     (\<lambda>j. j\<lparr>state := st, job_result := Some (sort_keys res), evidence_path := path, lease_until := None,
            updated_at := isoformat now\<rparr>) js"

definition retry :: "int \<Rightarrow> string \<Rightarrow> json \<Rightarrow> string \<Rightarrow> rt_job list \<Rightarrow> (string, rt_job list) outcome" where
  "retry now jid res path js =
     (case select_one (\<lambda>j. job_id j = jid) js of
        None \<Rightarrow> (Inl (KeyError jid), js)
      | Some row \<Rightarrow>
          (let st = (if attempts row < max_attempts row then ''queued'' else ''failed'')
           in (Inr st, finish now jid st res (Some path) js)))"

definition get_state :: "string \<Rightarrow> state_row list \<Rightarrow> json option" where
  "get_state key rows = map_option state_value (select_one (\<lambda>r. state_key r = key) rows)"

definition set_state :: "int \<Rightarrow> string \<Rightarrow> json \<Rightarrow> state_row list \<Rightarrow> int \<times> state_row list" where
  "set_state now key value rows =
     (let v = (case select_one (\<lambda>r. state_key r = key) rows of None \<Rightarrow> 1 | Some r \<Rightarrow> version r + 1);
          new = \<lparr>state_key = key, state_value = sort_keys value, version = v, state_updated = isoformat now\<rparr>
      in (v, upsert_by state_key (\<lambda>r. new) new rows))"

definition record_run :: "int \<Rightarrow> string \<Rightarrow> bool \<Rightarrow> bool \<Rightarrow> bool \<Rightarrow> bool \<Rightarrow> bool \<Rightarrow> run_row list \<Rightarrow> (unit, run_row list) outcome" where
  "record_run now uuid verified ev recovery indep diverged rows =
     (if \<exists>r\<in>set rows. run_id r = uuid then (Inl IntegrityError, rows)
      else (Inr (), rows @ [\<lparr>run_id = uuid, run_verified = verified, evidence_complete = ev,
              state_diverged = diverged, recovery_test = recovery, run_independent = indep,
              run_at = isoformat now\<rparr>]))"

definition counts :: "rt_job list \<Rightarrow> (string \<times> int) list" where
  "counts js = map (\<lambda>st. (st, int (length (filter (\<lambda>j. state j = st) js)))) (sort (remdups (map state js)))"

definition good_run :: "run_row \<Rightarrow> bool" where
  "good_run r \<longleftrightarrow> run_verified r \<and> evidence_complete r \<and> \<not> state_diverged r"

definition evolution_status :: "int \<Rightarrow> run_row list \<Rightarrow> json_object" where
  "evolution_status minimum history =
     (let rows = rev (sort_key (\<lambda>r. (run_at r, run_id r)) history);
          consecutive = int (length (takeWhile good_run rows));
          zero_divergence = (\<not> list_ex state_diverged rows);
          intact = (rows \<noteq> [] \<and> list_all evidence_complete rows);
          recovery_pass = list_ex (\<lambda>r. recovery_test r \<and> run_verified r) rows;
          indep = (rows \<noteq> [] \<and> list_all run_independent rows)
      in [(''ready'', JBool (consecutive \<ge> minimum \<and> zero_divergence \<and> intact \<and> recovery_pass \<and> indep)),
          (''consecutive_passes'', JInt consecutive), (''minimum_consecutive_passes'', JInt minimum),
          (''zero_state_divergence'', JBool zero_divergence), (''evidence_complete'', JBool intact),
          (''recovery_pass'', JBool recovery_pass), (''verifier_independent'', JBool indep)])"

section \<open>Evidence files\<close>

type_synonym file_name = "string \<times> int \<times> string"
type_synonym files = "(file_name \<times> json) list"

definition zero_padded :: "int \<Rightarrow> string" where
  "zero_padded n = (if 0 \<le> n \<and> n < 10000 then pad 4 n else int_text n)"

definition path_text :: "string \<Rightarrow> file_name \<Rightarrow> string" where
  "path_text dir f = (case f of (jid, n, knd) \<Rightarrow>
     dir @ ''/'' @ jid @ ''/'' @ zero_padded n @ ''-'' @ knd @ ''.json'')"

definition evidence_body :: "(string \<Rightarrow> string) \<Rightarrow> int \<Rightarrow> string \<Rightarrow> int \<Rightarrow> json_object \<Rightarrow> json_object" where
  "evidence_body H now jid attempt payload =
     (let body = put ''recorded_at'' (JStr (isoformat now))
                   (put ''attempt'' (JInt attempt) (put ''job_id'' (JStr jid) payload))
      in put ''sha256'' (JStr (canonical_sha256 H (JObj body))) body)"

definition write_evidence :: "(string \<Rightarrow> string) \<Rightarrow> int \<Rightarrow> string \<Rightarrow> int \<Rightarrow> string \<Rightarrow> json_object \<Rightarrow> string \<Rightarrow> files \<Rightarrow>
    (file_name, files) outcome" where
  "write_evidence H now jid attempt knd payload dir fs =
     (let f = (jid, attempt, knd)
      in if map_of fs f \<noteq> None then (Inl (FileExistsError (path_text dir f)), fs)
         else (Inr f, fs @ [(f, sort_keys (JObj (evidence_body H now jid attempt payload)))]))"

definition verify_evidence :: "(string \<Rightarrow> string) \<Rightarrow> file_name \<Rightarrow> files \<Rightarrow> bool" where
  "verify_evidence H f fs =
     (case map_of fs f of
        Some (JObj d) \<Rightarrow> get d ''sha256''
          = Some (JStr (canonical_sha256 H (JObj (filter (\<lambda>(k, v). k \<noteq> ''sha256'') d))))
      | _ \<Rightarrow> False)"

section \<open>The engine\<close>

record engine =
  store :: runtime_store
  audit :: "audit_record list"
  evidence_dir :: string
  evidence :: files
  capabilities :: "string \<Rightarrow> capability_spec option"

definition empty_engine :: "string \<Rightarrow> engine" where
  "empty_engine dir = \<lparr>store = \<lparr>jobs = [], canonical_state = [], run_history = []\<rparr>, audit = [], evidence_dir = dir,
     evidence = [], capabilities = (\<lambda>_. None)\<rparr>"

definition log_audit :: "(string \<Rightarrow> string) \<Rightarrow> int \<Rightarrow> string \<Rightarrow> json_object \<Rightarrow> engine \<Rightarrow> engine" where
  "log_audit H now ev p e = e\<lparr>audit := audit_append H now ev (JObj p) (audit e)\<rparr>"

definition with_jobs :: "rt_job list \<Rightarrow> engine \<Rightarrow> engine" where
  "with_jobs js e = e\<lparr>store := (store e)\<lparr>jobs := js\<rparr>\<rparr>"

definition register :: "(string \<Rightarrow> string) \<Rightarrow> int \<Rightarrow> capability_spec \<Rightarrow> engine \<Rightarrow> (unit, engine) outcome" where
  "register H now spec e =
     (if timeout_seconds spec \<le> 0 \<or> spec_max_attempts spec < 1
      then (Inl (ValueError ''capability bounds must be positive''), e)
      else (Inr (), log_audit H now ''capability_registered'' [(''capability'', JStr (spec_name spec))]
                      (e\<lparr>capabilities := (capabilities e)(spec_name spec \<mapsto> spec)\<rparr>)))"

definition intent_refs :: "intent \<Rightarrow> json_object" where
  "intent_refs i = [(''intent_id'', JStr (intent_id i)), (''capability'', JStr (intent_capability i))]"

definition submit_key :: "intent \<Rightarrow> string option \<Rightarrow> string" where
  "submit_key i given = (case given of
     Some k \<Rightarrow> if k = [] then ''intent:'' @ intent_id i else k
   | None \<Rightarrow> ''intent:'' @ intent_id i)"

definition submit :: "(string \<Rightarrow> string) \<Rightarrow> (nat \<Rightarrow> int) \<Rightarrow> string \<Rightarrow> intent \<Rightarrow> grant \<Rightarrow> string option \<Rightarrow> engine \<Rightarrow>
    (string, engine) outcome" where
  "submit H clk uuid i g given e =
     (case permits g (intent_capability i) (clk 0) of
        Inl err \<Rightarrow> (Inl err, e)
      | Inr False \<Rightarrow> (Inl (PermissionError ''grant does not authorize requested capability''),
                      log_audit H (clk 1) ''authorization_denied'' (intent_refs i) e)
      | Inr True \<Rightarrow>
          (case capabilities e (intent_capability i) of
             None \<Rightarrow> (Inl (KeyError (''unknown capability: '' @ intent_capability i)),
                      log_audit H (clk 1) ''capability_unavailable'' (intent_refs i) e)
           | Some spec \<Rightarrow>
               (let key = submit_key i given
                in case store_submit H (clk 1) uuid i g key (spec_max_attempts spec) (jobs (store e)) of
                     (Inl (IdempotencyConflict m), js) \<Rightarrow>
                       (Inl (IdempotencyConflict m),
                        log_audit H (clk 2) ''idempotency_conflict'' (intent_refs i @ [(''key'', JStr key)]) e)
                   | (Inl err, js) \<Rightarrow> (Inl err, e)
                   | (Inr (jid, created), js) \<Rightarrow>
                       (Inr jid, log_audit H (clk 2) (if created then ''job_queued'' else ''job_deduplicated'')
                          ((''job_id'', JStr jid) # intent_refs i) (with_jobs js e)))))"

text \<open>\<open>{x:.3f}\<close>: the exact value rounded half to even.\<close>

definition fixed3 :: "rat \<Rightarrow> string" where
  "fixed3 x =
     (let y = \<bar>x\<bar> * 1000; n = \<lfloor>y\<rfloor>; d = y - of_int n;
          m = (if d > 1/2 \<or> d = 1/2 \<and> odd n then n + 1 else n)
      in (if x < 0 then ''-'' else []) @ int_text (m div 1000) @ ''.'' @ pad 3 (m mod 1000))"

text \<open>
  \<open>alarm\<close>: the timer rang before the capability returned, which a worker outside the main thread never
  sees; \<open>elapsed\<close> is the time the call took.
\<close>

definition execute :: "capability_spec \<Rightarrow> bool \<Rightarrow> rat \<Rightarrow> json \<Rightarrow> (json \<times> rat) external" where
  "execute spec alarm elapsed payload =
     (if alarm then Inl (''TimeoutError'', ''capability exceeded '' @ fixed3 (timeout_seconds spec) @ ''s bound'')
      else case executor spec payload of
        Inl err \<Rightarrow> Inl err
      | Inr out \<Rightarrow>
          if elapsed > timeout_seconds spec
          then Inl (''TimeoutError'', ''capability exceeded '' @ fixed3 (timeout_seconds spec) @ ''s bound (''
                    @ fixed3 elapsed @ ''s)'')
          else Inr (out, elapsed))"

text \<open>\<open>finish\<close>, the audit record of the new state, and the run in the history.\<close>

record run_note =
  note_uuid :: string
  note_recovery :: bool

definition close_job :: "(string \<Rightarrow> string) \<Rightarrow> (nat \<Rightarrow> int) \<Rightarrow> run_note \<Rightarrow> string \<Rightarrow> string \<Rightarrow> json_object \<Rightarrow> file_name \<Rightarrow>
    bool \<Rightarrow> bool \<Rightarrow> bool \<Rightarrow> bool \<Rightarrow> engine \<Rightarrow> (string, engine) outcome" where
  "close_job H clk nt jid st res f verified intact indep diverged e =
     (let e1 = with_jobs (finish (clk 0) jid st (JObj res) (Some (path_text (evidence_dir e) f)) (jobs (store e))) e;
          e2 = log_audit H (clk 1) (''job_'' @ st) ((''job_id'', JStr jid) # res) e1
      in case record_run (clk 2) (note_uuid nt) verified intact (note_recovery nt) indep diverged
                (run_history (store e2)) of
           (Inl err, _) \<Rightarrow> (Inl err, e2)
         | (Inr _, rows) \<Rightarrow> (Inr jid, e2\<lparr>store := (store e2)\<lparr>run_history := rows\<rparr>\<rparr>))"

text \<open>\<open>self.evidence.write(...)\<close>, then what is done with the path.\<close>

definition with_evidence :: "(string \<Rightarrow> string) \<Rightarrow> int \<Rightarrow> rt_job \<Rightarrow> string \<Rightarrow> json_object \<Rightarrow>
    (file_name \<Rightarrow> engine \<Rightarrow> (string, engine) outcome) \<Rightarrow> engine \<Rightarrow> (string, engine) outcome" where
  "with_evidence H now row knd payload k e =
     (case write_evidence H now (job_id row) (attempts row) knd payload (evidence_dir e) (evidence e) of
        (Inl err, _) \<Rightarrow> (Inl err, e)
      | (Inr f, fs) \<Rightarrow> k f (e\<lparr>evidence := fs\<rparr>))"

definition record_failure :: "(string \<Rightarrow> string) \<Rightarrow> (nat \<Rightarrow> int) \<Rightarrow> run_note \<Rightarrow> rt_job \<Rightarrow> capability_spec \<Rightarrow> json_object \<Rightarrow>
    engine \<Rightarrow> (string, engine) outcome" where
  "record_failure H clk nt row spec res =
     with_evidence H (clk 0) row ''execution-failure''
       [(''intent'', intent_json (job_intent row)), (''capability'', JStr (spec_name spec)),
        (''execution_error'', JObj res)]
       (\<lambda>f e.
          case retry (clk 1) (job_id row) (JObj res) (path_text (evidence_dir e) f) (jobs (store e)) of
            (Inl err, _) \<Rightarrow> (Inl err, e)
          | (Inr st, js) \<Rightarrow>
              (let e2 = log_audit H (clk 2) (''job_'' @ st) ((''job_id'', JStr (job_id row)) # res) (with_jobs js e)
               in case record_run (clk 3) (note_uuid nt) False (verify_evidence H f (evidence e2)) (note_recovery nt)
                         (verifier_independent spec) False (run_history (store e2)) of
                    (Inl err, _) \<Rightarrow> (Inl err, e2)
                  | (Inr _, rows) \<Rightarrow> (Inr (job_id row), e2\<lparr>store := (store e2)\<lparr>run_history := rows\<rparr>\<rparr>)))"

definition verifier_report :: "capability_spec \<Rightarrow> bool \<Rightarrow> json \<Rightarrow> json" where
  "verifier_report spec verified err = JObj
     [(''independent'', JBool (verifier_independent spec)), (''name'', JStr (verifier_name spec)),
      (''passed'', JBool verified), (''error'', err)]"

text \<open>The text of an exception the engine itself raises.\<close>

fun error_message :: "py_error \<Rightarrow> string" where
  "error_message (FileExistsError p) = p"
| "error_message IntegrityError = ''UNIQUE constraint failed: run_history.run_id''"
| "error_message (KeyError k) = quote False k"
| "error_message _ = []"

definition update_failed :: "(string \<Rightarrow> string) \<Rightarrow> (nat \<Rightarrow> int) \<Rightarrow> run_note \<Rightarrow> rt_job \<Rightarrow> capability_spec \<Rightarrow> file_name \<Rightarrow>
    string \<Rightarrow> engine \<Rightarrow> (string, engine) outcome" where
  "update_failed H clk nt row spec out_file message e =
     (let res = [(''ok'', JBool False), (''verified'', JBool True), (''error'', JStr ''state_update_failed''),
                 (''message'', JStr message)]
      in with_evidence H (clk 0) row ''state-update-failure''
           [(''output_evidence'', JStr (path_text (evidence_dir e) out_file)), (''state_update_error'', JObj res)]
           (\<lambda>f e'. close_job H (\<lambda>n. clk (Suc n)) nt (job_id row) ''state_update_failed'' res f False
                     (verify_evidence H f (evidence e')) (verifier_independent spec) False e') e)"

definition diverged :: "(string \<Rightarrow> string) \<Rightarrow> (nat \<Rightarrow> int) \<Rightarrow> run_note \<Rightarrow> rt_job \<Rightarrow> capability_spec \<Rightarrow> file_name \<Rightarrow>
    json \<Rightarrow> json \<Rightarrow> engine \<Rightarrow> (string, engine) outcome" where
  "diverged H clk nt row spec out_file updated observed e =
     (let res = [(''ok'', JBool False), (''verified'', JBool True), (''error'', JStr ''state_diverged''),
                 (''expected_state'', updated), (''observed_state'', observed)]
      in with_evidence H (clk 0) row ''state-divergence''
           [(''output_evidence'', JStr (path_text (evidence_dir e) out_file)), (''state_divergence'', JObj res)]
           (\<lambda>f e'. close_job H (\<lambda>n. clk (Suc n)) nt (job_id row) ''state_diverged'' res f False
                     (verify_evidence H f (evidence e')) (verifier_independent spec) True e') e)"

definition finish_verified :: "(string \<Rightarrow> string) \<Rightarrow> (nat \<Rightarrow> int) \<Rightarrow> run_note \<Rightarrow> rt_job \<Rightarrow> capability_spec \<Rightarrow> file_name \<Rightarrow>
    json \<Rightarrow> int option \<Rightarrow> engine \<Rightarrow> (string, engine) outcome" where
  "finish_verified H clk nt row spec f out v e =
     (case map_of (evidence e) f of
        Some (JObj d) \<Rightarrow>
          (case get d ''sha256'' of
             Some sha \<Rightarrow>
               close_job H clk nt (job_id row) ''verified''
                 [(''ok'', JBool True), (''verified'', JBool True), (''evidence_sha256'', sha),
                  (''state_version'', case v of None \<Rightarrow> JNull | Some n \<Rightarrow> JInt n), (''output'', out)]
                 f True True (verifier_independent spec) False e
           | None \<Rightarrow> (Inl (KeyError ''sha256''), e))
      | _ \<Rightarrow> (Inl (KeyError ''sha256''), e))"

definition commit_state :: "(string \<Rightarrow> string) \<Rightarrow> (nat \<Rightarrow> int) \<Rightarrow> run_note \<Rightarrow> rt_job \<Rightarrow> capability_spec \<Rightarrow> file_name \<Rightarrow>
    json \<Rightarrow> engine \<Rightarrow> (string, engine) outcome" where
  "commit_state H clk nt row spec f out e =
     (case reducer spec of
        None \<Rightarrow> finish_verified H (\<lambda>n. clk (10 + n)) nt row spec f out None e
      | Some red \<Rightarrow>
          (let current = (case get_state (spec_name spec) (canonical_state (store e)) of
                            None \<Rightarrow> JObj [] | Some c \<Rightarrow> if truthy c then c else JObj [])
           in case red current out of
                Inl (name, message) \<Rightarrow> update_failed H (\<lambda>n. clk (5 + n)) nt row spec f message e
              | Inr updated \<Rightarrow>
                  (case set_state (clk 0) (spec_name spec) updated (canonical_state (store e)) of
                     (v, rows) \<Rightarrow>
                       (let e1 = e\<lparr>store := (store e)\<lparr>canonical_state := rows\<rparr>\<rparr>;
                            observed = (case get_state (spec_name spec) rows of None \<Rightarrow> JNull | Some c \<Rightarrow> c)
                        in if \<not> py_eq observed updated
                           then (case diverged H (\<lambda>n. clk (1 + n)) nt row spec f updated observed e1 of
                                   (Inl err, e2) \<Rightarrow>
                                     update_failed H (\<lambda>n. clk (5 + n)) nt row spec f (error_message err) e2
                                 | done \<Rightarrow> done)
                           else finish_verified H (\<lambda>n. clk (10 + n)) nt row spec f out (Some v) e1))))"

definition verify_and_commit :: "(string \<Rightarrow> string) \<Rightarrow> (rat \<Rightarrow> json) \<Rightarrow> (nat \<Rightarrow> int) \<Rightarrow> run_note \<Rightarrow> rt_job \<Rightarrow> capability_spec \<Rightarrow>
    json \<Rightarrow> rat \<Rightarrow> engine \<Rightarrow> (string, engine) outcome" where
  "verify_and_commit H num clk nt row spec out elapsed =
     (case (case verifier spec (intent_payload (job_intent row)) out of
              Inl (name, message) \<Rightarrow> (False, JObj [(''error'', JStr name), (''message'', JStr message)])
            | Inr ok \<Rightarrow> (ok, JNull)) of
        (verified, err) \<Rightarrow>
          with_evidence H (clk 0) row (if verified then ''verified-output'' else ''verification-failure'')
            [(''intent'', intent_json (job_intent row)), (''grant'', grant_json (job_grant row)),
             (''capability'', JStr (spec_name spec)), (''output'', out), (''execution_seconds'', num elapsed),
             (''verifier'', verifier_report spec verified err)]
            (\<lambda>f e.
               let intact = verify_evidence H f (evidence e)
               in if \<not> verified \<or> \<not> intact
                  then close_job H (\<lambda>n. clk (1 + n)) nt (job_id row) ''failed_verification''
                         [(''ok'', JBool False), (''verified'', JBool verified),
                          (''evidence_complete'', JBool intact), (''verifier_error'', err)]
                         f False intact (verifier_independent spec) False e
                  else commit_state H (\<lambda>n. clk (1 + n)) nt row spec f out e))"

text \<open>What \<open>run_once\<close> does with the row it claimed.\<close>

definition process :: "(string \<Rightarrow> string) \<Rightarrow> (rat \<Rightarrow> json) \<Rightarrow> (nat \<Rightarrow> int) \<Rightarrow> run_note \<Rightarrow> bool \<Rightarrow> rat \<Rightarrow> rt_job \<Rightarrow> engine \<Rightarrow>
    (string, engine) outcome" where
  "process H num clk nt alarm elapsed row e0 =
     (let jid = job_id row;
          e = log_audit H (clk 0) ''job_started''
                [(''job_id'', JStr jid), (''attempt'', JInt (attempts row)), (''capability'', JStr (capability row))] e0;
          reject = with_evidence H (clk 2) row ''rejected''
            [(''intent'', intent_json (job_intent row)),
             (''result'', JObj [(''ok'', JBool False), (''error'', JStr ''authorization_or_capability_invalid'')])]
            (\<lambda>f e'. close_job H (\<lambda>n. clk (3 + n)) nt jid ''rejected''
               [(''ok'', JBool False), (''error'', JStr ''authorization_or_capability_invalid'')]
               f False (verify_evidence H f (evidence e')) False False e')
      in case capabilities e (capability row) of
           None \<Rightarrow> reject e
         | Some spec \<Rightarrow>
             (case permits (job_grant row) (capability row) (clk 1) of
                Inl err \<Rightarrow> (Inl err, e)
              | Inr False \<Rightarrow> reject e
              | Inr True \<Rightarrow>
                  (case execute spec alarm elapsed (intent_payload (job_intent row)) of
                     Inl (name, message) \<Rightarrow>
                       record_failure H (\<lambda>n. clk (2 + n)) nt row spec
                         [(''ok'', JBool False), (''error'', JStr name), (''message'', JStr message)] e
                   | Inr (out, secs) \<Rightarrow> verify_and_commit H num (\<lambda>n. clk (2 + n)) nt row spec out secs e)))"

definition run_once :: "(string \<Rightarrow> string) \<Rightarrow> (rat \<Rightarrow> json) \<Rightarrow> (nat \<Rightarrow> int) \<Rightarrow> run_note \<Rightarrow> bool \<Rightarrow> rat \<Rightarrow> engine \<Rightarrow>
    (string option, engine) outcome" where
  "run_once H num clk nt alarm elapsed e =
     (case claim clk 60 (jobs (store e)) of
        (Inl err, js) \<Rightarrow> (Inl err, with_jobs js e)
      | (Inr None, js) \<Rightarrow> (Inr None, with_jobs js e)
      | (Inr (Some row), js) \<Rightarrow>
          (case process H num (\<lambda>n. clk (3 + n)) nt alarm elapsed row (with_jobs js e) of
             (Inl err, e') \<Rightarrow> (Inl err, e')
           | (Inr jid, e') \<Rightarrow> (Inr (Some jid), e')))"

section \<open>The echo capability\<close>

definition echo_verifier :: "json \<Rightarrow> json \<Rightarrow> bool" where
  "echo_verifier payload out = py_eq out (JObj [(''echo'', payload)])"

end
