(* ===== verification/Json_Facts.thy ===== *)
theory Json_Facts
  imports Py_Json
begin

text \<open>
  More facts on JSON values and on tables: what reading back a stored text gives, and what updating
  every selected row in turn does.
\<close>

section \<open>Stored values\<close>

lemma sort_key_twice: "sort_key fst (sort_key fst xs) = sort_key fst xs"
  by (rule sort_key_id_if_sorted) simp

text \<open>A value read back from its text equals the value in Python.\<close>

lemma eq_form_sort_keys [simp]: "eq_form (sort_keys j) = eq_form j"
proof (induction j)
  case (JObj d)
  have g: "map_prod id eq_form (map_prod id sort_keys kv) = map_prod id eq_form kv" if "kv \<in> set d" for kv
    using JObj [OF that, of "snd kv"] by (cases kv) (simp add: snds.simps)
  have "map (map_prod id eq_form) (sort_key fst (map (map_prod id sort_keys) d))
      = sort_key fst (map (map_prod id eq_form) (map (map_prod id sort_keys) d))"
    by (simp only: sort_key_fst_map)
  also have "\<dots> = sort_key fst (map (map_prod id eq_form) d)" using g by (simp cong: map_cong)
  finally show ?case by (simp only: sort_keys.simps eq_form.simps sort_key_twice)
qed simp_all

lemma py_eq_sort_keys [simp]: "py_eq (sort_keys j) j"
  by (simp add: py_eq_def)

lemma map_of_map_prod: "map_of (map (map_prod id g) d) k = map_option g (map_of d k)"
  by (induction d) auto

lemma sorted_get:
  assumes "distinct (map fst d)"
  shows "get (sort_key fst (map (map_prod id sort_keys) d)) k = map_option sort_keys (get d k)"
proof -
  have "distinct (map fst (map (map_prod id sort_keys) d))" using assms by simp
  from map_of_sort_key [OF this] show ?thesis by (simp add: get_def map_of_map_prod)
qed

definition without :: "string \<Rightarrow> json_object \<Rightarrow> json_object" where
  "without s d = filter (\<lambda>(k, v). k \<noteq> s) d"

lemma without_sorted:
  "without s (sort_key fst (map (map_prod id sort_keys) d)) = sort_key fst (map (map_prod id sort_keys) (without s d))"
proof -
  have "filter (\<lambda>(k, v). k \<noteq> s) (map (map_prod id sort_keys) d) = map (map_prod id sort_keys) (filter (\<lambda>(k, v). k \<noteq> s) d)"
    by (induction d) auto
  then show ?thesis by (simp add: without_def filter_sort)
qed

lemma put_new: "get d k = None \<Longrightarrow> put k v d = d @ [(k, v)]"
  by (induction k v d rule: put.induct) (auto simp: get_def split: if_splits)

lemma without_new: "get d k = None \<Longrightarrow> without k d = d"
  by (induction d) (auto simp: get_def without_def split: if_splits)

lemma without_put_new: "get d k = None \<Longrightarrow> without k (put k v d) = d"
proof -
  assume g: "get d k = None"
  have "without k (d @ [(k, v)]) = without k d" by (simp add: without_def)
  with g show ?thesis by (simp add: put_new without_new)
qed

section \<open>Updating row by row\<close>

lemma foldl_update_rows:
  assumes "distinct (map key ts)" "\<And>r j. key (f r j) = key j"
  shows "foldl (\<lambda>js r. update_where (\<lambda>j. key j = key r) (f r) js) js ts
    = map (\<lambda>j. case find (\<lambda>r. key r = key j) ts of None \<Rightarrow> j | Some r \<Rightarrow> f r j) js"
  using assms(1)
proof (induction ts arbitrary: js)
  case (Cons r ts)
  have none: "find (\<lambda>x. key x = key j) ts = None" if "key j = key r" for j
    using Cons.prems that by (auto simp: find_None_iff) (metis imageI)
  have "(case find (\<lambda>x. key x = key (if key j = key r then f r j else j)) ts of
          None \<Rightarrow> if key j = key r then f r j else j | Some x \<Rightarrow> f x (if key j = key r then f r j else j))
      = (case find (\<lambda>x. key x = key j) (r # ts) of None \<Rightarrow> j | Some x \<Rightarrow> f x j)" for j
    using none [of j] assms(2) by (cases "key j = key r") auto
  then show ?case using Cons by (simp add: update_where_def comp_def)
qed simp

text \<open>Selecting rows first and then updating each by its key is one update of the selected rows.\<close>

lemma foldl_update_selected:
  assumes "distinct (map key js)" "\<And>r j. key (f r j) = key j"
  shows "foldl (\<lambda>ks r. update_where (\<lambda>j. key j = key r) (f r) ks) js (filter P js) = update_where P (\<lambda>j. f j j) js"
proof -
  have d: "distinct (map key (filter P js))" using assms(1) by (simp add: distinct_map_filter)
  have "find (\<lambda>r. key r = key j) (filter P js) = (if P j then Some j else None)" if j: "j \<in> set js" for j
  proof (cases "P j")
    case True
    then have "j \<in> set (filter P js)" using j by simp
    from select_one_unique [OF d this] True show ?thesis by (simp add: select_one_def)
  next
    case False
    have "\<not> (\<exists>r. r \<in> set (filter P js) \<and> key r = key j)"
      using unique_row [OF assms(1) _ j] False by auto
    then show ?thesis using False by (auto simp: find_None_iff)
  qed
  then have "map (\<lambda>j. case find (\<lambda>r. key r = key j) (filter P js) of None \<Rightarrow> j | Some r \<Rightarrow> f r j) js
      = map (\<lambda>j. if P j then f j j else j) js" by (intro map_cong) auto
  moreover have "foldl (\<lambda>ks r. update_where (\<lambda>j. key j = key r) (f r) ks) js (filter P js)
      = map (\<lambda>j. case find (\<lambda>r. key r = key j) (filter P js) of None \<Rightarrow> j | Some r \<Rightarrow> f r j) js"
    by (rule foldl_update_rows [OF d, where f = f]) (rule assms(2))
  ultimately show ?thesis by (simp add: update_where_def)
qed

end
