(* ===== verification/Pipeline_Runs.thy ===== *)
theory Pipeline_Runs
  imports Pipeline Json_Facts
begin

text \<open>
  What one run of a claimed job does: it writes new evidence files that verify, extends the audit file
  and the history, and settles the row once, in the state that \<open>verdict\<close> names.
\<close>

section \<open>Evidence files\<close>

lemma dumps_sort_keys [simp]: "dumps st (sort_keys j) = dumps st j"
  by (simp add: dumps_def)

lemma canonical_sort_keys [simp]: "canonical_sha256 H (sort_keys j) = canonical_sha256 H j"
  by (simp add: canonical_sha256_def)

text \<open>A payload the engine writes has different keys and no digest yet.\<close>

definition payload_ok :: "json_object \<Rightarrow> bool" where
  "payload_ok p \<longleftrightarrow> distinct (map fst p) \<and> get p ''sha256'' = None"

lemma verify_written:
  assumes "payload_ok p" "map_of fs f = None"
  shows "verify_evidence H f (fs @ [(f, sort_keys (JObj (evidence_body H now jid n p)))])"
proof -
  define body where "body = put ''recorded_at'' (JStr (isoformat now)) (put ''attempt'' (JInt n) (put ''job_id'' (JStr jid) p))"
  let ?full = "put ''sha256'' (JStr (canonical_sha256 H (JObj body))) body"
  let ?d = "sort_key fst (map (map_prod id sort_keys) ?full)"
  have b: "evidence_body H now jid n p = ?full" by (simp add: evidence_body_def body_def Let_def)
  have n: "get body ''sha256'' = None" and d: "distinct (map fst ?full)"
    using assms(1) by (auto simp: payload_ok_def body_def intro!: distinct_keys_put)
  have "get ?d ''sha256'' = Some (JStr (canonical_sha256 H (JObj body)))" using sorted_get [OF d] by simp
  moreover have "JObj (filter (\<lambda>(k, v). k \<noteq> ''sha256'') ?d) = sort_keys (JObj body)"
    using without_sorted [of "''sha256''" ?full] without_put_new [OF n] by (simp add: without_def)
  moreover have "canonical_sha256 H (sort_keys (JObj body)) = canonical_sha256 H (JObj body)" by (rule canonical_sort_keys)
  moreover have "map_of (fs @ [(f, x)]) f = Some x" for x using assms(2) by (simp add: map_add_def)
  ultimately show ?thesis by (simp add: verify_evidence_def b del: map_of_append)
qed

lemma verify_evidence_append: "map_of fs f \<noteq> None \<Longrightarrow> verify_evidence H f (fs @ gs) = verify_evidence H f fs"
  by (auto simp: verify_evidence_def)

lemma written_get:
  assumes "payload_ok p"
  shows "\<exists>d. sort_keys (JObj (evidence_body H now jid n p)) = JObj d
    \<and> (\<forall>k. get d k = map_option sort_keys (get (evidence_body H now jid n p) k))"
proof -
  have d: "distinct (map fst (evidence_body H now jid n p))"
    using assms by (auto simp: payload_ok_def evidence_body_def Let_def intro!: distinct_keys_put)
  show ?thesis using sorted_get [OF d] by simp
qed

section \<open>What a run may change\<close>

lemma log_audit_fields [simp]:
  "store (log_audit H now ev p e) = store e" "evidence (log_audit H now ev p e) = evidence e"
  "evidence_dir (log_audit H now ev p e) = evidence_dir e" "capabilities (log_audit H now ev p e) = capabilities e"
  "audit (log_audit H now ev p e) = audit_append H now ev (JObj p) (audit e)"
  by (simp_all add: log_audit_def)

lemma with_jobs_fields [simp]:
  "jobs (store (with_jobs js e)) = js" "evidence (with_jobs js e) = evidence e" "audit (with_jobs js e) = audit e"
  "evidence_dir (with_jobs js e) = evidence_dir e" "capabilities (with_jobs js e) = capabilities e"
  "canonical_state (store (with_jobs js e)) = canonical_state (store e)"
  "run_history (store (with_jobs js e)) = run_history (store e)"
  by (simp_all add: with_jobs_def)

definition moved :: "(string \<Rightarrow> string) \<Rightarrow> rt_job \<Rightarrow> engine \<Rightarrow> engine \<Rightarrow> bool" where
  "moved H row e e' \<longleftrightarrow> capabilities e' = capabilities e \<and> evidence_dir e' = evidence_dir e
     \<and> (audit_verify H (audit e) \<longrightarrow> audit_verify H (audit e')) \<and> prefix (audit e) (audit e')
     \<and> prefix (run_history (store e)) (run_history (store e'))
     \<and> prefix (evidence e) (evidence e')
     \<and> (distinct (map fst (evidence e)) \<longrightarrow> distinct (map fst (evidence e')))
     \<and> (\<forall>f. map_of (evidence e) f = None \<longrightarrow> map_of (evidence e') f \<noteq> None \<longrightarrow>
          verify_evidence H f (evidence e') \<and> (\<exists>k. f = (job_id row, attempts row, k)))"

lemma moved_refl [simp]: "moved H row e e"
  by (simp add: moved_def)

lemma moved_trans:
  assumes "moved H row a b" "moved H row b c" shows "moved H row a c"
proof -
  have new: "verify_evidence H f (evidence c) \<and> (\<exists>k. f = (job_id row, attempts row, k))"
    if f: "map_of (evidence a) f = None" "map_of (evidence c) f \<noteq> None" for f
  proof (cases "map_of (evidence b) f = None")
    case True
    with f(2) assms(2) show ?thesis unfolding moved_def by blast
  next
    case False
    with f(1) assms(1) have "verify_evidence H f (evidence b) \<and> (\<exists>k. f = (job_id row, attempts row, k))"
      unfolding moved_def by blast
    moreover obtain gs where "evidence c = evidence b @ gs" using assms(2) by (auto simp: moved_def prefix_def)
    ultimately show ?thesis using verify_evidence_append [OF False, of H gs] by simp
  qed
  have p: "prefix (audit a) (audit c)" "prefix (run_history (store a)) (run_history (store c))"
    "prefix (evidence a) (evidence c)"
    using assms prefix_order.trans unfolding moved_def by blast+
  have "capabilities c = capabilities a \<and> evidence_dir c = evidence_dir a
    \<and> (audit_verify H (audit a) \<longrightarrow> audit_verify H (audit c))
    \<and> (distinct (map fst (evidence a)) \<longrightarrow> distinct (map fst (evidence c)))"
    using assms unfolding moved_def by simp
  then show ?thesis unfolding moved_def using new p by simp
qed

lemma moved_log [simp]: "moved H row e (log_audit H now ev p e)"
  by (simp add: moved_def)

lemma moved_jobs [simp]: "moved H row e (with_jobs js e)"
  by (simp add: moved_def)

lemma moved_state [simp]: "moved H row e (e\<lparr>store := (store e)\<lparr>canonical_state := rows\<rparr>\<rparr>)"
  by (simp add: moved_def)

lemma moved_run [simp]: "moved H row e (e\<lparr>store := (store e)\<lparr>run_history := run_history (store e) @ rs\<rparr>\<rparr>)"
  by (simp add: moved_def)

abbreviation written :: "(string \<Rightarrow> string) \<Rightarrow> int \<Rightarrow> rt_job \<Rightarrow> string \<Rightarrow> json_object \<Rightarrow> engine \<Rightarrow> engine" where
  "written H now row k p e \<equiv> e\<lparr>evidence := evidence e @
     [((job_id row, attempts row, k), sort_keys (JObj (evidence_body H now (job_id row) (attempts row) p)))]\<rparr>"

lemma moved_written:
  assumes "payload_ok p" "map_of (evidence e) (job_id row, attempts row, k) = None"
  shows "moved H row e (written H now row k p e)"
proof -
  have "(job_id row, attempts row, k) \<notin> fst ` set (evidence e)" using assms(2) by (simp add: map_of_eq_None_iff)
  then show ?thesis
    using verify_written [OF assms, of H now "job_id row" "attempts row"] by (auto simp: moved_def split: if_splits)
qed

lemma with_evidence_new:
  "map_of (evidence e) (job_id row, attempts row, k) = None \<Longrightarrow>
     with_evidence H now row k p cont e = cont (job_id row, attempts row, k) (written H now row k p e)"
  by (simp add: with_evidence_def write_evidence_def Let_def)

section \<open>Closing a job\<close>

definition clash :: "run_note \<Rightarrow> engine \<Rightarrow> bool" where
  "clash nt e \<longleftrightarrow> note_uuid nt \<in> run_id ` set (run_history (store e))"

text \<open>The run settled the row in state \<open>st\<close>, with the evidence file named \<open>k\<close> and the result \<open>res\<close>.\<close>

definition settles :: "(string \<Rightarrow> string) \<Rightarrow> run_note \<Rightarrow> rt_job \<Rightarrow> string \<Rightarrow> string \<Rightarrow> json_object \<Rightarrow> engine \<Rightarrow>
    (string, engine) outcome \<Rightarrow> bool" where
  "settles H nt row st k res e out \<longleftrightarrow> moved H row e (snd out)
     \<and> fst out = (if clash nt e then Inl IntegrityError else Inr (job_id row))
     \<and> (\<exists>t. jobs (store (snd out)) = finish t (job_id row) st (JObj res)
          (Some (path_text (evidence_dir e) (job_id row, attempts row, k))) (jobs (store e)))
     \<and> map_of (evidence (snd out)) (job_id row, attempts row, k) \<noteq> None
     \<and> (st \<noteq> ''verified'' \<longrightarrow> canonical_state (store (snd out)) = canonical_state (store e))"

lemma settles_after:
  assumes "settles H nt row st k res e' out" "moved H row e e'" "jobs (store e') = jobs (store e)"
    "st \<noteq> ''verified'' \<longrightarrow> canonical_state (store e') = canonical_state (store e)"
    "run_history (store e') = run_history (store e)"
  shows "settles H nt row st k res e out"
proof -
  have "evidence_dir e' = evidence_dir e" using assms(2) by (simp add: moved_def)
  then show ?thesis using assms moved_trans [OF assms(2)] by (simp add: settles_def clash_def)
qed

lemma record_run_cases:
  "record_run now u v ev rec ind dv rows = (if u \<in> run_id ` set rows then (Inl IntegrityError, rows)
     else (Inr (), rows @ [\<lparr>run_id = u, run_verified = v, evidence_complete = ev, state_diverged = dv,
       recovery_test = rec, run_independent = ind, run_at = isoformat now\<rparr>]))"
  by (auto simp: record_run_def)

lemma close_job_settles:
  assumes "map_of (evidence e) (job_id row, attempts row, k) \<noteq> None"
  shows "settles H nt row st k res e
    (close_job H clk nt (job_id row) st res (job_id row, attempts row, k) v c i d e)"
proof -
  let ?e1 = "with_jobs (finish (clk 0) (job_id row) st (JObj res)
    (Some (path_text (evidence_dir e) (job_id row, attempts row, k))) (jobs (store e))) e"
  let ?e2 = "log_audit H (clk 1) (''job_'' @ st) ((''job_id'', JStr (job_id row)) # res) ?e1"
  have "moved H row e ?e2" using moved_trans [OF moved_jobs moved_log] .
  moreover have "moved H row ?e2 (?e2\<lparr>store := (store ?e2)\<lparr>run_history := run_history (store ?e2) @ rs\<rparr>\<rparr>)" for rs
    by (rule moved_run)
  ultimately have m: "moved H row e (?e2\<lparr>store := (store ?e2)\<lparr>run_history := run_history (store ?e2) @ rs\<rparr>\<rparr>)" for rs
    by (rule moved_trans)
  show ?thesis
    using \<open>moved H row e ?e2\<close> m assms
    by (auto simp: settles_def close_job_def Let_def record_run_cases clash_def)
qed

lemma evidence_then_close:
  assumes "map_of (evidence e) (job_id row, attempts row, k) = None" "payload_ok p"
  shows "settles H nt row st k res e (with_evidence H now row k p
    (\<lambda>f e'. close_job H clk nt (job_id row) st res f (v f e') (c f e') i d e') e)"
proof -
  let ?e' = "written H now row k p e"
  have "map_of (evidence ?e') (job_id row, attempts row, k) \<noteq> None" using assms(1) by (simp add: map_add_def)
  from settles_after [OF close_job_settles [OF this] moved_written [OF assms(2,1)]]
  show ?thesis unfolding with_evidence_new [OF assms(1)] by simp
qed

definition retry_state :: "rt_job list \<Rightarrow> string \<Rightarrow> string" where
  "retry_state js jid = (case select_one (\<lambda>j. job_id j = jid) js of
     None \<Rightarrow> ''failed'' | Some r \<Rightarrow> if attempts r < max_attempts r then ''queued'' else ''failed'')"

lemma retry_known:
  "select_one (\<lambda>j. job_id j = jid) js \<noteq> None \<Longrightarrow>
     retry now jid res path js = (Inr (retry_state js jid), finish now jid (retry_state js jid) res (Some path) js)"
  by (auto simp: retry_def retry_state_def Let_def)

lemma retry_state_not_verified [simp]: "retry_state js jid \<noteq> ''verified''" "''verified'' \<noteq> retry_state js jid"
  by (auto simp: retry_state_def split: option.split)

lemma record_failure_settles:
  assumes new: "map_of (evidence e) (job_id row, attempts row, ''execution-failure'') = None"
    and known: "select_one (\<lambda>j. job_id j = job_id row) (jobs (store e)) \<noteq> None"
  shows "settles H nt row (retry_state (jobs (store e)) (job_id row)) ''execution-failure'' res e
    (record_failure H clk nt row spec res e)"
proof -
  define p where "p = [(''intent'', intent_json (job_intent row)), (''capability'', JStr (spec_name spec)),
        (''execution_error'', JObj res)]"
  have ok: "payload_ok p" by (simp add: payload_ok_def p_def get_def)
  let ?e' = "written H (clk 0) row ''execution-failure'' p e"
  let ?f = "(job_id row, attempts row, ''execution-failure'')"
  let ?st = "retry_state (jobs (store e)) (job_id row)"
  have there: "map_of (evidence ?e') ?f \<noteq> None" using new by (simp add: map_add_def)
  have m: "moved H row e ?e'" by (rule moved_written [OF ok new])
  have "record_failure H clk nt row spec res e
      = close_job H (\<lambda>n. clk (1 + n)) nt (job_id row) ?st res ?f False
          (verify_evidence H ?f (evidence ?e')) (verifier_independent spec) False ?e'"
    using known unfolding record_failure_def p_def [symmetric] with_evidence_new [OF new]
    by (simp add: retry_known close_job_def Let_def numeral_2_eq_2 numeral_3_eq_3 split: prod.split sum.split)
  moreover have "settles H nt row ?st ''execution-failure'' res e
     (close_job H (\<lambda>n. clk (1 + n)) nt (job_id row) ?st res ?f False
          (verify_evidence H ?f (evidence ?e')) (verifier_independent spec) False ?e')"
    using settles_after [OF close_job_settles [OF there] m] by simp
  ultimately show ?thesis by simp
qed

section \<open>The verdict\<close>

definition current_state :: "engine \<Rightarrow> capability_spec \<Rightarrow> json" where
  "current_state e spec = (case get_state (spec_name spec) (canonical_state (store e)) of
     None \<Rightarrow> JObj [] | Some c \<Rightarrow> if truthy c then c else JObj [])"

text \<open>The state a run gives a claimed row, when the grant is checked at \<open>now\<close>.\<close>

definition verdict :: "engine \<Rightarrow> int \<Rightarrow> bool \<Rightarrow> rat \<Rightarrow> rt_job \<Rightarrow> string" where
  "verdict e now alarm elapsed row =
     (case capabilities e (capability row) of
        None \<Rightarrow> ''rejected''
      | Some spec \<Rightarrow>
          if permits (job_grant row) (capability row) now \<noteq> Inr True then ''rejected''
          else (case execute spec alarm elapsed (intent_payload (job_intent row)) of
             Inl _ \<Rightarrow> retry_state (jobs (store e)) (job_id row)
           | Inr (out, secs) \<Rightarrow>
               if verifier spec (intent_payload (job_intent row)) out \<noteq> Inr True then ''failed_verification''
               else (case reducer spec of
                 None \<Rightarrow> ''verified''
               | Some red \<Rightarrow> (case red (current_state e spec) out of
                   Inl _ \<Rightarrow> ''state_update_failed'' | Inr _ \<Rightarrow> ''verified''))))"

text \<open>The evidence behind a verified row.\<close>

definition backing :: "rt_job \<Rightarrow> json_object \<Rightarrow> engine \<Rightarrow> bool" where
  "backing row res e \<longleftrightarrow> (\<exists>d vd.
     map_of (evidence e) (job_id row, attempts row, ''verified-output'') = Some (JObj d)
     \<and> get d ''job_id'' = Some (JStr (job_id row))
     \<and> get d ''grant'' = Some (sort_keys (grant_json (job_grant row)))
     \<and> get d ''intent'' = Some (sort_keys (intent_json (job_intent row)))
     \<and> get d ''verifier'' = Some (JObj vd) \<and> get vd ''passed'' = Some (JBool True)
     \<and> get d ''output'' \<noteq> None \<and> map_option sort_keys (get res ''output'') = get d ''output''
     \<and> get d ''sha256'' \<noteq> None \<and> get res ''evidence_sha256'' = get d ''sha256'')"

definition output_payload :: "(rat \<Rightarrow> json) \<Rightarrow> rt_job \<Rightarrow> capability_spec \<Rightarrow> json \<Rightarrow> rat \<Rightarrow> bool \<Rightarrow> json \<Rightarrow> json_object" where
  "output_payload num row spec out elapsed verified err =
     [(''intent'', intent_json (job_intent row)), (''grant'', grant_json (job_grant row)),
      (''capability'', JStr (spec_name spec)), (''output'', out), (''execution_seconds'', num elapsed),
      (''verifier'', verifier_report spec verified err)]"

lemma output_payload_ok: "payload_ok (output_payload num row spec out elapsed verified err)"
  by (simp add: payload_ok_def output_payload_def get_def)

lemma sort_keys_report:
  "\<exists>vd. sort_keys (verifier_report spec b JNull) = JObj vd \<and> get vd ''passed'' = Some (JBool b)"
proof -
  define r where "r = [(''independent'', JBool (verifier_independent spec)), (''name'', JStr (verifier_name spec)),
      (''passed'', JBool b), (''error'', JNull)]"
  have "distinct (map fst r)" by (simp add: r_def)
  from sorted_get [OF this, of "''passed''"] show ?thesis
    unfolding verifier_report_def r_def [symmetric] by (simp add: r_def get_def)
qed

lemma finish_verified_settles:
  fixes num row spec out secs err H now e0
  defines "f \<equiv> (job_id row, attempts row, ''verified-output'')"
    and "e \<equiv> written H now row ''verified-output'' (output_payload num row spec out secs True JNull) e0"
  assumes new: "map_of (evidence e0) (job_id row, attempts row, ''verified-output'') = None"
    and e': "evidence e' = evidence e" "evidence_dir e' = evidence_dir e0"
  shows "\<exists>res. settles H nt row ''verified'' ''verified-output'' res e' (finish_verified H clk nt row spec f out v e')
    \<and> backing row res (snd (finish_verified H clk nt row spec f out v e'))"
proof -
  let ?p = "output_payload num row spec out secs True JNull"
  let ?b = "evidence_body H now (job_id row) (attempts row) ?p"
  from written_get [OF output_payload_ok] obtain d where d: "sort_keys (JObj ?b) = JObj d"
    and g: "get d k = map_option sort_keys (get ?b k)" for k by meson
  have there: "map_of (evidence e') f = Some (JObj d)"
    using new d by (simp add: e' e_def f_def map_add_def)
  obtain sha where sha: "get d ''sha256'' = Some (JStr sha)" by (simp add: g evidence_body_def Let_def)
  define res where "res = [(''ok'', JBool True), (''verified'', JBool True), (''evidence_sha256'', JStr sha),
    (''state_version'', case v of None \<Rightarrow> JNull | Some n \<Rightarrow> JInt n), (''output'', out)]"
  have r: "finish_verified H clk nt row spec f out v e'
      = close_job H clk nt (job_id row) ''verified'' res f True True (verifier_independent spec) False e'"
    by (simp add: finish_verified_def there sha res_def)
  have "map_of (evidence e') (job_id row, attempts row, ''verified-output'') \<noteq> None"
    using there by (simp add: f_def)
  then have s: "settles H nt row ''verified'' ''verified-output'' res e' (finish_verified H clk nt row spec f out v e')"
    unfolding r unfolding f_def by (rule close_job_settles)
  obtain vd where vd: "sort_keys (verifier_report spec True JNull) = JObj vd" "get vd ''passed'' = Some (JBool True)"
    using sort_keys_report by blast
  have ev: "evidence (snd (finish_verified H clk nt row spec f out v e')) = evidence e'"
    unfolding r by (auto simp: close_job_def Let_def record_run_cases)
  have p: "get ?p ''output'' = Some out" "get ?p ''grant'' = Some (grant_json (job_grant row))"
    "get ?p ''intent'' = Some (intent_json (job_intent row))" "get ?p ''verifier'' = Some (verifier_report spec True JNull)"
    by (simp_all add: output_payload_def get_def)
  have "get d ''job_id'' = Some (JStr (job_id row))" "get d ''output'' = Some (sort_keys out)"
    "get d ''grant'' = Some (sort_keys (grant_json (job_grant row)))"
    "get d ''intent'' = Some (sort_keys (intent_json (job_intent row)))" "get d ''verifier'' = Some (JObj vd)"
    by (simp_all add: g evidence_body_def Let_def p vd(1))
  moreover have "get res ''output'' = Some out" "get res ''evidence_sha256'' = Some (JStr sha)"
    by (simp_all add: res_def get_def)
  ultimately have "backing row res (snd (finish_verified H clk nt row spec f out v e'))"
    unfolding backing_def ev using there [unfolded f_def] vd(2) sha by simp
  with s show ?thesis by blast
qed

section \<open>Processing a claimed row\<close>

lemma py_eq_stored: "get_state key (snd (set_state now key value rows)) = Some (sort_keys value)"
proof -
  have "select_one (\<lambda>r. state_key r = key) (upsert_by state_key (\<lambda>r. new) new rows) = Some new"
    if "state_key new = key" for new
  proof (cases "\<exists>r\<in>set rows. state_key r = key")
    case True
    then have "select_one (\<lambda>r. state_key r = key) rows \<noteq> None" by (auto simp: select_one_None)
    then show ?thesis using True that
      by (auto simp: upsert_by_def select_one_update_where)
  next
    case False
    then have "select_one (\<lambda>r. state_key r = key) rows = None" by (auto simp: select_one_None)
    then show ?thesis using False that by (simp add: upsert_by_def select_one_append select_one_Cons)
  qed
  then show ?thesis by (simp add: set_state_def get_state_def Let_def)
qed

text \<open>A JSON value that was stored reads back equal, so the divergence branch is never taken.\<close>

lemma commit_state_cases:
  "commit_state H clk nt row spec f out e =
     (case reducer spec of
        None \<Rightarrow> finish_verified H (\<lambda>n. clk (10 + n)) nt row spec f out None e
      | Some red \<Rightarrow>
          (case red (current_state e spec) out of
             Inl (name, message) \<Rightarrow> update_failed H (\<lambda>n. clk (5 + n)) nt row spec f message e
           | Inr updated \<Rightarrow>
               (case set_state (clk 0) (spec_name spec) updated (canonical_state (store e)) of
                  (v, rows) \<Rightarrow> finish_verified H (\<lambda>n. clk (10 + n)) nt row spec f out (Some v)
                     (e\<lparr>store := (store e)\<lparr>canonical_state := rows\<rparr>\<rparr>))))"
proof -
  have "py_eq (case get_state (spec_name spec) rows of None \<Rightarrow> JNull | Some c \<Rightarrow> c) updated"
    if "set_state (clk 0) (spec_name spec) updated (canonical_state (store e)) = (v, rows)" for v rows updated
    using py_eq_stored [of "spec_name spec" "clk 0" updated "canonical_state (store e)"] that by simp
  then show ?thesis
    by (simp add: commit_state_def current_state_def Let_def split: option.split sum.split prod.split)
qed

definition fresh_for :: "rt_job \<Rightarrow> engine \<Rightarrow> bool" where
  "fresh_for row e \<longleftrightarrow> (\<forall>k. map_of (evidence e) (job_id row, attempts row, k) = None)
     \<and> select_one (\<lambda>j. job_id j = job_id row) (jobs (store e)) \<noteq> None"

lemma commit_settles:
  fixes num row spec out secs H now e0
  defines "e \<equiv> written H now row ''verified-output'' (output_payload num row spec out secs True JNull) e0"
    and "f \<equiv> (job_id row, attempts row, ''verified-output'')"
  assumes new: "fresh_for row e0"
    and st: "st = (case reducer spec of None \<Rightarrow> ''verified'' | Some red \<Rightarrow> (case red (current_state e0 spec) out of
                   Inl _ \<Rightarrow> ''state_update_failed'' | Inr _ \<Rightarrow> ''verified''))"
  shows "\<exists>k res. settles H nt row st k res e0 (commit_state H clk nt row spec f out e)
    \<and> (st = ''verified'' \<longrightarrow> k = ''verified-output'' \<and> backing row res (snd (commit_state H clk nt row spec f out e)))"
proof -
  have n: "map_of (evidence e0) (job_id row, attempts row, k) = None" for k using new by (simp add: fresh_for_def)
  have m: "moved H row e0 e" unfolding e_def by (rule moved_written [OF output_payload_ok n])
  have cur: "current_state e spec = current_state e0 spec" by (simp add: current_state_def e_def)
  have done_: "\<exists>res. settles H nt row ''verified'' ''verified-output'' res e0 (finish_verified H c nt row spec f out v e')
      \<and> backing row res (snd (finish_verified H c nt row spec f out v e'))"
    if e': "e' = e \<or> (\<exists>rows. e' = e\<lparr>store := (store e)\<lparr>canonical_state := rows\<rparr>\<rparr>)" for e' c v
  proof -
    have *: "evidence e' = evidence (written H now row ''verified-output'' (output_payload num row spec out secs True JNull) e0)"
      "evidence_dir e' = evidence_dir e0" using e' by (auto simp: e_def)
    have "moved H row e e'" using e' by auto
    from moved_trans [OF m this] have m': "moved H row e0 e'" .
    have same: "jobs (store e') = jobs (store e0)" "run_history (store e') = run_history (store e0)"
      using e' by (auto simp: e_def)
    from finish_verified_settles [OF n *, of nt c v] obtain res where
      "settles H nt row ''verified'' ''verified-output'' res e' (finish_verified H c nt row spec f out v e')"
      "backing row res (snd (finish_verified H c nt row spec f out v e'))" unfolding f_def by blast
    with settles_after [OF this(1) m' same(1) _ same(2)] show ?thesis by blast
  qed
  show ?thesis
  proof (cases "reducer spec")
    case None
    then show ?thesis using done_ [of e] st by (auto simp: commit_state_cases)
  next
    case (Some red)
    show ?thesis
    proof (cases "red (current_state e0 spec) out")
      case (Inl a)
      obtain name message where a: "a = (name, message)" by (cases a)
      let ?res = "[(''ok'', JBool False), (''verified'', JBool True), (''error'', JStr ''state_update_failed''),
                 (''message'', JStr message)]"
      have "map_of (evidence e) (job_id row, attempts row, ''state-update-failure'') = None" using n by (simp add: e_def)
      then have "settles H nt row ''state_update_failed'' ''state-update-failure'' ?res e
         (update_failed H (\<lambda>n. clk (5 + n)) nt row spec f message e)"
        unfolding update_failed_def Let_def by (rule evidence_then_close) (simp add: payload_ok_def get_def)
      from settles_after [OF this m] have "settles H nt row ''state_update_failed'' ''state-update-failure'' ?res e0
         (update_failed H (\<lambda>n. clk (5 + n)) nt row spec f message e)" by (simp add: e_def)
      then show ?thesis using st Some Inl a by (auto simp: commit_state_cases cur)
    next
      case (Inr updated)
      obtain v rows where sv: "set_state (clk 0) (spec_name spec) updated (canonical_state (store e)) = (v, rows)"
        by (cases "set_state (clk 0) (spec_name spec) updated (canonical_state (store e))")
      from done_ [of "e\<lparr>store := (store e)\<lparr>canonical_state := rows\<rparr>\<rparr>" "\<lambda>n. clk (10 + n)" "Some v"]
      show ?thesis using st Some Inr by (auto simp: commit_state_cases cur sv)
    qed
  qed
qed

definition end_state :: "string \<Rightarrow> bool" where
  "end_state st \<longleftrightarrow> st \<in> {''rejected'', ''failed'', ''failed_verification'', ''state_update_failed'', ''verified''}"

lemma verify_and_commit_settles:
  assumes new: "fresh_for row e0"
    and st: "st = (if verifier spec (intent_payload (job_intent row)) out \<noteq> Inr True then ''failed_verification''
        else (case reducer spec of None \<Rightarrow> ''verified'' | Some red \<Rightarrow> (case red (current_state e0 spec) out of
                   Inl _ \<Rightarrow> ''state_update_failed'' | Inr _ \<Rightarrow> ''verified'')))"
  shows "\<exists>k res. settles H nt row st k res e0 (verify_and_commit H num clk nt row spec out secs e0)
    \<and> (st = ''verified'' \<longrightarrow> k = ''verified-output''
         \<and> backing row res (snd (verify_and_commit H num clk nt row spec out secs e0)))"
proof (cases "verifier spec (intent_payload (job_intent row)) out = Inr True")
  case True
  have n: "map_of (evidence e0) (job_id row, attempts row, ''verified-output'') = None"
    using new by (simp add: fresh_for_def)
  let ?e = "written H (clk 0) row ''verified-output'' (output_payload num row spec out secs True JNull) e0"
  let ?f = "(job_id row, attempts row, ''verified-output'')"
  have "verify_evidence H ?f (evidence ?e)" using verify_written [OF output_payload_ok n] by simp
  then have "verify_and_commit H num clk nt row spec out secs e0
      = commit_state H (\<lambda>n. clk (1 + n)) nt row spec ?f out ?e"
    using n by (simp add: verify_and_commit_def True output_payload_def [symmetric] with_evidence_new Let_def)
  then show ?thesis using commit_settles [OF new, of st spec out] st True by simp
next
  case False
  obtain err where r: "(case verifier spec (intent_payload (job_intent row)) out of
              Inl (name, message) \<Rightarrow> (False, JObj [(''error'', JStr name), (''message'', JStr message)])
            | Inr ok \<Rightarrow> (ok, JNull)) = (False, err)"
    using False by (cases "verifier spec (intent_payload (job_intent row)) out") auto
  have n: "map_of (evidence e0) (job_id row, attempts row, ''verification-failure'') = None"
    using new by (simp add: fresh_for_def)
  let ?res = "\<lambda>c. [(''ok'', JBool False), (''verified'', JBool False),
                          (''evidence_complete'', JBool c), (''verifier_error'', err)]"
  let ?f = "(job_id row, attempts row, ''verification-failure'')"
  let ?p = "output_payload num row spec out secs False err"
  have v: "verify_evidence H ?f (evidence (written H (clk 0) row ''verification-failure'' ?p e0))"
    using verify_written [OF output_payload_ok n] by simp
  have "verify_and_commit H num clk nt row spec out secs e0
      = with_evidence H (clk 0) row ''verification-failure'' ?p
          (\<lambda>f e. close_job H (\<lambda>n. clk (1 + n)) nt (job_id row) ''failed_verification'' (?res True)
             f False True (verifier_independent spec) False e) e0"
    using n v by (simp add: verify_and_commit_def r output_payload_def [symmetric] with_evidence_new Let_def)
  moreover have "settles H nt row ''failed_verification'' ''verification-failure'' (?res True) e0
      (with_evidence H (clk 0) row ''verification-failure'' ?p
          (\<lambda>f e. close_job H (\<lambda>n. clk (1 + n)) nt (job_id row) ''failed_verification'' (?res True)
             f False True (verifier_independent spec) False e) e0)"
    by (rule evidence_then_close [OF n output_payload_ok])
  ultimately show ?thesis using st False by auto
qed

theorem process_settles:
  assumes new: "fresh_for row e" and live: "\<And>err. permits (job_grant row) (capability row) (clk 1) \<noteq> Inl err"
  shows "\<exists>k res. settles H nt row (verdict e (clk 1) alarm elapsed row) k res e (process H num clk nt alarm elapsed row e)
    \<and> (verdict e (clk 1) alarm elapsed row = ''verified'' \<longrightarrow> k = ''verified-output''
         \<and> backing row res (snd (process H num clk nt alarm elapsed row e)))"
proof -
  define e1 where "e1 = log_audit H (clk 0) ''job_started''
    [(''job_id'', JStr (job_id row)), (''attempt'', JInt (attempts row)), (''capability'', JStr (capability row))] e"
  have same: "store e1 = store e" "evidence e1 = evidence e" "capabilities e1 = capabilities e"
    and m: "moved H row e e1" by (simp_all add: e1_def)
  have new1: "fresh_for row e1" using new by (simp add: fresh_for_def same)
  have cur: "current_state e1 spec = current_state e spec" for spec by (simp add: current_state_def same)
  have lift: ?thesis if "\<exists>k res. settles H nt row (verdict e (clk 1) alarm elapsed row) k res e1 out
      \<and> (verdict e (clk 1) alarm elapsed row = ''verified'' \<longrightarrow> k = ''verified-output'' \<and> backing row res (snd out))"
      "out = process H num clk nt alarm elapsed row e" for out
    using that settles_after [OF _ m] by (simp add: same) blast
  define reject where "reject = with_evidence H (clk 2) row ''rejected''
            [(''intent'', intent_json (job_intent row)),
             (''result'', JObj [(''ok'', JBool False), (''error'', JStr ''authorization_or_capability_invalid'')])]
            (\<lambda>f e'. close_job H (\<lambda>n. clk (3 + n)) nt (job_id row) ''rejected''
               [(''ok'', JBool False), (''error'', JStr ''authorization_or_capability_invalid'')]
               f False (verify_evidence H f (evidence e')) False False e')"
  have "settles H nt row ''rejected'' ''rejected''
      [(''ok'', JBool False), (''error'', JStr ''authorization_or_capability_invalid'')] e1 (reject e1)"
    unfolding reject_def by (rule evidence_then_close) (use new1 in \<open>simp_all add: fresh_for_def payload_ok_def get_def\<close>)
  then have rej: "\<exists>k res. settles H nt row ''rejected'' k res e1 (reject e1)" by blast
  note unf = process_def Let_def e1_def [symmetric] reject_def [symmetric] same
  show ?thesis
  proof (cases "capabilities e (capability row)")
    case None
    then have "process H num clk nt alarm elapsed row e = reject e1" by (simp add: unf)
    with lift rej None show ?thesis by (simp add: verdict_def)
  next
    case (Some spec)
    obtain b where b: "permits (job_grant row) (capability row) (clk 1) = Inr b"
      using live by (cases "permits (job_grant row) (capability row) (clk 1)") auto
    show ?thesis
    proof (cases b)
      case False
      then have "process H num clk nt alarm elapsed row e = reject e1" using Some b by (simp add: unf)
      with lift rej Some b False show ?thesis by (simp add: verdict_def)
    next
      case True
      show ?thesis
      proof (cases "execute spec alarm elapsed (intent_payload (job_intent row))")
        case (Inl err)
        obtain name message where err: "err = (name, message)" by (cases err)
        let ?res = "[(''ok'', JBool False), (''error'', JStr name), (''message'', JStr message)]"
        have "process H num clk nt alarm elapsed row e = record_failure H (\<lambda>n. clk (2 + n)) nt row spec ?res e1"
          using Some b True Inl err by (simp add: unf)
        moreover have "verdict e (clk 1) alarm elapsed row = retry_state (jobs (store e1)) (job_id row)"
          using Some b True Inl by (simp add: verdict_def same)
        moreover have "settles H nt row (retry_state (jobs (store e1)) (job_id row)) ''execution-failure'' ?res e1
            (record_failure H (\<lambda>n. clk (2 + n)) nt row spec ?res e1)"
          using new1 by (intro record_failure_settles) (simp_all add: fresh_for_def)
        ultimately show ?thesis by (intro lift [OF _ refl]) auto
      next
        case (Inr os)
        obtain out secs where os: "os = (out, secs)" by (cases os)
        have "process H num clk nt alarm elapsed row e
            = verify_and_commit H num (\<lambda>n. clk (2 + n)) nt row spec out secs e1"
          using Some b True Inr os by (simp add: unf)
        moreover have v: "verdict e (clk 1) alarm elapsed row
            = (if verifier spec (intent_payload (job_intent row)) out \<noteq> Inr True then ''failed_verification''
               else (case reducer spec of None \<Rightarrow> ''verified'' | Some red \<Rightarrow> (case red (current_state e1 spec) out of
                   Inl _ \<Rightarrow> ''state_update_failed'' | Inr _ \<Rightarrow> ''verified'')))"
          unfolding cur using Some b True Inr os by (simp add: verdict_def)
        note verify_and_commit_settles [OF new1 v, where H = H and nt = nt and num = num
            and clk = "\<lambda>n. clk (2 + n)" and secs = secs]
        ultimately show ?thesis by (intro lift [OF _ refl]) auto
      qed
    qed
  qed
qed

end
