(* ===== verification/Pipeline_Workers.thy ===== *)
theory Pipeline_Workers
  imports Pipeline_Runs Op_Machine
begin

text \<open>
  Workers that share the runtime store. A worker claims a job and later processes the row it got, or
  dies; between the two, other workers submit, claim and process. Claiming and processing are one
  transaction each.
\<close>

section \<open>Workers\<close>

type_synonym system = "engine \<times> rt_job list"

inductive pipeline_step :: "(string \<Rightarrow> string) \<Rightarrow> (rat \<Rightarrow> json) \<Rightarrow> system \<Rightarrow> system \<Rightarrow> bool" for H num where
  Register: "pipeline_step H num (e, P) (snd (register H now spec e), P)"
| Submit: "pipeline_step H num (e, P) (snd (submit H clk uuid i g given e), P)"
| Recover: "pipeline_step H num (e, P) (with_jobs (snd (recover now (jobs (store e)))) e, P)"
| Idle: "claim clk secs (jobs (store e)) = (r, js) \<Longrightarrow> (\<And>row. r \<noteq> Inr (Some row)) \<Longrightarrow>
    pipeline_step H num (e, P) (with_jobs js e, P)"
| Claim: "claim clk secs (jobs (store e)) = (Inr (Some row), js) \<Longrightarrow>
    pipeline_step H num (e, P) (with_jobs js e, row # P)"
| Process: "row \<in> set P \<Longrightarrow>
    pipeline_step H num (e, P) (snd (process H num clk nt alarm elapsed row e), remove1 row P)"
| Die: "row \<in> set P \<Longrightarrow> pipeline_step H num (e, P) (e, remove1 row P)"

inductive pipeline_reach :: "(string \<Rightarrow> string) \<Rightarrow> (rat \<Rightarrow> json) \<Rightarrow> string \<Rightarrow> engine \<Rightarrow> rt_job list \<Rightarrow> bool"
  for H num dir where
  Start: "pipeline_reach H num dir (empty_engine dir) []"
| Step: "pipeline_reach H num dir e P \<Longrightarrow> pipeline_step H num (e, P) (e', P') \<Longrightarrow> pipeline_reach H num dir e' P'"

section \<open>The invariant\<close>

definition job_ok :: "rt_job \<Rightarrow> bool" where
  "job_ok j \<longleftrightarrow> 0 \<le> attempts j \<and> attempts j \<le> max_attempts j
     \<and> (state j = ''queued'' \<longrightarrow> attempts j < max_attempts j)
     \<and> (\<exists>now. permits (job_grant j) (capability j) now = Inr True)"

definition same_request :: "rt_job \<Rightarrow> rt_job \<Rightarrow> bool" where
  "same_request j k \<longleftrightarrow> job_id k = job_id j \<and> idempotency_key k = idempotency_key j \<and> job_intent k = job_intent j
     \<and> job_intent_sha256 k = job_intent_sha256 j
     \<and> job_grant k = job_grant j \<and> capability k = capability j \<and> max_attempts k = max_attempts j"

text \<open>\<open>r\<close> was claimed from the row that is now \<open>j\<close>.\<close>

definition claimed_from :: "rt_job \<Rightarrow> rt_job \<Rightarrow> bool" where
  "claimed_from j r \<longleftrightarrow> same_request j r \<and> 1 \<le> attempts r \<and> attempts r \<le> attempts j"

definition backed :: "(string \<Rightarrow> string) \<Rightarrow> string \<Rightarrow> files \<Rightarrow> rt_job \<Rightarrow> bool" where
  "backed H dir fs j \<longleftrightarrow> (\<exists>n d vd res.
     map_of fs (job_id j, n, ''verified-output'') = Some (JObj d)
     \<and> verify_evidence H (job_id j, n, ''verified-output'') fs
     \<and> evidence_path j = Some (path_text dir (job_id j, n, ''verified-output''))
     \<and> get d ''grant'' = Some (sort_keys (grant_json (job_grant j)))
     \<and> get d ''intent'' = Some (sort_keys (intent_json (job_intent j)))
     \<and> get d ''verifier'' = Some (JObj vd) \<and> get vd ''passed'' = Some (JBool True)
     \<and> job_result j = Some (sort_keys (JObj res))
     \<and> get d ''output'' \<noteq> None \<and> map_option sort_keys (get res ''output'') = get d ''output''
     \<and> get d ''sha256'' \<noteq> None \<and> get res ''evidence_sha256'' = get d ''sha256'')"

definition pipe_inv :: "(string \<Rightarrow> string) \<Rightarrow> engine \<Rightarrow> rt_job list \<Rightarrow> bool" where
  "pipe_inv H e P \<longleftrightarrow> audit_verify H (audit e) \<and> distinct (map job_id (jobs (store e)))
     \<and> (\<forall>j\<in>set (jobs (store e)). job_ok j \<and> (state j = ''verified'' \<longrightarrow> backed H (evidence_dir e) (evidence e) j))
     \<and> distinct (map (\<lambda>r. (job_id r, attempts r)) P)
     \<and> (\<forall>r\<in>set P. \<exists>j\<in>set (jobs (store e)). claimed_from j r)
     \<and> distinct (map fst (evidence e))
     \<and> (\<forall>jid n k. map_of (evidence e) (jid, n, k) \<noteq> None \<longrightarrow>
          verify_evidence H (jid, n, k) (evidence e)
          \<and> (\<exists>j\<in>set (jobs (store e)). job_id j = jid \<and> n \<le> attempts j)
          \<and> (jid, n) \<notin> (\<lambda>r. (job_id r, attempts r)) ` set P)
     \<and> (\<forall>c spec. capabilities e c = Some spec \<longrightarrow> 1 \<le> spec_max_attempts spec)"

definition grows :: "rt_job \<Rightarrow> rt_job \<Rightarrow> bool" where
  "grows j k \<longleftrightarrow> same_request j k \<and> attempts j \<le> attempts k"

lemma same_request_refl [simp]: "same_request j j"
  by (simp add: same_request_def)

lemma grows_claimed: "grows j k \<Longrightarrow> claimed_from j r \<Longrightarrow> claimed_from k r"
  by (auto simp: grows_def claimed_from_def same_request_def)

lemma backed_append: "backed H dir fs j \<Longrightarrow> backed H dir (fs @ gs) j"
proof -
  assume "backed H dir fs j"
  then obtain n d vd res where
    *: "map_of fs (job_id j, n, ''verified-output'') = Some (JObj d)"
     "verify_evidence H (job_id j, n, ''verified-output'') fs" and
    rest: "evidence_path j = Some (path_text dir (job_id j, n, ''verified-output''))
     \<and> get d ''grant'' = Some (sort_keys (grant_json (job_grant j)))
     \<and> get d ''intent'' = Some (sort_keys (intent_json (job_intent j)))
     \<and> get d ''verifier'' = Some (JObj vd) \<and> get vd ''passed'' = Some (JBool True)
     \<and> job_result j = Some (sort_keys (JObj res))
     \<and> get d ''output'' \<noteq> None \<and> map_option sort_keys (get res ''output'') = get d ''output''
     \<and> get d ''sha256'' \<noteq> None \<and> get res ''evidence_sha256'' = get d ''sha256''"
    unfolding backed_def by blast
  have "map_of (fs @ gs) (job_id j, n, ''verified-output'') = Some (JObj d)" using *(1) by simp
  moreover have "verify_evidence H (job_id j, n, ''verified-output'') (fs @ gs)"
    using * verify_evidence_append [of fs "(job_id j, n, ''verified-output'')" H gs] by simp
  ultimately show ?thesis unfolding backed_def using rest by blast
qed

lemma pipe_inv_jobs:
  assumes inv: "pipe_inv H e P"
    and g: "\<And>j. j \<in> set (jobs (store e)) \<Longrightarrow> grows j (g j) \<and> job_ok (g j)
        \<and> (state (g j) = ''verified'' \<longrightarrow> g j = j)"
  shows "pipe_inv H (with_jobs (map g (jobs (store e))) e) P"
proof -
  have ids: "map job_id (map g (jobs (store e))) = map job_id (jobs (store e))"
    using g by (auto simp: grows_def same_request_def)
  have rows: "job_ok k \<and> (state k = ''verified'' \<longrightarrow> backed H (evidence_dir e) (evidence e) k)"
    if "k \<in> g ` set (jobs (store e))" for k
    using that g inv unfolding pipe_inv_def by force
  have claims: "\<exists>k\<in>g ` set (jobs (store e)). claimed_from k r" if r: "r \<in> set P" for r
  proof -
    obtain j where "j \<in> set (jobs (store e))" "claimed_from j r" using inv r unfolding pipe_inv_def by blast
    then show ?thesis using g grows_claimed by blast
  qed
  have files: "\<exists>k\<in>g ` set (jobs (store e)). job_id k = jid \<and> n \<le> attempts k"
    if f: "map_of (evidence e) (jid, n, k') \<noteq> None" for jid n k'
  proof -
    obtain j where j: "j \<in> set (jobs (store e))" "job_id j = jid" "n \<le> attempts j"
      using inv f unfolding pipe_inv_def by blast
    then have "job_id (g j) = jid" "n \<le> attempts (g j)" using g [OF j(1)] by (auto simp: grows_def same_request_def)
    with j(1) show ?thesis by blast
  qed
  have "distinct (map job_id (map g (jobs (store e))))" unfolding ids using inv by (simp add: pipe_inv_def)
  then show ?thesis using inv rows claims files unfolding pipe_inv_def with_jobs_fields set_map by blast
qed

section \<open>Every step keeps it\<close>

definition recovered :: "string \<Rightarrow> rt_job \<Rightarrow> rt_job" where
  "recovered stamp j = (if lease_over stamp j then j\<lparr>state := (if attempts j < max_attempts j then ''queued'' else ''failed''),
     lease_until := None, updated_at := stamp\<rparr> else j)"

lemma recover_map:
  assumes "distinct (map job_id js)" shows "snd (recover now js) = map (recovered (isoformat now)) js"
proof -
  let ?f = "\<lambda>row j. j\<lparr>state := (if attempts row < max_attempts row then ''queued'' else ''failed''),
     lease_until := None, updated_at := isoformat now\<rparr>"
  have "foldl (\<lambda>ks r. update_where (\<lambda>j. job_id j = job_id r) (?f r) ks) js (filter (lease_over (isoformat now)) js)
      = update_where (lease_over (isoformat now)) (\<lambda>j. ?f j j) js"
    by (rule foldl_update_selected [OF assms]) simp
  moreover have "recover_row (isoformat now) = (\<lambda>ks r. update_where (\<lambda>j. job_id j = job_id r) (?f r) ks)"
    by (intro ext) (simp add: recover_row_def)
  ultimately show ?thesis by (simp add: recover_def Let_def update_where_def recovered_def)
qed

lemma recovered_grows:
  "job_ok j \<Longrightarrow> grows j (recovered s j) \<and> job_ok (recovered s j) \<and> (state (recovered s j) = ''verified'' \<longrightarrow> recovered s j = j)"
  by (auto simp: recovered_def grows_def same_request_def job_ok_def)

lemma recovered_ids: "job_id (recovered s j) = job_id j"
  by (simp add: recovered_def)

definition bumped :: "(nat \<Rightarrow> int) \<Rightarrow> int \<Rightarrow> rt_job \<Rightarrow> rt_job" where
  "bumped clk secs j = j\<lparr>state := ''running'', attempts := attempts j + 1,
     lease_until := Some (isoformat (clk 1 + secs * 1000000)), updated_at := isoformat (clk 2)\<rparr>"

lemma claim_cases:
  assumes d: "distinct (map job_id js0)" and c: "claim clk secs js0 = (r, js')"
  shows "(\<forall>row. r \<noteq> Inr (Some row)) \<and> (js' = js0 \<or> js' = snd (recover (clk 0) js0))
    \<or> (\<exists>j\<in>set (snd (recover (clk 0) js0)). state j = ''queued'' \<and> r = Inr (Some (bumped clk secs j))
        \<and> js' = map (\<lambda>x. if x = j then bumped clk secs j else x) (snd (recover (clk 0) js0)))"
proof (cases "first_by (\<lambda>j. (created_at j, job_id j)) (filter (\<lambda>j. state j = ''queued'') (snd (recover (clk 0) js0)))")
  case None
  then show ?thesis using c by (auto simp: claim_def Let_def split: if_splits)
next
  case (Some j)
  let ?js = "snd (recover (clk 0) js0)"
  have j: "j \<in> set ?js" "state j = ''queued''" using first_by_filter_SomeD [OF Some] by simp_all
  have dj: "distinct (map job_id ?js)" using d by (simp add: recover_map comp_def recovered_ids)
  have "update_where (\<lambda>x. job_id x = job_id j \<and> state x = ''queued'')
      (\<lambda>x. x\<lparr>state := ''running'', attempts := attempts x + 1,
         lease_until := Some (isoformat (clk 1 + secs * 1000000)), updated_at := isoformat (clk 2)\<rparr>) ?js
    = map (\<lambda>x. if x = j then bumped clk secs j else x) ?js"
    unfolding update_where_def using unique_row [OF dj _ j(1)] j(2) by (intro map_cong refl) (auto simp: bumped_def)
  moreover have "select_one (\<lambda>x. job_id x = job_id j) (map (\<lambda>x. if x = j then bumped clk secs j else x) ?js)
      = Some (bumped clk secs j)"
  proof -
    have "map job_id (map (\<lambda>x. if x = j then bumped clk secs j else x) ?js) = map job_id ?js"
      by (simp add: bumped_def)
    then have "distinct (map job_id (map (\<lambda>x. if x = j then bumped clk secs j else x) ?js))" using dj by metis
    moreover have "bumped clk secs j \<in> set (map (\<lambda>x. if x = j then bumped clk secs j else x) ?js)"
      using j(1) by (auto intro!: image_eqI [of _ _ j])
    ultimately have "select_one (\<lambda>x. job_id x = job_id (bumped clk secs j))
        (map (\<lambda>x. if x = j then bumped clk secs j else x) ?js) = Some (bumped clk secs j)" by (rule select_one_unique)
    then show ?thesis by (simp add: bumped_def)
  qed
  ultimately show ?thesis using c Some j by (auto simp: claim_def Let_def split: if_splits)
qed

lemma pipe_inv_recover:
  assumes "pipe_inv H e P" shows "pipe_inv H (with_jobs (snd (recover now (jobs (store e)))) e) P"
proof -
  have "distinct (map job_id (jobs (store e)))" using assms by (simp add: pipe_inv_def)
  from recover_map [OF this] show ?thesis
    using pipe_inv_jobs [OF assms, of "recovered (isoformat now)"] recovered_grows assms by (simp add: pipe_inv_def)
qed

lemma with_jobs_same [simp]: "with_jobs (jobs (store e)) e = e" "with_jobs js (with_jobs ks e) = with_jobs js e"
  by (simp_all add: with_jobs_def)

lemma pipe_inv_add:
  assumes inv: "pipe_inv H e P" and c: "\<exists>j\<in>set (jobs (store e)). claimed_from j r"
    and new: "(job_id r, attempts r) \<notin> (\<lambda>r. (job_id r, attempts r)) ` set P"
    and files: "\<And>k. map_of (evidence e) (job_id r, attempts r, k) = None"
  shows "pipe_inv H e (r # P)"
proof -
  have "\<forall>x\<in>set (r # P). \<exists>y\<in>set (jobs (store e)). claimed_from y x" using c inv by (simp add: pipe_inv_def)
  moreover have "distinct (map (\<lambda>r. (job_id r, attempts r)) (r # P))" using new inv by (simp add: pipe_inv_def)
  moreover have "verify_evidence H (jid, n, k) (evidence e)
          \<and> (\<exists>j\<in>set (jobs (store e)). job_id j = jid \<and> n \<le> attempts j)
          \<and> (jid, n) \<notin> (\<lambda>r. (job_id r, attempts r)) ` set (r # P)"
    if f: "map_of (evidence e) (jid, n, k) \<noteq> None" for jid n k
  proof -
    have "(jid, n) \<noteq> (job_id r, attempts r)" using f files [of k] by auto
    moreover have "verify_evidence H (jid, n, k) (evidence e)
          \<and> (\<exists>j\<in>set (jobs (store e)). job_id j = jid \<and> n \<le> attempts j)
          \<and> (jid, n) \<notin> (\<lambda>r. (job_id r, attempts r)) ` set P" using inv f unfolding pipe_inv_def by blast
    ultimately show ?thesis by auto
  qed
  ultimately show ?thesis using inv unfolding pipe_inv_def by blast
qed

lemma pipe_inv_claim:
  assumes inv: "pipe_inv H e P" and c: "claim clk secs (jobs (store e)) = (r, js)"
  shows "pipe_inv H (with_jobs js e) (case r of Inr (Some row) \<Rightarrow> row # P | _ \<Rightarrow> P)"
proof -
  have d: "distinct (map job_id (jobs (store e)))" using inv by (simp add: pipe_inv_def)
  let ?js = "snd (recover (clk 0) (jobs (store e)))"
  have inv1: "pipe_inv H (with_jobs ?js e) P" by (rule pipe_inv_recover [OF inv])
  from claim_cases [OF d c] consider "\<forall>row. r \<noteq> Inr (Some row)" "js = jobs (store e) \<or> js = ?js"
    | j where "j \<in> set ?js" "state j = ''queued''" "r = Inr (Some (bumped clk secs j))"
      "js = map (\<lambda>x. if x = j then bumped clk secs j else x) ?js" by blast
  then show ?thesis
  proof cases
    case 1
    then show ?thesis using inv inv1 by (auto split: sum.splits option.splits)
  next
    case (2 j)
    let ?g = "\<lambda>x. if x = j then bumped clk secs j else x"
    have ok: "job_ok j" using inv1 2(1) by (simp add: pipe_inv_def)
    have bump: "grows j (bumped clk secs j)" "job_ok (bumped clk secs j)" "state (bumped clk secs j) \<noteq> ''verified''"
      using ok 2(2) by (simp_all add: grows_def same_request_def job_ok_def bumped_def)
    have all: "job_ok x" if "x \<in> set ?js" for x using inv1 that by (simp add: pipe_inv_def)
    have "grows x (?g x) \<and> job_ok (?g x) \<and> (state (?g x) = ''verified'' \<longrightarrow> ?g x = x)" if "x \<in> set ?js" for x
      using bump all [OF that] by (simp add: grows_def)
    then have inv2: "pipe_inv H (with_jobs js e) P"
      using pipe_inv_jobs [OF inv1, of ?g] unfolding 2(4) with_jobs_fields with_jobs_same by blast
    let ?r = "bumped clk secs j"
    have r: "?r \<in> set js" "claimed_from ?r ?r"
      using 2(1) ok unfolding 2(4) by (auto simp: claimed_from_def job_ok_def bumped_def intro!: image_eqI [of _ _ j])
    have below: "n < attempts ?r" if "k \<in> set ?js" "job_id k = job_id j" "n \<le> attempts k" for n k
    proof -
      have "k = j" using unique_row [of job_id ?js k j] that(1,2) 2(1) inv1 by (simp add: pipe_inv_def)
      with that(3) show ?thesis by (simp add: bumped_def)
    qed
    have new: "(job_id ?r, attempts ?r) \<notin> (\<lambda>r. (job_id r, attempts r)) ` set P"
    proof
      assume "(job_id ?r, attempts ?r) \<in> (\<lambda>r. (job_id r, attempts r)) ` set P"
      then obtain q where q: "q \<in> set P" "job_id q = job_id j" "attempts q = attempts ?r" by (auto simp: bumped_def)
      obtain k where "k \<in> set ?js" "claimed_from k q" using inv1 q(1) by (auto simp: pipe_inv_def)
      with below [of k "attempts q"] q(2,3) show False by (auto simp: claimed_from_def same_request_def)
    qed
    have files: "map_of (evidence e) (job_id ?r, attempts ?r, k') = None" for k'
    proof (rule ccontr)
      assume "map_of (evidence e) (job_id ?r, attempts ?r, k') \<noteq> None"
      then obtain k where "k \<in> set ?js" "job_id k = job_id ?r" "attempts ?r \<le> attempts k"
        using inv1 unfolding pipe_inv_def with_jobs_fields by blast
      with below [of k "attempts ?r"] show False by (auto simp: bumped_def)
    qed
    have "pipe_inv H (with_jobs js e) (?r # P)"
      by (rule pipe_inv_add [OF inv2]) (use r new files in \<open>auto\<close>)
    then show ?thesis by (simp add: 2(3))
  qed
qed

lemma pipe_fresh: "pipe_inv H e P \<Longrightarrow> r \<in> set P \<Longrightarrow> fresh_for r e"
proof -
  assume inv: "pipe_inv H e P" and r: "r \<in> set P"
  have "map_of (evidence e) (job_id r, attempts r, k) = None" for k
  proof (rule ccontr)
    assume "map_of (evidence e) (job_id r, attempts r, k) \<noteq> None"
    then have "(job_id r, attempts r) \<notin> (\<lambda>r. (job_id r, attempts r)) ` set P" using inv unfolding pipe_inv_def by blast
    with r show False by blast
  qed
  moreover obtain j where "j \<in> set (jobs (store e))" "job_id r = job_id j"
    using inv r unfolding pipe_inv_def claimed_from_def same_request_def by blast
  ultimately show ?thesis by (auto simp: fresh_for_def select_one_None)
qed

lemma pipe_live: "pipe_inv H e P \<Longrightarrow> r \<in> set P \<Longrightarrow> permits (job_grant r) (capability r) now \<noteq> Inl err"
proof
  assume inv: "pipe_inv H e P" and r: "r \<in> set P" and raises: "permits (job_grant r) (capability r) now = Inl err"
  obtain j where j: "j \<in> set (jobs (store e))" "job_grant r = job_grant j" "capability r = capability j"
    using inv r unfolding pipe_inv_def claimed_from_def same_request_def by blast
  then obtain t where "permits (job_grant j) (capability j) t = Inr True" using inv by (auto simp: pipe_inv_def job_ok_def)
  with permits_raises [OF raises, of t] j show False by simp
qed

lemma pipe_inv_drop: "pipe_inv H e P \<Longrightarrow> pipe_inv H e (remove1 r P)"
proof -
  assume inv: "pipe_inv H e P"
  have s: "set (remove1 r P) \<subseteq> set P" by (rule set_remove1_subset)
  have "distinct (map (\<lambda>r. (job_id r, attempts r)) (remove1 r P))"
  proof -
    have "distinct (map (\<lambda>r. (job_id r, attempts r)) P)" using inv by (simp add: pipe_inv_def)
    then have "inj_on (\<lambda>r. (job_id r, attempts r)) (set P)" "distinct P" unfolding distinct_map by blast+
    then show ?thesis using inj_on_subset [OF _ s] by (simp add: distinct_map)
  qed
  moreover have "(jid, n) \<notin> (\<lambda>r. (job_id r, attempts r)) ` set (remove1 r P)"
    if "(jid, n) \<notin> (\<lambda>r. (job_id r, attempts r)) ` set P" for jid n using that s by blast
  ultimately show ?thesis using inv s unfolding pipe_inv_def by blast
qed

definition finished :: "int \<Rightarrow> string \<Rightarrow> json_object \<Rightarrow> string \<Rightarrow> rt_job \<Rightarrow> rt_job" where
  "finished t st res path j = j\<lparr>state := st, job_result := Some (sort_keys (JObj res)), evidence_path := Some path,
     lease_until := None, updated_at := isoformat t\<rparr>"

lemma finish_map: "finish t jid st (JObj res) (Some path) js = map (\<lambda>j. if job_id j = jid then finished t st res path j else j) js"
  by (simp add: finish_def update_where_def finished_def cong: if_cong)

lemma verdict_queued:
  "verdict e now alarm elapsed row = ''queued'' \<Longrightarrow> retry_state (jobs (store e)) (job_id row) = ''queued''"
  by (auto simp: verdict_def split: option.splits if_splits sum.splits prod.splits)

text \<open>Processing keeps the invariant; the claim is used up.\<close>

lemma pipe_inv_process:
  assumes inv: "pipe_inv H e P" and row: "row \<in> set P"
  shows "pipe_inv H (snd (process H num clk nt alarm elapsed row e)) (remove1 row P)"
proof -
  define e' where "e' = snd (process H num clk nt alarm elapsed row e)"
  define st where "st = verdict e (clk 1) alarm elapsed row"
  obtain k res where s: "settles H nt row st k res e (process H num clk nt alarm elapsed row e)"
    and b: "st = ''verified'' \<longrightarrow> k = ''verified-output'' \<and> backing row res e'"
    using process_settles [OF pipe_fresh [OF inv row] pipe_live [OF inv row]] unfolding st_def e'_def by blast
  let ?path = "path_text (evidence_dir e) (job_id row, attempts row, k)"
  have m: "moved H row e e'" using s by (simp add: settles_def e'_def)
  obtain t where js: "jobs (store e') = map (\<lambda>j. if job_id j = job_id row then finished t st res ?path j else j) (jobs (store e))"
    using s by (auto simp: settles_def e'_def finish_map)
  have there: "map_of (evidence e') (job_id row, attempts row, k) \<noteq> None" using s by (simp add: settles_def e'_def)
  obtain gs where gs: "evidence e' = evidence e @ gs" using m by (auto simp: moved_def prefix_def)
  have dir: "evidence_dir e' = evidence_dir e" using m by (simp add: moved_def)
  obtain j0 where j0: "j0 \<in> set (jobs (store e))" "claimed_from j0 row" using inv row unfolding pipe_inv_def by blast
  have d: "distinct (map job_id (jobs (store e)))" using inv by (simp add: pipe_inv_def)
  have only: "j = j0" if "j \<in> set (jobs (store e))" "job_id j = job_id row" for j
    using unique_row [OF d that(1) j0(1)] j0(2) that(2) by (simp add: claimed_from_def same_request_def)
  have rs: "retry_state (jobs (store e)) (job_id row) = (if attempts j0 < max_attempts j0 then ''queued'' else ''failed'')"
    using select_one_unique [OF d j0(1)] j0(2) by (simp add: retry_state_def claimed_from_def same_request_def)
  have ok0: "job_ok j0" using inv j0(1) by (simp add: pipe_inv_def)
  let ?f = "finished t st res ?path j0"
  have okf: "job_ok ?f"
    using ok0 rs verdict_queued [of e "clk 1" alarm elapsed row]
    by (auto simp: job_ok_def finished_def st_def split: if_splits)
  have bf: "backed H (evidence_dir e') (evidence e') ?f" if "st = ''verified''"
  proof -
    have k: "k = ''verified-output''" and bk: "backing row res e'" using b that by simp_all
    have "verify_evidence H (job_id row, attempts row, k) (evidence e')"
      using m there pipe_fresh [OF inv row] unfolding moved_def fresh_for_def by blast
    moreover obtain dd vd where "map_of (evidence e') (job_id row, attempts row, ''verified-output'') = Some (JObj dd)"
      "get dd ''grant'' = Some (sort_keys (grant_json (job_grant row)))"
      "get dd ''intent'' = Some (sort_keys (intent_json (job_intent row)))"
      "get dd ''verifier'' = Some (JObj vd)" "get vd ''passed'' = Some (JBool True)"
      "get dd ''output'' \<noteq> None" "map_option sort_keys (get res ''output'') = get dd ''output''"
      "get dd ''sha256'' \<noteq> None" "get res ''evidence_sha256'' = get dd ''sha256''"
      using bk unfolding backing_def by blast
    moreover have "job_id ?f = job_id row" "job_grant ?f = job_grant row" "job_intent ?f = job_intent row"
      "job_result ?f = Some (sort_keys (JObj res))" "evidence_path ?f = Some ?path"
      using j0(2) by (simp_all add: finished_def claimed_from_def same_request_def)
    ultimately show ?thesis unfolding backed_def dir k
      by (intro exI [of _ "attempts row"] exI [of _ dd] exI [of _ vd] exI [of _ res]) simp
  qed
  have members: "x = ?f \<or> x \<in> set (jobs (store e)) \<and> job_id x \<noteq> job_id row" if "x \<in> set (jobs (store e'))" for x
    using that only unfolding js by (auto split: if_splits)
  have rows: "job_ok x \<and> (state x = ''verified'' \<longrightarrow> backed H (evidence_dir e') (evidence e') x)"
    if "x \<in> set (jobs (store e'))" for x
    using members [OF that]
  proof
    assume "x = ?f"
    then show ?thesis using okf bf by (simp add: finished_def)
  next
    assume "x \<in> set (jobs (store e)) \<and> job_id x \<noteq> job_id row"
    then show ?thesis using inv backed_append unfolding dir gs pipe_inv_def by blast
  qed
  have keep: "\<exists>y\<in>set (jobs (store e')). same_request x y \<and> attempts y = attempts x" if "x \<in> set (jobs (store e))" for x
  proof -
    have "(if job_id x = job_id row then finished t st res ?path x else x) \<in> set (jobs (store e'))"
      using that unfolding js by simp
    then show ?thesis by (rule bexI [rotated]) (simp add: finished_def same_request_def)
  qed
  have claims: "\<exists>y\<in>set (jobs (store e')). claimed_from y r" if "r \<in> set (remove1 row P)" for r
  proof -
    have "r \<in> set P" using that by (metis notin_set_remove1)
    then obtain x where x: "x \<in> set (jobs (store e))" "claimed_from x r" using inv unfolding pipe_inv_def by blast
    obtain y where "y \<in> set (jobs (store e'))" "grows x y" using keep [OF x(1)] by (auto simp: grows_def)
    then show ?thesis using grows_claimed x(2) by blast
  qed
  have gone: "(job_id row, attempts row) \<notin> (\<lambda>r. (job_id r, attempts r)) ` set (remove1 row P)"
  proof -
    have "distinct (map (\<lambda>r. (job_id r, attempts r)) P)" using inv by (simp add: pipe_inv_def)
    then have "inj_on (\<lambda>r. (job_id r, attempts r)) (set P)" "distinct P" by (auto simp: distinct_map)
    then show ?thesis using row by (auto simp: inj_on_def)
  qed
  have drop: "pipe_inv H e (remove1 row P)" by (rule pipe_inv_drop [OF inv])
  have files: "verify_evidence H (jid, n, k') (evidence e')
        \<and> (\<exists>y\<in>set (jobs (store e')). job_id y = jid \<and> n \<le> attempts y)
        \<and> (jid, n) \<notin> (\<lambda>r. (job_id r, attempts r)) ` set (remove1 row P)"
    if f: "map_of (evidence e') (jid, n, k') \<noteq> None" for jid n k'
  proof (cases "map_of (evidence e) (jid, n, k') = None")
    case True
    then have "verify_evidence H (jid, n, k') (evidence e')" and eq: "jid = job_id row" "n = attempts row"
      using m f unfolding moved_def by blast+
    moreover have "\<exists>y\<in>set (jobs (store e')). job_id y = job_id row \<and> attempts row \<le> attempts y"
      using keep [OF j0(1)] j0(2) by (auto simp: claimed_from_def same_request_def)
    ultimately show ?thesis using gone unfolding eq by blast
  next
    case False
    then have *: "verify_evidence H (jid, n, k') (evidence e)" "\<exists>x\<in>set (jobs (store e)). job_id x = jid \<and> n \<le> attempts x"
      "(jid, n) \<notin> (\<lambda>r. (job_id r, attempts r)) ` set (remove1 row P)"
      using drop unfolding pipe_inv_def by blast+
    then have "\<exists>y\<in>set (jobs (store e')). job_id y = jid \<and> n \<le> attempts y"
      using keep by (fastforce simp: same_request_def)
    then show ?thesis using * verify_evidence_append [OF False, of H gs] unfolding gs by simp
  qed
  have ids: "map job_id (jobs (store e')) = map job_id (jobs (store e))" unfolding js by (simp add: finished_def)
  have head: "audit_verify H (audit e')" "distinct (map job_id (jobs (store e')))" "distinct (map fst (evidence e'))"
    "capabilities e' = capabilities e"
    using m inv unfolding ids by (simp_all add: moved_def pipe_inv_def)
  show ?thesis
    using head rows claims files drop unfolding e'_def [symmetric] pipe_inv_def by simp
qed

lemma pipe_inv_log: "pipe_inv H e P \<Longrightarrow> pipe_inv H (log_audit H now ev p e) P"
  by (simp add: pipe_inv_def)

lemma pipe_inv_append_job:
  assumes inv: "pipe_inv H e P" and new: "\<forall>j\<in>set (jobs (store e)). job_id j \<noteq> job_id n" "job_ok n" "state n \<noteq> ''verified''"
  shows "pipe_inv H (with_jobs (jobs (store e) @ [n]) e) P"
  using inv new unfolding pipe_inv_def with_jobs_fields by (fastforce simp del: map_of_eq_None_iff)

lemma store_submit_cases:
  "snd (store_submit H now uuid i g key n js) = js
   \<or> (\<exists>j. snd (store_submit H now uuid i g key n js) = js @ [j] \<and> (\<forall>x\<in>set js. job_id x \<noteq> job_id j)
        \<and> (\<forall>x\<in>set js. idempotency_key x \<noteq> idempotency_key j)
        \<and> job_id j = uuid \<and> state j = ''queued'' \<and> attempts j = 0 \<and> max_attempts j = n \<and> job_grant j = g
        \<and> capability j = intent_capability i \<and> idempotency_key j = key
        \<and> job_intent_sha256 j = Some (intent_sha256 H i) \<and> job_intent j = stored_intent i)"
  by (auto simp: store_submit_def Let_def split: option.split)

lemma pipe_inv_submit: assumes inv: "pipe_inv H e P" shows "pipe_inv H (snd (submit H clk uuid i g given e)) P"
proof (cases "permits g (intent_capability i) (clk 0)")
  case (Inr b)
  show ?thesis
  proof (cases "b \<and> capabilities e (intent_capability i) \<noteq> None")
    case False
    then show ?thesis using Inr inv pipe_inv_log by (cases b) (auto simp: submit_def)
  next
    case True
    then obtain spec where spec: "capabilities e (intent_capability i) = Some spec" and b: b by blast
    let ?r = "store_submit H (clk 1) uuid i g (submit_key i given) (spec_max_attempts spec) (jobs (store e))"
    have "1 \<le> spec_max_attempts spec" using inv spec by (auto simp: pipe_inv_def)
    then have ok_new: "pipe_inv H (with_jobs (jobs (store e) @ [j]) e) P"
      if "\<forall>x\<in>set (jobs (store e)). job_id x \<noteq> job_id j" "state j = ''queued''" "attempts j = 0"
        "max_attempts j = spec_max_attempts spec" "job_grant j = g" "capability j = intent_capability i" for j
      using that Inr b by (intro pipe_inv_append_job [OF inv]) (auto simp: job_ok_def)
    from store_submit_cases [of H "clk 1" uuid i g "submit_key i given" "spec_max_attempts spec" "jobs (store e)"]
    have "pipe_inv H (with_jobs (snd ?r) e) P"
    proof (elim disjE exE conjE)
      assume "snd ?r = jobs (store e)"
      then show ?thesis using inv by simp
    qed (use ok_new in simp)
    then have ok: "pipe_inv H (log_audit H now ev p (with_jobs (snd ?r) e)) P" "pipe_inv H (log_audit H now ev p e) P" for now ev p
      using pipe_inv_log inv by blast+
    obtain r js where rj: "?r = (r, js)" by (cases ?r)
    show ?thesis
    proof (cases r)
      case (Inl err)
      then show ?thesis using Inr b spec rj inv ok(2) by (cases err) (auto simp: submit_def Let_def)
    next
      case (Inr q)
      then show ?thesis using \<open>permits g (intent_capability i) (clk 0) = Inr b\<close> b spec rj ok(1)
        by (cases q) (auto simp: submit_def Let_def)
    qed
  qed
qed (use inv in \<open>simp add: submit_def\<close>)

lemma pipe_inv_register: "pipe_inv H e P \<Longrightarrow> pipe_inv H (snd (register H now spec e)) P"
  by (auto simp: register_def pipe_inv_def)

lemma pipe_inv_step: "pipeline_step H num s s' \<Longrightarrow> pipe_inv H (fst s) (snd s) \<Longrightarrow> pipe_inv H (fst s') (snd s')"
proof (induction rule: pipeline_step.induct)
  case (Idle clk secs e r js P)
  then show ?case using pipe_inv_claim [of H e P clk secs r js] by (auto split: sum.splits option.splits)
next
  case (Claim clk secs e row js P)
  then show ?case using pipe_inv_claim [of H e P clk secs "Inr (Some row)" js] by simp
qed (simp_all add: pipe_inv_register pipe_inv_submit pipe_inv_recover pipe_inv_process pipe_inv_drop)

lemma process_moved:
  assumes "pipe_inv H e P" "row \<in> set P" shows "moved H row e (snd (process H num clk nt alarm elapsed row e))"
  using process_settles [OF pipe_fresh [OF assms] pipe_live [OF assms]] unfolding settles_def by blast

lemma submit_fields [simp]:
  "evidence_dir (snd (submit H clk uuid i g given e)) = evidence_dir e"
  by (auto simp: submit_def Let_def split: sum.split bool.split option.split prod.split py_error.split)

lemma step_dir: "pipeline_step H num s s' \<Longrightarrow> pipe_inv H (fst s) (snd s) \<Longrightarrow> evidence_dir (fst s') = evidence_dir (fst s)"
proof (induction rule: pipeline_step.induct)
  case (Process row P e clk nt alarm elapsed)
  then show ?case using process_moved [of H e P row num clk nt alarm elapsed] by (simp add: moved_def)
qed (simp_all add: register_def)

lemma pipe_reach_inv: "pipeline_reach H num dir e P \<Longrightarrow> pipe_inv H e P \<and> evidence_dir e = dir"
proof (induction rule: pipeline_reach.induct)
  case Start
  show ?case by (simp add: pipe_inv_def empty_engine_def)
next
  case (Step e P e' P')
  then show ?case using pipe_inv_step [OF Step.hyps(2)] step_dir [OF Step.hyps(2)] by simp
qed

text \<open>\<open>run_once\<close> is a claim followed by the processing of the row.\<close>

lemma run_once_reach:
  assumes "pipeline_reach H num dir e P"
  shows "pipeline_reach H num dir (snd (run_once H num clk nt alarm elapsed e)) P"
proof -
  obtain r js where c: "claim clk 60 (jobs (store e)) = (r, js)" by (cases "claim clk 60 (jobs (store e))")
  consider row where "r = Inr (Some row)" | "\<And>row. r \<noteq> Inr (Some row)" by blast
  then show ?thesis
  proof cases
    case (1 row)
    have "pipeline_reach H num dir (with_jobs js e) (row # P)"
      using pipeline_reach.Step [OF assms pipeline_step.Claim [OF c [unfolded 1]]] .
    from pipeline_reach.Step [OF this pipeline_step.Process [of row]]
    have "pipeline_reach H num dir (snd (process H num (\<lambda>n. clk (3 + n)) nt alarm elapsed row (with_jobs js e))) P" by simp
    then show ?thesis using c 1
      by (cases "process H num (\<lambda>n. clk (3 + n)) nt alarm elapsed row (with_jobs js e)"; cases "fst
            (process H num (\<lambda>n. clk (3 + n)) nt alarm elapsed row (with_jobs js e))") (auto simp: run_once_def)
  next
    case 2
    have "pipeline_reach H num dir (with_jobs js e) P"
      using pipeline_reach.Step [OF assms pipeline_step.Idle [OF c 2]] .
    then show ?thesis using c 2 by (cases r) (auto simp: run_once_def split: option.splits)
  qed
qed

end
