(* ===== verification/Pipeline_Claims.thy ===== *)
theory Pipeline_Claims
  imports Pipeline_Workers
begin

text \<open>
  The properties of the pipeline: verified jobs are backed by intact evidence, a claimed job is settled
  as its verdict says, outcomes are final while no lease runs out under a live worker, and not beyond.
\<close>

section \<open>One worker at a time\<close>

text \<open>\<open>P_Die\<close>: the process dies while it executes the job it claimed.\<close>

datatype pipe_op =
    P_Register int capability_spec
  | P_Submit "nat \<Rightarrow> int" string intent grant "string option"
  | P_Run "nat \<Rightarrow> int" run_note bool rat
  | P_Die "nat \<Rightarrow> int"

fun run_pipe :: "(string \<Rightarrow> string) \<Rightarrow> (rat \<Rightarrow> json) \<Rightarrow> pipe_op \<Rightarrow> engine \<Rightarrow> engine" where
  "run_pipe H num (P_Register now spec) e = snd (register H now spec e)"
| "run_pipe H num (P_Submit clk uuid i g given) e = snd (submit H clk uuid i g given e)"
| "run_pipe H num (P_Run clk nt alarm elapsed) e = snd (run_once H num clk nt alarm elapsed e)"
| "run_pipe H num (P_Die clk) e = with_jobs (snd (claim clk 60 (jobs (store e)))) e"

definition final_states :: "string list" where
  "final_states = [''rejected'', ''failed'', ''failed_verification'', ''state_update_failed'', ''verified'']"

definition final_job :: "rt_job \<Rightarrow> rt_job \<Rightarrow> bool" where
  "final_job j k \<longleftrightarrow> grows j k \<and> (state j \<in> set final_states \<longrightarrow> k = j)"

definition pipe_older :: "engine \<Rightarrow> engine \<Rightarrow> bool" where
  "pipe_older e e' \<longleftrightarrow> evolves final_job (jobs (store e)) (jobs (store e')) \<and> prefix (audit e) (audit e')
     \<and> prefix (evidence e) (evidence e') \<and> prefix (run_history (store e)) (run_history (store e'))"

lemma final_job_refl [simp]: "final_job j j"
  by (simp add: final_job_def grows_def)

lemma final_job_trans: "final_job i j \<Longrightarrow> final_job j k \<Longrightarrow> final_job i k"
  by (auto simp: final_job_def grows_def same_request_def)

lemma pipe_older_refl [simp]: "pipe_older e e"
  by (simp add: pipe_older_def evolves_refl)

lemma evolves_final_trans: "evolves final_job a b \<Longrightarrow> evolves final_job b c \<Longrightarrow> evolves final_job a c"
  using evolves_trans [of final_job] final_job_trans by blast

lemma pipe_older_trans: "pipe_older a b \<Longrightarrow> pipe_older b c \<Longrightarrow> pipe_older a c"
  unfolding pipe_older_def by (meson evolves_final_trans prefix_order.trans)

lemma evolves_map: "(\<And>r. r \<in> set rs \<Longrightarrow> R r (g r)) \<Longrightarrow> evolves R rs (map g rs)"
  by (simp add: evolves_def)

lemma pipe_older_jobs: "(\<And>j. j \<in> set (jobs (store e)) \<Longrightarrow> final_job j (g j)) \<Longrightarrow>
    pipe_older e (with_jobs (map g (jobs (store e))) e)"
  by (simp add: pipe_older_def evolves_map)

lemma final_recovered: "final_job j (recovered s j)"
  by (auto simp: final_job_def grows_def same_request_def recovered_def lease_over_def final_states_def)

lemma older_recover:
  assumes "pipe_inv H e P" shows "pipe_older e (with_jobs (snd (recover now (jobs (store e)))) e)"
proof -
  have "distinct (map job_id (jobs (store e)))" using assms by (simp add: pipe_inv_def)
  from recover_map [OF this] show ?thesis using pipe_older_jobs [of e] final_recovered by simp
qed

lemma older_claim:
  assumes inv: "pipe_inv H e P" and c: "claim clk secs (jobs (store e)) = (r, js)"
  shows "pipe_older e (with_jobs js e) \<and> (\<forall>row. r = Inr (Some row) \<longrightarrow> row \<in> set js \<and> state row = ''running'')"
proof -
  have d: "distinct (map job_id (jobs (store e)))" using inv by (simp add: pipe_inv_def)
  let ?js = "snd (recover (clk 0) (jobs (store e)))"
  have o1: "pipe_older e (with_jobs ?js e)" by (rule older_recover [OF inv])
  from claim_cases [OF d c] consider "\<forall>row. r \<noteq> Inr (Some row)" "js = jobs (store e) \<or> js = ?js"
    | j where "j \<in> set ?js" "state j = ''queued''" "r = Inr (Some (bumped clk secs j))"
      "js = map (\<lambda>x. if x = j then bumped clk secs j else x) ?js" by blast
  then show ?thesis
  proof cases
    case 1
    then show ?thesis using o1 by auto
  next
    case (2 j)
    have "final_job x (if x = j then bumped clk secs j else x)" for x
      using 2(2) by (auto simp: final_job_def grows_def same_request_def bumped_def final_states_def)
    then have "pipe_older (with_jobs ?js e) (with_jobs js e)"
      using pipe_older_jobs [of "with_jobs ?js e" "\<lambda>x. if x = j then bumped clk secs j else x"] by (simp add: 2(4))
    moreover have "bumped clk secs j \<in> set js" using 2(1) unfolding 2(4) by (auto intro!: image_eqI [of _ _ j])
    moreover have "state (bumped clk secs j) = ''running''" by (simp add: bumped_def)
    ultimately show ?thesis using pipe_older_trans [OF o1] 2(3) by simp
  qed
qed

lemma older_process:
  assumes inv: "pipe_inv H e P" and row: "row \<in> set P" "row \<in> set (jobs (store e))" "state row = ''running''"
  shows "pipe_older e (snd (process H num clk nt alarm elapsed row e))"
proof -
  obtain k res where s: "settles H nt row (verdict e (clk 1) alarm elapsed row) k res e
      (process H num clk nt alarm elapsed row e)"
    using process_settles [OF pipe_fresh [OF inv row(1)] pipe_live [OF inv row(1)]] by blast
  then obtain t st path where js: "jobs (store (snd (process H num clk nt alarm elapsed row e)))
      = map (\<lambda>j. if job_id j = job_id row then finished t st res path j else j) (jobs (store e))"
    by (auto simp: settles_def finish_map)
  have d: "distinct (map job_id (jobs (store e)))" using inv by (simp add: pipe_inv_def)
  have "final_job j (if job_id j = job_id row then finished t st res path j else j)" if "j \<in> set (jobs (store e))" for j
    using unique_row [OF d that row(2)] row(3)
    by (auto simp: final_job_def grows_def same_request_def finished_def final_states_def)
  then have "evolves final_job (jobs (store e)) (jobs (store (snd (process H num clk nt alarm elapsed row e))))"
    unfolding js by (rule evolves_map)
  then show ?thesis using process_moved [OF inv row(1)] unfolding pipe_older_def moved_def by blast
qed

lemma run_once_good:
  assumes inv: "pipe_inv H e []"
  shows "pipe_inv H (snd (run_once H num clk nt alarm elapsed e)) []
    \<and> pipe_older e (snd (run_once H num clk nt alarm elapsed e))"
proof -
  obtain r js where c: "claim clk 60 (jobs (store e)) = (r, js)" by (cases "claim clk 60 (jobs (store e))")
  note o1 = older_claim [OF inv c] and i1 = pipe_inv_claim [OF inv c]
  consider row where "r = Inr (Some row)" | "\<And>row. r \<noteq> Inr (Some row)" by blast
  then show ?thesis
  proof cases
    case (1 row)
    let ?p = "process H num (\<lambda>n. clk (3 + n)) nt alarm elapsed row (with_jobs js e)"
    have i2: "pipe_inv H (with_jobs js e) [row]" using i1 1 by simp
    have p: "snd (run_once H num clk nt alarm elapsed e) = snd ?p"
      using c 1 by (cases ?p; cases "fst ?p") (auto simp: run_once_def)
    have "pipe_inv H (snd ?p) []" using pipe_inv_process [OF i2, of row] by simp
    moreover have "pipe_older (with_jobs js e) (snd ?p)"
      using older_process [OF i2, of row] o1 1 by simp
    ultimately show ?thesis using o1 pipe_older_trans unfolding p by blast
  next
    case 2
    then have "snd (run_once H num clk nt alarm elapsed e) = with_jobs js e"
      using c by (cases r) (auto simp: run_once_def split: option.splits)
    moreover have "pipe_inv H (with_jobs js e) []" using i1 2 by (cases r) (auto split: option.splits)
    ultimately show ?thesis using o1 by simp
  qed
qed

interpretation pipe: evolving_machine "run_pipe H num" "empty_engine dir" "\<lambda>e. pipe_inv H e []" pipe_older for H num dir
proof
  show "pipe_inv H (empty_engine dir) []" by (simp add: pipe_inv_def empty_engine_def)
  show "pipe_inv H (run_pipe H num op e) []" if "pipe_inv H e []" for op e
  proof (cases op)
    case (P_Die clk)
    obtain r js where c: "claim clk 60 (jobs (store e)) = (r, js)" by (cases "claim clk 60 (jobs (store e))")
    show ?thesis
    proof (cases "\<exists>row. r = Inr (Some row)")
      case True
      then obtain row where "r = Inr (Some row)" by blast
      then have "pipe_inv H (with_jobs js e) [row]" using pipe_inv_claim [OF that c] by simp
      from pipe_inv_drop [OF this, of row] show ?thesis by (simp add: P_Die c)
    next
      case False
      then show ?thesis using pipe_inv_claim [OF that c] by (auto simp: P_Die c split: sum.splits option.splits)
    qed
  qed (use that in \<open>simp_all add: pipe_inv_register pipe_inv_submit run_once_good\<close>)
  show "pipe_older e (run_pipe H num op e)" if "pipe_inv H e []" for op e
  proof (cases op)
    case (P_Register now spec)
    then show ?thesis by (auto simp: register_def pipe_older_def evolves_refl)
  next
    case (P_Submit clk uuid i g given)
    have "evolves final_job (jobs (store e)) (jobs (store (snd (submit H clk uuid i g given e))))"
    proof -
      have "\<exists>xs. snd (store_submit H now uuid i g key n js) = js @ xs" for now key n js
        using store_submit_cases [of H now uuid i g key n js] by auto
      then have "\<exists>xs. jobs (store (snd (submit H clk uuid i g given e))) = jobs (store e) @ xs"
        by (auto simp: submit_def Let_def split: sum.split bool.split option.split prod.split py_error.split) (metis snd_conv)
      then obtain xs where xs: "jobs (store (snd (submit H clk uuid i g given e))) = jobs (store e) @ xs" ..
      show ?thesis unfolding xs by (rule evolvesI_append) simp
    qed
    moreover have "prefix (audit e) (audit (snd (submit H clk uuid i g given e)))"
      "evidence (snd (submit H clk uuid i g given e)) = evidence e"
      "run_history (store (snd (submit H clk uuid i g given e))) = run_history (store e)"
      by (auto simp: submit_def Let_def split: sum.split bool.split option.split prod.split py_error.split)
    ultimately show ?thesis by (simp add: P_Submit pipe_older_def)
  next
    case (P_Run clk nt alarm elapsed)
    then show ?thesis using run_once_good [OF that] by simp
  next
    case (P_Die clk)
    then show ?thesis using older_claim [OF that, of clk 60] by (cases "claim clk 60 (jobs (store e))") simp
  qed
qed (use pipe_older_trans in auto)

section \<open>Properties\<close>

text \<open>
  C20. However workers interleave, die or overrun their leases, a job in state verified is backed by
  evidence: its evidence path names a file of one of its attempts whose digest verifies, which holds the
  job's own grant and intent, says that the verifier passed, and has the output and the digest that the
  result of the job reports.
\<close>

theorem verified_jobs_have_intact_evidence:
  assumes "pipeline_reach H num dir e P" "j \<in> set (jobs (store e))" "state j = ''verified''"
  shows "\<exists>n d vd res. map_of (evidence e) (job_id j, n, ''verified-output'') = Some (JObj d)
     \<and> verify_evidence H (job_id j, n, ''verified-output'') (evidence e)
     \<and> evidence_path j = Some (path_text dir (job_id j, n, ''verified-output''))
     \<and> get d ''grant'' = Some (sort_keys (grant_json (job_grant j)))
     \<and> get d ''intent'' = Some (sort_keys (intent_json (job_intent j)))
     \<and> get d ''verifier'' = Some (JObj vd) \<and> get vd ''passed'' = Some (JBool True)
     \<and> job_result j = Some (sort_keys (JObj res))
     \<and> get d ''output'' \<noteq> None \<and> map_option sort_keys (get res ''output'') = get d ''output''
     \<and> get d ''sha256'' \<noteq> None \<and> get res ''evidence_sha256'' = get d ''sha256''"
proof -
  have "pipe_inv H e P" and dir: "evidence_dir e = dir" using pipe_reach_inv [OF assms(1)] by simp_all
  then have "backed H (evidence_dir e) (evidence e) j" using assms(2,3) unfolding pipe_inv_def by blast
  then show ?thesis unfolding backed_def dir .
qed

text \<open>
  A claimed job is always settled: processing it returns the job, never a file that exists or a
  missing row, gives that row and no other the state of its verdict, and commits canonical state only
  for a verified job. The verdict is verified exactly when the capability is registered, the grant is
  live, the execution returns in time, the verifier accepts and the reducer does not raise.
\<close>

theorem claimed_job_is_settled:
  assumes reach: "pipeline_reach H num dir e P" and row: "row \<in> set P"
    and new: "note_uuid nt \<notin> run_id ` set (run_history (store e))"
  shows "\<exists>e' f. process H num clk nt alarm elapsed row e = (Inr (job_id row), e')
    \<and> jobs (store e') = map (\<lambda>j. if job_id j = job_id row then f j else j) (jobs (store e))
    \<and> (\<forall>j. same_request j (f j) \<and> attempts (f j) = attempts j
         \<and> state (f j) = verdict e (clk 1) alarm elapsed row)
    \<and> (canonical_state (store e') = canonical_state (store e) \<or> verdict e (clk 1) alarm elapsed row = ''verified'')
    \<and> (verdict e (clk 1) alarm elapsed row = ''verified'' \<longleftrightarrow>
        (\<exists>spec out secs. capabilities e (capability row) = Some spec
          \<and> permits (job_grant row) (capability row) (clk 1) = Inr True
          \<and> execute spec alarm elapsed (intent_payload (job_intent row)) = Inr (out, secs)
          \<and> verifier spec (intent_payload (job_intent row)) out = Inr True
          \<and> (case reducer spec of None \<Rightarrow> True | Some red \<Rightarrow> \<exists>s. red (current_state e spec) out = Inr s)))"
proof -
  have inv: "pipe_inv H e P" using pipe_reach_inv [OF reach] by simp
  let ?v = "verdict e (clk 1) alarm elapsed row"
  let ?p = "process H num clk nt alarm elapsed row e"
  obtain k res where s: "settles H nt row ?v k res e ?p"
    using process_settles [OF pipe_fresh [OF inv row] pipe_live [OF inv row]] by blast
  have r: "?p = (Inr (job_id row), snd ?p)" using s new by (cases ?p) (simp add: settles_def clash_def)
  obtain t path where js: "jobs (store (snd ?p))
      = map (\<lambda>j. if job_id j = job_id row then finished t ?v res path j else j) (jobs (store e))"
    using s unfolding settles_def finish_map by blast
  have f: "same_request j (finished t ?v res path j) \<and> attempts (finished t ?v res path j) = attempts j
      \<and> state (finished t ?v res path j) = ?v" for j
    by (simp add: finished_def same_request_def)
  have c: "canonical_state (store (snd ?p)) = canonical_state (store e) \<or> ?v = ''verified''"
    using s by (auto simp: settles_def)
  have v: "?v = ''verified'' \<longleftrightarrow> (\<exists>spec out secs. capabilities e (capability row) = Some spec
          \<and> permits (job_grant row) (capability row) (clk 1) = Inr True
          \<and> execute spec alarm elapsed (intent_payload (job_intent row)) = Inr (out, secs)
          \<and> verifier spec (intent_payload (job_intent row)) out = Inr True
          \<and> (case reducer spec of None \<Rightarrow> True | Some red \<Rightarrow> \<exists>s. red (current_state e spec) out = Inr s))"
    by (auto simp: verdict_def split: option.splits sum.splits prod.splits if_splits)
  show ?thesis using r js f c v by (intro exI [of _ "snd ?p"] exI [of _ "finished t ?v res path"]) blast
qed

text \<open>
  With one worker at a time, which may also die on a job and leave it to the recovery, the outcome
  of a job is final: whatever is registered, submitted and run later, a settled row never changes, so a
  verified effect is never executed again; jobs, evidence files, audit records and the history only
  grow; and no job is started more often than its capability allowed.
\<close>

theorem pipeline_outcomes_final:
  fixes H num dir ops later
  defines "e \<equiv> run_all (run_pipe H num) ops (empty_engine dir)"
  shows "evolves final_job (jobs (store e)) (jobs (store (run_all (run_pipe H num) later e)))
    \<and> prefix (evidence e) (evidence (run_all (run_pipe H num) later e))
    \<and> prefix (audit e) (audit (run_all (run_pipe H num) later e)) \<and> audit_verify H (audit e)
    \<and> list_all (\<lambda>j. 0 \<le> attempts j \<and> attempts j \<le> max_attempts j) (jobs (store e))"
proof -
  have inv: "pipe_inv H e []" unfolding e_def by (rule pipe.reached_inv)
  then have "list_all (\<lambda>j. 0 \<le> attempts j \<and> attempts j \<le> max_attempts j) (jobs (store e))" "audit_verify H (audit e)"
    by (auto simp: list_all_iff pipe_inv_def job_ok_def)
  moreover have "pipe_older e (run_all (run_pipe H num) later e)" by (rule pipe.run_all_older [OF inv])
  ultimately show ?thesis unfolding pipe_older_def by blast
qed

text \<open>
  C21. The lease is no fence: a worker whose lease ran out still settles the row. When its execution
  fails after another worker has verified the job, the verified job goes back into the queue, and its
  effect will be executed again.
\<close>

theorem stale_worker_requeues_verified_job:
  assumes reach: "pipeline_reach H num dir e P" and row: "row \<in> set P"
    and j: "j \<in> set (jobs (store e))" "job_id j = job_id row" "state j = ''verified''" "attempts j < max_attempts j"
    and spec: "capabilities e (capability row) = Some spec" "permits (job_grant row) (capability row) (clk 1) = Inr True"
    and fails: "execute spec alarm elapsed (intent_payload (job_intent row)) = Inl err"
  shows "\<exists>k\<in>set (jobs (store (snd (process H num clk nt alarm elapsed row e)))). same_request j k \<and> state k = ''queued''"
proof -
  have inv: "pipe_inv H e P" using pipe_reach_inv [OF reach] by simp
  then have d: "distinct (map job_id (jobs (store e)))" by (simp add: pipe_inv_def)
  have v: "verdict e (clk 1) alarm elapsed row = ''queued''"
    using select_one_unique [OF d j(1)] j(2,4) spec fails by (simp add: verdict_def retry_state_def)
  obtain k res where s: "settles H nt row (verdict e (clk 1) alarm elapsed row) k res e
      (process H num clk nt alarm elapsed row e)"
    using process_settles [OF pipe_fresh [OF inv row] pipe_live [OF inv row]] by blast
  then obtain t path where js: "jobs (store (snd (process H num clk nt alarm elapsed row e)))
      = map (\<lambda>j. if job_id j = job_id row then finished t ''queued'' res path j else j) (jobs (store e))"
    unfolding settles_def finish_map v by blast
  have "finished t ''queued'' res path j \<in> set (jobs (store (snd (process H num clk nt alarm elapsed row e))))"
    unfolding js using j(1,2) by (auto intro!: image_eqI [of _ _ j])
  then show ?thesis by (rule bexI [rotated]) (simp add: finished_def same_request_def)
qed

section \<open>A run\<close>

text \<open>
  The echo capability with a timeout of 90 seconds, which is longer than the lease of 60: a worker claims
  the job at second 0, a second one claims it again at second 61 and verifies it.
\<close>

definition demo_spec :: capability_spec where
  "demo_spec = \<lparr>spec_name = ''echo'', executor = (\<lambda>p. Inr (JObj [(''echo'', p)])),
     verifier = (\<lambda>p out. Inr (echo_verifier p out)), verifier_name = ''echo_verifier'', reducer = None,
     timeout_seconds = 90, spec_max_attempts = 3, verifier_independent = True\<rparr>"

definition demo_intent :: intent where
  "demo_intent = \<lparr>intent_capability = ''echo'', intent_payload = JInt 1, actor = ''a'', constraints = JObj [],
     intent_id = ''i'', intent_created = ''t''\<rparr>"

definition demo_grant :: grant where
  "demo_grant = \<lparr>grant_id = ''g'', granted_capability = ''echo'', expires_at = isoformat 1000000000000\<rparr>"

definition demo_registered :: "(string \<Rightarrow> string) \<Rightarrow> engine" where
  "demo_registered H = snd (register H 0 demo_spec (empty_engine ''d''))"

definition demo_queued :: "(string \<Rightarrow> string) \<Rightarrow> engine" where
  "demo_queued H = snd (submit H (\<lambda>n. 0) ''j'' demo_intent demo_grant None (demo_registered H))"

definition demo_row0 :: "(string \<Rightarrow> string) \<Rightarrow> rt_job" where
  "demo_row0 H = \<lparr>job_id = ''j'', idempotency_key = ''intent:i'', job_intent_sha256 = Some (intent_sha256 H demo_intent),
     job_intent = stored_intent demo_intent, job_grant = demo_grant, capability = ''echo'', state = ''queued'',
     attempts = 0, max_attempts = 3, lease_until = None, job_result = None, evidence_path = None,
     created_at = isoformat 0, updated_at = isoformat 0\<rparr>"

definition demo_row1 :: "(string \<Rightarrow> string) \<Rightarrow> rt_job" where
  "demo_row1 H = bumped (\<lambda>n. 0) 60 (demo_row0 H)"

definition demo_row2 :: "(string \<Rightarrow> string) \<Rightarrow> rt_job" where
  "demo_row2 H = bumped (\<lambda>n. 61000000) 60 (recovered (isoformat 61000000) (demo_row1 H))"

definition demo_note :: run_note where
  "demo_note = \<lparr>note_uuid = ''r'', note_recovery = False\<rparr>"

definition demo_claimed :: "(string \<Rightarrow> string) \<Rightarrow> engine" where
  "demo_claimed H = with_jobs [demo_row2 H] (demo_queued H)"

definition demo_verified :: "(string \<Rightarrow> string) \<Rightarrow> (rat \<Rightarrow> json) \<Rightarrow> engine" where
  "demo_verified H num = snd (process H num (\<lambda>n. 61000000) demo_note False 1 (demo_row2 H) (demo_claimed H))"

lemma demo_permits: "now < 1000000000000 \<Longrightarrow> permits demo_grant ''echo'' now = Inr True"
  using fromisoformat_isoformat [of 1000000000000]
  by (simp add: permits_def demo_grant_def instant_def max_instant_def usec_per_day_def)

lemma demo_capabilities: "capabilities (demo_registered H) = [''echo'' \<mapsto> demo_spec]"
  "store (demo_registered H) = store (empty_engine ''d'')" "evidence (demo_registered H) = []"
  by (simp_all add: demo_registered_def register_def demo_spec_def empty_engine_def)

lemma demo_queued_fields: "jobs (store (demo_queued H)) = [demo_row0 H]" "capabilities (demo_queued H) = [''echo'' \<mapsto> demo_spec]"
  "run_history (store (demo_queued H)) = []"
proof -
  have i: "intent_capability demo_intent = ''echo''" "intent_id demo_intent = ''i''" by (simp_all add: demo_intent_def)
  have "\<not> blank (''intent:'' @ ''i'')" using not_blank [of "CHR ''i''" "''ntent:i''"] by (simp add: isspace_def)
  then show "jobs (store (demo_queued H)) = [demo_row0 H]" "capabilities (demo_queued H) = [''echo'' \<mapsto> demo_spec]"
    "run_history (store (demo_queued H)) = []"
    by (simp_all add: demo_queued_def submit_def i demo_permits demo_capabilities store_submit_def submit_key_def
        demo_row0_def empty_engine_def demo_spec_def)
qed

lemma demo_claim1: "claim (\<lambda>n. 0) 60 (jobs (store (demo_queued H))) = (Inr (Some (demo_row1 H)), [demo_row1 H])"
  by (simp add: demo_queued_fields claim_def recover_def lease_over_def demo_row0_def first_by_def max_instant_def
      usec_per_day_def update_where_def select_one_def demo_row1_def bumped_def)

lemma demo_claim2: "claim (\<lambda>n. 61000000) 60 [demo_row1 H] = (Inr (Some (demo_row2 H)), [demo_row2 H])"
proof -
  have "isoformat 60000000 < isoformat 61000000"
    by (subst isoformat_less) (simp_all add: instant_def max_instant_def usec_per_day_def)
  then have l: "lease_over (isoformat 61000000) (demo_row1 H)" by (simp add: lease_over_def demo_row1_def bumped_def)
  then show ?thesis
    by (simp add: claim_def recover_def recover_row_def first_by_def max_instant_def usec_per_day_def update_where_def
        select_one_def demo_row2_def recovered_def demo_row1_def demo_row0_def bumped_def)
qed

lemma demo_reach: "pipeline_reach H num ''d'' (demo_claimed H) [demo_row2 H, demo_row1 H]"
proof -
  have "pipeline_reach H num ''d'' (demo_registered H) []"
    unfolding demo_registered_def by (intro pipeline_reach.Step [OF pipeline_reach.Start] pipeline_step.Register)
  then have "pipeline_reach H num ''d'' (demo_queued H) []"
    unfolding demo_queued_def by (rule pipeline_reach.Step) (rule pipeline_step.Submit)
  from pipeline_reach.Step [OF this pipeline_step.Claim [OF demo_claim1]]
  have "pipeline_reach H num ''d'' (with_jobs [demo_row1 H] (demo_queued H)) [demo_row1 H]" .
  from pipeline_reach.Step [OF this pipeline_step.Claim [of "\<lambda>n. 61000000" 60 _ "demo_row2 H" "[demo_row2 H]"]]
  show ?thesis by (simp add: demo_claim2 demo_claimed_def)
qed

lemma demo_row_fields: "job_id (demo_row2 H) = ''j''" "capability (demo_row2 H) = ''echo''" "job_grant (demo_row2 H) = demo_grant"
  "job_intent (demo_row2 H) = stored_intent demo_intent" "max_attempts (demo_row2 H) = 3" "attempts (demo_row2 H) = 2"
  "job_id (demo_row1 H) = ''j''" "capability (demo_row1 H) = ''echo''" "job_grant (demo_row1 H) = demo_grant"
  "demo_row1 H \<noteq> demo_row2 H"
  by (simp_all add: demo_row2_def demo_row1_def demo_row0_def bumped_def recovered_def)

lemma demo_verdict: "verdict (demo_claimed H) 61000000 False 1 (demo_row2 H) = ''verified''"
  by (simp add: verdict_def demo_claimed_def demo_queued_fields demo_row_fields demo_permits execute_def demo_spec_def
      echo_verifier_def)

lemma demo_verified_reach: "pipeline_reach H num ''d'' (demo_verified H num) [demo_row1 H]"
proof -
  have "demo_row2 H \<in> set [demo_row2 H, demo_row1 H]" by simp
  from pipeline_reach.Step [OF demo_reach pipeline_step.Process [OF this]]
  show ?thesis unfolding demo_verified_def by simp
qed

lemma demo_verified_jobs: "\<exists>t res path. jobs (store (demo_verified H num)) = [finished t ''verified'' res path (demo_row2 H)]"
proof -
  have inv: "pipe_inv H (demo_claimed H) [demo_row2 H, demo_row1 H]" using pipe_reach_inv [OF demo_reach] by simp
  have row: "demo_row2 H \<in> set [demo_row2 H, demo_row1 H]" by simp
  from process_settles [OF pipe_fresh [OF inv row] pipe_live [OF inv row], where clk = "\<lambda>n. 61000000"
      and alarm = False and elapsed = 1 and nt = demo_note and num = num and H = H]
  obtain k res where "settles H demo_note (demo_row2 H) ''verified'' k res (demo_claimed H)
      (process H num (\<lambda>n. 61000000) demo_note False 1 (demo_row2 H) (demo_claimed H))"
    unfolding demo_verdict by blast
  then show ?thesis unfolding settles_def finish_map demo_verified_def [symmetric]
    by (auto simp: demo_claimed_def demo_row_fields)
qed

lemma verified_jobs_have_intact_evidence_witness:
  "\<exists>j n d. jobs (store (demo_verified id (\<lambda>x. JNull))) = [j] \<and> state j = ''verified''
     \<and> map_of (evidence (demo_verified id (\<lambda>x. JNull))) (job_id j, n, ''verified-output'') = Some (JObj d)"
proof -
  obtain t res path where js: "jobs (store (demo_verified id (\<lambda>x. JNull))) = [finished t ''verified'' res path (demo_row2 id)]"
    using demo_verified_jobs by blast
  let ?j = "finished t ''verified'' res path (demo_row2 id)"
  have j: "?j \<in> set (jobs (store (demo_verified id (\<lambda>x. JNull))))" "state ?j = ''verified''"
    by (simp_all add: js finished_def)
  from verified_jobs_have_intact_evidence [OF demo_verified_reach j] js j(2) show ?thesis by blast
qed

lemma claimed_job_is_settled_witness:
  "\<exists>e'. process id (\<lambda>x. JNull) (\<lambda>n. 61000000) demo_note False 1 (demo_row2 id) (demo_claimed id) = (Inr ''j'', e')
     \<and> map state (jobs (store e')) = [''verified'']"
proof -
  have "note_uuid demo_note \<notin> run_id ` set (run_history (store (demo_claimed id)))"
    by (simp add: demo_claimed_def demo_queued_fields)
  moreover have "demo_row2 id \<in> set [demo_row2 id, demo_row1 id]" by simp
  ultimately obtain e' f where e': "process id (\<lambda>x. JNull) (\<lambda>n. 61000000) demo_note False 1 (demo_row2 id) (demo_claimed id)
        = (Inr (job_id (demo_row2 id)), e')"
    "jobs (store e') = map (\<lambda>j. if job_id j = job_id (demo_row2 id) then f j else j) (jobs (store (demo_claimed id)))"
    "\<forall>j. same_request j (f j) \<and> attempts (f j) = attempts j \<and> state (f j) = verdict (demo_claimed id) 61000000 False 1 (demo_row2 id)"
    using claimed_job_is_settled [OF demo_reach, where row = "demo_row2 id" and nt = demo_note and alarm = False
        and elapsed = 1 and clk = "\<lambda>n. 61000000" and num = "\<lambda>x. JNull"] by blast
  moreover have "jobs (store (demo_claimed id)) = [demo_row2 id]" by (simp add: demo_claimed_def)
  ultimately show ?thesis by (simp add: demo_verdict demo_row_fields)
qed

lemma stale_worker_requeues_verified_job_witness:
  "\<exists>j. jobs (store (demo_verified id (\<lambda>x. JNull))) = [j] \<and> state j = ''verified''
     \<and> list_ex (\<lambda>k. state k = ''queued'') (jobs (store
         (snd (process id (\<lambda>x. JNull) (\<lambda>n. 61000000) demo_note True 90 (demo_row1 id) (demo_verified id (\<lambda>x. JNull))))))"
proof -
  obtain t res path where js: "jobs (store (demo_verified id (\<lambda>x. JNull))) = [finished t ''verified'' res path (demo_row2 id)]"
    using demo_verified_jobs by blast
  let ?j = "finished t ''verified'' res path (demo_row2 id)"
  have j: "?j \<in> set (jobs (store (demo_verified id (\<lambda>x. JNull))))" "job_id ?j = job_id (demo_row1 id)"
    "state ?j = ''verified''" "attempts ?j < max_attempts ?j"
    by (simp_all add: js finished_def demo_row_fields)
  have inv: "pipe_inv id (demo_claimed id) [demo_row2 id, demo_row1 id]" using pipe_reach_inv [OF demo_reach] by simp
  have "moved id (demo_row2 id) (demo_claimed id) (demo_verified id (\<lambda>x. JNull))"
    unfolding demo_verified_def by (rule process_moved [OF inv]) simp
  then have c: "capabilities (demo_verified id (\<lambda>x. JNull)) (capability (demo_row1 id)) = Some demo_spec"
    by (simp add: moved_def demo_claimed_def demo_queued_fields demo_row_fields)
  have p: "permits (job_grant (demo_row1 id)) (capability (demo_row1 id)) 61000000 = Inr True"
    by (simp add: demo_row_fields demo_permits)
  have row: "demo_row1 id \<in> set [demo_row1 id]" by simp
  have f: "execute demo_spec True 90 (intent_payload (job_intent (demo_row1 id)))
      = Inl (''TimeoutError'', ''capability exceeded '' @ fixed3 (timeout_seconds demo_spec) @ ''s bound'')"
    by (simp add: execute_def)
  from stale_worker_requeues_verified_job [OF demo_verified_reach row j c _ f, where clk = "\<lambda>n. 61000000"
      and nt = demo_note] p obtain k where "k \<in> set (jobs (store (snd (process id (\<lambda>x. JNull) (\<lambda>n. 61000000) demo_note
        True 90 (demo_row1 id) (demo_verified id (\<lambda>x. JNull))))))" "state k = ''queued''" by blast
  with js j(3) show ?thesis unfolding list_ex_iff by blast
qed

end
