(* ===== verification/Federation.thy ===== *)
theory Federation
  imports Py_Prelude
begin

text \<open>
  \<open>frost_core/federation.py\<close>: the catalog of adapters. The dictionary of descriptors is keyed by their
  own \<open>adapter_id\<close>, so it is the list of the descriptors in insertion order.
\<close>

datatype adapter_kind = CLOUD_AI | LOCAL_AI | AGENT_FRAMEWORK | PROTOCOL | MESSAGING | EXECUTION_PROVIDER
  | CONTROL_PLANE | SOFTWARE_CREATION

datatype adapter_status = NOT_CONFIGURED | DISCOVERED | HOST_VALIDATED | CONNECTED_VALIDATED | DEVICE_VALIDATED | BLOCKED

fun status_text :: "adapter_status \<Rightarrow> string" where
  "status_text NOT_CONFIGURED = ''NOT_CONFIGURED''"
| "status_text DISCOVERED = ''DISCOVERED''"
| "status_text HOST_VALIDATED = ''HOST_VALIDATED''"
| "status_text CONNECTED_VALIDATED = ''CONNECTED_VALIDATED''"
| "status_text DEVICE_VALIDATED = ''DEVICE_VALIDATED''"
| "status_text BLOCKED = ''BLOCKED''"

record descriptor =
  desc_id :: string
  desc_kind :: adapter_kind
  operations :: "string list"
  desc_status :: adapter_status
  auth_required :: bool
  local_only :: bool
  desc_notes :: "string list"

type_synonym catalog = "descriptor list"

definition set_descriptor :: "descriptor \<Rightarrow> catalog \<Rightarrow> catalog" where
  "set_descriptor d c = upsert_by desc_id (\<lambda>x. d) d c"

definition make_catalog :: "descriptor list \<Rightarrow> catalog" where
  "make_catalog ds = foldl (\<lambda>c d. set_descriptor d c) [] ds"

definition register_descriptor :: "descriptor \<Rightarrow> catalog \<Rightarrow> (unit, catalog) outcome" where
  "register_descriptor d c =
     (if blank (desc_id d) \<or> operations d = [] then (Inl (ValueError ''adapter_id and operations are required''), c)
      else (Inr (), set_descriptor d c))"

definition get_descriptor :: "string \<Rightarrow> catalog \<Rightarrow> descriptor result" where
  "get_descriptor i c = (case select_one (\<lambda>d. desc_id d = i) c of
     None \<Rightarrow> Inl (KeyError (''unknown adapter: '' @ i)) | Some d \<Rightarrow> Inr d)"

fun status_order :: "adapter_status \<Rightarrow> int" where
  "status_order NOT_CONFIGURED = 0"
| "status_order DISCOVERED = 1"
| "status_order HOST_VALIDATED = 2"
| "status_order CONNECTED_VALIDATED = 3"
| "status_order DEVICE_VALIDATED = 4"
| "status_order BLOCKED = -1"

definition discover :: "adapter_kind option \<Rightarrow> string option \<Rightarrow> adapter_status option \<Rightarrow> catalog \<Rightarrow> descriptor list" where
  "discover k opn minimum c = sort_key desc_id (filter (\<lambda>d.
     (case k of None \<Rightarrow> True | Some x \<Rightarrow> desc_kind d = x)
     \<and> (case opn of None \<Rightarrow> True | Some x \<Rightarrow> x \<in> set (operations d))
     \<and> (case minimum of None \<Rightarrow> True | Some x \<Rightarrow> status_order x \<le> status_order (desc_status d))) c)"

definition mark_status :: "string \<Rightarrow> adapter_status \<Rightarrow> catalog \<Rightarrow> (descriptor, catalog) outcome" where
  "mark_status i st c = (case get_descriptor i c of
     Inl e \<Rightarrow> (Inl e, c)
   | Inr d \<Rightarrow> (Inr (d\<lparr>desc_status := st\<rparr>), set_descriptor (d\<lparr>desc_status := st\<rparr>) c))"

definition all_descriptors :: "catalog \<Rightarrow> descriptor list" where
  "all_descriptors c = sort_key desc_id c"

definition entry :: "string \<Rightarrow> adapter_kind \<Rightarrow> string list \<Rightarrow> adapter_status \<Rightarrow> bool \<Rightarrow> string list \<Rightarrow> descriptor" where
  "entry i k ops st lo ns = \<lparr>desc_id = i, desc_kind = k, operations = ops, desc_status = st, auth_required = True,
     local_only = lo, desc_notes = ns\<rparr>"

definition default_catalog :: catalog where
  "default_catalog = make_catalog
    [
      entry ''openai'' CLOUD_AI [''model.invoke''] NOT_CONFIGURED False [],
      entry ''anthropic'' CLOUD_AI [''model.invoke''] NOT_CONFIGURED False [],
      entry ''gemini'' CLOUD_AI [''model.invoke''] NOT_CONFIGURED False [],
      entry ''xai'' CLOUD_AI [''model.invoke''] NOT_CONFIGURED False [],
      entry ''mistral'' CLOUD_AI [''model.invoke''] NOT_CONFIGURED False [],
      entry ''cohere'' CLOUD_AI [''model.invoke''] NOT_CONFIGURED False [],
      entry ''openrouter'' CLOUD_AI [''model.invoke''] NOT_CONFIGURED False [],
      entry ''llama.cpp'' LOCAL_AI [''model.invoke''] NOT_CONFIGURED True [],
      entry ''ollama'' LOCAL_AI [''model.invoke''] NOT_CONFIGURED True [],
      entry ''lm-studio'' LOCAL_AI [''model.invoke''] NOT_CONFIGURED True [],
      entry ''langgraph'' AGENT_FRAMEWORK [''agent.invoke''] NOT_CONFIGURED False [],
      entry ''crewai'' AGENT_FRAMEWORK [''agent.invoke''] NOT_CONFIGURED False [],
      entry ''autogen'' AGENT_FRAMEWORK [''agent.invoke''] NOT_CONFIGURED False [],
      entry ''google-adk'' AGENT_FRAMEWORK [''agent.invoke''] NOT_CONFIGURED False [],
      entry ''semantic-kernel'' AGENT_FRAMEWORK [''agent.invoke''] NOT_CONFIGURED False [],
      entry ''hermes'' AGENT_FRAMEWORK [''agent.invoke'', ''intent.submit''] NOT_CONFIGURED False [''adapter requests remain proposal-only until canonical authorization''],
      entry ''mcp'' PROTOCOL [''tools.list'', ''tools.call''] NOT_CONFIGURED False [],
      entry ''frost-call'' PROTOCOL [''intent.submit''] DISCOVERED False [''frost-call ingress normalizes proposals into CanonicalAdapterGateway'', ''protocol membership never grants execution authority''],
      entry ''a2a'' PROTOCOL [''agent.message''] NOT_CONFIGURED False [],
      entry ''nats'' MESSAGING [''message.publish'', ''message.consume''] NOT_CONFIGURED False [],
      entry ''mqtt'' MESSAGING [''message.publish'', ''message.consume''] NOT_CONFIGURED False [],
      entry ''zeromq'' MESSAGING [''message.publish'', ''message.consume''] NOT_CONFIGURED False [],
      entry ''matrix'' MESSAGING [''message.publish'', ''message.consume''] NOT_CONFIGURED False [],
      entry ''websocket'' MESSAGING [''message.publish'', ''message.consume''] NOT_CONFIGURED False [],
      entry ''discord'' CONTROL_PLANE [''message.publish'', ''message.consume'', ''intent.submit''] NOT_CONFIGURED False [''Discord transport does not grant execution authority''],
      entry ''github-actions'' EXECUTION_PROVIDER [''frost.call'', ''github.runtime.qualification_marker.put''] CONNECTED_VALIDATED False [''github.runtime.qualification_marker.put is connected-validated through frost-effect/1.0'', ''no caller-supplied repository path, shell command, or network target is authorized'', ''generic Capability Factory PROMOTED is not asserted by this catalog status''],
      entry ''termux-local'' EXECUTION_PROVIDER [''frost.call''] HOST_VALIDATED True [''physical Android validation remains separate''],
      entry ''vercel'' EXECUTION_PROVIDER [''http.invoke'', ''mcp.call''] NOT_CONFIGURED False [],
      entry ''base44'' CONTROL_PLANE [''state.mirror'', ''job.rendezvous'', ''intent.submit''] NOT_CONFIGURED False [''control-plane mirror is not canonical state or authorization''],
      entry ''aaard'' CONTROL_PLANE [''intent.submit'', ''state.mirror''] NOT_CONFIGURED False [''legacy/domain requests normalize into canonical event state''],
      entry ''fras'' CONTROL_PLANE [''intent.submit'', ''research.claim.submit''] NOT_CONFIGURED False [''scientific task submission is not scientific validation''],
      entry ''v0'' SOFTWARE_CREATION [''v0.chat.*'', ''v0.sync.prepare_pr''] NOT_CONFIGURED False []
    ]"

end
