(* ===== verification/Adapter_Gateway.thy ===== *)
theory Adapter_Gateway
  imports Federation Event_State
begin

text \<open>
  \<open>centinal26/adapter_gateway.py\<close>: requests of external adapters become a source and a task of the event
  log. The store of the gateway is the event log, so a call maps its rows; each \<open>append\<close> commits, so a
  call that raises may have appended. \<open>H\<close> is SHA-256, \<open>uuid i\<close> and \<open>now i\<close> the identifier and the clock of
  the \<open>i\<close>-th append.
\<close>

section \<open>Requests\<close>

record adapter_request =
  adapter_id :: string
  external_id :: string
  capability :: string
  req_payload :: json
  constraints :: json
  objective :: "string option"
  actor :: "string option"

record ingest_result =
  res_adapter :: string
  res_external :: string
  request_id :: string
  task_id :: string
  request_sha256 :: string
  duplicate :: bool
  events_appended :: int

definition canonical_adapter_ids :: "string list" where
  "canonical_adapter_ids = [''aaard'', ''base44'', ''discord'', ''fras'', ''frost-call'', ''hermes'']"

definition clean :: "string \<Rightarrow> string \<Rightarrow> string result" where
  "clean v name = (if strip v = [] then Inl (ValueError (name @ '' must not be empty'')) else Inr (strip v))"

text \<open>\<open>[A-Za-z0-9_.-]\<close>\<close>

definition safe_char :: "char \<Rightarrow> bool" where
  "safe_char c \<longleftrightarrow> (let n = (of_char c :: nat)
     in 65 \<le> n \<and> n \<le> 90 \<or> 97 \<le> n \<and> n \<le> 122 \<or> 48 \<le> n \<and> n \<le> 57 \<or> n \<in> {95, 46, 45})"

text \<open>\<open>_SAFE_TOKEN.sub("-", value)\<close>: every longest run of other characters becomes one dash.\<close>

function sub_unsafe :: "string \<Rightarrow> string" where
  "sub_unsafe [] = []"
| "sub_unsafe (c # cs) = (if safe_char c then c # sub_unsafe cs
     else CHR ''-'' # sub_unsafe (dropWhile (\<lambda>x. \<not> safe_char x) cs))"
  by pat_completeness auto
termination
  by (relation "measure length") (simp_all add: le_imp_less_Suc length_dropWhile_le)

definition strip_dashes :: "string \<Rightarrow> string" where
  "strip_dashes s = rev (dropWhile (\<lambda>c. c = CHR ''-'') (rev (dropWhile (\<lambda>c. c = CHR ''-'') s)))"

definition safe_token :: "string \<Rightarrow> string" where
  "safe_token v = (let t = take 48 (strip_dashes (sub_unsafe (strip v))) in if t = [] then ''adapter'' else t)"

definition optional_text :: "string \<Rightarrow> string option \<Rightarrow> string option result" where
  "optional_text name v = (case v of None \<Rightarrow> Inr None
     | Some s \<Rightarrow> if strip s = [] then Inl (ValueError (name @ '' must not be empty when provided'')) else Inr (Some (strip s)))"

record request_body =
  body_adapter :: string
  body_external :: string
  body_capability :: string
  body_payload :: json
  body_constraints :: json
  body_objective :: "string option"
  body_actor :: "string option"

definition request_body :: "adapter_request \<Rightarrow> request_body result" where
  "request_body r =
     (case clean (adapter_id r) ''adapter_id'' of Inl e \<Rightarrow> Inl e | Inr a \<Rightarrow>
      (case clean (external_id r) ''external_id'' of Inl e \<Rightarrow> Inl e | Inr x \<Rightarrow>
       (case clean (capability r) ''capability'' of Inl e \<Rightarrow> Inl e | Inr c \<Rightarrow>
        (if \<not> is_obj (req_payload r) then Inl (TypeError ''payload must be a JSON object'')
         else if \<not> is_obj (constraints r) then Inl (TypeError ''constraints must be a JSON object'')
         else
          (case optional_text ''objective'' (objective r) of Inl e \<Rightarrow> Inl e | Inr ob \<Rightarrow>
           (case optional_text ''actor'' (actor r) of Inl e \<Rightarrow> Inl e | Inr ac \<Rightarrow>
             Inr \<lparr>body_adapter = a, body_external = x, body_capability = c, body_payload = sort_keys (req_payload r),
                  body_constraints = sort_keys (constraints r), body_objective = ob, body_actor = ac\<rparr>))))))"

definition body_json :: "request_body \<Rightarrow> json" where
  "body_json b = sort_keys (JObj
     [(''adapter_id'', JStr (body_adapter b)), (''external_id'', JStr (body_external b)),
      (''capability'', JStr (body_capability b)), (''payload'', body_payload b), (''constraints'', body_constraints b),
      (''objective'', opt_str (body_objective b)), (''actor'', opt_str (body_actor b))])"

definition body_sha256 :: "(string \<Rightarrow> string) \<Rightarrow> request_body \<Rightarrow> string" where
  "body_sha256 H b = canonical_sha256 H (body_json b)"

definition stable_suffix :: "(string \<Rightarrow> string) \<Rightarrow> string \<Rightarrow> string \<Rightarrow> string" where
  "stable_suffix H a x = take 24 (H (a @ [CHR 0x00] @ x))"

definition request_id_of :: "(string \<Rightarrow> string) \<Rightarrow> request_body \<Rightarrow> string" where
  "request_id_of H b = ''adapter-request:'' @ safe_token (body_adapter b) @ '':'' @ stable_suffix H (body_adapter b) (body_external b)"

definition task_id_of :: "(string \<Rightarrow> string) \<Rightarrow> request_body \<Rightarrow> string" where
  "task_id_of H b = ''task:adapter:'' @ safe_token (body_adapter b) @ '':'' @ stable_suffix H (body_adapter b) (body_external b)"

section \<open>Ingestion\<close>

definition admit :: "catalog \<Rightarrow> request_body \<Rightarrow> descriptor result" where
  "admit cat b =
     (if body_adapter b \<notin> set canonical_adapter_ids
      then Inl (ValueError (''unsupported canonical adapter: '' @ body_adapter b))
      else case get_descriptor (body_adapter b) cat of
        Inl e \<Rightarrow> Inl e
      | Inr d \<Rightarrow>
          if desc_status d = BLOCKED then Inl (PermissionError (''adapter is blocked: '' @ body_adapter b))
          else if ''intent.submit'' \<notin> set (operations d)
          then Inl (ValueError (''adapter is not registered for intent.submit: '' @ body_adapter b))
          else Inr d)"

definition source_payload :: "(string \<Rightarrow> string) \<Rightarrow> descriptor \<Rightarrow> request_body \<Rightarrow> json_object" where
  "source_payload H d b =
     [(''source_id'', JStr (request_id_of H b)), (''kind'', JStr ''adapter-request''),
      (''adapter_id'', JStr (body_adapter b)), (''external_id'', JStr (body_external b)),
      (''request_sha256'', JStr (body_sha256 H b)), (''capability'', JStr (body_capability b)),
      (''catalog_status'', JStr (status_text (desc_status d))), (''authority'', JStr ''proposal_only''),
      (''request'', body_json b)]"

definition task_payload :: "(string \<Rightarrow> string) \<Rightarrow> request_body \<Rightarrow> json_object" where
  "task_payload H b =
     [(''task_id'', JStr (task_id_of H b)), (''source_id'', JStr (request_id_of H b)),
      (''objective'', JStr (case body_objective b of Some ob \<Rightarrow> ob
          | None \<Rightarrow> body_adapter b @ '' request for '' @ body_capability b)),
      (''capability'', JStr (body_capability b)), (''input'', body_payload b), (''constraints'', body_constraints b),
      (''adapter_id'', JStr (body_adapter b)), (''external_id'', JStr (body_external b)),
      (''request_sha256'', JStr (body_sha256 H b)),
      (''actor'', JStr (case body_actor b of Some a \<Rightarrow> a | None \<Rightarrow> ''adapter:'' @ body_adapter b)),
      (''authority'', JStr ''authorization_required'')]"

definition identity_conflict :: "request_body \<Rightarrow> string \<Rightarrow> py_error" where
  "identity_conflict b m = AdapterRequestConflict (body_adapter b @ '':'' @ body_external b @ m)"

text \<open>The first half: the source of the request is in the log.\<close>

definition ensure_source :: "(string \<Rightarrow> string) \<Rightarrow> (nat \<Rightarrow> string) \<Rightarrow> (nat \<Rightarrow> string) \<Rightarrow> descriptor \<Rightarrow> request_body \<Rightarrow>
    event_row list \<Rightarrow> (unit, event_row list) outcome" where
  "ensure_source H uuid now d b rows =
     (case replay rows of
        Inl e \<Rightarrow> (Inl e, rows)
      | Inr s \<Rightarrow>
          (case map_of (sources s) (request_id_of H b) of
             Some src \<Rightarrow>
               if get src ''request_sha256'' \<noteq> Some (JStr (body_sha256 H b))
               then (Inl (identity_conflict b '' already exists with different content''), rows)
               else (Inr (), rows)
           | None \<Rightarrow>
               (case append_event H (uuid 0) (now 0) ''SOURCE_INGESTED'' (Some (JObj (source_payload H d b)))
                       (Some (request_id_of H b)) None None rows of
                  (Inl e, rows') \<Rightarrow> (Inl e, rows')
                | (Inr _, rows') \<Rightarrow> (Inr (), rows'))))"

text \<open>The second half: its task is.\<close>

definition ensure_task :: "(string \<Rightarrow> string) \<Rightarrow> (nat \<Rightarrow> string) \<Rightarrow> (nat \<Rightarrow> string) \<Rightarrow> request_body \<Rightarrow>
    event_row list \<Rightarrow> (unit, event_row list) outcome" where
  "ensure_task H uuid now b rows =
     (case replay rows of
        Inl e \<Rightarrow> (Inl e, rows)
      | Inr s \<Rightarrow>
          (case map_of (tasks s) (task_id_of H b) of
             Some t \<Rightarrow>
               if get t ''request_sha256'' \<noteq> Some (JStr (body_sha256 H b))
                  \<or> get t ''source_id'' \<noteq> Some (JStr (request_id_of H b))
               then (Inl (identity_conflict b '' task identity conflicts with canonical state''), rows)
               else (Inr (), rows)
           | None \<Rightarrow>
               (case append_event H (uuid 1) (now 1) ''TASK_CREATED'' (Some (JObj (task_payload H b)))
                       (Some (task_id_of H b)) None None rows of
                  (Inl e, rows') \<Rightarrow> (Inl e, rows')
                | (Inr _, rows') \<Rightarrow> (Inr (), rows'))))"

definition settled_or_busy :: "string list" where
  "settled_or_busy = [''AUTHORIZED'', ''RUNNING'', ''EXECUTED'', ''VERIFIED'', ''COMPLETE'', ''FAILED'', ''VERIFICATION_FAILED'']"

definition check_ready :: "string \<Rightarrow> event_row list \<Rightarrow> unit result" where
  "check_ready tid rows =
     (case replay rows of
        Inl e \<Rightarrow> Inl e
      | Inr s \<Rightarrow>
          if tid \<in> set (derive_ready_tasks s) then Inr ()
          else (case map_of (tasks s) tid of
            None \<Rightarrow> Inl (KeyError tid)
          | Some t \<Rightarrow> if has_status t settled_or_busy then Inr ()
              else Inl (RuntimeError (''canonicalized adapter task is unexpectedly not ready: '' @ tid))))"

definition ingest :: "(string \<Rightarrow> string) \<Rightarrow> (nat \<Rightarrow> string) \<Rightarrow> (nat \<Rightarrow> string) \<Rightarrow> catalog \<Rightarrow> adapter_request \<Rightarrow>
    event_row list \<Rightarrow> (ingest_result, event_row list) outcome" where
  "ingest H uuid now cat r rows =
     (if \<not> verify_chain H rows
      then (Inl (ValueError ''refusing adapter ingestion because the event chain is invalid''), rows)
      else case request_body r of
        Inl e \<Rightarrow> (Inl e, rows)
      | Inr b \<Rightarrow>
          (case admit cat b of
             Inl e \<Rightarrow> (Inl e, rows)
           | Inr d \<Rightarrow>
               (case ensure_source H uuid now d b rows of
                  (Inl e, rows1) \<Rightarrow> (Inl e, rows1)
                | (Inr _, rows1) \<Rightarrow>
                    (case ensure_task H uuid now b rows1 of
                       (Inl e, rows2) \<Rightarrow> (Inl e, rows2)
                     | (Inr _, rows2) \<Rightarrow>
                         (case check_ready (task_id_of H b) rows2 of
                            Inl e \<Rightarrow> (Inl e, rows2)
                          | Inr _ \<Rightarrow>
                              (Inr \<lparr>res_adapter = body_adapter b, res_external = body_external b,
                                 request_id = request_id_of H b, task_id = task_id_of H b,
                                 request_sha256 = body_sha256 H b, duplicate = (length rows2 = length rows),
                                 events_appended = int (length rows2) - int (length rows)\<rparr>, rows2))))))"

end
