(* ===== verification/Adapter_Gateway_Claims.thy ===== *)
theory Adapter_Gateway_Claims
  imports Adapter_Gateway Event_State_Claims Json_Facts
begin

text \<open>
  The gateway on its log: a request keeps its identity for ever, an interrupted ingestion is completed by
  the next one, and ingestion only proposes.
\<close>

section \<open>The log grows by one event\<close>

declare map_of_set_key [simp]

text \<open>What an append of a known type does.\<close>

lemma append_event_row:
  assumes inv: "log_inv H rows" and ty: "ty \<in> set event_types" and p: "distinct (map fst p)"
  shows "append_event H uuid now ty (Some (JObj p)) (Some i) None None rows = (Inl IntegrityError, rows)
    \<or> (\<exists>row. append_event H uuid now ty (Some (JObj p)) (Some i) None None rows = (Inr (row_event row), rows @ [row])
        \<and> log_inv H (rows @ [row]) \<and> type_of (row_event row) = ty \<and> entity_id (row_event row) = Some i
        \<and> (\<forall>k. get (payload (row_event row)) k = map_option sort_keys (get p k)))"
proof -
  define e where "e = \<lparr>seq = int (length rows) + 1, event_id = uuid, ts = now, type_of = ty, entity_id = Some i,
    payload = sort_key fst (map (map_prod id sort_keys) p),
    prev_hash = (if rows = [] then genesis else event_hash (row_event (last rows))), event_hash = []\<rparr>"
  let ?row = "\<lparr>row_event = e\<lparr>event_hash := H (event_text e)\<rparr>, row_payload = JObj (payload e), schema_version = 1\<rparr>"
  have r: "append_event H uuid now ty (Some (JObj p)) (Some i) None None rows
      = (if \<exists>r\<in>set rows. event_id (row_event r) = uuid \<or> event_hash (row_event r) = H (event_text e)
         then (Inl IntegrityError, rows) else (Inr (row_event ?row), rows @ [?row]))"
    using ty by (simp add: append_event_def Let_def e_def canonical_sha256_def event_text_def or_else_def)
  show ?thesis
  proof (cases "\<exists>r\<in>set rows. event_id (row_event r) = uuid \<or> event_hash (row_event r) = H (event_text e)")
    case False
    have "log_inv H (rows @ [?row])"
      by (rule append_snoc [OF inv ty, where e = e]) (use False in \<open>auto simp: e_def\<close>)
    moreover have "get (payload (row_event ?row)) k = map_option sort_keys (get p k)" for k
      using sorted_get [OF p] by (simp add: e_def)
    moreover have "type_of (row_event ?row) = ty" "entity_id (row_event ?row) = Some i" by (simp_all add: e_def)
    ultimately show ?thesis using r False by auto
  qed (use r in simp)
qed

section \<open>The invariant\<close>

definition gw_task :: "project_state \<Rightarrow> json_object \<Rightarrow> bool" where
  "gw_task s t \<longleftrightarrow> (\<exists>rid sha src. get t ''source_id'' = Some (JStr rid) \<and> get t ''request_sha256'' = Some (JStr sha)
       \<and> map_of (sources s) rid = Some src \<and> get src ''request_sha256'' = Some (JStr sha))
     \<and> dependencies_of t = [] \<and> has_status t task_states"

definition gw_ok :: "project_state \<Rightarrow> bool" where
  "gw_ok s \<longleftrightarrow> (\<forall>i t. map_of (tasks s) i = Some t \<longrightarrow> i \<noteq> [] \<and> gw_task s t)"

definition gw_inv :: "(string \<Rightarrow> string) \<Rightarrow> event_row list \<Rightarrow> bool" where
  "gw_inv H rows \<longleftrightarrow> log_inv H rows \<and> (\<exists>s. replay rows = Inr s \<and> gw_ok s)"

definition kept :: "project_state \<Rightarrow> project_state \<Rightarrow> bool" where
  "kept s s' \<longleftrightarrow> (\<forall>i src. map_of (sources s) i = Some src \<longrightarrow> map_of (sources s') i = Some src)
     \<and> (\<forall>i t. map_of (tasks s) i = Some t \<longrightarrow> (\<exists>t'. map_of (tasks s') i = Some t'
          \<and> get t' ''source_id'' = get t ''source_id'' \<and> get t' ''request_sha256'' = get t ''request_sha256''))"

fun kept_result :: "project_state result \<Rightarrow> project_state result \<Rightarrow> bool" where
  "kept_result (Inl _) _ = True"
| "kept_result (Inr s) (Inr s') = kept s s'"
| "kept_result (Inr _) (Inl _) = False"

definition gw_older :: "event_row list \<Rightarrow> event_row list \<Rightarrow> bool" where
  "gw_older rows rows' \<longleftrightarrow> prefix rows rows' \<and> kept_result (replay rows) (replay rows')"

lemma kept_refl [simp]: "kept s s"
  by (simp add: kept_def)

lemma kept_taskD:
  assumes "kept s s'" "map_of (tasks s) i = Some t"
  obtains t' where "map_of (tasks s') i = Some t'" "get t' ''source_id'' = get t ''source_id''"
    "get t' ''request_sha256'' = get t ''request_sha256''"
  using assms unfolding kept_def by blast

lemma kept_sourceD: "kept s s' \<Longrightarrow> map_of (sources s) i = Some src \<Longrightarrow> map_of (sources s') i = Some src"
  unfolding kept_def by blast

lemma kept_trans:
  assumes ab: "kept a b" and bc: "kept b c"
  shows "kept a c"
  unfolding kept_def
proof (intro conjI allI impI)
  fix i t assume "map_of (tasks a) i = Some t"
  then obtain t' where t': "map_of (tasks b) i = Some t'" "get t' ''source_id'' = get t ''source_id''"
    "get t' ''request_sha256'' = get t ''request_sha256''" by (rule kept_taskD [OF ab])
  from bc t'(1) obtain u where "map_of (tasks c) i = Some u" "get u ''source_id'' = get t' ''source_id''"
    "get u ''request_sha256'' = get t' ''request_sha256''" by (rule kept_taskD)
  with t' show "\<exists>u. map_of (tasks c) i = Some u \<and> get u ''source_id'' = get t ''source_id''
      \<and> get u ''request_sha256'' = get t ''request_sha256''" by simp
next
  fix i src assume "map_of (sources a) i = Some src"
  then show "map_of (sources c) i = Some src" using kept_sourceD ab bc by blast
qed

lemma kept_result_trans: "kept_result a b \<Longrightarrow> kept_result b c \<Longrightarrow> kept_result a c"
  by (cases a; cases b; cases c) (auto intro: kept_trans)

lemma kept_stamp [simp]: "kept s (stamp n h s') \<longleftrightarrow> kept s s'"
  by (simp add: kept_def)

lemma gw_stamp [simp]: "gw_ok (stamp n h s) \<longleftrightarrow> gw_ok s"
  by (simp add: gw_ok_def gw_task_def)

lemma gw_older_refl [simp]: "gw_older rows rows"
  unfolding gw_older_def by (cases "replay rows") simp_all

lemma gw_older_trans: "gw_older a b \<Longrightarrow> gw_older b c \<Longrightarrow> gw_older a c"
  unfolding gw_older_def using kept_result_trans prefix_order.trans by blast

text \<open>One more event that keeps the reduced state in order.\<close>

lemma gw_snoc:
  assumes "log_inv H rows" "log_inv H (rows @ [row])" "replay rows = Inr s" "apply_event s (row_event row) = Inr s1"
    "gw_ok s1" "kept s s1"
  shows "gw_inv H (rows @ [row]) \<and> gw_older rows (rows @ [row])
    \<and> (\<exists>n h. replay (rows @ [row]) = Inr (stamp n h s1))"
proof -
  obtain n h where "replay (rows @ [row]) = Inr (stamp n h s1)" using replay_snoc [OF assms(2,1,3)] assms(4) by simp
  then show ?thesis using assms unfolding gw_inv_def gw_older_def by simp blast
qed

section \<open>Sources and tasks\<close>

lemma apply_source:
  "type_of e = ''SOURCE_INGESTED'' \<Longrightarrow> entity_id e = Some i \<Longrightarrow> i \<noteq> [] \<Longrightarrow>
     apply_event s e = Inr (s\<lparr>sources := set_key i (payload e) (sources s)\<rparr>)"
  by (simp add: apply_event_def with_entity_def entity_of_def)

lemma apply_task:
  "type_of e = ''TASK_CREATED'' \<Longrightarrow> entity_id e = Some i \<Longrightarrow> i \<noteq> [] \<Longrightarrow> map_of (tasks s) i = None \<Longrightarrow>
     apply_event s e = Inr (s\<lparr>tasks := set_key i
       (put ''dependencies'' (JArr []) (put ''status'' (JStr ''DISCOVERED'') (payload e))) (tasks s)\<rparr>)"
  by (simp add: apply_event_def with_entity_def entity_of_def)

lemma status_types: "map_of task_event_status ty = Some st \<Longrightarrow>
    ty \<in> set event_types \<and> ty \<notin> {''SOURCE_INGESTED'', ''GOAL_DISCOVERED'', ''TASK_CREATED'', ''DEPENDENCY_ADDED''} \<and> st \<in> set task_states"
  by (auto simp: task_event_status_def event_types_def task_states_def split: if_splits)

lemma apply_status:
  assumes "map_of task_event_status (type_of e) = Some st" "entity_id e = Some i" "i \<noteq> []" "map_of (tasks s) i = Some t"
  shows "\<exists>t'. apply_event s e = Inr (s\<lparr>tasks := set_key i t' (tasks s)\<rparr>) \<and> has_status t' [st]
    \<and> (\<forall>k. k \<notin> {''status'', ''last_event''} \<longrightarrow> get t' k = get t k)"
proof -
  have "type_of e \<notin> {''SOURCE_INGESTED'', ''GOAL_DISCOVERED'', ''TASK_CREATED'', ''DEPENDENCY_ADDED''}"
    using status_types [OF assms(1)] by blast
  then have "apply_event s e = Inr (s\<lparr>tasks := set_key i
      (if payload e \<noteq> [] then put ''last_event'' (JObj (payload e)) (put ''status'' (JStr st) t) else put ''status'' (JStr st) t)
      (tasks s)\<rparr>)"
    using assms by (simp add: apply_event_def with_entity_def entity_of_def Let_def)
  then show ?thesis by (auto simp: has_status_def)
qed

lemma ids_ne [simp]: "request_id_of H b \<noteq> []" "task_id_of H b \<noteq> []"
  by (simp_all add: request_id_of_def task_id_of_def)

text \<open>The source of the body is in the state.\<close>

definition has_source :: "(string \<Rightarrow> string) \<Rightarrow> request_body \<Rightarrow> project_state \<Rightarrow> bool" where
  "has_source H b s \<longleftrightarrow> (\<exists>src. map_of (sources s) (request_id_of H b) = Some src
     \<and> get src ''request_sha256'' = Some (JStr (body_sha256 H b)))"

definition has_task :: "(string \<Rightarrow> string) \<Rightarrow> request_body \<Rightarrow> project_state \<Rightarrow> bool" where
  "has_task H b s \<longleftrightarrow> (\<exists>t. map_of (tasks s) (task_id_of H b) = Some t
     \<and> get t ''request_sha256'' = Some (JStr (body_sha256 H b)) \<and> get t ''source_id'' = Some (JStr (request_id_of H b)))"

lemma kept_source: "kept s s' \<Longrightarrow> has_source H b s \<Longrightarrow> has_source H b s'"
  unfolding kept_def has_source_def by blast

lemma kept_task: "kept s s' \<Longrightarrow> has_task H b s \<Longrightarrow> has_task H b s'"
  unfolding kept_def has_task_def by fastforce

lemma ensure_source_cases:
  assumes inv: "gw_inv H rows" and s: "replay rows = Inr s"
  shows "(\<exists>src. map_of (sources s) (request_id_of H b) = Some src
       \<and> ensure_source H uuid now d b rows = ((if get src ''request_sha256'' = Some (JStr (body_sha256 H b)) then Inr ()
            else Inl (identity_conflict b '' already exists with different content'')), rows))
    \<or> ensure_source H uuid now d b rows = (Inl IntegrityError, rows)
    \<or> (\<exists>row s'. map_of (sources s) (request_id_of H b) = None \<and> ensure_source H uuid now d b rows = (Inr (), rows @ [row])
         \<and> type_of (row_event row) = ''SOURCE_INGESTED'' \<and> gw_inv H (rows @ [row]) \<and> gw_older rows (rows @ [row])
         \<and> replay (rows @ [row]) = Inr s' \<and> has_source H b s' \<and> tasks s' = tasks s)"
proof (cases "map_of (sources s) (request_id_of H b)")
  case (Some src)
  then show ?thesis using s by (simp add: ensure_source_def)
next
  case None
  have log: "log_inv H rows" and ok: "gw_ok s" using inv s by (auto simp: gw_inv_def)
  let ?p = "source_payload H d b"
  have "distinct (map fst ?p)" by (simp add: source_payload_def)
  moreover have ty: "''SOURCE_INGESTED'' \<in> set event_types" by (simp add: event_types_def)
  ultimately consider "append_event H (uuid 0) (now 0) ''SOURCE_INGESTED'' (Some (JObj ?p)) (Some (request_id_of H b)) None None rows
        = (Inl IntegrityError, rows)"
    | row where "append_event H (uuid 0) (now 0) ''SOURCE_INGESTED'' (Some (JObj ?p)) (Some (request_id_of H b)) None None rows
        = (Inr (row_event row), rows @ [row])"
      "log_inv H (rows @ [row])" "type_of (row_event row) = ''SOURCE_INGESTED''" "entity_id (row_event row) = Some (request_id_of H b)"
      "\<forall>k. get (payload (row_event row)) k = map_option sort_keys (get ?p k)"
    using append_event_row [OF log] by blast
  then show ?thesis
  proof cases
    case 1
    then show ?thesis using s None by (simp add: ensure_source_def)
  next
    case (2 row)
    let ?s1 = "s\<lparr>sources := set_key (request_id_of H b) (payload (row_event row)) (sources s)\<rparr>"
    have a: "apply_event s (row_event row) = Inr ?s1" by (rule apply_source [OF 2(3,4)]) simp
    have k: "kept s ?s1" using None by (auto simp: kept_def)
    have "gw_task ?s1 t" if "gw_task s t" for t
    proof -
      obtain rid sha src where g: "get t ''source_id'' = Some (JStr rid)" "get t ''request_sha256'' = Some (JStr sha)"
        "map_of (sources s) rid = Some src" "get src ''request_sha256'' = Some (JStr sha)"
        using \<open>gw_task s t\<close> unfolding gw_task_def by blast
      then have "rid \<noteq> request_id_of H b" using None by auto
      then have "map_of (sources ?s1) rid = Some src" using g(3) by simp
      then show ?thesis using \<open>gw_task s t\<close> g unfolding gw_task_def by blast
    qed
    then have ok1: "gw_ok ?s1" using ok by (simp add: gw_ok_def)
    from gw_snoc [OF log 2(2) s a ok1 k] obtain n h where g: "gw_inv H (rows @ [row])" "gw_older rows (rows @ [row])"
      "replay (rows @ [row]) = Inr (stamp n h ?s1)" by blast
    have "get ?p ''request_sha256'' = Some (JStr (body_sha256 H b))" by (simp add: source_payload_def get_def)
    then have "has_source H b (stamp n h ?s1)" using 2(5) by (simp add: has_source_def)
    then show ?thesis using g 2 s None by (auto simp: ensure_source_def)
  qed
qed

lemma ensure_task_cases:
  assumes inv: "gw_inv H rows" and s: "replay rows = Inr s" and src: "has_source H b s"
  shows "(\<exists>t. map_of (tasks s) (task_id_of H b) = Some t
       \<and> ensure_task H uuid now b rows = ((if get t ''request_sha256'' = Some (JStr (body_sha256 H b))
              \<and> get t ''source_id'' = Some (JStr (request_id_of H b)) then Inr ()
            else Inl (identity_conflict b '' task identity conflicts with canonical state'')), rows))
    \<or> ensure_task H uuid now b rows = (Inl IntegrityError, rows)
    \<or> (\<exists>row s' t. map_of (tasks s) (task_id_of H b) = None \<and> ensure_task H uuid now b rows = (Inr (), rows @ [row])
         \<and> type_of (row_event row) = ''TASK_CREATED'' \<and> gw_inv H (rows @ [row]) \<and> gw_older rows (rows @ [row])
         \<and> replay (rows @ [row]) = Inr s' \<and> has_task H b s' \<and> has_source H b s'
         \<and> tasks s' = set_key (task_id_of H b) t (tasks s) \<and> has_status t [''DISCOVERED'']
         \<and> get t ''authority'' = Some (JStr ''authorization_required''))"
proof (cases "map_of (tasks s) (task_id_of H b)")
  case (Some t)
  then show ?thesis using s by (auto simp: ensure_task_def)
next
  case None
  have log: "log_inv H rows" and ok: "gw_ok s" using inv s by (auto simp: gw_inv_def)
  let ?p = "task_payload H b"
  have "distinct (map fst ?p)" by (simp add: task_payload_def)
  moreover have ty: "''TASK_CREATED'' \<in> set event_types" by (simp add: event_types_def)
  ultimately consider "append_event H (uuid 1) (now 1) ''TASK_CREATED'' (Some (JObj ?p)) (Some (task_id_of H b)) None None rows
        = (Inl IntegrityError, rows)"
    | row where "append_event H (uuid 1) (now 1) ''TASK_CREATED'' (Some (JObj ?p)) (Some (task_id_of H b)) None None rows
        = (Inr (row_event row), rows @ [row])"
      "log_inv H (rows @ [row])" "type_of (row_event row) = ''TASK_CREATED''" "entity_id (row_event row) = Some (task_id_of H b)"
      "\<forall>k. get (payload (row_event row)) k = map_option sort_keys (get ?p k)"
    using append_event_row [OF log] by blast
  then show ?thesis
  proof cases
    case 1
    then show ?thesis using s None by (simp add: ensure_task_def)
  next
    case (2 row)
    let ?t = "put ''dependencies'' (JArr []) (put ''status'' (JStr ''DISCOVERED'') (payload (row_event row)))"
    let ?s1 = "s\<lparr>tasks := set_key (task_id_of H b) ?t (tasks s)\<rparr>"
    have a: "apply_event s (row_event row) = Inr ?s1" by (rule apply_task [OF 2(3,4) _ None]) simp
    have k: "kept s ?s1" using None by (auto simp: kept_def)
    have "get ?p ''request_sha256'' = Some (JStr (body_sha256 H b))" "get ?p ''source_id'' = Some (JStr (request_id_of H b))"
      "get ?p ''authority'' = Some (JStr ''authorization_required'')"
      by (simp_all add: task_payload_def get_def)
    then have t: "get ?t ''request_sha256'' = Some (JStr (body_sha256 H b))" "get ?t ''source_id'' = Some (JStr (request_id_of H b))"
      "get ?t ''authority'' = Some (JStr ''authorization_required'')" "has_status ?t [''DISCOVERED'']" "dependencies_of ?t = []"
      using 2(5) by (simp_all add: has_status_def dependencies_of_def)
    have "gw_task ?s1 ?t" using t src by (auto simp: gw_task_def has_source_def has_status_def task_states_def)
    moreover have "gw_task ?s1 u" if "gw_task s u" for u using that by (simp add: gw_task_def)
    ultimately have ok1: "gw_ok ?s1" using ok by (simp add: gw_ok_def)
    from gw_snoc [OF log 2(2) s a ok1 k] obtain n h where g: "gw_inv H (rows @ [row])" "gw_older rows (rows @ [row])"
      "replay (rows @ [row]) = Inr (stamp n h ?s1)" by blast
    have "has_task H b (stamp n h ?s1)" using t(1,2) by (simp add: has_task_def)
    moreover have "has_source H b (stamp n h ?s1)" using src by (simp add: has_source_def)
    moreover have "ensure_task H uuid now b rows = (Inr (), rows @ [row])" using 2(1) s None by (simp add: ensure_task_def)
    moreover have "tasks (stamp n h ?s1) = set_key (task_id_of H b) ?t (tasks s)" by simp
    ultimately show ?thesis using g 2(3) None t(3,4) by blast
  qed
qed

section \<open>Readiness\<close>

text \<open>A task of the gateway has no dependencies, so it is always ready, busy or settled.\<close>

lemma check_ready_ok:
  assumes "gw_ok s" "replay rows = Inr s" "map_of (tasks s) i = Some t"
  shows "check_ready i rows = Inr ()"
proof -
  have d: "dependencies_of t = []" using assms(1,3) by (simp add: gw_ok_def gw_task_def)
  have e: "has_status t busy_states = has_status t settled_or_busy"
    by (auto simp: has_status_def busy_states_def terminal_task_states_def settled_or_busy_def split: option.split json.split)
  have "i \<in> set (derive_ready_tasks s)" if "\<not> has_status t busy_states"
    using that d map_of_SomeD [OF assms(3)] by (force simp: derive_ready_tasks_def is_ready_def)
  then show ?thesis using assms(2,3) e by (auto simp: check_ready_def)
qed

section \<open>The operations\<close>

text \<open>What the second half does to a log that has the source.\<close>

definition proposes :: "(string \<Rightarrow> string) \<Rightarrow> request_body \<Rightarrow> event_row list \<Rightarrow> event_row list \<Rightarrow> bool" where
  "proposes H b rows rows' \<longleftrightarrow> (\<exists>new s s'. rows' = rows @ new
     \<and> map (\<lambda>r. type_of (row_event r)) new \<in> {[], [''SOURCE_INGESTED''], [''TASK_CREATED''], [''SOURCE_INGESTED'', ''TASK_CREATED'']}
     \<and> replay rows = Inr s \<and> replay rows' = Inr s'
     \<and> (tasks s' = tasks s \<or> (\<exists>t. map_of (tasks s) (task_id_of H b) = None \<and> tasks s' = set_key (task_id_of H b) t (tasks s)
          \<and> has_status t [''DISCOVERED''] \<and> get t ''authority'' = Some (JStr ''authorization_required''))))"

definition accepted :: "(string \<Rightarrow> string) \<Rightarrow> request_body \<Rightarrow> event_row list \<Rightarrow> bool" where
  "accepted H b rows \<longleftrightarrow> (\<exists>s. replay rows = Inr s \<and> has_source H b s \<and> has_task H b s)"

lemma proposes_refl: "gw_inv H rows \<Longrightarrow> proposes H b rows rows"
  by (auto simp: gw_inv_def proposes_def)

lemma ensure_source_step:
  assumes inv: "gw_inv H rows" and r: "ensure_source H uuid now d b rows = (res, rows1)"
  shows "gw_inv H rows1 \<and> gw_older rows rows1
    \<and> (case res of Inl _ \<Rightarrow> rows1 = rows
       | Inr _ \<Rightarrow> \<exists>s s1. replay rows = Inr s \<and> replay rows1 = Inr s1 \<and> has_source H b s1 \<and> tasks s1 = tasks s
           \<and> (rows1 = rows \<or> (\<exists>row. rows1 = rows @ [row] \<and> type_of (row_event row) = ''SOURCE_INGESTED'')))"
proof -
  obtain s where s: "replay rows = Inr s" using inv by (auto simp: gw_inv_def)
  from ensure_source_cases [OF inv s, of b uuid now d] show ?thesis
  proof (elim disjE exE conjE)
    fix src assume "map_of (sources s) (request_id_of H b) = Some src"
      "ensure_source H uuid now d b rows = ((if get src ''request_sha256'' = Some (JStr (body_sha256 H b)) then Inr ()
            else Inl (identity_conflict b '' already exists with different content'')), rows)"
    then show ?thesis using r inv s by (auto simp: has_source_def split: if_splits)
  next
    assume "ensure_source H uuid now d b rows = (Inl IntegrityError, rows)"
    then show ?thesis using r inv by auto
  next
    fix row s' assume "ensure_source H uuid now d b rows = (Inr (), rows @ [row])"
      "type_of (row_event row) = ''SOURCE_INGESTED''" "gw_inv H (rows @ [row])" "gw_older rows (rows @ [row])"
      "replay (rows @ [row]) = Inr s'" "has_source H b s'" "tasks s' = tasks s"
    then show ?thesis using r s by auto
  qed
qed

lemma ensure_task_step:
  assumes inv: "gw_inv H rows" and s: "replay rows = Inr s" and src: "has_source H b s"
    and r: "ensure_task H uuid now b rows = (res, rows1)"
  shows "gw_inv H rows1 \<and> gw_older rows rows1
    \<and> (case res of Inl _ \<Rightarrow> rows1 = rows
       | Inr _ \<Rightarrow> accepted H b rows1 \<and> (rows1 = rows \<or> (\<exists>row s1 t. rows1 = rows @ [row] \<and> type_of (row_event row) = ''TASK_CREATED''
           \<and> replay rows1 = Inr s1 \<and> map_of (tasks s) (task_id_of H b) = None \<and> tasks s1 = set_key (task_id_of H b) t (tasks s)
           \<and> has_status t [''DISCOVERED''] \<and> get t ''authority'' = Some (JStr ''authorization_required''))))"
  using ensure_task_cases [OF inv s src, of uuid now]
proof (elim disjE exE conjE)
  fix t assume "map_of (tasks s) (task_id_of H b) = Some t"
    "ensure_task H uuid now b rows = ((if get t ''request_sha256'' = Some (JStr (body_sha256 H b))
              \<and> get t ''source_id'' = Some (JStr (request_id_of H b)) then Inr ()
            else Inl (identity_conflict b '' task identity conflicts with canonical state'')), rows)"
  then show ?thesis using r inv s src by (auto simp: accepted_def has_task_def split: if_splits)
next
  assume "ensure_task H uuid now b rows = (Inl IntegrityError, rows)"
  then show ?thesis using r inv by auto
next
  fix row s' t assume "ensure_task H uuid now b rows = (Inr (), rows @ [row])" "map_of (tasks s) (task_id_of H b) = None"
    "type_of (row_event row) = ''TASK_CREATED''" "gw_inv H (rows @ [row])" "gw_older rows (rows @ [row])"
    "replay (rows @ [row]) = Inr s'" "has_task H b s'" "has_source H b s'"
    "tasks s' = set_key (task_id_of H b) t (tasks s)" "has_status t [''DISCOVERED'']"
    "get t ''authority'' = Some (JStr ''authorization_required'')"
  then show ?thesis using r by (auto simp: accepted_def)
qed

lemma proposes_step:
  assumes inv: "gw_inv H rows" and r: "ensure_source H uuid now d b rows = (Inr (), rows1)"
    and r2: "ensure_task H uuid now b rows1 = (res, rows2)"
  shows "gw_inv H rows2 \<and> gw_older rows rows2 \<and> proposes H b rows rows2 \<and> (res = Inr () \<longrightarrow> accepted H b rows2)"
proof -
  from ensure_source_step [OF inv r] obtain s s1 where s1: "gw_inv H rows1" "gw_older rows rows1" "replay rows = Inr s"
    "replay rows1 = Inr s1" "has_source H b s1" "tasks s1 = tasks s"
    "rows1 = rows \<or> (\<exists>row. rows1 = rows @ [row] \<and> type_of (row_event row) = ''SOURCE_INGESTED'')" by auto
  then obtain a where a: "rows1 = rows @ a" "map (\<lambda>r. type_of (row_event r)) a \<in> {[], [''SOURCE_INGESTED'']}" by auto
  note t = ensure_task_step [OF s1(1,4,5) r2]
  have old: "gw_inv H rows2" "gw_older rows rows2" using t gw_older_trans [OF s1(2)] by blast+
  have acc: "res = Inr () \<longrightarrow> accepted H b rows2" using t by auto
  have "rows2 = rows1 \<or> (\<exists>row s2 t. rows2 = rows1 @ [row] \<and> type_of (row_event row) = ''TASK_CREATED''
           \<and> replay rows2 = Inr s2 \<and> map_of (tasks s1) (task_id_of H b) = None \<and> tasks s2 = set_key (task_id_of H b) t (tasks s1)
           \<and> has_status t [''DISCOVERED''] \<and> get t ''authority'' = Some (JStr ''authorization_required''))"
    using t by (auto split: sum.splits)
  then have "proposes H b rows rows2"
  proof (elim disjE exE conjE)
    assume "rows2 = rows1"
    then show ?thesis using s1 a by (auto simp: proposes_def)
  next
    fix row s2 t assume n: "rows2 = rows1 @ [row]" "type_of (row_event row) = ''TASK_CREATED''" "replay rows2 = Inr s2"
      "map_of (tasks s1) (task_id_of H b) = None" "tasks s2 = set_key (task_id_of H b) t (tasks s1)"
      "has_status t [''DISCOVERED'']" "get t ''authority'' = Some (JStr ''authorization_required'')"
    have "rows2 = rows @ (a @ [row])" "map (\<lambda>r. type_of (row_event r)) (a @ [row])
        \<in> {[], [''SOURCE_INGESTED''], [''TASK_CREATED''], [''SOURCE_INGESTED'', ''TASK_CREATED'']}"
      using n(1,2) a by auto
    moreover have "\<exists>t. map_of (tasks s) (task_id_of H b) = None \<and> tasks s2 = set_key (task_id_of H b) t (tasks s)
        \<and> has_status t [''DISCOVERED''] \<and> get t ''authority'' = Some (JStr ''authorization_required'')"
      using n(4-7) s1(6) by auto
    ultimately show ?thesis unfolding proposes_def using s1(3) n(3)
      by (intro exI [of _ "a @ [row]"] exI [of _ s] exI [of _ s2] conjI disjI2)
  qed
  then show ?thesis using old acc by blast
qed

text \<open>An ingestion proposes, and answers with the identity of the request.\<close>

definition ingest_answer :: "(string \<Rightarrow> string) \<Rightarrow> request_body \<Rightarrow> event_row list \<Rightarrow> event_row list \<Rightarrow> ingest_result" where
  "ingest_answer H b rows rows' = \<lparr>res_adapter = body_adapter b, res_external = body_external b,
     request_id = request_id_of H b, task_id = task_id_of H b, request_sha256 = body_sha256 H b,
     duplicate = (length rows' = length rows), events_appended = int (length rows') - int (length rows)\<rparr>"

lemma ingest_step:
  assumes inv: "gw_inv H rows" and r: "ingest H uuid now cat rq rows = (res, rows')"
  shows "gw_inv H rows' \<and> gw_older rows rows' \<and> (\<exists>b. proposes H b rows rows')
    \<and> (\<forall>x. res = Inr x \<longrightarrow> (\<exists>b. request_body rq = Inr b \<and> proposes H b rows rows' \<and> accepted H b rows' \<and> x = ingest_answer H b rows rows'))"
proof -
  have chain: "verify_chain H rows" using inv log_verified by (auto simp: gw_inv_def)
  show ?thesis
  proof (cases "request_body rq")
    case (Inl e)
    then show ?thesis using r chain inv proposes_refl [OF inv] by (auto simp: ingest_def)
  next
    case body: (Inr b)
    show ?thesis
    proof (cases "admit cat b")
      case (Inl e)
      then show ?thesis using r chain inv body proposes_refl [OF inv] by (auto simp: ingest_def)
    next
      case ad: (Inr d)
      obtain r1 rows1 where e1: "ensure_source H uuid now d b rows = (r1, rows1)" by (cases "ensure_source H uuid now d b rows")
      show ?thesis
      proof (cases r1)
        case (Inl e)
        have "rows1 = rows" using ensure_source_step [OF inv e1] Inl by simp
        then show ?thesis using r chain inv body ad e1 Inl proposes_refl [OF inv] by (auto simp: ingest_def)
      next
        case r1: (Inr u)
        then have e1': "ensure_source H uuid now d b rows = (Inr (), rows1)" using e1 by simp
        obtain r2 rows2 where e2: "ensure_task H uuid now b rows1 = (r2, rows2)" by (cases "ensure_task H uuid now b rows1")
        note p = proposes_step [OF inv e1' e2]
        show ?thesis
        proof (cases r2)
          case (Inl e)
          then show ?thesis using r chain body ad e1' e2 p by (auto simp: ingest_def)
        next
          case r2: (Inr u)
          then have acc: "accepted H b rows2" using p by simp
          then obtain s t where "replay rows2 = Inr s" "map_of (tasks s) (task_id_of H b) = Some t" "gw_ok s"
            using p by (auto simp: accepted_def has_task_def gw_inv_def)
          then have "check_ready (task_id_of H b) rows2 = Inr ()" by (rule check_ready_ok [rotated 1])
          then have "res = Inr (ingest_answer H b rows rows2)" "rows' = rows2"
            using r chain body ad e1' e2 r2 by (auto simp: ingest_def ingest_answer_def)
          then show ?thesis using p acc body by auto
        qed
      qed
    qed
  qed
qed

text \<open>The process that stops between the two appends.\<close>

definition ingest_interrupted :: "(string \<Rightarrow> string) \<Rightarrow> (nat \<Rightarrow> string) \<Rightarrow> (nat \<Rightarrow> string) \<Rightarrow> catalog \<Rightarrow> adapter_request \<Rightarrow>
    event_row list \<Rightarrow> event_row list" where
  "ingest_interrupted H uuid now cat rq rows = (case request_body rq of Inl e \<Rightarrow> rows
     | Inr b \<Rightarrow> (case admit cat b of Inl e \<Rightarrow> rows | Inr d \<Rightarrow> snd (ensure_source H uuid now d b rows)))"

text \<open>A progress event of a task in the log, as the workers append them.\<close>

definition progress :: "(string \<Rightarrow> string) \<Rightarrow> string \<Rightarrow> string \<Rightarrow> string \<Rightarrow> string \<Rightarrow> json_object \<Rightarrow> event_row list \<Rightarrow> event_row list" where
  "progress H uuid now ty i p rows = (case replay rows of Inl e \<Rightarrow> rows
     | Inr s \<Rightarrow> if map_of (tasks s) i = None \<or> map_of task_event_status ty = None \<or> \<not> distinct (map fst p) then rows
         else snd (append_event H uuid now ty (Some (JObj p)) (Some i) None None rows))"

datatype gw_op =
    Ingest "nat \<Rightarrow> string" "nat \<Rightarrow> string" catalog adapter_request
  | Interrupted "nat \<Rightarrow> string" "nat \<Rightarrow> string" catalog adapter_request
  | Progress string string string string json_object

fun run_gw :: "(string \<Rightarrow> string) \<Rightarrow> gw_op \<Rightarrow> event_row list \<Rightarrow> event_row list" where
  "run_gw H (Ingest uuid now cat rq) rows = snd (ingest H uuid now cat rq rows)"
| "run_gw H (Interrupted uuid now cat rq) rows = ingest_interrupted H uuid now cat rq rows"
| "run_gw H (Progress uuid now ty i p) rows = progress H uuid now ty i p rows"

lemma progress_step:
  assumes inv: "gw_inv H rows"
  shows "gw_inv H (progress H uuid now ty i p rows) \<and> gw_older rows (progress H uuid now ty i p rows)"
proof -
  obtain s where s: "replay rows = Inr s" and log: "log_inv H rows" and ok: "gw_ok s" using inv by (auto simp: gw_inv_def)
  show ?thesis
  proof (cases "map_of (tasks s) i = None \<or> map_of task_event_status ty = None \<or> \<not> distinct (map fst p)")
    case True
    then show ?thesis using s inv by (auto simp: progress_def)
  next
    case False
    then obtain t st where t: "map_of (tasks s) i = Some t" "map_of task_event_status ty = Some st" "distinct (map fst p)" by auto
    have ty: "ty \<in> set event_types" using status_types [OF t(2)] by blast
    have ne: "i \<noteq> []" using ok t(1) by (auto simp: gw_ok_def)
    from append_event_row [OF log ty t(3), of uuid now i] show ?thesis
    proof (elim disjE exE conjE)
      assume "append_event H uuid now ty (Some (JObj p)) (Some i) None None rows = (Inl IntegrityError, rows)"
      then show ?thesis using s inv t by (simp add: progress_def)
    next
      fix row assume r: "append_event H uuid now ty (Some (JObj p)) (Some i) None None rows = (Inr (row_event row), rows @ [row])"
        "log_inv H (rows @ [row])" "type_of (row_event row) = ty" "entity_id (row_event row) = Some i"
      obtain t' where t': "apply_event s (row_event row) = Inr (s\<lparr>tasks := set_key i t' (tasks s)\<rparr>)" "has_status t' [st]"
        "\<forall>k. k \<notin> {''status'', ''last_event''} \<longrightarrow> get t' k = get t k"
        using apply_status [of "row_event row" st i s t] t r(3,4) ne by auto
      let ?s1 = "s\<lparr>tasks := set_key i t' (tasks s)\<rparr>"
      have same: "get t' ''source_id'' = get t ''source_id''" "get t' ''request_sha256'' = get t ''request_sha256''"
        "dependencies_of t' = dependencies_of t"
        using t'(3) by (simp_all add: dependencies_of_def)
      have k: "kept s ?s1" using t(1) same by (auto simp: kept_def)
      have "has_status t' task_states" using t'(2) status_types [OF t(2)] by (auto simp: has_status_def split: option.splits json.splits)
      then have "gw_task ?s1 t'" using ok t(1) same by (simp add: gw_ok_def gw_task_def)
      moreover have "gw_task ?s1 u" if "gw_task s u" for u using that by (simp add: gw_task_def)
      ultimately have "gw_ok ?s1" using ok ne by (simp add: gw_ok_def)
      from gw_snoc [OF log r(2) s t'(1) this k] show ?thesis using s t r(1) by (simp add: progress_def)
    qed
  qed
qed

lemma interrupted_step:
  assumes inv: "gw_inv H rows"
  shows "gw_inv H (ingest_interrupted H uuid now cat rq rows) \<and> gw_older rows (ingest_interrupted H uuid now cat rq rows)"
proof -
  have "gw_inv H (snd (ensure_source H uuid now d b rows)) \<and> gw_older rows (snd (ensure_source H uuid now d b rows))" for d b
    using ensure_source_step [OF inv, of uuid now d b] by (cases "ensure_source H uuid now d b rows") auto
  then show ?thesis using inv by (simp add: ingest_interrupted_def split: sum.split)
qed

interpretation gateway: evolving_machine "run_gw H" "[]" "gw_inv H" gw_older for H
proof
  show "gw_inv H []"
    by (simp add: gw_inv_def log_inv_def replay_def rebuild_state_def gw_ok_def initial_state_def)
  fix op rows assume inv: "gw_inv H rows"
  have "gw_inv H (run_gw H op rows) \<and> gw_older rows (run_gw H op rows)"
    using ingest_step [OF inv] interrupted_step [OF inv] progress_step [OF inv] by (cases op) (auto simp: prod_eq_iff)
  then show "gw_inv H (run_gw H op rows)" "gw_older rows (run_gw H op rows)" by blast+
qed (auto intro: gw_older_trans)

section \<open>Properties\<close>

text \<open>
  C22. Identity is for ever: once an ingestion has answered, and after any later ingestions, interruptions
  and progress of tasks, every admitted request with the same adapter and external id leaves the log as it
  is, and is answered as a duplicate with the same source, task and digest when its canonical content has
  the same digest, and refused as a conflict when it has not.
\<close>

theorem request_identity_is_permanent:
  assumes first: "ingest H uuid now cat rq (run_all (run_gw H) ops []) = (Inr x, rows1)"
    and later: "rows2 = run_all (run_gw H) ops2 rows1"
    and body: "request_body rq2 = Inr b2" "body_adapter b2 = res_adapter x" "body_external b2 = res_external x"
    and ad: "admit cat2 b2 = Inr d2"
  shows "ingest H uuid2 now2 cat2 rq2 rows2 =
    (if body_sha256 H b2 = request_sha256 x
     then Inr (x\<lparr>duplicate := True, events_appended := 0\<rparr>)
     else Inl (AdapterRequestConflict (res_adapter x @ '':'' @ res_external x @ '' already exists with different content'')), rows2)"
proof -
  have inv0: "gw_inv H (run_all (run_gw H) ops [])" by (rule gateway.reached_inv)
  obtain b where b: "accepted H b rows1" "x = ingest_answer H b (run_all (run_gw H) ops []) rows1" and inv1: "gw_inv H rows1"
    using ingest_step [OF inv0 first] by auto
  have inv2: "gw_inv H rows2" unfolding later by (rule gateway.run_all_inv [OF inv1])
  have "gw_older rows1 rows2" unfolding later by (rule gateway.run_all_older [OF inv1])
  then obtain s where s: "replay rows2 = Inr s" "has_source H b s" "has_task H b s"
    using b(1) inv2 kept_source kept_task by (auto simp: accepted_def gw_older_def gw_inv_def)
  have ids: "request_id_of H b2 = request_id_of H b" "task_id_of H b2 = task_id_of H b"
    using body(2,3) b(2) by (simp_all add: ingest_answer_def request_id_of_def task_id_of_def)
  have chain: "verify_chain H rows2" using inv2 log_verified by (auto simp: gw_inv_def)
  have x: "request_sha256 x = body_sha256 H b" "request_id x = request_id_of H b" "task_id x = task_id_of H b"
    by (simp_all add: b(2) ingest_answer_def)
  show ?thesis
  proof (cases "body_sha256 H b2 = body_sha256 H b")
    case True
    then have "has_source H b2 s" "has_task H b2 s" using s(2,3) ids by (simp_all add: has_source_def has_task_def)
    then have e: "ensure_source H uuid2 now2 d2 b2 rows2 = (Inr (), rows2)" "ensure_task H uuid2 now2 b2 rows2 = (Inr (), rows2)"
      using s(1) by (auto simp: ensure_source_def ensure_task_def has_source_def has_task_def)
    have "check_ready (task_id_of H b2) rows2 = Inr ()"
      using check_ready_ok [OF _ s(1)] s(1,3) inv2 ids by (auto simp: gw_inv_def has_task_def)
    moreover have "x = \<lparr>res_adapter = body_adapter b2, res_external = body_external b2, request_id = request_id_of H b2,
        task_id = task_id_of H b2, request_sha256 = body_sha256 H b2, duplicate = duplicate x, events_appended = events_appended x\<rparr>"
      using body(2,3) x ids True by simp
    then have "x\<lparr>duplicate := True, events_appended := 0\<rparr> = \<lparr>res_adapter = body_adapter b2, res_external = body_external b2,
        request_id = request_id_of H b2, task_id = task_id_of H b2, request_sha256 = body_sha256 H b2, duplicate = True, events_appended = 0\<rparr>"
      by (cases x) simp
    ultimately show ?thesis using chain body(1) ad e True x(1) by (simp add: ingest_def)
  next
    case False
    then have "ensure_source H uuid2 now2 d2 b2 rows2 = (Inl (identity_conflict b2 '' already exists with different content''), rows2)"
      using s ids by (auto simp: ensure_source_def has_source_def)
    then show ?thesis using chain body ad False x(1) by (simp add: ingest_def identity_conflict_def)
  qed
qed

text \<open>
  Ingestion only proposes. From any state the gateway can reach and whatever its outcome, a request
  appends at most one source and one task event, in that order; it changes no existing task, and a task it
  adds is newly discovered and asks for authorization.
\<close>

theorem ingestion_only_proposes:
  "\<exists>b. proposes H b (run_all (run_gw H) ops []) (snd (ingest H uuid now cat rq (run_all (run_gw H) ops [])))"
proof -
  obtain res rows' where r: "ingest H uuid now cat rq (run_all (run_gw H) ops []) = (res, rows')" by (rule prod.exhaust)
  from ingest_step [OF gateway.reached_inv r] show ?thesis by (simp add: r)
qed

definition demo_request :: adapter_request where
  "demo_request = \<lparr>adapter_id = ''hermes'', external_id = ''x'', capability = ''c'', req_payload = JObj [], constraints = JObj [],
     objective = None, actor = None\<rparr>"

definition demo_hash :: "string \<Rightarrow> string" where
  "demo_hash t = take 1 (drop 22 t)"

definition demo_ids :: "nat \<Rightarrow> string" where
  "demo_ids i = (if i = 0 then ''u'' else ''v'')"

definition demo_catalog :: catalog where
  "demo_catalog = [\<lparr>desc_id = ''hermes'', desc_kind = AGENT_FRAMEWORK, operations = [''intent.submit''], desc_status = DISCOVERED,
     auth_required = True, local_only = False, desc_notes = []\<rparr>]"

lemma demo_ingest: "isl (fst (ingest demo_hash demo_ids demo_ids demo_catalog demo_request [])) = False"
  by code_simp

lemma demo_body: "isl (request_body demo_request) = False \<and> isl (admit demo_catalog (projr (request_body demo_request))) = False"
  by code_simp

lemma request_identity_is_permanent_witness:
  "\<exists>x rows1. ingest demo_hash demo_ids demo_ids demo_catalog demo_request [] = (Inr x, rows1)
     \<and> ingest demo_hash demo_ids demo_ids demo_catalog demo_request rows1 = (Inr (x\<lparr>duplicate := True, events_appended := 0\<rparr>), rows1)"
proof -
  obtain x rows1 where i: "ingest demo_hash demo_ids demo_ids demo_catalog demo_request [] = (Inr x, rows1)"
    using demo_ingest by (cases "ingest demo_hash demo_ids demo_ids demo_catalog demo_request []") (metis isl_def sum.exhaust fst_conv)
  then have i': "ingest demo_hash demo_ids demo_ids demo_catalog demo_request (run_all (run_gw demo_hash) [] []) = (Inr x, rows1)"
    by simp
  obtain b d where b: "request_body demo_request = Inr b" "admit demo_catalog b = Inr d"
    using demo_body by (cases "request_body demo_request"; cases "admit demo_catalog (projr (request_body demo_request))") auto
  have "x = ingest_answer demo_hash b [] rows1"
    using ingest_step [OF gateway.reached_inv i'] b(1) by auto
  then have "body_adapter b = res_adapter x" "body_external b = res_external x" "body_sha256 demo_hash b = request_sha256 x"
    by (simp_all add: ingest_answer_def)
  with request_identity_is_permanent [OF i' _ b(1) _ _ b(2), of rows1 "[]" demo_ids demo_ids] i
  show ?thesis by simp
qed

section \<open>The catalog\<close>

datatype catalog_op = Register descriptor | Mark string adapter_status

fun run_catalog :: "catalog_op \<Rightarrow> catalog \<Rightarrow> catalog" where
  "run_catalog (Register d) c = snd (register_descriptor d c)"
| "run_catalog (Mark i st) c = snd (mark_status i st c)"

lemma set_descriptor_distinct: "distinct (map desc_id c) \<Longrightarrow> distinct (map desc_id (set_descriptor d c))"
proof -
  assume c: "distinct (map desc_id c)"
  have "map desc_id (update_where (\<lambda>x. desc_id x = desc_id d) (\<lambda>x. d) c) = map desc_id c"
    by (rule map_update_where) simp
  then show ?thesis using c by (auto simp: set_descriptor_def upsert_by_def)
qed

lemma make_catalog_distinct: "distinct (map desc_id (make_catalog ds))"
proof -
  have "distinct (map desc_id c) \<Longrightarrow> distinct (map desc_id (foldl (\<lambda>c d. set_descriptor d c) c ds))" for c
    by (induction ds arbitrary: c) (simp_all add: set_descriptor_distinct)
  then show ?thesis by (simp add: make_catalog_def)
qed

interpretation catalog: op_machine run_catalog "make_catalog ds" "\<lambda>c. distinct (map desc_id c)" for ds
proof
  show "distinct (map desc_id (make_catalog ds))" by (rule make_catalog_distinct)
  show "distinct (map desc_id (run_catalog op c))" if "distinct (map desc_id c)" for op c
    using that by (cases op) (auto simp: register_descriptor_def mark_status_def set_descriptor_distinct split: sum.split)
qed

lemma get_descriptor_iff:
  "distinct (map desc_id c) \<Longrightarrow> get_descriptor i c = Inr d \<longleftrightarrow> d \<in> set c \<and> desc_id d = i"
proof -
  assume c: "distinct (map desc_id c)"
  have "select_one (\<lambda>d. desc_id d = i) c = Some d \<longleftrightarrow> d \<in> set c \<and> desc_id d = i"
    using select_one_unique [OF c, of d] select_one_SomeD [of "\<lambda>d. desc_id d = i" c d] by blast
  then show ?thesis by (cases "select_one (\<lambda>d. desc_id d = i) c") (auto simp: get_descriptor_def)
qed

lemma get_set_descriptor:
  assumes "\<exists>r\<in>set c. desc_id r = desc_id d"
  shows "select_one (\<lambda>r. desc_id r = i) (set_descriptor d c)
    = (if i = desc_id d then Some d else select_one (\<lambda>r. desc_id r = i) c)"
proof -
  have "select_one (\<lambda>r. desc_id r = i) c \<noteq> None" if "i = desc_id d" using assms that by (auto simp: select_one_None)
  then show ?thesis using assms
    by (auto simp: set_descriptor_def upsert_by_def select_one_update_where)
qed

text \<open>
  After any registrations and status changes the catalog is keyed by adapter: a lookup finds the one
  descriptor of that id, discovery returns exactly the descriptors that match, once each and in id order,
  and marking a status changes that of one adapter and nothing else.
\<close>

theorem catalog_keyed_by_adapter:
  "let c = run_all run_catalog ops (make_catalog ds) in
     (get_descriptor i c = Inr d \<longleftrightarrow> d \<in> set c \<and> desc_id d = i)
     \<and> set (discover k opn mn c) = {d. d \<in> set c \<and> (k = None \<or> desc_kind d = the k) \<and> (opn = None \<or> the opn \<in> set (operations d))
         \<and> (mn = None \<or> status_order (the mn) \<le> status_order (desc_status d))}
     \<and> sorted (map desc_id (discover k opn mn c)) \<and> distinct (map desc_id (discover k opn mn c))
     \<and> get_descriptor i (snd (mark_status j st c))
         = (if i = j then map_sum id (\<lambda>d. d\<lparr>desc_status := st\<rparr>) (get_descriptor i c) else get_descriptor i c)"
proof -
  let ?c = "run_all run_catalog ops (make_catalog ds)"
  have d: "distinct (map desc_id ?c)" by (rule catalog.reached_inv)
  have m: "get_descriptor i (snd (mark_status j st ?c))
      = (if i = j then map_sum id (\<lambda>d. d\<lparr>desc_status := st\<rparr>) (get_descriptor i ?c) else get_descriptor i ?c)"
  proof (cases "get_descriptor j ?c")
    case (Inl e)
    then show ?thesis by (auto simp: mark_status_def)
  next
    case (Inr x)
    then have x: "x \<in> set ?c" "desc_id x = j" using get_descriptor_iff [OF d] by blast+
    then have "\<exists>r\<in>set ?c. desc_id r = desc_id (x\<lparr>desc_status := st\<rparr>)" by auto
    from get_set_descriptor [OF this, of i] show ?thesis using Inr x(2)
      by (auto simp: mark_status_def get_descriptor_def split: option.splits)
  qed
  have "set (discover k opn mn ?c) = {d. d \<in> set ?c \<and> (k = None \<or> desc_kind d = the k) \<and> (opn = None \<or> the opn \<in> set (operations d))
         \<and> (mn = None \<or> status_order (the mn) \<le> status_order (desc_status d))}"
    by (cases k; cases opn; cases mn) (simp_all add: discover_def)
  moreover have "distinct (map desc_id (discover k opn mn ?c))" "sorted (map desc_id (discover k opn mn ?c))"
    using d by (auto simp: discover_def distinct_map intro: inj_on_subset)
  ultimately show ?thesis unfolding Let_def using m get_descriptor_iff [OF d, of i] by (intro conjI) assumption+
qed

end
