(* ===== verification/Intelligence_Controller.thy ===== *)
theory Intelligence_Controller
  imports Hash_Chain Op_Machine
begin

text \<open>
  \<open>frost_core/intelligence_controller.py\<close>: the controller that watches sources, schedules bounded work and
  reviews conversations week by week. \<open>H\<close> is SHA-256; \<open>num\<close> is the JSON value of a float, \<open>tz now\<close> the
  offset of the local zone from UTC at an instant, in microseconds (\<open>zoneinfo\<close>'s data). \<open>now\<close> is an aware
  instant. A JSON column holds the value its text decodes to.
\<close>

section \<open>Data\<close>

definition review_classes :: "string list" where
  "review_classes = [''P0'', ''P1'', ''P2'', ''P3'']"

definition severity_order :: "(string \<times> int) list" where
  "severity_order = [(''INFO'', 10), (''LOW'', 20), (''MEDIUM'', 30), (''HIGH'', 40), (''CRITICAL'', 50)]"

record cadence_policy =
  policy_key :: string
  event_class :: string
  dispatch_class :: string
  max_delay_seconds :: int
  policy_priority :: int
  requires_ai :: bool
  requires_material_change :: bool
  enabled :: bool

definition cadence :: "string \<Rightarrow> string \<Rightarrow> string \<Rightarrow> int \<Rightarrow> int \<Rightarrow> bool \<Rightarrow> cadence_policy" where
  "cadence k c d delay p material = \<lparr>policy_key = k, event_class = c, dispatch_class = d, max_delay_seconds = delay,
     policy_priority = p, requires_ai = True, requires_material_change = material, enabled = True\<rparr>"

definition default_policies :: "cadence_policy list" where
  "default_policies =
     [cadence ''critical-contradiction-immediate'' ''CRITICAL_CONTRADICTION'' ''IMMEDIATE'' 0 110 True,
      cadence ''new-evidence-immediate'' ''NEW_EVIDENCE'' ''IMMEDIATE'' 0 105 True,
      cadence ''state-change-immediate'' ''STATE_CHANGE'' ''IMMEDIATE'' 0 100 True,
      cadence ''ordinary-review-batch'' ''ORDINARY_REVIEW'' ''BATCH_10M'' 600 50 False,
      cadence ''deep-synthesis-hourly'' ''DEEP_SYNTHESIS'' ''HOURLY'' 3600 40 False,
      cadence ''portfolio-review-daily'' ''PORTFOLIO_REVIEW'' ''DAILY'' 86400 30 False,
      cadence ''full-corpus-audit-weekly'' ''FULL_CORPUS_AUDIT'' ''WEEKLY'' 604800 20 False,
      cadence ''architecture-review-monthly'' ''ARCHITECTURE_REVIEW'' ''MONTHLY'' (31 * 86400) 10 False,
      cadence ''scientific-compatibility-daily'' ''SCIENTIFIC_COMPATIBILITY'' ''DAILY'' 86400 25 False]"

record snapshot =
  snap_kind :: string
  snap_key :: string
  content_hash :: string
  snap_payload :: json
  observed_at :: string

record change_event =
  event_key :: string
  detected_at :: string
  source_kind :: string
  source_key :: string
  change_type :: string
  severity :: string
  change_dispatch :: string
  dedupe_key :: string
  previous_hash :: string
  current_hash :: string
  evidence :: json
  contradiction :: json
  prev_event_hash :: string
  event_hash :: string

record processed_event =
  processed_key :: string
  processed_status :: string
  processed_at :: string
  processed_result :: json

record conversation =
  conv_key :: string
  title :: string
  project :: string
  review_class :: string
  strategic_value :: rat
  conv_status :: string
  last_reviewed_week :: "string option"
  last_reviewed_at :: "string option"
  review_count :: int
  unresolved_count :: int
  conv_notes :: string

record review =
  reviewed_key :: string
  review_week :: string
  reviewed_at :: string
  unique_signal :: string
  review_contradiction :: string
  open_loop :: string
  review_decision :: string
  implementation_state :: string
  architectural_implication :: string
  confidence :: rat
  source_basis :: string
  review_hash :: string

datatype work_status = QUEUED | RUNNING | COMPLETE

record work_item =
  work_key :: string
  work_created_at :: string
  due_at :: string
  work_kind :: string
  work_dispatch :: string
  priority :: int
  work_status :: work_status
  work_payload :: json
  source_event_key :: "string option"
  claimed_by :: "string option"
  lease_until :: "string option"
  completed_at :: "string option"
  work_result :: "json option"

record cycle_row =
  cycle_key :: string
  run_at :: string
  local_window :: string
  coverage_json :: json
  due_work_json :: json
  event_chain_valid :: bool
  cycle_hash :: string

record intel =
  policies :: "cadence_policy list"
  snapshots :: "snapshot list"
  changes :: "change_event list"
  processing :: "processed_event list"
  conversations :: "conversation list"
  reviews :: "review list"
  work :: "work_item list"
  cycles :: "cycle_row list"

text \<open>\<open>_seed_policies\<close> on a new database: \<open>INSERT OR IGNORE\<close> on the policy key and the event class.\<close>

definition seed_policies :: "cadence_policy list \<Rightarrow> cadence_policy list" where
  "seed_policies rows = foldl (\<lambda>rows p. if \<exists>r\<in>set rows. policy_key r = policy_key p \<or> event_class r = event_class p
     then rows else rows @ [p]) rows default_policies"

definition new_intel :: intel where
  "new_intel = \<lparr>policies = seed_policies [], snapshots = [], changes = [], processing = [], conversations = [],
     reviews = [], work = [], cycles = []\<rparr>"

definition policy_for :: "string \<Rightarrow> intel \<Rightarrow> cadence_policy result" where
  "policy_for c s = (case select_one (\<lambda>p. event_class p = c \<and> enabled p) (policies s) of
     None \<Rightarrow> Inl (KeyError (''no enabled cadence policy for '' @ c)) | Some p \<Rightarrow> Inr p)"

section \<open>Local time\<close>

definition local_time :: "(int \<Rightarrow> int) \<Rightarrow> int \<Rightarrow> int result" where
  "local_time tz now = (if instant (now + tz now) then Inr (now + tz now) else Inl OverflowError)"

text \<open>\<open>isocalendar()\<close> of an ordinal day: a week belongs to the year of its Thursday.\<close>

definition iso_calendar :: "int \<Rightarrow> int \<times> int" where
  "iso_calendar n = (let th = n - (n - 1) mod 7 + 3; y = fst (ord2ymd th)
     in (y, (th - ymd2ord y 1 1) div 7 + 1))"

definition week_text :: "int \<Rightarrow> string" where
  "week_text l = (let (y, w) = iso_calendar (l div usec_per_day + 1) in int_text y @ ''-W'' @ pad 2 w)"

definition week_id :: "(int \<Rightarrow> int) \<Rightarrow> int \<Rightarrow> string result" where
  "week_id tz now = (case local_time tz now of Inl e \<Rightarrow> Inl e | Inr l \<Rightarrow> Inr (week_text l))"

text \<open>The fields of a local time as \<open>strftime\<close> writes them.\<close>

definition month_text :: "int \<Rightarrow> string" where
  "month_text l = (let (y, m, d) = ord2ymd (l div usec_per_day + 1) in pad 4 y @ ''-'' @ pad 2 m)"

definition day_text :: "int \<Rightarrow> string" where
  "day_text l = (let (y, m, d) = ord2ymd (l div usec_per_day + 1) in pad 4 y @ ''-'' @ pad 2 m @ ''-'' @ pad 2 d)"

definition hour_text :: "int \<Rightarrow> string" where
  "hour_text l = day_text l @ ''T'' @ pad 2 (l mod usec_per_day div 3600000000)"

definition minute_of :: "int \<Rightarrow> int" where
  "minute_of l = l mod usec_per_day div 60000000 mod 60"

definition offset_text :: "int \<Rightarrow> string" where
  "offset_text u = (let a = \<bar>u\<bar> div 1000000 in
     (if u < 0 then ''-'' else ''+'') @ pad 2 (a div 3600) @ '':'' @ pad 2 (a div 60 mod 60)
     @ (if a mod 60 = 0 then [] else '':'' @ pad 2 (a mod 60)))"

definition local_isoformat :: "int \<Rightarrow> int \<Rightarrow> string" where
  "local_isoformat u l = day_text l @ ''T'' @ clock_text (l mod usec_per_day) @ offset_text u"

text \<open>\<open>_parse_iso\<close>\<close>

definition parse_iso :: "string \<Rightarrow> int result" where
  "parse_iso v = (case fromisoformat v of NotIso \<Rightarrow> Inl (ValueError v) | Naive t \<Rightarrow> Inr t | Aware t \<Rightarrow> Inr t)"

section \<open>Conversations\<close>

definition register_conversation :: "string \<Rightarrow> string \<Rightarrow> string \<Rightarrow> string \<Rightarrow> rat \<Rightarrow> string \<Rightarrow> int \<Rightarrow> string \<Rightarrow>
    intel \<Rightarrow> (unit, intel) outcome" where
  "register_conversation key ti pr cls val st unresolved no s =
     (if cls \<notin> set review_classes then (Inl (ValueError (''invalid review class: '' @ cls)), s)
      else if val < 0 \<or> 1 < val then (Inl (ValueError ''strategic_value must be in [0, 1]''), s)
      else if unresolved < 0 then (Inl (ValueError ''unresolved_count must be non-negative''), s)
      else (Inr (), s\<lparr>conversations := upsert_by conv_key
        (\<lambda>c. c\<lparr>title := ti, project := pr, review_class := cls, strategic_value := val, conv_status := st,
               unresolved_count := unresolved, conv_notes := no\<rparr>)
        \<lparr>conv_key = key, title = ti, project = pr, review_class = cls, strategic_value = val, conv_status = st,
         last_reviewed_week = None, last_reviewed_at = None, review_count = 0, unresolved_count = unresolved,
         conv_notes = no\<rparr> (conversations s)\<rparr>))"

text \<open>A record of \<open>import_registry\<close>, its values converted; \<open>None\<close> is a key that is not there.\<close>

record registry_record =
  rec_key :: "string option"
  rec_title :: "string option"
  rec_project :: "string option"
  rec_class :: "string option"
  rec_value :: "rat option"
  rec_status :: "string option"
  rec_unresolved :: "int option"
  rec_notes :: "string option"
  rec_week :: "string option"
  rec_at :: "string option"
  rec_count :: "int option"

definition or_default :: "'a \<Rightarrow> 'a option \<Rightarrow> 'a" where
  "or_default d v = (case v of None \<Rightarrow> d | Some x \<Rightarrow> x)"

definition import_one :: "registry_record \<Rightarrow> intel \<Rightarrow> (unit, intel) outcome" where
  "import_one r s =
     (case rec_key r of None \<Rightarrow> (Inl (KeyError ''conversation_key''), s) | Some key \<Rightarrow>
      (case rec_title r of None \<Rightarrow> (Inl (KeyError ''title''), s) | Some ti \<Rightarrow>
       (case register_conversation key ti (or_default ''Automation'' (rec_project r)) (or_default ''P2'' (rec_class r))
               (or_default (1 / 2) (rec_value r)) (or_default ''ACTIVE'' (rec_status r)) (or_default 0 (rec_unresolved r))
               (or_default [] (rec_notes r)) s of
          (Inl e, s1) \<Rightarrow> (Inl e, s1)
        | (Inr _, s1) \<Rightarrow>
            (Inr (), if or_default [] (rec_week r) = [] then s1
               else s1\<lparr>conversations := update_where (\<lambda>c. conv_key c = key)
                 (\<lambda>c. c\<lparr>last_reviewed_week := rec_week r, last_reviewed_at := rec_at r,
                        review_count := or_default 0 (rec_count r)\<rparr>) (conversations s1)\<rparr>))))"

fun import_all :: "registry_record list \<Rightarrow> intel \<Rightarrow> (unit, intel) outcome" where
  "import_all [] s = (Inr (), s)"
| "import_all (r # rs) s = (case import_one r s of
     (Inl e, s1) \<Rightarrow> (Inl e, s1) | (Inr _, s1) \<Rightarrow> import_all rs s1)"

definition import_registry :: "registry_record list \<Rightarrow> intel \<Rightarrow> (int, intel) outcome" where
  "import_registry rs s = (case import_all rs s of
     (Inl e, s1) \<Rightarrow> (Inl e, s1) | (Inr _, s1) \<Rightarrow> (Inr (int (length rs)), s1))"

text \<open>\<open>SELECT ... WHERE project='Automation' AND COALESCE(last_reviewed_week,'') != ?\<close>\<close>

definition is_due :: "string \<Rightarrow> conversation \<Rightarrow> bool" where
  "is_due week c \<longleftrightarrow> project c = ''Automation'' \<and> or_default [] (last_reviewed_week c) \<noteq> week"

definition class_rank :: "string \<Rightarrow> int" where
  "class_rank c = (if c = ''P0'' then 0 else if c = ''P1'' then 1 else if c = ''P2'' then 2 else 3)"

definition due_order :: "conversation \<Rightarrow> int \<times> rat \<times> string" where
  "due_order c = (class_rank (review_class c), - strategic_value c, conv_key c)"

definition next_conversation :: "(int \<Rightarrow> int) \<Rightarrow> int \<Rightarrow> intel \<Rightarrow> conversation option result" where
  "next_conversation tz now s = (case week_id tz now of
     Inl e \<Rightarrow> Inl e | Inr week \<Rightarrow> Inr (first_by due_order (filter (is_due week) (conversations s))))"

record review_input =
  in_signal :: string
  in_contradiction :: string
  in_loop :: string
  in_decision :: string
  in_state :: string
  in_implication :: string
  in_confidence :: rat
  in_basis :: string

definition review_json :: "(rat \<Rightarrow> json) \<Rightarrow> string \<Rightarrow> string \<Rightarrow> string \<Rightarrow> review_input \<Rightarrow> json" where
  "review_json num key week t r = JObj
     [(''conversation_key'', JStr key), (''week_id'', JStr week), (''reviewed_at'', JStr t),
      (''unique_signal'', JStr (in_signal r)), (''contradiction'', JStr (in_contradiction r)),
      (''open_loop'', JStr (in_loop r)), (''decision'', JStr (in_decision r)),
      (''implementation_state'', JStr (in_state r)), (''architectural_implication'', JStr (in_implication r)),
      (''confidence'', num (in_confidence r)), (''source_basis'', JStr (in_basis r))]"

text \<open>\<open>INSERT OR REPLACE\<close>: the old row goes and the new one is the last.\<close>

definition record_review :: "(string \<Rightarrow> string) \<Rightarrow> (rat \<Rightarrow> json) \<Rightarrow> (int \<Rightarrow> int) \<Rightarrow> string \<Rightarrow> review_input \<Rightarrow> int \<Rightarrow>
    intel \<Rightarrow> (string, intel) outcome" where
  "record_review H num tz key r now s =
     (if in_confidence r < 0 \<or> 1 < in_confidence r then (Inl (ValueError ''confidence must be in [0, 1]''), s)
      else case week_id tz now of Inl e \<Rightarrow> (Inl e, s)
      | Inr week \<Rightarrow>
          (let t = isoformat now; digest = canonical_sha256 H (review_json num key week t r)
           in if \<not> (\<exists>c\<in>set (conversations s). conv_key c = key)
              then (Inl (KeyError (''unknown conversation: '' @ key)), s)
              else (Inr digest, s\<lparr>
                reviews := filter (\<lambda>x. \<not> (reviewed_key x = key \<and> review_week x = week)) (reviews s) @
                  [\<lparr>reviewed_key = key, review_week = week, reviewed_at = t, unique_signal = in_signal r,
                    review_contradiction = in_contradiction r, open_loop = in_loop r, review_decision = in_decision r,
                    implementation_state = in_state r, architectural_implication = in_implication r,
                    confidence = in_confidence r, source_basis = in_basis r, review_hash = digest\<rparr>],
                conversations := update_where (\<lambda>c. conv_key c = key)
                  (\<lambda>c. c\<lparr>last_reviewed_week := Some week, last_reviewed_at := Some t, review_count := review_count c + 1\<rparr>)
                  (conversations s)\<rparr>)))"

record coverage =
  cov_week :: string
  total_registered :: nat
  reviewed_count :: nat
  remaining_count :: int
  coverage_fraction :: rat
  remaining_by_class :: "(string \<times> nat) list"
  next_key :: "string option"

definition coverage_of :: "(int \<Rightarrow> int) \<Rightarrow> int \<Rightarrow> intel \<Rightarrow> coverage result" where
  "coverage_of tz now s =
     (case week_id tz now of Inl e \<Rightarrow> Inl e
      | Inr week \<Rightarrow>
          (let rows = filter (\<lambda>c. project c = ''Automation'') (conversations s);
               done = length (filter (\<lambda>c. last_reviewed_week c = Some week) rows)
           in case next_conversation tz now s of Inl e \<Rightarrow> Inl e
              | Inr nc \<Rightarrow> Inr \<lparr>cov_week = week, total_registered = length rows, reviewed_count = done,
                  remaining_count = int (length rows) - int done,
                  coverage_fraction = (if rows = [] then 1 else of_nat done / of_nat (length rows)),
                  remaining_by_class = map (\<lambda>cls. (cls,
                    length (filter (\<lambda>c. review_class c = cls \<and> last_reviewed_week c \<noteq> Some week) rows))) review_classes,
                  next_key = map_option conv_key nc\<rparr>))"

definition coverage_to_json :: "(rat \<Rightarrow> json) \<Rightarrow> coverage \<Rightarrow> json" where
  "coverage_to_json num c = JObj
     [(''week_id'', JStr (cov_week c)), (''total_registered'', JInt (int (total_registered c))),
      (''reviewed_count'', JInt (int (reviewed_count c))), (''remaining_count'', JInt (remaining_count c)),
      (''coverage_fraction'', num (coverage_fraction c)),
      (''remaining_by_class'', JObj (map (\<lambda>(k, n). (k, JInt (int n))) (remaining_by_class c))),
      (''next_conversation'', opt_str (next_key c))]"

section \<open>Changes\<close>

text \<open>What the hash of an event is taken of.\<close>

definition event_text :: "change_event \<Rightarrow> string" where
  "event_text e = dumps compact (JObj
     [(''event_key'', JStr (event_key e)), (''detected_at'', JStr (detected_at e)), (''source_kind'', JStr (source_kind e)),
      (''source_key'', JStr (source_key e)), (''change_type'', JStr (change_type e)), (''severity'', JStr (severity e)),
      (''dispatch_class'', JStr (change_dispatch e)), (''dedupe_key'', JStr (dedupe_key e)),
      (''previous_hash'', JStr (previous_hash e)), (''current_hash'', JStr (current_hash e)),
      (''evidence'', evidence e), (''contradiction'', contradiction e), (''prev_event_hash'', JStr (prev_event_hash e))])"

definition dedupe_of :: "(string \<Rightarrow> string) \<Rightarrow> string \<Rightarrow> string \<Rightarrow> string \<Rightarrow> json \<Rightarrow> string" where
  "dedupe_of H sk key ty ev = sk @ '':'' @ key @ '':'' @ ty @ '':'' @ canonical_sha256 H ev"

definition event_key_of :: "(string \<Rightarrow> string) \<Rightarrow> string \<Rightarrow> string" where
  "event_key_of H dedupe = ''change:'' @ take 32 (H dedupe)"

definition enqueue_work :: "work_item \<Rightarrow> work_item list \<Rightarrow> bool \<times> work_item list" where
  "enqueue_work w ws = (if \<exists>x\<in>set ws. work_key x = work_key w then (False, ws) else (True, ws @ [w]))"

definition queued :: "string \<Rightarrow> string \<Rightarrow> string \<Rightarrow> string \<Rightarrow> int \<Rightarrow> json \<Rightarrow> string option \<Rightarrow> work_item" where
  "queued key t k d p payload src =
     \<lparr>work_key = key, work_created_at = t, due_at = t, work_kind = k, work_dispatch = d, priority = p,
      work_status = QUEUED, work_payload = payload, source_event_key = src, claimed_by = None, lease_until = None,
      completed_at = None, work_result = None\<rparr>"

definition policy_of_change :: "string \<Rightarrow> bool \<Rightarrow> intel \<Rightarrow> cadence_policy result" where
  "policy_of_change ty material s =
     (case policy_for (if ty \<in> {''STATE_CHANGE'', ''CRITICAL_CONTRADICTION'', ''NEW_EVIDENCE''} then ty else ''ORDINARY_REVIEW'') s of
        Inl e \<Rightarrow> Inl e
      | Inr p \<Rightarrow> if requires_material_change p \<and> \<not> material then policy_for ''ORDINARY_REVIEW'' s else Inr p)"

definition snapshot_hash :: "string \<Rightarrow> string \<Rightarrow> intel \<Rightarrow> string" where
  "snapshot_hash sk key s = (case select_one (\<lambda>x. snap_kind x = sk \<and> snap_key x = key) (snapshots s) of
     None \<Rightarrow> genesis | Some x \<Rightarrow> content_hash x)"

definition change_of :: "(string \<Rightarrow> string) \<Rightarrow> string \<Rightarrow> string \<Rightarrow> string \<Rightarrow> string \<Rightarrow> json \<Rightarrow> json \<Rightarrow> cadence_policy \<Rightarrow>
    int \<Rightarrow> intel \<Rightarrow> change_event" where
  "change_of H sk key ty sev ev con p now s =
     (let dedupe = dedupe_of H sk key ty ev;
          e = \<lparr>event_key = event_key_of H dedupe, detected_at = isoformat now, source_kind = sk, source_key = key,
               change_type = ty, severity = sev, change_dispatch = dispatch_class p, dedupe_key = dedupe,
               previous_hash = snapshot_hash sk key s, current_hash = canonical_sha256 H ev, evidence = sort_keys ev,
               contradiction = sort_keys con, prev_event_hash = tip event_hash genesis (changes s), event_hash = []\<rparr>
      in e\<lparr>event_hash := H (event_text e)\<rparr>)"

text \<open>\<open>INSERT OR IGNORE\<close>: an event that violates a uniqueness constraint is dropped.\<close>

definition insert_change :: "change_event \<Rightarrow> change_event list \<Rightarrow> change_event list" where
  "insert_change e es =
     (if \<exists>x\<in>set es. event_key x = event_key e \<or> dedupe_key x = dedupe_key e \<or> event_hash x = event_hash e
      then es else es @ [e])"

definition change_work :: "change_event \<Rightarrow> cadence_policy \<Rightarrow> int \<Rightarrow> work_item" where
  "change_work e p rank = queued (''event:'' @ event_key e) (detected_at e) ''CHANGE_EVENT'' (dispatch_class p)
     (policy_priority p + rank) (JObj [(''change_type'', JStr (change_type e)), (''event_key'', JStr (event_key e))])
     (Some (event_key e))"

definition put_snapshot :: "(string \<Rightarrow> string) \<Rightarrow> string \<Rightarrow> string \<Rightarrow> json \<Rightarrow> int \<Rightarrow> snapshot list \<Rightarrow> snapshot list" where
  "put_snapshot H sk key ev now =
     upsert_by (\<lambda>x. (snap_kind x, snap_key x))
       (\<lambda>x. x\<lparr>content_hash := canonical_sha256 H ev, snap_payload := sort_keys ev, observed_at := isoformat now\<rparr>)
       \<lparr>snap_kind = sk, snap_key = key, content_hash = canonical_sha256 H ev, snap_payload = sort_keys ev,
        observed_at = isoformat now\<rparr>"

text \<open>
  The three statements are one transaction. The foreign key of a new work item needs an event of that key,
  which is missing when the event was dropped for another reason.
\<close>

definition observe :: "(string \<Rightarrow> string) \<Rightarrow> string \<Rightarrow> string \<Rightarrow> string \<Rightarrow> string \<Rightarrow> json \<Rightarrow> json \<Rightarrow> bool \<Rightarrow> int \<Rightarrow>
    intel \<Rightarrow> (change_event option, intel) outcome" where
  "observe H sk key ty sev ev con material now s =
     (case map_of severity_order sev of None \<Rightarrow> (Inl (ValueError (''invalid severity: '' @ sev)), s)
      | Some rank \<Rightarrow>
          if canonical_sha256 H ev = snapshot_hash sk key s then (Inr None, s)
          else (case policy_of_change ty material s of Inl e \<Rightarrow> (Inl e, s)
          | Inr p \<Rightarrow>
              (let e = change_of H sk key ty sev ev con p now s;
                   changes' = insert_change e (changes s);
                   (new, work') = enqueue_work (change_work e p rank) (work s)
               in if new \<and> \<not> (\<exists>x\<in>set changes'. event_key x = event_key e) then (Inl IntegrityError, s)
                  else (Inr (Some e), s\<lparr>changes := changes', work := work',
                    snapshots := put_snapshot H sk key ev now (snapshots s)\<rparr>))))"

definition verify_event_chain :: "(string \<Rightarrow> string) \<Rightarrow> intel \<Rightarrow> bool" where
  "verify_event_chain H s = chain_from H event_text prev_event_hash event_hash genesis (changes s)"

section \<open>Scheduled work\<close>

definition window_key :: "string \<Rightarrow> int \<Rightarrow> string result" where
  "window_key c l =
     (if c = ''ORDINARY_REVIEW'' then Inr (hour_text l @ '':'' @ pad 2 (minute_of l div 10 * 10))
      else if c = ''DEEP_SYNTHESIS'' then Inr (hour_text l)
      else if c = ''PORTFOLIO_REVIEW'' \<or> c = ''SCIENTIFIC_COMPATIBILITY'' then Inr (day_text l)
      else if c = ''FULL_CORPUS_AUDIT'' then Inr (week_text l)
      else if c = ''ARCHITECTURE_REVIEW'' then Inr (month_text l)
      else Inl (KeyError c))"

definition scheduled_classes :: "string list" where
  "scheduled_classes = [''DEEP_SYNTHESIS'', ''PORTFOLIO_REVIEW'', ''SCIENTIFIC_COMPATIBILITY'', ''FULL_CORPUS_AUDIT'', ''ARCHITECTURE_REVIEW'']"

definition scheduled_key :: "string \<Rightarrow> string \<Rightarrow> string" where
  "scheduled_key c w = ''scheduled:'' @ c @ '':'' @ w"

definition schedule_one :: "int \<Rightarrow> int \<Rightarrow> string option \<Rightarrow> string \<Rightarrow> string list \<times> intel \<Rightarrow> (string list, intel) outcome" where
  "schedule_one l now nk c acc = (case acc of (created, s) \<Rightarrow>
     (case policy_for c s of Inl e \<Rightarrow> (Inl e, s)
      | Inr p \<Rightarrow>
         (case window_key c l of Inl e \<Rightarrow> (Inl e, s)
          | Inr w \<Rightarrow>
              (let t = isoformat now;
                   payload = [(''event_class'', JStr c), (''window'', JStr w)];
                   payload = (if c = ''ORDINARY_REVIEW'' then (''conversation_key'', opt_str nk) # payload else payload);
                   (new, work') = enqueue_work (queued (scheduled_key c w) t c (dispatch_class p) (policy_priority p)
                     (JObj payload) None) (work s)
               in (Inr (if new then created @ [scheduled_key c w] else created), s\<lparr>work := work'\<rparr>)))))"

fun schedule_all :: "int \<Rightarrow> int \<Rightarrow> string option \<Rightarrow> string list \<Rightarrow> string list \<times> intel \<Rightarrow> (string list, intel) outcome" where
  "schedule_all l now nk [] acc = (Inr (fst acc), snd acc)"
| "schedule_all l now nk (c # cs) acc = (case schedule_one l now nk c acc of
     (Inl e, s) \<Rightarrow> (Inl e, s) | (Inr created, s) \<Rightarrow> schedule_all l now nk cs (created, s))"

definition ensure_scheduled_work :: "(int \<Rightarrow> int) \<Rightarrow> int \<Rightarrow> intel \<Rightarrow> (string list, intel) outcome" where
  "ensure_scheduled_work tz now s =
     (case next_conversation tz now s of Inl e \<Rightarrow> (Inl e, s)
      | Inr nc \<Rightarrow>
         (case local_time tz now of Inl e \<Rightarrow> (Inl e, s)
          | Inr l \<Rightarrow> schedule_all l now (map_option conv_key nc)
              (if nc = None then scheduled_classes else ''ORDINARY_REVIEW'' # scheduled_classes) ([], s)))"

definition due_work :: "int \<Rightarrow> intel \<Rightarrow> work_item list" where
  "due_work now s = sort_key (\<lambda>w. (- priority w, due_at w, work_key w))
     (filter (\<lambda>w. work_status w = QUEUED \<and> due_at w \<le> isoformat now) (work s))"

definition claimable :: "int \<Rightarrow> work_item \<Rightarrow> bool result" where
  "claimable now w =
     (if work_status w = QUEUED then Inr True
      else if work_status w = RUNNING \<and> or_default [] (lease_until w) \<noteq> []
      then (case parse_iso (or_default [] (lease_until w)) of Inl e \<Rightarrow> Inl e | Inr t \<Rightarrow> Inr (t \<le> now))
      else Inr False)"

definition claim_work :: "string \<Rightarrow> string \<Rightarrow> int \<Rightarrow> int \<Rightarrow> intel \<Rightarrow> (work_item option, intel) outcome" where
  "claim_work key claimer lease_seconds now s =
     (if lease_seconds < 1 then (Inl (ValueError ''lease_seconds must be positive''), s)
      else if max_instant \<le> now + lease_seconds * 1000000 then (Inl OverflowError, s)
      else case select_one (\<lambda>w. work_key w = key) (work s) of None \<Rightarrow> (Inr None, s)
      | Some w \<Rightarrow>
          (case claimable now w of Inl e \<Rightarrow> (Inl e, s)
           | Inr c \<Rightarrow>
               if \<not> c then (Inr None, s)
               else (case parse_iso (due_at w) of Inl e \<Rightarrow> (Inl e, s)
               | Inr due \<Rightarrow>
                   if now < due then (Inr None, s)
                   else (let f = (\<lambda>w. w\<lparr>work_status := RUNNING, claimed_by := Some claimer,
                           lease_until := Some (isoformat (now + lease_seconds * 1000000))\<rparr>);
                           s1 = s\<lparr>work := update_where (\<lambda>w. work_key w = key) f (work s)\<rparr>
                         in (Inr (select_one (\<lambda>w. work_key w = key) (work s1)), s1)))))"

definition complete_work :: "string \<Rightarrow> json \<Rightarrow> int \<Rightarrow> intel \<Rightarrow> (unit, intel) outcome" where
  "complete_work key res now s =
     (case select_one (\<lambda>w. work_key w = key) (work s) of
        None \<Rightarrow> (Inl (KeyError (''unknown work item: '' @ key)), s)
      | Some w \<Rightarrow>
          if work_status w = COMPLETE then (Inr (), s)
          else (let t = isoformat now;
                    s1 = s\<lparr>work := update_where (\<lambda>w. work_key w = key)
                      (\<lambda>w. w\<lparr>work_status := COMPLETE, completed_at := Some t, work_result := Some (sort_keys res),
                             lease_until := None\<rparr>) (work s)\<rparr>
                in (Inr (), case source_event_key w of None \<Rightarrow> s1
                  | Some ek \<Rightarrow> if ek = [] then s1
                      else s1\<lparr>processing := upsert_by processed_key
                        (\<lambda>x. x\<lparr>processed_status := ''PROCESSED'', processed_at := t, processed_result := sort_keys res\<rparr>)
                        \<lparr>processed_key = ek, processed_status = ''PROCESSED'', processed_at = t, processed_result = sort_keys res\<rparr>
                        (processing s1)\<rparr>)))"

section \<open>A cycle\<close>

definition due_json :: "work_item \<Rightarrow> json" where
  "due_json w = JObj [(''work_key'', JStr (work_key w)), (''kind'', JStr (work_kind w)),
     (''dispatch_class'', JStr (work_dispatch w)), (''priority'', JInt (priority w)), (''payload'', work_payload w)]"

definition cycle_body :: "(rat \<Rightarrow> json) \<Rightarrow> string \<Rightarrow> int \<Rightarrow> int \<Rightarrow> int \<Rightarrow> coverage \<Rightarrow> string list \<Rightarrow> work_item list \<Rightarrow> bool \<Rightarrow> json_object" where
  "cycle_body num zone now u l cov created due chain =
     [(''run_at'', JStr (isoformat now)), (''timezone'', JStr zone), (''local_time'', JStr (local_isoformat u l)),
      (''coverage'', coverage_to_json num cov), (''new_work_keys'', JArr (map JStr created)),
      (''due_work'', JArr (map due_json due)), (''event_chain_valid'', JBool chain)]"

definition run_cycle :: "(string \<Rightarrow> string) \<Rightarrow> (rat \<Rightarrow> json) \<Rightarrow> (int \<Rightarrow> int) \<Rightarrow> string \<Rightarrow> int \<Rightarrow> intel \<Rightarrow>
    (json, intel) outcome" where
  "run_cycle H num tz zone now s =
     (case ensure_scheduled_work tz now s of
        (Inl e, s1) \<Rightarrow> (Inl e, s1)
      | (Inr created, s1) \<Rightarrow>
         (case coverage_of tz now s1 of Inl e \<Rightarrow> (Inl e, s1)
          | Inr cov \<Rightarrow>
             (case local_time tz now of Inl e \<Rightarrow> (Inl e, s1)
              | Inr l \<Rightarrow>
                  (let due = due_work now s1; chain = verify_event_chain H s1;
                       body = cycle_body num zone now (tz now) l cov created due chain;
                       digest = canonical_sha256 H (JObj body); ck = ''cycle:'' @ take 32 digest
                   in (Inr (JObj ((''cycle_key'', JStr ck) # body @ [(''cycle_hash'', JStr digest)])),
                       if \<exists>x\<in>set (cycles s1). cycle_key x = ck then s1
                       else s1\<lparr>cycles := cycles s1 @ [\<lparr>cycle_key = ck, run_at = isoformat now,
                         local_window = hour_text l @ '':'' @ pad 2 (minute_of l), coverage_json = sort_keys (coverage_to_json num cov),
                         due_work_json = sort_keys (JArr (map due_json due)), event_chain_valid = chain, cycle_hash = digest\<rparr>]\<rparr>)))))"

text \<open>The report of \<open>status\<close>, less the path and the name of the zone.\<close>

record controller_status =
  status_chain_valid :: bool
  status_coverage :: coverage
  status_counts :: "(string \<times> nat) list"
  pending_work :: nat

definition status :: "(string \<Rightarrow> string) \<Rightarrow> (int \<Rightarrow> int) \<Rightarrow> int \<Rightarrow> intel \<Rightarrow> controller_status result" where
  "status H tz now s = (case coverage_of tz now s of Inl e \<Rightarrow> Inl e
     | Inr cov \<Rightarrow> Inr \<lparr>status_chain_valid = verify_event_chain H s, status_coverage = cov,
         status_counts = [(''change_events'', length (changes s)), (''source_snapshots'', length (snapshots s)),
           (''conversations'', length (conversations s)), (''conversation_reviews'', length (reviews s)),
           (''work_items'', length (work s)), (''controller_cycles'', length (cycles s))],
         pending_work = length (filter (\<lambda>w. work_status w = QUEUED \<or> work_status w = RUNNING) (work s))\<rparr>)"

end
