(* ===== verification/Intelligence_Claims.thy ===== *)
theory Intelligence_Claims
  imports Intelligence_Controller
begin

text \<open>
  The controller under any operations: its log of changes, leases of work, schedules and weekly reviews.
\<close>

section \<open>Operations\<close>

datatype intel_op =
    Register string string string string rat string int string
  | Import "registry_record list"
  | Review string review_input int
  | Observe string string string string json json bool int
  | Schedule int
  | Claim string string int int
  | Finish string json int
  | Cycle int

fun op_time :: "intel_op \<Rightarrow> int" where
  "op_time (Review key r now) = now"
| "op_time (Observe sk key ty sev ev con material now) = now"
| "op_time (Schedule now) = now"
| "op_time (Claim key claimer lease now) = now"
| "op_time (Finish key res now) = now"
| "op_time (Cycle now) = now"
| "op_time _ = 0"

text \<open>A \<open>datetime\<close> is an instant.\<close>

fun run_op :: "(string \<Rightarrow> string) \<Rightarrow> (rat \<Rightarrow> json) \<Rightarrow> (int \<Rightarrow> int) \<Rightarrow> string \<Rightarrow> intel_op \<Rightarrow> intel \<Rightarrow> intel" where
  "run_op H num tz zone (Register key ti pr cls val st u no) s = snd (register_conversation key ti pr cls val st u no s)"
| "run_op H num tz zone (Import rs) s = snd (import_registry rs s)"
| "run_op H num tz zone (Review key r now) s = snd (record_review H num tz key r now s)"
| "run_op H num tz zone (Observe sk key ty sev ev con material now) s = snd (observe H sk key ty sev ev con material now s)"
| "run_op H num tz zone (Schedule now) s = snd (ensure_scheduled_work tz now s)"
| "run_op H num tz zone (Claim key claimer lease now) s = snd (claim_work key claimer lease now s)"
| "run_op H num tz zone (Finish key res now) s = snd (complete_work key res now s)"
| "run_op H num tz zone (Cycle now) s = snd (run_cycle H num tz zone now s)"

definition run_intel :: "(string \<Rightarrow> string) \<Rightarrow> (rat \<Rightarrow> json) \<Rightarrow> (int \<Rightarrow> int) \<Rightarrow> string \<Rightarrow> intel_op \<Rightarrow> intel \<Rightarrow> intel" where
  "run_intel H num tz zone op s = (if instant (op_time op) then run_op H num tz zone op s else s)"

section \<open>The invariant\<close>

definition work_ok :: "work_item \<Rightarrow> bool" where
  "work_ok w \<longleftrightarrow> (\<exists>t. instant t \<and> due_at w = isoformat t)
     \<and> (work_status w = RUNNING \<longrightarrow> claimed_by w \<noteq> None \<and> (\<exists>t. instant t \<and> lease_until w = Some (isoformat t)))
     \<and> (work_status w = COMPLETE \<longleftrightarrow> completed_at w \<noteq> None)"

definition work_inv :: "work_item list \<Rightarrow> bool" where
  "work_inv ws \<longleftrightarrow> distinct (map work_key ws) \<and> (\<forall>w\<in>set ws. work_ok w)"

definition changes_inv :: "(string \<Rightarrow> string) \<Rightarrow> change_event list \<Rightarrow> bool" where
  "changes_inv H es \<longleftrightarrow> chain_from H event_text prev_event_hash event_hash genesis es
     \<and> distinct (map event_key es) \<and> distinct (map dedupe_key es)"

definition intel_inv :: "(string \<Rightarrow> string) \<Rightarrow> intel \<Rightarrow> bool" where
  "intel_inv H s \<longleftrightarrow> changes_inv H (changes s) \<and> work_inv (work s) \<and> distinct (map conv_key (conversations s))
     \<and> policies s = seed_policies []"

text \<open>What happens to a work item: it keeps its key, and once complete it stays as it is.\<close>

definition work_step :: "work_item \<Rightarrow> work_item \<Rightarrow> bool" where
  "work_step w w' \<longleftrightarrow> work_key w' = work_key w \<and> (work_status w = COMPLETE \<longrightarrow> w' = w)"

definition intel_older :: "intel \<Rightarrow> intel \<Rightarrow> bool" where
  "intel_older s s' \<longleftrightarrow> prefix (changes s) (changes s') \<and> evolves work_step (work s) (work s')"

lemma work_step_refl [simp]: "work_step w w"
  by (simp add: work_step_def)

lemma work_step_trans: "work_step a b \<Longrightarrow> work_step b c \<Longrightarrow> work_step a c"
  by (cases "work_status a = COMPLETE") (auto simp: work_step_def)

lemma intel_older_refl [simp]: "intel_older s s"
  by (simp add: intel_older_def evolves_refl)

lemma intel_older_trans: "intel_older a b \<Longrightarrow> intel_older b c \<Longrightarrow> intel_older a c"
  unfolding intel_older_def
  by (elim conjE, intro conjI) (erule (1) prefix_order.trans, rule evolves_trans [OF work_step_trans])

text \<open>What an operation that leaves log and work alone has to show.\<close>

lemma frame_step:
  assumes "intel_inv H s" "changes s' = changes s" "work s' = work s" "policies s' = policies s"
    "distinct (map conv_key (conversations s'))"
  shows "intel_inv H s' \<and> intel_older s s'"
  using assms by (simp add: intel_inv_def intel_older_def evolves_refl)

section \<open>Conversations\<close>

definition conv_frame :: "intel \<Rightarrow> intel \<Rightarrow> bool" where
  "conv_frame s s' \<longleftrightarrow> changes s' = changes s \<and> work s' = work s \<and> policies s' = policies s
     \<and> (distinct (map conv_key (conversations s)) \<longrightarrow> distinct (map conv_key (conversations s')))"

lemma conv_frame_refl [simp]: "conv_frame s s"
  by (simp add: conv_frame_def)

lemma conv_frame_trans: "conv_frame a b \<Longrightarrow> conv_frame b c \<Longrightarrow> conv_frame a c"
  by (simp add: conv_frame_def)

lemma conv_frame_step: "intel_inv H s \<Longrightarrow> conv_frame s s' \<Longrightarrow> intel_inv H s' \<and> intel_older s s'"
  by (rule frame_step) (simp_all add: conv_frame_def intel_inv_def)

lemma conv_update_keys [simp]:
  "(\<And>c. conv_key (f c) = conv_key c) \<Longrightarrow> map conv_key (update_where P f cs) = map conv_key cs"
  by (rule map_update_where)

lemma register_frame: "conv_frame s (snd (register_conversation key ti pr cls val st u no s))"
  by (auto simp: register_conversation_def conv_frame_def upsert_by_def)

lemma import_one_frame: "conv_frame s (snd (import_one r s))"
proof (cases "rec_key r")
  case (Some key)
  show ?thesis
  proof (cases "rec_title r")
    case (Some ti)
    let ?reg = "register_conversation key ti (or_default ''Automation'' (rec_project r)) (or_default ''P2'' (rec_class r))
      (or_default (1 / 2) (rec_value r)) (or_default ''ACTIVE'' (rec_status r)) (or_default 0 (rec_unresolved r))
      (or_default [] (rec_notes r)) s"
    have "conv_frame s (snd ?reg)" by (rule register_frame)
    then show ?thesis using \<open>rec_key r = Some key\<close> Some
      by (cases ?reg; cases "fst ?reg") (auto simp: import_one_def conv_frame_def)
  qed (simp add: import_one_def \<open>rec_key r = Some key\<close>)
qed (simp add: import_one_def)

lemma import_all_frame: "conv_frame s (snd (import_all rs s))"
proof (induction rs arbitrary: s)
  case (Cons r rs)
  obtain res s1 where r: "import_one r s = (res, s1)" by (rule prod.exhaust)
  then have "conv_frame s s1" using import_one_frame [of s r] by simp
  then show ?case using r Cons.IH [of s1] by (cases res) (auto intro: conv_frame_trans)
qed simp

lemma import_frame: "conv_frame s (snd (import_registry rs s))"
  using import_all_frame [of s rs] by (auto simp: import_registry_def split: prod.split sum.split)

lemma review_frame: "conv_frame s (snd (record_review H num tz key r now s))"
  by (simp add: record_review_def conv_frame_def Let_def split: sum.split)

section \<open>Changes\<close>

lemma chain_add:
  assumes "changes_inv H es" "prev_event_hash e = tip event_hash genesis es" "event_hash e = H (event_text e)"
    "\<not> (\<exists>x\<in>set es. event_key x = event_key e \<or> dedupe_key x = dedupe_key e \<or> event_hash x = event_hash e)"
  shows "changes_inv H (es @ [e])"
  using assms by (auto simp: changes_inv_def chain_from_snoc)

lemma change_text_hash [simp]: "event_text (e\<lparr>event_hash := h\<rparr>) = event_text e"
  by (simp add: event_text_def)

lemma enqueue_inv: "work_inv ws \<Longrightarrow> work_ok w \<Longrightarrow> work_inv (snd (enqueue_work w ws))"
  by (auto simp: enqueue_work_def work_inv_def)

lemma enqueue_evolves: "evolves work_step ws (snd (enqueue_work w ws))"
  by (simp add: enqueue_work_def evolves_refl evolvesI_append)

lemma queued_ok: "instant t \<Longrightarrow> work_ok (queued key (isoformat t) k d p payload src)"
  by (auto simp: work_ok_def queued_def)

lemma change_of_fields [simp]:
  "prev_event_hash (change_of H sk key ty sev ev con p now s) = tip event_hash genesis (changes s)"
  "event_hash (change_of H sk key ty sev ev con p now s) = H (event_text (change_of H sk key ty sev ev con p now s))"
  "dedupe_key (change_of H sk key ty sev ev con p now s) = dedupe_of H sk key ty ev"
  "event_key (change_of H sk key ty sev ev con p now s) = event_key_of H (dedupe_of H sk key ty ev)"
  "detected_at (change_of H sk key ty sev ev con p now s) = isoformat now"
  by (simp_all add: change_of_def Let_def event_text_def)

lemma change_work_fields [simp]:
  "work_key (change_work e p rank) = ''event:'' @ event_key e" "source_event_key (change_work e p rank) = Some (event_key e)"
  by (simp_all add: change_work_def queued_def)

lemma snapshot_put [simp]: "snapshot_hash sk key (s\<lparr>changes := c, work := w, snapshots := put_snapshot H sk key ev now (snapshots s)\<rparr>)
    = canonical_sha256 H ev"
proof -
  let ?P = "\<lambda>x. snap_kind x = sk \<and> snap_key x = key"
  have "\<exists>x. select_one ?P (put_snapshot H sk key ev now (snapshots s)) = Some x \<and> content_hash x = canonical_sha256 H ev"
  proof (cases "\<exists>x\<in>set (snapshots s). ?P x")
    case True
    have "\<exists>x. select_one ?P (update_where ?P f xs) = Some x \<and> content_hash x = canonical_sha256 H ev"
      if "\<exists>x\<in>set xs. ?P x" "f = (\<lambda>x. x\<lparr>content_hash := canonical_sha256 H ev, snap_payload := sort_keys ev, observed_at := isoformat now\<rparr>)"
      for xs f
      using that by (induction xs) (auto simp: select_one_Cons update_where_Cons)
    from this [OF True refl] show ?thesis using True by (auto simp: put_snapshot_def upsert_by_def)
  next
    case False
    then have "select_one ?P (snapshots s) = None" by (simp add: select_one_None)
    then show ?thesis using False by (auto simp: put_snapshot_def upsert_by_def select_one_append select_one_Cons)
  qed
  then show ?thesis by (auto simp: snapshot_hash_def)
qed

text \<open>An observation that is recorded: an event and a work item that are new or already there.\<close>

lemma observe_cases:
  obtains (same) "snd (observe H sk key ty sev ev con material now s) = s"
      "\<And>e. fst (observe H sk key ty sev ev con material now s) \<noteq> Inr (Some e)"
  | (new) e p rank where "e = change_of H sk key ty sev ev con p now s" "canonical_sha256 H ev \<noteq> snapshot_hash sk key s"
      "observe H sk key ty sev ev con material now s = (Inr (Some e),
        s\<lparr>changes := insert_change e (changes s), work := snd (enqueue_work (change_work e p rank) (work s)),
          snapshots := put_snapshot H sk key ev now (snapshots s)\<rparr>)"
proof (cases "map_of severity_order sev")
  case None
  show thesis by (rule same) (simp_all add: observe_def None)
next
  case rank: (Some rank)
  show thesis
  proof (cases "canonical_sha256 H ev = snapshot_hash sk key s")
    case True
    show thesis by (rule same) (simp_all add: observe_def rank True)
  next
    case False
    show thesis
    proof (cases "policy_of_change ty material s")
      case (Inl e)
      show thesis by (rule same) (simp_all add: observe_def rank False Inl)
    next
      case (Inr p)
      let ?e = "change_of H sk key ty sev ev con p now s"
      let ?q = "enqueue_work (change_work ?e p rank) (work s)"
      show thesis
      proof (cases "fst ?q \<and> \<not> (\<exists>x\<in>set (insert_change ?e (changes s)). event_key x = event_key ?e)")
        case True
        show thesis by (rule same) (use True in \<open>simp_all add: observe_def rank False Inr Let_def case_prod_unfold\<close>)
      next
        case n: False
        show thesis by (rule new [OF refl False]) (use n in \<open>simp add: observe_def rank False Inr Let_def case_prod_unfold\<close>)
      qed
    qed
  qed
qed

lemma insert_change_inv:
  "changes_inv H es \<Longrightarrow> prev_event_hash e = tip event_hash genesis es \<Longrightarrow> event_hash e = H (event_text e) \<Longrightarrow>
     changes_inv H (insert_change e es)"
  by (simp add: insert_change_def chain_add)

lemma observe_step:
  assumes inv: "intel_inv H s" and t: "instant now"
  shows "intel_inv H (snd (observe H sk key ty sev ev con material now s))
    \<and> intel_older s (snd (observe H sk key ty sev ev con material now s))"
proof (rule observe_cases [of H sk key ty sev ev con material now s], goal_cases)
  case 1
  then show ?case using inv by simp
next
  case (2 e p rank)
  note e = \<open>e = _\<close> and o = \<open>observe _ _ _ _ _ _ _ _ _ _ = _\<close>
  have "changes_inv H (insert_change e (changes s))"
    using inv by (intro insert_change_inv) (simp_all add: e intel_inv_def)
  moreover have "work_ok (change_work e p rank)" by (simp add: change_work_def e queued_ok t)
  then have "work_inv (snd (enqueue_work (change_work e p rank) (work s)))"
    using inv by (intro enqueue_inv) (simp_all add: intel_inv_def)
  moreover have "prefix (changes s) (insert_change e (changes s))" by (simp add: insert_change_def)
  ultimately show ?case using inv unfolding o by (simp add: intel_inv_def intel_older_def enqueue_evolves)
qed

section \<open>Schedules\<close>

lemma schedule_one_cases:
  obtains (err) e where "schedule_one l now nk c (created, s) = (Inl e, s)"
  | (ok) w p payload where "window_key c l = Inr w" "policy_for c s = Inr p"
      "schedule_one l now nk c (created, s)
        = (Inr (if \<exists>x\<in>set (work s). work_key x = scheduled_key c w then created else created @ [scheduled_key c w]),
           s\<lparr>work := snd (enqueue_work (queued (scheduled_key c w) (isoformat now) c (dispatch_class p) (policy_priority p)
             (JObj payload) None) (work s))\<rparr>)"
proof (cases "policy_for c s")
  case (Inl e)
  then show thesis by (intro err) (simp add: schedule_one_def)
next
  case p: (Inr p)
  show thesis
  proof (cases "window_key c l")
    case (Inl e)
    then show thesis using p by (intro err) (simp add: schedule_one_def)
  next
    case (Inr w)
    let ?payload = "[(''event_class'', JStr c), (''window'', JStr w)]"
    show thesis by (rule ok [OF Inr p, of "if c = ''ORDINARY_REVIEW'' then (''conversation_key'', opt_str nk) # ?payload else ?payload"])
      (simp add: schedule_one_def p Inr Let_def enqueue_work_def queued_def)
  qed
qed

text \<open>What scheduling does: it only adds work items, whose keys it reports.\<close>

definition scheduled :: "string list \<Rightarrow> intel \<Rightarrow> string list \<Rightarrow> intel \<Rightarrow> bool" where
  "scheduled created s created' s' \<longleftrightarrow> (\<exists>ws. s' = s\<lparr>work := work s @ ws\<rparr> \<and> created' = created @ map work_key ws
     \<and> (\<forall>w\<in>set ws. work_ok w) \<and> distinct (map work_key ws) \<and> set (map work_key ws) \<inter> set (map work_key (work s)) = {})"

lemma scheduled_refl: "scheduled created s created s"
  unfolding scheduled_def by (rule exI [of _ "[]"]) simp

lemma scheduled_trans:
  assumes "scheduled a s b t" "scheduled b t c u"
  shows "scheduled a s c u"
proof -
  obtain ws where ws: "t = s\<lparr>work := work s @ ws\<rparr>" "b = a @ map work_key ws" "\<forall>w\<in>set ws. work_ok w"
    "distinct (map work_key ws)" "set (map work_key ws) \<inter> set (map work_key (work s)) = {}"
    using assms(1) unfolding scheduled_def by blast
  obtain vs where vs: "u = t\<lparr>work := work t @ vs\<rparr>" "c = b @ map work_key vs" "\<forall>w\<in>set vs. work_ok w"
    "distinct (map work_key vs)" "set (map work_key vs) \<inter> set (map work_key (work t)) = {}"
    using assms(2) unfolding scheduled_def by blast
  show ?thesis unfolding scheduled_def
    by (rule exI [of _ "ws @ vs"]) (use ws vs in \<open>auto simp: Int_Un_distrib Int_Un_distrib2\<close>)
qed

lemma schedule_one_scheduled:
  assumes "schedule_one l now nk c (created, s) = (res, s')" "instant now"
  shows "case res of Inl e \<Rightarrow> s' = s | Inr created' \<Rightarrow> scheduled created s created' s'"
proof (rule schedule_one_cases [of l now nk c created s], goal_cases)
  case (1 e)
  then show ?case using assms(1) by simp
next
  case (2 w p payload)
  let ?w = "queued (scheduled_key c w) (isoformat now) c (dispatch_class p) (policy_priority p) (JObj payload) None"
  have ok: "work_ok ?w" by (rule queued_ok [OF assms(2)])
  have key: "work_key ?w = scheduled_key c w" by (simp add: queued_def)
  show ?case
  proof (cases "\<exists>x\<in>set (work s). work_key x = scheduled_key c w")
    case True
    then show ?thesis using 2(3) assms(1) by (auto simp: enqueue_work_def key scheduled_refl)
  next
    case False
    then have "scheduled created s (created @ [scheduled_key c w]) (s\<lparr>work := work s @ [?w]\<rparr>)"
      unfolding scheduled_def using ok key by (intro exI [of _ "[?w]"]) auto
    then show ?thesis using 2(3) assms(1) False by (auto simp: enqueue_work_def key)
  qed
qed

lemma schedule_all_scheduled:
  assumes "schedule_all l now nk cs (created, s) = (res, s')" "instant now"
  shows "(\<exists>created'. scheduled created s created' s') \<and> (case res of Inl e \<Rightarrow> True | Inr created' \<Rightarrow> scheduled created s created' s')"
  using assms(1)
proof (induction cs arbitrary: created s)
  case Nil
  then show ?case using scheduled_refl by (auto split: sum.split)
next
  case (Cons c cs)
  obtain r1 s1 where one: "schedule_one l now nk c (created, s) = (r1, s1)" by (rule prod.exhaust)
  note step = schedule_one_scheduled [OF one assms(2)]
  show ?case
  proof (cases r1)
    case (Inl e)
    then show ?thesis using step one Cons.prems scheduled_refl by (auto split: sum.split)
  next
    case (Inr c1)
    then have "schedule_all l now nk cs (c1, s1) = (res, s')" using Cons.prems one by simp
    note ih = Cons.IH [OF this]
    have "scheduled created s c1 s1" using step Inr by simp
    then have t: "scheduled c1 s1 x s' \<Longrightarrow> scheduled created s x s'" for x by (rule scheduled_trans)
    show ?thesis using ih t by (cases res) auto
  qed
qed

lemma schedule_scheduled:
  assumes "ensure_scheduled_work tz now s = (res, s')" "instant now"
  shows "(\<exists>created. scheduled [] s created s') \<and> (case res of Inl e \<Rightarrow> True | Inr created \<Rightarrow> scheduled [] s created s')"
proof (cases "next_conversation tz now s")
  case (Inl e)
  then show ?thesis using assms scheduled_refl by (auto simp: ensure_scheduled_work_def)
next
  case nc: (Inr nc)
  show ?thesis
  proof (cases "local_time tz now")
    case (Inl e)
    then show ?thesis using assms nc scheduled_refl by (auto simp: ensure_scheduled_work_def)
  next
    case (Inr l)
    then have "schedule_all l now (map_option conv_key nc) (if nc = None then scheduled_classes else ''ORDINARY_REVIEW'' # scheduled_classes)
      ([], s) = (res, s')" using assms nc by (simp add: ensure_scheduled_work_def)
    from schedule_all_scheduled [OF this assms(2)] show ?thesis .
  qed
qed

lemma scheduled_step:
  assumes "intel_inv H s" "scheduled a s b s'"
  shows "intel_inv H s' \<and> intel_older s s'"
proof -
  obtain ws where ws: "s' = s\<lparr>work := work s @ ws\<rparr>" "\<forall>w\<in>set ws. work_ok w"
    "distinct (map work_key ws)" "set (map work_key ws) \<inter> set (map work_key (work s)) = {}"
    using assms(2) unfolding scheduled_def by blast
  then have "distinct (map work_key (work s @ ws))" using assms(1) unfolding intel_inv_def work_inv_def
    by (simp only: map_append distinct_append) (simp add: Int_commute)
  then show ?thesis using assms(1) ws by (auto simp: intel_inv_def work_inv_def intel_older_def evolvesI_append)
qed

section \<open>Leases\<close>

lemma parse_isoformat [simp]: "instant t \<Longrightarrow> parse_iso (isoformat t) = Inr t"
  by (simp add: parse_iso_def fromisoformat_isoformat)

lemma isoformat_ne [simp]: "isoformat t \<noteq> []"
  by (simp add: isoformat_def split: prod.split)

text \<open>Who may take an item: anyone while it is queued, and after the end of the last lease.\<close>

definition takeable :: "int \<Rightarrow> work_item \<Rightarrow> bool" where
  "takeable now w \<longleftrightarrow> work_status w = QUEUED
     \<or> work_status w = RUNNING \<and> (\<exists>t. instant t \<and> lease_until w = Some (isoformat t) \<and> t \<le> now)"

lemma claimable_ok: "work_ok w \<Longrightarrow> claimable now w = Inr (takeable now w)"
  by (cases "work_status w") (auto simp: work_ok_def claimable_def takeable_def or_default_def isoformat_eq)

definition leased :: "string \<Rightarrow> int \<Rightarrow> work_item \<Rightarrow> work_item" where
  "leased claimer t w = w\<lparr>work_status := RUNNING, claimed_by := Some claimer, lease_until := Some (isoformat t)\<rparr>"

lemma leased_key [simp]: "work_key (leased claimer t w) = work_key w"
  by (simp add: leased_def)

lemma work_claim_cases:
  assumes inv: "work_inv (work s)"
  obtains (no) "snd (claim_work key claimer lease now s) = s" "\<And>w. fst (claim_work key claimer lease now s) \<noteq> Inr (Some w)"
  | (yes) w where "w \<in> set (work s)" "work_key w = key" "takeable now w" "0 < lease" "now + lease * 1000000 < max_instant"
      "claim_work key claimer lease now s = (Inr (Some (leased claimer (now + lease * 1000000) w)),
         s\<lparr>work := update_where (\<lambda>w. work_key w = key) (leased claimer (now + lease * 1000000)) (work s)\<rparr>)"
proof (cases "lease < 1 \<or> max_instant \<le> now + lease * 1000000")
  case True
  then show thesis by (intro no) (auto simp: claim_work_def)
next
  case g: False
  show thesis
  proof (cases "select_one (\<lambda>w. work_key w = key) (work s)")
    case None
    show thesis by (rule no) (use g None in \<open>simp_all add: claim_work_def\<close>)
  next
    case (Some w)
    then have w: "w \<in> set (work s)" "work_key w = key" using select_one_SomeD [OF Some] by blast+
    then have ok: "work_ok w" using inv by (simp add: work_inv_def)
    then obtain due where due: "instant due" "due_at w = isoformat due" by (auto simp: work_ok_def)
    show thesis
    proof (cases "takeable now w \<and> due \<le> now")
      case False
      show thesis by (rule no)
        (use g Some claimable_ok [OF ok, of now] due False in \<open>auto simp: claim_work_def\<close>)
    next
      case True
      have "select_one (\<lambda>w. work_key w = key) (update_where (\<lambda>w. work_key w = key) (leased claimer (now + lease * 1000000)) (work s))
          = Some (leased claimer (now + lease * 1000000) w)"
        using Some by (simp add: select_one_update_where)
      then show thesis using g Some claimable_ok [OF ok, of now] due True w
        by (intro yes [OF w]) (auto simp: claim_work_def Let_def leased_def [abs_def])
    qed
  qed
qed

lemma update_work_inv:
  assumes "work_inv ws" "\<And>w. work_key (f w) = work_key w" "\<And>w. w \<in> set ws \<Longrightarrow> P w \<Longrightarrow> work_ok w \<Longrightarrow> work_ok (f w)"
  shows "work_inv (update_where P f ws)"
proof -
  have "\<forall>w\<in>set (update_where P f ws). work_ok w"
    by (rule all_update_where) (use assms(1,3) in \<open>auto simp: work_inv_def\<close>)
  moreover have "map work_key (update_where P f ws) = map work_key ws" by (rule map_update_where) (rule assms(2))
  ultimately show ?thesis using assms(1) by (simp add: work_inv_def)
qed

lemma update_work_step:
  assumes "\<And>w. w \<in> set ws \<Longrightarrow> P w \<Longrightarrow> work_step w (f w)"
  shows "evolves work_step ws (update_where P f ws)"
  by (rule evolves_update_where) (use assms in simp_all)

text \<open>Keys are unique, so an update of one key changes the one row that was read.\<close>

lemma work_unique: "work_inv ws \<Longrightarrow> w \<in> set ws \<Longrightarrow> v \<in> set ws \<Longrightarrow> work_key v = work_key w \<Longrightarrow> v = w"
  unfolding work_inv_def distinct_map using inj_onD [of work_key "set ws" v w] by blast

lemma leased_ok: "work_ok w \<Longrightarrow> instant t \<Longrightarrow> work_status w \<noteq> COMPLETE \<Longrightarrow> work_ok (leased claimer t w)"
  by (auto simp: work_ok_def leased_def)

lemma claim_step:
  assumes inv: "intel_inv H s" and t: "instant now"
  shows "intel_inv H (snd (claim_work key claimer lease now s)) \<and> intel_older s (snd (claim_work key claimer lease now s))"
proof -
  have w: "work_inv (work s)" using inv by (simp add: intel_inv_def)
  show ?thesis
  proof (rule work_claim_cases [OF w, of key claimer lease now], goal_cases)
    case 1
    then show ?case using inv by simp
  next
    case (2 v)
    let ?ws = "update_where (\<lambda>w. work_key w = key) (leased claimer (now + lease * 1000000)) (work s)"
    have open_: "work_status x \<noteq> COMPLETE" if "x \<in> set (work s)" "work_key x = key" for x
      using work_unique [OF w 2(1) that(1)] that(2) 2(2,3) by (auto simp: takeable_def)
    have i: "instant (now + lease * 1000000)" using t 2(4,5) by (simp add: instant_def)
    have "work_inv ?ws" using w open_ leased_ok [OF _ i] by (intro update_work_inv) auto
    moreover have "evolves work_step (work s) ?ws" using open_ by (intro update_work_step) (simp add: work_step_def)
    ultimately show ?case using inv 2(6) by (simp add: intel_inv_def intel_older_def)
  qed
qed

definition finished :: "json \<Rightarrow> int \<Rightarrow> work_item \<Rightarrow> work_item" where
  "finished res now w = w\<lparr>work_status := COMPLETE, completed_at := Some (isoformat now), work_result := Some (sort_keys res), lease_until := None\<rparr>"

lemma finish_cases:
  obtains (same) "snd (complete_work key res now s) = s"
  | (fin) w s' where "select_one (\<lambda>w. work_key w = key) (work s) = Some w" "work_status w \<noteq> COMPLETE"
      "complete_work key res now s = (Inr (), s')" "work s' = update_where (\<lambda>w. work_key w = key) (finished res now) (work s)"
      "changes s' = changes s" "policies s' = policies s" "conversations s' = conversations s"
proof (cases "select_one (\<lambda>w. work_key w = key) (work s)")
  case None
  then show thesis by (intro same) (simp add: complete_work_def)
next
  case (Some w)
  show thesis
  proof (cases "work_status w = COMPLETE")
    case True
    then show thesis using Some by (intro same) (simp add: complete_work_def)
  next
    case False
    obtain s' where s': "complete_work key res now s = (Inr (), s')"
      using Some False by (simp add: complete_work_def Let_def)
    have "work s' = update_where (\<lambda>w. work_key w = key) (finished res now) (work s)"
      "changes s' = changes s" "policies s' = policies s" "conversations s' = conversations s"
      using s' Some False by (auto simp: complete_work_def Let_def finished_def [abs_def] split: option.splits if_splits)
    then show thesis by (rule fin [OF Some False s'])
  qed
qed

lemma finish_step:
  assumes inv: "intel_inv H s"
  shows "intel_inv H (snd (complete_work key res now s)) \<and> intel_older s (snd (complete_work key res now s))"
proof (rule finish_cases [of key res now s], goal_cases)
  case 1
  then show ?case using inv by simp
next
  case (2 w s')
  have w: "work_inv (work s)" using inv by (simp add: intel_inv_def)
  have m: "w \<in> set (work s)" "work_key w = key" using select_one_SomeD [OF 2(1)] by blast+
  have open_: "work_status x \<noteq> COMPLETE" if "x \<in> set (work s)" "work_key x = key" for x
    using work_unique [OF w m(1) that(1)] that(2) m(2) 2(2) by auto
  have "work_ok x \<Longrightarrow> work_ok (finished res now x)" for x by (auto simp: work_ok_def finished_def)
  then have "work_inv (work s')" unfolding 2(4) by (intro update_work_inv [OF w]) (simp_all add: finished_def)
  moreover have "evolves work_step (work s) (work s')" unfolding 2(4)
    using open_ by (intro update_work_step) (simp add: work_step_def finished_def)
  ultimately show ?case using inv 2(3,5-7) by (simp add: intel_inv_def intel_older_def)
qed

section \<open>The machine\<close>

text \<open>A cycle is a schedule and a row of its own table.\<close>

lemma cycle_frame: "\<exists>cs. snd (run_cycle H num tz zone now s) = (snd (ensure_scheduled_work tz now s))\<lparr>cycles := cs\<rparr>"
proof -
  obtain res s1 where e: "ensure_scheduled_work tz now s = (res, s1)" by (rule prod.exhaust)
  have same: "\<exists>cs. s1 = s1\<lparr>cycles := cs\<rparr>" by (rule exI [of _ "cycles s1"]) simp
  show ?thesis unfolding e
    by (cases res; cases "coverage_of tz now s1"; cases "local_time tz now") (use same in \<open>auto simp: run_cycle_def e Let_def\<close>)
qed

lemma cycles_frame [simp]: "intel_inv H (s\<lparr>cycles := cs\<rparr>) \<longleftrightarrow> intel_inv H s" "intel_older s (t\<lparr>cycles := cs\<rparr>) \<longleftrightarrow> intel_older s t"
  by (simp_all add: intel_inv_def intel_older_def)

lemma schedule_step:
  assumes "intel_inv H s" "instant now"
  shows "intel_inv H (snd (ensure_scheduled_work tz now s)) \<and> intel_older s (snd (ensure_scheduled_work tz now s))"
proof -
  obtain res s1 where e: "ensure_scheduled_work tz now s = (res, s1)" by (rule prod.exhaust)
  from schedule_scheduled [OF e assms(2)] scheduled_step [OF assms(1)] show ?thesis by (auto simp: e)
qed

lemma run_op_step:
  assumes inv: "intel_inv H s" and t: "instant (op_time op)"
  shows "intel_inv H (run_op H num tz zone op s) \<and> intel_older s (run_op H num tz zone op s)"
proof (cases op)
  case (Cycle now)
  then show ?thesis using cycle_frame [of H num tz zone now s] schedule_step [OF inv, of now tz] t by auto
qed (use assms in \<open>simp_all add: conv_frame_step register_frame import_frame review_frame observe_step schedule_step claim_step finish_step\<close>)

lemma new_intel_inv: "intel_inv H new_intel"
  by (simp add: intel_inv_def new_intel_def changes_inv_def work_inv_def)

interpretation intel: evolving_machine "run_intel H num tz zone" new_intel "intel_inv H" intel_older for H num tz zone
proof
  show "intel_inv H new_intel" by (rule new_intel_inv)
  fix s op assume "intel_inv H s"
  then show "intel_inv H (run_intel H num tz zone op s)" "intel_older s (run_intel H num tz zone op s)"
    using run_op_step by (simp_all add: run_intel_def)
qed (simp, rule intel_older_trans)

end
