(* ===== verification/Intelligence_Properties.thy ===== *)
theory Intelligence_Properties
  imports Intelligence_Claims
begin

text \<open>
  The properties of the intelligence controller: its log of changes, what a change that comes back loses,
  exclusive leases, schedules without repetition, and weeks and their reviews.
\<close>

section \<open>Weeks\<close>

lemma iso_calendar_thursday:
  assumes n: "1 \<le> n" and c: "iso_calendar n = (y, w)"
  shows "1 \<le> y" "1 \<le> w" "w < 100" "(n - 1) div 7 = (ymd2ord y 1 1 + 7 * (w - 1) + 2) div 7"
proof -
  define th where "th = n - (n - 1) mod 7 + 3"
  have thw: "th = (n - 1) div 7 * 7 + 4" unfolding th_def by (simp add: minus_mod_eq_div_mult [symmetric])
  have th: "1 \<le> th" using n thw by (simp add: pos_imp_zdiv_nonneg_iff)
  obtain y' m d where o: "ord2ymd th = (y', m, d)" by (rule prod_cases3)
  then have y: "y' = y" and w: "w = (th - ymd2ord y 1 1) div 7 + 1"
    using c by (auto simp: iso_calendar_def th_def Let_def)
  have v: "valid_date (y, m, d)" "ymd2ord y m d = th" using ord2ymd_correct [OF th o] y by auto
  from ymd2ord_bounds [OF v(1)] have b: "days_before_year y < th" "th \<le> days_before_year (y + 1)" using v(2) by auto
  have j: "ymd2ord y 1 1 = days_before_year y + 1" by (simp add: ymd2ord_def)
  have b2: "th \<le> days_before_year y + 366" using b(2) days_before_year_Suc [of y] by (simp split: if_splits)
  show "1 \<le> y" using v(1) by (simp add: valid_date_def)
  show "1 \<le> w" "w < 100" using b(1) b2 by (simp_all add: w j pos_imp_zdiv_nonneg_iff)
  show "(n - 1) div 7 = (ymd2ord y 1 1 + 7 * (w - 1) + 2) div 7"
    unfolding w j using thw by (simp add: algebra_simps)
qed

lemma week_text_iff:
  assumes "instant l" "instant l'"
  shows "week_text l = week_text l' \<longleftrightarrow> l div usec_per_day div 7 = l' div usec_per_day div 7"
proof -
  let ?n = "l div usec_per_day + 1" and ?n' = "l' div usec_per_day + 1"
  obtain y w where c: "iso_calendar ?n = (y, w)" by (rule prod.exhaust)
  obtain y' w' where c': "iso_calendar ?n' = (y', w')" by (rule prod.exhaust)
  have n: "1 \<le> ?n" "1 \<le> ?n'" using day_of_instant(1) assms by blast+
  note f = iso_calendar_thursday [OF n(1) c] and f' = iso_calendar_thursday [OF n(2) c']
  have t: "week_text l = int_text y @ ''-W'' @ pad 2 w" "week_text l' = int_text y' @ ''-W'' @ pad 2 w'"
    using c c' by (simp_all add: week_text_def)
  have d: "delim (''-W'' @ r)" for r by (simp add: delim_def)
  show ?thesis
  proof
    assume "week_text l = week_text l'"
    then have "y = y'" "''-W'' @ pad 2 w = ''-W'' @ pad 2 w'"
      using int_text_prefix [OF _ d d] unfolding t by blast+
    then have "y = y'" "w = w'" using f(2,3) f'(2,3) by (simp_all add: pad_inj)
    then show "l div usec_per_day div 7 = l' div usec_per_day div 7" using f(4) f'(4) by simp
  next
    assume e: "l div usec_per_day div 7 = l' div usec_per_day div 7"
    have s: "n - (n - 1) mod 7 = (n - 1) div 7 * 7 + (1::int)" for n by (simp add: minus_mod_eq_div_mult [symmetric])
    have "iso_calendar ?n = iso_calendar ?n'" unfolding iso_calendar_def s using e by simp
    then show "week_text l = week_text l'" unfolding week_text_def by simp
  qed
qed

section \<open>Reviews of a week\<close>

text \<open>Review the next conversation, again and again.\<close>

fun review_run :: "(string \<Rightarrow> string) \<Rightarrow> (rat \<Rightarrow> json) \<Rightarrow> (int \<Rightarrow> int) \<Rightarrow> (review_input \<times> int) list \<Rightarrow> intel \<Rightarrow> string list \<times> intel" where
  "review_run H num tz [] s = ([], s)"
| "review_run H num tz ((r, now) # rs) s = (case next_conversation tz now s of
     Inr (Some c) \<Rightarrow> (case record_review H num tz (conv_key c) r now s of
        (Inr _, s1) \<Rightarrow> (let (ks, s2) = review_run H num tz rs s1 in (conv_key c # ks, s2))
      | (Inl _, s1) \<Rightarrow> ([], s1))
   | _ \<Rightarrow> ([], s))"

definition due_keys :: "string \<Rightarrow> intel \<Rightarrow> string list" where
  "due_keys week s = map conv_key (sort_key due_order (filter (is_due week) (conversations s)))"

definition in_week :: "(int \<Rightarrow> int) \<Rightarrow> string \<Rightarrow> review_input \<times> int \<Rightarrow> bool" where
  "in_week tz week i \<longleftrightarrow> week_id tz (snd i) = Inr week \<and> 0 \<le> in_confidence (fst i) \<and> in_confidence (fst i) \<le> 1"

lemma record_review_ok:
  assumes "in_week tz week (r, now)" "c \<in> set (conversations s)" "conv_key c = key"
  obtains digest s1 where "record_review H num tz key r now s = (Inr digest, s1)"
    "conversations s1 = update_where (\<lambda>c. conv_key c = key)
       (\<lambda>c. c\<lparr>last_reviewed_week := Some week, last_reviewed_at := Some (isoformat now), review_count := review_count c + 1\<rparr>)
       (conversations s)"
proof -
  have "(\<exists>c\<in>set (conversations s). conv_key c = key) = True" using assms(2,3) by blast
  then show thesis using assms(1) by (intro that) (auto simp: record_review_def in_week_def Let_def)
qed

text \<open>After a review the conversation is no longer due and the others are as they were.\<close>

lemma due_after_review:
  assumes d: "distinct (map conv_key cs)"
    and f: "\<And>c. conv_key (f c) = conv_key c" "\<And>c. due_order (f c) = due_order c" "\<And>c. \<not> is_due week (f c)"
  shows "map conv_key (sort_key due_order (filter (is_due week) (update_where (\<lambda>c. conv_key c = key) f cs)))
    = filter (\<lambda>k. k \<noteq> key) (map conv_key (sort_key due_order (filter (is_due week) cs)))"
proof -
  have "filter (is_due week) (update_where (\<lambda>c. conv_key c = key) f cs)
      = filter (\<lambda>c. conv_key c \<noteq> key) (filter (is_due week) cs)"
    by (induction cs) (use f in \<open>auto simp: update_where_Cons\<close>)
  then show ?thesis by (simp add: filter_map comp_def filter_sort [symmetric])
qed

lemma first_by_sort: "first_by f xs = (case sort_key f xs of [] \<Rightarrow> None | x # _ \<Rightarrow> Some x)"
  by (simp add: first_by_def)

lemma review_run_order:
  assumes "distinct (map conv_key (conversations s))" "list_all (in_week tz week) rs"
    "length rs = length (due_keys week s)"
  shows "fst (review_run H num tz rs s) = due_keys week s \<and> due_keys week (snd (review_run H num tz rs s)) = []"
  using assms
proof (induction rs arbitrary: s)
  case Nil
  then show ?case by simp
next
  case (Cons i rs)
  obtain r now where i: "i = (r, now)" by (rule prod.exhaust)
  have w: "in_week tz week (r, now)" using Cons.prems(2) i by simp
  obtain c cs where cs: "sort_key due_order (filter (is_due week) (conversations s)) = c # cs"
    using Cons.prems(3) by (cases "sort_key due_order (filter (is_due week) (conversations s))") (auto simp: due_keys_def)
  have next_is: "next_conversation tz now s = Inr (Some c)"
    using w cs by (simp add: next_conversation_def in_week_def first_by_sort)
  have "c \<in> set (c # cs)" by simp
  then have c: "c \<in> set (conversations s)" unfolding cs [symmetric] by simp
  obtain digest s1 where s1: "record_review H num tz (conv_key c) r now s = (Inr digest, s1)"
    "conversations s1 = update_where (\<lambda>x. conv_key x = conv_key c)
       (\<lambda>c. c\<lparr>last_reviewed_week := Some week, last_reviewed_at := Some (isoformat now), review_count := review_count c + 1\<rparr>)
       (conversations s)" by (rule record_review_ok [OF w c refl])
  have d: "distinct (due_keys week s)"
    using Cons.prems(1) by (auto simp: due_keys_def distinct_map intro: inj_on_subset)
  have "due_keys week s1 = filter (\<lambda>k. k \<noteq> conv_key c) (due_keys week s)"
    unfolding due_keys_def s1(2)
    by (rule due_after_review [OF Cons.prems(1)]) (simp_all add: due_order_def is_due_def or_default_def)
  also have "\<dots> = map conv_key cs" using d unfolding due_keys_def cs by (auto simp: filter_id_conv image_iff)
  finally have due: "due_keys week s1 = map conv_key cs" .
  have "distinct (map conv_key (conversations s1))" using Cons.prems(1) unfolding s1(2) by simp
  moreover have ds: "due_keys week s = conv_key c # map conv_key cs" by (simp add: due_keys_def cs)
  moreover have "list_all (in_week tz week) rs" using Cons.prems(2) by simp
  moreover have "length rs = length (due_keys week s1)" using Cons.prems(3) due ds by simp
  ultimately have ih: "fst (review_run H num tz rs s1) = map conv_key cs \<and> due_keys week (snd (review_run H num tz rs s1)) = []"
    using Cons.IH due by simp
  then show ?case using next_is s1(1) by (simp add: i ds case_prod_unfold Let_def)
qed

section \<open>Leases\<close>

text \<open>An item with an open lease that ends at \<open>t\<close> stays as it is, until it is completed.\<close>

definition held :: "work_item \<Rightarrow> work_item list \<Rightarrow> bool" where
  "held w ws \<longleftrightarrow> (\<exists>v\<in>set ws. work_key v = work_key w \<and> (v = w \<or> work_status v = COMPLETE))"

lemma held_append: "held w ws \<Longrightarrow> held w (ws @ vs)"
  by (auto simp: held_def)

lemma held_update:
  assumes "held w ws" "\<And>v. work_key (f v) = work_key v"
    "\<And>v. v \<in> set ws \<Longrightarrow> work_key v = work_key w \<Longrightarrow> v = w \<or> work_status v = COMPLETE \<Longrightarrow> P v \<Longrightarrow> work_status (f v) = COMPLETE"
  shows "held w (update_where P f ws)"
proof -
  obtain v where v: "v \<in> set ws" "work_key v = work_key w" "v = w \<or> work_status v = COMPLETE"
    using assms(1) unfolding held_def by blast
  then have "(if P v then f v else v) \<in> set (update_where P f ws)" by (simp add: set_update_where)
  moreover have "work_key (if P v then f v else v) = work_key w" using v(2) assms(2) by simp
  moreover have "(if P v then f v else v) = w \<or> work_status (if P v then f v else v) = COMPLETE" using v assms(3) by simp
  ultimately show ?thesis unfolding held_def by blast
qed

lemma not_takeable:
  assumes "work_status w = RUNNING" "lease_until w = Some (isoformat t)" "instant t" "now < t"
  shows "\<not> takeable now w"
  using assms by (auto simp: takeable_def isoformat_eq)

lemma held_not_claimed:
  assumes inv: "work_inv (work s)" and h: "held w (work s)"
    and w: "work_status w = RUNNING" "lease_until w = Some (isoformat t)" "instant t" "now < t"
  shows "snd (claim_work (work_key w) claimer lease now s) = s \<and> (\<forall>v. fst (claim_work (work_key w) claimer lease now s) \<noteq> Inr (Some v))"
proof (rule work_claim_cases [OF inv, of "work_key w" claimer lease now], goal_cases)
  case 1
  then show ?case by simp
next
  case (2 v)
  obtain u where u: "u \<in> set (work s)" "work_key u = work_key w" "u = w \<or> work_status u = COMPLETE" using h by (auto simp: held_def)
  then have "v = u" using work_unique [OF inv u(1) 2(1)] 2(2) by simp
  then show ?case using 2(3) u(3) not_takeable [OF w] by (auto simp: takeable_def)
qed

lemma held_step:
  assumes inv: "intel_inv H s" and h: "held w (work s)"
    and w: "work_status w = RUNNING" "lease_until w = Some (isoformat t)" "instant t"
    and op: "op_time op < t" "instant (op_time op)"
  shows "held w (work (run_op H num tz zone op s))"
proof -
  have wi: "work_inv (work s)" using inv by (simp add: intel_inv_def)
  have keep: "held w (work s')" if "scheduled a s b s'" for a b s'
    using that h held_append by (auto simp: scheduled_def)
  show ?thesis
  proof (cases op)
    case (Observe sk key ty sev ev con material now)
    show ?thesis unfolding Observe run_op.simps
      by (rule observe_cases [of H sk key ty sev ev con material now s]) (use h held_append in \<open>auto simp: enqueue_work_def\<close>)
  next
    case (Schedule now)
    obtain res s1 where e: "ensure_scheduled_work tz now s = (res, s1)" by (rule prod.exhaust)
    show ?thesis using schedule_scheduled [OF e] keep op(2) e unfolding Schedule by auto
  next
    case (Cycle now)
    obtain res s1 where e: "ensure_scheduled_work tz now s = (res, s1)" by (rule prod.exhaust)
    show ?thesis using schedule_scheduled [OF e] keep op(2) e cycle_frame [of H num tz zone now s] unfolding Cycle by auto
  next
    case (Claim key claimer lease now)
    show ?thesis
    proof (cases "key = work_key w")
      case True
      then show ?thesis using held_not_claimed [OF wi h w, of now claimer lease] h op(1) unfolding Claim by simp
    next
      case False
      show ?thesis unfolding Claim run_op.simps
        by (rule work_claim_cases [OF wi, of key claimer lease now]) (use h False in \<open>auto intro: held_update\<close>)
    qed
  next
    case (Finish key res now)
    show ?thesis unfolding Finish run_op.simps
      by (rule finish_cases [of key res now s]) (use h in \<open>auto intro: held_update simp: finished_def\<close>)
  next
    case (Register key ti pr cls val st u no)
    then show ?thesis using register_frame [of s key ti pr cls val st u no] h by (simp add: conv_frame_def)
  next
    case (Import rs)
    then show ?thesis using import_frame [of s rs] h by (simp add: conv_frame_def)
  next
    case (Review key r now)
    then show ?thesis using review_frame [of s H num tz key r now] h by (simp add: conv_frame_def)
  qed
qed

lemma held_run:
  assumes "intel_inv H s" "held w (work s)" "work_status w = RUNNING" "lease_until w = Some (isoformat t)" "instant t"
    "list_all (\<lambda>op. op_time op < t) ops"
  shows "held w (work (run_all (run_intel H num tz zone) ops s))"
  using assms(1,2,6)
proof (induction ops arbitrary: s)
  case (Cons op ops)
  have "held w (work (run_intel H num tz zone op s))"
    using held_step [OF Cons.prems(1,2) assms(3-5), of op num tz zone] Cons.prems by (simp add: run_intel_def)
  then show ?case using Cons intel.run_inv [OF Cons.prems(1)] by simp
qed simp

section \<open>Events and their work\<close>

text \<open>Every event has a key computed from its dedupe key, and once had its work item queued.\<close>

definition traced :: "(string \<Rightarrow> string) \<Rightarrow> intel \<Rightarrow> bool" where
  "traced H s \<longleftrightarrow> (\<forall>e\<in>set (changes s). event_key e = event_key_of H (dedupe_key e)
     \<and> (\<exists>w\<in>set (work s). work_key w = ''event:'' @ event_key e))"

lemma work_keys_stay: "evolves work_step ws ws' \<Longrightarrow> w \<in> set ws \<Longrightarrow> \<exists>w'\<in>set ws'. work_key w' = work_key w"
  using evolves_member [of work_step ws ws' w] by (auto simp: work_step_def)

lemma older_keys: "intel_older s s' \<Longrightarrow> set (map work_key (work s)) \<subseteq> set (map work_key (work s'))"
proof
  fix k assume o: "intel_older s s'" and "k \<in> set (map work_key (work s))"
  then obtain w where w: "w \<in> set (work s)" "k = work_key w" by auto
  have "evolves work_step (work s) (work s')" using o by (simp add: intel_older_def)
  from work_keys_stay [OF this w(1)] obtain w' where "w' \<in> set (work s')" "work_key w' = work_key w" by blast
  then show "k \<in> set (map work_key (work s'))" unfolding w(2) by (metis image_eqI list.set_map)
qed

lemma traced_frame: "traced H s \<Longrightarrow> changes s' = changes s \<Longrightarrow> intel_older s s' \<Longrightarrow> traced H s'"
  unfolding traced_def
proof (intro ballI)
  fix e assume tr: "\<forall>e\<in>set (changes s). event_key e = event_key_of H (dedupe_key e)
     \<and> (\<exists>w\<in>set (work s). work_key w = ''event:'' @ event_key e)"
    and c: "changes s' = changes s" and o: "intel_older s s'" and e: "e \<in> set (changes s')"
  have k: "event_key e = event_key_of H (dedupe_key e)" using tr c e by simp
  obtain w where w: "w \<in> set (work s)" "work_key w = ''event:'' @ event_key e" using tr c e by auto
  have "evolves work_step (work s) (work s')" using o by (simp add: intel_older_def)
  from work_keys_stay [OF this w(1)] obtain w' where "w' \<in> set (work s')" "work_key w' = work_key w" by blast
  then show "event_key e = event_key_of H (dedupe_key e) \<and> (\<exists>w\<in>set (work s'). work_key w = ''event:'' @ event_key e)"
    using k w(2) by (intro conjI bexI [of _ w']) simp_all
qed

lemma scheduled_changes: "scheduled a s b s' \<Longrightarrow> changes s' = changes s"
  by (auto simp: scheduled_def)

lemma schedule_changes: "instant now \<Longrightarrow> changes (snd (ensure_scheduled_work tz now s)) = changes s"
  using schedule_scheduled [of tz now s] scheduled_changes by (cases "ensure_scheduled_work tz now s") fastforce

lemma traced_grow:
  assumes "traced H s" "set (changes s') \<subseteq> insert e (set (changes s))" "set (work s) \<subseteq> set (work s')"
    "event_key e = event_key_of H (dedupe_key e)" "\<exists>w\<in>set (work s'). work_key w = ''event:'' @ event_key e"
  shows "traced H s'"
  unfolding traced_def
proof
  fix x assume x: "x \<in> set (changes s')"
  show "event_key x = event_key_of H (dedupe_key x) \<and> (\<exists>w\<in>set (work s'). work_key w = ''event:'' @ event_key x)"
  proof (cases "x = e")
    case True
    then show ?thesis using assms(4,5) by blast
  next
    case False
    then have "x \<in> set (changes s)" using x assms(2) by blast
    then show ?thesis using assms(1,3) unfolding traced_def by blast
  qed
qed

lemma traced_observe:
  assumes "traced H s"
  shows "traced H (snd (observe H sk key ty sev ev con material now s))"
proof (rule observe_cases [of H sk key ty sev ev con material now s], goal_cases)
  case 1
  then show ?case using assms by simp
next
  case (2 e p rank)
  let ?s = "s\<lparr>changes := insert_change e (changes s), work := snd (enqueue_work (change_work e p rank) (work s)),
    snapshots := put_snapshot H sk key ev now (snapshots s)\<rparr>"
  have "traced H ?s"
    by (rule traced_grow [OF assms, of _ e]) (auto simp: enqueue_work_def insert_change_def 2(1))
  then show ?case unfolding 2(3) by simp
qed

lemma traced_step:
  assumes inv: "intel_inv H s" and tr: "traced H s"
  shows "traced H (run_intel H num tz zone op s)"
proof (cases "instant (op_time op)")
  case t: True
  have old: "intel_older s (run_op H num tz zone op s)" using run_op_step [OF inv t] by blast
  have wi: "work_inv (work s)" using inv by (simp add: intel_inv_def)
  have "changes (run_op H num tz zone op s) = changes s \<or> traced H (run_op H num tz zone op s)"
  proof (cases op)
    case (Observe sk key ty sev ev con material now)
    then show ?thesis using traced_observe [OF tr] by simp
  next
    case (Cycle now)
    then show ?thesis using cycle_frame [of H num tz zone now s] schedule_changes [of now tz s] t by auto
  next
    case (Claim key claimer lease now)
    show ?thesis unfolding Claim run_op.simps by (rule work_claim_cases [OF wi, of key claimer lease now]) simp_all
  next
    case (Finish key res now)
    show ?thesis unfolding Finish run_op.simps by (rule finish_cases [of key res now s]) simp_all
  qed (use t schedule_changes register_frame import_frame review_frame in \<open>simp_all add: conv_frame_def\<close>)
  then show ?thesis using t traced_frame [OF tr _ old] by (auto simp: run_intel_def)
qed (simp add: run_intel_def tr)

lemma traced_reached: "traced H (run_all (run_intel H num tz zone) ops new_intel)"
  by (rule intel.run_all_keeps [OF new_intel_inv]) (simp_all add: traced_step, simp add: traced_def new_intel_def)

section \<open>Properties\<close>

text \<open>
  After any operations the chain of change events verifies, no source content is recorded twice under
  one change type, each event had its work item queued, and later operations only append events and keep
  every work item.
\<close>

theorem change_log_sound:
  "let s = run_all (run_intel H num tz zone) ops new_intel; s' = run_all (run_intel H num tz zone) ops' s in
     verify_event_chain H s \<and> distinct (map dedupe_key (changes s)) \<and> distinct (map event_key (changes s))
     \<and> prefix (changes s) (changes s')
     \<and> list_all (\<lambda>e. list_ex (\<lambda>w. work_key w = ''event:'' @ event_key e) (work s)) (changes s)
     \<and> set (map work_key (work s)) \<subseteq> set (map work_key (work s'))"
proof -
  let ?s = "run_all (run_intel H num tz zone) ops new_intel"
  have inv: "intel_inv H ?s" by (rule intel.reached_inv)
  have old: "intel_older ?s (run_all (run_intel H num tz zone) ops' ?s)" by (rule intel.run_all_older [OF inv])
  have "set (map work_key (work ?s)) \<subseteq> set (map work_key (work (run_all (run_intel H num tz zone) ops' ?s)))"
    by (rule older_keys [OF old])
  moreover have "list_all (\<lambda>e. list_ex (\<lambda>w. work_key w = ''event:'' @ event_key e) (work ?s)) (changes ?s)"
    using traced_reached [of H num tz zone ops] unfolding traced_def list_all_iff list_ex_iff by blast
  ultimately show ?thesis using inv old
    by (simp add: Let_def intel_inv_def changes_inv_def intel_older_def verify_event_chain_def)
qed

text \<open>
  A change that comes back is lost. When a source returns to content that was recorded before under
  the same change type, the observation is answered with an event, but neither the event nor its work is
  stored; the snapshot is moved, so observing again reports no change.
\<close>

theorem reverted_change_is_lost:
  assumes s: "s = run_all (run_intel H num tz zone) ops new_intel"
    and o: "observe H sk key ty sev ev con material now s = (Inr (Some e), s')"
    and x: "x \<in> set (changes s)" "dedupe_key x = dedupe_of H sk key ty ev"
  shows "changes s' = changes s \<and> work s' = work s \<and> processing s' = processing s
    \<and> observe H sk key ty sev ev con material later s' = (Inr None, s')"
proof -
  have tr: "event_key x = event_key_of H (dedupe_key x)" "\<exists>w\<in>set (work s). work_key w = ''event:'' @ event_key x"
    using traced_reached [of H num tz zone ops] x(1) unfolding s traced_def by blast+
  show ?thesis
  proof (rule observe_cases [of H sk key ty sev ev con material now s], goal_cases)
    case 1
    from 1(2) [of e] show ?case unfolding o by simp
  next
    case (2 e1 p rank)
    then have e: "e1 = e" and s': "s' = s\<lparr>changes := insert_change e (changes s), work := snd (enqueue_work (change_work e p rank) (work s)),
          snapshots := put_snapshot H sk key ev now (snapshots s)\<rparr>" using o by simp_all
    have k: "dedupe_key x = dedupe_key e" "event_key x = event_key e" using 2(1) e x(2) tr(1) by simp_all
    then have "insert_change e (changes s) = changes s" using x(1) by (auto simp: insert_change_def)
    moreover have "snd (enqueue_work (change_work e p rank) (work s)) = work s" using tr(2) k(2) by (auto simp: enqueue_work_def)
    moreover have "\<exists>r. map_of severity_order sev = Some r" using o by (auto simp: observe_def split: option.splits)
    moreover have "snapshot_hash sk key s' = canonical_sha256 H ev" unfolding s' by (rule snapshot_put)
    ultimately show ?case by (auto simp: s' observe_def)
  qed
qed

text \<open>
  C23. Leased work is exclusive: while the lease of a claimed item runs, and whatever is done in the
  meantime, a second claim gets nothing and changes nothing; the item is as it was claimed, or complete.
\<close>

theorem leased_work_is_exclusive:
  assumes s: "s = run_all (run_intel H num tz zone) ops new_intel"
    and c: "claim_work key claimer lease now s = (Inr (Some w), s1)" "instant now"
    and during: "list_all (\<lambda>op. op_time op < now + lease * 1000000) ops2" "now2 < now + lease * 1000000"
    and s2: "s2 = run_all (run_intel H num tz zone) ops2 s1"
  shows "snd (claim_work key claimer2 lease2 now2 s2) = s2 \<and> (\<nexists>v. fst (claim_work key claimer2 lease2 now2 s2) = Inr (Some v))
    \<and> (\<exists>v. select_one (\<lambda>w. work_key w = key) (work s2) = Some v \<and> (v = w \<or> work_status v = COMPLETE))"
proof -
  have inv: "intel_inv H s" unfolding s by (rule intel.reached_inv)
  then have wi: "work_inv (work s)" by (simp add: intel_inv_def)
  let ?t = "now + lease * 1000000"
  have f: "w = leased claimer ?t v \<and> work_key v = key \<and> instant ?t \<and> w \<in> set (work s1) \<and> intel_inv H s1"
    if v: "v \<in> set (work s)" "work_key v = key" "takeable now v" "0 < lease" "?t < max_instant"
      "claim_work key claimer lease now s = (Inr (Some (leased claimer ?t v)),
         s\<lparr>work := update_where (\<lambda>w. work_key w = key) (leased claimer ?t) (work s)\<rparr>)" for v
  proof -
    have "leased claimer ?t v \<in> set (update_where (\<lambda>w. work_key w = key) (leased claimer ?t) (work s))"
      using v(1,2) by (auto simp: set_update_where image_iff)
    moreover have "intel_inv H s1" using claim_step [OF inv c(2), of key claimer lease] c(1) by simp
    ultimately show ?thesis using v c by (auto simp: instant_def)
  qed
  obtain v where v: "w = leased claimer ?t v" "work_key v = key" "instant ?t" "w \<in> set (work s1)" "intel_inv H s1"
  proof (rule work_claim_cases [OF wi, of key claimer lease now], goal_cases)
    case 1
    from 1(3) [of w] show ?case unfolding c by simp
  next
    case (2 v)
    from f [OF 2(2-7)] show ?case by (intro 2(1)) blast+
  qed
  have w: "work_status w = RUNNING" "lease_until w = Some (isoformat ?t)" "work_key w = key"
    using v(1,2) by (simp_all add: leased_def)
  have "held w (work s1)" using v(4) by (auto simp: held_def)
  from held_run [OF v(5) this w(1,2) v(3) during(1)] have h: "held w (work s2)" unfolding s2 .
  have wi2: "work_inv (work s2)" using intel.run_all_inv [OF v(5)] by (simp add: s2 intel_inv_def)
  obtain u where u: "u \<in> set (work s2)" "work_key u = work_key w" "u = w \<or> work_status u = COMPLETE" using h by (auto simp: held_def)
  have "select_one (\<lambda>x. work_key x = key) (work s2) = Some u"
    using select_one_unique [of work_key "work s2" u] wi2 u w(3) by (simp add: work_inv_def)
  then show ?thesis using held_not_claimed [OF wi2 h w(1,2) v(3) during(2), of claimer2 lease2] u(3) w(3) by auto
qed

text \<open>No window is scheduled twice: the work keys that two runs of the scheduler report are disjoint, and each is new.\<close>

theorem windows_scheduled_once:
  assumes s: "s = run_all (run_intel H num tz zone) ops new_intel"
    and one: "ensure_scheduled_work tz now s = (Inr keys, s1)" "instant now"
    and two: "ensure_scheduled_work tz now2 (run_all (run_intel H num tz zone) ops2 s1) = (Inr keys2, s2)" "instant now2"
  shows "distinct keys \<and> set keys \<inter> set (map work_key (work s)) = {} \<and> set keys \<subseteq> set (map work_key (work s1))
    \<and> distinct keys2 \<and> set keys \<inter> set keys2 = {}"
proof -
  have inv: "intel_inv H s" unfolding s by (rule intel.reached_inv)
  have a: "scheduled [] s keys s1" using schedule_scheduled [OF one] by simp
  have b: "scheduled [] (run_all (run_intel H num tz zone) ops2 s1) keys2 s2" using schedule_scheduled [OF two] by simp
  have sub: "scheduled [] u ks u' \<Longrightarrow> distinct ks \<and> set ks \<inter> set (map work_key (work u)) = {} \<and> set ks \<subseteq> set (map work_key (work u'))"
    for u ks u' by (auto simp: scheduled_def)
  have inv1: "intel_inv H s1" using scheduled_step [OF inv a] by blast
  have "intel_older s1 (run_all (run_intel H num tz zone) ops2 s1)" by (rule intel.run_all_older [OF inv1])
  then have "set (map work_key (work s1)) \<subseteq> set (map work_key (work (run_all (run_intel H num tz zone) ops2 s1)))"
    by (rule older_keys)
  then show ?thesis using sub [OF a] sub [OF b] by blast
qed

text \<open>
  A week's reviews come to an end and cover everything: reviewing the next conversation over and over
  within one week takes each due conversation exactly once, in the order of class, value and key, and then
  none is left.
\<close>

theorem weekly_reviews_cover_all:
  assumes s: "s = run_all (run_intel H num tz zone) ops new_intel"
    and rs: "list_all (in_week tz week) rs" "length rs = length (due_keys week s)"
    and now: "week_id tz now = Inr week"
  shows "fst (review_run H num tz rs s) = due_keys week s
    \<and> next_conversation tz now (snd (review_run H num tz rs s)) = Inr None"
proof -
  have "distinct (map conv_key (conversations s))"
    using intel.reached_inv [of H num tz zone ops] unfolding s by (simp add: intel_inv_def)
  from review_run_order [OF this rs, of H num] show ?thesis
    using now by (auto simp: next_conversation_def first_by_sort due_keys_def)
qed

text \<open>Two instants have the same week id exactly when they lie in the same local week from Monday to Sunday.\<close>

theorem week_id_is_the_week:
  assumes "local_time tz a = Inr l" "local_time tz b = Inr l'"
  shows "week_id tz a = week_id tz b \<longleftrightarrow> l div usec_per_day div 7 = l' div usec_per_day div 7"
  using assms week_text_iff [of l l'] by (auto simp: week_id_def local_time_def split: if_splits)

section \<open>Witnesses\<close>

definition demo_num :: "rat \<Rightarrow> json" where
  "demo_num r = JNull"

definition utc :: "int \<Rightarrow> int" where
  "utc now = 0"

lemma instants [simp]: "instant 0" "instant 1000000"
  by (simp_all add: instant_def max_instant_def usec_per_day_def)

text \<open>A source that goes from 1 to 2 and back, with an injective hash.\<close>

abbreviation demo_policy :: cadence_policy where
  "demo_policy \<equiv> cadence ''state-change-immediate'' ''STATE_CHANGE'' ''IMMEDIATE'' 0 100 True"

lemma demo_policy_found:
  "policies s = seed_policies [] \<Longrightarrow> policy_of_change ''STATE_CHANGE'' True s = Inr demo_policy"
  by (simp add: policy_of_change_def policy_for_def seed_policies_def default_policies_def cadence_def select_one_Cons)

abbreviation demo_observe :: "json \<Rightarrow> intel \<Rightarrow> (change_event option, intel) outcome" where
  "demo_observe ev s \<equiv> observe id ''repo'' ''main'' ''STATE_CHANGE'' ''LOW'' ev (JObj []) True 0 s"

abbreviation demo_event :: "json \<Rightarrow> intel \<Rightarrow> change_event" where
  "demo_event ev s \<equiv> change_of id ''repo'' ''main'' ''STATE_CHANGE'' ''LOW'' ev (JObj []) demo_policy 0 s"

definition demo_next :: "json \<Rightarrow> intel \<Rightarrow> intel" where
  "demo_next ev s = s\<lparr>changes := insert_change (demo_event ev s) (changes s),
     work := snd (enqueue_work (change_work (demo_event ev s) demo_policy 20) (work s)),
     snapshots := put_snapshot id ''repo'' ''main'' ev 0 (snapshots s)\<rparr>"

lemma demo_observed:
  assumes "policies s = seed_policies []" "canonical_sha256 id ev \<noteq> snapshot_hash ''repo'' ''main'' s"
    "\<exists>x\<in>set (changes (demo_next ev s)). event_key x = event_key (demo_event ev s)"
  shows "demo_observe ev s = (Inr (Some (demo_event ev s)), demo_next ev s)"
  using assms by (simp add: observe_def severity_order_def demo_policy_found Let_def case_prod_unfold demo_next_def)

lemma event_text_dedupe: "event_text e = event_text f \<Longrightarrow> dedupe_key e = dedupe_key f"
  unfolding event_text_def by (drule dumps_field [where k = "''dedupe_key''"]) (simp_all add: get_def)

lemma demo_hashes [simp]: "canonical_sha256 id (JInt 1) = ''1''" "canonical_sha256 id (JInt 2) = ''2''"
  by code_simp+

lemma demo_genesis [simp]: "''1'' \<noteq> genesis" "''2'' \<noteq> genesis"
  by (simp_all add: genesis_def numeral_eq_Suc)

definition demo_one :: intel where "demo_one = demo_next (JInt 1) new_intel"

definition demo_two :: intel where "demo_two = demo_next (JInt 2) demo_one"

lemma demo_snapshot [simp]: "snapshot_hash ''repo'' ''main'' (demo_next ev s) = canonical_sha256 id ev"
  unfolding demo_next_def by (rule snapshot_put)

lemma demo_policies [simp]: "policies (demo_next ev s) = policies s" "policies new_intel = seed_policies []"
  by (simp_all add: demo_next_def new_intel_def)

lemma demo_changes_one: "changes demo_one = [demo_event (JInt 1) new_intel]"
  by (simp add: demo_one_def demo_next_def insert_change_def new_intel_def)

lemma demo_changes_two: "changes demo_two = [demo_event (JInt 1) new_intel, demo_event (JInt 2) demo_one]"
proof -
  have "event_text (demo_event (JInt 1) new_intel) \<noteq> event_text (demo_event (JInt 2) demo_one)"
    by (rule notI, drule event_text_dedupe) (simp add: dedupe_of_def)
  then show ?thesis unfolding demo_two_def demo_next_def
    by (simp add: insert_change_def demo_changes_one dedupe_of_def event_key_of_def)
qed

lemma demo_runs:
  "demo_observe (JInt 1) new_intel = (Inr (Some (demo_event (JInt 1) new_intel)), demo_one)"
  "demo_observe (JInt 2) demo_one = (Inr (Some (demo_event (JInt 2) demo_one)), demo_two)"
  "demo_observe (JInt 1) demo_two = (Inr (Some (demo_event (JInt 1) demo_two)), demo_next (JInt 1) demo_two)"
proof -
  have "snapshot_hash ''repo'' ''main'' new_intel = genesis" by (simp add: snapshot_hash_def new_intel_def)
  then show "demo_observe (JInt 1) new_intel = (Inr (Some (demo_event (JInt 1) new_intel)), demo_one)"
    unfolding demo_one_def by (intro demo_observed) (simp_all add: demo_one_def [symmetric] demo_changes_one)
  show "demo_observe (JInt 2) demo_one = (Inr (Some (demo_event (JInt 2) demo_one)), demo_two)"
    unfolding demo_two_def by (rule demo_observed) (simp_all add: demo_two_def [symmetric] demo_changes_two, simp_all add: demo_one_def)
  show "demo_observe (JInt 1) demo_two = (Inr (Some (demo_event (JInt 1) demo_two)), demo_next (JInt 1) demo_two)"
  proof (rule demo_observed)
    show "\<exists>x\<in>set (changes (demo_next (JInt 1) demo_two)). event_key x = event_key (demo_event (JInt 1) demo_two)"
      by (simp add: demo_next_def insert_change_def demo_changes_two)
  qed (simp_all add: demo_two_def, simp add: demo_one_def)
qed

lemma reverted_change_is_lost_witness:
  "fst (demo_observe (JInt 1) demo_two) = Inr (Some (demo_event (JInt 1) demo_two))
   \<and> changes (snd (demo_observe (JInt 1) demo_two)) = changes demo_two \<and> work (snd (demo_observe (JInt 1) demo_two)) = work demo_two
   \<and> fst (demo_observe (JInt 1) (snd (demo_observe (JInt 1) demo_two))) = Inr None"
proof -
  let ?o = "\<lambda>ev. Observe ''repo'' ''main'' ''STATE_CHANGE'' ''LOW'' ev (JObj []) True 0"
  have s: "demo_two = run_all (run_intel id demo_num utc ''UTC'') [?o (JInt 1), ?o (JInt 2)] new_intel"
    by (simp add: run_intel_def demo_runs)
  have x: "demo_event (JInt 1) new_intel \<in> set (changes demo_two)" by (simp add: demo_changes_two)
  have d: "dedupe_key (demo_event (JInt 1) new_intel) = dedupe_of id ''repo'' ''main'' ''STATE_CHANGE'' (JInt 1)" by simp
  from reverted_change_is_lost [OF s demo_runs(3) x d, of 0] show ?thesis by (simp add: demo_runs(3))
qed

text \<open>A claim of the work of the first observation.\<close>

definition demo_work :: work_item where
  "demo_work = change_work (demo_event (JInt 1) new_intel) demo_policy 20"

lemma demo_work_one: "work demo_one = [demo_work]"
  by (simp add: demo_one_def demo_next_def enqueue_work_def new_intel_def demo_work_def)

lemma demo_claim: "claim_work (work_key demo_work) ''a'' 1 0 demo_one
    = (Inr (Some (leased ''a'' 1000000 demo_work)), demo_one\<lparr>work := [leased ''a'' 1000000 demo_work]\<rparr>)"
proof -
  have "parse_iso (due_at demo_work) = Inr 0" "work_status demo_work = QUEUED"
    by (simp_all add: demo_work_def change_work_def queued_def)
  then show ?thesis
    by (simp add: claim_work_def demo_work_one select_one_Cons claimable_def update_where_Cons leased_def max_instant_def usec_per_day_def)
qed

lemma leased_work_is_exclusive_witness:
  "fst (claim_work (work_key demo_work) ''a'' 1 0 demo_one) = Inr (Some (leased ''a'' 1000000 demo_work))
   \<and> (\<nexists>v. fst (claim_work (work_key demo_work) ''b'' 1 500000 (snd (claim_work (work_key demo_work) ''a'' 1 0 demo_one))) = Inr (Some v))"
proof -
  let ?o = "Observe ''repo'' ''main'' ''STATE_CHANGE'' ''LOW'' (JInt 1) (JObj []) True 0"
  have s: "demo_one = run_all (run_intel id demo_num utc ''UTC'') [?o] new_intel" by (simp add: run_intel_def demo_runs)
  from leased_work_is_exclusive [OF s demo_claim instants(1), where ?ops2.0 = "[]" and ?now2.0 = 500000 and ?claimer2.0 = "''b''" and ?lease2.0 = 1]
  show ?thesis by (simp add: demo_claim)
qed

text \<open>Two runs of the scheduler, and the reviews of a week.\<close>

lemma demo_local [simp]: "local_time utc 0 = Inr 0" "week_id utc 0 = Inr (week_text 0)"
  by (simp_all add: local_time_def utc_def week_id_def)

lemma policy_ok: "c \<in> set (''ORDINARY_REVIEW'' # scheduled_classes) \<Longrightarrow> policies s = seed_policies [] \<Longrightarrow> \<exists>p. policy_for c s = Inr p"
  by (auto simp: policy_for_def seed_policies_def default_policies_def cadence_def select_one_Cons scheduled_classes_def)

lemma window_ok: "c \<in> set (''ORDINARY_REVIEW'' # scheduled_classes) \<Longrightarrow> \<exists>w. window_key c l = Inr w"
  by (auto simp: window_key_def scheduled_classes_def)

lemma schedule_all_ok:
  assumes "set cs \<subseteq> set (''ORDINARY_REVIEW'' # scheduled_classes)" "policies s = seed_policies []"
  shows "\<exists>keys s'. schedule_all l now nk cs (created, s) = (Inr keys, s') \<and> policies s' = seed_policies []"
  using assms
proof (induction cs arbitrary: created s)
  case (Cons c cs)
  then obtain p w where p: "policy_for c s = Inr p" "window_key c l = Inr w" using policy_ok [of c s] window_ok [of c l] by auto
  then obtain c1 ws where "schedule_one l now nk c (created, s) = (Inr c1, s\<lparr>work := ws\<rparr>)"
    by (simp add: schedule_one_def Let_def case_prod_unfold)
  then show ?case using Cons.IH [of "s\<lparr>work := ws\<rparr>" c1] Cons.prems by simp
qed simp

lemma schedule_ok:
  assumes "policies s = seed_policies []" "local_time tz now = Inr l"
  shows "\<exists>keys s'. ensure_scheduled_work tz now s = (Inr keys, s') \<and> policies s' = seed_policies []"
proof -
  obtain nc where nc: "next_conversation tz now s = Inr nc" using assms(2) by (simp add: next_conversation_def week_id_def)
  have "set (if nc = None then scheduled_classes else ''ORDINARY_REVIEW'' # scheduled_classes) \<subseteq> set (''ORDINARY_REVIEW'' # scheduled_classes)"
    by auto
  from schedule_all_ok [OF this assms(1)] show ?thesis unfolding ensure_scheduled_work_def nc assms(2) by simp
qed

lemma windows_scheduled_once_witness:
  "\<exists>keys s1 keys2 s2. ensure_scheduled_work utc 0 new_intel = (Inr keys, s1)
     \<and> ensure_scheduled_work utc 0 s1 = (Inr keys2, s2) \<and> set keys \<inter> set keys2 = {}"
proof -
  obtain keys s1 keys2 s2 where k: "ensure_scheduled_work utc 0 new_intel = (Inr keys, s1)"
    "ensure_scheduled_work utc 0 s1 = (Inr keys2, s2)" using schedule_ok [OF _ demo_local(1)] demo_policies(2) by metis
  have s: "new_intel = run_all (run_intel id demo_num utc ''UTC'') [] new_intel" by simp
  have "ensure_scheduled_work utc 0 (run_all (run_intel id demo_num utc ''UTC'') [] s1) = (Inr keys2, s2)" using k(2) by simp
  from windows_scheduled_once [OF s k(1) instants(1) this instants(1)] k show ?thesis by blast
qed

definition demo_review :: review_input where
  "demo_review = \<lparr>in_signal = [], in_contradiction = [], in_loop = [], in_decision = [], in_state = [], in_implication = [],
     in_confidence = 1, in_basis = []\<rparr>"

abbreviation demo_register :: "string \<Rightarrow> string \<Rightarrow> intel_op" where
  "demo_register key cls \<equiv> Register key [] ''Automation'' cls (1 / 2) ''ACTIVE'' 0 []"

abbreviation demo_registered :: intel where
  "demo_registered \<equiv> run_all (run_intel id demo_num utc ''UTC'') [demo_register ''a'' ''P1'', demo_register ''b'' ''P0''] new_intel"

lemma demo_due: "due_keys (week_text 0) demo_registered = [''b'', ''a'']"
proof -
  have "week_text 0 \<noteq> []" by (simp add: week_text_def split: prod.split)
  then show ?thesis
    by (simp add: due_keys_def run_intel_def register_conversation_def review_classes_def upsert_by_def new_intel_def is_due_def
        or_default_def due_order_def class_rank_def)
qed

lemma weekly_reviews_cover_all_witness:
  "fst (review_run id demo_num utc [(demo_review, 0), (demo_review, 0)] demo_registered) = [''b'', ''a'']"
proof -
  have "list_all (in_week utc (week_text 0)) [(demo_review, 0), (demo_review, 0)]"
    by (simp add: in_week_def demo_review_def)
  moreover have "length [(demo_review, 0::int), (demo_review, 0)] = length (due_keys (week_text 0) demo_registered)"
    unfolding demo_due by simp
  ultimately have "fst (review_run id demo_num utc [(demo_review, 0), (demo_review, 0)] demo_registered) = due_keys (week_text 0) demo_registered"
    using weekly_reviews_cover_all [OF refl _ _ demo_local(2)] by blast
  then show ?thesis unfolding demo_due .
qed

lemma week_id_is_the_week_witness: "week_id utc 0 = week_id utc 0 \<longleftrightarrow> (0::int) div usec_per_day div 7 = 0 div usec_per_day div 7"
  by (rule week_id_is_the_week [OF demo_local(1) demo_local(1)])

end
