(* ===== verification/Fleet_Controller.thy ===== *)
theory Fleet_Controller
  imports Hash_Chain Op_Machine
begin

text \<open>
  \<open>frost_core/fleet_controller.py\<close>: contracts for the five roles of the fleet, their results, the verdicts on
  them, handoffs, error budgets and the hash-chained event log. \<open>H\<close> is SHA-256, \<open>num\<close> the JSON value of a
  float and \<open>rnd\<close> the value that the sum of floats in \<open>rank_contract\<close> rounds to; \<open>now\<close> is an aware instant.
\<close>

section \<open>Data\<close>

definition roles :: "string list" where
  "roles = [''GOVERNOR'', ''BUILDER'', ''JUDGE'', ''SRE'', ''EVOLUTION'']"

definition priority_base :: "(string \<times> rat) list" where
  "priority_base = [(''P0'', 500), (''P1'', 400), (''P2'', 300), (''P3'', 200), (''P4'', 100)]"

definition success_states :: "string list" where
  "success_states = [''VERIFIED'', ''OPERATIONAL'', ''PHYSICAL_VALIDATED'', ''READY_FOR_GA_PROMOTION'', ''GA'', ''SUPERSEDED'', ''RETIRED'']"

definition awaiting_states :: "string list" where
  "awaiting_states = [''EXECUTED_AWAITING_VERIFICATION'', ''CANDIDATE_PACKAGE_AWAITING_VERIFICATION'', ''PHYSICAL_EVIDENCE_AWAITING_VERIFICATION'']"

text \<open>What the caller gives for a contract.\<close>

record contract_spec =
  idempotency_key :: string
  problem_statement :: string
  source_basis :: json
  priority :: string
  expected_outcome :: string
  success_criteria :: "string list"
  allowed_scope :: "string list"
  prohibited_scope :: "string list"
  dependencies :: "string list"
  assigned_role :: string
  verification_requirements :: "string list"
  rollback_plan :: json
  resource_budget :: json
  retry_budget :: int
  current_head :: string
  subsystem :: string
  failure_criteria :: "string list"
  next_review_condition :: string
  ranking :: "(string \<times> rat) list"
  on_verified_role :: "string option"

record contract =
  contract_id :: string
  spec :: contract_spec
  created_at :: string
  rank_score :: rat
  contract_hash :: string

record contract_state =
  state_of :: string
  status :: string
  owner_role :: string
  claimed_by :: "string option"
  lease_until :: "string option"
  attempt_count :: int
  updated_at :: string
  terminal_reason :: "json option"

record fleet_result =
  result_id :: string
  result_contract :: string
  result_role :: string
  result_status :: string
  result_created_at :: string
  result_payload :: json
  result_evidence :: string
  result_hash :: string

record verdict_row =
  verdict_id :: string
  verdict_result :: string
  verdict_contract :: string
  verdict :: string
  verifier :: string
  verdict_created_at :: string
  verdict_details :: json
  verdict_evidence :: string
  verdict_hash :: string

record handoff_row =
  handoff_id :: string
  handoff_contract :: string
  source_result :: "string option"
  from_role :: string
  to_role :: string
  handoff_reason :: string
  handoff_created_at :: string
  handoff_hash :: string
  handoff_status :: string

record error_row =
  error_id :: string
  error_subsystem :: string
  error_type :: string
  error_severity :: string
  recovered :: bool
  occurred_at :: string
  error_details :: json
  error_hash :: string

record metric_row =
  snapshot_id :: string
  captured_at :: string
  metrics_json :: json
  metrics_hash :: string

record fleet_event =
  event_id :: string
  event_at :: string
  event_type :: string
  entity_id :: string
  event_payload :: json
  prev_event_hash :: string
  event_hash :: string

record fleet =
  contracts :: "contract list"
  states :: "contract_state list"
  results :: "fleet_result list"
  verdicts :: "verdict_row list"
  handoffs :: "handoff_row list"
  errors :: "error_row list"
  metric_rows :: "metric_row list"
  event_log :: "fleet_event list"

definition new_fleet :: fleet where
  "new_fleet = \<lparr>contracts = [], states = [], results = [], verdicts = [], handoffs = [], errors = [], metric_rows = [], event_log = []\<rparr>"

section \<open>Ranking\<close>

definition factor_defaults :: "(string \<times> rat) list" where
  "factor_defaults =
     [(''downstream_leverage'', 0), (''user_impact'', 0), (''dependency_unblocking'', 0), (''uncertainty_reduction'', 0),
      (''information_gain'', 0), (''success_probability'', 1 / 2), (''verification_value'', 0), (''execution_readiness'', 0),
      (''remaining_cost'', 1 / 2), (''maintenance_burden'', 0), (''rollback_cost'', 0), (''risk'', 0)]"

fun set_factor :: "string \<Rightarrow> rat \<Rightarrow> (string \<times> rat) list \<Rightarrow> (string \<times> rat) list" where
  "set_factor k v [] = []"
| "set_factor k v ((k', w) # fs) = (if k' = k then (k, v) # fs else (k', w) # set_factor k v fs)"

fun set_factors :: "(string \<times> rat) list \<Rightarrow> (string \<times> rat) list \<Rightarrow> (string \<times> rat) list result" where
  "set_factors [] fs = Inr fs"
| "set_factors ((k, v) # rs) fs =
     (if k \<notin> fst ` set fs then Inl (ValueError (''unknown ranking factor: '' @ k))
      else if v < 0 \<or> 1 < v then Inl (ValueError (''ranking factor '' @ k @ '' must be in [0, 1]''))
      else set_factors rs (set_factor k v fs))"

definition factor :: "(string \<times> rat) list \<Rightarrow> string \<Rightarrow> rat" where
  "factor fs k = (case map_of fs k of None \<Rightarrow> 0 | Some v \<Rightarrow> v)"

definition exact_score :: "rat \<Rightarrow> (string \<times> rat) list \<Rightarrow> rat" where
  "exact_score base fs =
     (let f = factor fs;
          positive = 32 * f ''downstream_leverage'' + 28 * f ''user_impact'' + 32 * f ''dependency_unblocking''
            + 18 * f ''uncertainty_reduction'' + 18 * f ''information_gain'' + 16 * f ''success_probability''
            + 16 * f ''verification_value'' + 18 * f ''execution_readiness'';
          negative = 18 * f ''remaining_cost'' + 14 * f ''maintenance_burden'' + 18 * f ''rollback_cost'' + 30 * f ''risk''
      in base + positive - negative)"

definition rank_contract :: "(rat \<Rightarrow> rat) \<Rightarrow> string \<Rightarrow> (string \<times> rat) list \<Rightarrow> rat result" where
  "rank_contract rnd p rs =
     (case map_of priority_base p of None \<Rightarrow> Inl (ValueError (''invalid priority: '' @ p))
      | Some base \<Rightarrow> (case set_factors rs factor_defaults of Inl e \<Rightarrow> Inl e
          | Inr fs \<Rightarrow> Inr (rnd (exact_score base fs))))"

section \<open>The event log\<close>

definition event_text :: "fleet_event \<Rightarrow> string" where
  "event_text e = dumps compact (JObj
     [(''occurred_at'', JStr (event_at e)), (''event_type'', JStr (event_type e)), (''entity_id'', JStr (entity_id e)),
      (''payload'', event_payload e), (''prev_event_hash'', JStr (prev_event_hash e))])"

text \<open>\<open>None\<close> is a violated uniqueness constraint; the transaction around it is rolled back.\<close>

definition append_event :: "(string \<Rightarrow> string) \<Rightarrow> string \<Rightarrow> string \<Rightarrow> json_object \<Rightarrow> int \<Rightarrow> fleet \<Rightarrow> fleet option" where
  "append_event H ty ent payload now s =
     (let e = \<lparr>event_id = [], event_at = isoformat now, event_type = ty, entity_id = ent, event_payload = sort_keys (JObj payload),
               prev_event_hash = tip event_hash genesis (event_log s), event_hash = []\<rparr>;
          digest = H (event_text e);
          e = e\<lparr>event_id := ''fleet:'' @ lower ty @ '':'' @ take 32 digest, event_hash := digest\<rparr>
      in if \<exists>x\<in>set (event_log s). event_id x = event_id e \<or> event_hash x = event_hash e then None
         else Some (s\<lparr>event_log := event_log s @ [e]\<rparr>))"

definition verify_event_chain :: "(string \<Rightarrow> string) \<Rightarrow> fleet \<Rightarrow> bool" where
  "verify_event_chain H s = chain_from H event_text prev_event_hash event_hash genesis (event_log s)"

text \<open>The end of a transaction: its writes, or an error and none.\<close>

definition commit :: "'a \<Rightarrow> fleet option \<Rightarrow> fleet \<Rightarrow> ('a, fleet) outcome" where
  "commit v t s = (case t of None \<Rightarrow> (Inl IntegrityError, s) | Some s1 \<Rightarrow> (Inr v, s1))"

section \<open>Contracts\<close>

definition str_array :: "string list \<Rightarrow> json" where
  "str_array xs = JArr (map JStr xs)"

definition contract_json :: "(rat \<Rightarrow> json) \<Rightarrow> contract_spec \<Rightarrow> string \<Rightarrow> rat \<Rightarrow> json" where
  "contract_json num c t score = JObj
     [(''idempotency_key'', JStr (idempotency_key c)), (''created_at'', JStr t), (''problem_statement'', JStr (problem_statement c)),
      (''source_basis'', source_basis c), (''priority'', JStr (priority c)), (''rank_score'', num score),
      (''ranking'', JObj (map (\<lambda>(k, v). (k, num v)) (ranking c))), (''expected_outcome'', JStr (expected_outcome c)),
      (''success_criteria'', str_array (success_criteria c)), (''allowed_scope'', str_array (allowed_scope c)),
      (''prohibited_scope'', str_array (prohibited_scope c)), (''dependencies'', str_array (dependencies c)),
      (''assigned_role'', JStr (assigned_role c)), (''verification_requirements'', str_array (verification_requirements c)),
      (''rollback_plan'', rollback_plan c), (''resource_budget'', resource_budget c), (''retry_budget'', JInt (retry_budget c)),
      (''current_head'', JStr (current_head c)), (''subsystem'', JStr (subsystem c)),
      (''failure_criteria'', str_array (failure_criteria c)), (''next_review_condition'', JStr (next_review_condition c)),
      (''on_verified_role'', opt_str (on_verified_role c))]"

record created_contract =
  made_id :: string
  made_hash :: string
  made_score :: rat
  made_status :: string
  made_owner :: string
  made_new :: bool

definition joined :: "fleet \<Rightarrow> (contract \<times> contract_state) list" where
  "joined s = concat (map (\<lambda>c. map (\<lambda>t. (c, t)) (filter (\<lambda>t. state_of t = contract_id c) (states s))) (contracts s))"

definition check_spec :: "contract_spec \<Rightarrow> unit result" where
  "check_spec c =
     (if priority c \<notin> fst ` set priority_base then Inl (ValueError (''invalid priority: '' @ priority c))
      else if assigned_role c \<notin> set roles then Inl (ValueError (''invalid role: '' @ assigned_role c))
      else if (case on_verified_role c of None \<Rightarrow> False | Some r \<Rightarrow> r \<notin> set roles)
        then Inl (ValueError (''invalid on_verified_role: '' @ (case on_verified_role c of None \<Rightarrow> [] | Some r \<Rightarrow> r)))
      else if retry_budget c < 0 then Inl (ValueError ''retry_budget must be non-negative'')
      else if idempotency_key c = [] \<or> problem_statement c = [] \<or> subsystem c = []
        then Inl (ValueError ''idempotency_key, problem_statement, and subsystem are required'')
      else Inr ())"

definition insert_contract :: "contract \<Rightarrow> fleet \<Rightarrow> fleet option" where
  "insert_contract c s =
     (if \<exists>x\<in>set (contracts s). contract_id x = contract_id c \<or> idempotency_key (spec x) = idempotency_key (spec c) \<or> contract_hash x = contract_hash c
      then None
      else if \<exists>x\<in>set (states s). state_of x = contract_id c then None
      else Some (s\<lparr>contracts := contracts s @ [c],
        states := states s @ [\<lparr>state_of = contract_id c, status = ''READY'', owner_role = assigned_role (spec c), claimed_by = None,
          lease_until = None, attempt_count = 0, updated_at = created_at c, terminal_reason = None\<rparr>]\<rparr>))"

definition create_contract :: "(string \<Rightarrow> string) \<Rightarrow> (rat \<Rightarrow> json) \<Rightarrow> (rat \<Rightarrow> rat) \<Rightarrow> contract_spec \<Rightarrow> int \<Rightarrow>
    fleet \<Rightarrow> (created_contract, fleet) outcome" where
  "create_contract H num rnd c now s =
     (case check_spec c of Inl e \<Rightarrow> (Inl e, s)
      | Inr _ \<Rightarrow>
         (case select_one (\<lambda>(x, t). idempotency_key (spec x) = idempotency_key c) (joined s) of
            Some (x, t) \<Rightarrow> (Inr \<lparr>made_id = contract_id x, made_hash = contract_hash x, made_score = rank_score x,
              made_status = status t, made_owner = owner_role t, made_new = False\<rparr>, s)
          | None \<Rightarrow>
             (case rank_contract rnd (priority c) (ranking c) of Inl e \<Rightarrow> (Inl e, s)
              | Inr score \<Rightarrow>
                 (let digest = canonical_sha256 H (contract_json num c (isoformat now) score);
                      k = \<lparr>contract_id = ''contract:'' @ take 32 digest, spec = c, created_at = isoformat now, rank_score = score,
                           contract_hash = digest\<rparr>
                  in commit \<lparr>made_id = contract_id k, made_hash = digest, made_score = score, made_status = ''READY'',
                            made_owner = assigned_role c, made_new = True\<rparr>
                       (Option.bind (insert_contract k s) (append_event H ''CONTRACT_CREATED'' (contract_id k)
                         [(''priority'', JStr (priority c)), (''rank_score'', num score), (''assigned_role'', JStr (assigned_role c)),
                          (''subsystem'', JStr (subsystem c)), (''contract_hash'', JStr digest)] now)) s))))"

definition dependencies_satisfied :: "string list \<Rightarrow> fleet \<Rightarrow> bool" where
  "dependencies_satisfied ds s \<longleftrightarrow> list_all (\<lambda>d. case select_one (\<lambda>t. state_of t = d) (states s) of
     None \<Rightarrow> False | Some t \<Rightarrow> status t \<in> set success_states) ds"

section \<open>Error budgets\<close>

record budget =
  budget_subsystem :: string
  window_hours :: int
  budget_events :: nat
  unrecovered :: nat
  rollbacks :: nat
  invariant_violations :: nat
  failure_rate :: rat
  contracted :: bool

definition error_budget :: "string \<Rightarrow> int \<Rightarrow> fleet \<Rightarrow> budget result" where
  "error_budget sub now s =
     (if \<not> instant (now - 24 * 3600000000) then Inl OverflowError
      else (let rows = filter (\<lambda>r. error_subsystem r = sub \<and> isoformat (now - 24 * 3600000000) \<le> occurred_at r) (errors s);
                total = length rows; un = length (filter (\<lambda>r. \<not> recovered r) rows);
                inv = length (filter (\<lambda>r. error_type r = ''INVARIANT_VIOLATION'') rows);
                rate = (if total = 0 then 0 else of_nat un / of_nat total)
            in Inr \<lparr>budget_subsystem = sub, window_hours = 24, budget_events = total, unrecovered = un,
                 rollbacks = length (filter (\<lambda>r. error_type r = ''ROLLBACK'') rows), invariant_violations = inv,
                 failure_rate = rate, contracted = (0 < inv \<or> 4 \<le> total \<and> 2 \<le> un \<and> 1 / 4 \<le> rate)\<rparr>))"

section \<open>Claims\<close>

definition update_state :: "string \<Rightarrow> (contract_state \<Rightarrow> contract_state) \<Rightarrow> fleet \<Rightarrow> fleet" where
  "update_state i f s = s\<lparr>states := update_where (\<lambda>t. state_of t = i) f (states s)\<rparr>"

text \<open>The rows that \<open>claim_next\<close> reads, before its transaction begins.\<close>

definition claim_candidates :: "string \<Rightarrow> int \<Rightarrow> fleet \<Rightarrow> (contract \<times> contract_state) list" where
  "claim_candidates role now s = sort_key (\<lambda>(c, t). (- rank_score c, created_at c, contract_id c))
     (filter (\<lambda>(c, t). owner_role t = role \<and> (status t = ''READY''
         \<or> status t = ''RUNNING'' \<and> (case lease_until t of None \<Rightarrow> False | Some l \<Rightarrow> l \<le> isoformat now))) (joined s))"

type_synonym claimed = "contract \<times> contract_state"

definition lease_state :: "string \<Rightarrow> int \<Rightarrow> int \<Rightarrow> contract_state \<Rightarrow> contract_state" where
  "lease_state claimer lease_seconds now t = t\<lparr>status := ''RUNNING'', claimed_by := Some claimer,
     lease_until := Some (isoformat (now + lease_seconds * 1000000)), attempt_count := attempt_count t + 1,
     updated_at := isoformat now, terminal_reason := None\<rparr>"

text \<open>One row of the loop: skipped, failed for good, or claimed.\<close>

definition claim_row :: "(string \<Rightarrow> string) \<Rightarrow> string \<Rightarrow> string \<Rightarrow> int \<Rightarrow> int \<Rightarrow> contract \<times> contract_state \<Rightarrow>
    claimed list \<times> fleet \<Rightarrow> (claimed list \<times> fleet) result" where
  "claim_row H role claimer lease_seconds now row acc = (case row of (c, t) \<Rightarrow> case acc of (claimed, s) \<Rightarrow>
     (if attempt_count t \<ge> retry_budget (spec c) + 1
      then (case append_event H ''CONTRACT_FAILED'' (contract_id c) [(''reason'', JStr ''retry budget exhausted'')] now
              (update_state (contract_id c) (\<lambda>t. t\<lparr>status := ''FAILED_PRESERVED'', updated_at := isoformat now,
                 terminal_reason := Some (JStr ''retry budget exhausted'')\<rparr>) s) of
              None \<Rightarrow> Inl IntegrityError | Some s1 \<Rightarrow> Inr (claimed, s1))
      else if \<not> dependencies_satisfied (dependencies (spec c)) s then Inr (claimed, s)
      else (case error_budget (subsystem (spec c)) now s of Inl e \<Rightarrow> Inl e
      | Inr b \<Rightarrow>
          if contracted b \<and> role \<notin> {''JUDGE'', ''SRE''} then Inr (claimed, s)
          else if max_instant \<le> now + lease_seconds * 1000000 then Inl OverflowError
          else (case append_event H ''CONTRACT_CLAIMED'' (contract_id c)
                  [(''role'', JStr role), (''claimer'', JStr claimer), (''lease_until'', JStr (isoformat (now + lease_seconds * 1000000)))] now
                  (update_state (contract_id c) (lease_state claimer lease_seconds now) s) of
                  None \<Rightarrow> Inl IntegrityError
                | Some s1 \<Rightarrow> Inr (claimed @ [(c, lease_state claimer lease_seconds now t)], s1)))))"

fun claim_rows :: "(string \<Rightarrow> string) \<Rightarrow> string \<Rightarrow> string \<Rightarrow> int \<Rightarrow> int \<Rightarrow> int \<Rightarrow> (contract \<times> contract_state) list \<Rightarrow>
    claimed list \<times> fleet \<Rightarrow> (claimed list \<times> fleet) result" where
  "claim_rows H role claimer lease_seconds batch now [] acc = Inr acc"
| "claim_rows H role claimer lease_seconds batch now (row # rows) acc =
     (if batch \<le> int (length (fst acc)) then Inr acc
      else (case claim_row H role claimer lease_seconds now row acc of Inl e \<Rightarrow> Inl e
          | Inr acc1 \<Rightarrow> claim_rows H role claimer lease_seconds batch now rows acc1))"

text \<open>The transaction works on the rows read before, whatever the state has become since.\<close>

definition claim_commit :: "(string \<Rightarrow> string) \<Rightarrow> string \<Rightarrow> string \<Rightarrow> int \<Rightarrow> int \<Rightarrow> int \<Rightarrow> (contract \<times> contract_state) list \<Rightarrow>
    fleet \<Rightarrow> (claimed list, fleet) outcome" where
  "claim_commit H role claimer lease_seconds batch now rows s =
     (case claim_rows H role claimer lease_seconds batch now rows ([], s) of Inl e \<Rightarrow> (Inl e, s)
      | Inr (claimed, s1) \<Rightarrow> (Inr claimed, s1))"

definition check_claim :: "string \<Rightarrow> int \<Rightarrow> int \<Rightarrow> unit result" where
  "check_claim role lease_seconds batch =
     (if role \<notin> set roles then Inl (ValueError (''invalid role: '' @ role))
      else if lease_seconds < 1 \<or> batch < 1 \<or> 3 < batch then Inl (ValueError ''invalid lease_seconds or batch_limit'')
      else Inr ())"

definition claim_next :: "(string \<Rightarrow> string) \<Rightarrow> string \<Rightarrow> string \<Rightarrow> int \<Rightarrow> int \<Rightarrow> int \<Rightarrow> fleet \<Rightarrow> (claimed list, fleet) outcome" where
  "claim_next H role claimer lease_seconds batch now s =
     (case check_claim role lease_seconds batch of Inl e \<Rightarrow> (Inl e, s)
      | Inr _ \<Rightarrow> claim_commit H role claimer lease_seconds batch now (claim_candidates role now s) s)"

section \<open>Results\<close>

definition create_handoff :: "(string \<Rightarrow> string) \<Rightarrow> string \<Rightarrow> string option \<Rightarrow> string \<Rightarrow> string \<Rightarrow> string \<Rightarrow> int \<Rightarrow>
    fleet \<Rightarrow> fleet option" where
  "create_handoff H cid src from_r to_r reason now s =
     (let digest = canonical_sha256 H (JObj
            [(''contract_id'', JStr cid), (''source_result_id'', opt_str src), (''from_role'', JStr from_r),
             (''to_role'', JStr to_r), (''reason'', JStr reason), (''created_at'', JStr (isoformat now))]);
          hid = ''handoff:'' @ take 32 digest;
          s1 = (if \<exists>x\<in>set (handoffs s). handoff_id x = hid \<or> handoff_hash x = digest then s
                else s\<lparr>handoffs := handoffs s @ [\<lparr>handoff_id = hid, handoff_contract = cid, source_result = src, from_role = from_r,
                  to_role = to_r, handoff_reason = reason, handoff_created_at = isoformat now, handoff_hash = digest,
                  handoff_status = ''PENDING''\<rparr>]\<rparr>)
      in append_event H ''HANDOFF_CREATED'' hid
           [(''contract_id'', JStr cid), (''from_role'', JStr from_r), (''to_role'', JStr to_r), (''reason'', JStr reason)] now
           (update_state cid (\<lambda>t. t\<lparr>owner_role := to_r, status := ''READY'', claimed_by := None, lease_until := None,
              updated_at := isoformat now\<rparr>) s1))"

text \<open>\<open>payload.get("reason", default)\<close> as a value of a statement: a list or an object is not supported.\<close>

definition reason_value :: "json \<Rightarrow> string \<Rightarrow> json option result" where
  "reason_value payload fallback = (case field payload ''reason'' of
     None \<Rightarrow> Inr (Some (JStr fallback))
   | Some JNull \<Rightarrow> Inr None
   | Some (JArr xs) \<Rightarrow> Inl (ProgrammingError ''type 'list' is not supported'')
   | Some (JObj d) \<Rightarrow> Inl (ProgrammingError ''type 'dict' is not supported'')
   | Some v \<Rightarrow> Inr (Some v))"

record recorded_result =
  new_result_id :: string
  new_result_hash :: string
  new_result_status :: string

definition result_json :: "string \<Rightarrow> string \<Rightarrow> string \<Rightarrow> int \<Rightarrow> json \<Rightarrow> string \<Rightarrow> json" where
  "result_json cid role st now payload ev = JObj
     [(''contract_id'', JStr cid), (''role'', JStr role), (''status'', JStr st), (''created_at'', JStr (isoformat now)),
      (''payload'', payload), (''evidence_hash'', JStr ev)]"

definition insert_result :: "fleet_result \<Rightarrow> fleet \<Rightarrow> fleet option" where
  "insert_result r s = (if \<exists>x\<in>set (results s). result_id x = result_id r \<or> result_hash x = result_hash r then None
     else Some (s\<lparr>results := results s @ [r]\<rparr>))"

definition released :: "string \<Rightarrow> int \<Rightarrow> contract_state \<Rightarrow> contract_state" where
  "released st now t = t\<lparr>status := st, claimed_by := None, lease_until := None, updated_at := isoformat now\<rparr>"

definition settle_result :: "(string \<Rightarrow> string) \<Rightarrow> string \<Rightarrow> string \<Rightarrow> string \<Rightarrow> json \<Rightarrow> string \<Rightarrow> int \<Rightarrow> fleet \<Rightarrow> fleet result" where
  "settle_result H cid role st payload rid now s =
     (if st \<in> set awaiting_states
      then (case create_handoff H cid (Some rid) role ''JUDGE'' ''independent verification required'' now s of
          None \<Rightarrow> Inl IntegrityError | Some s1 \<Rightarrow> Inr s1)
      else if st \<in> set success_states
      then Inr (update_state cid (\<lambda>t. (released st now t)\<lparr>terminal_reason := None\<rparr>) s)
      else if st \<in> {''BLOCKED_EXTERNAL'', ''FAILED_PRESERVED'', ''CANCELLED''}
      then (case reason_value payload st of Inl e \<Rightarrow> Inl e
          | Inr v \<Rightarrow> Inr (update_state cid (\<lambda>t. (released st now t)\<lparr>terminal_reason := v\<rparr>) s))
      else Inr (update_state cid (released ''READY'' now) s))"

definition record_result :: "(string \<Rightarrow> string) \<Rightarrow> string \<Rightarrow> string \<Rightarrow> string \<Rightarrow> json \<Rightarrow> string \<Rightarrow> int \<Rightarrow>
    fleet \<Rightarrow> (recorded_result, fleet) outcome" where
  "record_result H cid role st payload ev now s =
     (if role \<notin> set roles then (Inl (ValueError (''invalid role: '' @ role)), s)
      else (case select_one (\<lambda>(c, t). contract_id c = cid) (joined s) of
         None \<Rightarrow> (Inl (KeyError (''unknown contract: '' @ cid)), s)
       | Some (c, t) \<Rightarrow>
          if owner_role t \<noteq> role \<and> role \<noteq> ''JUDGE''
          then (Inl (ValueError (''contract owned by '' @ owner_role t @ '', not '' @ role)), s)
          else (let digest = canonical_sha256 H (result_json cid role st now payload ev); rid = ''result:'' @ take 32 digest;
                    r = \<lparr>result_id = rid, result_contract = cid, result_role = role, result_status = st,
                         result_created_at = isoformat now, result_payload = sort_keys payload, result_evidence = ev, result_hash = digest\<rparr>
                in case insert_result r s of None \<Rightarrow> (Inl IntegrityError, s)
                | Some s1 \<Rightarrow>
                   (case settle_result H cid role st payload rid now s1 of Inl e \<Rightarrow> (Inl e, s)
                    | Inr s2 \<Rightarrow> commit \<lparr>new_result_id = rid, new_result_hash = digest, new_result_status = st\<rparr>
                        (append_event H ''RESULT_RECORDED'' rid [(''contract_id'', JStr cid), (''role'', JStr role),
                           (''status'', JStr st), (''result_hash'', JStr digest)] now s2) s))))"

text \<open>Results that wait for a verdict; a negative limit is none.\<close>

definition pending_verification :: "int \<Rightarrow> fleet \<Rightarrow> (fleet_result \<times> contract) list" where
  "pending_verification limit s =
     (let rows = sort_key (\<lambda>(r, c). (- rank_score c, result_created_at r))
            (filter (\<lambda>(r, c). \<not> (\<exists>v\<in>set (verdicts s). verdict_result v = result_id r) \<and> result_status r \<in> set awaiting_states)
              (concat (map (\<lambda>r. map (\<lambda>c. (r, c)) (filter (\<lambda>c. contract_id c = result_contract r) (contracts s))) (results s))))
      in if limit < 0 then rows else take (nat limit) rows)"

section \<open>Verdicts\<close>

definition verdict_json :: "string \<Rightarrow> string \<Rightarrow> string \<Rightarrow> string \<Rightarrow> int \<Rightarrow> json \<Rightarrow> string \<Rightarrow> json" where
  "verdict_json rid cid vd who now details ev = JObj
     [(''result_id'', JStr rid), (''contract_id'', JStr cid), (''verdict'', JStr vd), (''verifier'', JStr who),
      (''created_at'', JStr (isoformat now)), (''details'', details), (''evidence_hash'', JStr ev)]"

record recorded_verdict =
  rv_id :: string
  rv_hash :: string
  rv_verdict :: string
  rv_new :: bool

definition insert_verdict :: "verdict_row \<Rightarrow> fleet \<Rightarrow> fleet option" where
  "insert_verdict v s = (if \<exists>x\<in>set (verdicts s). verdict_id x = verdict_id v \<or> verdict_result x = verdict_result v \<or> verdict_hash x = verdict_hash v
     then None else Some (s\<lparr>verdicts := verdicts s @ [v]\<rparr>))"

definition settle_verdict :: "(string \<Rightarrow> string) \<Rightarrow> contract \<Rightarrow> string \<Rightarrow> string \<Rightarrow> json \<Rightarrow> int \<Rightarrow> fleet \<Rightarrow> fleet result" where
  "settle_verdict H c rid vd details now s =
     (let cid = contract_id c in
      if vd = ''VERIFIED''
      then (case on_verified_role (spec c) of
          Some r \<Rightarrow> if r = [] then Inr (update_state cid (\<lambda>t. (released ''VERIFIED'' now t)\<lparr>owner_role := ''JUDGE'', terminal_reason := None\<rparr>) s)
            else (case create_handoff H cid (Some rid) ''JUDGE'' r ''verified result eligible for next operational stage'' now s of
                None \<Rightarrow> Inl IntegrityError | Some s1 \<Rightarrow> Inr s1)
        | None \<Rightarrow> Inr (update_state cid (\<lambda>t. (released ''VERIFIED'' now t)\<lparr>owner_role := ''JUDGE'', terminal_reason := None\<rparr>) s))
      else if vd = ''VERIFICATION_FAILED''
      then (case create_handoff H cid (Some rid) ''JUDGE'' (assigned_role (spec c)) ''verification failed; corrective work required'' now s of
          None \<Rightarrow> Inl IntegrityError | Some s1 \<Rightarrow> Inr s1)
      else (case reason_value details vd of Inl e \<Rightarrow> Inl e
          | Inr v \<Rightarrow> Inr (update_state cid (\<lambda>t. (released vd now t)\<lparr>owner_role := ''JUDGE'', terminal_reason := v\<rparr>) s)))"

definition record_verdict :: "(string \<Rightarrow> string) \<Rightarrow> string \<Rightarrow> string \<Rightarrow> string \<Rightarrow> json \<Rightarrow> string \<Rightarrow> int \<Rightarrow>
    fleet \<Rightarrow> (recorded_verdict, fleet) outcome" where
  "record_verdict H rid vd who details ev now s =
     (if vd \<notin> {''VERIFIED'', ''VERIFICATION_FAILED'', ''INCONCLUSIVE'', ''BLOCKED_EXTERNAL''}
      then (Inl (ValueError (''invalid verdict: '' @ vd)), s)
      else (case select_one (\<lambda>(r, c). result_id r = rid)
              (concat (map (\<lambda>r. map (\<lambda>c. (r, c)) (filter (\<lambda>c. contract_id c = result_contract r) (contracts s))) (results s))) of
         None \<Rightarrow> (Inl (KeyError (''unknown result: '' @ rid)), s)
       | Some (r, c) \<Rightarrow>
          (case select_one (\<lambda>v. verdict_result v = rid) (verdicts s) of
             Some v \<Rightarrow> (Inr \<lparr>rv_id = verdict_id v, rv_hash = verdict_hash v, rv_verdict = verdict v, rv_new = False\<rparr>, s)
           | None \<Rightarrow>
              (let cid = result_contract r;
                   digest = canonical_sha256 H (verdict_json rid cid vd who now details ev); vid = ''verdict:'' @ take 32 digest;
                   v = \<lparr>verdict_id = vid, verdict_result = rid, verdict_contract = cid, verdict = vd, verifier = who,
                        verdict_created_at = isoformat now, verdict_details = sort_keys details, verdict_evidence = ev, verdict_hash = digest\<rparr>
               in case insert_verdict v s of None \<Rightarrow> (Inl IntegrityError, s)
               | Some s1 \<Rightarrow>
                  (case settle_verdict H c rid vd details now s1 of Inl e \<Rightarrow> (Inl e, s)
                   | Inr s2 \<Rightarrow> commit \<lparr>rv_id = vid, rv_hash = digest, rv_verdict = vd, rv_new = True\<rparr>
                       (append_event H ''VERDICT_RECORDED'' vid [(''contract_id'', JStr cid), (''result_id'', JStr rid),
                          (''verdict'', JStr vd), (''verdict_hash'', JStr digest)] now s2) s)))))"

section \<open>Errors and reports\<close>

record recorded_error =
  re_id :: string
  re_hash :: string
  re_budget :: budget

text \<open>The budget of the answer is computed after the commit, so it may raise when the event is stored.\<close>

definition record_error_event :: "(string \<Rightarrow> string) \<Rightarrow> string \<Rightarrow> string \<Rightarrow> string \<Rightarrow> bool \<Rightarrow> json \<Rightarrow> int \<Rightarrow>
    fleet \<Rightarrow> (recorded_error, fleet) outcome" where
  "record_error_event H sub ty sev rec details now s =
     (let digest = canonical_sha256 H (JObj
            [(''subsystem'', JStr sub), (''event_type'', JStr ty), (''severity'', JStr sev), (''recovered'', JBool rec),
             (''occurred_at'', JStr (isoformat now)), (''details'', details)]);
          eid = ''error:'' @ take 32 digest;
          s1 = (if \<exists>x\<in>set (errors s). error_id x = eid \<or> error_hash x = digest then s
                else s\<lparr>errors := errors s @ [\<lparr>error_id = eid, error_subsystem = sub, error_type = ty, error_severity = sev,
                  recovered = rec, occurred_at = isoformat now, error_details = sort_keys details, error_hash = digest\<rparr>]\<rparr>)
      in case append_event H ''ERROR_RECORDED'' eid [(''subsystem'', JStr sub), (''event_type'', JStr ty), (''recovered'', JBool rec)] now s1 of
           None \<Rightarrow> (Inl IntegrityError, s)
         | Some s2 \<Rightarrow> (case error_budget sub now s2 of Inl e \<Rightarrow> (Inl e, s2)
             | Inr b \<Rightarrow> (Inr \<lparr>re_id = eid, re_hash = digest, re_budget = b\<rparr>, s2)))"

record metrics =
  m_captured_at :: string
  m_total :: nat
  m_solved :: nat
  m_failed :: nat
  m_blocked :: nat
  m_open :: int
  m_solve_fraction :: rat
  m_verification_total :: nat
  m_verification_failed :: nat
  m_verification_failure_rate :: rat
  m_mean_attempts :: rat
  m_chain_valid :: bool

definition ratio :: "rat \<Rightarrow> nat \<Rightarrow> rat \<Rightarrow> rat" where
  "ratio a n fallback = (if n = 0 then fallback else a / of_nat n)"

definition metrics_of :: "(string \<Rightarrow> string) \<Rightarrow> int \<Rightarrow> fleet \<Rightarrow> metrics" where
  "metrics_of H now s =
     (let total = length (states s);
          solved = length (filter (\<lambda>t. status t \<in> set success_states) (states s));
          failed = length (filter (\<lambda>t. status t = ''FAILED_PRESERVED'') (states s));
          blocked = length (filter (\<lambda>t. status t = ''BLOCKED_EXTERNAL'' \<or> status t = ''BLOCKED_DEPENDENCY'') (states s));
          vf = length (filter (\<lambda>v. verdict v = ''VERIFICATION_FAILED'') (verdicts s)); vt = length (verdicts s)
      in \<lparr>m_captured_at = isoformat now, m_total = total, m_solved = solved, m_failed = failed, m_blocked = blocked,
          m_open = int total - int solved - int failed - int blocked, m_solve_fraction = ratio (of_nat solved) total 1,
          m_verification_total = vt, m_verification_failed = vf, m_verification_failure_rate = ratio (of_nat vf) vt 0,
          m_mean_attempts = ratio (of_int (sum_list (map attempt_count (states s)))) total 0,
          m_chain_valid = verify_event_chain H s\<rparr>)"

definition metrics_to_json :: "(rat \<Rightarrow> json) \<Rightarrow> metrics \<Rightarrow> json" where
  "metrics_to_json num m = JObj
     [(''captured_at'', JStr (m_captured_at m)), (''contracts_total'', JInt (int (m_total m))), (''solved'', JInt (int (m_solved m))),
      (''failed'', JInt (int (m_failed m))), (''blocked'', JInt (int (m_blocked m))), (''open'', JInt (m_open m)),
      (''solve_fraction'', num (m_solve_fraction m)), (''verification_total'', JInt (int (m_verification_total m))),
      (''verification_failed'', JInt (int (m_verification_failed m))),
      (''verification_failure_rate'', num (m_verification_failure_rate m)), (''mean_attempts'', num (m_mean_attempts m)),
      (''event_chain_valid'', JBool (m_chain_valid m))]"

definition persist_metrics :: "(string \<Rightarrow> string) \<Rightarrow> (rat \<Rightarrow> json) \<Rightarrow> int \<Rightarrow> fleet \<Rightarrow> metrics \<times> fleet" where
  "persist_metrics H num now s =
     (let m = metrics_of H now s; digest = canonical_sha256 H (metrics_to_json num m); mid = ''metric:'' @ take 32 digest
      in (m, if \<exists>x\<in>set (metric_rows s). snapshot_id x = mid \<or> metrics_hash x = digest then s
         else s\<lparr>metric_rows := metric_rows s @ [\<lparr>snapshot_id = mid, captured_at = m_captured_at m,
           metrics_json = sort_keys (metrics_to_json num m), metrics_hash = digest\<rparr>]\<rparr>))"

record fleet_status =
  by_role :: "(string \<times> (string \<times> nat) list) list"
  status_metrics :: metrics
  contracted_subsystems :: "budget list"
  waiting :: nat
  status_chain_valid :: bool

fun contracted_budgets :: "string list \<Rightarrow> int \<Rightarrow> fleet \<Rightarrow> budget list result" where
  "contracted_budgets [] now s = Inr []"
| "contracted_budgets (x # xs) now s = (case error_budget x now s of Inl e \<Rightarrow> Inl e
     | Inr b \<Rightarrow> (case contracted_budgets xs now s of Inl e \<Rightarrow> Inl e
         | Inr bs \<Rightarrow> Inr (if contracted b then b # bs else bs)))"

text \<open>\<open>status\<close>, with one reading of the clock.\<close>

definition status_report :: "(string \<Rightarrow> string) \<Rightarrow> int \<Rightarrow> fleet \<Rightarrow> fleet_status result" where
  "status_report H now s =
     (case contracted_budgets (remdups (map error_subsystem (errors s))) now s of Inl e \<Rightarrow> Inl e
      | Inr bs \<Rightarrow> Inr \<lparr>by_role = map (\<lambda>r. (r, let rows = filter (\<lambda>t. owner_role t = r) (states s)
            in map (\<lambda>st. (st, length (filter (\<lambda>t. status t = st) rows))) (remdups (sort (map status rows))))) roles,
          status_metrics = metrics_of H now s, contracted_subsystems = bs, waiting = length (pending_verification 100 s),
          status_chain_valid = verify_event_chain H s\<rparr>)"

end
