(* ===== verification/Fleet_Claims.thy ===== *)
theory Fleet_Claims
  imports Fleet_Controller
begin

text \<open>
  The fleet under any operations and interleavings: its log and records, what a claim grants, and where the
  protocol is weaker than independent verification and exclusive leases.
\<close>

section \<open>Operations\<close>

text \<open>
  \<open>Commit\<close> is the transaction of a claim whose rows were read at some earlier time, so a run with commits
  covers the interleavings of processes that share the database.
\<close>

datatype fleet_op =
    Create contract_spec int
  | Claim string string int int int
  | Commit string string int int int "(contract \<times> contract_state) list"
  | Report string string string json string int
  | Judge string string string json string int
  | Fail string string string bool json int
  | Measure int

fun run_fleet :: "(string \<Rightarrow> string) \<Rightarrow> (rat \<Rightarrow> json) \<Rightarrow> (rat \<Rightarrow> rat) \<Rightarrow> fleet_op \<Rightarrow> fleet \<Rightarrow> fleet" where
  "run_fleet H num rnd (Create c now) s = snd (create_contract H num rnd c now s)"
| "run_fleet H num rnd (Claim role claimer lease batch now) s = snd (claim_next H role claimer lease batch now s)"
| "run_fleet H num rnd (Commit role claimer lease batch now rows) s = snd (claim_commit H role claimer lease batch now rows s)"
| "run_fleet H num rnd (Report cid role st payload ev now) s = snd (record_result H cid role st payload ev now s)"
| "run_fleet H num rnd (Judge rid vd who details ev now) s = snd (record_verdict H rid vd who details ev now s)"
| "run_fleet H num rnd (Fail sub ty sev rec details now) s = snd (record_error_event H sub ty sev rec details now s)"
| "run_fleet H num rnd (Measure now) s = snd (persist_metrics H num now s)"

section \<open>The invariant\<close>

definition fleet_inv :: "(string \<Rightarrow> string) \<Rightarrow> fleet \<Rightarrow> bool" where
  "fleet_inv H s \<longleftrightarrow> chain_from H event_text prev_event_hash event_hash genesis (event_log s)
     \<and> map state_of (states s) = map contract_id (contracts s) \<and> distinct (map contract_id (contracts s))
     \<and> distinct (map (\<lambda>c. idempotency_key (spec c)) (contracts s)) \<and> distinct (map verdict_result (verdicts s))
     \<and> distinct (map result_id (results s)) \<and> result_contract ` set (results s) \<subseteq> contract_id ` set (contracts s)"

definition fleet_older :: "fleet \<Rightarrow> fleet \<Rightarrow> bool" where
  "fleet_older s s' \<longleftrightarrow> prefix (contracts s) (contracts s') \<and> prefix (results s) (results s') \<and> prefix (verdicts s) (verdicts s')
     \<and> prefix (handoffs s) (handoffs s') \<and> prefix (errors s) (errors s') \<and> prefix (event_log s) (event_log s')"

text \<open>A step keeps the invariant and only appends.\<close>

definition good_step :: "(string \<Rightarrow> string) \<Rightarrow> fleet \<Rightarrow> fleet \<Rightarrow> bool" where
  "good_step H s s' \<longleftrightarrow> (fleet_inv H s \<longrightarrow> fleet_inv H s' \<and> fleet_older s s')"

named_theorems fleet_steps \<open>the steps of the fleet controller are good\<close>

lemma fleet_older_refl [simp]: "fleet_older s s"
  by (simp add: fleet_older_def)

lemma fleet_older_trans: "fleet_older a b \<Longrightarrow> fleet_older b c \<Longrightarrow> fleet_older a c"
  unfolding fleet_older_def by (elim conjE, intro conjI) (erule (1) prefix_order.trans)+

lemma fleet_good_refl [simp]: "good_step H s s"
  by (simp add: good_step_def)

lemma fleet_good_trans: "good_step H a b \<Longrightarrow> good_step H b c \<Longrightarrow> good_step H a c"
  unfolding good_step_def by (blast intro: fleet_older_trans)

lemma append_event_cases:
  assumes "append_event H ty ent p now s = Some s1"
  obtains e where "s1 = s\<lparr>event_log := event_log s @ [e]\<rparr>" "prev_event_hash e = tip event_hash genesis (event_log s)"
    "event_hash e = H (event_text e)" "event_type e = ty" "entity_id e = ent"
  using assms by (auto simp: append_event_def Let_def event_text_def split: if_splits)

lemma append_event_good [fleet_steps]: "append_event H ty ent p now s = Some s1 \<Longrightarrow> good_step H s s1"
  by (erule append_event_cases) (simp add: good_step_def fleet_inv_def fleet_older_def chain_from_snoc)

lemma update_state_good [fleet_steps]:
  assumes "\<And>t. state_of (f t) = state_of t"
  shows "good_step H s (update_state i f s)"
  using map_update_where [of "\<lambda>t. state_of t = i" state_of f] assms
  by (simp add: good_step_def fleet_inv_def fleet_older_def update_state_def)

lemma fleet_good_update:
  "good_step H (update_state i f s) s' \<Longrightarrow> (\<And>t. state_of (f t) = state_of t) \<Longrightarrow> good_step H s s'"
  by (rule fleet_good_trans [OF update_state_good])

lemma insert_contract_good [fleet_steps]:
  assumes "insert_contract c s = Some s1"
  shows "good_step H s s1"
proof -
  obtain t where s1: "s1 = s\<lparr>contracts := contracts s @ [c], states := states s @ [t]\<rparr>" "state_of t = contract_id c"
    using assms by (auto simp: insert_contract_def split: if_splits)
  have n: "contract_id c \<notin> contract_id ` set (contracts s)"
    "idempotency_key (spec c) \<notin> (\<lambda>c. idempotency_key (spec c)) ` set (contracts s)"
    using assms by (auto simp: insert_contract_def image_iff split: if_splits)
  show ?thesis unfolding good_step_def
  proof (intro impI conjI)
    assume inv: "fleet_inv H s"
    then have "result_contract ` set (results s) \<subseteq> contract_id ` set (contracts s @ [c])" unfolding fleet_inv_def by auto
    then show "fleet_inv H s1" using inv s1 n by (simp add: fleet_inv_def)
    show "fleet_older s s1" using s1(1) by (simp add: fleet_older_def)
  qed
qed

lemma insert_result_good:
  assumes "insert_result r s = Some s1" "result_contract r \<in> contract_id ` set (contracts s)"
  shows "good_step H s s1"
proof -
  have s1: "s1 = s\<lparr>results := results s @ [r]\<rparr>" and n: "result_id r \<notin> result_id ` set (results s)"
    using assms(1) by (auto simp: insert_result_def image_iff split: if_splits)
  then show ?thesis using assms(2) by (simp add: good_step_def fleet_inv_def fleet_older_def)
qed

lemma insert_verdict_good [fleet_steps]:
  assumes "insert_verdict v s = Some s1"
  shows "good_step H s s1"
proof -
  have s1: "s1 = s\<lparr>verdicts := verdicts s @ [v]\<rparr>" and n: "verdict_result v \<notin> verdict_result ` set (verdicts s)"
    using assms by (auto simp: insert_verdict_def image_iff split: if_splits)
  then show ?thesis by (simp add: good_step_def fleet_inv_def fleet_older_def)
qed

lemma handoffs_good [fleet_steps]: "good_step H s (s\<lparr>handoffs := handoffs s @ hs\<rparr>)" "good_step H s (s\<lparr>errors := errors s @ es\<rparr>)"
    "good_step H s (s\<lparr>metric_rows := ms\<rparr>)"
  by (simp_all add: good_step_def fleet_inv_def fleet_older_def)

lemma released_id [simp]: "state_of (released st now t) = state_of t"
  by (simp add: released_def)

lemma lease_id [simp]: "state_of (lease_state c l now t) = state_of t"
  by (simp add: lease_state_def)

lemma create_handoff_good [fleet_steps]:
  assumes "create_handoff H cid src fr to reason now s = Some s1"
  shows "good_step H s s1"
proof -
  obtain hs f ent p where h: "append_event H ''HANDOFF_CREATED'' ent p now (update_state cid f (s\<lparr>handoffs := handoffs s @ hs\<rparr>)) = Some s1"
    "\<And>t. state_of (f t) = state_of t"
  proof -
    have "s = s\<lparr>handoffs := handoffs s @ []\<rparr>" by simp
    then show thesis using assms that [of _ _ _ "[]"] that
      unfolding create_handoff_def Let_def by (auto split: if_splits)
  qed
  show ?thesis
    by (rule fleet_good_trans [OF handoffs_good(1) fleet_good_trans [OF update_state_good [OF h(2)] append_event_good [OF h(1)]]])
qed

lemma settle_result_good [fleet_steps]: "settle_result H cid role st payload rid now s = Inr s1 \<Longrightarrow> good_step H s s1"
  by (auto simp: settle_result_def dest: create_handoff_good intro!: update_state_good split: if_splits option.splits sum.splits)

lemma settle_verdict_good [fleet_steps]: "settle_verdict H c rid vd details now s = Inr s1 \<Longrightarrow> good_step H s s1"
  by (auto simp: settle_verdict_def Let_def dest: create_handoff_good intro!: update_state_good split: if_splits option.splits sum.splits)

lemma commit_good: "(\<And>s1. t = Some s1 \<Longrightarrow> good_step H s s1) \<Longrightarrow> good_step H s (snd (commit v t s))"
  by (cases t) (simp_all add: commit_def)

lemma create_good: "good_step H s (snd (create_contract H num rnd c now s))"
proof -
  have "good_step H s s1" if "Option.bind (insert_contract k s) (append_event H ty ent p now) = Some s1" for k ty ent p s1
    using that insert_contract_good append_event_good fleet_good_trans by (auto simp: bind_eq_Some_conv) blast
  then show ?thesis
    by (auto simp: create_contract_def Let_def intro!: commit_good split: sum.split option.split)
qed

lemma claim_row_good: "claim_row H role claimer l now row (claimed, s) = Inr (claimed', s') \<Longrightarrow> good_step H s s'"
  by (auto simp: claim_row_def dest!: append_event_good elim!: fleet_good_update
      split: prod.splits if_splits option.splits sum.splits)

lemma claim_rows_good: "claim_rows H role claimer l batch now rows (claimed, s) = Inr (claimed', s') \<Longrightarrow> good_step H s s'"
proof (induction rows arbitrary: claimed s)
  case (Cons row rows)
  show ?case
  proof (cases "batch \<le> int (length claimed)")
    case False
    then obtain c1 s1 where "claim_row H role claimer l now row (claimed, s) = Inr (c1, s1)"
      "claim_rows H role claimer l batch now rows (c1, s1) = Inr (claimed', s')"
      using Cons.prems by (auto split: sum.splits)
    then show ?thesis using claim_row_good Cons.IH fleet_good_trans by blast
  qed (use Cons.prems in simp)
qed simp

lemma claim_commit_good: "good_step H s (snd (claim_commit H role claimer l batch now rows s))"
  using claim_rows_good [of H role claimer l batch now rows "[]" s]
  by (auto simp: claim_commit_def split: sum.split prod.split)

lemma claim_next_good: "good_step H s (snd (claim_next H role claimer l batch now s))"
  by (simp add: claim_next_def claim_commit_good split: sum.split)

lemma joined_member: "(c, t) \<in> set (joined s) \<longleftrightarrow> c \<in> set (contracts s) \<and> t \<in> set (states s) \<and> state_of t = contract_id c"
  by (auto simp: joined_def)

lemma record_result_good: "good_step H s (snd (record_result H cid role st payload ev now s))"
proof -
  let ?digest = "canonical_sha256 H (result_json cid role st now payload ev)"
  let ?r = "\<lparr>result_id = ''result:'' @ take 32 ?digest, result_contract = cid, result_role = role, result_status = st,
     result_created_at = isoformat now, result_payload = sort_keys payload, result_evidence = ev, result_hash = ?digest\<rparr>"
  have "good_step H s s3"
    if "select_one (\<lambda>(c, t). contract_id c = cid) (joined s) = Some (c, t)" "insert_result ?r s = Some s1"
      "settle_result H cid role st payload rid now s1 = Inr s2" "append_event H ty ent p now s2 = Some s3" for c t s1 s2 s3 rid ty ent p
  proof -
    have "cid \<in> contract_id ` set (contracts s)" using select_one_SomeD [OF that(1)] by (auto simp: joined_member)
    then have "good_step H s s1" using insert_result_good [OF that(2)] by simp
    then show ?thesis by (rule fleet_good_trans [OF _ fleet_good_trans [OF settle_result_good [OF that(3)] append_event_good [OF that(4)]]])
  qed
  then show ?thesis
    by (auto simp: record_result_def Let_def intro!: commit_good split: option.split sum.split prod.split)
qed

lemma verdict_writes_good:
  "good_step H s (snd (case insert_verdict v s of None \<Rightarrow> (Inl e0, s)
     | Some s1 \<Rightarrow> (case settle_verdict H c rid vd details now s1 of Inl e \<Rightarrow> (Inl e, s)
         | Inr s2 \<Rightarrow> commit x (append_event H ty ent p now s2) s)))"
proof (cases "insert_verdict v s")
  case (Some s1)
  show ?thesis
  proof (cases "settle_verdict H c rid vd details now s1")
    case (Inr s2)
    have "good_step H s s3" if "append_event H ty ent p now s2 = Some s3" for s3
      by (rule fleet_good_trans [OF insert_verdict_good [OF Some] fleet_good_trans [OF settle_verdict_good [OF Inr] append_event_good [OF that]]])
    then have "good_step H s (snd (commit x (append_event H ty ent p now s2) s))" by (rule commit_good)
    then show ?thesis using Some Inr by simp
  qed (simp add: Some)
qed simp

lemma record_verdict_good: "good_step H s (snd (record_verdict H rid vd who details ev now s))"
  unfolding record_verdict_def Let_def by (simp add: verdict_writes_good split: option.split prod.split)

lemma record_error_good: "good_step H s (snd (record_error_event H sub ty sev rec details now s))"
proof -
  have st: "good_step H s s1" if "append_event H t i p now (if c then s else s\<lparr>errors := errors s @ [e]\<rparr>) = Some s1" for t i p s1 e c
    using append_event_good [OF that] fleet_good_trans [OF handoffs_good(2)] by (cases c) auto
  show ?thesis unfolding record_error_event_def Let_def
    by (split option.split, intro conjI allI impI) (simp, drule st, simp split: sum.split)
qed

lemma measure_good: "good_step H s (snd (persist_metrics H num now s))"
  by (simp add: persist_metrics_def Let_def handoffs_good)

lemma run_fleet_good: "good_step H s (run_fleet H num rnd op s)"
  by (cases op) (simp_all add: create_good claim_next_good claim_commit_good record_result_good record_verdict_good
      record_error_good measure_good)

interpretation fleet: evolving_machine "run_fleet H num rnd" new_fleet "fleet_inv H" fleet_older for H num rnd
proof
  show "fleet_inv H new_fleet" by (simp add: fleet_inv_def new_fleet_def)
  fix s op assume "fleet_inv H s"
  then show "fleet_inv H (run_fleet H num rnd op s)" "fleet_older s (run_fleet H num rnd op s)"
    using run_fleet_good [of H s num rnd op] unfolding good_step_def by blast+
qed (simp, rule fleet_older_trans)

end
