(* ===== verification/Fleet_Properties.thy ===== *)
theory Fleet_Properties
  imports Fleet_Claims
begin

text \<open>The properties of the fleet controller, and what the decisions of a claim depend on.\<close>

section \<open>Rows and their states\<close>

lemma state_one:
  assumes inv: "fleet_inv H s" and t: "t \<in> set (states s)"
  shows "select_one (\<lambda>x. state_of x = state_of t) (states s) = Some t"
proof -
  have "distinct (map state_of (states s))" using inv by (simp add: fleet_inv_def)
  then show ?thesis using t by (rule select_one_unique)
qed

lemma joined_state:
  "fleet_inv H s \<Longrightarrow> (c, t) \<in> set (joined s) \<Longrightarrow> select_one (\<lambda>x. state_of x = contract_id c) (states s) = Some t"
  using state_one [of H s t] by (auto simp: joined_member)

lemma contract_unique: "fleet_inv H s \<Longrightarrow> c \<in> set (contracts s) \<Longrightarrow> d \<in> set (contracts s) \<Longrightarrow> contract_id c = contract_id d \<Longrightarrow> c = d"
  unfolding fleet_inv_def distinct_map using inj_onD [of contract_id "set (contracts s)" c d] by blast

lemma key_unique: "fleet_inv H s \<Longrightarrow> c \<in> set (contracts s) \<Longrightarrow> d \<in> set (contracts s) \<Longrightarrow>
    idempotency_key (spec c) = idempotency_key (spec d) \<Longrightarrow> c = d"
  unfolding fleet_inv_def distinct_map using inj_onD [of "\<lambda>c. idempotency_key (spec c)" "set (contracts s)" c d] by blast

lemma contract_has_state:
  assumes inv: "fleet_inv H s" and c: "c \<in> set (contracts s)"
  obtains t where "(c, t) \<in> set (joined s)"
proof -
  have "contract_id c \<in> set (map state_of (states s))" using inv c by (simp add: fleet_inv_def)
  then obtain t where "t \<in> set (states s)" "state_of t = contract_id c" by auto
  then show thesis using that c by (simp add: joined_member)
qed

section \<open>Decisions of a claim\<close>

text \<open>Contract \<open>i\<close> is in a state of success.\<close>

definition succeeded :: "fleet \<Rightarrow> string \<Rightarrow> bool" where
  "succeeded s i = (case select_one (\<lambda>t. state_of t = i) (states s) of None \<Rightarrow> False | Some t \<Rightarrow> status t \<in> set success_states)"

lemma dependencies_succeeded: "dependencies_satisfied ds s = list_all (succeeded s) ds"
  by (simp add: dependencies_satisfied_def succeeded_def [abs_def])

lemma succeeded_update:
  assumes f: "\<And>t. state_of (f t) = state_of t" "\<And>t. status (f t) \<notin> set success_states" and i: "\<not> succeeded s i"
  shows "succeeded (update_state i f s) = succeeded s"
proof
  fix j
  have "select_one (\<lambda>t. state_of t = j) (update_where (\<lambda>t. state_of t = i) f (states s))
      = (if j = i then map_option f (select_one (\<lambda>t. state_of t = j) (states s)) else select_one (\<lambda>t. state_of t = j) (states s))"
    by (rule select_one_update_where) (rule f(1))
  then show "succeeded (update_state i f s) j = succeeded s j"
    using f(2) i by (auto simp: succeeded_def update_state_def split: option.split)
qed

text \<open>What a claim may do with a row, given what has succeeded and the errors on record.\<close>

datatype decision = Exhausted | Skip | Grant

definition decide :: "string \<Rightarrow> int \<Rightarrow> contract \<times> contract_state \<Rightarrow> fleet \<Rightarrow> decision result" where
  "decide role now row s = (case row of (c, t) \<Rightarrow>
     (if attempt_count t \<ge> retry_budget (spec c) + 1 then Inr Exhausted
      else if \<not> list_all (succeeded s) (dependencies (spec c)) then Inr Skip
      else (case error_budget (subsystem (spec c)) now s of Inl e \<Rightarrow> Inl e
         | Inr b \<Rightarrow> Inr (if contracted b \<and> role \<notin> {''JUDGE'', ''SRE''} then Skip else Grant))))"

text \<open>The part of the state that decisions depend on.\<close>

definition same_basis :: "fleet \<Rightarrow> fleet \<Rightarrow> bool" where
  "same_basis s s' \<longleftrightarrow> succeeded s = succeeded s' \<and> errors s = errors s'"

lemma decide_basis: "same_basis s s' \<Longrightarrow> decide role now row s = decide role now row s'"
  by (cases row) (simp add: decide_def same_basis_def error_budget_def)

lemma claim_row_decision:
  assumes r: "claim_row H role claimer l now (c, t) (claimed, s) = Inr (claimed', s')"
  shows "(decide role now (c, t) s = Inr Skip \<and> claimed' = claimed \<and> s' = s)
    \<or> (\<exists>f e. decide role now (c, t) s = Inr Exhausted \<and> claimed' = claimed \<and> s' = (update_state (contract_id c) f s)\<lparr>event_log := e\<rparr>
         \<and> (\<forall>t. state_of (f t) = state_of t \<and> status (f t) = ''FAILED_PRESERVED''))
    \<or> (\<exists>e. decide role now (c, t) s = Inr Grant \<and> claimed' = claimed @ [(c, lease_state claimer l now t)]
         \<and> s' = (update_state (contract_id c) (lease_state claimer l now) s)\<lparr>event_log := e\<rparr>)"
proof -
  have ev: "\<exists>e. s' = u\<lparr>event_log := e\<rparr>" if "append_event H ty ent p now u = Some s'" for ty ent p u
    using that by (rule append_event_cases) blast
  show ?thesis
  proof (cases "retry_budget (spec c) + 1 \<le> attempt_count t")
    case True
    let ?f = "\<lambda>t. t\<lparr>status := ''FAILED_PRESERVED'', updated_at := isoformat now, terminal_reason := Some (JStr ''retry budget exhausted'')\<rparr>"
    have "claimed' = claimed" "append_event H ''CONTRACT_FAILED'' (contract_id c) [(''reason'', JStr ''retry budget exhausted'')] now
        (update_state (contract_id c) ?f s) = Some s'"
      using r True by (auto simp: claim_row_def split: option.splits)
    moreover obtain e where "s' = (update_state (contract_id c) ?f s)\<lparr>event_log := e\<rparr>" using ev [OF calculation(2)] by blast
    ultimately have "decide role now (c, t) s = Inr Exhausted \<and> claimed' = claimed \<and> s' = (update_state (contract_id c) ?f s)\<lparr>event_log := e\<rparr>
         \<and> (\<forall>t. state_of (?f t) = state_of t \<and> status (?f t) = ''FAILED_PRESERVED'')" using True by (simp add: decide_def)
    then show ?thesis by blast
  next
    case fresh: False
    show ?thesis
    proof (cases "list_all (succeeded s) (dependencies (spec c))")
      case False
      then show ?thesis using r fresh by (simp add: claim_row_def decide_def dependencies_succeeded)
    next
      case deps: True
      then obtain b where b: "error_budget (subsystem (spec c)) now s = Inr b"
        using r fresh by (auto simp: claim_row_def dependencies_succeeded split: sum.splits)
      show ?thesis
      proof (cases "contracted b \<and> role \<notin> {''JUDGE'', ''SRE''}")
        case True
        then show ?thesis using r fresh deps b by (simp add: claim_row_def decide_def dependencies_succeeded)
      next
        case False
        then have "claimed' = claimed @ [(c, lease_state claimer l now t)]"
          "append_event H ''CONTRACT_CLAIMED'' (contract_id c) [(''role'', JStr role), (''claimer'', JStr claimer),
             (''lease_until'', JStr (isoformat (now + l * 1000000)))] now (update_state (contract_id c) (lease_state claimer l now) s) = Some s'"
          using r fresh deps b by (auto simp: claim_row_def dependencies_succeeded split: option.splits if_splits)
        moreover have "decide role now (c, t) s = Inr Grant" using fresh deps b False by (auto simp: decide_def)
        ultimately show ?thesis using ev by blast
      qed
    qed
  qed
qed

lemma running_fails: "''RUNNING'' \<notin> set success_states" "''FAILED_PRESERVED'' \<notin> set success_states" "''READY'' \<notin> set success_states"
  by (simp_all add: success_states_def)

lemma lease_status [simp]: "status (lease_state c l now t) = ''RUNNING''"
  by (simp add: lease_state_def)

lemma update_log_fields [simp]:
  "states ((update_state i f s)\<lparr>event_log := e\<rparr>) = update_where (\<lambda>t. state_of t = i) f (states s)"
  "errors (update_state i f s) = errors s" "contracts (update_state i f s) = contracts s"
  by (simp_all add: update_state_def)

lemma succeeded_log [simp]: "succeeded (s\<lparr>event_log := e\<rparr>) = succeeded s"
  by (simp add: succeeded_def fun_eq_iff)

text \<open>A row changes the state of its own contract only, and no basis.\<close>

lemma claim_row_basis:
  assumes "claim_row H role claimer l now (c, t) (claimed, s) = Inr (claimed', s')" "\<not> succeeded s (contract_id c)"
  shows "same_basis s s' \<and> contracts s' = contracts s
    \<and> (\<forall>i. i \<noteq> contract_id c \<longrightarrow> select_one (\<lambda>x. state_of x = i) (states s') = select_one (\<lambda>x. state_of x = i) (states s))"
proof -
  have u: "same_basis s ((update_state (contract_id c) f s)\<lparr>event_log := e\<rparr>) \<and> (\<forall>i. i \<noteq> contract_id c \<longrightarrow>
      select_one (\<lambda>x. state_of x = i) (update_where (\<lambda>t. state_of t = contract_id c) f (states s)) = select_one (\<lambda>x. state_of x = i) (states s))"
    if "\<And>t. state_of (f t) = state_of t" "\<And>t. status (f t) \<notin> set success_states" for f e
    using succeeded_update [of f s "contract_id c"] that assms(2) by (simp add: same_basis_def select_one_update_where)
  from claim_row_decision [OF assms(1)] show ?thesis
  proof (elim disjE exE conjE)
    assume "s' = s"
    then show ?thesis by (simp add: same_basis_def)
  next
    fix f e assume "s' = (update_state (contract_id c) f s)\<lparr>event_log := e\<rparr>"
      "\<forall>t. state_of (f t) = state_of t \<and> status (f t) = ''FAILED_PRESERVED''"
    then show ?thesis using u [of f e] running_fails by simp
  next
    fix e assume "s' = (update_state (contract_id c) (lease_state claimer l now) s)\<lparr>event_log := e\<rparr>"
    then show ?thesis using u [of "lease_state claimer l now" e] running_fails by simp
  qed
qed

text \<open>The loop grants the first rows that are decided so, up to the batch.\<close>

lemma claim_rows_grants:
  assumes "claim_rows H role claimer l batch now rows (claimed, s) = Inr (claimed', s')"
    "\<forall>(c, t)\<in>set rows. \<not> succeeded s (contract_id c)" "distinct (map (\<lambda>(c, t). contract_id c) rows)"
    "\<forall>(c, t)\<in>set rows. select_one (\<lambda>x. state_of x = contract_id c) (states s) = Some t"
    "same_basis s0 s"
  shows "\<exists>new. claimed' = claimed @ new \<and> same_basis s0 s' \<and> contracts s' = contracts s
    \<and> (\<forall>(c, t')\<in>set new. \<exists>t. (c, t) \<in> set rows \<and> t' = lease_state claimer l now t \<and> decide role now (c, t) s0 = Inr Grant
         \<and> select_one (\<lambda>x. state_of x = contract_id c) (states s') = Some t')
    \<and> (\<forall>i. i \<notin> (\<lambda>(c, t). contract_id c) ` set rows \<longrightarrow>
         select_one (\<lambda>x. state_of x = i) (states s') = select_one (\<lambda>x. state_of x = i) (states s))"
  using assms
proof (induction rows arbitrary: claimed s)
  case (Cons row rows)
  obtain c t where row: "row = (c, t)" by (rule prod.exhaust)
  show ?case
  proof (cases "batch \<le> int (length claimed)")
    case True
    then show ?thesis using Cons.prems by auto
  next
    case False
    then obtain c1 s1 where one: "claim_row H role claimer l now (c, t) (claimed, s) = Inr (c1, s1)"
      and rest: "claim_rows H role claimer l batch now rows (c1, s1) = Inr (claimed', s')"
      using Cons.prems(1) row by (auto split: sum.splits)
    have nsucc: "\<not> succeeded s (contract_id c)" and st: "select_one (\<lambda>x. state_of x = contract_id c) (states s) = Some t"
      using Cons.prems(2,4) row by auto
    note b = claim_row_basis [OF one nsucc]
    have basis: "same_basis s0 s1" using b Cons.prems(5) by (simp add: same_basis_def)
    have "\<forall>(d, u)\<in>set rows. \<not> succeeded s1 (contract_id d)" using b Cons.prems(2) by (auto simp: same_basis_def)
    moreover have "\<forall>(d, u)\<in>set rows. contract_id d \<noteq> contract_id c" using Cons.prems(3) row by (force simp: image_iff)
    then have "\<forall>(d, u)\<in>set rows. select_one (\<lambda>x. state_of x = contract_id d) (states s1) = Some u"
      using b Cons.prems(4) by fastforce
    moreover have "distinct (map (\<lambda>(c, t). contract_id c) rows)" using Cons.prems(3) by simp
    ultimately obtain new where new: "claimed' = c1 @ new" "same_basis s0 s'" "contracts s' = contracts s1"
      "\<forall>(d, u')\<in>set new. \<exists>u. (d, u) \<in> set rows \<and> u' = lease_state claimer l now u \<and> decide role now (d, u) s0 = Inr Grant
         \<and> select_one (\<lambda>x. state_of x = contract_id d) (states s') = Some u'"
      "\<forall>i. i \<notin> (\<lambda>(c, t). contract_id c) ` set rows \<longrightarrow>
         select_one (\<lambda>x. state_of x = i) (states s') = select_one (\<lambda>x. state_of x = i) (states s1)"
      using Cons.IH [OF rest _ _ _ basis] by blast
    have notin: "contract_id c \<notin> (\<lambda>(c, t). contract_id c) ` set rows" using Cons.prems(3) row by (auto simp: image_iff)
    have frame: "\<forall>i. i \<notin> (\<lambda>(c, t). contract_id c) ` set (row # rows) \<longrightarrow>
         select_one (\<lambda>x. state_of x = i) (states s') = select_one (\<lambda>x. state_of x = i) (states s)"
      using new(5) b row by auto
    have later: "\<forall>(d, u')\<in>set new. \<exists>u. (d, u) \<in> set (row # rows) \<and> u' = lease_state claimer l now u \<and> decide role now (d, u) s0 = Inr Grant
         \<and> select_one (\<lambda>x. state_of x = contract_id d) (states s') = Some u'" using new(4) by fastforce
    show ?thesis
    proof (cases "c1 = claimed")
      case True
      then show ?thesis using new frame later b by auto
    next
      case False
      then obtain e where g: "decide role now (c, t) s = Inr Grant" "c1 = claimed @ [(c, lease_state claimer l now t)]"
        "s1 = (update_state (contract_id c) (lease_state claimer l now) s)\<lparr>event_log := e\<rparr>"
        using claim_row_decision [OF one] by blast
      have "select_one (\<lambda>x. state_of x = contract_id c) (states s1) = Some (lease_state claimer l now t)"
        unfolding g(3) using st by (simp add: select_one_update_where)
      then have "select_one (\<lambda>x. state_of x = contract_id c) (states s') = Some (lease_state claimer l now t)"
        using new(5) notin by simp
      moreover have "decide role now (c, t) s0 = Inr Grant" using g(1) decide_basis [OF Cons.prems(5)] by simp
      ultimately show ?thesis using new(1-3) g(2) frame later b row
        by (intro exI [of _ "(c, lease_state claimer l now t) # new"]) auto
    qed
  qed
qed auto

text \<open>Two runs of the loop on the same rows, from states with the same basis, grant the same contracts.\<close>

lemma claim_rows_same:
  assumes "claim_rows H role w l batch now rows (claimed, s) = Inr (claimed', s')"
    "claim_rows H role w2 l2 batch now rows (claimed2, u) = Inr (claimed2', u')"
    "\<forall>(c, t)\<in>set rows. \<not> succeeded s (contract_id c)" "same_basis s u" "map fst claimed = map fst claimed2"
  shows "map fst claimed' = map fst claimed2'"
  using assms
proof (induction rows arbitrary: claimed s claimed2 u)
  case (Cons row rows)
  obtain c t where row: "row = (c, t)" by (rule prod.exhaust)
  have len: "length claimed = length claimed2" using Cons.prems(5) by (metis length_map)
  show ?case
  proof (cases "batch \<le> int (length claimed)")
    case True
    then show ?thesis using Cons.prems len by simp
  next
    case False
    then obtain c1 s1 c2 u1 where one: "claim_row H role w l now (c, t) (claimed, s) = Inr (c1, s1)"
        "claim_rows H role w l batch now rows (c1, s1) = Inr (claimed', s')"
      and two: "claim_row H role w2 l2 now (c, t) (claimed2, u) = Inr (c2, u1)"
        "claim_rows H role w2 l2 batch now rows (c2, u1) = Inr (claimed2', u')"
      using Cons.prems(1,2) row len by (auto split: sum.splits)
    have n: "\<not> succeeded s (contract_id c)" "\<not> succeeded u (contract_id c)" using Cons.prems(3,4) row by (auto simp: same_basis_def)
    note b = claim_row_basis [OF one(1) n(1)] and b2 = claim_row_basis [OF two(1) n(2)]
    have "same_basis s1 u1" using b b2 Cons.prems(4) by (simp add: same_basis_def)
    moreover have "\<forall>(d, v)\<in>set rows. \<not> succeeded s1 (contract_id d)" using b Cons.prems(3) by (auto simp: same_basis_def)
    moreover have "decide role now (c, t) s = decide role now (c, t) u" by (rule decide_basis [OF Cons.prems(4)])
    then have "map fst c1 = map fst c2"
      using claim_row_decision [OF one(1)] claim_row_decision [OF two(1)] Cons.prems(5) by auto
    ultimately show ?thesis using Cons.IH [OF one(2) two(2)] by blast
  qed
qed simp

lemma candidates_ready:
  assumes inv: "fleet_inv H s"
  shows "\<forall>(c, t)\<in>set (claim_candidates role now s). \<not> succeeded s (contract_id c)"
    "\<forall>(c, t)\<in>set (claim_candidates role now s). select_one (\<lambda>x. state_of x = contract_id c) (states s) = Some t"
proof -
  have st: "select_one (\<lambda>x. state_of x = contract_id c) (states s) = Some t" "status t \<in> {''READY'', ''RUNNING''}"
    if "(c, t) \<in> set (claim_candidates role now s)" for c t
    using that joined_state [OF inv] by (auto simp: claim_candidates_def)
  then show "\<forall>(c, t)\<in>set (claim_candidates role now s). select_one (\<lambda>x. state_of x = contract_id c) (states s) = Some t" by blast
  show "\<forall>(c, t)\<in>set (claim_candidates role now s). \<not> succeeded s (contract_id c)"
    using st running_fails by (fastforce simp: succeeded_def)
qed

lemma joined_distinct: "fleet_inv H s \<Longrightarrow> distinct (map (\<lambda>(c, t). contract_id c) (joined s))"
proof -
  assume inv: "fleet_inv H s"
  have one: "filter (\<lambda>t. state_of t = i) ts = (case select_one (\<lambda>t. state_of t = i) ts of None \<Rightarrow> [] | Some t \<Rightarrow> [t])"
    if "distinct (map state_of ts)" for ts :: "contract_state list" and i
    using that by (induction ts) (auto simp: select_one_Cons filter_empty_conv image_iff dest!: select_one_SomeD split: option.splits)
  have d: "distinct (map state_of (states s))" "distinct (map contract_id (contracts s))" using inv by (simp_all add: fleet_inv_def)
  have k: "map (\<lambda>(c, t). contract_id c) (concat (map (\<lambda>c. map (\<lambda>t. (c, t)) (filter (\<lambda>t. state_of t = contract_id c) (states s))) cs))
      = map contract_id (filter (\<lambda>c. select_one (\<lambda>t. state_of t = contract_id c) (states s) \<noteq> None) cs)" for cs
    by (induction cs) (auto simp: one [OF d(1)] split: option.split)
  show ?thesis unfolding joined_def k using d(2) by (rule distinct_map_filter)
qed

lemma candidates_distinct: "fleet_inv H s \<Longrightarrow> distinct (map (\<lambda>(c, t). contract_id c) (claim_candidates role now s))"
  using joined_distinct [of H s] by (auto simp: claim_candidates_def distinct_map intro: inj_on_subset)

section \<open>What is stored\<close>

lemma verdicts_frame [simp]: "verdicts (update_state i f s) = verdicts s"
  by (simp add: update_state_def)

lemma append_event_verdicts: "append_event H ty ent p now s = Some s1 \<Longrightarrow> verdicts s1 = verdicts s \<and> contracts s1 = contracts s"
  by (erule append_event_cases) simp

lemma create_handoff_verdicts: "create_handoff H cid src fr to reason now s = Some s1 \<Longrightarrow> verdicts s1 = verdicts s"
  by (auto simp: create_handoff_def Let_def dest!: append_event_verdicts split: if_splits)

lemma settle_verdict_verdicts: "settle_verdict H c rid vd details now s = Inr s1 \<Longrightarrow> verdicts s1 = verdicts s"
  by (auto simp: settle_verdict_def Let_def dest!: create_handoff_verdicts split: if_splits option.splits sum.splits)

lemma verdict_stored:
  assumes "record_verdict H rid vd who details ev now s = (Inr v, s1)"
  shows "\<exists>w\<in>set (verdicts s1). verdict_result w = rid \<and> v\<lparr>rv_new := False\<rparr>
      = \<lparr>rv_id = verdict_id w, rv_hash = verdict_hash w, rv_verdict = verdict w, rv_new = False\<rparr>"
proof (cases "select_one (\<lambda>v. verdict_result v = rid) (verdicts s)")
  case (Some w)
  then show ?thesis using assms select_one_SomeD [OF Some]
    by (auto simp: record_verdict_def split: if_splits option.splits)
next
  case None
  then obtain r c where sel: "select_one (\<lambda>(r, c). result_id r = rid) (concat (map (\<lambda>r. map (\<lambda>c. (r, c)) (filter (\<lambda>c. contract_id c = result_contract r)
      (contracts s))) (results s))) = Some (r, c)" using assms by (auto simp: record_verdict_def split: if_splits option.splits)
  define digest where "digest = canonical_sha256 H (verdict_json rid (result_contract r) vd who now details ev)"
  define w where "w = \<lparr>verdict_id = ''verdict:'' @ take 32 digest, verdict_result = rid, verdict_contract = result_contract r, verdict = vd,
    verifier = who, verdict_created_at = isoformat now, verdict_details = sort_keys details, verdict_evidence = ev, verdict_hash = digest\<rparr>"
  obtain s2 s3 ty ent p where w2: "insert_verdict w s = Some s2" "settle_verdict H c rid vd details now s2 = Inr s3"
    "append_event H ty ent p now s3 = Some s1"
    and v: "v = \<lparr>rv_id = ''verdict:'' @ take 32 digest, rv_hash = digest, rv_verdict = vd, rv_new = True\<rparr>"
    using assms sel None
    by (auto simp: record_verdict_def Let_def commit_def w_def digest_def split: if_splits option.splits sum.splits)
  have "verdicts s2 = verdicts s @ [w]" using w2(1) by (auto simp: insert_verdict_def split: if_splits)
  then have "w \<in> set (verdicts s1)" using settle_verdict_verdicts [OF w2(2)] append_event_verdicts [OF w2(3)] by simp
  then show ?thesis using v by (intro bexI [of _ w]) (simp_all add: w_def)
qed

lemma contract_stored:
  assumes "create_contract H num rnd c now s = (Inr k, s1)"
  shows "\<exists>x\<in>set (contracts s1). idempotency_key (spec x) = idempotency_key c \<and> contract_id x = made_id k
    \<and> contract_hash x = made_hash k \<and> rank_score x = made_score k"
proof (cases "select_one (\<lambda>(x, t). idempotency_key (spec x) = idempotency_key c) (joined s)")
  case (Some xt)
  obtain x t where xt: "xt = (x, t)" by (rule prod.exhaust)
  then have "x \<in> set (contracts s)" "idempotency_key (spec x) = idempotency_key c"
    using select_one_SomeD [OF Some] by (auto simp: joined_member)
  then show ?thesis using assms Some xt by (auto simp: create_contract_def split: sum.splits)
next
  case None
  then obtain score where score: "rank_contract rnd (priority c) (ranking c) = Inr score"
    using assms by (auto simp: create_contract_def split: sum.splits)
  define digest where "digest = canonical_sha256 H (contract_json num c (isoformat now) score)"
  define x where "x = \<lparr>contract_id = ''contract:'' @ take 32 digest, spec = c, created_at = isoformat now, rank_score = score, contract_hash = digest\<rparr>"
  obtain s2 ty ent p where s2: "insert_contract x s = Some s2" "append_event H ty ent p now s2 = Some s1"
    and k: "made_id k = contract_id x" "made_hash k = digest" "made_score k = score"
    using assms None score
    by (auto simp: create_contract_def Let_def commit_def x_def digest_def bind_eq_Some_conv split: sum.splits option.splits)
  have "x \<in> set (contracts s2)" using s2(1) by (auto simp: insert_contract_def split: if_splits)
  then have "x \<in> set (contracts s1)" using append_event_verdicts [OF s2(2)] by simp
  then show ?thesis using k by (intro bexI [of _ x]) (simp_all add: x_def)
qed

section \<open>Properties\<close>

text \<open>
  C24. Whatever the processes do and however their claims interleave, the event log verifies, contracts,
  results, verdicts, handoffs, errors and events are only added, a result has at most one verdict, and each
  contract has exactly one state.
\<close>

theorem fleet_records_sound:
  "let s = run_all (run_fleet H num rnd) ops new_fleet; s' = run_all (run_fleet H num rnd) ops' s in
     verify_event_chain H s \<and> distinct (map verdict_result (verdicts s)) \<and> map state_of (states s) = map contract_id (contracts s)
     \<and> distinct (map contract_id (contracts s)) \<and> fleet_older s s'"
  using fleet.reached_inv [of H num rnd ops] fleet.run_all_older [OF fleet.reached_inv [of H num rnd ops], of num rnd ops']
  by (simp add: Let_def fleet_inv_def verify_event_chain_def)

text \<open>
  C25. A claim grants only what the rules allow: contracts of the role that are ready or
  whose lease is over, with attempts left, all dependencies in a state of success, and an error budget that
  is not contracted unless the role is judge or SRE; each is then running under the claimer's lease.
\<close>

theorem claim_grants_by_the_rules:
  assumes s: "s = run_all (run_fleet H num rnd) ops new_fleet"
    and c: "claim_next H role claimer l batch now s = (Inr claimed, s')"
  shows "list_all (\<lambda>(c, t'). list_ex (\<lambda>(d, t). d = c \<and> owner_role t = role
        \<and> (status t = ''READY'' \<or> status t = ''RUNNING'' \<and> lease_until t \<noteq> None \<and> the (lease_until t) \<le> isoformat now)
        \<and> attempt_count t \<le> retry_budget (spec c) \<and> dependencies_satisfied (dependencies (spec c)) s
        \<and> (\<exists>b. error_budget (subsystem (spec c)) now s = Inr b \<and> (\<not> contracted b \<or> role = ''JUDGE'' \<or> role = ''SRE''))
        \<and> t' = lease_state claimer l now t) (joined s)
      \<and> select_one (\<lambda>x. state_of x = contract_id c) (states s') = Some t') claimed
    \<and> role \<in> set roles \<and> 1 \<le> l"
proof -
  have inv: "fleet_inv H s" unfolding s by (rule fleet.reached_inv)
  let ?rows = "claim_candidates role now s"
  have ok: "role \<in> set roles" "1 \<le> l" and rows: "claim_rows H role claimer l batch now ?rows ([], s) = Inr (claimed, s')"
    using c by (auto simp: claim_next_def claim_commit_def check_claim_def split: sum.splits if_splits)
  have "same_basis s s" by (simp add: same_basis_def)
  from claim_rows_grants [OF rows candidates_ready(1) [OF inv] candidates_distinct [OF inv] candidates_ready(2) [OF inv] this]
  have g: "\<forall>(c, t')\<in>set claimed. \<exists>t. (c, t) \<in> set ?rows \<and> t' = lease_state claimer l now t \<and> decide role now (c, t) s = Inr Grant
         \<and> select_one (\<lambda>x. state_of x = contract_id c) (states s') = Some t'" by auto
  have d: "attempt_count t \<le> retry_budget (spec c) \<and> dependencies_satisfied (dependencies (spec c)) s
        \<and> (\<exists>b. error_budget (subsystem (spec c)) now s = Inr b \<and> (\<not> contracted b \<or> role = ''JUDGE'' \<or> role = ''SRE''))"
    if "decide role now (c, t) s = Inr Grant" for c t
    using that by (auto simp: decide_def dependencies_succeeded split: if_splits sum.splits)
  have r: "(c, t) \<in> set (joined s) \<and> owner_role t = role
        \<and> (status t = ''READY'' \<or> status t = ''RUNNING'' \<and> lease_until t \<noteq> None \<and> the (lease_until t) \<le> isoformat now)"
    if "(c, t) \<in> set ?rows" for c t
    using that by (auto simp: claim_candidates_def split: option.splits)
  show ?thesis unfolding list_all_iff list_ex_iff
  proof (intro conjI ballI ok)
    fix x assume x: "x \<in> set claimed"
    obtain c t' where xe: "x = (c, t')" by (rule prod.exhaust)
    obtain t where t: "(c, t) \<in> set ?rows" "t' = lease_state claimer l now t" "decide role now (c, t) s = Inr Grant"
      "select_one (\<lambda>x. state_of x = contract_id c) (states s') = Some t'" using bspec [OF g x] unfolding xe by auto
    show "case x of (c, t') \<Rightarrow> (\<exists>x\<in>set (joined s). case x of (d, t) \<Rightarrow> d = c \<and> owner_role t = role
        \<and> (status t = ''READY'' \<or> status t = ''RUNNING'' \<and> lease_until t \<noteq> None \<and> the (lease_until t) \<le> isoformat now)
        \<and> attempt_count t \<le> retry_budget (spec c) \<and> dependencies_satisfied (dependencies (spec c)) s
        \<and> (\<exists>b. error_budget (subsystem (spec c)) now s = Inr b \<and> (\<not> contracted b \<or> role = ''JUDGE'' \<or> role = ''SRE''))
        \<and> t' = lease_state claimer l now t) \<and> select_one (\<lambda>x. state_of x = contract_id c) (states s') = Some t'"
      unfolding xe prod.case using r [OF t(1)] d [OF t(3)] t(2,4) by (intro conjI bexI [of _ "(c, t)"]) simp_all
  qed
qed

text \<open>
  C26. Claims are not exclusive between processes. The rows of a claim are read before its transaction
  begins and not checked again: when two workers of a role read the same rows at the same clock reading, with the same
  batch, and commit one after the other, the second is granted exactly the contracts the first has just leased.
\<close>

theorem concurrent_claims_grant_twice:
  assumes s: "s = run_all (run_fleet H num rnd) ops new_fleet" and rows: "rows = claim_candidates role now s"
    and one: "claim_commit H role claimer l batch now rows s = (Inr claimed, s1)"
    and two: "claim_commit H role claimer2 l2 batch now rows s1 = (Inr claimed2, s2)"
  shows "map fst claimed2 = map fst claimed"
proof -
  have inv: "fleet_inv H s" unfolding s by (rule fleet.reached_inv)
  have r1: "claim_rows H role claimer l batch now rows ([], s) = Inr (claimed, s1)"
    and r2: "claim_rows H role claimer2 l2 batch now rows ([], s1) = Inr (claimed2, s2)"
    using one two by (auto simp: claim_commit_def split: sum.splits)
  note c = candidates_ready [OF inv, of role now, folded rows] and d = candidates_distinct [OF inv, of role now, folded rows]
  have "same_basis s s" by (simp add: same_basis_def)
  from claim_rows_grants [OF r1 c(1) d c(2) this] have "same_basis s s1" by blast
  from claim_rows_same [OF r1 r2 c(1) this] show ?thesis by simp
qed

text \<open>
  The owner of a contract can settle it without a verdict: any role that owns it may report a state of
  success, which the controller stores as the state of the contract, with no result of verification.
\<close>

theorem success_needs_no_verdict:
  assumes s: "s = run_all (run_fleet H num rnd) ops new_fleet"
    and own: "(c, t) \<in> set (joined s)" "owner_role t \<in> set roles" "st \<in> set success_states"
    and r: "record_result H (contract_id c) (owner_role t) st payload ev now s = (Inr res, s')"
  shows "verdicts s' = verdicts s \<and> (\<exists>t'. select_one (\<lambda>x. state_of x = contract_id c) (states s') = Some t' \<and> status t' = st)"
proof -
  have inv: "fleet_inv H s" unfolding s by (rule fleet.reached_inv)
  have st: "select_one (\<lambda>x. state_of x = contract_id c) (states s) = Some t" by (rule joined_state [OF inv own(1)])
  have no: "st \<notin> set awaiting_states" using own(3) by (auto simp: success_states_def awaiting_states_def)
  let ?f = "\<lambda>t. (released st now t)\<lparr>terminal_reason := None\<rparr>"
  have "\<exists>rs ty ent p u. append_event H ty ent p now u = Some s' \<and> u = update_state (contract_id c) ?f (s\<lparr>results := rs\<rparr>)"
    using r no own(3) by (auto simp: record_result_def settle_result_def insert_result_def commit_def Let_def
        split: option.splits if_splits prod.splits)
  then obtain rs e where s': "s' = (update_state (contract_id c) ?f (s\<lparr>results := rs\<rparr>))\<lparr>event_log := e\<rparr>"
    by (metis append_event_cases)
  have "select_one (\<lambda>x. state_of x = contract_id c) (states s') = Some (?f t)"
    unfolding s' using st by (simp add: select_one_update_where)
  then show ?thesis by (simp add: s' update_state_def released_def)
qed

text \<open>
  A verdict is final: once a result has one, every later verdict on it is answered with the first and changes nothing.
\<close>

theorem verdicts_are_final:
  assumes s: "s = run_all (run_fleet H num rnd) ops new_fleet"
    and one: "record_verdict H rid vd who details ev now s = (Inr v, s1)"
    and s2: "s2 = run_all (run_fleet H num rnd) ops2 s1"
    and vd2: "vd2 \<in> {''VERIFIED'', ''VERIFICATION_FAILED'', ''INCONCLUSIVE'', ''BLOCKED_EXTERNAL''}"
  shows "record_verdict H rid vd2 who2 details2 ev2 now2 s2 = (Inr (v\<lparr>rv_new := False\<rparr>), s2)"
proof -
  have inv: "fleet_inv H s" unfolding s by (rule fleet.reached_inv)
  then have inv1: "fleet_inv H s1" and old: "fleet_older s s1"
    using record_verdict_good [of H s rid vd who details ev now] one by (simp_all add: good_step_def)
  have inv2: "fleet_inv H s2" unfolding s2 by (rule fleet.run_all_inv [OF inv1])
  have older: "fleet_older s1 s2" unfolding s2 by (rule fleet.run_all_older [OF inv1])
  have r: "\<exists>r\<in>set (results s). result_id r = rid"
    using one by (auto simp: record_verdict_def dest!: select_one_SomeD split: if_splits option.splits)
  have sub: "set (results s) \<subseteq> set (results s2)" "set (verdicts s1) \<subseteq> set (verdicts s2)"
    using old older by (auto simp: fleet_older_def dest: set_mono_prefix)
  then obtain r2 where r2: "r2 \<in> set (results s2)" "result_id r2 = rid" using r by blast
  then obtain c2 where "c2 \<in> set (contracts s2)" "contract_id c2 = result_contract r2"
    using inv2 by (auto simp: fleet_inv_def)
  then have "(r2, c2) \<in> set (concat (map (\<lambda>r. map (\<lambda>c. (r, c)) (filter (\<lambda>c. contract_id c = result_contract r) (contracts s2))) (results s2)))"
    using r2(1) by auto
  then have "select_one (\<lambda>(r, c). result_id r = rid) (concat (map (\<lambda>r. map (\<lambda>c. (r, c)) (filter (\<lambda>c. contract_id c = result_contract r)
      (contracts s2))) (results s2))) \<noteq> None" unfolding select_one_None using r2(2) by blast
  then obtain r3 c3 where sel: "select_one (\<lambda>(r, c). result_id r = rid) (concat (map (\<lambda>r. map (\<lambda>c. (r, c)) (filter (\<lambda>c. contract_id c = result_contract r)
      (contracts s2))) (results s2))) = Some (r3, c3)" by auto
  have "\<exists>w\<in>set (verdicts s1). verdict_result w = rid \<and> v\<lparr>rv_new := False\<rparr>
      = \<lparr>rv_id = verdict_id w, rv_hash = verdict_hash w, rv_verdict = verdict w, rv_new = False\<rparr>"
    by (rule verdict_stored [OF one])
  then obtain w where w: "w \<in> set (verdicts s2)" "verdict_result w = rid"
    "v\<lparr>rv_new := False\<rparr> = \<lparr>rv_id = verdict_id w, rv_hash = verdict_hash w, rv_verdict = verdict w, rv_new = False\<rparr>" using sub(2) by blast
  have "select_one (\<lambda>v. verdict_result v = rid) (verdicts s2) = Some w"
    using select_one_unique [of verdict_result "verdicts s2" w] inv2 w(1,2) by (simp add: fleet_inv_def)
  then show ?thesis using vd2 sel w(3) by (auto simp: record_verdict_def)
qed

text \<open>
  Contracts are created once per idempotency key: a later creation answers the contract of the first and changes nothing.
\<close>

theorem contracts_created_once:
  assumes s: "s = run_all (run_fleet H num rnd) ops new_fleet"
    and one: "create_contract H num rnd c now s = (Inr k, s1)"
    and s2: "s2 = run_all (run_fleet H num rnd) ops2 s1"
    and again: "check_spec c2 = Inr ()" "idempotency_key c2 = idempotency_key c"
  shows "\<exists>k2. create_contract H num rnd c2 now2 s2 = (Inr k2, s2) \<and> made_id k2 = made_id k \<and> made_hash k2 = made_hash k
    \<and> made_score k2 = made_score k \<and> \<not> made_new k2"
proof -
  have inv: "fleet_inv H s" unfolding s by (rule fleet.reached_inv)
  then have inv1: "fleet_inv H s1" using create_good [of H s num rnd c now] one by (simp add: good_step_def)
  have inv2: "fleet_inv H s2" unfolding s2 by (rule fleet.run_all_inv [OF inv1])
  have "fleet_older s1 s2" unfolding s2 by (rule fleet.run_all_older [OF inv1])
  then have "set (contracts s1) \<subseteq> set (contracts s2)" by (simp add: fleet_older_def set_mono_prefix)
  then obtain x where x: "x \<in> set (contracts s2)" "idempotency_key (spec x) = idempotency_key c" "contract_id x = made_id k"
    "contract_hash x = made_hash k" "rank_score x = made_score k" using contract_stored [OF one] by blast
  obtain t where t: "(x, t) \<in> set (joined s2)" by (rule contract_has_state [OF inv2 x(1)])
  let ?P = "\<lambda>(x, t). idempotency_key (spec x) = idempotency_key c2"
  have "select_one ?P (joined s2) \<noteq> None" using t x(2) again(2) by (auto simp: select_one_None)
  then obtain y u where y: "select_one ?P (joined s2) = Some (y, u)" by auto
  then have "(y, u) \<in> set (joined s2)" "idempotency_key (spec y) = idempotency_key c2" using select_one_SomeD [OF y] by auto
  then have "y = x" using key_unique [OF inv2, of y x] x(1,2) again(2) by (simp add: joined_member)
  then show ?thesis using y again(1) x(3-5) by (simp add: create_contract_def)
qed

text \<open>
  The exact score of an accepted contract stays within 80 below and 178 above the base of its priority.
\<close>

theorem rank_score_bounds:
  assumes "rank_contract rnd p rs = Inr score"
  shows "\<exists>base x. map_of priority_base p = Some base \<and> score = rnd x \<and> base - 80 \<le> x \<and> x \<le> base + 178"
proof -
  have set1: "list_all (\<lambda>(k, v). 0 \<le> v \<and> v \<le> 1) (set_factor k v fs)"
    if "list_all (\<lambda>(k, v). 0 \<le> v \<and> v \<le> (1::rat)) fs" "0 \<le> v" "v \<le> 1" for k v fs
    using that by (induction k v fs rule: set_factor.induct) auto
  have setn: "set_factors rs fs = Inr gs \<Longrightarrow> list_all (\<lambda>(k, v). 0 \<le> v \<and> v \<le> 1) fs \<Longrightarrow> list_all (\<lambda>(k, v). 0 \<le> v \<and> v \<le> 1) gs" for fs gs
    by (induction rs fs rule: set_factors.induct) (auto simp: set1 split: if_splits)
  have unit: "0 \<le> factor gs k \<and> factor gs k \<le> 1" if "list_all (\<lambda>(k, v). 0 \<le> v \<and> v \<le> 1) gs" for gs k
    using that map_of_SomeD [of gs k] by (auto simp: factor_def list_all_iff split: option.split)
  obtain base gs where b: "map_of priority_base p = Some base" "set_factors rs factor_defaults = Inr gs" "score = rnd (exact_score base gs)"
    using assms by (auto simp: rank_contract_def split: option.splits sum.splits)
  have "list_all (\<lambda>(k, v). 0 \<le> v \<and> v \<le> 1) factor_defaults" by (simp add: factor_defaults_def)
  from unit [OF setn [OF b(2) this]] have u: "0 \<le> factor gs k" "factor gs k \<le> 1" for k by simp_all
  have "base - 80 \<le> exact_score base gs" "exact_score base gs \<le> base + 178"
    unfolding exact_score_def Let_def
    using u [of "''downstream_leverage''"] u [of "''user_impact''"] u [of "''dependency_unblocking''"] u [of "''uncertainty_reduction''"]
      u [of "''information_gain''"] u [of "''success_probability''"] u [of "''verification_value''"] u [of "''execution_readiness''"]
      u [of "''remaining_cost''"] u [of "''maintenance_burden''"] u [of "''rollback_cost''"] u [of "''risk''"] by linarith+
  then show ?thesis using b by blast
qed

lemma rank_score_bounds_witness: "\<exists>base x. map_of priority_base ''P3'' = Some base \<and> (300::rat) = x \<and> base - 80 \<le> x \<and> x \<le> base + 178"
proof -
  have "rank_contract id ''P3'' [(''user_impact'', 1), (''downstream_leverage'', 1), (''dependency_unblocking'', 1), (''execution_readiness'', 1 / 2)] = Inr 300"
    by (simp add: rank_contract_def priority_base_def exact_score_def factor_def factor_defaults_def)
  from rank_score_bounds [OF this] show ?thesis by simp
qed

section \<open>Witnesses\<close>

text \<open>A hash that numbers the given texts; every other text gets one more digest.\<close>

fun chain_hash :: "string list \<Rightarrow> string \<Rightarrow> string" where
  "chain_hash [] t = ''x''"
| "chain_hash (u # us) t = (if t = u then ''h'' else CHR ''i'' # chain_hash us t)"

definition no_float :: "rat \<Rightarrow> json" where
  "no_float r = JNull"

definition demo_spec :: contract_spec where
  "demo_spec = \<lparr>idempotency_key = ''k'', problem_statement = ''p'', source_basis = JNull, priority = ''P0'', expected_outcome = [],
     success_criteria = [], allowed_scope = [], prohibited_scope = [], dependencies = [], assigned_role = ''BUILDER'',
     verification_requirements = [], rollback_plan = JNull, resource_budget = JNull, retry_budget = 0, current_head = [],
     subsystem = ''s'', failure_criteria = [], next_review_condition = [], ranking = [], on_verified_role = None\<rparr>"

definition day :: int where
  "day = 86400000000"

abbreviation demo_cid :: string where
  "demo_cid \<equiv> ''contract:iiix''"

definition demo_event :: "string \<Rightarrow> string \<Rightarrow> json_object \<Rightarrow> string \<Rightarrow> fleet_event" where
  "demo_event ty ent p prev = \<lparr>event_id = [], event_at = isoformat day, event_type = ty, entity_id = ent, event_payload = sort_keys (JObj p),
     prev_event_hash = prev, event_hash = []\<rparr>"

text \<open>The three events of the demonstrations: the creation, and two that may follow it.\<close>

definition ev1 :: fleet_event where
  "ev1 = demo_event ''CONTRACT_CREATED'' demo_cid [(''priority'', JStr ''P0''), (''rank_score'', JNull), (''assigned_role'', JStr ''BUILDER''),
     (''subsystem'', JStr ''s''), (''contract_hash'', JStr ''iiix'')] genesis"

definition ev2 :: "string \<Rightarrow> string \<Rightarrow> json_object \<Rightarrow> fleet_event" where
  "ev2 ty ent p = demo_event ty ent p ''h''"

definition ev3 :: "string \<Rightarrow> string \<Rightarrow> json_object \<Rightarrow> fleet_event" where
  "ev3 ty ent p = demo_event ty ent p ''ih''"

lemma event_text_field: "event_text e = event_text f \<Longrightarrow> prev_event_hash e = prev_event_hash f"
  unfolding event_text_def by (drule dumps_field [where k = "''prev_event_hash''"]) (simp_all add: get_def)

lemma prev_ev [simp]: "prev_event_hash ev1 = genesis" "prev_event_hash (ev2 ty ent p) = ''h''" "prev_event_hash (ev3 ty ent p) = ''ih''"
  by (simp_all add: ev1_def ev2_def ev3_def demo_event_def)

lemma genesis_ne: "genesis \<noteq> ''h''" "genesis \<noteq> ''ih''"
  by (simp_all add: genesis_def numeral_eq_Suc)

lemma texts_differ:
  "event_text (ev2 ty ent p) \<noteq> event_text ev1" "event_text (ev3 ty ent p) \<noteq> event_text ev1"
  "event_text (ev3 ty ent p) \<noteq> event_text (ev2 ty' ent' p')"
  using event_text_field [of "ev2 ty ent p" ev1] event_text_field [of "ev3 ty ent p" ev1]
    event_text_field [of "ev3 ty ent p" "ev2 ty' ent' p'"] genesis_ne by auto

lemma event_text_object: "event_text e = dumps compact (JObj d) \<Longrightarrow> distinct (map fst d) \<Longrightarrow> get d ''prev_event_hash'' \<noteq> None"
  unfolding event_text_def
  by (drule dumps_field [where k = "''prev_event_hash''"], simp_all add: get_def) (cases "map_of d ''prev_event_hash''", auto)

definition demo_hash :: "fleet_event \<Rightarrow> fleet_event \<Rightarrow> string \<Rightarrow> string" where
  "demo_hash e2 e3 = chain_hash [event_text ev1, event_text e2, event_text e3]"

lemma demo_hash_events:
  assumes "e2 = ev2 ty ent p" "e3 = ev3 ty' ent' p'"
  shows "demo_hash e2 e3 (event_text ev1) = ''h''" "demo_hash e2 e3 (event_text e2) = ''ih''" "demo_hash e2 e3 (event_text e3) = ''iih''"
  using texts_differ(1) [of ty ent p] texts_differ(2,3) by (simp_all add: demo_hash_def assms)

lemma demo_hash_object:
  "distinct (map fst d) \<Longrightarrow> get d ''prev_event_hash'' = None \<Longrightarrow> canonical_sha256 (demo_hash e2 e3) (JObj d) = ''iiix''"
  using event_text_object [of _ d] by (auto simp: canonical_sha256_def demo_hash_def) metis+

definition stored :: "string \<Rightarrow> fleet_event \<Rightarrow> fleet_event" where
  "stored d e = e\<lparr>event_id := ''fleet:'' @ lower (event_type e) @ '':'' @ take 32 d, event_hash := d\<rparr>"

lemma append_stored:
  assumes "e = demo_event ty ent p (tip event_hash genesis (event_log s))" "H (event_text e) = d"
    "list_all (\<lambda>x. event_id x \<noteq> event_id (stored d e) \<and> event_hash x \<noteq> d) (event_log s)"
  shows "append_event H ty ent p day s = Some (s\<lparr>event_log := event_log s @ [stored d e]\<rparr>)"
  using assms by (auto simp: append_event_def Let_def demo_event_def stored_def list_all_iff)

text \<open>The contract of the demonstrations, created.\<close>

definition demo_contract :: contract where
  "demo_contract = \<lparr>contract_id = demo_cid, spec = demo_spec, created_at = isoformat day, rank_score = 499, contract_hash = ''iiix''\<rparr>"

definition demo_state :: contract_state where
  "demo_state = \<lparr>state_of = demo_cid, status = ''READY'', owner_role = ''BUILDER'', claimed_by = None, lease_until = None,
     attempt_count = 0, updated_at = isoformat day, terminal_reason = None\<rparr>"

definition demo_fleet :: fleet where
  "demo_fleet = new_fleet\<lparr>contracts := [demo_contract], states := [demo_state], event_log := [stored ''h'' ev1]\<rparr>"

lemma demo_create:
  assumes "e2 = ev2 ty ent p" "e3 = ev3 ty' ent' p'"
  shows "create_contract (demo_hash e2 e3) no_float id demo_spec day new_fleet
    = (Inr \<lparr>made_id = demo_cid, made_hash = ''iiix'', made_score = 499, made_status = ''READY'', made_owner = ''BUILDER'', made_new = True\<rparr>, demo_fleet)"
proof -
  let ?H = "demo_hash e2 e3"
  have score: "rank_contract id ''P0'' [] = Inr 499"
    by (simp add: rank_contract_def priority_base_def exact_score_def factor_def factor_defaults_def)
  have digest: "canonical_sha256 ?H (contract_json no_float demo_spec (isoformat day) 499) = ''iiix''"
    unfolding contract_json_def by (rule demo_hash_object) (simp_all add: get_def)
  have ins: "insert_contract demo_contract new_fleet = Some (new_fleet\<lparr>contracts := [demo_contract], states := [demo_state]\<rparr>)"
    by (simp add: insert_contract_def new_fleet_def demo_contract_def demo_state_def demo_spec_def)
  have ap: "append_event ?H ''CONTRACT_CREATED'' demo_cid [(''priority'', JStr ''P0''), (''rank_score'', JNull), (''assigned_role'', JStr ''BUILDER''),
     (''subsystem'', JStr ''s''), (''contract_hash'', JStr ''iiix'')] day (new_fleet\<lparr>contracts := [demo_contract], states := [demo_state]\<rparr>)
     = Some demo_fleet"
    by (subst append_stored [of ev1]) (simp_all add: new_fleet_def demo_hash_events [OF assms] demo_fleet_def, simp add: ev1_def)
  have sp: "priority demo_spec = ''P0''" "ranking demo_spec = []" "idempotency_key demo_spec = ''k''" "assigned_role demo_spec = ''BUILDER''"
    "subsystem demo_spec = ''s''" "check_spec demo_spec = Inr ()"
    by (simp_all add: demo_spec_def check_spec_def priority_base_def roles_def)
  have "joined new_fleet = []" by (simp add: joined_def new_fleet_def)
  then show ?thesis using score digest ins ap
    by (simp add: create_contract_def sp Let_def commit_def demo_contract_def no_float_def)
qed


text \<open>Two claims of it from the same reading.\<close>

definition claim_payload :: "string \<Rightarrow> json_object" where
  "claim_payload w = [(''role'', JStr ''BUILDER''), (''claimer'', JStr w), (''lease_until'', JStr (isoformat (day + 1000000)))]"

definition claim_one :: fleet_event where "claim_one = ev2 ''CONTRACT_CLAIMED'' demo_cid (claim_payload ''a'')"

definition claim_two :: fleet_event where "claim_two = ev3 ''CONTRACT_CLAIMED'' demo_cid (claim_payload ''b'')"

abbreviation "claim_hash \<equiv> demo_hash claim_one claim_two"

abbreviation demo_leased :: "string \<Rightarrow> contract_state \<Rightarrow> contract_state" where
  "demo_leased w t \<equiv> lease_state w 1 day t"

definition fleet_one :: fleet where
  "fleet_one = demo_fleet\<lparr>states := [demo_leased ''a'' demo_state], event_log := [stored ''h'' ev1, stored ''ih'' claim_one]\<rparr>"

definition fleet_two :: fleet where
  "fleet_two = demo_fleet\<lparr>states := [demo_leased ''b'' (demo_leased ''a'' demo_state)],
     event_log := [stored ''h'' ev1, stored ''ih'' claim_one, stored ''iih'' claim_two]\<rparr>"

lemma demo_joined: "joined demo_fleet = [(demo_contract, demo_state)]"
  by (simp add: joined_def demo_fleet_def new_fleet_def demo_contract_def demo_state_def)

lemma demo_rows: "claim_candidates ''BUILDER'' day demo_fleet = [(demo_contract, demo_state)]"
  by (simp add: claim_candidates_def demo_joined) (simp add: demo_state_def)

lemma demo_budget: "errors s = [] \<Longrightarrow> \<exists>b. error_budget x day s = Inr b \<and> \<not> contracted b"
  by (simp add: error_budget_def Let_def instant_def day_def max_instant_def usec_per_day_def)

lemma hash_ok: "claim_hash (event_text ev1) = ''h''" "claim_hash (event_text claim_one) = ''ih''" "claim_hash (event_text claim_two) = ''iih''"
  unfolding claim_one_def claim_two_def by (rule demo_hash_events [OF refl refl])+

lemma event_ids: "event_type ev1 = ''CONTRACT_CREATED''" "event_type claim_one = ''CONTRACT_CLAIMED''" "event_type claim_two = ''CONTRACT_CLAIMED''"
  by (simp_all add: ev1_def claim_one_def claim_two_def ev2_def ev3_def demo_event_def)

lemma claim_event_one:
  "append_event claim_hash ''CONTRACT_CLAIMED'' demo_cid (claim_payload ''a'') day (demo_fleet\<lparr>states := ts\<rparr>)
   = Some (demo_fleet\<lparr>states := ts, event_log := [stored ''h'' ev1, stored ''ih'' claim_one]\<rparr>)"
  by (subst append_stored [where e = claim_one and d = "''ih''"])
    (simp_all add: hash_ok demo_fleet_def stored_def event_ids lower_def lower_char_def tip_def, simp add: claim_one_def ev2_def)

lemma claim_event_two:
  "append_event claim_hash ''CONTRACT_CLAIMED'' demo_cid (claim_payload ''b'') day (fleet_one\<lparr>states := ts\<rparr>)
   = Some (fleet_one\<lparr>states := ts, event_log := [stored ''h'' ev1, stored ''ih'' claim_one, stored ''iih'' claim_two]\<rparr>)"
  by (subst append_stored [where e = claim_two and d = "''iih''"])
    (simp_all add: hash_ok fleet_one_def stored_def event_ids lower_def lower_char_def tip_def, simp add: claim_two_def ev3_def)

lemma demo_commit_one:
  "claim_commit claim_hash ''BUILDER'' ''a'' 1 1 day [(demo_contract, demo_state)] demo_fleet
   = (Inr [(demo_contract, demo_leased ''a'' demo_state)], fleet_one)"
proof -
  obtain b where b: "error_budget ''s'' day demo_fleet = Inr b" "\<not> contracted b"
    using demo_budget [of demo_fleet] by (auto simp: demo_fleet_def new_fleet_def)
  have u: "update_state demo_cid (lease_state ''a'' 1 day) demo_fleet = demo_fleet\<lparr>states := [demo_leased ''a'' demo_state]\<rparr>"
    by (simp add: update_state_def demo_fleet_def update_where_Cons demo_state_def)
  have "day + 1000000 < max_instant" by (simp add: day_def max_instant_def usec_per_day_def)
  then show ?thesis using b claim_event_one [of "[demo_leased ''a'' demo_state]"]
    by (simp add: claim_commit_def claim_row_def demo_contract_def demo_spec_def dependencies_satisfied_def u claim_payload_def fleet_one_def)
      (simp add: demo_state_def)
qed


lemma demo_commit_two:
  "claim_commit claim_hash ''BUILDER'' ''b'' 1 1 day [(demo_contract, demo_state)] fleet_one
   = (Inr [(demo_contract, demo_leased ''b'' demo_state)], fleet_two)"
proof -
  obtain b where b: "error_budget ''s'' day fleet_one = Inr b" "\<not> contracted b"
    using demo_budget [of fleet_one] by (auto simp: fleet_one_def demo_fleet_def new_fleet_def)
  have u: "update_state demo_cid (lease_state ''b'' 1 day) fleet_one = fleet_one\<lparr>states := [demo_leased ''b'' (demo_leased ''a'' demo_state)]\<rparr>"
    by (simp add: update_state_def fleet_one_def update_where_Cons demo_state_def)
  have "day + 1000000 < max_instant" by (simp add: day_def max_instant_def usec_per_day_def)
  then show ?thesis using b claim_event_two [of "[demo_leased ''b'' (demo_leased ''a'' demo_state)]"]
    by (simp add: claim_commit_def claim_row_def demo_contract_def demo_spec_def dependencies_satisfied_def u claim_payload_def fleet_two_def)
      (simp add: demo_state_def fleet_one_def)
qed

lemma demo_reached:
  assumes "e2 = ev2 ty ent p" "e3 = ev3 ty' ent' p'"
  shows "demo_fleet = run_all (run_fleet (demo_hash e2 e3) no_float id) [Create demo_spec day] new_fleet"
  by (simp add: demo_create [OF assms])

lemma concurrent_claims_grant_twice_witness:
  "fst (claim_commit claim_hash ''BUILDER'' ''a'' 1 1 day [(demo_contract, demo_state)] demo_fleet) = Inr [(demo_contract, demo_leased ''a'' demo_state)]
   \<and> (case claim_commit claim_hash ''BUILDER'' ''b'' 1 1 day [(demo_contract, demo_state)] fleet_one of
        (Inr claimed, s) \<Rightarrow> map fst claimed = [demo_contract] | _ \<Rightarrow> False)"
proof -
  have "map fst [(demo_contract, demo_leased ''b'' demo_state)] = map fst [(demo_contract, demo_leased ''a'' demo_state)]"
    by (rule concurrent_claims_grant_twice [OF demo_reached [OF claim_one_def claim_two_def] demo_rows [symmetric] demo_commit_one demo_commit_two])
  then show ?thesis by (simp add: demo_commit_one demo_commit_two)
qed

lemma claim_grants_by_the_rules_witness:
  "claim_next claim_hash ''BUILDER'' ''a'' 1 1 day demo_fleet = (Inr [(demo_contract, demo_leased ''a'' demo_state)], fleet_one)
   \<and> select_one (\<lambda>x. state_of x = demo_cid) (states fleet_one) = Some (demo_leased ''a'' demo_state)"
proof -
  have c: "claim_next claim_hash ''BUILDER'' ''a'' 1 1 day demo_fleet = (Inr [(demo_contract, demo_leased ''a'' demo_state)], fleet_one)"
    by (simp add: claim_next_def check_claim_def roles_def demo_rows demo_commit_one)
  from claim_grants_by_the_rules [OF demo_reached [OF claim_one_def claim_two_def] c] c
  show ?thesis by (simp add: demo_contract_def)
qed

text \<open>A result of the builder, and a verdict on one.\<close>

definition result_event :: "string \<Rightarrow> fleet_event" where
  "result_event st = ev2 ''RESULT_RECORDED'' ''result:iiix'' [(''contract_id'', JStr demo_cid), (''role'', JStr ''BUILDER''),
     (''status'', JStr st), (''result_hash'', JStr ''iiix'')]"

definition verdict_event :: fleet_event where
  "verdict_event = ev3 ''VERDICT_RECORDED'' ''verdict:iiix'' [(''contract_id'', JStr demo_cid), (''result_id'', JStr ''result:iiix''),
     (''verdict'', JStr ''VERIFIED''), (''verdict_hash'', JStr ''iiix'')]"

abbreviation "result_hash_of st \<equiv> demo_hash (result_event st) verdict_event"

lemma result_hash_ok: "result_hash_of st (event_text ev1) = ''h''" "result_hash_of st (event_text (result_event st)) = ''ih''"
  "result_hash_of st (event_text verdict_event) = ''iih''"
  unfolding result_event_def verdict_event_def by (rule demo_hash_events [OF refl refl])+

definition demo_result :: "string \<Rightarrow> fleet_result" where
  "demo_result st = \<lparr>result_id = ''result:iiix'', result_contract = demo_cid, result_role = ''BUILDER'', result_status = st,
     result_created_at = isoformat day, result_payload = JObj [], result_evidence = [], result_hash = ''iiix''\<rparr>"

lemma result_event_type: "event_type (result_event st) = ''RESULT_RECORDED''" "event_type verdict_event = ''VERDICT_RECORDED''"
  by (simp_all add: result_event_def verdict_event_def ev2_def ev3_def demo_event_def)

definition reported :: "string \<Rightarrow> contract_state \<Rightarrow> fleet" where
  "reported st t = demo_fleet\<lparr>states := [t], results := [demo_result st], event_log := [stored ''h'' ev1, stored ''ih'' (result_event st)]\<rparr>"

lemma result_event_appended:
  "append_event (result_hash_of st) ''RESULT_RECORDED'' ''result:iiix'' [(''contract_id'', JStr demo_cid), (''role'', JStr ''BUILDER''),
     (''status'', JStr st), (''result_hash'', JStr ''iiix'')] day (demo_fleet\<lparr>states := [t], results := [demo_result st]\<rparr>)
   = Some (reported st t)"
  by (subst append_stored [where e = "result_event st" and d = "''ih''"])
    (simp_all add: result_hash_ok demo_fleet_def stored_def event_ids result_event_type lower_def lower_char_def tip_def reported_def,
     simp add: result_event_def ev2_def)

lemma demo_report:
  assumes "settle_result (result_hash_of st) demo_cid ''BUILDER'' st (JObj []) ''result:iiix'' day (demo_fleet\<lparr>results := [demo_result st]\<rparr>)
    = Inr (demo_fleet\<lparr>states := [t], results := [demo_result st]\<rparr>)"
  shows "record_result (result_hash_of st) demo_cid ''BUILDER'' st (JObj []) [] day demo_fleet
    = (Inr \<lparr>new_result_id = ''result:iiix'', new_result_hash = ''iiix'', new_result_status = st\<rparr>, reported st t)"
proof -
  have digest: "canonical_sha256 (result_hash_of st) (result_json demo_cid ''BUILDER'' st day (JObj []) []) = ''iiix''"
    unfolding result_json_def by (rule demo_hash_object) (simp_all add: get_def)
  have "insert_result (demo_result st) demo_fleet = Some (demo_fleet\<lparr>results := [demo_result st]\<rparr>)"
    by (simp add: insert_result_def demo_fleet_def new_fleet_def)
  then show ?thesis using assms result_event_appended [of st t]
    by (simp add: record_result_def roles_def demo_joined select_one_Cons Let_def digest commit_def demo_result_def) (simp add: demo_contract_def demo_state_def)
qed

lemma success_needs_no_verdict_witness:
  "\<exists>res s'. record_result (result_hash_of ''VERIFIED'') demo_cid ''BUILDER'' ''VERIFIED'' (JObj []) [] day demo_fleet = (Inr res, s') \<and> verdicts s' = []
     \<and> (\<exists>t. select_one (\<lambda>x. state_of x = demo_cid) (states s') = Some t \<and> status t = ''VERIFIED'')"
proof -
  have "settle_result (result_hash_of ''VERIFIED'') demo_cid ''BUILDER'' ''VERIFIED'' (JObj []) ''result:iiix'' day (demo_fleet\<lparr>results := [demo_result ''VERIFIED'']\<rparr>)
    = Inr (demo_fleet\<lparr>states := [(released ''VERIFIED'' day demo_state)\<lparr>terminal_reason := None\<rparr>], results := [demo_result ''VERIFIED'']\<rparr>)"
    by (simp add: settle_result_def awaiting_states_def success_states_def update_state_def demo_fleet_def update_where_Cons) (simp add: demo_state_def)
  note r = demo_report [OF this]
  have own: "(demo_contract, demo_state) \<in> set (joined demo_fleet)" "owner_role demo_state \<in> set roles" "''VERIFIED'' \<in> set success_states"
    by (simp_all add: demo_joined demo_state_def roles_def success_states_def)
  have "contract_id demo_contract = demo_cid" "owner_role demo_state = ''BUILDER''" by (simp_all add: demo_contract_def demo_state_def)
  with success_needs_no_verdict [OF demo_reached [OF result_event_def verdict_event_def] own, where payload = "JObj []" and ev = "[]" and now = day] r
  have "verdicts (reported ''VERIFIED'' ((released ''VERIFIED'' day demo_state)\<lparr>terminal_reason := None\<rparr>)) = verdicts demo_fleet
    \<and> (\<exists>t'. select_one (\<lambda>x. state_of x = demo_cid) (states (reported ''VERIFIED'' ((released ''VERIFIED'' day demo_state)\<lparr>terminal_reason := None\<rparr>))) = Some t' \<and> status t' = ''VERIFIED'')"
    by simp
  moreover have "verdicts demo_fleet = []" by (simp add: demo_fleet_def new_fleet_def)
  ultimately show ?thesis using r by simp
qed


definition demo_verdict :: verdict_row where
  "demo_verdict = \<lparr>verdict_id = ''verdict:iiix'', verdict_result = ''result:iiix'', verdict_contract = demo_cid, verdict = ''VERIFIED'',
     verifier = ''j'', verdict_created_at = isoformat day, verdict_details = JObj [], verdict_evidence = [], verdict_hash = ''iiix''\<rparr>"

abbreviation demo_progress :: fleet where
  "demo_progress \<equiv> reported ''PROGRESS'' (released ''READY'' day demo_state)"

lemma demo_progress_reported: "snd (record_result (result_hash_of ''PROGRESS'') demo_cid ''BUILDER'' ''PROGRESS'' (JObj []) [] day demo_fleet) = demo_progress"
proof -
  have "settle_result (result_hash_of ''PROGRESS'') demo_cid ''BUILDER'' ''PROGRESS'' (JObj []) ''result:iiix'' day (demo_fleet\<lparr>results := [demo_result ''PROGRESS'']\<rparr>)
    = Inr (demo_fleet\<lparr>states := [released ''READY'' day demo_state], results := [demo_result ''PROGRESS'']\<rparr>)"
    by (simp add: settle_result_def awaiting_states_def success_states_def update_state_def demo_fleet_def update_where_Cons) (simp add: demo_state_def)
  from demo_report [OF this] show ?thesis by simp
qed

lemma demo_judged: "\<exists>s1. record_verdict (result_hash_of ''PROGRESS'') ''result:iiix'' ''VERIFIED'' ''j'' (JObj []) [] day demo_progress
    = (Inr \<lparr>rv_id = ''verdict:iiix'', rv_hash = ''iiix'', rv_verdict = ''VERIFIED'', rv_new = True\<rparr>, s1)"
proof -
  let ?H = "result_hash_of ''PROGRESS''"
  let ?t = "(released ''VERIFIED'' day (released ''READY'' day demo_state))\<lparr>owner_role := ''JUDGE'', terminal_reason := None\<rparr>"
  have digest: "canonical_sha256 ?H (verdict_json ''result:iiix'' demo_cid ''VERIFIED'' ''j'' day (JObj []) []) = ''iiix''"
    unfolding verdict_json_def by (rule demo_hash_object) (simp_all add: get_def)
  have f: "contracts demo_progress = [demo_contract]" "results demo_progress = [demo_result ''PROGRESS'']" "verdicts demo_progress = []"
    by (simp_all add: reported_def demo_fleet_def new_fleet_def)
  have u: "update_state demo_cid (\<lambda>t. (released ''VERIFIED'' day t)\<lparr>owner_role := ''JUDGE'', terminal_reason := None\<rparr>) (demo_progress\<lparr>verdicts := [demo_verdict]\<rparr>)
      = demo_progress\<lparr>states := [?t], verdicts := [demo_verdict]\<rparr>"
    by (simp add: update_state_def reported_def update_where_Cons released_def demo_state_def)
  have ap: "append_event ?H ''VERDICT_RECORDED'' ''verdict:iiix'' [(''contract_id'', JStr demo_cid), (''result_id'', JStr ''result:iiix''),
     (''verdict'', JStr ''VERIFIED''), (''verdict_hash'', JStr ''iiix'')] day (demo_progress\<lparr>states := [?t], verdicts := [demo_verdict]\<rparr>)
     = Some (demo_progress\<lparr>states := [?t], verdicts := [demo_verdict],
         event_log := [stored ''h'' ev1, stored ''ih'' (result_event ''PROGRESS''), stored ''iih'' verdict_event]\<rparr>)"
    by (subst append_stored [where e = verdict_event and d = "''iih''"])
      (simp_all add: result_hash_ok reported_def stored_def event_ids result_event_type lower_def lower_char_def tip_def, simp add: verdict_event_def ev3_def)
  have c: "contract_id demo_contract = demo_cid" "on_verified_role (spec demo_contract) = None"
    "result_id (demo_result st) = ''result:iiix''" "result_contract (demo_result st) = demo_cid" for st
    by (simp_all add: demo_contract_def demo_spec_def demo_result_def)
  have ins: "insert_verdict demo_verdict demo_progress = Some (demo_progress\<lparr>verdicts := [demo_verdict]\<rparr>)"
    by (simp add: insert_verdict_def f)
  then show ?thesis using ap
    by (simp add: record_verdict_def f c select_one_Cons Let_def digest settle_verdict_def commit_def u flip: demo_verdict_def)
qed

lemma verdicts_are_final_witness:
  "\<exists>v s1. record_verdict (result_hash_of ''PROGRESS'') ''result:iiix'' ''VERIFIED'' ''j'' (JObj []) [] day demo_progress = (Inr v, s1)
     \<and> record_verdict (result_hash_of ''PROGRESS'') ''result:iiix'' ''VERIFICATION_FAILED'' ''k'' (JObj []) [] day s1 = (Inr (v\<lparr>rv_new := False\<rparr>), s1)"
proof -
  obtain s1 where one: "record_verdict (result_hash_of ''PROGRESS'') ''result:iiix'' ''VERIFIED'' ''j'' (JObj []) [] day demo_progress
    = (Inr \<lparr>rv_id = ''verdict:iiix'', rv_hash = ''iiix'', rv_verdict = ''VERIFIED'', rv_new = True\<rparr>, s1)" using demo_judged by blast
  have reach: "demo_progress = run_all (run_fleet (result_hash_of ''PROGRESS'') no_float id)
      [Create demo_spec day, Report demo_cid ''BUILDER'' ''PROGRESS'' (JObj []) [] day] new_fleet"
    by (simp add: demo_create [OF result_event_def verdict_event_def] demo_progress_reported)
  have "s1 = run_all (run_fleet (result_hash_of ''PROGRESS'') no_float id) [] s1" by simp
  from verdicts_are_final [OF reach one this, of "''VERIFICATION_FAILED''" "''k''" "JObj []" "[]" day] one show ?thesis by auto
qed

lemma contracts_created_once_witness:
  "fst (create_contract claim_hash no_float id (demo_spec\<lparr>problem_statement := ''q''\<rparr>) day demo_fleet)
   = Inr \<lparr>made_id = demo_cid, made_hash = ''iiix'', made_score = 499, made_status = ''READY'', made_owner = ''BUILDER'', made_new = False\<rparr>"
proof -
  have s: "new_fleet = run_all (run_fleet claim_hash no_float id) [] new_fleet" by simp
  have s2: "demo_fleet = run_all (run_fleet claim_hash no_float id) [] demo_fleet" by simp
  have c: "check_spec (demo_spec\<lparr>problem_statement := ''q''\<rparr>) = Inr ()" "idempotency_key (demo_spec\<lparr>problem_statement := ''q''\<rparr>) = idempotency_key demo_spec"
    by (simp_all add: demo_spec_def check_spec_def priority_base_def roles_def)
  from contracts_created_once [OF s demo_create [OF claim_one_def claim_two_def] s2 c, of day]
  obtain k2 where k: "create_contract claim_hash no_float id (demo_spec\<lparr>problem_statement := ''q''\<rparr>) day demo_fleet = (Inr k2, demo_fleet)"
    "made_id k2 = demo_cid" "made_hash k2 = ''iiix''" "made_score k2 = 499" "\<not> made_new k2" by auto
  moreover have "made_status k2 = ''READY''" "made_owner k2 = ''BUILDER''"
    using k(1) c(1) by (auto simp: create_contract_def demo_joined select_one_Cons demo_contract_def demo_spec_def demo_state_def)
  ultimately show ?thesis by (cases k2) simp
qed

end
