(* ===== verification/Improvement_Controller.thy ===== *)
theory Improvement_Controller
  imports Op_Machine
begin

text \<open>
  \<open>frost_core/improvement_controller.py\<close>: the selection of the next improvement candidate and the
  promotion of the project through its lifecycle, one stage at a time and only on evidence. A float is
  the rational number it is; \<open>rnd\<close> rounds the exact result of one operation or literal to a float.
\<close>

section \<open>The lifecycle\<close>

datatype lifecycle_stage =
    PROPOSED | IMPLEMENTED | TESTED | INDEPENDENTLY_VERIFIED | DEVICE_VALIDATED | PERSISTENT_VALIDATED
  | PRODUCTION_READY

fun stage_value :: "lifecycle_stage \<Rightarrow> string" where
  "stage_value PROPOSED = ''PROPOSED''"
| "stage_value IMPLEMENTED = ''IMPLEMENTED''"
| "stage_value TESTED = ''TESTED''"
| "stage_value INDEPENDENTLY_VERIFIED = ''INDEPENDENTLY_VERIFIED''"
| "stage_value DEVICE_VALIDATED = ''DEVICE_VALIDATED''"
| "stage_value PERSISTENT_VALIDATED = ''PERSISTENT_VALIDATED''"
| "stage_value PRODUCTION_READY = ''PRODUCTION_READY''"

definition stage_order :: "lifecycle_stage list" where
  "stage_order = [PROPOSED, IMPLEMENTED, TESTED, INDEPENDENTLY_VERIFIED, DEVICE_VALIDATED, PERSISTENT_VALIDATED,
     PRODUCTION_READY]"

fun required_evidence :: "lifecycle_stage \<Rightarrow> string list" where
  "required_evidence PROPOSED = []"
| "required_evidence IMPLEMENTED = [''implementation_artifact'']"
| "required_evidence TESTED = [''implementation_artifact'', ''tests_pass'']"
| "required_evidence INDEPENDENTLY_VERIFIED = [''implementation_artifact'', ''tests_pass'', ''independent_verification'']"
| "required_evidence DEVICE_VALIDATED =
     [''implementation_artifact'', ''tests_pass'', ''independent_verification'', ''device_origin'']"
| "required_evidence PERSISTENT_VALIDATED =
     [''implementation_artifact'', ''tests_pass'', ''independent_verification'', ''device_origin'', ''changed_boot_id'',
      ''persistence_verification'']"
| "required_evidence PRODUCTION_READY =
     [''implementation_artifact'', ''tests_pass'', ''independent_verification'', ''device_origin'', ''changed_boot_id'',
      ''persistence_verification'', ''production_acceptance'']"

text \<open>\<open>_STAGE_ORDER.index(stage)\<close>\<close>

fun index_of :: "'a \<Rightarrow> 'a list \<Rightarrow> nat" where
  "index_of x [] = 0"
| "index_of x (y # ys) = (if x = y then 0 else Suc (index_of x ys))"

definition next_stage :: "lifecycle_stage \<Rightarrow> lifecycle_stage option" where
  "next_stage stage =
     (let idx = index_of stage stage_order
      in if idx + 1 \<ge> length stage_order then None else Some (stage_order ! (idx + 1)))"

definition missing_evidence :: "lifecycle_stage \<Rightarrow> string set \<Rightarrow> string list" where
  "missing_evidence stage evidence = filter (\<lambda>e. e \<notin> evidence) (required_evidence stage)"

definition promote :: "lifecycle_stage \<Rightarrow> string set \<Rightarrow> lifecycle_stage" where
  "promote current evidence =
     (case next_stage current of
        None \<Rightarrow> current
      | Some target \<Rightarrow> if missing_evidence target evidence \<noteq> [] then current else target)"

section \<open>The state of the project\<close>

record improvement_state =
  completed :: "string set"
  recorded_evidence :: "string set"
  lifecycle_stage :: lifecycle_stage
  change_history :: "string list"

definition new_improvement :: improvement_state where
  "new_improvement = \<lparr>completed = {}, recorded_evidence = {}, lifecycle_stage = PROPOSED, change_history = []\<rparr>"

definition record_completed :: "string \<Rightarrow> string list \<Rightarrow> improvement_state \<Rightarrow> (unit, improvement_state) outcome" where
  "record_completed cid ev s =
     (if blank cid then (Inl (ValueError ''candidate_id must not be empty''), s)
      else (Inr (), s\<lparr>completed := insert cid (completed s),
              recorded_evidence := recorded_evidence s \<union> set (filter (\<lambda>x. x \<noteq> []) ev),
              change_history := change_history s @ [''completed:'' @ cid]\<rparr>))"

definition attempt_promotion :: "improvement_state \<Rightarrow> lifecycle_stage \<times> improvement_state" where
  "attempt_promotion s =
     (let promoted = promote (lifecycle_stage s) (recorded_evidence s);
          s' = (if promoted \<noteq> lifecycle_stage s
                then s\<lparr>lifecycle_stage := promoted, change_history := change_history s @ [''promoted:'' @ stage_value promoted]\<rparr>
                else s)
      in (lifecycle_stage s', s'))"

section \<open>Candidates\<close>

record work_candidate =
  candidate_id :: string
  candidate_capability :: string
  expected_value :: rat
  risk_reduction :: rat
  dependency_unlock :: rat
  human_labor_reduction :: rat
  execution_cost :: rat
  execution_risk :: rat
  blocked_reason :: "string option"
  candidate_dependencies :: "string list"

text \<open>The products and sums of the code, in its order.\<close>

definition score :: "(rat \<Rightarrow> rat) \<Rightarrow> work_candidate \<Rightarrow> rat" where
  "score rnd c =
     (let weight = (\<lambda>w x. rnd (rnd w * x));
          t1 = rnd (weight 1 (expected_value c) + weight (120 / 100) (risk_reduction c));
          t2 = rnd (t1 + weight (135 / 100) (dependency_unlock c));
          t3 = rnd (t2 + weight (110 / 100) (human_labor_reduction c));
          t4 = rnd (t3 - weight (65 / 100) (execution_cost c))
      in rnd (t4 - weight (90 / 100) (execution_risk c)))"

text \<open>\<open>by_id\<close>: a candidate keeps the place of the first with its id, and yields to a better one.\<close>

fun keep_best :: "(rat \<Rightarrow> rat) \<Rightarrow> work_candidate list \<Rightarrow> work_candidate \<Rightarrow> work_candidate list" where
  "keep_best rnd [] c = [c]"
| "keep_best rnd (x # xs) c =
     (if candidate_id x = candidate_id c then (if score rnd c > score rnd x then c else x) # xs
      else x # keep_best rnd xs c)"

definition best_by_id :: "(rat \<Rightarrow> rat) \<Rightarrow> work_candidate list \<Rightarrow> work_candidate list" where
  "best_by_id rnd cs = foldl (keep_best rnd) [] cs"

definition runnable :: "improvement_state \<Rightarrow> work_candidate \<Rightarrow> bool" where
  "runnable s c =
     (if candidate_id c \<in> completed s then False
      else if blocked_reason c \<noteq> None \<and> blocked_reason c \<noteq> Some [] then False
      else if list_ex (\<lambda>d. d \<notin> completed s) (candidate_dependencies c) then False
      else True)"

definition reconcile :: "(rat \<Rightarrow> rat) \<Rightarrow> work_candidate list \<Rightarrow> improvement_state \<Rightarrow> work_candidate list" where
  "reconcile rnd cs s = filter (runnable s) (best_by_id rnd cs)"

definition rank_key :: "work_candidate \<times> rat \<Rightarrow> rat \<times> rat \<times> rat \<times> string" where
  "rank_key = (\<lambda>(c, sc). (- sc, execution_risk c, execution_cost c, candidate_id c))"

definition rank :: "(rat \<Rightarrow> rat) \<Rightarrow> work_candidate list \<Rightarrow> improvement_state \<Rightarrow> (work_candidate \<times> rat) list" where
  "rank rnd cs s = sort_key rank_key (map (\<lambda>c. (c, score rnd c)) (reconcile rnd cs s))"

definition select :: "(rat \<Rightarrow> rat) \<Rightarrow> work_candidate list \<Rightarrow> improvement_state \<Rightarrow> work_candidate option" where
  "select rnd cs s = (case rank rnd cs s of [] \<Rightarrow> None | (c, sc) # _ \<Rightarrow> Some c)"

section \<open>Facts about the ranking\<close>

lemma keep_best_ids: "candidate_id ` set (keep_best rnd xs c) = insert (candidate_id c) (candidate_id ` set xs)"
  by (induction rnd xs c rule: keep_best.induct) auto

lemma keep_best_members: "set (keep_best rnd xs c) \<subseteq> insert c (set xs)"
  by (induction rnd xs c rule: keep_best.induct) auto

lemma keep_best_distinct: "distinct (map candidate_id xs) \<Longrightarrow> distinct (map candidate_id (keep_best rnd xs c))"
proof (induction rnd xs c rule: keep_best.induct)
  case (2 rnd x xs c)
  then show ?case using keep_best_ids [of rnd xs c] by (auto simp: image_iff)
qed simp

text \<open>The score kept for an id only rises, and is at least that of the new candidate.\<close>

lemma keep_best_scores:
  "distinct (map candidate_id xs) \<Longrightarrow> d \<in> insert c (set xs) \<Longrightarrow> y \<in> set (keep_best rnd xs c) \<Longrightarrow> candidate_id y = candidate_id d \<Longrightarrow>
     score rnd d \<le> score rnd y"
proof (induction rnd xs c rule: keep_best.induct)
  case (2 rnd x xs c)
  have ids: "candidate_id z \<noteq> candidate_id x" if "z \<in> set xs" for z using 2(2) that by (auto simp: image_iff)
  show ?case
  proof (cases "candidate_id x = candidate_id c")
    case True
    have same: "y = d" if "y \<in> set xs" "d \<in> set xs" using 2(2,5) that unique_row [of candidate_id xs y d] by simp
    show ?thesis using 2(3-5) True same by (auto split: if_splits dest: ids)
  next
    case False
    have not_y: "candidate_id y \<noteq> candidate_id x" if "y \<in> set (keep_best rnd xs c)"
      using that ids False keep_best_members [of rnd xs c] by auto
    then show ?thesis using 2 False ids by auto
  qed
qed auto

lemma best_by_id_snoc: "best_by_id rnd (cs @ [c]) = keep_best rnd (best_by_id rnd cs) c"
  by (simp add: best_by_id_def)

lemma best_by_id_facts:
  "distinct (map candidate_id (best_by_id rnd cs)) \<and> candidate_id ` set (best_by_id rnd cs) = candidate_id ` set cs
   \<and> set (best_by_id rnd cs) \<subseteq> set cs
   \<and> (\<forall>d\<in>set cs. \<forall>y\<in>set (best_by_id rnd cs). candidate_id y = candidate_id d \<longrightarrow> score rnd d \<le> score rnd y)"
proof (induction cs rule: rev_induct)
  case Nil
  show ?case by (simp add: best_by_id_def)
next
  case (snoc c cs)
  let ?xs = "best_by_id rnd cs"
  have d: "distinct (map candidate_id ?xs)" using snoc by blast
  have "score rnd e \<le> score rnd y"
    if e: "e \<in> set (cs @ [c])" and y: "y \<in> set (keep_best rnd ?xs c)" "candidate_id y = candidate_id e" for e y
  proof (cases "e = c")
    case True
    then show ?thesis using keep_best_scores [OF d _ y] by simp
  next
    case False
    then have ecs: "e \<in> set cs" using e by simp
    then obtain x where x: "x \<in> set ?xs" "candidate_id x = candidate_id e" using snoc by (metis image_iff)
    have "score rnd e \<le> score rnd x" using snoc ecs x by blast
    also have "\<dots> \<le> score rnd y" using keep_best_scores [OF d _ y(1), of x] x y(2) by simp
    finally show ?thesis .
  qed
  then show ?case unfolding best_by_id_snoc
    using keep_best_distinct [OF d] keep_best_ids [of rnd ?xs c] keep_best_members [of rnd ?xs c] snoc by auto
qed

lemma rank_set: "set (rank rnd cs s) = (\<lambda>c. (c, score rnd c)) ` set (reconcile rnd cs s)"
  by (simp add: rank_def)

lemma rank_sorted: "sorted (map rank_key (rank rnd cs s))"
  by (simp add: rank_def)

section \<open>Properties\<close>

text \<open>
  The candidate that is selected is one of the given ones, not completed, not blocked, with all its
  dependencies completed; no given candidate with its id scores higher, and among the best candidates of
  every id that may run it comes first by score, then by risk, cost and id. Nothing is selected exactly
  when the best candidate of no id may run.
\<close>

theorem selection_is_best:
  "case select rnd cs s of
     Some c \<Rightarrow> c \<in> set (best_by_id rnd cs) \<and> c \<in> set cs \<and> runnable s c
       \<and> (\<forall>d\<in>set cs. candidate_id d = candidate_id c \<longrightarrow> score rnd d \<le> score rnd c)
       \<and> (\<forall>d\<in>set (best_by_id rnd cs). runnable s d \<longrightarrow> rank_key (c, score rnd c) \<le> rank_key (d, score rnd d))
   | None \<Rightarrow> (\<forall>d\<in>set (best_by_id rnd cs). \<not> runnable s d)"
proof (cases "rank rnd cs s")
  case Nil
  then have "set (reconcile rnd cs s) = {}" using rank_set [of rnd cs s] by simp
  then show ?thesis using Nil by (auto simp: select_def reconcile_def filter_empty_conv)
next
  case (Cons p ps)
  obtain c sc where p: "p = (c, sc)" by (cases p)
  have "p \<in> set (rank rnd cs s)" using Cons by simp
  then have c: "c \<in> set (reconcile rnd cs s)" "sc = score rnd c" unfolding rank_set p by auto
  have first: "rank_key p \<le> rank_key q" if "q \<in> set (rank rnd cs s)" for q
    using rank_sorted [of rnd cs s] that unfolding Cons by auto
  have mem: "c \<in> set (best_by_id rnd cs)" "runnable s c" using c by (simp_all add: reconcile_def)
  moreover have "rank_key (c, score rnd c) \<le> rank_key (d, score rnd d)"
    if "d \<in> set (best_by_id rnd cs)" "runnable s d" for d
    using first [of "(d, score rnd d)"] that c(2) unfolding rank_set p by (auto simp: reconcile_def)
  moreover have "c \<in> set cs" "\<forall>d\<in>set cs. candidate_id d = candidate_id c \<longrightarrow> score rnd d \<le> score rnd c"
    using best_by_id_facts [of rnd cs] mem(1) by (blast, metis)
  ultimately show ?thesis using Cons p by (simp add: select_def)
qed

section \<open>The lifecycle as a machine\<close>

datatype improvement_op = Record_Completed string "string list" | Attempt_Promotion

fun run_improvement :: "improvement_op \<Rightarrow> improvement_state \<Rightarrow> improvement_state" where
  "run_improvement (Record_Completed cid ev) s = snd (record_completed cid ev s)"
| "run_improvement Attempt_Promotion s = snd (attempt_promotion s)"

definition stages_up_to :: "lifecycle_stage \<Rightarrow> lifecycle_stage list" where
  "stages_up_to stage = take (index_of stage stage_order) (tl stage_order)"

definition is_promotion :: "string \<Rightarrow> bool" where
  "is_promotion h = startswith h ''promoted:''"

definition improvement_inv :: "improvement_state \<Rightarrow> bool" where
  "improvement_inv s \<longleftrightarrow> set (required_evidence (lifecycle_stage s)) \<subseteq> recorded_evidence s
     \<and> filter is_promotion (change_history s) = map (\<lambda>t. ''promoted:'' @ stage_value t) (stages_up_to (lifecycle_stage s))"

definition improvement_older :: "improvement_state \<Rightarrow> improvement_state \<Rightarrow> bool" where
  "improvement_older s t \<longleftrightarrow> completed s \<subseteq> completed t \<and> recorded_evidence s \<subseteq> recorded_evidence t
     \<and> prefix (change_history s) (change_history t)
     \<and> index_of (lifecycle_stage s) stage_order \<le> index_of (lifecycle_stage t) stage_order"

lemma promote_cases:
  "promote stage ev = stage
   \<or> (next_stage stage = Some (promote stage ev) \<and> set (required_evidence (promote stage ev)) \<subseteq> ev)"
  by (auto simp: promote_def missing_evidence_def filter_empty_conv split: option.split)

lemma next_stage_index: "next_stage stage = Some t \<Longrightarrow> index_of t stage_order = Suc (index_of stage stage_order)"
  by (cases stage) (auto simp: next_stage_def stage_order_def)

lemma next_stage_steps: "next_stage stage = Some t \<Longrightarrow> stages_up_to t = stages_up_to stage @ [t]"
  by (cases stage) (auto simp: next_stage_def stage_order_def stages_up_to_def)

lemma is_promotion_Cons [simp]: "is_promotion (c # x) \<longleftrightarrow> c = CHR ''p'' \<and> prefix ''romoted:'' x"
  by (auto simp: is_promotion_def startswith_def)

lemma attempt_cases:
  "snd (attempt_promotion s) = s \<or> (\<exists>t. next_stage (lifecycle_stage s) = Some t \<and> set (required_evidence t) \<subseteq> recorded_evidence s
     \<and> snd (attempt_promotion s) = s\<lparr>lifecycle_stage := t, change_history := change_history s @ [''promoted:'' @ stage_value t]\<rparr>)"
  using promote_cases [of "lifecycle_stage s" "recorded_evidence s"] by (auto simp: attempt_promotion_def Let_def)

lemma attempt_good:
  assumes "improvement_inv s"
  shows "improvement_inv (snd (attempt_promotion s)) \<and> improvement_older s (snd (attempt_promotion s))"
  using attempt_cases [of s]
proof
  assume "snd (attempt_promotion s) = s"
  then show ?thesis using assms by (simp add: improvement_older_def)
next
  assume "\<exists>t. next_stage (lifecycle_stage s) = Some t \<and> set (required_evidence t) \<subseteq> recorded_evidence s
     \<and> snd (attempt_promotion s) = s\<lparr>lifecycle_stage := t, change_history := change_history s @ [''promoted:'' @ stage_value t]\<rparr>"
  then obtain t where t: "next_stage (lifecycle_stage s) = Some t" "set (required_evidence t) \<subseteq> recorded_evidence s"
    "snd (attempt_promotion s) = s\<lparr>lifecycle_stage := t, change_history := change_history s @ [''promoted:'' @ stage_value t]\<rparr>"
    by blast
  then show ?thesis using assms next_stage_index [OF t(1)] next_stage_steps [OF t(1)]
    by (simp add: improvement_inv_def improvement_older_def)
qed

lemma record_good:
  assumes "improvement_inv s"
  shows "improvement_inv (snd (record_completed cid ev s)) \<and> improvement_older s (snd (record_completed cid ev s))"
  using assms by (auto simp: record_completed_def improvement_inv_def improvement_older_def)

interpretation improvement: evolving_machine run_improvement new_improvement improvement_inv improvement_older
proof
  show "improvement_inv new_improvement" by (simp add: improvement_inv_def new_improvement_def stages_up_to_def stage_order_def)
  show "improvement_inv (run_improvement op s)" if "improvement_inv s" for op s
    using attempt_good [OF that] record_good [OF that] by (cases op) simp_all
  show "improvement_older s (run_improvement op s)" if "improvement_inv s" for op s
    using attempt_good [OF that] record_good [OF that] by (cases op) simp_all
qed (auto simp: improvement_older_def)

text \<open>
  C30. A stage of the lifecycle rests on its evidence and on every stage before it: whatever is recorded
  and attempted in any order, all evidence the stage requires has been recorded, the promotions in the
  history are exactly the stages up to it, in order and once each, and neither stage nor evidence nor
  history is ever taken back.
\<close>

theorem stages_rest_on_evidence:
  fixes ops later
  defines "s \<equiv> run_all run_improvement ops new_improvement"
  shows "set (required_evidence (lifecycle_stage s)) \<subseteq> recorded_evidence s
    \<and> filter is_promotion (change_history s) = map (\<lambda>t. ''promoted:'' @ stage_value t) (stages_up_to (lifecycle_stage s))
    \<and> improvement_older s (run_all run_improvement later s)"
proof -
  have "improvement_inv s" unfolding s_def by (rule improvement.reached_inv)
  then show ?thesis using improvement.run_all_older by (simp add: improvement_inv_def)
qed

definition demo_candidate :: "rat \<Rightarrow> work_candidate" where
  "demo_candidate v = \<lparr>candidate_id = ''x'', candidate_capability = ''c'', expected_value = v, risk_reduction = 0,
     dependency_unlock = 0, human_labor_reduction = 0, execution_cost = 0, execution_risk = 0, blocked_reason = None,
     candidate_dependencies = []\<rparr>"

lemma selection_is_best_witness:
  "\<exists>c. select id [demo_candidate 1, demo_candidate 2] new_improvement = Some c \<and> score id (demo_candidate 2) \<le> score id c"
proof -
  let ?cs = "[demo_candidate 1, demo_candidate 2]"
  have run: "\<exists>d\<in>set (best_by_id id ?cs). runnable new_improvement d"
    by (simp add: best_by_id_def demo_candidate_def score_def runnable_def new_improvement_def)
  show ?thesis
  proof (cases "select id ?cs new_improvement")
    case None
    then show ?thesis using selection_is_best [of id ?cs new_improvement] run by auto
  next
    case (Some c)
    have c: "c \<in> set ?cs" "\<forall>d\<in>set ?cs. candidate_id d = candidate_id c \<longrightarrow> score id d \<le> score id c"
      using selection_is_best [of id ?cs new_improvement] Some by auto
    from c(1) have "candidate_id c = ''x''" by (auto simp: demo_candidate_def)
    then show ?thesis using c(2) Some by (auto simp: demo_candidate_def)
  qed
qed

end
