(* ===== verification/Advance.thy ===== *)
theory Advance
  imports Event_State Pipeline Improvement_Controller
begin

text \<open>
  \<open>centinal26/advance.py\<close> and the ranked loop of \<open>centinal26/improvement_cycle.py\<close>: the loop that takes
  the ready tasks of the event log, runs one of them as a job of the engine, and records in the log what
  became of it. The world is the log and the engine. The result of a step is \<open>None\<close> when its fuel ran
  out, and otherwise an outcome and the world after it; an exception leaves what was written before it.
\<close>

section \<open>Steps on the world\<close>

record world =
  log_rows :: "event_row list"
  runtime :: engine

text \<open>
  What the code reads from outside. \<open>log_uuid n\<close> and \<open>log_stamp n\<close> are the identifier and the time text
  of an event appended to a log of \<open>n\<close> rows; the other inputs belong to the \<open>i\<close>-th executed task, and to
  the \<open>r\<close>-th run of its job.
\<close>

record surroundings =
  log_uuid :: "nat \<Rightarrow> string"
  log_stamp :: "nat \<Rightarrow> string"
  grant_uuid :: "nat \<Rightarrow> string"
  grant_clock :: "nat \<Rightarrow> int"
  submit_clock :: "nat \<Rightarrow> nat \<Rightarrow> int"
  job_uuid :: "nat \<Rightarrow> string"
  run_clock :: "nat \<Rightarrow> nat \<Rightarrow> nat \<Rightarrow> int"
  run_note_of :: "nat \<Rightarrow> nat \<Rightarrow> run_note"
  run_alarm :: "nat \<Rightarrow> nat \<Rightarrow> bool"
  run_elapsed :: "nat \<Rightarrow> nat \<Rightarrow> rat"

type_synonym ('a, 's) run = "('a, 's) outcome option"

definition and_then :: "('a, 's) run \<Rightarrow> ('a \<Rightarrow> 's \<Rightarrow> ('b, 's) run) \<Rightarrow> ('b, 's) run" where
  "and_then m f = (case m of
     None \<Rightarrow> None
   | Some (Inl err, s) \<Rightarrow> Some (Inl err, s)
   | Some (Inr v, s) \<Rightarrow> f v s)"

lemma and_then_simps [simp]:
  "and_then None f = None" "and_then (Some (Inl err, s)) f = Some (Inl err, s)" "and_then (Some (Inr v, s)) f = f v s"
  by (simp_all add: and_then_def)

text \<open>\<open>store.append(type, payload, entity_id=entity)\<close>\<close>

definition put_event :: "(string \<Rightarrow> string) \<Rightarrow> surroundings \<Rightarrow> string \<Rightarrow> json_object \<Rightarrow> string \<Rightarrow> world \<Rightarrow> (event, world) run" where
  "put_event H env ty p entity w =
     (let n = length (log_rows w)
      in case append_event H (log_uuid env n) (log_stamp env n) ty (Some (JObj p)) (Some entity) None None (log_rows w) of
           (r, rows) \<Rightarrow> Some (r, w\<lparr>log_rows := rows\<rparr>))"

definition on_runtime :: "('a, engine) outcome \<Rightarrow> world \<Rightarrow> ('a, world) run" where
  "on_runtime out w = Some (fst out, w\<lparr>runtime := snd out\<rparr>)"

text \<open>\<open>rebuild_state(store.events())\<close>\<close>

definition read_state :: "world \<Rightarrow> (project_state, world) run" where
  "read_state w = Some (replay (log_rows w), w)"

section \<open>One task\<close>

definition valid_modes :: "string list" where
  "valid_modes = [''AUTO_SAFE'', ''EXPLICIT'', ''EFFECT_PROTOCOL'']"

definition blocker_id :: "(string \<Rightarrow> string) \<Rightarrow> string \<Rightarrow> string \<Rightarrow> string" where
  "blocker_id H task reason = ''blocker:'' @ take 24 (H (task @ [CHR 0x00] @ reason))"

definition record_blocker_once :: "(string \<Rightarrow> string) \<Rightarrow> surroundings \<Rightarrow> project_state \<Rightarrow> string \<Rightarrow> string \<Rightarrow> string \<Rightarrow>
    world \<Rightarrow> (unit, world) run" where
  "record_blocker_once H env st task reason detail w =
     (let b = blocker_id H task reason
      in if map_of (blockers st) b \<noteq> None then Some (Inr (), w)
         else and_then (put_event H env ''BLOCKER_RECORDED''
                [(''blocker_id'', JStr b), (''task_id'', JStr task), (''reason'', JStr reason), (''detail'', JStr detail)] b w)
              (\<lambda>_ w. Some (Inr (), w)))"

definition task_payload :: "json_object \<Rightarrow> json_object result" where
  "task_payload t =
     (case (case get t ''input'' of Some v \<Rightarrow> v
            | None \<Rightarrow> (case get t ''payload'' of Some v \<Rightarrow> v | None \<Rightarrow> JObj [])) of
        JNull \<Rightarrow> Inr []
      | JObj d \<Rightarrow> Inr d
      | _ \<Rightarrow> Inl (TypeError ''task input/payload must be an object''))"

definition deterministic_intent :: "string \<Rightarrow> string \<Rightarrow> json_object \<Rightarrow> intent" where
  "deterministic_intent task cap p = \<lparr>intent_capability = cap, intent_payload = JObj p, actor = ''event-state-advance'',
     constraints = JObj [(''task_id'', JStr task)], intent_id = task, intent_created = ''1970-01-01T00:00:00+00:00''\<rparr>"

definition authorization_mode :: "string \<Rightarrow> (string \<times> string) list option \<Rightarrow> json_object \<Rightarrow> string result" where
  "authorization_mode cap modes t =
     (let given = (case modes of None \<Rightarrow> None | Some ms \<Rightarrow> map_of ms cap);
          mode = (case given of Some m \<Rightarrow> m | None \<Rightarrow> if cap = ''system.echo'' then ''AUTO_SAFE'' else ''EXPLICIT'')
      in if mode \<notin> set valid_modes
         then Inl (ValueError (''invalid authorization mode for '' @ cap @ '': '' @ mode))
         else if get t ''authority'' = Some (JStr ''authorization_required'') \<and> mode = ''AUTO_SAFE''
         then Inr ''EXPLICIT''
         else Inr mode)"

text \<open>\<open>_job_row\<close>\<close>

definition job_row :: "string \<Rightarrow> world \<Rightarrow> (rt_job, world) run" where
  "job_row jid w = (case select_one (\<lambda>j. job_id j = jid) (jobs (store (runtime w))) of
     None \<Rightarrow> Some (Inl (RuntimeError (''advance job disappeared: '' @ jid)), w)
   | Some row \<Rightarrow> Some (Inr row, w))"

text \<open>The loop that runs the engine until the job is settled; \<open>r\<close> counts its rounds.\<close>

fun drain :: "nat \<Rightarrow> (string \<Rightarrow> string) \<Rightarrow> (rat \<Rightarrow> json) \<Rightarrow> surroundings \<Rightarrow> nat \<Rightarrow> nat \<Rightarrow> string \<Rightarrow> string \<Rightarrow> world \<Rightarrow>
    (unit, world) run" where
  "drain 0 H num env i r task jid w = None"
| "drain (Suc n) H num env i r task jid w =
     and_then (job_row jid w) (\<lambda>row w.
       if state row \<notin> {''queued'', ''running''} then Some (Inr (), w)
       else and_then (on_runtime (run_once H num (run_clock env i r) (run_note_of env i r) (run_alarm env i r)
                (run_elapsed env i r) (runtime w)) w) (\<lambda>executed w.
         case executed of
           None \<Rightarrow> Some (Inl (RuntimeError (''advance runtime could not execute queued task: '' @ task)), w)
         | Some j \<Rightarrow>
             if j \<noteq> jid then Some (Inl (RuntimeError ''advance runtime executed an unrelated queued job''), w)
             else drain n H num env i (Suc r) task jid w))"

definition event_fields :: "(string \<Rightarrow> string) \<Rightarrow> string \<Rightarrow> rt_job \<Rightarrow> json_object" where
  "event_fields H task row =
     [(''task_id'', JStr task), (''job_id'', JStr (job_id row)), (''runtime_state'', JStr (state row)),
      (''result_sha256'', case job_result row of None \<Rightarrow> JNull | Some v \<Rightarrow> JStr (canonical_sha256 H v)),
      (''evidence_path'', opt_str (evidence_path row))]"

text \<open>The events that close a task, by the state its job came to.\<close>

definition settle_task :: "(string \<Rightarrow> string) \<Rightarrow> surroundings \<Rightarrow> string \<Rightarrow> rt_job \<Rightarrow> world \<Rightarrow> (bool \<times> string, world) run" where
  "settle_task H env task row w =
     (let p = event_fields H task row
      in if state row = ''verified'' then
           and_then (put_event H env ''TASK_EXECUTED'' p task w) (\<lambda>_ w.
           and_then (put_event H env ''VERIFICATION_PASSED'' (p @ [(''verifier_independent'', JBool True)]) task w) (\<lambda>_ w.
           and_then (put_event H env ''TASK_COMPLETED'' p task w) (\<lambda>_ w. Some (Inr (True, state row), w))))
         else if state row = ''failed_verification'' then
           and_then (put_event H env ''TASK_EXECUTED'' p task w) (\<lambda>_ w.
           and_then (put_event H env ''VERIFICATION_FAILED'' p task w) (\<lambda>_ w. Some (Inr (False, state row), w)))
         else and_then (put_event H env ''TASK_FAILED'' p task w) (\<lambda>_ w. Some (Inr (False, state row), w)))"

definition grant_for :: "surroundings \<Rightarrow> nat \<Rightarrow> string \<Rightarrow> grant result" where
  "grant_for env i cap =
     (if max_instant \<le> grant_clock env i + 600 * 1000000 then Inl OverflowError
      else Inr \<lparr>grant_id = grant_uuid env i, granted_capability = cap,
             expires_at = isoformat (grant_clock env i + 600 * 1000000)\<rparr>)"

definition lift_result :: "'a result \<Rightarrow> 's \<Rightarrow> ('a, 's) run" where
  "lift_result r s = Some (r, s)"

definition run_task :: "nat \<Rightarrow> (string \<Rightarrow> string) \<Rightarrow> (rat \<Rightarrow> json) \<Rightarrow> surroundings \<Rightarrow> nat \<Rightarrow> string \<Rightarrow> string \<Rightarrow> json_object \<Rightarrow>
    string \<Rightarrow> world \<Rightarrow> (bool \<times> string, world) run" where
  "run_task fuel H num env i task cap t source w =
     and_then (lift_result (task_payload t) w) (\<lambda>p w.
     and_then (lift_result (grant_for env i cap) w) (\<lambda>g w.
     and_then (if get t ''status'' = Some (JStr ''READY'') then Some (Inr (), w)
               else and_then (put_event H env ''TASK_READY'' [(''task_id'', JStr task), (''capability'', JStr cap)] task w)
                      (\<lambda>_ w. Some (Inr (), w))) (\<lambda>_ w.
     and_then (put_event H env ''TASK_AUTHORIZED''
         [(''task_id'', JStr task), (''capability'', JStr cap), (''grant_id'', JStr (grant_id g)),
          (''expires_at'', JStr (expires_at g)), (''authorization_source'', JStr source)] task w) (\<lambda>_ w.
     and_then (on_runtime (submit H (submit_clock env i) (job_uuid env i) (deterministic_intent task cap p) g
         (Some (''event-task:'' @ task)) (runtime w)) w) (\<lambda>jid w.
     and_then (put_event H env ''TASK_STARTED''
         [(''task_id'', JStr task), (''job_id'', JStr jid), (''capability'', JStr cap)] task w) (\<lambda>_ w.
     and_then (drain fuel H num env i 0 task jid w) (\<lambda>_ w.
     and_then (job_row jid w) (\<lambda>row w. settle_task H env task row w))))))))"

section \<open>One pass over the ready tasks\<close>

datatype inspection = Blocked string string | Runnable string string

text \<open>What the loop decides about a task: blocked for a reason, or runnable with its capability and mode.\<close>

definition inspect :: "engine \<Rightarrow> (string \<times> string) list option \<Rightarrow> bool \<Rightarrow> json_object \<Rightarrow> inspection result" where
  "inspect e modes authorize t =
     (case get t ''capability'' of
        Some (JStr cap) \<Rightarrow>
          if cap = [] then Inr (Blocked ''NO_CAPABILITY'' ''task has no registered capability name'')
          else (case capabilities e cap of
            None \<Rightarrow> Inr (Blocked ''NO_CAPABILITY'' (''capability is not registered: '' @ cap))
          | Some spec \<Rightarrow>
              if \<not> verifier_independent spec
              then Inr (Blocked ''VERIFIER_NOT_INDEPENDENT'' (''capability lacks independent verification: '' @ cap))
              else (case authorization_mode cap modes t of
                Inl err \<Rightarrow> Inl err
              | Inr mode \<Rightarrow>
                  if mode = ''EFFECT_PROTOCOL''
                  then Inr (Blocked ''EFFECT_PROTOCOL_REQUIRED'' ''external-effect capability must use the frost-effect protocol'')
                  else if \<not> authorize \<and> mode \<noteq> ''AUTO_SAFE''
                  then Inr (Blocked ''APPROVAL_REQUIRED'' ''capability policy or task provenance requires explicit authorization'')
                  else (case task_payload t of
                    Inl (TypeError m) \<Rightarrow> Inr (Blocked ''INVALID_TASK_INPUT'' m)
                  | Inl err \<Rightarrow> Inl err
                  | Inr p \<Rightarrow> Inr (Runnable cap mode))))
      | _ \<Rightarrow> Inr (Blocked ''NO_CAPABILITY'' ''task has no registered capability name''))"

type_synonym findings = "(string \<times> string) list \<times> (string \<times> string) list"

text \<open>\<open>runnable\<close> holds the tasks with their authorization source, \<open>blockers\<close> the tasks with their reason.\<close>

fun scan :: "(string \<Rightarrow> string) \<Rightarrow> surroundings \<Rightarrow> (string \<times> string) list option \<Rightarrow> bool \<Rightarrow> string \<Rightarrow> project_state \<Rightarrow>
    string list \<Rightarrow> findings \<Rightarrow> world \<Rightarrow> (findings, world) run" where
  "scan H env modes authorize source st [] acc w = Some (Inr acc, w)"
| "scan H env modes authorize source st (task # ready) acc w =
     (case map_of (tasks st) task of
        None \<Rightarrow> Some (Inl (KeyError task), w)
      | Some t \<Rightarrow>
          (case inspect (runtime w) modes authorize t of
             Inl err \<Rightarrow> Some (Inl err, w)
           | Inr (Blocked reason detail) \<Rightarrow>
               and_then (record_blocker_once H env st task reason detail w) (\<lambda>_ w.
                 scan H env modes authorize source st ready (fst acc, set_key task reason (snd acc)) w)
           | Inr (Runnable cap mode) \<Rightarrow>
               scan H env modes authorize source st ready
                 (fst acc @ [(task, if authorize then source else ''capability_policy_auto_safe'')], snd acc) w))"

section \<open>The loop\<close>

record advance_report =
  executed :: "string list"
  completed_tasks :: "string list"
  failed_tasks :: "string list"
  blocked :: "(string \<times> string) list"
  stop_reason :: string
  remaining_ready :: "string list"

definition empty_report :: advance_report where
  "empty_report = \<lparr>executed = [], completed_tasks = [], failed_tasks = [], blocked = [], stop_reason = ''IDLE'',
     remaining_ready = []\<rparr>"

definition dict_update :: "(string \<times> string) list \<Rightarrow> (string \<times> string) list \<Rightarrow> (string \<times> string) list" where
  "dict_update d new = foldl (\<lambda>d (k, v). set_key k v d) d new"

definition note_task :: "string \<Rightarrow> bool \<Rightarrow> advance_report \<Rightarrow> advance_report" where
  "note_task task ok rep =
     (let rep = rep\<lparr>executed := executed rep @ [task]\<rparr>
      in if ok then rep\<lparr>completed_tasks := completed_tasks rep @ [task]\<rparr>
         else rep\<lparr>failed_tasks := failed_tasks rep @ [task]\<rparr>)"

text \<open>
  \<open>pick\<close> picks the task to run: the first runnable one, or the first of the ranking. The rounds of the
  loop are as many as the tasks that may still be executed.
\<close>

fun advance_rounds :: "((string \<times> string) list \<Rightarrow> entities \<Rightarrow> string \<times> string) \<Rightarrow> nat \<Rightarrow> nat \<Rightarrow> (string \<Rightarrow> string) \<Rightarrow>
    (rat \<Rightarrow> json) \<Rightarrow> surroundings \<Rightarrow> (string \<times> string) list option \<Rightarrow> bool \<Rightarrow> string \<Rightarrow> advance_report \<Rightarrow> world \<Rightarrow>
    (advance_report, world) run" where
  "advance_rounds pick 0 fuel H num env modes authorize source rep w = Some (Inr rep, w)"
| "advance_rounds pick (Suc n) fuel H num env modes authorize source rep w =
     and_then (read_state w) (\<lambda>st w.
     and_then (scan H env modes authorize source st (derive_ready_tasks st) ([], []) w) (\<lambda>(candidates, found) w.
       let rep = rep\<lparr>blocked := dict_update (blocked rep) found\<rparr>
       in if candidates = [] then Some (Inr rep, w)
          else (case pick candidates (tasks st) of
            (task, src) \<Rightarrow>
              and_then (read_state w) (\<lambda>st w.
                case map_of (tasks st) task of
                  None \<Rightarrow> Some (Inl (KeyError task), w)
                | Some t \<Rightarrow>
                    (case get t ''capability'' of
                       Some (JStr cap) \<Rightarrow>
                         and_then (run_task fuel H num env (length (executed rep)) task cap t src w) (\<lambda>(ok, _) w.
                           advance_rounds pick n fuel H num env modes authorize source (note_task task ok rep) w)
                     | _ \<Rightarrow> Some (Inl (KeyError ''capability''), w))))))"

definition blocked_reasons :: "advance_report \<Rightarrow> string list" where
  "blocked_reasons rep = concat (map (\<lambda>i. case map_of (blocked rep) i of None \<Rightarrow> [] | Some r \<Rightarrow> [r]) (remaining_ready rep))"

definition reason_to_stop :: "int \<Rightarrow> project_state \<Rightarrow> advance_report \<Rightarrow> string" where
  "reason_to_stop max_tasks st rep =
     (let reasons = set (blocked_reasons rep)
      in if int (length (executed rep)) \<ge> max_tasks \<and> remaining_ready rep \<noteq> [] then ''RESOURCE_LIMIT''
         else if remaining_ready rep \<noteq> [] then
           (if reasons = {''APPROVAL_REQUIRED''} then ''APPROVAL_REQUIRED''
            else if reasons = {''EFFECT_PROTOCOL_REQUIRED''} then ''EFFECT_PROTOCOL_REQUIRED''
            else if reasons \<noteq> {} \<and> reasons \<subseteq> {''NO_CAPABILITY'', ''VERIFIER_NOT_INDEPENDENT''} then ''NO_CAPABILITY''
            else ''BLOCKED'')
         else if list_ex (\<lambda>(i, t). \<not> has_status t terminal_task_states) (tasks st) then ''DEPENDENCY_BLOCKED''
         else ''COMPLETE'')"

definition closing_report :: "int \<Rightarrow> advance_report \<Rightarrow> world \<Rightarrow> (advance_report, world) run" where
  "closing_report max_tasks rep w =
     and_then (read_state w) (\<lambda>st w.
       let rep = rep\<lparr>remaining_ready := derive_ready_tasks st\<rparr>
       in Some (Inr (rep\<lparr>stop_reason := reason_to_stop max_tasks st rep\<rparr>), w))"

fun check_modes :: "(string \<times> string) list \<Rightarrow> unit result" where
  "check_modes [] = Inr ()"
| "check_modes ((cap, mode) # ms) =
     (if blank cap then Inl (ValueError ''authorization mode capability name may not be empty'')
      else if mode \<notin> set valid_modes then Inl (ValueError (''invalid authorization mode for '' @ cap @ '': '' @ mode))
      else check_modes ms)"

definition first_choice :: "(string \<times> string) list \<Rightarrow> entities \<Rightarrow> string \<times> string" where
  "first_choice candidates all_tasks = hd candidates"

definition advance_until_idle :: "nat \<Rightarrow> (string \<Rightarrow> string) \<Rightarrow> (rat \<Rightarrow> json) \<Rightarrow> surroundings \<Rightarrow> bool \<Rightarrow> int \<Rightarrow>
    (string \<times> string) list option \<Rightarrow> world \<Rightarrow> (advance_report, world) run" where
  "advance_until_idle fuel H num env authorize max_tasks modes w =
     (if max_tasks < 1 then Some (Inl (ValueError ''max_tasks must be positive''), w)
      else if \<not> verify_chain H (log_rows w)
      then Some (Inl (ValueError ''refusing advance because the event chain is invalid''), w)
      else case (case modes of None \<Rightarrow> Inr () | Some ms \<Rightarrow> check_modes ms) of
        Inl err \<Rightarrow> Some (Inl err, w)
      | Inr _ \<Rightarrow>
          and_then (advance_rounds first_choice (nat max_tasks) fuel H num env modes authorize
              ''explicit_advance_invocation'' empty_report w) (\<lambda>rep w. closing_report max_tasks rep w))"

section \<open>The ranked loop\<close>

text \<open>\<open>_metric\<close>: a JSON number of the model is an integer.\<close>

definition metric :: "json_object \<Rightarrow> string \<Rightarrow> rat" where
  "metric t name = (case get t name of
     Some (JBool b) \<Rightarrow> if b then 1 else 0
   | Some (JInt i) \<Rightarrow> of_int i
   | _ \<Rightarrow> 0)"

definition candidate_of :: "string \<Rightarrow> json_object \<Rightarrow> work_candidate" where
  "candidate_of task t = \<lparr>candidate_id = task,
     candidate_capability = (case get t ''capability'' of Some (JStr c) \<Rightarrow> c | _ \<Rightarrow> []),
     expected_value = metric t ''expected_value'', risk_reduction = metric t ''risk_reduction'',
     dependency_unlock = metric t ''dependency_unlock'', human_labor_reduction = metric t ''human_labor_reduction'',
     execution_cost = metric t ''execution_cost'', execution_risk = metric t ''execution_risk'',
     blocked_reason = None, candidate_dependencies = []\<rparr>"

definition task_of :: "entities \<Rightarrow> string \<Rightarrow> json_object" where
  "task_of all_tasks task = (case map_of all_tasks task of None \<Rightarrow> [] | Some t \<Rightarrow> t)"

definition rank_runnable :: "(rat \<Rightarrow> rat) \<Rightarrow> (string \<times> string) list \<Rightarrow> entities \<Rightarrow> (string \<times> string) list" where
  "rank_runnable rnd candidates all_tasks =
     map (\<lambda>(c, sc). (candidate_id c, the (map_of candidates (candidate_id c))))
       (rank rnd (map (\<lambda>(task, src). candidate_of task (task_of all_tasks task)) candidates) new_improvement)"

definition ranked_choice :: "(rat \<Rightarrow> rat) \<Rightarrow> (string \<times> string) list \<Rightarrow> entities \<Rightarrow> string \<times> string" where
  "ranked_choice rnd candidates all_tasks = hd (rank_runnable rnd candidates all_tasks)"

definition advance_ranked_until_idle :: "(rat \<Rightarrow> rat) \<Rightarrow> nat \<Rightarrow> (string \<Rightarrow> string) \<Rightarrow> (rat \<Rightarrow> json) \<Rightarrow> surroundings \<Rightarrow> bool \<Rightarrow>
    int \<Rightarrow> (string \<times> string) list option \<Rightarrow> world \<Rightarrow> (advance_report, world) run" where
  "advance_ranked_until_idle rnd fuel H num env authorize max_tasks modes w =
     (if max_tasks < 1 then Some (Inl (ValueError ''max_tasks must be positive''), w)
      else if max_tasks > 1000 then Some (Inl (ValueError ''max_tasks may not exceed 1000''), w)
      else if \<not> verify_chain H (log_rows w)
      then Some (Inl (ValueError ''refusing advance because the event chain is invalid''), w)
      else and_then (advance_rounds (ranked_choice rnd) (nat max_tasks) fuel H num env modes authorize
              ''explicit_improvement_cycle'' empty_report w) (\<lambda>rep w. closing_report max_tasks rep w))"

end
