(* ===== verification/Advance_Claims.thy ===== *)
theory Advance_Claims
  imports Advance Event_State_Claims Pipeline_Claims
begin

text \<open>
  What the loop over the ready tasks guarantees. A step meets a condition (\<open>wp\<close>) when it ends and its
  outcome and world satisfy it, so every rule below is one of total correctness. \<open>extends\<close> is what all
  steps guarantee: the log grows by events that were allowed when they were appended.
\<close>

section \<open>Conditions on steps\<close>

definition wp :: "('a, 's) run \<Rightarrow> ('a result \<Rightarrow> 's \<Rightarrow> bool) \<Rightarrow> bool" where
  "wp m Q = (case m of None \<Rightarrow> False | Some (r, s) \<Rightarrow> Q r s)"

named_theorems step_rules \<open>conditions met by the steps\<close>

lemma wp_Some [simp]: "wp (Some (r, s)) Q = Q r s"
  by (simp add: wp_def)

lemma wp_and_then:
  assumes "wp m (\<lambda>r s. case r of Inl err \<Rightarrow> Q (Inl err) s | Inr v \<Rightarrow> wp (f v s) Q)"
  shows "wp (and_then m f) Q"
  using assms by (auto simp: wp_def and_then_def split: option.splits sum.splits prod.splits)

lemma wp_mono: "wp m Q \<Longrightarrow> (\<And>r s. Q r s \<Longrightarrow> Q' r s) \<Longrightarrow> wp m Q'"
  by (auto simp: wp_def split: option.splits)

lemma wp_elim: "wp m Q \<Longrightarrow> \<exists>r s. m = Some (r, s) \<and> Q r s"
  by (auto simp: wp_def split: option.splits)

section \<open>The log\<close>

text \<open>An appended row carries what was given.\<close>

definition appended :: "string \<Rightarrow> json_object \<Rightarrow> string \<Rightarrow> event_row \<Rightarrow> bool" where
  "appended ty p entity r \<longleftrightarrow> type_of (row_event r) = ty \<and> entity_id (row_event r) = Some entity
     \<and> JObj (payload (row_event r)) = sort_keys (JObj p)"

lemma wp_put_event:
  assumes inv: "log_inv H (log_rows w)" and ty: "ty \<in> set event_types"
    and fail: "\<And>err. Q (Inl err) w"
    and new: "\<And>e row. log_inv H (log_rows w @ [row]) \<Longrightarrow> appended ty p entity row \<Longrightarrow> Q (Inr e) (w\<lparr>log_rows := log_rows w @ [row]\<rparr>)"
  shows "wp (put_event H env ty p entity w) Q"
proof -
  let ?n = "length (log_rows w)"
  obtain r rows where a: "append_event H (log_uuid env ?n) (log_stamp env ?n) ty (Some (JObj p)) (Some entity) None None (log_rows w)
      = (r, rows)" by (rule prod.exhaust)
  note cases = append_cases [OF inv, of "log_uuid env ?n" "log_stamp env ?n" ty "Some (JObj p)" "Some entity" None None, unfolded a snd_conv]
  have f: "rows = log_rows w \<or> (\<exists>row. rows = log_rows w @ [row] \<and> appended ty p entity row)"
    and i: "\<And>err. r = Inl err \<Longrightarrow> rows = log_rows w" and v: "\<And>e. r = Inr e \<Longrightarrow> rows \<noteq> log_rows w"
    using a ty by (auto simp: append_event_def appended_def Let_def split: if_splits option.splits)
  show ?thesis
  proof (cases r)
    case (Inl err)
    then show ?thesis using i fail by (simp add: put_event_def Let_def a)
  next
    case (Inr e)
    then obtain row where row: "rows = log_rows w @ [row]" "appended ty p entity row" using f v by blast
    then have "log_inv H (log_rows w @ [row])" using cases by auto
    then show ?thesis using new row Inr by (simp add: put_event_def Let_def a)
  qed
qed

definition task_events :: "string list" where
  "task_events = map fst task_event_status"

text \<open>What the events of the loop do to the reduced state.\<close>

lemma blocker_keeps_tasks:
  assumes "log_inv H (rows @ [r])" "replay rows = Inr st" "replay (rows @ [r]) = Inr st'"
    and "type_of (row_event r) = ''BLOCKER_RECORDED''"
  shows "tasks st' = tasks st"
proof -
  obtain s1 where s1: "apply_event st (row_event r) = Inr s1" "tasks st' = tasks s1"
    using assms(3) unfolding replay_snoc [OF assms(1) log_inv_prefix [OF assms(1)] assms(2)]
    by (auto simp: lift_def split: sum.splits)
  have "with_entity (row_event r) ''blocker_id'' (\<lambda>i. Inr (st\<lparr>blockers := set_key i (payload (row_event r)) (blockers st)\<rparr>)) = Inr s1"
    using s1(1) assms(4) by (simp add: apply_event_def task_event_status_def)
  from with_entity_Inr [OF this] s1(2) show ?thesis by auto
qed

lemma status_event_effect:
  assumes "log_inv H (rows @ [r])" "replay rows = Inr st" "replay (rows @ [r]) = Inr st'"
    and ty: "map_of task_event_status (type_of (row_event r)) = Some status" and i: "entity_id (row_event r) = Some i"
  shows "\<exists>t u. map_of (tasks st) i = Some t \<and> get u ''status'' = Some (JStr status) \<and> tasks st' = set_key i u (tasks st)"
proof -
  let ?e = "row_event r"
  obtain s1 where s1: "apply_event st ?e = Inr s1" "tasks st' = tasks s1"
    using assms(3) unfolding replay_snoc [OF assms(1) log_inv_prefix [OF assms(1)] assms(2)]
    by (auto simp: lift_def split: sum.splits)
  have n: "type_of ?e \<notin> {''SOURCE_INGESTED'', ''GOAL_DISCOVERED'', ''TASK_CREATED'', ''DEPENDENCY_ADDED''}"
    using ty by (auto simp: task_event_status_def split: if_splits)
  then have "with_entity ?e ''task_id'' (\<lambda>i. case map_of (tasks st) i of
            None \<Rightarrow> Inl (StateTransitionError (''unknown task: '' @ i))
          | Some t \<Rightarrow>
              (let t1 = put ''status'' (JStr (the (map_of task_event_status (type_of ?e)))) t;
                   t2 = (if payload ?e \<noteq> [] then put ''last_event'' (JObj (payload ?e)) t1 else t1)
               in Inr (st\<lparr>tasks := set_key i t2 (tasks st)\<rparr>))) = Inr s1"
    using s1(1) ty unfolding apply_event_def by simp
  then show ?thesis using i s1(2) ty
    by (auto simp: with_entity_def entity_of_def Let_def split: if_splits option.splits)
      (rule exI, rule conjI [rotated], rule refl, simp)+
qed

section \<open>Allowed events\<close>

text \<open>
  Task \<open>i\<close> was ready and could be run with capability \<open>cap\<close> at some point of the log, with at least
  \<open>start\<close> events and before \<open>rows\<close> ended.
\<close>

definition granted :: "nat \<Rightarrow> engine \<Rightarrow> (string \<times> string) list option \<Rightarrow> bool \<Rightarrow> event_row list \<Rightarrow> string \<Rightarrow> string \<Rightarrow> bool" where
  "granted start e modes authorize rows i cap \<longleftrightarrow> (\<exists>base st t mode. prefix base rows \<and> start \<le> length base
     \<and> replay base = Inr st \<and> i \<in> set (derive_ready_tasks st) \<and> map_of (tasks st) i = Some t
     \<and> inspect e modes authorize t = Inr (Runnable cap mode))"

definition task_job :: "(string \<Rightarrow> string) \<Rightarrow> string \<Rightarrow> string \<Rightarrow> rt_job \<Rightarrow> bool" where
  "task_job H i cap j \<longleftrightarrow> idempotency_key j = ''event-task:'' @ i
     \<and> (\<exists>p. known_sha H j = intent_sha256 H (deterministic_intent i cap p))"

definition success_events :: "string list" where
  "success_events = [''VERIFICATION_PASSED'', ''TASK_COMPLETED'']"

definition allowed :: "(string \<Rightarrow> string) \<Rightarrow> nat \<Rightarrow> (string \<times> string) list option \<Rightarrow> bool \<Rightarrow> event_row list \<Rightarrow> engine \<Rightarrow> event_row \<Rightarrow> bool" where
  "allowed H start modes authorize rows e r \<longleftrightarrow>
     (type_of (row_event r) = ''BLOCKER_RECORDED''
      \<or> (\<exists>i cap. type_of (row_event r) \<in> set task_events \<and> entity_id (row_event r) = Some i
           \<and> granted start e modes authorize rows i cap
           \<and> (type_of (row_event r) \<in> set success_events \<longrightarrow>
                (\<exists>j\<in>set (jobs (store e)). state j = ''verified'' \<and> task_job H i cap j))))"

definition world_inv :: "(string \<Rightarrow> string) \<Rightarrow> world \<Rightarrow> bool" where
  "world_inv H w \<longleftrightarrow> log_inv H (log_rows w) \<and> pipe_inv H (runtime w) []"

text \<open>No job may be started \<open>n\<close> times.\<close>

definition enough_fuel :: "nat \<Rightarrow> engine \<Rightarrow> bool" where
  "enough_fuel n e \<longleftrightarrow> (\<forall>j\<in>set (jobs (store e)). max_attempts j < int n)
     \<and> (\<forall>cap spec. capabilities e cap = Some spec \<longrightarrow> spec_max_attempts spec < int n)"

definition extends :: "(string \<Rightarrow> string) \<Rightarrow> nat \<Rightarrow> (string \<times> string) list option \<Rightarrow> bool \<Rightarrow> world \<Rightarrow> world \<Rightarrow> bool" where
  "extends H start modes authorize w w' \<longleftrightarrow> world_inv H w' \<and> pipe_older (runtime w) (runtime w')
     \<and> capabilities (runtime w') = capabilities (runtime w)
     \<and> (\<forall>n. enough_fuel n (runtime w) \<longrightarrow> enough_fuel n (runtime w'))
     \<and> (\<exists>new. log_rows w' = log_rows w @ new
          \<and> (\<forall>k<length new. allowed H start modes authorize (log_rows w @ take k new) (runtime w') (new ! k)))"

lemma inspect_capabilities:
  assumes c: "capabilities e = capabilities e'" shows "inspect e modes authorize t = inspect e' modes authorize t"
  unfolding inspect_def c ..

lemma granted_mono: "granted start e modes authorize rows i cap \<Longrightarrow> start' \<le> start \<Longrightarrow> capabilities e' = capabilities e \<Longrightarrow>
    granted start' e' modes authorize rows i cap"
  unfolding granted_def using inspect_capabilities [of e' e modes authorize] by (metis order_trans)

lemma final_verified:
  assumes "pipe_older e e'" "j \<in> set (jobs (store e))" "state j = ''verified''" shows "j \<in> set (jobs (store e'))"
  using assms evolves_member [of final_job "jobs (store e)" "jobs (store e')" j]
  by (auto simp: pipe_older_def final_job_def final_states_def)

lemma allowed_mono:
  assumes a: "allowed H start modes authorize rows e r" and s: "start' \<le> start" and o: "pipe_older e e'"
    and c: "capabilities e' = capabilities e"
  shows "allowed H start' modes authorize rows e' r"
  using a granted_mono [OF _ s c] final_verified [OF o] unfolding allowed_def by blast

lemma extends_refl: "world_inv H w \<Longrightarrow> extends H start modes authorize w w"
  by (simp add: extends_def)

lemma extends_start: "extends H start modes authorize w w' \<Longrightarrow> start' \<le> start \<Longrightarrow> extends H start' modes authorize w w'"
  unfolding extends_def using allowed_mono [of H start modes authorize _ "runtime w'" _ start' "runtime w'"] by force

lemma extends_trans:
  assumes "extends H start modes authorize u v" "extends H start modes authorize v w"
  shows "extends H start modes authorize u w"
proof -
  obtain as bs where a: "log_rows v = log_rows u @ as" "\<forall>k<length as. allowed H start modes authorize (log_rows u @ take k as) (runtime v) (as ! k)"
    and b: "log_rows w = log_rows v @ bs" "\<forall>k<length bs. allowed H start modes authorize (log_rows v @ take k bs) (runtime w) (bs ! k)"
    using assms unfolding extends_def by blast
  have o: "pipe_older (runtime v) (runtime w)" "capabilities (runtime w) = capabilities (runtime v)"
    using assms(2) by (simp_all add: extends_def)
  have "allowed H start modes authorize (log_rows u @ take k (as @ bs)) (runtime w) ((as @ bs) ! k)" if k: "k < length (as @ bs)" for k
  proof (cases "k < length as")
    case True
    then show ?thesis using allowed_mono [OF a(2) [rule_format, OF True] order_refl o] by (simp add: nth_append)
  next
    case False
    then show ?thesis using b(2) [rule_format, of "k - length as"] k by (simp add: nth_append a(1))
  qed
  then have "\<exists>new. log_rows w = log_rows u @ new \<and> (\<forall>k<length new. allowed H start modes authorize (log_rows u @ take k new) (runtime w) (new ! k))"
    using a(1) b(1) by (intro exI [of _ "as @ bs"]) simp
  then show ?thesis using assms pipe_older_trans unfolding extends_def by metis
qed

lemma extends_event:
  assumes "world_inv H w" "log_inv H (log_rows w @ [row])" "allowed H start modes authorize (log_rows w) (runtime w) row"
  shows "extends H start modes authorize w (w\<lparr>log_rows := log_rows w @ [row]\<rparr>)"
  using assms by (auto simp: extends_def world_inv_def)

lemma extends_runtime:
  assumes "world_inv H w" "pipe_inv H e []" "pipe_older (runtime w) e" "capabilities e = capabilities (runtime w)"
    "\<And>n. enough_fuel n (runtime w) \<Longrightarrow> enough_fuel n e"
  shows "extends H start modes authorize w (w\<lparr>runtime := e\<rparr>)"
  using assms by (simp add: extends_def world_inv_def)

text \<open>A task that is not ready when the events begin is not touched by them.\<close>

definition is_busy :: "json_object \<Rightarrow> bool" where
  "is_busy t \<longleftrightarrow> has_status t busy_states"

lemma ready_not_busy: "state_ok st \<Longrightarrow> i \<in> set (derive_ready_tasks st) \<Longrightarrow> map_of (tasks st) i = Some t \<Longrightarrow> \<not> is_busy t"
  by (auto simp: derive_ready_tasks_def state_ok_def is_ready_def is_busy_def dest!: map_of_SomeD
      dest: eq_key_imp_eq_value)

lemma busy_kept:
  assumes inv: "log_inv H (rows @ new)" and st: "replay rows = Inr st" "map_of (tasks st) i = Some t" "is_busy t"
    and new: "\<forall>k<length new. allowed H (length rows) modes authorize (rows @ take k new) e (new ! k)"
  shows "k \<le> length new \<Longrightarrow> replay (rows @ take k new) = Inr st' \<Longrightarrow> map_of (tasks st') i = Some t"
proof (induction k arbitrary: st' rule: less_induct)
  case (less k)
  show ?case
  proof (cases k)
    case 0
    then show ?thesis using less.prems st by simp
  next
    case (Suc m)
    let ?pre = "rows @ take m new" and ?r = "new ! m"
    have split: "rows @ take k new = ?pre @ [?r]" using less.prems(1) Suc by (simp add: take_Suc_conv_app_nth)
    have i1: "log_inv H (?pre @ [?r])"
    proof -
      have "rows @ new = (?pre @ [?r]) @ drop k new" unfolding split [symmetric] by simp
      then show ?thesis using inv log_inv_prefix by metis
    qed
    obtain st1 where st1: "replay ?pre = Inr st1"
      using replay_prefix [OF i1 less.prems(2) [unfolded split] log_inv_prefix [OF i1]] by blast
    have here: "map_of (tasks st1) i = Some t" using less.IH [of m st1] st1 less.prems(1) Suc by simp
    have "m < length new" using less.prems(1) Suc by simp
    with new have "allowed H (length rows) modes authorize ?pre e ?r" by blast
    then consider "type_of (row_event ?r) = ''BLOCKER_RECORDED''"
      | i' cap where "type_of (row_event ?r) \<in> set task_events" "entity_id (row_event ?r) = Some i'"
        "granted (length rows) e modes authorize ?pre i' cap" unfolding allowed_def by blast
    then show ?thesis
    proof cases
      case 1
      then show ?thesis using blocker_keeps_tasks [OF i1 st1 less.prems(2) [unfolded split]] here by simp
    next
      case (2 i' cap)
      obtain base stb u where b: "prefix base ?pre" "length rows \<le> length base" "replay base = Inr stb"
        "i' \<in> set (derive_ready_tasks stb)" "map_of (tasks stb) i' = Some u" using 2(3) unfolding granted_def by blast
      define n where "n = length base - length rows"
      have n: "base = rows @ take n new" "n < k"
      proof -
        have "base = take (length base) ?pre" using b(1) unfolding prefix_def by (metis append_eq_conv_conj)
        also have "\<dots> = rows @ take n new" using b(2) prefix_length_le [OF b(1)] \<open>m < length new\<close> by (simp add: n_def min_def)
        finally show "base = rows @ take n new" .
        show "n < k" using prefix_length_le [OF b(1)] n_def Suc by simp
      qed
      have t: "map_of (tasks stb) i = Some t" using less.IH [OF n(2)] n less.prems(1) b(3) by simp
      have "log_inv H base" using i1 b(1) log_inv_prefix unfolding prefix_def by (metis append.assoc)
      from replay_ok [OF this b(3)] have ne: "i \<noteq> i'" using ready_not_busy [of stb i' t] b(4) t st(3) by blast
      obtain status where "map_of task_event_status (type_of (row_event ?r)) = Some status"
        using 2(1) by (auto simp: task_events_def task_event_status_def)
      from status_event_effect [OF i1 st1 less.prems(2) [unfolded split] this 2(2)] ne here
      show ?thesis by (auto simp: map_of_set_key)
    qed
  qed
qed

lemma extends_keeps_busy:
  assumes "extends H (length (log_rows w)) modes authorize w w'" "replay (log_rows w) = Inr st" "map_of (tasks st) i = Some t"
    "is_busy t" "replay (log_rows w') = Inr st'"
  shows "map_of (tasks st') i = Some t"
proof -
  obtain new where new: "log_rows w' = log_rows w @ new"
    "\<forall>k<length new. allowed H (length (log_rows w)) modes authorize (log_rows w @ take k new) (runtime w') (new ! k)"
    using assms(1) unfolding extends_def by blast
  have "log_inv H (log_rows w @ new)" using assms(1) new(1) by (simp add: extends_def world_inv_def)
  from busy_kept [OF this assms(2-4) new(2), of "length new" st'] assms(5) show ?thesis by (simp add: new(1))
qed

section \<open>Running the engine\<close>

definition same_row :: "rt_job \<Rightarrow> rt_job \<Rightarrow> bool" where
  "same_row j k \<longleftrightarrow> same_request j k \<and> attempts k = attempts j"

lemma process_rows:
  assumes "pipe_inv H e [row]"
  shows "fst (process H num clk nt alarm elapsed row e) \<in> {Inl IntegrityError, Inr (job_id row)}"
    "\<exists>g. jobs (store (snd (process H num clk nt alarm elapsed row e))) = map g (jobs (store e)) \<and> (\<forall>j. same_row j (g j))"
    "capabilities (snd (process H num clk nt alarm elapsed row e)) = capabilities e"
proof -
  have row: "row \<in> set [row]" by simp
  obtain k res where s: "settles H nt row (verdict e (clk 1) alarm elapsed row) k res e (process H num clk nt alarm elapsed row e)"
    using process_settles [OF pipe_fresh [OF assms row] pipe_live [OF assms row]] by blast
  then show "fst (process H num clk nt alarm elapsed row e) \<in> {Inl IntegrityError, Inr (job_id row)}"
    by (simp add: settles_def)
  obtain t path where js: "jobs (store (snd (process H num clk nt alarm elapsed row e)))
      = map (\<lambda>j. if job_id j = job_id row then finished t (verdict e (clk 1) alarm elapsed row) res path j else j) (jobs (store e))"
    using s unfolding settles_def finish_map by blast
  show "\<exists>g. jobs (store (snd (process H num clk nt alarm elapsed row e))) = map g (jobs (store e)) \<and> (\<forall>j. same_row j (g j))"
    unfolding js by (rule exI, rule conjI, rule refl) (simp add: same_row_def finished_def same_request_def)
  show "capabilities (snd (process H num clk nt alarm elapsed row e)) = capabilities e"
    using process_moved [OF assms row] by (simp add: moved_def)
qed

text \<open>A run that returns a job has started it once more.\<close>

lemma run_once_starts:
  assumes inv: "pipe_inv H e []" and r: "run_once H num clk nt alarm elapsed e = (Inr (Some jid), e')"
  shows "\<exists>j\<in>set (jobs (store e)). \<exists>k\<in>set (jobs (store e')). job_id j = jid \<and> same_request j k \<and> attempts k = attempts j + 1"
proof -
  obtain out js where c: "claim clk 60 (jobs (store e)) = (out, js)" by (rule prod.exhaust)
  have d: "distinct (map job_id (jobs (store e)))" using inv by (simp add: pipe_inv_def)
  let ?js = "snd (recover (clk 0) (jobs (store e)))"
  obtain row where row: "out = Inr (Some row)" using r c by (auto simp: run_once_def split: sum.splits option.splits)
  then obtain j where j: "j \<in> set ?js" "row = bumped clk 60 j" "js = map (\<lambda>x. if x = j then bumped clk 60 j else x) ?js"
    using claim_cases [OF d c] by auto
  obtain j0 where j0: "j0 \<in> set (jobs (store e))" "j = recovered (isoformat (clk 0)) j0"
    using j(1) unfolding recover_map [OF d] by auto
  have i: "pipe_inv H (with_jobs js e) [row]" using pipe_inv_claim [OF inv c] row by simp
  let ?p = "process H num (\<lambda>n. clk (3 + n)) nt alarm elapsed row (with_jobs js e)"
  have p: "fst ?p = Inr jid" "snd ?p = e'" using r c row by (auto simp: run_once_def split: prod.splits sum.splits)
  then have jid: "jid = job_id row" using process_rows(1) [OF i, of num "\<lambda>n. clk (3 + n)" nt alarm elapsed] by auto
  obtain g where g: "jobs (store e') = map g js" "\<And>x. same_row x (g x)"
    using process_rows(2) [OF i, of num "\<lambda>n. clk (3 + n)" nt alarm elapsed] p(2) by auto
  have "row \<in> set js" using j by (auto intro!: image_eqI [of _ _ j])
  then have "g row \<in> set (jobs (store e'))" using g(1) by simp
  moreover have "job_id j0 = jid" "same_request j0 (g row)" "attempts (g row) = attempts j0 + 1"
    using g(2) [of row] jid j0(2) j(2) by (auto simp: same_row_def same_request_def bumped_def recovered_def)
  ultimately show ?thesis using j0(1) by blast
qed

lemma run_once_keeps:
  assumes inv: "pipe_inv H e []"
  shows "capabilities (snd (run_once H num clk nt alarm elapsed e)) = capabilities e
    \<and> length (jobs (store (snd (run_once H num clk nt alarm elapsed e)))) = length (jobs (store e))"
proof -
  obtain out js where c: "claim clk 60 (jobs (store e)) = (out, js)" by (rule prod.exhaust)
  have d: "distinct (map job_id (jobs (store e)))" using inv by (simp add: pipe_inv_def)
  have len: "length js = length (jobs (store e))" using claim_cases [OF d c] by (auto simp: recover_map [OF d])
  show ?thesis
  proof (cases "\<exists>row. out = Inr (Some row)")
    case True
    then obtain row where row: "out = Inr (Some row)" by blast
    have i: "pipe_inv H (with_jobs js e) [row]" using pipe_inv_claim [OF inv c] row by simp
    let ?p = "process H num (\<lambda>n. clk (3 + n)) nt alarm elapsed row (with_jobs js e)"
    obtain g where "jobs (store (snd ?p)) = map g js"
      using process_rows(2) [OF i, of num "\<lambda>n. clk (3 + n)" nt alarm elapsed] by auto
    with process_rows(3) [OF i, of num "\<lambda>n. clk (3 + n)" nt alarm elapsed] len show ?thesis
      using c row by (auto simp: run_once_def split: prod.splits sum.splits)
  next
    case False
    then show ?thesis using c len by (auto simp: run_once_def split: sum.splits option.splits)
  qed
qed

text \<open>A job that can be found stays the same request.\<close>

lemma older_row:
  assumes o: "pipe_older e e'" and inv: "pipe_inv H e' []" and j: "select_one (\<lambda>j. job_id j = jid) (jobs (store e)) = Some j"
  shows "\<exists>k. select_one (\<lambda>j. job_id j = jid) (jobs (store e')) = Some k \<and> same_request j k \<and> attempts j \<le> attempts k"
proof -
  have m: "j \<in> set (jobs (store e))" "job_id j = jid" using select_one_SomeD [OF j] by simp_all
  obtain k where k: "k \<in> set (jobs (store e'))" "final_job j k"
    using o evolves_member [OF _ m(1)] unfolding pipe_older_def by blast
  then have "job_id k = jid" using m(2) by (simp add: final_job_def grows_def same_request_def)
  moreover have "select_one (\<lambda>j. job_id j = job_id k) (jobs (store e')) = Some k"
    using inv k(1) by (intro select_one_unique) (simp_all add: pipe_inv_def)
  ultimately show ?thesis using k(2) by (auto simp: final_job_def grows_def)
qed

definition runs_to :: "(string \<Rightarrow> string) \<Rightarrow> world \<Rightarrow> world \<Rightarrow> bool" where
  "runs_to H w w' \<longleftrightarrow> log_rows w' = log_rows w \<and> pipe_inv H (runtime w') [] \<and> pipe_older (runtime w) (runtime w')
     \<and> capabilities (runtime w') = capabilities (runtime w)
     \<and> length (jobs (store (runtime w'))) = length (jobs (store (runtime w)))"

lemma runs_to_trans: "runs_to H u v \<Longrightarrow> runs_to H v w \<Longrightarrow> runs_to H u w"
  using pipe_older_trans by (auto simp: runs_to_def)

lemma enough_fuel_kept:
  assumes "pipe_older e e'" "length (jobs (store e')) = length (jobs (store e))" "capabilities e' = capabilities e" "enough_fuel n e"
  shows "enough_fuel n e'"
proof -
  have "max_attempts k < int n" if k: "k \<in> set (jobs (store e'))" for k
  proof -
    obtain m where m: "m < length (jobs (store e'))" "k = jobs (store e') ! m" using k by (metis in_set_conv_nth)
    then have "final_job (jobs (store e) ! m) k" using assms(1,2) by (simp add: pipe_older_def evolves_def)
    then have "max_attempts k = max_attempts (jobs (store e) ! m)" by (simp add: final_job_def grows_def same_request_def)
    then show ?thesis using assms(2,4) m(1) by (simp add: enough_fuel_def)
  qed
  then show ?thesis using assms(3,4) by (simp add: enough_fuel_def)
qed

lemma runs_to_extends: "world_inv H w \<Longrightarrow> runs_to H w w' \<Longrightarrow> extends H start modes authorize w w'"
  using enough_fuel_kept [of "runtime w" "runtime w'"] by (auto simp: runs_to_def extends_def world_inv_def)

text \<open>Every round starts the job once more, and a job is not started more often than its limit.\<close>

lemma wp_drain:
  assumes "pipe_inv H (runtime w) []" "select_one (\<lambda>j. job_id j = jid) (jobs (store (runtime w))) = Some j"
    "max_attempts j - attempts j < int n"
  shows "wp (drain n H num env i r task jid w) (\<lambda>res w'. runs_to H w w'
    \<and> (res = Inr () \<longrightarrow> (\<exists>k. select_one (\<lambda>j. job_id j = jid) (jobs (store (runtime w'))) = Some k
         \<and> state k \<notin> {''queued'', ''running''})))"
  using assms
proof (induction n arbitrary: r w j)
  case 0
  have "j \<in> set (jobs (store (runtime w)))" using select_one_SomeD [OF 0(2)] by simp
  then have "attempts j \<le> max_attempts j" using 0(1) by (simp add: pipe_inv_def job_ok_def)
  then show ?case using 0(3) by simp
next
  case (Suc n)
  note inv = Suc.prems(1) and j = Suc.prems(2)
  have same: "runs_to H w w" using inv by (simp add: runs_to_def)
  show ?case
  proof (cases "state j \<in> {''queued'', ''running''}")
    case False
    then show ?thesis using j same by (simp add: job_row_def)
  next
    case True
    let ?out = "run_once H num (run_clock env i r) (run_note_of env i r) (run_alarm env i r) (run_elapsed env i r) (runtime w)"
    let ?w1 = "w\<lparr>runtime := snd ?out\<rparr>"
    have good: "runs_to H w ?w1" using run_once_good [OF inv] run_once_keeps [OF inv] by (simp add: runs_to_def)
    then have inv1: "pipe_inv H (runtime ?w1) []" and older: "pipe_older (runtime w) (runtime ?w1)" by (simp_all add: runs_to_def)
    obtain k where k: "select_one (\<lambda>j. job_id j = jid) (jobs (store (runtime ?w1))) = Some k" "same_request j k"
      using older_row [OF older inv1 j] by blast
    have next_round: "wp (drain n H num env i (Suc r) task jid ?w1) (\<lambda>res w'. runs_to H w w'
      \<and> (res = Inr () \<longrightarrow> (\<exists>k. select_one (\<lambda>j. job_id j = jid) (jobs (store (runtime w'))) = Some k
         \<and> state k \<notin> {''queued'', ''running''})))" if out: "fst ?out = Inr (Some jid)"
    proof -
      have "?out = (Inr (Some jid), snd ?out)" using out by (cases ?out) simp
      from run_once_starts [OF inv this] obtain a b where ab: "a \<in> set (jobs (store (runtime w)))" "b \<in> set (jobs (store (runtime ?w1)))" "job_id a = jid"
        "same_request a b" "attempts b = attempts a + 1" by auto
      have "a = j" using unique_row [of job_id "jobs (store (runtime w))" a j] inv ab(1,3) select_one_SomeD [OF j] by (simp add: pipe_inv_def)
      moreover have "b = k" using unique_row [of job_id "jobs (store (runtime ?w1))" b k] inv1 ab(2,3,4) select_one_SomeD [OF k(1)]
        by (simp add: pipe_inv_def same_request_def)
      ultimately have "max_attempts k - attempts k < int n" using Suc.prems(3) ab(5) k(2) by (simp add: same_request_def)
      from Suc.IH [OF inv1 k(1) this] show ?thesis by (rule wp_mono) (use runs_to_trans [OF good] in auto)
    qed
    show ?thesis
    proof (cases "fst ?out")
      case (Inl err)
      then show ?thesis using j True good same by (simp add: job_row_def on_runtime_def)
    next
      case (Inr o')
      show ?thesis
      proof (cases o')
        case None
        then show ?thesis using j True good same Inr by (simp add: job_row_def on_runtime_def)
      next
        case (Some j')
        then show ?thesis using j True good same Inr next_round by (cases "j' = jid") (simp_all add: job_row_def on_runtime_def)
      qed
    qed
  qed
qed

section \<open>Submitting a task\<close>

lemma known_sha_stored:
  "job_intent_sha256 j = Some (intent_sha256 H i) \<Longrightarrow> job_intent j = stored_intent i \<Longrightarrow> known_sha H j = intent_sha256 H i"
  by (simp add: known_sha_def intent_sha256_def canonical_sha256_def dumps_def intent_json_def stored_intent_def)

lemma submitted_job:
  assumes inv: "pipe_inv H e []" and r: "fst (submit H clk uuid i g (Some key) e) = Inr jid" and key: "key \<noteq> []"
  shows "\<exists>j. select_one (\<lambda>j. job_id j = jid) (jobs (store (snd (submit H clk uuid i g (Some key) e)))) = Some j
    \<and> idempotency_key j = key \<and> known_sha H j = intent_sha256 H i"
proof -
  have inv': "pipe_inv H (snd (submit H clk uuid i g (Some key) e)) []" by (rule pipe_inv_submit [OF inv])
  obtain spec where spec: "capabilities e (intent_capability i) = Some spec"
    "permits g (intent_capability i) (clk 0) = Inr True"
    using r by (auto simp: submit_def split: sum.splits bool.splits option.splits)
  let ?s = "store_submit H (clk 1) uuid i g key (spec_max_attempts spec) (jobs (store e))"
  have k: "submit_key i (Some key) = key" using key by (simp add: submit_key_def)
  obtain created where s: "fst ?s = Inr (jid, created)" "jobs (store (snd (submit H clk uuid i g (Some key) e))) = snd ?s"
    using r spec k by (auto simp: submit_def Let_def split: prod.splits sum.splits py_error.splits)
  have "\<exists>j\<in>set (snd ?s). job_id j = jid \<and> idempotency_key j = key \<and> known_sha H j = intent_sha256 H i"
    using s(1) by (auto simp: store_submit_def Let_def known_sha_stored dest!: select_one_SomeD split: if_splits option.splits)
  then obtain j where j: "j \<in> set (snd ?s)" "job_id j = jid" "idempotency_key j = key" "known_sha H j = intent_sha256 H i" by blast
  have "select_one (\<lambda>x. job_id x = job_id j) (snd ?s) = Some j"
    using inv' j(1) s(2) by (intro select_one_unique) (simp_all add: pipe_inv_def)
  then show ?thesis using j s(2) by auto
qed

lemma submit_keeps:
  "capabilities (snd (submit H clk uuid i g given e)) = capabilities e"
  "enough_fuel n e \<Longrightarrow> enough_fuel n (snd (submit H clk uuid i g given e))"
proof -
  show c: "capabilities (snd (submit H clk uuid i g given e)) = capabilities e"
    by (auto simp: submit_def Let_def split: sum.split bool.split option.split prod.split py_error.split)
  assume f: "enough_fuel n e"
  have "jobs (store (snd (submit H clk uuid i g given e))) = jobs (store e)
    \<or> (\<exists>spec j. capabilities e (intent_capability i) = Some spec \<and> max_attempts j = spec_max_attempts spec
         \<and> jobs (store (snd (submit H clk uuid i g given e))) = jobs (store e) @ [j])"
  proof (cases "capabilities e (intent_capability i)")
    case None
    then show ?thesis by (auto simp: submit_def split: sum.split bool.split)
  next
    case (Some spec)
    with store_submit_cases [of H "clk 1" uuid i g "submit_key i given" "spec_max_attempts spec" "jobs (store e)"]
    show ?thesis
      by (auto simp: submit_def Let_def split: sum.split bool.split prod.split py_error.split)
  qed
  then show "enough_fuel n (snd (submit H clk uuid i g given e))"
    using f c by (auto simp: enough_fuel_def)
qed

lemma submit_older: "pipe_inv H e [] \<Longrightarrow> pipe_older e (snd (submit H clk uuid i g given e))"
  using pipe.run_older [of H e "\<lambda>_. JNull" "P_Submit clk uuid i g given"] by simp

section \<open>Running a task\<close>

definition status_after :: "world \<Rightarrow> string \<Rightarrow> string list \<Rightarrow> bool" where
  "status_after w i sts \<longleftrightarrow> (\<forall>st. replay (log_rows w) = Inr st \<longrightarrow> (\<exists>t. map_of (tasks st) i = Some t \<and> has_status t sts))"

lemma granted_append: "granted start e modes authorize rows i cap \<Longrightarrow> granted start e modes authorize (rows @ later) i cap"
  unfolding granted_def by (meson prefix_order.trans prefixI)

lemma wp_task_event:
  assumes ext: "extends H start modes authorize w v" and g: "granted start (runtime v) modes authorize (log_rows v) i cap"
    and ty: "map_of task_event_status ty = Some status"
    and job: "ty \<in> set success_events \<Longrightarrow> \<exists>j\<in>set (jobs (store (runtime v))). state j = ''verified'' \<and> task_job H i cap j"
    and fail: "\<And>err. Q (Inl err) v"
    and new: "\<And>e v'. extends H start modes authorize w v' \<Longrightarrow> runtime v' = runtime v \<Longrightarrow>
        granted start (runtime v') modes authorize (log_rows v') i cap \<Longrightarrow> status_after v' i [status] \<Longrightarrow> Q (Inr e) v'"
  shows "wp (put_event H env ty p i v) Q"
proof -
  have inv: "world_inv H v" using ext by (simp add: extends_def)
  then have log: "log_inv H (log_rows v)" by (simp add: world_inv_def)
  have m: "ty \<in> set task_events" using ty by (force simp: task_events_def dest: map_of_SomeD)
  then have known: "ty \<in> set event_types" by (auto simp: task_events_def task_event_status_def event_types_def)
  show ?thesis
  proof (rule wp_put_event [OF log known])
    show "Q (Inl err) v" for err by (rule fail)
  next
    fix e row assume row: "log_inv H (log_rows v @ [row])" "appended ty p i row"
    let ?v' = "v\<lparr>log_rows := log_rows v @ [row]\<rparr>"
    have a: "allowed H start modes authorize (log_rows v) (runtime v) row"
      using m row(2) g job unfolding allowed_def appended_def by blast
    have "extends H start modes authorize w ?v'"
      by (rule extends_trans [OF ext extends_event [OF inv row(1) a]])
    moreover have "status_after ?v' i [status]"
      unfolding status_after_def
    proof (intro allI impI)
      fix st' assume st': "replay (log_rows ?v') = Inr st'"
      then obtain st where st: "replay (log_rows v) = Inr st" using replay_prefix [OF row(1) _ log] by auto
      have "replay (log_rows v @ [row]) = Inr st'" using st' by simp
      from status_event_effect [OF row(1) st this, of status i] row(2) ty
      show "\<exists>t. map_of (tasks st') i = Some t \<and> has_status t [status]"
        by (auto simp: appended_def map_of_set_key has_status_def)
    qed
    ultimately show "Q (Inr e) ?v'" using new granted_append [OF g] by simp
  qed
qed

definition task_run :: "(string \<Rightarrow> string) \<Rightarrow> nat \<Rightarrow> (string \<times> string) list option \<Rightarrow> bool \<Rightarrow> world \<Rightarrow> string \<Rightarrow>
    (bool \<times> string) result \<Rightarrow> world \<Rightarrow> bool" where
  "task_run H start modes authorize w i r w' \<longleftrightarrow> extends H start modes authorize w w'
     \<and> (\<forall>ok st. r = Inr (ok, st) \<longrightarrow> status_after w' i (if ok then [''COMPLETE''] else [''FAILED'', ''VERIFICATION_FAILED'']))"

lemma has_status_mono: "has_status t sts \<Longrightarrow> set sts \<subseteq> set sts' \<Longrightarrow> has_status t sts'"
  by (auto simp: has_status_def split: option.splits json.splits)

lemma status_after_mono: "status_after w i sts \<Longrightarrow> set sts \<subseteq> set sts' \<Longrightarrow> status_after w i sts'"
  unfolding status_after_def by (meson has_status_mono)

lemma task_run_raised: "extends H start modes authorize w u \<Longrightarrow> task_run H start modes authorize w i (Inl err) u"
  by (simp add: task_run_def)

text \<open>An event of the task, and then the rest.\<close>

lemma wp_task_step:
  assumes u: "extends H start modes authorize w u" "granted start (runtime u) modes authorize (log_rows u) i cap"
    and ty: "map_of task_event_status ty = Some status"
    and job: "ty \<in> set success_events \<Longrightarrow> \<exists>j\<in>set (jobs (store (runtime u))). state j = ''verified'' \<and> task_job H i cap j"
    and f: "\<And>e u'. extends H start modes authorize w u' \<Longrightarrow> granted start (runtime u') modes authorize (log_rows u') i cap \<Longrightarrow>
          runtime u' = runtime u \<Longrightarrow> status_after u' i [status] \<Longrightarrow> wp (f e u') (task_run H start modes authorize w i)"
  shows "wp (and_then (put_event H env ty p i u) f) (task_run H start modes authorize w i)"
  by (rule wp_and_then, rule wp_task_event [OF u ty job]) (simp_all add: f task_run_raised [OF u(1)])

lemma task_event_statuses: "map_of task_event_status ''TASK_READY'' = Some ''READY''"
  "map_of task_event_status ''TASK_AUTHORIZED'' = Some ''AUTHORIZED''" "map_of task_event_status ''TASK_STARTED'' = Some ''RUNNING''"
  "map_of task_event_status ''TASK_EXECUTED'' = Some ''EXECUTED''" "map_of task_event_status ''VERIFICATION_PASSED'' = Some ''VERIFIED''"
  "map_of task_event_status ''TASK_COMPLETED'' = Some ''COMPLETE''" "map_of task_event_status ''VERIFICATION_FAILED'' = Some ''VERIFICATION_FAILED''"
  "map_of task_event_status ''TASK_FAILED'' = Some ''FAILED''"
  by (simp_all add: task_event_status_def)

lemma not_success: "''TASK_EXECUTED'' \<notin> set success_events" "''VERIFICATION_FAILED'' \<notin> set success_events"
  "''TASK_FAILED'' \<notin> set success_events" "''TASK_READY'' \<notin> set success_events" "''TASK_AUTHORIZED'' \<notin> set success_events"
  "''TASK_STARTED'' \<notin> set success_events"
  by (simp_all add: success_events_def)

lemma task_run_settled:
  "extends H start modes authorize w u \<Longrightarrow> status_after u i [status] \<Longrightarrow>
     status = ''COMPLETE'' \<and> ok \<or> status \<in> {''FAILED'', ''VERIFICATION_FAILED''} \<and> \<not> ok \<Longrightarrow>
     task_run H start modes authorize w i (Inr (ok, x)) u"
  using status_after_mono [of u i "[status]"] by (auto simp: task_run_def)

lemma wp_settle_task:
  assumes ext: "extends H start modes authorize w v" and g: "granted start (runtime v) modes authorize (log_rows v) i cap"
    and row: "row \<in> set (jobs (store (runtime v)))" "task_job H i cap row"
  shows "wp (settle_task H env i row v) (task_run H start modes authorize w i)"
proof -
  let ?T = "task_run H start modes authorize w i"
  have finished: "wp (Some (Inr (ok, x), u)) ?T"
    if "extends H start modes authorize w u" "status_after u i [status]"
      "status = ''COMPLETE'' \<and> ok \<or> status \<in> {''FAILED'', ''VERIFICATION_FAILED''} \<and> \<not> ok" for ok x u status
    using task_run_settled [OF that] by simp
  consider "state row = ''verified''" | "state row = ''failed_verification''" | "state row \<notin> {''verified'', ''failed_verification''}" by blast
  then show ?thesis
  proof cases
    case 1
    have ok: "\<exists>j\<in>set (jobs (store (runtime u))). state j = ''verified'' \<and> task_job H i cap j" if "runtime u = runtime v" for u
      unfolding that using row 1 by blast
    have c: "wp (and_then (put_event H env ''TASK_COMPLETED'' p i u) (\<lambda>_ w. Some (Inr (True, x), w))) ?T"
      if "extends H start modes authorize w u" "granted start (runtime u) modes authorize (log_rows u) i cap" "runtime u = runtime v" for u p x
      by (rule wp_task_step [OF that(1,2) task_event_statuses(6) ok [OF that(3)]], rule finished) auto
    have b: "wp (and_then (put_event H env ''VERIFICATION_PASSED'' q i u) (\<lambda>_ w.
        and_then (put_event H env ''TASK_COMPLETED'' p i w) (\<lambda>_ w. Some (Inr (True, x), w)))) ?T"
      if "extends H start modes authorize w u" "granted start (runtime u) modes authorize (log_rows u) i cap" "runtime u = runtime v" for u p q x
      by (rule wp_task_step [OF that(1,2) task_event_statuses(5) ok [OF that(3)]], rule c) (simp_all add: that)
    show ?thesis unfolding settle_task_def Let_def if_P [OF 1]
      by (rule wp_task_step [OF ext g task_event_statuses(4)], simp add: not_success, rule b)
  next
    case 2
    have b: "wp (and_then (put_event H env ''VERIFICATION_FAILED'' p i u) (\<lambda>_ w. Some (Inr (False, x), w))) ?T"
      if "extends H start modes authorize w u" "granted start (runtime u) modes authorize (log_rows u) i cap" for u p x
      by (rule wp_task_step [OF that task_event_statuses(7)], simp add: not_success, rule finished) auto
    have n: "state row \<noteq> ''verified''" using 2 by simp
    show ?thesis unfolding settle_task_def Let_def if_not_P [OF n] if_P [OF 2]
      by (rule wp_task_step [OF ext g task_event_statuses(4)], simp add: not_success, rule b)
  next
    case 3
    then have n: "state row \<noteq> ''verified''" "state row \<noteq> ''failed_verification''" by simp_all
    show ?thesis unfolding settle_task_def Let_def if_not_P [OF n(1)] if_not_P [OF n(2)]
      by (rule wp_task_step [OF ext g task_event_statuses(8)], simp add: not_success, rule finished) auto
  qed
qed

lemma wp_lift_result: "(\<And>err. r = Inl err \<Longrightarrow> Q (Inl err) w) \<Longrightarrow> (\<And>v. r = Inr v \<Longrightarrow> wp (f v w) Q) \<Longrightarrow> wp (and_then (lift_result r w) f) Q"
  by (cases r) (simp_all add: lift_result_def)

lemma wp_on_runtime: "(\<And>err. fst out = Inl err \<Longrightarrow> Q (Inl err) (w\<lparr>runtime := snd out\<rparr>)) \<Longrightarrow>
    (\<And>v. fst out = Inr v \<Longrightarrow> wp (f v (w\<lparr>runtime := snd out\<rparr>)) Q) \<Longrightarrow> wp (and_then (on_runtime out w) f) Q"
  by (cases "fst out") (simp_all add: on_runtime_def)

lemma task_job_same: "task_job H i cap j \<Longrightarrow> same_request j k \<Longrightarrow> task_job H i cap k"
proof -
  assume j: "task_job H i cap j" and s: "same_request j k"
  then have "known_sha H k = known_sha H j" unfolding known_sha_def same_request_def by metis
  with j s show ?thesis by (simp add: task_job_def same_request_def)
qed

lemma wp_started:
  assumes ext: "extends H start modes authorize w u" and g: "granted start (runtime u) modes authorize (log_rows u) i cap"
    and j: "select_one (\<lambda>j. job_id j = jid) (jobs (store (runtime u))) = Some j" "task_job H i cap j"
    and fuel: "enough_fuel fuel (runtime u)"
  shows "wp (and_then (drain fuel H num env n r i jid u) (\<lambda>_ w. and_then (job_row jid w) (\<lambda>row w. settle_task H env i row w)))
    (task_run H start modes authorize w i)"
proof -
  have inv: "world_inv H u" using ext by (simp add: extends_def)
  then have pinv: "pipe_inv H (runtime u) []" by (simp add: world_inv_def)
  have m: "j \<in> set (jobs (store (runtime u)))" using select_one_SomeD [OF j(1)] by simp
  then have "0 \<le> attempts j" "max_attempts j < int fuel" using pinv fuel by (simp_all add: pipe_inv_def job_ok_def enough_fuel_def)
  then have "max_attempts j - attempts j < int fuel" by simp
  from wp_drain [OF pinv j(1) this, of num env n r i] show ?thesis
  proof (intro wp_and_then, elim wp_mono)
    fix res :: "unit result" and u'
    assume a: "runs_to H u u' \<and> (res = Inr () \<longrightarrow> (\<exists>k. select_one (\<lambda>j. job_id j = jid) (jobs (store (runtime u'))) = Some k
         \<and> state k \<notin> {''queued'', ''running''}))"
    have ext': "extends H start modes authorize w u'" using extends_trans [OF ext runs_to_extends [OF inv]] a by blast
    show "case res of Inl err \<Rightarrow> task_run H start modes authorize w i (Inl err) u'
      | Inr v \<Rightarrow> wp (and_then (job_row jid u') (settle_task H env i)) (task_run H start modes authorize w i)"
    proof (cases res)
      case (Inl err)
      then show ?thesis using task_run_raised [OF ext'] by simp
    next
      case (Inr v)
      have o: "pipe_older (runtime u) (runtime u')" "pipe_inv H (runtime u') []" "log_rows u' = log_rows u"
        "capabilities (runtime u') = capabilities (runtime u)" using a by (simp_all add: runs_to_def)
      obtain k where k: "select_one (\<lambda>j. job_id j = jid) (jobs (store (runtime u'))) = Some k" "same_request j k"
        using older_row [OF o(1,2) j(1)] by blast
      have g': "granted start (runtime u') modes authorize (log_rows u') i cap" using granted_mono [OF g order_refl o(4)] o(3) by simp
      have "wp (settle_task H env i k u') (task_run H start modes authorize w i)"
        by (rule wp_settle_task [OF ext' g']) (use select_one_SomeD [OF k(1)] task_job_same [OF j(2) k(2)] in simp_all)
      then show ?thesis using Inr k(1) by (simp add: job_row_def)
    qed
  qed
qed

lemma wp_run_task:
  assumes inv: "world_inv H w" and fuel: "enough_fuel fuel (runtime w)"
    and st: "replay (log_rows w) = Inr st" "i \<in> set (derive_ready_tasks st)" "map_of (tasks st) i = Some t"
    and t: "inspect (runtime w) modes authorize t = Inr (Runnable cap mode)"
  shows "wp (run_task fuel H num env n i cap t src w) (task_run H (length (log_rows w)) modes authorize w i)"
proof -
  let ?s = "length (log_rows w)"
  let ?T = "task_run H ?s modes authorize w i"
  have ext: "extends H ?s modes authorize w w" by (rule extends_refl [OF inv])
  have "granted ?s (runtime w) modes authorize (log_rows w) i cap" using st t unfolding granted_def by blast
  note here = ext this
  have started: "wp (and_then (put_event H env ''TASK_STARTED'' p i u) (\<lambda>_ w. and_then (drain fuel H num env n 0 i jid w) (\<lambda>_ w.
      and_then (job_row jid w) (\<lambda>row w. settle_task H env i row w)))) ?T"
    if "extends H ?s modes authorize w u" "granted ?s (runtime u) modes authorize (log_rows u) i cap"
      "select_one (\<lambda>j. job_id j = jid) (jobs (store (runtime u))) = Some j" "task_job H i cap j" "enough_fuel fuel (runtime u)" for u p jid j
    by (rule wp_task_step [OF that(1,2) task_event_statuses(3)], simp add: not_success)
      (rule wp_started [of H ?s modes authorize w _ i cap jid j], use that in simp_all)
  have submitted: "wp (and_then (on_runtime (submit H clk uuid (deterministic_intent i cap p) g (Some (''event-task:'' @ i)) (runtime u)) u)
      (\<lambda>jid w. and_then (put_event H env ''TASK_STARTED'' (q jid) i w) (\<lambda>_ w. and_then (drain fuel H num env n 0 i jid w) (\<lambda>_ w.
      and_then (job_row jid w) (\<lambda>row w. settle_task H env i row w))))) ?T"
    if u: "extends H ?s modes authorize w u" "granted ?s (runtime u) modes authorize (log_rows u) i cap" for clk uuid p g u q
  proof -
    let ?out = "submit H clk uuid (deterministic_intent i cap p) g (Some (''event-task:'' @ i)) (runtime u)"
    let ?u = "u\<lparr>runtime := snd ?out\<rparr>"
    have iu: "world_inv H u" using u(1) by (simp add: extends_def)
    then have pu: "pipe_inv H (runtime u) []" by (simp add: world_inv_def)
    have fu: "enough_fuel fuel (runtime u)" using u(1) fuel by (simp add: extends_def)
    have e1: "extends H ?s modes authorize w ?u"
      by (rule extends_trans [OF u(1) extends_runtime [OF iu pipe_inv_submit [OF pu] submit_older [OF pu] submit_keeps]])
    have g1: "granted ?s (runtime ?u) modes authorize (log_rows ?u) i cap"
      using granted_mono [OF u(2) order_refl, of "runtime ?u"] submit_keeps(1) by simp
    show ?thesis
    proof (rule wp_on_runtime)
      show "?T (Inl err) ?u" for err by (rule task_run_raised [OF e1])
    next
      fix jid assume r: "fst ?out = Inr jid"
      from submitted_job [OF pu r] obtain j where j: "select_one (\<lambda>j. job_id j = jid) (jobs (store (runtime ?u))) = Some j"
        "idempotency_key j = ''event-task:'' @ i" "known_sha H j = intent_sha256 H (deterministic_intent i cap p)" by auto
      then have "task_job H i cap j" by (auto simp: task_job_def)
      from started [OF e1 g1 j(1) this] submit_keeps(2) [OF fu]
      show "wp (and_then (put_event H env ''TASK_STARTED'' (q jid) i ?u) (\<lambda>_ w. and_then (drain fuel H num env n 0 i jid w) (\<lambda>_ w.
        and_then (job_row jid w) (\<lambda>row w. settle_task H env i row w)))) ?T" by simp
    qed
  qed
  have authorized: "wp (and_then (put_event H env ''TASK_AUTHORIZED'' q i u) (\<lambda>_ w.
      and_then (on_runtime (submit H clk uuid (deterministic_intent i cap p) g (Some (''event-task:'' @ i)) (runtime w)) w)
      (\<lambda>jid w. and_then (put_event H env ''TASK_STARTED'' (q' jid) i w) (\<lambda>_ w. and_then (drain fuel H num env n 0 i jid w) (\<lambda>_ w.
      and_then (job_row jid w) (\<lambda>row w. settle_task H env i row w)))))) ?T"
    if u: "extends H ?s modes authorize w u" "granted ?s (runtime u) modes authorize (log_rows u) i cap" for clk uuid p g u q q'
    by (rule wp_task_step [OF u task_event_statuses(2)], simp add: not_success, rule submitted)
  show ?thesis unfolding run_task_def
  proof (rule wp_lift_result, rule task_run_raised [OF ext], rule wp_lift_result, rule task_run_raised [OF ext])
    fix p g assume "grant_for env n cap = Inr g"
    show "wp (and_then (if get t ''status'' = Some (JStr ''READY'') then Some (Inr (), w)
               else and_then (put_event H env ''TASK_READY'' [(''task_id'', JStr i), (''capability'', JStr cap)] i w)
                      (\<lambda>_ w. Some (Inr (), w))) (\<lambda>_ w.
     and_then (put_event H env ''TASK_AUTHORIZED''
         [(''task_id'', JStr i), (''capability'', JStr cap), (''grant_id'', JStr (grant_id g)),
          (''expires_at'', JStr (expires_at g)), (''authorization_source'', JStr src)] i w) (\<lambda>_ w.
     and_then (on_runtime (submit H (submit_clock env n) (job_uuid env n) (deterministic_intent i cap p) g
         (Some (''event-task:'' @ i)) (runtime w)) w) (\<lambda>jid w.
     and_then (put_event H env ''TASK_STARTED''
         [(''task_id'', JStr i), (''job_id'', JStr jid), (''capability'', JStr cap)] i w) (\<lambda>_ w.
     and_then (drain fuel H num env n 0 i jid w) (\<lambda>_ w.
     and_then (job_row jid w) (\<lambda>row w. settle_task H env i row w))))))) ?T"
    proof (cases "get t ''status'' = Some (JStr ''READY'')")
      case True
      then show ?thesis using authorized [OF here] by simp
    next
      case False
      have assoc: "and_then (and_then m f) h = and_then m (\<lambda>v s. and_then (f v s) h)" for m :: "('a, 's) run" and f :: "'a \<Rightarrow> 's \<Rightarrow> ('b, 's) run" and h :: "'b \<Rightarrow> 's \<Rightarrow> ('c, 's) run"
        by (auto simp: and_then_def split: option.split prod.split sum.split)
      show ?thesis unfolding if_not_P [OF False] assoc and_then_simps
        by (rule wp_task_step [OF here task_event_statuses(1)], simp add: not_success, rule authorized)
    qed
  qed
qed

section \<open>The pass over the ready tasks\<close>

definition tasks_are :: "entities \<Rightarrow> world \<Rightarrow> bool" where
  "tasks_are d w \<longleftrightarrow> (\<forall>st. replay (log_rows w) = Inr st \<longrightarrow> tasks st = d)"

lemma wp_record_blocker:
  assumes ext: "extends H start modes authorize w u" and k: "tasks_are d u"
    and Q: "\<And>r u'. extends H start modes authorize w u' \<Longrightarrow> tasks_are d u' \<Longrightarrow> runtime u' = runtime u \<Longrightarrow> Q r u'"
  shows "wp (record_blocker_once H env st task reason detail u) Q"
proof (cases "map_of (blockers st) (blocker_id H task reason) \<noteq> None")
  case True
  then show ?thesis using Q [OF ext k] by (simp add: record_blocker_once_def Let_def)
next
  case False
  have inv: "world_inv H u" using ext by (simp add: extends_def)
  then have log: "log_inv H (log_rows u)" by (simp add: world_inv_def)
  have known: "''BLOCKER_RECORDED'' \<in> set event_types" by (simp add: event_types_def)
  show ?thesis unfolding record_blocker_once_def Let_def if_not_P [OF False]
  proof (rule wp_and_then, rule wp_put_event [OF log known])
    fix err show "case Inl err of Inl err \<Rightarrow> Q (Inl err) u | Inr v \<Rightarrow> wp (Some (Inr (), u)) Q" using Q [OF ext k] by simp
  next
    fix e :: event and row
    assume row: "log_inv H (log_rows u @ [row])"
      "appended ''BLOCKER_RECORDED'' [(''blocker_id'', JStr (blocker_id H task reason)), (''task_id'', JStr task), (''reason'', JStr reason),
         (''detail'', JStr detail)] (blocker_id H task reason) row"
    let ?u = "u\<lparr>log_rows := log_rows u @ [row]\<rparr>"
    have ty: "type_of (row_event row) = ''BLOCKER_RECORDED''" using row(2) by (simp add: appended_def)
    then have "allowed H start modes authorize (log_rows u) (runtime u) row" by (simp add: allowed_def)
    from extends_trans [OF ext extends_event [OF inv row(1) this]] have e1: "extends H start modes authorize w ?u" .
    have "tasks_are d ?u" unfolding tasks_are_def
    proof (intro allI impI)
      fix st' assume st': "replay (log_rows ?u) = Inr st'"
      then obtain st0 where st0: "replay (log_rows u) = Inr st0" using replay_prefix [OF row(1) _ log] by auto
      then show "tasks st' = d" using blocker_keeps_tasks [OF row(1) st0 _ ty] st' k by (simp add: tasks_are_def)
    qed
    then show "case Inr e of Inl err \<Rightarrow> Q (Inl err) ?u | Inr v \<Rightarrow> wp (Some (Inr (), ?u)) Q" using Q [OF e1] by simp
  qed
qed

definition can_run :: "engine \<Rightarrow> (string \<times> string) list option \<Rightarrow> bool \<Rightarrow> project_state \<Rightarrow> string \<Rightarrow> bool" where
  "can_run e modes authorize st i \<longleftrightarrow> i \<in> set (derive_ready_tasks st)
     \<and> (\<exists>t cap mode. map_of (tasks st) i = Some t \<and> inspect e modes authorize t = Inr (Runnable cap mode))"

lemma wp_scan:
  assumes "extends H start modes authorize w u" "tasks_are d u" "set ready \<subseteq> set (derive_ready_tasks st)"
    "\<forall>x\<in>set (fst acc). can_run (runtime u) modes authorize st (fst x)"
  shows "wp (scan H env modes authorize source st ready acc u) (\<lambda>r u'. extends H start modes authorize w u' \<and> tasks_are d u'
    \<and> runtime u' = runtime u \<and> (\<forall>c f. r = Inr (c, f) \<longrightarrow> (\<forall>x\<in>set c. can_run (runtime u) modes authorize st (fst x))))"
  using assms
proof (induction ready arbitrary: acc u)
  case Nil
  then show ?case by (cases acc) simp
next
  case (Cons i ready)
  have i: "i \<in> set (derive_ready_tasks st)" using Cons.prems(3) by simp
  show ?case
  proof (cases "map_of (tasks st) i")
    case None
    then show ?thesis using Cons.prems by simp
  next
    case t: (Some t)
    show ?thesis
    proof (cases "inspect (runtime u) modes authorize t")
      case (Inl err)
      then show ?thesis using Cons.prems t by simp
    next
      case (Inr x)
      show ?thesis
      proof (cases x)
        case (Blocked reason detail)
        have "wp (and_then (record_blocker_once H env st i reason detail u) (\<lambda>_ w.
                 scan H env modes authorize source st ready (fst acc, set_key i reason (snd acc)) w))
          (\<lambda>r u'. extends H start modes authorize w u' \<and> tasks_are d u'
            \<and> runtime u' = runtime u \<and> (\<forall>c f. r = Inr (c, f) \<longrightarrow> (\<forall>x\<in>set c. can_run (runtime u) modes authorize st (fst x))))"
        proof (rule wp_and_then, rule wp_record_blocker [OF Cons.prems(1,2)])
          fix r :: "unit result" and u'
          assume u': "extends H start modes authorize w u'" "tasks_are d u'" "runtime u' = runtime u"
          show "case r of Inl err \<Rightarrow> extends H start modes authorize w u' \<and> tasks_are d u' \<and> runtime u' = runtime u
                \<and> (\<forall>c f. Inl err = Inr (c, f) \<longrightarrow> (\<forall>x\<in>set c. can_run (runtime u) modes authorize st (fst x)))
            | Inr v \<Rightarrow> wp (scan H env modes authorize source st ready (fst acc, set_key i reason (snd acc)) u')
                (\<lambda>r u'. extends H start modes authorize w u' \<and> tasks_are d u' \<and> runtime u' = runtime u
                  \<and> (\<forall>c f. r = Inr (c, f) \<longrightarrow> (\<forall>x\<in>set c. can_run (runtime u) modes authorize st (fst x))))"
            using Cons.IH [OF u'(1,2), of "(fst acc, set_key i reason (snd acc))"] Cons.prems(3,4) u' by (cases r) simp_all
        qed
        then show ?thesis using t Inr Blocked by simp
      next
        case (Runnable cap mode)
        have "can_run (runtime u) modes authorize st i" using i t Inr Runnable by (simp add: can_run_def)
        then show ?thesis
          using Cons.IH [OF Cons.prems(1,2), of "(fst acc @ [(i, if authorize then source else ''capability_policy_auto_safe'')], snd acc)"]
            Cons.prems(3,4) t Inr Runnable by auto
      qed
    qed
  qed
qed

section \<open>The loop\<close>

lemma status_after_kept:
  assumes e: "extends H (length (log_rows u)) modes authorize u v" and s: "status_after u j sts" and t: "set sts \<subseteq> set terminal_task_states"
  shows "status_after v j sts"
  unfolding status_after_def
proof (intro allI impI)
  fix st' assume st': "replay (log_rows v) = Inr st'"
  obtain new where new: "log_rows v = log_rows u @ new" and inv: "log_inv H (log_rows v)"
    using e by (auto simp: extends_def world_inv_def)
  then obtain st where st: "replay (log_rows u) = Inr st" using replay_prefix [of H "log_rows u" new] st' log_inv_prefix by metis
  then obtain x where x: "map_of (tasks st) j = Some x" "has_status x sts" using s by (auto simp: status_after_def)
  have "is_busy x" unfolding is_busy_def by (rule has_status_mono [OF x(2)]) (use t in \<open>auto simp: busy_states_def\<close>)
  from extends_keeps_busy [OF e st x(1) this st'] x(2) show "\<exists>t. map_of (tasks st') j = Some t \<and> has_status t sts" by blast
qed

definition report_ok :: "advance_report \<Rightarrow> world \<Rightarrow> bool" where
  "report_ok rep w \<longleftrightarrow> distinct (executed rep) \<and> set (executed rep) = set (completed_tasks rep) \<union> set (failed_tasks rep)
     \<and> (\<forall>i\<in>set (completed_tasks rep). status_after w i [''COMPLETE''])
     \<and> (\<forall>i\<in>set (failed_tasks rep). status_after w i [''FAILED'', ''VERIFICATION_FAILED''])"

lemma report_ok_kept:
  assumes "report_ok rep u" "extends H (length (log_rows u)) modes authorize u v" shows "report_ok rep v"
  using assms(1) status_after_kept [OF assms(2)] unfolding report_ok_def by (simp add: terminal_task_states_def)

lemma report_ok_ready:
  assumes rep: "report_ok rep w" and ok: "world_inv H w" and st: "replay (log_rows w) = Inr st" "i \<in> set (derive_ready_tasks st)"
  shows "i \<notin> set (executed rep)"
proof
  assume "i \<in> set (executed rep)"
  then have "status_after w i [''COMPLETE''] \<or> status_after w i [''FAILED'', ''VERIFICATION_FAILED'']"
    using rep by (auto simp: report_ok_def)
  then obtain t sts where t: "map_of (tasks st) i = Some t" "has_status t sts" "set sts \<subseteq> set busy_states"
    using st(1) by (fastforce simp: status_after_def busy_states_def terminal_task_states_def)
  have "state_ok st" using ok st(1) by (auto simp: world_inv_def intro: replay_ok)
  from ready_not_busy [OF this st(2) t(1)] has_status_mono [OF t(2,3)] show False by (simp add: is_busy_def)
qed

lemma report_ok_note:
  assumes "report_ok rep w" "i \<notin> set (executed rep)" "status_after w i (if ok then [''COMPLETE''] else [''FAILED'', ''VERIFICATION_FAILED''])"
  shows "report_ok (note_task i ok rep) w"
  using assms by (cases ok) (auto simp: report_ok_def note_task_def Let_def)

lemma note_task_length [simp]: "length (executed (note_task i ok rep)) = Suc (length (executed rep))"
  by (simp add: note_task_def Let_def)

definition rounds_post :: "(string \<Rightarrow> string) \<Rightarrow> (string \<times> string) list option \<Rightarrow> bool \<Rightarrow> world \<Rightarrow> nat \<Rightarrow>
    advance_report result \<Rightarrow> world \<Rightarrow> bool" where
  "rounds_post H modes authorize w m r w' \<longleftrightarrow> extends H (length (log_rows w)) modes authorize w w'
     \<and> (\<forall>rep. r = Inr rep \<longrightarrow> report_ok rep w' \<and> length (executed rep) \<le> m)"

locale scheduler =
  fixes pick :: "(string \<times> string) list \<Rightarrow> entities \<Rightarrow> string \<times> string"
  assumes pick_in: "candidates \<noteq> [] \<Longrightarrow> pick candidates all_tasks \<in> set candidates"
begin

lemma rounds_post_raised: "extends H (length (log_rows w)) modes authorize w w' \<Longrightarrow> rounds_post H modes authorize w m (Inl err) w'"
  by (simp add: rounds_post_def)

lemma rounds_post_trans:
  assumes e: "extends H (length (log_rows w)) modes authorize w u" and p: "rounds_post H modes authorize u m r w'" and m: "m \<le> m'"
  shows "rounds_post H modes authorize w m' r w'"
proof -
  have "length (log_rows w) \<le> length (log_rows u)" using e by (auto simp: extends_def)
  then have "extends H (length (log_rows w)) modes authorize u w'" using p extends_start unfolding rounds_post_def by blast
  from extends_trans [OF e this] p m show ?thesis by (auto simp: rounds_post_def)
qed

lemma wp_rounds:
  assumes "world_inv H w" "enough_fuel fuel (runtime w)" "report_ok rep w"
  shows "wp (advance_rounds pick n fuel H num env modes authorize source rep w)
    (rounds_post H modes authorize w (length (executed rep) + n))"
  using assms
proof (induction n arbitrary: rep w)
  case 0
  then show ?case using extends_refl [OF 0(1)] by (simp add: rounds_post_def)
next
  case (Suc n)
  let ?s = "length (log_rows w)"
  let ?post = "rounds_post H modes authorize w (length (executed rep) + Suc n)"
  have ext: "extends H ?s modes authorize w w" by (rule extends_refl [OF Suc.prems(1)])
  show ?case
  proof (cases "replay (log_rows w)")
    case (Inl err)
    then show ?thesis using rounds_post_raised [OF ext] by (simp add: read_state_def)
  next
    case (Inr st)
    have k: "tasks_are (tasks st) w" using Inr by (simp add: tasks_are_def)
    have one: "wp (let rep = rep\<lparr>blocked := dict_update (blocked rep) found\<rparr>
       in if candidates = [] then Some (Inr rep, u)
          else (case pick candidates (tasks st) of
            (task, src) \<Rightarrow>
              and_then (read_state u) (\<lambda>st w.
                case map_of (tasks st) task of
                  None \<Rightarrow> Some (Inl (KeyError task), w)
                | Some t \<Rightarrow>
                    (case get t ''capability'' of
                       Some (JStr cap) \<Rightarrow>
                         and_then (run_task fuel H num env (length (executed rep)) task cap t src w) (\<lambda>(ok, _) w.
                           advance_rounds pick n fuel H num env modes authorize source (note_task task ok rep) w)
                     | _ \<Rightarrow> Some (Inl (KeyError ''capability''), w))))) ?post"
      if u: "extends H ?s modes authorize w u" "tasks_are (tasks st) u" "runtime u = runtime w"
        and c: "\<forall>x\<in>set candidates. can_run (runtime w) modes authorize st (fst x)" for candidates found u
    proof (cases "candidates = []")
      case True
      have "report_ok rep u" by (rule report_ok_kept [OF Suc.prems(3) u(1)])
      then show ?thesis using True u(1) by (simp add: rounds_post_def report_ok_def)
    next
      case False
      obtain i src where p: "pick candidates (tasks st) = (i, src)" by (rule prod.exhaust)
      then have "can_run (runtime w) modes authorize st i" using c pick_in [OF False, of "tasks st"] by force
      then obtain t cap mode where t: "i \<in> set (derive_ready_tasks st)" "map_of (tasks st) i = Some t"
        "inspect (runtime w) modes authorize t = Inr (Runnable cap mode)" by (auto simp: can_run_def)
      have cap: "get t ''capability'' = Some (JStr cap)"
        using t(3) by (auto simp: inspect_def split: option.splits json.splits if_splits sum.splits py_error.splits)
      let ?rep = "rep\<lparr>blocked := dict_update (blocked rep) found\<rparr>"
      have inv: "world_inv H u" using u(1) by (simp add: extends_def)
      show ?thesis
      proof (cases "replay (log_rows u)")
        case (Inl err)
        then show ?thesis using False p rounds_post_raised [OF u(1)] by (simp add: read_state_def Let_def)
      next
        case st2: (Inr st2)
        have d: "tasks st2 = tasks st" using u(2) st2 by (simp add: tasks_are_def)
        then have r: "i \<in> set (derive_ready_tasks st2)" using t(1) by (simp add: derive_ready_tasks_def is_ready_def)
        have rep: "report_ok ?rep u" using report_ok_kept [OF Suc.prems(3) u(1)] by (simp add: report_ok_def)
        have run: "wp (run_task fuel H num env (length (executed rep)) i cap t src u)
            (task_run H (length (log_rows u)) modes authorize u i)"
          by (rule wp_run_task [OF inv _ st2 r]) (use Suc.prems(2) t d u(3) in simp_all)
        have "wp (and_then (run_task fuel H num env (length (executed rep)) i cap t src u) (\<lambda>(ok, _) w.
            advance_rounds pick n fuel H num env modes authorize source (note_task i ok ?rep) w)) ?post"
        proof (rule wp_and_then, rule wp_mono [OF run])
          fix res v assume v: "task_run H (length (log_rows u)) modes authorize u i res v"
          then have uv: "extends H (length (log_rows u)) modes authorize u v" by (simp add: task_run_def)
          have "?s \<le> length (log_rows u)" using u(1) by (auto simp: extends_def)
          from extends_trans [OF u(1) extends_start [OF uv this]] have wv: "extends H ?s modes authorize w v" .
          show "case res of Inl err \<Rightarrow> ?post (Inl err) v
            | Inr x \<Rightarrow> wp ((case x of (ok, _) \<Rightarrow> \<lambda>w. advance_rounds pick n fuel H num env modes authorize source (note_task i ok ?rep) w) v) ?post"
          proof (cases res)
            case (Inl err)
            then show ?thesis using rounds_post_raised [OF wv] by simp
          next
            case (Inr x)
            obtain ok z where x: "x = (ok, z)" by (rule prod.exhaust)
            have "status_after v i (if ok then [''COMPLETE''] else [''FAILED'', ''VERIFICATION_FAILED''])"
              using v Inr x by (simp add: task_run_def)
            then have "report_ok (note_task i ok ?rep) v"
              by (rule report_ok_note [OF report_ok_kept [OF rep uv] report_ok_ready [OF rep inv st2 r]])
            moreover have "world_inv H v" "enough_fuel fuel (runtime v)" using wv Suc.prems(2) by (auto simp: extends_def)
            ultimately have "wp (advance_rounds pick n fuel H num env modes authorize source (note_task i ok ?rep) v)
              (rounds_post H modes authorize v (length (executed (note_task i ok ?rep)) + n))" by (intro Suc.IH)
            then show ?thesis unfolding Inr x using rounds_post_trans [OF wv] by (auto elim: wp_mono)
          qed
        qed
        then show ?thesis using False p st2 d t(2) cap by (simp add: read_state_def Let_def)
      qed
    qed
    have "wp (and_then (scan H env modes authorize source st (derive_ready_tasks st) ([], []) w) (\<lambda>(candidates, found) w.
       let rep = rep\<lparr>blocked := dict_update (blocked rep) found\<rparr>
       in if candidates = [] then Some (Inr rep, w)
          else (case pick candidates (tasks st) of
            (task, src) \<Rightarrow>
              and_then (read_state w) (\<lambda>st w.
                case map_of (tasks st) task of
                  None \<Rightarrow> Some (Inl (KeyError task), w)
                | Some t \<Rightarrow>
                    (case get t ''capability'' of
                       Some (JStr cap) \<Rightarrow>
                         and_then (run_task fuel H num env (length (executed rep)) task cap t src w) (\<lambda>(ok, _) w.
                           advance_rounds pick n fuel H num env modes authorize source (note_task task ok rep) w)
                     | _ \<Rightarrow> Some (Inl (KeyError ''capability''), w)))))) ?post"
    proof (rule wp_and_then, rule wp_mono [OF wp_scan [OF ext k order_refl]], simp, goal_cases)
      case (1 r u)
      show ?case
      proof (cases r)
        case (Inl err)
        then show ?thesis using 1 rounds_post_raised by simp
      next
        case (Inr x)
        obtain a b where x: "x = (a, b)" by (rule prod.exhaust)
        have "\<forall>x\<in>set a. can_run (runtime w) modes authorize st (fst x)" using 1 Inr x by simp
        with 1 show ?thesis unfolding Inr x sum.case prod.case by (intro one) blast+
      qed
    qed
    then show ?thesis using Inr by (simp add: read_state_def)
  qed
qed

end

interpretation first: scheduler first_choice
  by unfold_locales (simp add: first_choice_def)

lemma ranked_all:
  "reconcile rnd (map (\<lambda>(i, src). candidate_of i (task_of d i)) candidates) new_improvement
    = best_by_id rnd (map (\<lambda>(i, src). candidate_of i (task_of d i)) candidates)"
proof -
  let ?cs = "map (\<lambda>(i, src). candidate_of i (task_of d i)) candidates"
  have "set (best_by_id rnd ?cs) \<subseteq> set ?cs" using best_by_id_facts [of rnd ?cs] by blast
  moreover have "runnable new_improvement c" if "c \<in> set ?cs" for c
    using that by (auto simp: runnable_def new_improvement_def candidate_of_def)
  ultimately show ?thesis unfolding reconcile_def by (intro filter_True) blast
qed

interpretation ranked: scheduler "ranked_choice rnd" for rnd
proof
  fix candidates :: "(string \<times> string) list" and d :: entities
  assume ne: "candidates \<noteq> []"
  let ?cs = "map (\<lambda>(i, src). candidate_of i (task_of d i)) candidates"
  have ids: "candidate_id ` set (best_by_id rnd ?cs) = candidate_id ` set ?cs" using best_by_id_facts [of rnd ?cs] by blast
  have r: "set (rank rnd ?cs new_improvement) = (\<lambda>c. (c, score rnd c)) ` set (best_by_id rnd ?cs)"
    by (simp only: rank_set ranked_all)
  have "rank rnd ?cs new_improvement \<noteq> []"
  proof
    assume "rank rnd ?cs new_improvement = []"
    then have "set (best_by_id rnd ?cs) = {}" using r by simp
    then show False using ids ne by simp
  qed
  then obtain c sc xs where x: "rank rnd ?cs new_improvement = (c, sc) # xs" by (metis list.exhaust surj_pair)
  then have "c \<in> set (best_by_id rnd ?cs)" using r by force
  then have "candidate_id c \<in> fst ` set candidates" using ids by (force simp: candidate_of_def)
  then obtain src where "map_of candidates (candidate_id c) = Some src" by (metis map_of_eq_None_iff not_Some_eq)
  then show "ranked_choice rnd candidates d \<in> set candidates"
    by (simp add: ranked_choice_def rank_runnable_def x map_of_SomeD)
qed

definition final_post :: "(string \<Rightarrow> string) \<Rightarrow> (string \<times> string) list option \<Rightarrow> bool \<Rightarrow> int \<Rightarrow> world \<Rightarrow>
    advance_report result \<Rightarrow> world \<Rightarrow> bool" where
  "final_post H modes authorize m w r w' \<longleftrightarrow> extends H (length (log_rows w)) modes authorize w w'
     \<and> (\<forall>rep. r = Inr rep \<longrightarrow> report_ok rep w' \<and> int (length (executed rep)) \<le> m
          \<and> (\<exists>st. replay (log_rows w') = Inr st \<and> remaining_ready rep = derive_ready_tasks st
               \<and> stop_reason rep = reason_to_stop m st rep))"

lemma wp_closing:
  assumes "rounds_post H modes authorize w (nat m) r u" "1 \<le> m"
  shows "wp (and_then (Some (r, u)) (\<lambda>rep w. closing_report m rep w)) (final_post H modes authorize m w)"
proof (cases r)
  case (Inl err)
  then show ?thesis using assms by (simp add: rounds_post_def final_post_def)
next
  case (Inr rep)
  show ?thesis
  proof (cases "replay (log_rows u)")
    case (Inl err)
    then show ?thesis using assms Inr by (simp add: rounds_post_def final_post_def closing_report_def read_state_def)
  next
    case st: (Inr st)
    have "int (length (executed rep)) \<le> m" using assms Inr by (simp add: rounds_post_def nat_le_iff le_nat_iff)
    then show ?thesis using assms Inr st
      by (auto simp: rounds_post_def final_post_def closing_report_def read_state_def Let_def report_ok_def reason_to_stop_def
          blocked_reasons_def)
  qed
qed

lemma wp_rounds_closed:
  assumes "scheduler pick" "world_inv H w" "enough_fuel fuel (runtime w)" "1 \<le> m"
  shows "wp (and_then (advance_rounds pick (nat m) fuel H num env modes authorize source empty_report w) (\<lambda>rep w. closing_report m rep w))
    (final_post H modes authorize m w)"
proof -
  have "report_ok empty_report w" by (simp add: report_ok_def empty_report_def)
  from wp_elim [OF scheduler.wp_rounds [OF assms(1-3) this, of "nat m" num env modes authorize source]]
  obtain r u where "advance_rounds pick (nat m) fuel H num env modes authorize source empty_report w = Some (r, u)"
    "rounds_post H modes authorize w (nat m) r u" by (auto simp: empty_report_def)
  with wp_closing [OF this(2) assms(4)] show ?thesis by simp
qed

text \<open>Both loops.\<close>

definition both_loops :: "(rat \<Rightarrow> rat) \<Rightarrow> nat \<Rightarrow> (string \<Rightarrow> string) \<Rightarrow> (rat \<Rightarrow> json) \<Rightarrow> surroundings \<Rightarrow> bool \<Rightarrow> int \<Rightarrow>
    (string \<times> string) list option \<Rightarrow> world \<Rightarrow> (advance_report, world) run list" where
  "both_loops rnd fuel H num env authorize m modes w =
     [advance_until_idle fuel H num env authorize m modes w, advance_ranked_until_idle rnd fuel H num env authorize m modes w]"

lemma loops_meet:
  assumes inv: "world_inv H w" and fuel: "enough_fuel fuel (runtime w)"
    and out: "out \<in> set (both_loops rnd fuel H num env authorize m modes w)"
  shows "wp out (final_post H modes authorize m w)"
proof -
  have raised: "wp (Some (Inl err, w)) (final_post H modes authorize m w)" for err
    using extends_refl [OF inv] by (simp add: final_post_def)
  have m: "1 \<le> m" if "\<not> m < 1" using that by simp
  note closed = wp_rounds_closed [OF _ inv fuel m]
  show ?thesis
    using out closed [OF first.scheduler_axioms] closed [OF ranked.scheduler_axioms] raised
    by (auto simp: both_loops_def advance_until_idle_def advance_ranked_until_idle_def split: sum.split)
qed

section \<open>Properties\<close>

lemma world_reached:
  assumes "log_rows w = run_all (run_log H) ops []" "runtime w = run_all (run_pipe H num) jobs_before (empty_engine dir)"
  shows "world_inv H w"
  unfolding world_inv_def assms using log.reached_inv [of H ops] pipe.reached_inv [of H num jobs_before dir] by simp

lemma inspect_Runnable:
  assumes "inspect e modes authorize t = Inr (Runnable cap mode)"
  shows "\<exists>spec. get t ''capability'' = Some (JStr cap) \<and> capabilities e cap = Some spec \<and> verifier_independent spec
    \<and> authorization_mode cap modes t = Inr mode \<and> (mode = ''AUTO_SAFE'' \<or> authorize \<and> mode = ''EXPLICIT'')"
proof -
  have m: "m \<in> set valid_modes" if "authorization_mode cap modes t = Inr m" for m
    using that by (auto simp: authorization_mode_def Let_def valid_modes_def split: if_splits)
  show ?thesis using assms m
    by (fastforce simp: inspect_def valid_modes_def split: option.splits json.splits if_splits sum.splits py_error.splits)
qed

text \<open>
  C27. The loop changes tasks only with authority, and reports success only on verified evidence. Whatever
  was logged and run before, each event either loop appends is the record of a blocker, or concerns a task
  that was ready at some point of the call, whose capability is registered with an independent verifier
  and whose mode is automatic, or explicit with the caller's authorization; never one for the effect
  protocol. When the event reports a verification or completion, the engine has a verified job of that
  task, with the digest of the intent of the task and its capability.
\<close>

theorem advance_acts_with_authority:
  fixes w k w'
  defines "e \<equiv> row_event (log_rows w' ! k)"
  assumes w: "log_rows w = run_all (run_log H) ops []" "runtime w = run_all (run_pipe H num) jobs_before (empty_engine dir)"
    and fuel: "enough_fuel fuel (runtime w)"
    and out: "Some (r, w') \<in> set (both_loops rnd fuel H num env authorize m modes w)"
    and k: "length (log_rows w) \<le> k" "k < length (log_rows w')"
  shows "prefix (log_rows w) (log_rows w') \<and> (type_of e = ''BLOCKER_RECORDED'' \<or> (\<exists>i base st t cap spec mode.
      type_of e \<in> set task_events \<and> entity_id e = Some i
      \<and> prefix (log_rows w) base \<and> prefix base (take k (log_rows w'))
      \<and> replay base = Inr st \<and> i \<in> set (derive_ready_tasks st) \<and> map_of (tasks st) i = Some t
      \<and> get t ''capability'' = Some (JStr cap) \<and> capabilities (runtime w) cap = Some spec \<and> verifier_independent spec
      \<and> authorization_mode cap modes t = Inr mode \<and> (mode = ''AUTO_SAFE'' \<or> authorize \<and> mode = ''EXPLICIT'')
      \<and> (type_of e \<in> set success_events \<longrightarrow>
           (\<exists>j\<in>set (jobs (store (runtime w'))). state j = ''verified'' \<and> task_job H i cap j))))"
proof -
  have "final_post H modes authorize m w r w'"
    using loops_meet [OF world_reached [OF w] fuel out] by simp
  then have ext: "extends H (length (log_rows w)) modes authorize w w'" by (simp add: final_post_def)
  then obtain new where new: "log_rows w' = log_rows w @ new"
    "\<forall>k<length new. allowed H (length (log_rows w)) modes authorize (log_rows w @ take k new) (runtime w') (new ! k)"
    unfolding extends_def by blast
  define n where "n = k - length (log_rows w)"
  have n: "n < length new" "log_rows w' ! k = new ! n" "take k (log_rows w') = log_rows w @ take n new"
    using k by (simp_all add: n_def new(1) nth_append)
  have a: "allowed H (length (log_rows w)) modes authorize (take k (log_rows w')) (runtime w') (log_rows w' ! k)"
    using new(2) n by simp
  have caps: "capabilities (runtime w') = capabilities (runtime w)" using ext by (simp add: extends_def)
  show ?thesis
  proof (intro conjI)
    show "prefix (log_rows w) (log_rows w')" by (simp add: new(1))
  next
    from a consider "type_of e = ''BLOCKER_RECORDED''" | i cap where "type_of e \<in> set task_events" "entity_id e = Some i"
      "granted (length (log_rows w)) (runtime w') modes authorize (take k (log_rows w')) i cap"
      "type_of e \<in> set success_events \<longrightarrow> (\<exists>j\<in>set (jobs (store (runtime w'))). state j = ''verified'' \<and> task_job H i cap j)"
      unfolding allowed_def e_def by blast
    then show "type_of e = ''BLOCKER_RECORDED'' \<or> (\<exists>i base st t cap spec mode.
      type_of e \<in> set task_events \<and> entity_id e = Some i
      \<and> prefix (log_rows w) base \<and> prefix base (take k (log_rows w'))
      \<and> replay base = Inr st \<and> i \<in> set (derive_ready_tasks st) \<and> map_of (tasks st) i = Some t
      \<and> get t ''capability'' = Some (JStr cap) \<and> capabilities (runtime w) cap = Some spec \<and> verifier_independent spec
      \<and> authorization_mode cap modes t = Inr mode \<and> (mode = ''AUTO_SAFE'' \<or> authorize \<and> mode = ''EXPLICIT'')
      \<and> (type_of e \<in> set success_events \<longrightarrow>
           (\<exists>j\<in>set (jobs (store (runtime w'))). state j = ''verified'' \<and> task_job H i cap j)))"
    proof cases
      case (2 i cap)
      obtain base st t mode where b: "prefix base (take k (log_rows w'))" "length (log_rows w) \<le> length base" "replay base = Inr st"
        "i \<in> set (derive_ready_tasks st)" "map_of (tasks st) i = Some t" "inspect (runtime w') modes authorize t = Inr (Runnable cap mode)"
        using 2(3) unfolding granted_def by blast
      have p: "prefix (log_rows w) base" by (rule prefix_length_prefix [OF _ b(1,2)]) (simp add: n(3))
      from inspect_Runnable [OF b(6)] show ?thesis unfolding caps using 2 b p by blast
    qed blast
  qed
qed

text \<open>
  C28. Both loops come to rest, with as much fuel as no job may use starts. A call that does not raise
  reports at most \<open>max_tasks\<close> tasks, each executed once; those it calls completed are complete in the
  log, those it calls failed have failed there; it lists the tasks that are ready at the end, and says
  \<open>COMPLETE\<close> exactly when none is ready and every task has come to an end.
\<close>

theorem advance_comes_to_rest:
  assumes w: "log_rows w = run_all (run_log H) ops []" "runtime w = run_all (run_pipe H num) jobs_before (empty_engine dir)"
    and fuel: "enough_fuel fuel (runtime w)"
    and out: "out \<in> set (both_loops rnd fuel H num env authorize m modes w)"
  shows "\<exists>r w'. out = Some (r, w') \<and> (\<forall>rep. r = Inr rep \<longrightarrow> distinct (executed rep) \<and> int (length (executed rep)) \<le> m
    \<and> set (executed rep) = set (completed_tasks rep) \<union> set (failed_tasks rep)
    \<and> (\<exists>st. replay (log_rows w') = Inr st \<and> remaining_ready rep = derive_ready_tasks st
         \<and> (\<forall>i\<in>set (completed_tasks rep). \<exists>t. map_of (tasks st) i = Some t \<and> has_status t [''COMPLETE''])
         \<and> (\<forall>i\<in>set (failed_tasks rep). \<exists>t. map_of (tasks st) i = Some t \<and> has_status t [''FAILED'', ''VERIFICATION_FAILED''])
         \<and> (stop_reason rep = ''COMPLETE'' \<longleftrightarrow> derive_ready_tasks st = [] \<and> list_all (\<lambda>(i, t). has_status t terminal_task_states) (tasks st))))"
proof -
  obtain r w' where o: "out = Some (r, w')" "final_post H modes authorize m w r w'"
    using wp_elim [OF loops_meet [OF world_reached [OF w] fuel out]] by blast
  have c: "reason_to_stop m st rep = ''COMPLETE'' \<longleftrightarrow> remaining_ready rep = []
      \<and> list_all (\<lambda>(i, t). has_status t terminal_task_states) (tasks st)" for st rep
    by (auto simp: reason_to_stop_def Let_def list_ex_iff list_all_iff)
  show ?thesis using o by (auto simp: final_post_def report_ok_def status_after_def c)
qed

text \<open>
  C29. A task whose run was interrupted is left alone for good. When the process dies or the engine raises
  after the task was authorized and before it was settled, its status is not one that a loop takes up: no
  later call changes it, whatever its authorization, and a call that finds nothing ready reports
  \<open>DEPENDENCY_BLOCKED\<close>.
\<close>

theorem interrupted_tasks_are_left:
  assumes w: "log_rows w = run_all (run_log H) ops []" "runtime w = run_all (run_pipe H num) jobs_before (empty_engine dir)"
    and fuel: "enough_fuel fuel (runtime w)"
    and out: "Some (r, w') \<in> set (both_loops rnd fuel H num env authorize m modes w)"
    and t: "replay (log_rows w) = Inr st" "map_of (tasks st) i = Some t" "has_status t [''AUTHORIZED'', ''RUNNING'', ''EXECUTED'', ''VERIFIED'']"
    and st': "replay (log_rows w') = Inr st'"
  shows "map_of (tasks st') i = Some t
    \<and> (\<forall>rep. r = Inr rep \<longrightarrow> i \<notin> set (executed rep) \<and> (remaining_ready rep = [] \<longrightarrow> stop_reason rep = ''DEPENDENCY_BLOCKED''))"
proof -
  have p: "final_post H modes authorize m w r w'"
    using loops_meet [OF world_reached [OF w] fuel out] by simp
  then have ext: "extends H (length (log_rows w)) modes authorize w w'" by (simp add: final_post_def)
  have "is_busy t" unfolding is_busy_def by (rule has_status_mono [OF t(3)]) (auto simp: busy_states_def)
  from extends_keeps_busy [OF ext t(1,2) this st'] have kept: "map_of (tasks st') i = Some t" .
  have n: "\<not> has_status t terminal_task_states" using t(3)
    by (auto simp: has_status_def terminal_task_states_def split: option.splits json.splits)
  have "i \<notin> set (executed rep)" if r: "r = Inr rep" for rep
  proof
    assume "i \<in> set (executed rep)"
    then obtain u sts where "map_of (tasks st') i = Some u" "has_status u sts" "set sts \<subseteq> set terminal_task_states"
      using p r st' by (fastforce simp: final_post_def report_ok_def status_after_def terminal_task_states_def)
    then show False using kept n has_status_mono by auto
  qed
  moreover have "stop_reason rep = ''DEPENDENCY_BLOCKED''" if r: "r = Inr rep" "remaining_ready rep = []" for rep
  proof -
    have "list_ex (\<lambda>(i, t). \<not> has_status t terminal_task_states) (tasks st')"
      using map_of_SomeD [OF kept] n by (auto simp: list_ex_iff)
    moreover have "stop_reason rep = reason_to_stop m st' rep" using p r(1) st' by (auto simp: final_post_def)
    ultimately show ?thesis using r(2) by (simp add: reason_to_stop_def)
  qed
  ultimately show ?thesis using kept by blast
qed

section \<open>A call\<close>

text \<open>
  A ready task of the echo capability, whose grant is over before the job is submitted: the call records
  the task as ready and authorized and then raises. The hash is the identity, which tells all events of a
  log apart: the text of each contains the text of the one before it.
\<close>

lemma quote_longer: "length s < length (quote ascii s)"
proof -
  have "length s \<le> length (concat (map (escape ascii) s))"
  proof (induction s)
    case (Cons c s)
    have "1 \<le> length (escape ascii c)" by (simp add: escape_def Let_def)
    then show ?case using Cons by simp
  qed simp
  then show ?thesis by (simp add: quote_def)
qed

lemma join_longer: "x \<in> set xs \<Longrightarrow> length x \<le> length (join sep xs)"
  by (induction sep xs rule: join.induct) auto

lemma member_longer: "(k, JStr s) \<in> set d \<Longrightarrow> length s < length (dumps compact (JObj d))"
proof -
  assume m: "(k, JStr s) \<in> set d"
  let ?ms = "map (member_text compact) (map (map_prod id (render compact)) (sort_key fst (map (map_prod id sort_keys) d)))"
  have "(k, JStr s) \<in> set (sort_key fst (map (map_prod id sort_keys) d))" using m by force
  then have "member_text compact (map_prod id (render compact) (k, JStr s)) \<in> set ?ms"
    unfolding set_map by (intro imageI)
  then have "member_text compact (k, quote (fst compact) s) \<in> set ?ms" by simp
  then have "length (member_text compact (k, quote (fst compact) s)) \<le> length (join (fst (snd compact)) ?ms)" by (rule join_longer)
  then show ?thesis using quote_longer [of s "fst compact"] by (simp add: dumps_def member_text_def)
qed

lemma event_text_longer: "length (prev_hash e) < length (event_text e)"
  unfolding event_text_def event_body_def by (rule member_longer [where k = "''prev_hash''"]) simp

lemma chain_lengths:
  "chain_from id event_text prev_hash event_hash p es \<Longrightarrow> e \<in> set es \<Longrightarrow> length (event_hash e) \<le> length (tip event_hash p es)"
proof (induction es rule: rev_induct)
  case (snoc x es)
  have "length (tip event_hash p es) < length (event_hash x)"
    using snoc.prems(1) event_text_longer [of x] by (simp add: chain_from_snoc)
  then show ?case using snoc by (auto simp: chain_from_snoc)
qed simp

text \<open>With a new identifier, \<open>append\<close> succeeds.\<close>

lemma append_id:
  assumes inv: "log_inv id rows" and ty: "ty \<in> set event_types" and new: "u \<noteq> []" "\<forall>r\<in>set rows. event_id (row_event r) \<noteq> u"
  shows "\<exists>e row. append_event id u t ty (Some (JObj p)) (Some x) None None rows = (Inr e, rows @ [row])
    \<and> appended ty p x row \<and> event_id (row_event row) = u \<and> log_inv id (rows @ [row])"
proof -
  obtain d where d: "sort_keys (JObj p) = JObj d" by simp
  have h: "event_hash (row_event r) \<noteq> event_text e" if "r \<in> set rows" "prev_hash e = tip event_hash genesis (map row_event rows)" for r e
  proof -
    have "length (event_hash (row_event r)) \<le> length (prev_hash e)"
      using inv that unfolding log_inv_def by (auto intro!: chain_lengths)
    then show ?thesis using event_text_longer [of e] by auto
  qed
  define e where "e = \<lparr>seq = int (length rows) + 1, event_id = u, ts = t, type_of = ty, entity_id = Some x, payload = d,
    prev_hash = tip event_hash genesis (map row_event rows), event_hash = []\<rparr>"
  let ?row = "\<lparr>row_event = e\<lparr>event_hash := event_text e\<rparr>, row_payload = JObj d, schema_version = 1\<rparr>"
  have "append_event id u t ty (Some (JObj p)) (Some x) None None rows = (Inr (e\<lparr>event_hash := event_text e\<rparr>), rows @ [?row])"
    using ty new d h [of _ e] by (auto simp: append_event_def Let_def or_else_def canonical_sha256_def e_def tip_def last_map
        simp flip: event_text_def)
  moreover from this have "log_inv id (rows @ [?row])"
    using append_cases [OF inv, of u t ty "Some (JObj p)" "Some x" None None] by simp
  ultimately show ?thesis using d by (auto simp: appended_def e_def)
qed

definition demo_log :: "log_op list" where
  "demo_log = [Append ''a'' ''t'' ''TASK_CREATED'' (Some (JObj [(''capability'', JStr ''echo'')])) (Some ''x'') None None]"

definition demo_world :: "log_op list \<Rightarrow> world" where
  "demo_world ops = \<lparr>log_rows = run_all (run_log id) ops [], runtime = demo_registered id\<rparr>"

definition demo_task :: "string \<Rightarrow> json_object" where
  "demo_task status = [(''capability'', JStr ''echo''), (''status'', JStr status), (''dependencies'', JArr [])]"

definition demo_env :: surroundings where
  "demo_env = \<lparr>log_uuid = (\<lambda>n. replicate (Suc n) (CHR ''u'')), log_stamp = (\<lambda>n. ''t''), grant_uuid = (\<lambda>i. ''g''), grant_clock = (\<lambda>i. 0),
     submit_clock = (\<lambda>i n. 1000000000000), job_uuid = (\<lambda>i. ''j''), run_clock = (\<lambda>i r n. 0), run_note_of = (\<lambda>i r. demo_note),
     run_alarm = (\<lambda>i r. False), run_elapsed = (\<lambda>i r. 1)\<rparr>"

lemma demo_world_reached: "log_rows (demo_world ops) = run_all (run_log id) ops []"
  "runtime (demo_world ops) = run_all (run_pipe id num) [P_Register 0 demo_spec] (empty_engine ''d'')"
  by (simp_all add: demo_world_def demo_registered_def)

lemma demo_fuel: "enough_fuel 4 (runtime (demo_world ops))"
  by (simp add: enough_fuel_def demo_world_def demo_capabilities) (simp add: empty_engine_def demo_spec_def)

lemma demo_replay: "\<exists>row st. log_rows (demo_world demo_log) = [row] \<and> event_id (row_event row) = ''a'' \<and> replay [row] = Inr st
    \<and> tasks st = [(''x'', demo_task ''DISCOVERED'')]"
  by (simp add: demo_world_def demo_log_def append_event_def event_types_def or_else_def replay_def row_to_event_def rebuild_state_def
        reduce_event_def initial_state_def apply_event_def with_entity_def entity_of_def demo_task_def Let_def)

lemma put_id:
  assumes "log_inv id (log_rows w)" "ty \<in> set event_types"
    and "\<forall>r\<in>set (log_rows w). event_id (row_event r) \<noteq> replicate (Suc (length (log_rows w))) (CHR ''u'')"
  shows "\<exists>e row. put_event id demo_env ty p x w = Some (Inr e, w\<lparr>log_rows := log_rows w @ [row]\<rparr>)
    \<and> event_id (row_event row) = replicate (Suc (length (log_rows w))) (CHR ''u'') \<and> log_inv id (log_rows w @ [row])"
  using append_id [OF assms(1,2) _ assms(3), of "''t''" p x]
  by (auto simp: put_event_def Let_def demo_env_def simp del: replicate_Suc)

lemma demo_denied: "submit id (\<lambda>n. 1000000000000) ''j'' (deterministic_intent i ''echo'' p)
    \<lparr>grant_id = g, granted_capability = ''echo'', expires_at = isoformat 600000000\<rparr> k e
  = (Inl (PermissionError ''grant does not authorize requested capability''),
     log_audit id 1000000000000 ''authorization_denied'' (intent_refs (deterministic_intent i ''echo'' p)) e)"
  using fromisoformat_isoformat [of 600000000]
  by (simp add: submit_def deterministic_intent_def permits_def instant_def max_instant_def usec_per_day_def)

lemma demo_inspect: "inspect (demo_registered id) None True (demo_task status) = Inr (Runnable ''echo'' ''EXPLICIT'')"
  by (simp add: inspect_def demo_task_def get_def demo_capabilities authorization_mode_def valid_modes_def task_payload_def) (simp add: demo_spec_def)

lemma demo_call:
  "\<exists>r w'. advance_until_idle 4 id num demo_env True 1 None (demo_world demo_log) = Some (r, w') \<and> 1 < length (log_rows w')"
proof -
  let ?w = "demo_world demo_log"
  obtain row st where row: "log_rows ?w = [row]" "event_id (row_event row) = ''a''" and st: "replay [row] = Inr st"
    "tasks st = [(''x'', demo_task ''DISCOVERED'')]" using demo_replay by blast
  have inv: "log_inv id [row]" using log.reached_inv [of id demo_log] row(1) demo_world_reached(1) [of demo_log] by simp
  have ready: "derive_ready_tasks st = [''x'']"
    by (simp add: derive_ready_tasks_def st(2) is_ready_def demo_task_def get_def has_status_def busy_states_def terminal_task_states_def
        dependencies_of_def)
  have rt: "runtime ?w = demo_registered id" by (simp add: demo_world_def)
  obtain e2 row2 where p2: "put_event id demo_env ''TASK_READY'' [(''task_id'', JStr ''x''), (''capability'', JStr ''echo'')] ''x'' ?w
      = Some (Inr e2, ?w\<lparr>log_rows := [row, row2]\<rparr>)" "event_id (row_event row2) = ''uu''" "log_inv id [row, row2]"
    using put_id [of ?w "''TASK_READY''" "[(''task_id'', JStr ''x''), (''capability'', JStr ''echo'')]" "''x''"] inv row
    by (auto simp: event_types_def)
  let ?p = "[(''task_id'', JStr ''x''), (''capability'', JStr ''echo''), (''grant_id'', JStr ''g''),
    (''expires_at'', JStr (isoformat 600000000)), (''authorization_source'', JStr ''explicit_advance_invocation'')]"
  obtain e3 row3 where p3: "put_event id demo_env ''TASK_AUTHORIZED'' ?p ''x'' (?w\<lparr>log_rows := [row, row2]\<rparr>)
      = Some (Inr e3, ?w\<lparr>log_rows := [row, row2, row3]\<rparr>)"
    using put_id [of "?w\<lparr>log_rows := [row, row2]\<rparr>" "''TASK_AUTHORIZED''" ?p "''x''"] p2(2,3) row
    by (auto simp: event_types_def)
  have g: "grant_for demo_env 0 ''echo'' = Inr \<lparr>grant_id = ''g'', granted_capability = ''echo'', expires_at = isoformat 600000000\<rparr>"
    by (simp add: grant_for_def demo_env_def max_instant_def usec_per_day_def)
  have t: "task_payload (demo_task ''DISCOVERED'') = Inr []" "get (demo_task ''DISCOVERED'') ''status'' \<noteq> Some (JStr ''READY'')"
    "get (demo_task ''DISCOVERED'') ''capability'' = Some (JStr ''echo'')"
    by (simp_all add: task_payload_def demo_task_def get_def)
  have "verify_chain id [row]" by (rule log_verified [OF inv])
  have env: "submit_clock demo_env 0 = (\<lambda>n. 1000000000000)" "job_uuid demo_env 0 = ''j''" by (simp_all add: demo_env_def)
  have run: "\<exists>r w'. run_task 4 id num demo_env 0 ''x'' ''echo'' (demo_task ''DISCOVERED'') ''explicit_advance_invocation'' ?w
      = Some (Inl r, w') \<and> log_rows w' = [row, row2, row3]"
    by (simp add: run_task_def t g lift_result_def p2 p3 on_runtime_def demo_denied env)
  then obtain r w' where r: "run_task 4 id num demo_env 0 ''x'' ''echo'' (demo_task ''DISCOVERED'') ''explicit_advance_invocation'' ?w
      = Some (Inl r, w')" "log_rows w' = [row, row2, row3]" by blast
  have "advance_until_idle 4 id num demo_env True 1 None ?w = Some (Inl r, w')"
    by (simp add: advance_until_idle_def row log_verified [OF inv] read_state_def st ready rt demo_inspect first_choice_def t r
        empty_report_def Let_def)
  then show ?thesis using r(2) by auto
qed

definition stuck_log :: "log_op list" where
  "stuck_log = demo_log @ [Append ''b'' ''t'' ''TASK_AUTHORIZED'' (Some (JObj [])) (Some ''x'') None None]"

lemma stuck_replay: "\<exists>st. replay (log_rows (demo_world stuck_log)) = Inr st \<and> tasks st = [(''x'', demo_task ''AUTHORIZED'')]"
proof -
  obtain row st where row: "log_rows (demo_world demo_log) = [row]" "event_id (row_event row) = ''a''" and st: "replay [row] = Inr st"
    "tasks st = [(''x'', demo_task ''DISCOVERED'')]" using demo_replay by blast
  have inv: "log_inv id [row]" using log.reached_inv [of id demo_log] row(1) demo_world_reached(1) [of demo_log] by simp
  obtain e row2 where a: "append_event id ''b'' ''t'' ''TASK_AUTHORIZED'' (Some (JObj [])) (Some ''x'') None None [row] = (Inr e, [row, row2])"
    "appended ''TASK_AUTHORIZED'' [] ''x'' row2" "log_inv id [row, row2]"
    using append_id [OF inv, of "''TASK_AUTHORIZED''" "''b''" "''t''" "[]" "''x''"] row(2) by (auto simp: event_types_def)
  have rows: "log_rows (demo_world stuck_log) = [row, row2]"
    using row(1) a(1) by (simp add: demo_world_def stuck_log_def run_all_append)
  have "apply_event st (row_event row2) = Inr (st\<lparr>tasks := [(''x'', demo_task ''AUTHORIZED'')]\<rparr>)"
    using a(2) st(2) by (simp add: apply_event_def appended_def task_event_status_def with_entity_def entity_of_def demo_task_def Let_def)
  then show ?thesis using replay_snoc [of id "[row]" row2, OF _ inv st(1)] a(3)
    by (auto simp: rows lift_def stamp_def)
qed

lemma stuck_call: "\<exists>rep. advance_until_idle 4 id num demo_env True 1 None (demo_world stuck_log) = Some (Inr rep, demo_world stuck_log)
    \<and> remaining_ready rep = []"
proof -
  let ?w = "demo_world stuck_log"
  obtain st where st: "replay (log_rows ?w) = Inr st" "tasks st = [(''x'', demo_task ''AUTHORIZED'')]" using stuck_replay by blast
  have ready: "derive_ready_tasks st = []"
    by (simp add: derive_ready_tasks_def st(2) is_ready_def demo_task_def get_def has_status_def busy_states_def)
  have "verify_chain id (log_rows ?w)" unfolding demo_world_reached(1) by (rule log_verified [OF log.reached_inv])
  then show ?thesis
    by (simp add: advance_until_idle_def read_state_def st ready empty_report_def closing_report_def Let_def)
qed

lemma advance_acts_with_authority_witness:
  "\<exists>r w'. advance_until_idle 4 id (\<lambda>x. JNull) demo_env True 1 None (demo_world demo_log) = Some (r, w')
     \<and> 1 < length (log_rows w') \<and> type_of (row_event (log_rows w' ! 1)) \<in> set (''BLOCKER_RECORDED'' # task_events)"
proof -
  let ?w = "demo_world demo_log"
  obtain r w' where r: "advance_until_idle 4 id (\<lambda>x. JNull) demo_env True 1 None ?w = Some (r, w')" "1 < length (log_rows w')"
    using demo_call by blast
  have "length (log_rows ?w) \<le> 1" using demo_replay by auto
  moreover have "Some (r, w') \<in> set (both_loops id 4 id (\<lambda>x. JNull) demo_env True 1 None ?w)" by (simp add: both_loops_def r(1))
  ultimately have "type_of (row_event (log_rows w' ! 1)) = ''BLOCKER_RECORDED'' \<or> type_of (row_event (log_rows w' ! 1)) \<in> set task_events"
    using advance_acts_with_authority [OF demo_world_reached demo_fuel, where k = 1] r(2) by blast
  with r show ?thesis by auto
qed

lemma advance_comes_to_rest_witness:
  "\<exists>rep w'. advance_until_idle 4 id (\<lambda>x. JNull) demo_env True 1 None (demo_world stuck_log) = Some (Inr rep, w')
     \<and> distinct (executed rep) \<and> int (length (executed rep)) \<le> 1
     \<and> set (executed rep) = set (completed_tasks rep) \<union> set (failed_tasks rep)"
proof -
  let ?w = "demo_world stuck_log"
  obtain rep where r: "advance_until_idle 4 id (\<lambda>x. JNull) demo_env True 1 None ?w = Some (Inr rep, ?w)"
    using stuck_call by blast
  then have "Some (Inr rep, ?w) \<in> set (both_loops id 4 id (\<lambda>x. JNull) demo_env True 1 None ?w)" by (simp add: both_loops_def)
  from advance_comes_to_rest [OF demo_world_reached demo_fuel this] r show ?thesis by auto
qed

lemma interrupted_tasks_are_left_witness:
  "\<exists>rep w'. advance_until_idle 4 id (\<lambda>x. JNull) demo_env True 1 None (demo_world stuck_log) = Some (Inr rep, w')
     \<and> stop_reason rep = ''DEPENDENCY_BLOCKED''"
proof -
  let ?w = "demo_world stuck_log"
  obtain st where st: "replay (log_rows ?w) = Inr st" "tasks st = [(''x'', demo_task ''AUTHORIZED'')]" using stuck_replay by blast
  obtain rep where r: "advance_until_idle 4 id (\<lambda>x. JNull) demo_env True 1 None ?w = Some (Inr rep, ?w)" "remaining_ready rep = []"
    using stuck_call by blast
  have "map_of (tasks st) ''x'' = Some (demo_task ''AUTHORIZED'')" by (simp add: st(2))
  moreover have "has_status (demo_task ''AUTHORIZED'') [''AUTHORIZED'', ''RUNNING'', ''EXECUTED'', ''VERIFIED'']"
    by (simp add: demo_task_def get_def has_status_def)
  moreover have "Some (Inr rep, ?w) \<in> set (both_loops id 4 id (\<lambda>x. JNull) demo_env True 1 None ?w)" by (simp add: both_loops_def r(1))
  ultimately have "stop_reason rep = ''DEPENDENCY_BLOCKED''"
    using interrupted_tasks_are_left [OF demo_world_reached demo_fuel _ st(1) _ _ st(1)] r(2) by blast
  with r(1) show ?thesis by blast
qed

end
