(* ===== verification/Scientific_Branches.thy ===== *)
theory Scientific_Branches
  imports Json_Facts Hash_Chain Iso_Time Op_Machine
begin

text \<open>
  \<open>frost_core/sdos.py\<close>: the ledger of theory branches, their experiments and the history of their status.
  A branch and an experiment are immutable and known by the digest of their content; the status of a
  branch changes by \<open>transition\<close> only, which appends to the history.
\<close>

section \<open>Data\<close>

datatype branch_status =
    ACTIVE_HYPOTHESIS | EMPIRICAL_LIMIT | EFFECTIVE_DESCRIPTION | PHENOMENOLOGICAL_INTERFACE
  | DERIVED_LIMIT | INCOMPATIBLE_BRANCH | REJECTED | REVIEW

fun status_value :: "branch_status \<Rightarrow> string" where
  "status_value ACTIVE_HYPOTHESIS = ''ACTIVE_HYPOTHESIS''"
| "status_value EMPIRICAL_LIMIT = ''EMPIRICAL_LIMIT''"
| "status_value EFFECTIVE_DESCRIPTION = ''EFFECTIVE_DESCRIPTION''"
| "status_value PHENOMENOLOGICAL_INTERFACE = ''PHENOMENOLOGICAL_INTERFACE''"
| "status_value DERIVED_LIMIT = ''DERIVED_LIMIT''"
| "status_value INCOMPATIBLE_BRANCH = ''INCOMPATIBLE_BRANCH''"
| "status_value REJECTED = ''REJECTED''"
| "status_value REVIEW = ''REVIEW''"

record theory_branch =
  branch_id :: string
  mathematical_definition :: string
  assumptions :: "string list"
  parameters :: json_object
  observable_map :: json_object
  implementation_identity :: string
  falsification_criteria :: "string list"
  declared_status :: branch_status
  parent_branch_id :: "string option"
  branch_metadata :: json_object
  branch_created_at :: string

definition branch_dict :: "theory_branch \<Rightarrow> json" where
  "branch_dict b = JObj
     [(''branch_id'', JStr (branch_id b)), (''mathematical_definition'', JStr (mathematical_definition b)),
      (''assumptions'', JArr (map JStr (assumptions b))), (''parameters'', JObj (parameters b)),
      (''observable_map'', JObj (observable_map b)), (''implementation_identity'', JStr (implementation_identity b)),
      (''falsification_criteria'', JArr (map JStr (falsification_criteria b))),
      (''status'', JStr (status_value (declared_status b))), (''parent_branch_id'', opt_str (parent_branch_id b)),
      (''metadata'', JObj (branch_metadata b)), (''created_at'', JStr (branch_created_at b))]"

definition branch_sha :: "(string \<Rightarrow> string) \<Rightarrow> theory_branch \<Rightarrow> string" where
  "branch_sha H b = canonical_sha256 H (branch_dict b)"

record experiment_evidence =
  experiment_id :: string
  bound_branch_sha256 :: string
  implementation_sha256 :: string
  inputs_sha256 :: string
  experiment_result :: json_object
  verification :: json_object
  falsified :: bool
  verifier_independent :: bool
  recorded_at :: string

definition evidence_dict :: "experiment_evidence \<Rightarrow> json" where
  "evidence_dict e = JObj
     [(''experiment_id'', JStr (experiment_id e)), (''branch_sha256'', JStr (bound_branch_sha256 e)),
      (''implementation_sha256'', JStr (implementation_sha256 e)), (''inputs_sha256'', JStr (inputs_sha256 e)),
      (''result'', JObj (experiment_result e)), (''verification'', JObj (verification e)),
      (''falsified'', JBool (falsified e)), (''verifier_independent'', JBool (verifier_independent e)),
      (''recorded_at'', JStr (recorded_at e))]"

definition evidence_sha :: "(string \<Rightarrow> string) \<Rightarrow> experiment_evidence \<Rightarrow> string" where
  "evidence_sha H e = canonical_sha256 H (evidence_dict e)"

section \<open>Tables\<close>

record branch_row =
  branch_key :: string
  branch_sha256 :: string
  branch_json :: json
  current_status :: branch_status
  row_created_at :: string
  row_updated_at :: string

record experiment_row =
  experiment_key :: string
  experiment_branch :: string
  evidence_sha256 :: string
  evidence_of :: experiment_evidence
  row_recorded_at :: string

record status_row =
  status_sequence :: int
  status_branch :: string
  status_set :: branch_status
  status_reason :: string
  status_evidence :: "string option"
  status_recorded_at :: string

record ledger =
  branches :: "branch_row list"
  experiments :: "experiment_row list"
  status_history :: "status_row list"

definition new_ledger :: ledger where
  "new_ledger = \<lparr>branches = [], experiments = [], status_history = []\<rparr>"

definition log_status :: "string \<Rightarrow> branch_status \<Rightarrow> string \<Rightarrow> string option \<Rightarrow> int \<Rightarrow> ledger \<Rightarrow> ledger" where
  "log_status bid st reason ev now s =
     s\<lparr>status_history := status_history s @ [\<lparr>status_sequence = int (length (status_history s)) + 1, status_branch = bid,
         status_set = st, status_reason = reason, status_evidence = ev, status_recorded_at = isoformat now\<rparr>]\<rparr>"

section \<open>Operations\<close>

definition find_branch :: "string \<Rightarrow> ledger \<Rightarrow> branch_row option" where
  "find_branch bid s = select_one (\<lambda>r. branch_key r = bid) (branches s)"

definition add_branch :: "(string \<Rightarrow> string) \<Rightarrow> int \<Rightarrow> theory_branch \<Rightarrow> ledger \<Rightarrow> (string, ledger) outcome" where
  "add_branch H now b s =
     (if blank (branch_id b) \<or> blank (mathematical_definition b)
      then (Inl (ValueError ''branch_id and mathematical_definition are required''), s)
      else if falsification_criteria b = []
      then (Inl (ValueError ''every theory branch requires falsification criteria''), s)
      else (case find_branch (branch_id b) s of
        Some row \<Rightarrow>
          if branch_sha256 row = branch_sha H b then (Inr (branch_id b), s)
          else (Inl (ValueError ''branch_id already identifies different immutable theory content''), s)
      | None \<Rightarrow>
          (case (case parent_branch_id b of None \<Rightarrow> None
                 | Some p \<Rightarrow> if find_branch p s = None then Some p else None) of
             Some p \<Rightarrow> (Inl (KeyError (''unknown parent branch: '' @ p)), s)
           | None \<Rightarrow>
               if \<exists>r\<in>set (branches s). branch_sha256 r = branch_sha H b then (Inl IntegrityError, s)
               else (Inr (branch_id b),
                     log_status (branch_id b) (declared_status b) ''branch_created'' None now
                       (s\<lparr>branches := branches s @ [\<lparr>branch_key = branch_id b, branch_sha256 = branch_sha H b,
                            branch_json = sort_keys (branch_dict b), current_status = declared_status b,
                            row_created_at = branch_created_at b, row_updated_at = branch_created_at b\<rparr>]\<rparr>)))))"

text \<open>What \<open>json.loads\<close> gives back: the stored text has its keys sorted.\<close>

definition sorted_object :: "json_object \<Rightarrow> json_object" where
  "sorted_object d = (case sort_keys (JObj d) of JObj d' \<Rightarrow> d' | _ \<Rightarrow> [])"

definition stored_evidence :: "experiment_evidence \<Rightarrow> experiment_evidence" where
  "stored_evidence e = e\<lparr>experiment_result := sorted_object (experiment_result e), verification := sorted_object (verification e)\<rparr>"

definition record_experiment :: "(string \<Rightarrow> string) \<Rightarrow> string \<Rightarrow> experiment_evidence \<Rightarrow> ledger \<Rightarrow> (string, ledger) outcome" where
  "record_experiment H bid e s =
     (case find_branch bid s of
        None \<Rightarrow> (Inl (KeyError bid), s)
      | Some row \<Rightarrow>
          if bound_branch_sha256 e \<noteq> branch_sha256 row
          then (Inl (ValueError ''experiment evidence is not bound to this branch identity''), s)
          else if \<not> verifier_independent e
          then (Inl (ValueError ''scientific evidence requires an independent verifier declaration''), s)
          else (case select_one (\<lambda>r. experiment_key r = experiment_id e) (experiments s) of
            Some r \<Rightarrow>
              if evidence_sha256 r = evidence_sha H e then (Inr (experiment_id e), s)
              else (Inl (ValueError ''experiment_id already identifies different immutable evidence''), s)
          | None \<Rightarrow>
              if \<exists>r\<in>set (experiments s). evidence_sha256 r = evidence_sha H e then (Inl IntegrityError, s)
              else (Inr (experiment_id e),
                    s\<lparr>experiments := experiments s @ [\<lparr>experiment_key = experiment_id e, experiment_branch = bid,
                        evidence_sha256 = evidence_sha H e, evidence_of = stored_evidence e,
                        row_recorded_at = recorded_at e\<rparr>]\<rparr>)))"

definition transition :: "(nat \<Rightarrow> int) \<Rightarrow> string \<Rightarrow> branch_status \<Rightarrow> string \<Rightarrow> string option \<Rightarrow> ledger \<Rightarrow>
    (branch_status, ledger) outcome" where
  "transition clk bid st reason ev s =
     (if find_branch bid s = None then (Inl (KeyError bid), s)
      else if blank reason then (Inl (ValueError ''status transition requires a reason''), s)
      else if \<exists>e. ev = Some e \<and> select_one (\<lambda>r. experiment_branch r = bid \<and> evidence_sha256 r = e) (experiments s) = None
      then (Inl (ValueError ''status evidence is not registered for this branch''), s)
      else (Inr st,
            log_status bid st reason ev (clk 1)
              (s\<lparr>branches := update_where (\<lambda>r. branch_key r = bid)
                   (\<lambda>r. r\<lparr>current_status := st, row_updated_at := isoformat (clk 0)\<rparr>) (branches s)\<rparr>)))"

definition verdict_of :: "experiment_evidence \<Rightarrow> branch_status \<times> string" where
  "verdict_of e =
     (if falsified e then (REJECTED, ''registered experiment satisfied falsification condition'')
      else if (case get (verification e) ''passed'' of None \<Rightarrow> False | Some v \<Rightarrow> truthy v)
      then (REVIEW, ''verified experiment retained branch for scientific review'')
      else (INCOMPATIBLE_BRANCH, ''experiment verification did not support the branch implementation''))"

definition classify_from_evidence :: "(string \<Rightarrow> string) \<Rightarrow> (nat \<Rightarrow> int) \<Rightarrow> string \<Rightarrow> string \<Rightarrow> ledger \<Rightarrow>
    (branch_status, ledger) outcome" where
  "classify_from_evidence H clk bid eid s =
     (case select_one (\<lambda>r. experiment_key r = eid \<and> experiment_branch r = bid) (experiments s) of
        None \<Rightarrow> (Inl (KeyError eid), s)
      | Some row \<Rightarrow>
          (case verdict_of (evidence_of row) of
             (target, reason) \<Rightarrow> transition clk bid target reason (Some (evidence_sha H (evidence_of row))) s))"

definition branch_report :: "string \<Rightarrow> ledger \<Rightarrow> json result" where
  "branch_report bid s =
     (case find_branch bid s of
        None \<Rightarrow> Inl (KeyError bid)
      | Some row \<Rightarrow> (case branch_json row of
          JObj d \<Rightarrow> Inr (JObj (put ''branch_sha256'' (JStr (branch_sha256 row))
                            (put ''current_status'' (JStr (status_value (current_status row))) d)))
        | _ \<Rightarrow> Inl (TypeError ''not an object'')))"

definition branch_history :: "string \<Rightarrow> ledger \<Rightarrow> status_row list" where
  "branch_history bid s = sort_key status_sequence (filter (\<lambda>h. status_branch h = bid) (status_history s))"

section \<open>Any operations\<close>

datatype ledger_op =
    Add_Branch int theory_branch
  | Record_Experiment string experiment_evidence
  | Transition "nat \<Rightarrow> int" string branch_status string "string option"
  | Classify "nat \<Rightarrow> int" string string

fun run_ledger :: "(string \<Rightarrow> string) \<Rightarrow> ledger_op \<Rightarrow> ledger \<Rightarrow> ledger" where
  "run_ledger H (Add_Branch now b) s = snd (add_branch H now b s)"
| "run_ledger H (Record_Experiment bid e) s = snd (record_experiment H bid e s)"
| "run_ledger H (Transition clk bid st reason ev) s = snd (transition clk bid st reason ev s)"
| "run_ledger H (Classify clk bid eid) s = snd (classify_from_evidence H clk bid eid s)"

text \<open>The status of a branch is the last of its history, which starts with its creation.\<close>

definition branch_recorded :: "ledger \<Rightarrow> branch_row \<Rightarrow> bool" where
  "branch_recorded s r \<longleftrightarrow> (\<exists>h hs. filter (\<lambda>h. status_branch h = branch_key r) (status_history s) = h # hs
     \<and> status_reason h = ''branch_created'' \<and> status_evidence h = None \<and> status_set (last (h # hs)) = current_status r)"

definition experiment_bound :: "(string \<Rightarrow> string) \<Rightarrow> ledger \<Rightarrow> experiment_row \<Rightarrow> bool" where
  "experiment_bound H s x \<longleftrightarrow> (\<exists>r\<in>set (branches s). branch_key r = experiment_branch x
       \<and> bound_branch_sha256 (evidence_of x) = branch_sha256 r)
     \<and> verifier_independent (evidence_of x) \<and> experiment_key x = experiment_id (evidence_of x)
     \<and> evidence_sha256 x = evidence_sha H (evidence_of x)"

definition status_grounded :: "ledger \<Rightarrow> status_row \<Rightarrow> bool" where
  "status_grounded s h \<longleftrightarrow> (\<exists>r\<in>set (branches s). branch_key r = status_branch h)
     \<and> (\<forall>e. status_evidence h = Some e \<longrightarrow>
          (\<exists>x\<in>set (experiments s). experiment_branch x = status_branch h \<and> evidence_sha256 x = e))"

definition ledger_inv :: "(string \<Rightarrow> string) \<Rightarrow> ledger \<Rightarrow> bool" where
  "ledger_inv H s \<longleftrightarrow> distinct (map branch_key (branches s)) \<and> distinct (map experiment_key (experiments s))
     \<and> list_all (branch_recorded s) (branches s) \<and> list_all (experiment_bound H s) (experiments s)
     \<and> list_all (status_grounded s) (status_history s)
     \<and> map status_sequence (status_history s) = map int [1..<Suc (length (status_history s))]"

definition same_branch :: "branch_row \<Rightarrow> branch_row \<Rightarrow> bool" where
  "same_branch r r' \<longleftrightarrow> branch_key r' = branch_key r \<and> branch_sha256 r' = branch_sha256 r \<and> branch_json r' = branch_json r
     \<and> row_created_at r' = row_created_at r"

definition ledger_older :: "ledger \<Rightarrow> ledger \<Rightarrow> bool" where
  "ledger_older s s' \<longleftrightarrow> evolves same_branch (branches s) (branches s') \<and> prefix (experiments s) (experiments s')
     \<and> prefix (status_history s) (status_history s')"

text \<open>The digest does not see the order of the keys.\<close>

lemma same_members:
  "map (map_prod id sort_keys) d = map (map_prod id sort_keys) d' \<Longrightarrow> sort_keys (JObj d) = sort_keys (JObj d')"
  by simp

lemma evidence_sha_stored [simp]: "evidence_sha H (stored_evidence e) = evidence_sha H e"
proof -
  have "sort_keys (evidence_dict (stored_evidence e)) = sort_keys (evidence_dict e)"
  proof -
    have s: "JObj (sorted_object d) = sort_keys (JObj d)" for d by (simp add: sorted_object_def)
    show ?thesis unfolding evidence_dict_def
      by (rule same_members) (simp add: stored_evidence_def s del: sort_keys.simps(6))
  qed
  then show ?thesis by (simp add: evidence_sha_def canonical_sha256_def dumps_def)
qed

lemma stored_evidence_fields [simp]:
  "experiment_id (stored_evidence e) = experiment_id e" "bound_branch_sha256 (stored_evidence e) = bound_branch_sha256 e"
  "verifier_independent (stored_evidence e) = verifier_independent e" "falsified (stored_evidence e) = falsified e"
  by (simp_all add: stored_evidence_def)

lemma truthy_sorted [simp]: "truthy (sort_keys v) = truthy v"
proof (cases v)
  case (JObj d)
  have "sort_key fst (map (map_prod id sort_keys) d) = [] \<longleftrightarrow> d = []"
    by (metis length_0_conv length_map length_sort)
  then show ?thesis by (simp add: JObj)
qed simp_all

lemma verdict_of_stored: "distinct (map fst (verification e)) \<Longrightarrow> verdict_of (stored_evidence e) = verdict_of e"
  by (simp add: verdict_of_def stored_evidence_def sorted_object_def sorted_get option.case_eq_if option.map_sel)

lemma log_status_fields [simp]:
  "branches (log_status bid st reason ev now s) = branches s" "experiments (log_status bid st reason ev now s) = experiments s"
  by (simp_all add: log_status_def)

lemma find_branch_iff: "find_branch k s = None \<longleftrightarrow> k \<notin> branch_key ` set (branches s)"
  by (auto simp: find_branch_def select_one_None)

lemma find_branch_SomeD: "find_branch k s = Some r \<Longrightarrow> r \<in> set (branches s) \<and> branch_key r = k"
  unfolding find_branch_def by (rule select_one_SomeD)

lemma sequences_snoc:
  "map status_sequence hs = map int [1..<Suc (length hs)] \<Longrightarrow> status_sequence h = int (length hs) + 1 \<Longrightarrow>
   map status_sequence (hs @ [h]) = map int [1..<Suc (length (hs @ [h]))]"
  by simp

lemma ledger_invD:
  assumes "ledger_inv H s"
  shows "r \<in> set (branches s) \<Longrightarrow> branch_recorded s r" "x \<in> set (experiments s) \<Longrightarrow> experiment_bound H s x"
    "h \<in> set (status_history s) \<Longrightarrow> status_grounded s h"
  using assms by (auto simp: ledger_inv_def list_all_iff)

lemma inv_new_branch:
  assumes inv: "ledger_inv H s" and new: "find_branch (branch_key row) s = None"
  shows "ledger_inv H (log_status (branch_key row) (current_status row) ''branch_created'' None now (s\<lparr>branches := branches s @ [row]\<rparr>))"
    (is "ledger_inv H ?t")
proof -
  have k: "branch_key row \<notin> branch_key ` set (branches s)" using new by (simp add: find_branch_iff)
  have none: "filter (\<lambda>h. status_branch h = branch_key row) (status_history s) = []"
    unfolding filter_empty_conv using ledger_invD(3) [OF inv] k unfolding status_grounded_def by (metis image_eqI)
  obtain h where h: "status_history ?t = status_history s @ [h]" "status_branch h = branch_key row" "status_set h = current_status row"
    "status_reason h = ''branch_created''" "status_evidence h = None" "status_sequence h = int (length (status_history s)) + 1"
    by (simp add: log_status_def)
  have "branch_recorded ?t r" if "r \<in> set (branches s)" for r
  proof -
    have "branch_key row \<noteq> branch_key r" using k that by auto
    then show ?thesis using ledger_invD(1) [OF inv that] by (simp add: branch_recorded_def h)
  qed
  moreover have "branch_recorded ?t row" by (simp add: branch_recorded_def h none)
  ultimately have 1: "list_all (branch_recorded ?t) (branches ?t)" by (simp add: list_all_iff)
  have "experiment_bound H ?t x" if "experiment_bound H s x" for x
    using that by (auto simp: experiment_bound_def)
  then have 2: "list_all (experiment_bound H ?t) (experiments ?t)" using ledger_invD(2) [OF inv] by (simp add: list_all_iff)
  have "status_grounded ?t h'" if "status_grounded s h'" for h' using that by (auto simp: status_grounded_def)
  moreover have "status_grounded ?t h" by (simp add: status_grounded_def h)
  ultimately have 3: "list_all (status_grounded ?t) (status_history ?t)" using ledger_invD(3) [OF inv] by (simp add: list_all_iff h(1))
  have 4: "map status_sequence (status_history ?t) = map int [1..<Suc (length (status_history ?t))]"
    unfolding h(1) using inv h(6) by (intro sequences_snoc) (simp_all add: ledger_inv_def)
  have "distinct (map branch_key (branches ?t))" "distinct (map experiment_key (experiments ?t))"
    using inv k by (simp_all add: ledger_inv_def)
  with 1 2 3 4 show ?thesis unfolding ledger_inv_def by blast
qed

lemma inv_new_experiment:
  assumes inv: "ledger_inv H s" and new: "experiment_key x \<notin> experiment_key ` set (experiments s)" and x: "experiment_bound H s x"
  shows "ledger_inv H (s\<lparr>experiments := experiments s @ [x]\<rparr>)" (is "ledger_inv H ?t")
proof -
  have "branch_recorded ?t = branch_recorded s" "experiment_bound H ?t = experiment_bound H s"
    by (intro ext, simp add: branch_recorded_def experiment_bound_def)+
  moreover have "status_grounded ?t h" if "status_grounded s h" for h using that by (auto simp: status_grounded_def)
  ultimately show ?thesis using inv new x by (simp add: ledger_inv_def list_all_iff)
qed

lemma inv_status:
  assumes inv: "ledger_inv H s" and b: "find_branch bid s \<noteq> None"
    and ev: "\<And>e. ev = Some e \<Longrightarrow> \<exists>x\<in>set (experiments s). experiment_branch x = bid \<and> evidence_sha256 x = e"
  shows "ledger_inv H (log_status bid st reason ev now
    (s\<lparr>branches := update_where (\<lambda>r. branch_key r = bid) (\<lambda>r. r\<lparr>current_status := st, row_updated_at := u\<rparr>) (branches s)\<rparr>))"
    (is "ledger_inv H ?t")
proof -
  let ?f = "\<lambda>r. if branch_key r = bid then r\<lparr>current_status := st, row_updated_at := u\<rparr> else r"
  have bs: "branches ?t = map ?f (branches s)" by (simp add: update_where_def)
  have f: "branch_key (?f r) = branch_key r" "branch_sha256 (?f r) = branch_sha256 r" for r by simp_all
  obtain h where h: "status_history ?t = status_history s @ [h]" "status_branch h = bid" "status_set h = st"
    "status_reason h = reason" "status_evidence h = ev" "status_sequence h = int (length (status_history s)) + 1"
    by (simp add: log_status_def)
  have ex: "(\<exists>r\<in>set (branches ?t). P (branch_key r) (branch_sha256 r)) \<longleftrightarrow> (\<exists>r\<in>set (branches s). P (branch_key r) (branch_sha256 r))" for P
    unfolding bs set_map bex_simps(7) f ..
  have "branch_recorded ?t (?f r)" if r: "r \<in> set (branches s)" for r
  proof -
    obtain c cs where c: "filter (\<lambda>h. status_branch h = branch_key r) (status_history s) = c # cs"
      "status_reason c = ''branch_created''" "status_evidence c = None" "status_set (last (c # cs)) = current_status r"
      using ledger_invD(1) [OF inv r] unfolding branch_recorded_def by blast
    show ?thesis unfolding branch_recorded_def f h(1) using c h(2,3) by (auto split: if_splits)
  qed
  then have 1: "list_all (branch_recorded ?t) (branches ?t)" unfolding bs by (simp only: list_all_iff set_map) blast
  have "experiment_bound H ?t = experiment_bound H s"
    by (intro ext) (simp only: experiment_bound_def ex [of "\<lambda>k sha. k = experiment_branch x \<and> bound_branch_sha256 (evidence_of x) = sha" for x])
  then have 2: "list_all (experiment_bound H ?t) (experiments ?t)" using ledger_invD(2) [OF inv] by (simp add: list_all_iff)
  have g: "status_grounded ?t h' \<longleftrightarrow> (\<exists>r\<in>set (branches s). branch_key r = status_branch h')
     \<and> (\<forall>e. status_evidence h' = Some e \<longrightarrow> (\<exists>x\<in>set (experiments s). experiment_branch x = status_branch h' \<and> evidence_sha256 x = e))" for h'
    unfolding status_grounded_def ex [of "\<lambda>k sha. k = status_branch h'"] by simp
  have "status_grounded ?t h'" if "status_grounded s h'" for h' unfolding g using that [unfolded status_grounded_def] .
  moreover have "status_grounded ?t h" unfolding g h(2,5) using b ev find_branch_SomeD by fastforce
  ultimately have 3: "list_all (status_grounded ?t) (status_history ?t)" using ledger_invD(3) [OF inv] by (simp only: list_all_iff h(1)) auto
  have 4: "map status_sequence (status_history ?t) = map int [1..<Suc (length (status_history ?t))]"
    unfolding h(1) using inv h(6) by (intro sequences_snoc) (simp_all add: ledger_inv_def)
  have "map branch_key (branches ?t) = map branch_key (branches s)" unfolding bs by simp
  then have "distinct (map branch_key (branches ?t))" "distinct (map experiment_key (experiments ?t))"
    using inv by (simp_all add: ledger_inv_def)
  with 1 2 3 4 show ?thesis unfolding ledger_inv_def by blast
qed

lemma older_refl: "ledger_older s s"
  by (simp add: ledger_older_def evolves_def same_branch_def)

lemma older_status: "ledger_older s (log_status bid st reason ev now
    (s\<lparr>branches := update_where (\<lambda>r. branch_key r = bid) (\<lambda>r. r\<lparr>current_status := st, row_updated_at := u\<rparr>) (branches s)\<rparr>))"
  unfolding ledger_older_def
  by (auto simp: same_branch_def log_status_def intro!: evolves_update_where)

lemma transition_cases:
  assumes "ledger_inv H s"
  shows "ledger_inv H (snd (transition clk bid st reason ev s)) \<and> ledger_older s (snd (transition clk bid st reason ev s))"
proof -
  let ?u = "log_status bid st reason ev (clk 1)
    (s\<lparr>branches := update_where (\<lambda>r. branch_key r = bid) (\<lambda>r. r\<lparr>current_status := st, row_updated_at := isoformat (clk 0)\<rparr>) (branches s)\<rparr>)"
  have "snd (transition clk bid st reason ev s) = s \<or> find_branch bid s \<noteq> None \<and> snd (transition clk bid st reason ev s) = ?u
    \<and> (\<nexists>e. ev = Some e \<and> select_one (\<lambda>r. experiment_branch r = bid \<and> evidence_sha256 r = e) (experiments s) = None)"
    by (simp add: transition_def)
  then consider "snd (transition clk bid st reason ev s) = s"
    | "find_branch bid s \<noteq> None" "\<And>e. ev = Some e \<Longrightarrow> \<exists>x\<in>set (experiments s). experiment_branch x = bid \<and> evidence_sha256 x = e"
      "snd (transition clk bid st reason ev s) = ?u"
    unfolding select_one_None by blast
  then show ?thesis
  proof cases
    case 1
    then show ?thesis using assms older_refl by simp
  next
    case 2
    show ?thesis unfolding 2(3) using inv_status [OF assms 2(1,2)] older_status by blast
  qed
qed

lemma add_branch_cases:
  assumes "ledger_inv H s"
  shows "ledger_inv H (snd (add_branch H now b s)) \<and> ledger_older s (snd (add_branch H now b s))"
proof -
  let ?row = "\<lparr>branch_key = branch_id b, branch_sha256 = branch_sha H b, branch_json = sort_keys (branch_dict b),
    current_status = declared_status b, row_created_at = branch_created_at b, row_updated_at = branch_created_at b\<rparr>"
  let ?u = "log_status (branch_key ?row) (current_status ?row) ''branch_created'' None now (s\<lparr>branches := branches s @ [?row]\<rparr>)"
  have "snd (add_branch H now b s) = s \<or> find_branch (branch_key ?row) s = None \<and> snd (add_branch H now b s) = ?u"
    by (simp add: add_branch_def split: option.split)
  then consider "snd (add_branch H now b s) = s" | "find_branch (branch_key ?row) s = None" "snd (add_branch H now b s) = ?u"
    by (elim disjE conjE)
  then show ?thesis
  proof cases
    case 1
    then show ?thesis using assms older_refl by simp
  next
    case 2
    show ?thesis unfolding 2(2) using inv_new_branch [OF assms 2(1)]
      by (auto simp: ledger_older_def log_status_def same_branch_def intro!: evolvesI_append)
  qed
qed

lemma experiment_cases:
  assumes "ledger_inv H s"
  shows "ledger_inv H (snd (record_experiment H bid e s)) \<and> ledger_older s (snd (record_experiment H bid e s))"
proof -
  let ?x = "\<lparr>experiment_key = experiment_id e, experiment_branch = bid, evidence_sha256 = evidence_sha H e,
    evidence_of = stored_evidence e, row_recorded_at = recorded_at e\<rparr>"
  have "snd (record_experiment H bid e s) = s \<or> (\<exists>r. find_branch bid s = Some r \<and> bound_branch_sha256 e = branch_sha256 r
      \<and> verifier_independent e \<and> select_one (\<lambda>r. experiment_key r = experiment_id e) (experiments s) = None
      \<and> snd (record_experiment H bid e s) = s\<lparr>experiments := experiments s @ [?x]\<rparr>)"
    by (simp add: record_experiment_def split: option.split)
  then consider "snd (record_experiment H bid e s) = s"
    | r where "find_branch bid s = Some r" "bound_branch_sha256 e = branch_sha256 r" "verifier_independent e"
      "select_one (\<lambda>r. experiment_key r = experiment_id e) (experiments s) = None"
      "snd (record_experiment H bid e s) = s\<lparr>experiments := experiments s @ [?x]\<rparr>"
    by (elim disjE conjE exE)
  then show ?thesis
  proof cases
    case 1
    then show ?thesis using assms older_refl by simp
  next
    case (2 r)
    have "experiment_bound H s ?x" using find_branch_SomeD [OF 2(1)] 2(2,3) by (auto simp: experiment_bound_def)
    moreover have "experiment_key ?x \<notin> experiment_key ` set (experiments s)" using 2(4) by (auto simp: select_one_None)
    ultimately show ?thesis unfolding 2(5) using inv_new_experiment [OF assms]
      by (simp add: ledger_older_def evolves_def same_branch_def)
  qed
qed

interpretation branch_ledger: evolving_machine "run_ledger H" new_ledger "ledger_inv H" ledger_older for H
proof
  show "ledger_inv H new_ledger" by (simp add: ledger_inv_def new_ledger_def)
  have "ledger_inv H (run_ledger H op s) \<and> ledger_older s (run_ledger H op s)" if inv: "ledger_inv H s" for op s
  proof (cases op)
    case (Classify clk bid eid)
    then show ?thesis using transition_cases [OF inv] inv older_refl
      by (simp add: classify_from_evidence_def split: option.split prod.split)
  qed (use add_branch_cases [OF inv] experiment_cases [OF inv] transition_cases [OF inv] in simp_all)
  then show "ledger_inv H s \<Longrightarrow> ledger_inv H (run_ledger H op s)" "ledger_inv H s \<Longrightarrow> ledger_older s (run_ledger H op s)" for op s
    by blast+
  show "ledger_older s s" for s by (rule older_refl)
  show "ledger_older s u" if "ledger_older s t" "ledger_older t u" for s t u
    using that evolves_trans [of same_branch "branches s" "branches t" "branches u"] prefix_order.trans
    unfolding ledger_older_def same_branch_def by fastforce
qed

section \<open>Properties\<close>

text \<open>
  C31. The ledger of branches is sound: after any operations, the history of each branch starts with its
  creation and ends in its current status; every experiment is bound to the content of a branch that is
  there, comes from an independent verifier and is stored with its digest; every status with evidence
  names a registered experiment of the branch; and later operations never change the content of a branch,
  an experiment or the history.
\<close>

theorem branch_ledger_sound:
  fixes H ops later
  defines "s \<equiv> run_all (run_ledger H) ops new_ledger"
  shows "distinct (map branch_key (branches s)) \<and> list_all (branch_recorded s) (branches s)
    \<and> list_all (experiment_bound H s) (experiments s) \<and> list_all (status_grounded s) (status_history s)
    \<and> ledger_older s (run_all (run_ledger H) later s)"
proof -
  have "ledger_inv H s" unfolding s_def by (rule branch_ledger.reached_inv)
  then show ?thesis using branch_ledger.run_all_older by (simp add: ledger_inv_def)
qed

text \<open>
  An experiment has its verdict for good: once it was recorded, it can be classified at every later
  time; a falsifying experiment rejects its branch, another retains it for review exactly when its
  verification says that it passed, and the history names the digest of the experiment.
\<close>

theorem experiment_verdict_forever:
  fixes H ops later
  defines "s \<equiv> run_all (run_ledger H) ops new_ledger"
  assumes dict: "distinct (map fst (verification e))" and new: "experiment_id e \<notin> experiment_key ` set (experiments s)"
    and rec: "record_experiment H bid e s = (Inr eid, s')"
  defines "t \<equiv> run_all (run_ledger H) later s'"
  shows "\<exists>u h. classify_from_evidence H clk bid (experiment_id e) t = (Inr (fst (verdict_of e)), u)
    \<and> status_history u = status_history t @ [h] \<and> status_branch h = bid
    \<and> status_set h = fst (verdict_of e) \<and> status_evidence h = Some (evidence_sha H e)
    \<and> map_option current_status (find_branch bid u) = Some (fst (verdict_of e))"
proof -
  let ?x = "\<lparr>experiment_key = experiment_id e, experiment_branch = bid, evidence_sha256 = evidence_sha H e,
    evidence_of = stored_evidence e, row_recorded_at = recorded_at e\<rparr>"
  have inv: "ledger_inv H s" unfolding s_def by (rule branch_ledger.reached_inv)
  have none: "select_one (\<lambda>r. experiment_key r = experiment_id e) (experiments s) = None"
    using new unfolding select_one_None by (metis image_eqI)
  have x: "?x \<in> set (experiments s')" and b: "find_branch bid s \<noteq> None" and bs: "branches s' = branches s"
    using rec none by (auto simp: record_experiment_def split: option.splits if_splits)
  have inv': "ledger_inv H s'" using experiment_cases [OF inv, of bid e] rec by simp
  then have invt: "ledger_inv H t" unfolding t_def by (rule branch_ledger.run_all_inv)
  have old: "ledger_older s' t" unfolding t_def by (rule branch_ledger.run_all_older [OF inv'])
  have xt: "?x \<in> set (experiments t)" using x old set_mono_prefix unfolding ledger_older_def by blast
  have bt: "find_branch bid t \<noteq> None"
  proof -
    obtain r where "r \<in> set (branches s')" "branch_key r = bid" using b bs by (auto simp: find_branch_iff)
    then have "\<exists>r'\<in>set (branches t). branch_key r' = bid"
      using old evolves_member [of same_branch "branches s'" "branches t" r] by (auto simp: ledger_older_def same_branch_def)
    then show ?thesis by (auto simp: find_branch_iff)
  qed
  have "select_one (\<lambda>r. experiment_key r = experiment_id e \<and> experiment_branch r = bid) (experiments t) = Some ?x"
  proof -
    obtain y where y: "select_one (\<lambda>r. experiment_key r = experiment_id e \<and> experiment_branch r = bid) (experiments t) = Some y"
      using xt by (cases "select_one (\<lambda>r. experiment_key r = experiment_id e \<and> experiment_branch r = bid) (experiments t)")
        (auto simp: select_one_None)
    have "distinct (map experiment_key (experiments t))" using invt by (simp add: ledger_inv_def)
    from unique_row [OF this _ xt, of y] select_one_SomeD [OF y] show ?thesis using y by simp
  qed
  moreover have "select_one (\<lambda>r. experiment_branch r = bid \<and> evidence_sha256 r = evidence_sha H e) (experiments t) \<noteq> None"
    unfolding select_one_None using bexI [OF _ xt, of "\<lambda>r. experiment_branch r = bid \<and> evidence_sha256 r = evidence_sha H e"] by simp
  moreover have "\<not> blank (snd (verdict_of (stored_evidence e)))"
    by (simp add: verdict_of_def not_blank isspace_def)
  ultimately show ?thesis using bt unfolding verdict_of_stored [OF dict, symmetric]
    by (auto simp: classify_from_evidence_def transition_def log_status_def find_branch_def split_beta select_one_update_where)
qed

definition demo_branch :: theory_branch where
  "demo_branch = \<lparr>branch_id = ''b'', mathematical_definition = ''m'', assumptions = [], parameters = [], observable_map = [],
     implementation_identity = ''i'', falsification_criteria = [''f''], declared_status = ACTIVE_HYPOTHESIS, parent_branch_id = None,
     branch_metadata = [], branch_created_at = ''t''\<rparr>"

definition demo_evidence :: experiment_evidence where
  "demo_evidence = \<lparr>experiment_id = ''e'', bound_branch_sha256 = branch_sha id demo_branch, implementation_sha256 = ''s'',
     inputs_sha256 = ''s'', experiment_result = [], verification = [], falsified = True, verifier_independent = True, recorded_at = ''t''\<rparr>"

lemma experiment_verdict_forever_witness:
  "\<exists>s' u. record_experiment id ''b'' demo_evidence (run_all (run_ledger id) [Add_Branch 0 demo_branch] new_ledger) = (Inr ''e'', s')
     \<and> classify_from_evidence id (\<lambda>n. 0) ''b'' ''e'' s' = (Inr REJECTED, u)"
proof -
  let ?s = "run_all (run_ledger id) [Add_Branch 0 demo_branch] new_ledger"
  have nb: "\<not> blank ''b''" "\<not> blank ''m''" by (simp_all add: not_blank isspace_def)
  have s: "experiments ?s = []" "find_branch ''b'' ?s = Some \<lparr>branch_key = ''b'', branch_sha256 = branch_sha id demo_branch,
      branch_json = sort_keys (branch_dict demo_branch), current_status = ACTIVE_HYPOTHESIS, row_created_at = ''t'', row_updated_at = ''t''\<rparr>"
    using nb by (simp_all add: add_branch_def new_ledger_def find_branch_def demo_branch_def select_one_Cons)
  then have "\<exists>s'. record_experiment id ''b'' demo_evidence ?s = (Inr ''e'', s')"
    by (simp add: record_experiment_def demo_evidence_def)
  then obtain s' where r: "record_experiment id ''b'' demo_evidence ?s = (Inr ''e'', s')" ..
  have "distinct (map fst (verification demo_evidence))" "experiment_id demo_evidence \<notin> experiment_key ` set (experiments ?s)"
    unfolding s(1) by (simp_all add: demo_evidence_def)
  from experiment_verdict_forever [OF this r, of "\<lambda>n. 0" "[]"] r show ?thesis
    by (auto simp: demo_evidence_def verdict_of_def)
qed

end
