(* ===== verification/Wordbook_Evolution.thy ===== *)
theory Wordbook_Evolution
  imports Hash_Chain Op_Machine
begin

text \<open>
  \<open>wordbook/evolution.py\<close>: the schedule of the hundred cycles of the word book, and the ledger that
  accepts a cycle only on the corpus the previous one has left. The values of the metrics are JSON values.
\<close>

section \<open>Snapshots\<close>

record cycle_spec =
  spec_cycle :: int
  spec_stage :: string
  spec_objective :: string
  metric_keys :: "string list"

record snapshot =
  generation :: int
  corpus_sha256 :: string
  parent_sha256 :: "string option"
  encounter_count :: int
  source_count :: int
  canonical_entry_count :: int

text \<open>
  \<open>int(s, 16)\<close> accepts white space around, a sign, the prefix \<open>0x\<close> and single underscores between digits.
\<close>

definition is_hex :: "char \<Rightarrow> bool" where
  "is_hex c =
     (let n = (of_char c :: nat)
      in 48 \<le> n \<and> n \<le> 57 \<or> 65 \<le> n \<and> n \<le> 70 \<or> 97 \<le> n \<and> n \<le> 102)"

fun hex_digits :: "string \<Rightarrow> bool" where
  "hex_digits [] = False"
| "hex_digits [c] = is_hex c"
| "hex_digits (c # d # cs) = (is_hex c \<and> hex_digits (if d = CHR ''_'' then cs else d # cs))"

definition drop_sign :: "string \<Rightarrow> string" where
  "drop_sign s = (case s of c # cs \<Rightarrow> if c = CHR ''+'' \<or> c = CHR ''-'' then cs else s | [] \<Rightarrow> [])"

definition drop_prefix :: "string \<Rightarrow> string" where
  "drop_prefix s =
     (if startswith s ''0x'' \<or> startswith s ''0X''
      then (case drop 2 s of c # cs \<Rightarrow> if c = CHR ''_'' then cs else c # cs | [] \<Rightarrow> [])
      else s)"

definition int_hex_ok :: "string \<Rightarrow> bool" where
  "int_hex_ok s = hex_digits (drop_prefix (drop_sign (strip s)))"

definition check_digest :: "string \<Rightarrow> string \<Rightarrow> unit result" where
  "check_digest name s =
     (if length s \<noteq> 64 then Inl (ValueError (name @ '' must be a SHA-256 hex digest''))
      else if \<not> int_hex_ok s then Inl (ValueError ''invalid literal for int() with base 16'')
      else Inr ())"

definition validate_snapshot :: "snapshot \<Rightarrow> unit result" where
  "validate_snapshot s =
     (if generation s < 0 then Inl (ValueError ''generation must be non-negative'')
      else case check_digest ''corpus_sha256'' (corpus_sha256 s) of
        Inl e \<Rightarrow> Inl e
      | Inr _ \<Rightarrow>
          (case (case parent_sha256 s of None \<Rightarrow> Inr () | Some p \<Rightarrow> check_digest ''parent_sha256'' p) of
             Inl e \<Rightarrow> Inl e
           | Inr _ \<Rightarrow>
               if \<exists>v\<in>set [encounter_count s, source_count s, canonical_entry_count s]. v < 0
               then Inl (ValueError ''corpus counts must be non-negative'')
               else Inr ()))"

section \<open>The ledger\<close>

record cycle_evidence =
  cycle :: int
  stage :: string
  objective :: string
  input_sha256 :: string
  output_sha256 :: string
  metrics :: json_object
  accepted :: bool
  reasons :: "string list"

definition evidence_dict :: "cycle_evidence \<Rightarrow> json" where
  "evidence_dict e = JObj
     [(''cycle'', JInt (cycle e)), (''stage'', JStr (stage e)), (''objective'', JStr (objective e)),
      (''input_sha256'', JStr (input_sha256 e)), (''output_sha256'', JStr (output_sha256 e)),
      (''metrics'', JObj (metrics e)), (''accepted'', JBool (accepted e)), (''reasons'', JArr (map JStr (reasons e)))]"

definition evidence_digest :: "(string \<Rightarrow> string) \<Rightarrow> cycle_evidence \<Rightarrow> string" where
  "evidence_digest H e = H (dumps compact_ascii (evidence_dict e))"

record word_ledger =
  baseline_sha256 :: string
  active_snapshot :: snapshot
  next_cycle :: int
  evidence_chain :: "string list"
  ledger_status :: string

definition total_cycles :: int where
  "total_cycles = 100"

text \<open>\<open>EvolutionLedger(...)\<close> with \<open>__post_init__\<close>\<close>

definition open_ledger :: "word_ledger \<Rightarrow> word_ledger result" where
  "open_ledger L =
     (case validate_snapshot (active_snapshot L) of
        Inl e \<Rightarrow> Inl e
      | Inr _ \<Rightarrow>
          if generation (active_snapshot L) \<noteq> 0 \<and> evidence_chain L = []
          then Inl (ValueError ''non-baseline snapshots require evidence lineage'')
          else if \<not> (1 \<le> next_cycle L \<and> next_cycle L \<le> total_cycles + 1)
          then Inl (ValueError ''next_cycle out of range'')
          else Inr L)"

definition objections :: "cycle_spec \<Rightarrow> snapshot \<Rightarrow> json_object \<Rightarrow> bool \<Rightarrow> word_ledger \<Rightarrow> string list" where
  "objections spec output ms regression L =
     (let before = active_snapshot L;
          missing = filter (\<lambda>k. get ms k = None) (metric_keys spec)
      in (if ledger_status L \<noteq> ''ACTIVE'' then [''ledger_not_active:'' @ ledger_status L] else [])
       @ (if spec_cycle spec \<noteq> next_cycle L
          then [''out_of_order:expected='' @ int_text (next_cycle L) @ '':observed='' @ int_text (spec_cycle spec)] else [])
       @ (if generation before \<noteq> spec_cycle spec - 1 then [''input_generation_not_bound_to_cycle''] else [])
       @ (if generation output \<noteq> spec_cycle spec then [''output_generation_must_equal_cycle''] else [])
       @ (if parent_sha256 output \<noteq> Some (corpus_sha256 before) then [''output_parent_does_not_match_active_corpus''] else [])
       @ (if corpus_sha256 output = corpus_sha256 before then [''cycle_produced_no_new_corpus_state''] else [])
       @ (if encounter_count output < encounter_count before then [''encounter_history_regressed''] else [])
       @ (if source_count output < source_count before then [''source_history_regressed''] else [])
       @ (if missing \<noteq> [] then [''missing_metrics:'' @ join '','' missing] else [])
       @ (if regression then [''explicit_regression_flag''] else []))"

definition advance :: "(string \<Rightarrow> string) \<Rightarrow> cycle_spec \<Rightarrow> snapshot \<Rightarrow> json_object \<Rightarrow> bool \<Rightarrow> word_ledger \<Rightarrow>
    (cycle_evidence, word_ledger) outcome" where
  "advance H spec output ms regression L =
     (case validate_snapshot output of
        Inl e \<Rightarrow> (Inl e, L)
      | Inr _ \<Rightarrow>
          (let before = active_snapshot L;
               rs = objections spec output ms regression L;
               ev = \<lparr>cycle = spec_cycle spec, stage = spec_stage spec, objective = spec_objective spec,
                     input_sha256 = corpus_sha256 before, output_sha256 = corpus_sha256 output, metrics = ms,
                     accepted = (rs = []), reasons = rs\<rparr>;
               L1 = L\<lparr>evidence_chain := evidence_chain L @ [evidence_digest H ev]\<rparr>
           in if rs = [] then
                (let L2 = L1\<lparr>active_snapshot := output, next_cycle := next_cycle L + 1\<rparr>
                 in (Inr ev, if next_cycle L2 = total_cycles + 1 then L2\<lparr>ledger_status := ''COMPLETE_100''\<rparr> else L2))
              else (Inr ev, L1\<lparr>ledger_status := ''REVIEW_REQUIRED''\<rparr>)))"

section \<open>The schedule\<close>

definition stages :: "(string \<times> string list \<times> string list) list" where
  "stages =
     [
      (''01-corpus-integrity'',
        [''Establish immutable encounter provenance for every captured token and phrase.'',
         ''Detect exact duplicate encounters without deleting source evidence.'',
         ''Detect near-duplicate source passages while preserving distinct provenance.'',
         ''Normalize source identifiers, timestamps, and capture channels.'',
         ''Repair broken source-to-encounter references and quarantine unresolved records.'',
         ''Measure corpus coverage by source, date, and capture pathway.'',
         ''Identify malformed text and encoding anomalies without rewriting originals.'',
         ''Create reversible canonicalization mappings for raw encounter text.'',
         ''Audit corpus deletions, merges, aliases, and reconstruction lineage.'',
         ''Freeze a reproducible generation-10 corpus integrity baseline.''],
        [''provenance_coverage'', ''integrity_error_rate'']),
      (''02-lexical-normalization'',
        [''Improve token boundary detection across punctuation, apostrophes, and hyphenation.'',
         ''Improve case normalization while preserving proper-name and stylistic evidence.'',
         ''Improve lemma assignment with explicit ambiguity retention.'',
         ''Improve part-of-speech tagging using accumulated encounter context.'',
         ''Improve inflection-family grouping without collapsing distinct lexemes.'',
         ''Improve spelling-variant linking across dialect and historical forms.'',
         ''Improve abbreviation and acronym expansion with source-specific senses.'',
         ''Improve named-entity separation from ordinary vocabulary entries.'',
         ''Improve morphology decomposition into roots, affixes, and productive patterns.'',
         ''Calibrate lexical-normalization confidence and preserve unresolved alternatives.''],
        [''normalization_accuracy'', ''ambiguity_preservation'']),
      (''03-sense-modeling'',
        [''Cluster encounters into candidate senses using contextual evidence.'',
         ''Separate homographs and unrelated etymological entries.'',
         ''Merge over-split senses only when corpus evidence supports equivalence.'',
         ''Attach definitions to senses rather than to surface forms alone.'',
         ''Rank senses by the user's observed encounter frequency.'',
         ''Detect source-domain-specific senses and technical meanings.'',
         ''Track sense drift across time and source communities.'',
         ''Represent unresolved polysemy as competing sense hypotheses.'',
         ''Improve sense-disambiguation confidence from accumulated corrections.'',
         ''Calibrate sense inventory quality against held-out encounter contexts.''],
        [''sense_accuracy'', ''sense_calibration'']),
      (''04-phrases-collocations'',
        [''Discover repeated multiword expressions from accumulated encounters.'',
         ''Rank collocations by personal-corpus association strength.'',
         ''Distinguish compositional phrases from idioms and fixed expressions.'',
         ''Detect phrasal verbs and separable constructions.'',
         ''Detect discourse markers and formulaic sentence frames.'',
         ''Link compounds to component lexemes without erasing phrase meaning.'',
         ''Model preferred prepositions and argument patterns for learned words.'',
         ''Extract recurring adjective-noun and verb-object usage patterns.'',
         ''Identify source-specific jargon phrases and reusable terminology.'',
         ''Calibrate phrase recommendations using held-out corpus passages.''],
        [''phrase_precision'', ''phrase_recall'']),
      (''05-register-pragmatics'',
        [''Infer formal, informal, technical, literary, and conversational register evidence.'',
         ''Infer politeness and interpersonal stance from observed contexts.'',
         ''Detect taboo, sensitive, archaic, regional, and marked usage evidence.'',
         ''Model connotation separately from denotation.'',
         ''Model rhetorical function such as emphasis, hedge, contrast, or dismissal.'',
         ''Detect genre-conditioned usage differences across the corpus.'',
         ''Track dialect and regional variants without imposing one as canonical.'',
         ''Improve usage-note generation from evidence-backed contrasts.'',
         ''Detect pragmatic mismatches in candidate example sentences.'',
         ''Calibrate register and pragmatics labels against accumulated corrections.''],
        [''register_accuracy'', ''pragmatic_error_rate'']),
      (''06-personal-language-model'',
        [''Measure the user's observed vocabulary frequency distribution.'',
         ''Distinguish recognized vocabulary from actively produced vocabulary.'',
         ''Model recurring personal collocations and phrase preferences.'',
         ''Measure lexical diversity by source and writing context.'',
         ''Identify words repeatedly encountered but rarely retained.'',
         ''Identify words learned and subsequently used independently.'',
         ''Model personal confusion sets and frequently conflated senses.'',
         ''Model preferred definition depth and explanation granularity from interactions.'',
         ''Estimate personal familiarity without treating model confidence as user knowledge.'',
         ''Calibrate the personal-language profile against explicit user corrections.''],
        [''personalization_gain'', ''familiarity_calibration'']),
      (''07-graph-retrieval'',
        [''Build lexical relations among lemmas, senses, phrases, and encounters.'',
         ''Improve synonym links with sense-level constraints.'',
         ''Improve antonym and contrast-set links with context evidence.'',
         ''Improve etymological and morphological relation navigation.'',
         ''Improve semantic-neighborhood retrieval from the accumulated corpus.'',
         ''Improve source-aware full-text retrieval and provenance display.'',
         ''Improve query expansion without hiding the user's exact search terms.'',
         ''Improve related-word ranking using personal relevance and corpus evidence.'',
         ''Detect graph contradictions, orphan nodes, and unsupported edges.'',
         ''Calibrate retrieval quality against a frozen query benchmark.''],
        [''retrieval_quality'', ''unsupported_edge_rate'']),
      (''08-learning-mastery'',
        [''Generate recall prompts from authentic personal-corpus contexts.'',
         ''Generate cloze exercises with unambiguous answer evidence.'',
         ''Generate sense-contrast exercises for personal confusion sets.'',
         ''Generate morphology exercises grounded in observed word families.'',
         ''Generate collocation exercises grounded in personal encounters.'',
         ''Estimate forgetting risk from review history without fabricating mastery.'',
         ''Improve spaced-review scheduling from observed recall outcomes.'',
         ''Prioritize high-value weak vocabulary using frequency, utility, and difficulty.'',
         ''Detect exercise leakage, trivial cues, and ambiguous grading.'',
         ''Calibrate mastery estimates against held-out recall outcomes.''],
        [''learning_gain'', ''mastery_calibration'']),
      (''09-writing-assistance'',
        [''Suggest learned vocabulary only when semantically appropriate to the draft.'',
         ''Detect misused learned words using sense and argument-pattern evidence.'',
         ''Detect register mismatches between proposed wording and writing context.'',
         ''Suggest personally underused but well-mastered vocabulary without forcing novelty.'',
         ''Suggest corpus-backed collocations and phrase completions.'',
         ''Explain why a proposed substitution changes meaning, tone, or implication.'',
         ''Detect repetition while preserving deliberate rhetorical repetition.'',
         ''Compare the user's draft with their own historical usage patterns.'',
         ''Measure whether writing suggestions preserve intended meaning after revision.'',
         ''Calibrate writing assistance against accepted and rejected suggestions.''],
        [''suggestion_acceptance_quality'', ''meaning_preservation'']),
      (''10-calibration-convergence'',
        [''Audit every derived claim for a traceable corpus or dictionary evidence path.'',
         ''Recompute confidence calibration across lexical, sense, phrase, and register models.'',
         ''Stress-test the corpus against adversarially ambiguous words and contexts.'',
         ''Stress-test ingestion against malformed, duplicated, and contradictory sources.'',
         ''Measure regression against frozen benchmarks from earlier generations.'',
         ''Resolve or explicitly preserve contradictions discovered across model layers.'',
         ''Compress redundant derived state without deleting encounter provenance.'',
         ''Rebuild the complete corpus from raw encounters and verify reproducibility.'',
         ''Compare generation 99 against generation 0 and quantify cumulative improvement.'',
         ''Produce generation 100 with a complete lineage, evidence ledger, and unresolved-unknowns report.''],
        [''global_calibration'', ''reproducibility'', ''cumulative_gain''])]"

text \<open>The running number of the first objective of a stage is passed on.\<close>

fun build_specs :: "int \<Rightarrow> (string \<times> string list \<times> string list) list \<Rightarrow> cycle_spec list result" where
  "build_specs n [] = Inr []"
| "build_specs n ((name, objectives, ms) # rest) =
     (if length objectives \<noteq> 10 then Inl (RuntimeError (''stage '' @ name @ '' must define exactly ten objectives''))
      else case build_specs (n + int (length objectives)) rest of
        Inl e \<Rightarrow> Inl e
      | Inr specs \<Rightarrow>
          Inr (map (\<lambda>(i, x). \<lparr>spec_cycle = n + int i, spec_stage = name, spec_objective = x, metric_keys = ms\<rparr>)
                 (List.enumerate 0 objectives) @ specs))"

definition build_cycle_specs :: "cycle_spec list result" where
  "build_cycle_specs = build_specs 1 stages"

text \<open>\<open>list(dict.fromkeys(xs))\<close>\<close>

definition in_order_once :: "'a list \<Rightarrow> 'a list" where
  "in_order_once xs = rev (remdups (rev xs))"

fun check_stages :: "string list \<Rightarrow> string list \<Rightarrow> unit result" where
  "check_stages names [] = Inr ()"
| "check_stages names (s # ss) =
     (if count_list names s \<noteq> 10 then Inl (ValueError (''stage '' @ s @ '' must contain exactly ten cycles''))
      else check_stages names ss)"

definition validate_cycle_schedule :: "cycle_spec list \<Rightarrow> unit result" where
  "validate_cycle_schedule specs =
     (if int (length specs) \<noteq> total_cycles then Inl (ValueError ''Wordbook requires exactly 100 successive cycles'')
      else if map spec_cycle specs \<noteq> [1..total_cycles]
      then Inl (ValueError ''cycles must be contiguous and ordered from 1 through 100'')
      else if int (card (set (map spec_objective specs))) \<noteq> total_cycles
      then Inl (ValueError ''every Wordbook cycle must have a distinct objective'')
      else (let names = map spec_stage specs; ordered = in_order_once names
            in if length ordered \<noteq> 10 then Inl (ValueError ''Wordbook requires ten ordered stages'')
               else check_stages names ordered))"

section \<open>Accepted cycles\<close>

datatype cycle_call = Cycle_Call cycle_spec snapshot json_object bool

text \<open>The ledger with the evidence it has returned.\<close>

fun run_cycle :: "(string \<Rightarrow> string) \<Rightarrow> cycle_call \<Rightarrow> word_ledger \<times> cycle_evidence list \<Rightarrow> word_ledger \<times> cycle_evidence list" where
  "run_cycle H (Cycle_Call spec output ms regression) (L, evs) =
     (case advance H spec output ms regression L of
        (Inl e, L') \<Rightarrow> (L', evs)
      | (Inr ev, L') \<Rightarrow> (L', evs @ [ev]))"

text \<open>What a snapshot must be to be accepted after another.\<close>

definition successor :: "snapshot \<Rightarrow> snapshot \<Rightarrow> bool" where
  "successor a b \<longleftrightarrow> validate_snapshot b = Inr () \<and> generation b = generation a + 1
     \<and> parent_sha256 b = Some (corpus_sha256 a) \<and> corpus_sha256 b \<noteq> corpus_sha256 a
     \<and> encounter_count a \<le> encounter_count b \<and> source_count a \<le> source_count b"

definition measured :: "cycle_spec \<Rightarrow> json_object \<Rightarrow> bool" where
  "measured spec ms \<longleftrightarrow> list_all (\<lambda>k. get ms k \<noteq> None) (metric_keys spec)"

text \<open>The evidence of an accepted call: what was asked for, with every metric it names and no regression flag.\<close>

fun output_of :: "cycle_call \<Rightarrow> snapshot" where
  "output_of (Cycle_Call spec output ms regression) = output"

fun accepted_as :: "cycle_call \<Rightarrow> cycle_evidence \<Rightarrow> bool" where
  "accepted_as (Cycle_Call spec output ms regression) e \<longleftrightarrow>
     cycle e = spec_cycle spec \<and> stage e = spec_stage spec \<and> objective e = spec_objective spec \<and> metrics e = ms
     \<and> output_sha256 e = corpus_sha256 output \<and> reasons e = [] \<and> measured spec ms \<and> \<not> regression"

text \<open>
  The lineage of the accepted calls: each hands in a valid successor of the snapshot before it, which names that
  one as its parent and has no smaller histories, and the last one is the active snapshot.
\<close>

definition lineage :: "snapshot \<Rightarrow> word_ledger \<Rightarrow> cycle_call list \<Rightarrow> cycle_evidence list \<Rightarrow> bool" where
  "lineage base L cs good \<longleftrightarrow> list_all2 accepted_as cs good \<and> successively successor (base # map output_of cs)
     \<and> active_snapshot L = last (base # map output_of cs)"

text \<open>Each accepted cycle starts from the corpus the previous one has left.\<close>

fun linked :: "string \<Rightarrow> cycle_evidence list \<Rightarrow> string \<Rightarrow> bool" where
  "linked sha [] final = (sha = final)"
| "linked sha (e # es) final = (input_sha256 e = sha \<and> output_sha256 e \<noteq> sha \<and> linked (output_sha256 e) es final)"

definition cycles_in_order :: "snapshot \<Rightarrow> word_ledger \<Rightarrow> cycle_evidence list \<Rightarrow> bool" where
  "cycles_in_order base L good \<longleftrightarrow> map cycle good = [1..int (length good)]
     \<and> generation (active_snapshot L) = int (length good) \<and> next_cycle L = int (length good) + 1
     \<and> linked (corpus_sha256 base) good (corpus_sha256 (active_snapshot L))
     \<and> encounter_count base \<le> encounter_count (active_snapshot L) \<and> source_count base \<le> source_count (active_snapshot L)"

definition status_of :: "cycle_evidence list \<Rightarrow> cycle_evidence list \<Rightarrow> string" where
  "status_of good bad = (if bad \<noteq> [] then ''REVIEW_REQUIRED''
     else if int (length good) = total_cycles then ''COMPLETE_100'' else ''ACTIVE'')"

definition ledger_sound :: "(string \<Rightarrow> string) \<Rightarrow> snapshot \<Rightarrow> cycle_call list \<Rightarrow> word_ledger \<Rightarrow> cycle_evidence list \<Rightarrow> bool" where
  "ledger_sound H base calls L evs \<longleftrightarrow> evidence_chain L = map (evidence_digest H) evs
     \<and> (let good = takeWhile accepted evs; bad = dropWhile accepted evs
        in list_all (Not \<circ> accepted) bad \<and> cycles_in_order base L good \<and> int (length good) \<le> total_cycles
           \<and> (\<exists>cs. subseq cs calls \<and> lineage base L cs good) \<and> ledger_status L = status_of good bad)"

lemma linked_snoc: "linked sha (es @ [e]) final \<longleftrightarrow> linked sha es (input_sha256 e) \<and> output_sha256 e \<noteq> input_sha256 e \<and> output_sha256 e = final"
  by (induction es arbitrary: sha) auto

lemma upto_Suc: "[1..int n] @ [int n + 1] = [1..int n + 1]"
  by (simp add: upto_rec2)

lemma takeWhile_snoc: "takeWhile P (xs @ [x]) = (if list_all P xs then takeWhile P xs @ (if P x then [x] else []) else takeWhile P xs)"
  by (induction xs) auto

lemma dropWhile_snoc: "dropWhile P (xs @ [x]) = (if list_all P xs then (if P x then [] else [x]) else dropWhile P xs @ [x])"
  by (induction xs) auto

lemma dropWhile_none: "dropWhile P xs = [] \<longleftrightarrow> list_all P xs"
  by (induction xs) auto

lemma successively_snoc: "xs \<noteq> [] \<Longrightarrow> successively R (xs @ [x]) \<longleftrightarrow> successively R xs \<and> R (last xs) x"
  by (simp add: successively_append_iff)

lemma lineage_snoc:
  assumes "lineage base L cs good" "accepted_as c e" "successor (active_snapshot L) (output_of c)" "active_snapshot L' = output_of c"
  shows "lineage base L' (cs @ [c]) (good @ [e])"
  using assms successively_snoc [of "base # map output_of cs" successor "output_of c"]
  by (simp add: lineage_def list_all2_appendI)

lemma sound_step:
  assumes "ledger_sound H base calls L evs"
  shows "(\<lambda>(L', evs'). ledger_sound H base (calls @ [Cycle_Call spec output ms regression]) L' evs')
    (run_cycle H (Cycle_Call spec output ms regression) (L, evs))"
proof -
  let ?good = "takeWhile accepted evs" and ?bad = "dropWhile accepted evs" and ?c = "Cycle_Call spec output ms regression"
  obtain cs where inv: "evidence_chain L = map (evidence_digest H) evs" "list_all (Not \<circ> accepted) ?bad" "cycles_in_order base L ?good"
    "int (length ?good) \<le> total_cycles" "ledger_status L = status_of ?good ?bad" and cs: "subseq cs calls" "lineage base L cs ?good"
    using assms by (auto simp: ledger_sound_def Let_def)
  have more: "subseq cs (calls @ [?c])" using cs(1) by (rule subseq_rev_drop_many)
  show ?thesis
  proof (cases "validate_snapshot output")
    case (Inl e)
    then have "run_cycle H ?c (L, evs) = (L, evs)" by (simp add: advance_def)
    then show ?thesis using inv cs(2) more by (auto simp: ledger_sound_def Let_def)
  next
    case (Inr u)
    let ?rs = "objections spec output ms regression L"
    define ev where "ev = \<lparr>cycle = spec_cycle spec, stage = spec_stage spec, objective = spec_objective spec,
       input_sha256 = corpus_sha256 (active_snapshot L), output_sha256 = corpus_sha256 output, metrics = ms, accepted = (?rs = []), reasons = ?rs\<rparr>"
    have ev: "cycle ev = spec_cycle spec" "input_sha256 ev = corpus_sha256 (active_snapshot L)" "output_sha256 ev = corpus_sha256 output"
      "accepted ev \<longleftrightarrow> ?rs = []" by (simp_all add: ev_def)
    have adv: "advance H spec output ms regression L = (Inr ev,
        if ?rs = [] then L\<lparr>evidence_chain := evidence_chain L @ [evidence_digest H ev], active_snapshot := output, next_cycle := next_cycle L + 1,
            ledger_status := if next_cycle L + 1 = total_cycles + 1 then ''COMPLETE_100'' else ledger_status L\<rparr>
        else L\<lparr>evidence_chain := evidence_chain L @ [evidence_digest H ev], ledger_status := ''REVIEW_REQUIRED''\<rparr>)"
      using Inr by (simp add: advance_def Let_def ev_def)
    show ?thesis
    proof (cases "?rs = []")
      case False
      then have "list_all (Not \<circ> accepted) (dropWhile accepted (evs @ [ev]))" "takeWhile accepted (evs @ [ev]) = ?good"
        "dropWhile accepted (evs @ [ev]) \<noteq> []"
        using inv(2) ev(4) by (auto simp: takeWhile_snoc dropWhile_snoc)
      then show ?thesis using False inv(1,3,4) cs(2) more
        by (auto simp: adv ledger_sound_def cycles_in_order_def status_of_def lineage_def Let_def)
    next
      case True
      have act: "ledger_status L = ''ACTIVE''" and n: "spec_cycle spec = next_cycle L" "generation output = spec_cycle spec"
        "corpus_sha256 output \<noteq> corpus_sha256 (active_snapshot L)" "encounter_count (active_snapshot L) \<le> encounter_count output"
        "source_count (active_snapshot L) \<le> source_count output"
        and par: "parent_sha256 output = Some (corpus_sha256 (active_snapshot L))" "generation (active_snapshot L) = spec_cycle spec - 1"
        and met: "measured spec ms" "\<not> regression"
        using True by (auto simp: objections_def Let_def measured_def list_all_iff filter_empty_conv split: if_splits)
      have next_one: "successor (active_snapshot L) output" using Inr n par by (simp add: successor_def)
      have as: "accepted_as ?c ev" using True met by (simp add: ev_def)
      have all: "list_all accepted evs" using act inv(5) by (simp add: status_of_def dropWhile_none list_all_iff split: if_splits)
      then have g: "?good = evs" "?bad = []" by (simp_all add: takeWhile_eq_all_conv list_all_iff)
      have lt: "int (length evs) < total_cycles" using act inv(4,5) unfolding g by (simp add: status_of_def split: if_splits)
      have good: "takeWhile accepted (evs @ [ev]) = evs @ [ev]" "dropWhile accepted (evs @ [ev]) = []" "?good = evs"
        using all True g ev(4) by (simp_all add: takeWhile_snoc dropWhile_snoc)
      define L' where "L' = L\<lparr>evidence_chain := evidence_chain L @ [evidence_digest H ev], active_snapshot := output,
        next_cycle := next_cycle L + 1, ledger_status := if next_cycle L + 1 = total_cycles + 1 then ''COMPLETE_100'' else ledger_status L\<rparr>"
      have run: "run_cycle H ?c (L, evs) = (L', evs @ [ev])" using True by (simp add: adv L'_def)
      have "map cycle (evs @ [ev]) = [1..int (length (evs @ [ev]))]"
        using inv(3) n(1) upto_Suc [of "length evs"] by (simp add: cycles_in_order_def good(3) add.commute ev)
      moreover have "linked (corpus_sha256 base) (evs @ [ev]) (corpus_sha256 output)"
        using inv(3) n(3) by (simp add: linked_snoc cycles_in_order_def good(3) ev)
      ultimately have order: "cycles_in_order base L' (evs @ [ev])"
        using inv(3) n by (simp add: cycles_in_order_def good(3) L'_def)
      have "lineage base L' (cs @ [?c]) (evs @ [ev])"
        by (rule lineage_snoc [OF cs(2) [unfolded good(3)] as]) (simp_all add: next_one L'_def)
      moreover have "subseq (cs @ [?c]) (calls @ [?c])" using cs(1) by simp
      moreover have "ledger_status L' = status_of (evs @ [ev]) []"
        using act inv(3) by (simp add: L'_def status_of_def cycles_in_order_def good(3))
      moreover have "evidence_chain L' = map (evidence_digest H) (evs @ [ev])" using inv(1) by (simp add: L'_def)
      ultimately have "ledger_sound H base (calls @ [?c]) L' (evs @ [ev])"
        unfolding ledger_sound_def Let_def good(1,2) using order lt by (intro conjI exI [of _ "cs @ [?c]"]) simp_all
      then show ?thesis unfolding run by simp
    qed
  qed
qed

lemma sound_run:
  "ledger_sound H base done_calls L evs \<Longrightarrow>
   (\<lambda>(L', evs'). ledger_sound H base (done_calls @ calls) L' evs') (run_all (run_cycle H) calls (L, evs))"
proof (induction calls arbitrary: done_calls L evs)
  case (Cons c calls)
  obtain spec out ms reg where c: "c = Cycle_Call spec out ms reg" by (cases c)
  obtain L1 evs1 where r: "run_cycle H c (L, evs) = (L1, evs1)" by (rule prod.exhaust)
  then have "ledger_sound H base (done_calls @ [c]) L1 evs1" using sound_step [OF Cons.prems, of spec out ms reg] unfolding c by simp
  then show ?case using Cons.IH [of "done_calls @ [c]" L1 evs1] by (simp add: r)
qed simp

definition baseline_ledger :: "snapshot \<Rightarrow> word_ledger" where
  "baseline_ledger base = \<lparr>baseline_sha256 = corpus_sha256 base, active_snapshot = base, next_cycle = 1, evidence_chain = [],
     ledger_status = ''ACTIVE''\<rparr>"

lemma baseline_sound: "generation base = 0 \<Longrightarrow> ledger_sound H base [] (baseline_ledger base) []"
  by (simp add: ledger_sound_def lineage_def cycles_in_order_def status_of_def baseline_ledger_def total_cycles_def)

section \<open>Properties\<close>

text \<open>
  C32. The ledger accepts cycles one after the other and stops at the first objection. Whatever is handed in, the
  accepted evidence is that of some of the calls, in their order: the cycles are numbered from 1, each hands in
  a valid snapshot of the next generation that names the corpus before it as its parent, differs from it and has
  no fewer encounters and sources, with every metric of its cycle and no regression flag; the last of them is the
  active snapshot. Once a cycle was not accepted none is. The ledger is \<open>COMPLETE_100\<close> exactly when a
  hundred were accepted and nothing was handed in after them, and a further call, which is not accepted, turns
  it to \<open>REVIEW_REQUIRED\<close>.
\<close>

theorem word_ledger_sound:
  fixes H calls
  assumes base: "open_ledger (baseline_ledger base) = Inr L0"
    and run: "run_all (run_cycle H) calls (L0, []) = (L, evs)"
  defines "good \<equiv> takeWhile accepted evs" and "bad \<equiv> dropWhile accepted evs"
  shows "evidence_chain L = map (evidence_digest H) evs \<and> list_all (Not \<circ> accepted) bad
    \<and> cycles_in_order base L good \<and> (\<exists>cs. subseq cs calls \<and> lineage base L cs good)
    \<and> (ledger_status L = ''COMPLETE_100'' \<longleftrightarrow> length evs = 100 \<and> list_all accepted evs)
    \<and> (ledger_status L = ''ACTIVE'' \<longleftrightarrow> length evs < 100 \<and> list_all accepted evs)
    \<and> ledger_status L \<in> {''ACTIVE'', ''COMPLETE_100'', ''REVIEW_REQUIRED''}"
proof -
  have "generation base = 0" and L0: "L0 = baseline_ledger base"
    using base by (auto simp: open_ledger_def baseline_ledger_def split: sum.splits if_splits)
  then have "ledger_sound H base calls L evs" using sound_run [OF baseline_sound, of base H calls] run by auto
  then have s: "evidence_chain L = map (evidence_digest H) evs" "list_all (Not \<circ> accepted) bad" "cycles_in_order base L good"
    "int (length good) \<le> total_cycles" "\<exists>cs. subseq cs calls \<and> lineage base L cs good" "ledger_status L = status_of good bad"
    by (simp_all add: ledger_sound_def Let_def good_def bad_def)
  have b: "bad = [] \<longleftrightarrow> list_all accepted evs" unfolding bad_def by (rule dropWhile_none)
  have g: "good = evs" if "list_all accepted evs" using that by (simp add: good_def takeWhile_eq_all_conv list_all_iff)
  show ?thesis
  proof (cases "bad = []")
    case True
    then have "list_all accepted evs" "good = evs" using b g by auto
    then show ?thesis using s True by (auto simp: status_of_def total_cycles_def)
  next
    case False
    then show ?thesis using s b by (simp add: status_of_def)
  qed
qed

text \<open>\<open>CYCLE_SPECS\<close>\<close>

definition cycle_specs :: "cycle_spec list" where
  "cycle_specs = (case build_cycle_specs of Inl e \<Rightarrow> [] | Inr specs \<Rightarrow> specs)"

text \<open>The hundred objectives differ: already by their length and two characters.\<close>

lemma stages_objectives: "map (length \<circ> fst \<circ> snd) stages = replicate 10 10"
  by (simp add: stages_def numeral_eq_Suc)

lemma distinct_objectives: "distinct (concat (map (fst \<circ> snd) stages))"
proof -
  have "distinct (map (\<lambda>s. (length s * 256 + of_char (s ! 0)) * 256 + of_char (s ! 16) :: nat) (concat (map (fst \<circ> snd) stages)))"
    by (simp add: stages_def)
  then show ?thesis by (simp only: distinct_map)
qed

lemma distinct_stages: "distinct (map fst stages)"
  by (simp add: stages_def)

lemma build_specs_ok:
  "list_all (\<lambda>st. length (fst (snd st)) = 10) sts \<Longrightarrow> \<exists>specs. build_specs n sts = Inr specs
     \<and> map spec_cycle specs = [n..n + 10 * int (length sts) - 1]
     \<and> map spec_objective specs = concat (map (fst \<circ> snd) sts)
     \<and> map spec_stage specs = concat (map (replicate 10) (map fst sts))"
proof (induction sts arbitrary: n)
  case (Cons st sts)
  obtain name obs ms where st: "st = (name, obs, ms)" by (cases st)
  then have len: "length obs = 10" using Cons.prems by simp
  obtain specs where s: "build_specs (n + 10) sts = Inr specs" "map spec_cycle specs = [n + 10..n + 10 + 10 * int (length sts) - 1]"
    "map spec_objective specs = concat (map (fst \<circ> snd) sts)" "map spec_stage specs = concat (map (replicate 10) (map fst sts))"
    using Cons by fastforce
  let ?new = "map (\<lambda>(i, x). \<lparr>spec_cycle = n + int i, spec_stage = name, spec_objective = x, metric_keys = ms\<rparr>) (List.enumerate 0 obs)"
  have c: "map spec_cycle ?new = [n..n + 9]"
  proof -
    have "map spec_cycle ?new = map (\<lambda>i. n + int i) (map fst (List.enumerate 0 obs))"
      by (simp add: comp_def split_beta del: map_fst_enumerate)
    also have "\<dots> = map (\<lambda>i. n + int i) [0..<10]" by (simp only: map_fst_enumerate len add_0)
    also have "\<dots> = [n..n + 9]" by (simp add: upt_rec upto_rec1)
    finally show ?thesis .
  qed
  have o: "map spec_objective ?new = obs"
  proof -
    have "map spec_objective ?new = map snd (List.enumerate 0 obs)" by (simp add: comp_def split_beta)
    then show ?thesis by simp
  qed
  have t: "map spec_stage ?new = replicate 10 name"
    by (simp add: comp_def split_beta map_replicate_const len)
  have "[n..n + 9] @ [n + 10..n + 10 + 10 * int (length sts) - 1] = [n..n + 10 * int (length (st # sts)) - 1]"
    using upto_split1 [of n "n + 10" "n + 10 + 10 * int (length sts) - 1"] by (cases sts) (simp_all add: algebra_simps)
  then show ?case using s c o t by (simp add: st len comp_def)
qed simp

lemma once_concat: "distinct ns \<Longrightarrow> in_order_once (concat (map (replicate 10) ns)) = ns"
proof -
  assume "distinct ns"
  have r: "remdups (concat (map (replicate 10) ms)) = ms" if "distinct ms" for ms :: "'a list"
    using that
  proof (induction ms)
    case (Cons m ms)
    have "remdups (replicate (Suc k) m @ xs) = m # remdups xs" if "m \<notin> set xs" for k and xs :: "'a list"
      using that by (induction k) auto
    from this [of "concat (map (replicate 10) ms)" 9] Cons show ?case by simp
  qed simp
  show ?thesis unfolding in_order_once_def rev_concat using r [of "rev ns"] \<open>distinct ns\<close> by (simp add: rev_map comp_def)
qed

lemma stages_balanced:
  assumes "distinct ns" "set ms \<subseteq> set ns"
  shows "check_stages (concat (map (replicate 10) ns)) ms = Inr ()"
proof -
  have c: "count_list (concat (map (replicate 10) ns)) m = 10" if "m \<in> set ns" "distinct ns" for m ns
    using that
  proof (induction ns)
    case (Cons a ns)
    have r: "count_list (replicate k x) m = (if x = m then k else 0)" for k x by (induction k) auto
    have z: "count_list (concat (map (replicate 10) ns)) m = 0" if "m \<notin> set ns"
      using that by (simp add: count_list_0_iff)
    show ?case using Cons r z by (auto simp: count_list_append)
  qed simp
  show ?thesis using assms(2) c [OF _ assms(1)] by (induction ms) auto
qed

lemma schedule_valid: "validate_cycle_schedule cycle_specs = Inr ()"
proof -
  have "list_all (\<lambda>st. length (fst (snd st)) = 10) stages" and n: "length stages = 10"
    using stages_objectives by (metis (mono_tags, lifting) comp_apply in_set_replicate list.set_map list_all_iff image_eqI)
      (metis length_map length_replicate stages_objectives)
  from build_specs_ok [OF this(1), of 1] obtain specs where s: "build_specs 1 stages = Inr specs"
    "map spec_cycle specs = [1..total_cycles]" "map spec_objective specs = concat (map (fst \<circ> snd) stages)"
    "map spec_stage specs = concat (map (replicate 10) (map fst stages))" by (auto simp: n total_cycles_def)
  have cs: "cycle_specs = specs" by (simp add: cycle_specs_def build_cycle_specs_def s(1))
  have len: "int (length specs) = total_cycles" using arg_cong [OF s(2), of length] by (simp add: total_cycles_def)
  have "card (set (map spec_objective specs)) = length specs" unfolding s(3)
    using distinct_card [OF distinct_objectives] arg_cong [OF s(3), of length] by simp
  then show ?thesis unfolding validate_cycle_schedule_def Let_def cs s(2,4) once_concat [OF distinct_stages]
    by (simp add: len n stages_balanced [OF distinct_stages] del: map_map)
qed

definition calls_of :: "cycle_spec list \<Rightarrow> snapshot list \<Rightarrow> json_object list \<Rightarrow> cycle_call list" where
  "calls_of specs outs mss = map (\<lambda>(spec, out, ms). Cycle_Call spec out ms False) (zip specs (zip outs mss))"

lemma accepted_cycle:
  assumes "successor (active_snapshot L) out" "measured spec ms" "ledger_status L = ''ACTIVE''" "spec_cycle spec = next_cycle L"
    "generation (active_snapshot L) = next_cycle L - 1"
  shows "\<exists>ev L'. run_cycle H (Cycle_Call spec out ms False) (L, evs) = (L', evs @ [ev]) \<and> accepted ev \<and> active_snapshot L' = out
    \<and> next_cycle L' = next_cycle L + 1
    \<and> ledger_status L' = (if next_cycle L = total_cycles then ''COMPLETE_100'' else ''ACTIVE'')"
proof -
  have "objections spec out ms False L = []"
    using assms by (auto simp: objections_def successor_def measured_def list_all_iff filter_empty_conv Let_def)
  then show ?thesis using assms by (simp add: advance_def successor_def Let_def)
qed

lemma accepted_cycles:
  assumes "length outs = length specs" "successively successor (active_snapshot L # outs)" "list_all2 measured specs mss"
    "ledger_status L = ''ACTIVE''" "next_cycle L = n" "generation (active_snapshot L) = n - 1"
    "map spec_cycle specs = [n..n + int (length specs) - 1]" "n + int (length specs) - 1 \<le> total_cycles" "list_all accepted evs"
  shows "\<exists>L' evs'. run_all (run_cycle H) (calls_of specs outs mss) (L, evs) = (L', evs') \<and> list_all accepted evs'
    \<and> length evs' = length evs + length specs
    \<and> ledger_status L' = (if specs \<noteq> [] \<and> n + int (length specs) - 1 = total_cycles then ''COMPLETE_100'' else ''ACTIVE'')"
  using assms
proof (induction specs arbitrary: outs mss L evs n)
  case Nil
  then show ?case by (simp add: calls_of_def)
next
  case (Cons spec specs)
  obtain out outs' where outs: "outs = out # outs'" using Cons.prems(1) by (cases outs) auto
  obtain ms mss' where mss: "mss = ms # mss'" "measured spec ms" "list_all2 measured specs mss'"
    using Cons.prems(3) by (auto simp: list_all2_Cons1)
  have up: "[n..n + int (length (spec # specs)) - 1] = n # [n + 1..n + 1 + int (length specs) - 1]"
    by (subst upto_rec1) (simp_all add: algebra_simps)
  have n: "spec_cycle spec = n" "map spec_cycle specs = [n + 1..n + 1 + int (length specs) - 1]"
    using Cons.prems(7) unfolding up by simp_all
  have s: "successor (active_snapshot L) out" "successively successor (out # outs')" using Cons.prems(2) by (auto simp: outs)
  obtain ev L1 where L1: "run_cycle H (Cycle_Call spec out ms False) (L, evs) = (L1, evs @ [ev])" "accepted ev" "active_snapshot L1 = out"
    "next_cycle L1 = n + 1" "ledger_status L1 = (if n = total_cycles then ''COMPLETE_100'' else ''ACTIVE'')"
    using accepted_cycle [OF s(1) mss(2) Cons.prems(4)] n(1) Cons.prems(5,6) by metis
  have c: "calls_of (spec # specs) outs mss = Cycle_Call spec out ms False # calls_of specs outs' mss'"
    by (simp add: calls_of_def outs mss(1))
  show ?case
  proof (cases "specs = []")
    case True
    then show ?thesis using L1 Cons.prems(9) unfolding c by (simp add: calls_of_def list_all_iff del: run_cycle.simps)
  next
    case False
    then have lt: "n \<noteq> total_cycles" using Cons.prems(8) by (cases specs) auto
    have g: "generation (active_snapshot L1) = n + 1 - 1" using s(1) Cons.prems(6) by (simp add: L1(3) successor_def)
    from Cons.IH [OF _ _ mss(3) _ L1(4) g n(2), of outs' "evs @ [ev]"] False show ?thesis
      using Cons.prems(1,8,9) s(2) L1(2,3,5) lt unfolding c by (simp add: L1(1) outs algebra_simps list_all_iff del: run_cycle.simps)
  qed
qed

text \<open>
  C33. The hundred cycles can be completed: the built schedule is valid, and a ledger opened on a baseline
  that is handed its hundred cycles in order, each with a valid successor of the corpus before and a value
  for every metric the cycle names, accepts them all and is \<open>COMPLETE_100\<close>.
\<close>

theorem hundred_cycles_complete:
  assumes base: "open_ledger (baseline_ledger base) = Inr L0"
    and outs: "length outs = 100" "successively successor (base # outs)"
    and mss: "list_all2 measured cycle_specs mss"
  shows "validate_cycle_schedule cycle_specs = Inr ()
    \<and> (\<exists>L evs. run_all (run_cycle H) (calls_of cycle_specs outs mss) (L0, []) = (L, evs)
         \<and> length evs = 100 \<and> list_all accepted evs \<and> ledger_status L = ''COMPLETE_100'')"
proof -
  have L0: "generation base = 0" "L0 = baseline_ledger base"
    using base by (auto simp: open_ledger_def baseline_ledger_def split: sum.splits if_splits)
  have cs: "int (length cycle_specs) = total_cycles" "map spec_cycle cycle_specs = [1..total_cycles]"
    using schedule_valid by (auto simp: validate_cycle_schedule_def Let_def split: if_splits)
  then have "length outs = length cycle_specs" using outs(1) by (simp add: total_cycles_def)
  from accepted_cycles [OF this _ mss, of L0 1 "[]" H] show ?thesis
    using schedule_valid cs outs L0 by (auto simp: baseline_ledger_def total_cycles_def)
qed

definition demo_snapshot :: "nat \<Rightarrow> snapshot" where
  "demo_snapshot i = \<lparr>generation = int i, corpus_sha256 = replicate 64 (if even i then CHR ''0'' else CHR ''1''),
     parent_sha256 = (if i = 0 then None else Some (replicate 64 (if even i then CHR ''1'' else CHR ''0''))),
     encounter_count = 0, source_count = 0, canonical_entry_count = 0\<rparr>"

lemma demo_digest: "check_digest name (replicate 64 (CHR ''0'')) = Inr ()" "check_digest name (replicate 64 (CHR ''1'')) = Inr ()"
  by (simp_all add: check_digest_def int_hex_ok_def strip_def lstrip_def rstrip_def isspace_def drop_sign_def drop_prefix_def
      startswith_def is_hex_def numeral_eq_Suc)

lemma demo_valid: "validate_snapshot (demo_snapshot i) = Inr ()"
  by (simp add: validate_snapshot_def demo_snapshot_def demo_digest)

lemma demo_open: "open_ledger (baseline_ledger (demo_snapshot 0)) = Inr (baseline_ledger (demo_snapshot 0))"
  by (simp add: open_ledger_def baseline_ledger_def demo_valid total_cycles_def) (simp add: demo_snapshot_def)

lemma demo_successor: "successor (demo_snapshot i) (demo_snapshot (Suc i))"
  unfolding successor_def demo_valid by (simp add: demo_snapshot_def)

lemma demo_chain: "successively successor (map demo_snapshot [0..<101])"
  by (simp add: successively_conv_nth demo_successor del: upt_conv_Cons upt_rec_numeral)

definition demo_metrics :: "cycle_spec \<Rightarrow> json_object" where
  "demo_metrics spec = map (\<lambda>k. (k, JInt 0)) (metric_keys spec)"

lemma demo_measured: "list_all2 measured specs (map demo_metrics specs)"
  by (induction specs) (auto simp: measured_def demo_metrics_def get_def list_all_iff map_of_eq_None_iff image_image)

lemma hundred_cycles_complete_witness:
  "\<exists>L evs. run_all (run_cycle id) (calls_of cycle_specs (map demo_snapshot [1..<101]) (map demo_metrics cycle_specs))
       (baseline_ledger (demo_snapshot 0), []) = (L, evs) \<and> ledger_status L = ''COMPLETE_100''"
proof -
  have "[0..<101] = 0 # [1..<101]" by (subst upt_rec) simp
  then have "successively successor (demo_snapshot 0 # map demo_snapshot [1..<101])" using demo_chain by (metis list.simps(9))
  from hundred_cycles_complete [OF demo_open _ this demo_measured, of id] show ?thesis by auto
qed

lemma word_ledger_sound_witness:
  "\<exists>L evs cs. run_all (run_cycle id) (calls_of cycle_specs (map demo_snapshot [1..<101]) (map demo_metrics cycle_specs))
       (baseline_ledger (demo_snapshot 0), []) = (L, evs)
     \<and> lineage (demo_snapshot 0) L cs (takeWhile accepted evs) \<and> evidence_chain L = map (evidence_digest id) evs"
proof -
  let ?calls = "calls_of cycle_specs (map demo_snapshot [1..<101]) (map demo_metrics cycle_specs)"
  obtain L evs where r: "run_all (run_cycle id) ?calls (baseline_ledger (demo_snapshot 0), []) = (L, evs)"
    by (rule prod.exhaust)
  from word_ledger_sound [OF demo_open r] r show ?thesis by blast
qed

end
