(* ===== verification/Interop.thy ===== *)
theory Interop
  imports Federation Py_Json Iso_Time
begin

text \<open>
  \<open>centinal26/interop.py\<close>: manifests of adapters for the protocols A2A and MCP, their validation against the
  catalog, and the choice of a route. A manifest arrives as a JSON object whose fields may hold anything;
  fields the parser does not convert stay JSON values. A value of the wrong type that reaches a check
  raises \<open>TypeError\<close>, which \<open>validate_manifest_dict\<close> catches only around the parser.
\<close>

section \<open>Manifests\<close>

datatype protocol_family = A2A | MCP

datatype authorization_state = UNREGISTERED | REGISTERED | AUTHORIZED | REVOKED | EXPIRED | AUTH_QUARANTINED

datatype trust_tier = CANONICAL | COMPATIBLE_MODULE | EXPERIMENTAL | SUPERSEDED | TIER_REJECTED

datatype health_status = HEALTHY | DEGRADED | STALE | OFFLINE | HEALTH_QUARANTINED

datatype transport_semantics = STATELESS_REQUEST | TASK_STATE | APPLICATION_STATE

record capability_descriptor =
  capability_id :: json
  canonical_operation :: json
  protocol_operation :: json
  required_scopes :: "string list"
  side_effects :: json
  capability_verification :: json
  timeout_ms :: json
  concurrency_limit :: json

record auth_profile =
  auth_type :: json
  credential_binding :: json
  storage_policy :: json
  requires_user_presence :: json
  delegation_allowed :: json
  auth_scopes :: "string list"
  issuer :: json
  audience :: json

record session_state =
  state_id :: json
  semantics :: transport_semantics
  state_owner :: json
  resumable :: json
  protocol_state :: json_object

record health_lease =
  lease_id :: json
  subject_id :: json
  issued_at :: json
  expires_at :: json
  heartbeat_interval_s :: json
  grace_s :: json
  health :: health_status
  last_seen_at :: json
  renewal_counter :: json

record artifact_identity =
  artifact_sha256 :: json
  artifact_source :: json
  artifact_license :: json

record manifest =
  schema_version :: json
  adapter_id :: json
  adapter_version :: json
  adapter_type :: json
  family :: protocol_family
  protocol_version :: json
  endpoint :: json
  authorization :: authorization_state
  trust :: trust_tier
  discovery :: json_object
  auth :: auth_profile
  session :: session_state
  lease :: health_lease
  manifest_capabilities :: "capability_descriptor list"
  artifact :: artifact_identity
  metadata :: json_object

section \<open>Parsing\<close>

definition bind :: "'a result \<Rightarrow> ('a \<Rightarrow> 'b result) \<Rightarrow> 'b result" where
  "bind r f = (case r of Inl e \<Rightarrow> Inl e | Inr v \<Rightarrow> f v)"

lemma bind_simps [simp]: "bind (Inl e) f = Inl e" "bind (Inr v) f = f v"
  by (simp_all add: bind_def)

lemma bind_Inr: "bind r f = Inr y \<longleftrightarrow> (\<exists>v. r = Inr v \<and> f v = Inr y)"
  by (simp add: bind_def split: sum.split)

text \<open>\<open>d[key]\<close> and \<open>d.get(key)\<close>\<close>

definition item :: "json_object \<Rightarrow> string \<Rightarrow> json result" where
  "item d k = (case get d k of None \<Rightarrow> Inl (KeyError k) | Some v \<Rightarrow> Inr v)"

definition get_or :: "json_object \<Rightarrow> string \<Rightarrow> json \<Rightarrow> json" where
  "get_or d k v = (case get d k of None \<Rightarrow> v | Some x \<Rightarrow> x)"

definition expect_mapping :: "json \<Rightarrow> string \<Rightarrow> json_object result" where
  "expect_mapping v name = (case v of JObj d \<Rightarrow> Inr d | _ \<Rightarrow> Inl (TypeError (name @ '' must be an object'')))"

definition is_str :: "json \<Rightarrow> bool" where
  "is_str v = (case v of JStr _ \<Rightarrow> True | _ \<Rightarrow> False)"

definition expect_tuple :: "json \<Rightarrow> string \<Rightarrow> string list result" where
  "expect_tuple v name =
     (case v of
        JArr xs \<Rightarrow> if list_all is_str xs then Inr (map (\<lambda>x. case x of JStr s \<Rightarrow> s | _ \<Rightarrow> []) xs)
                  else Inl (TypeError (name @ '' must be an array of strings''))
      | _ \<Rightarrow> Inl (TypeError (name @ '' must be an array of strings'')))"

text \<open>\<open>SomeEnum(value)\<close>\<close>

definition enum_of :: "string \<Rightarrow> (string \<times> 'a) list \<Rightarrow> json \<Rightarrow> 'a result" where
  "enum_of name members v =
     (case v of
        JStr s \<Rightarrow> (case map_of members s of Some x \<Rightarrow> Inr x | None \<Rightarrow> Inl (ValueError (s @ '' is not a valid '' @ name)))
      | _ \<Rightarrow> Inl (ValueError (''not a valid '' @ name)))"

definition protocol_families :: "(string \<times> protocol_family) list" where
  "protocol_families = [(''a2a'', A2A), (''mcp'', MCP)]"

definition authorization_states :: "(string \<times> authorization_state) list" where
  "authorization_states = [(''unregistered'', UNREGISTERED), (''registered'', REGISTERED), (''authorized'', AUTHORIZED),
     (''revoked'', REVOKED), (''expired'', EXPIRED), (''quarantined'', AUTH_QUARANTINED)]"

definition trust_tiers :: "(string \<times> trust_tier) list" where
  "trust_tiers = [(''CANONICAL'', CANONICAL), (''COMPATIBLE_MODULE'', COMPATIBLE_MODULE), (''EXPERIMENTAL'', EXPERIMENTAL),
     (''SUPERSEDED'', SUPERSEDED), (''REJECTED'', TIER_REJECTED)]"

definition health_statuses :: "(string \<times> health_status) list" where
  "health_statuses = [(''healthy'', HEALTHY), (''degraded'', DEGRADED), (''stale'', STALE), (''offline'', OFFLINE),
     (''quarantined'', HEALTH_QUARANTINED)]"

definition transports :: "(string \<times> transport_semantics) list" where
  "transports = [(''stateless_request'', STATELESS_REQUEST), (''task_state'', TASK_STATE), (''application_state'', APPLICATION_STATE)]"

definition parse_capability :: "json \<Rightarrow> capability_descriptor result" where
  "parse_capability v =
     (case v of
        JObj d \<Rightarrow>
          bind (item d ''capability_id'') (\<lambda>cid.
          bind (item d ''canonical_operation'') (\<lambda>cop.
          bind (item d ''protocol_operation'') (\<lambda>pop.
          bind (expect_tuple (get_or d ''required_scopes'' (JArr [])) ''required_scopes'') (\<lambda>scopes.
          bind (item d ''side_effects'') (\<lambda>effects.
          bind (item d ''verification'') (\<lambda>verif.
          bind (item d ''timeout_ms'') (\<lambda>timeout.
          bind (item d ''concurrency_limit'') (\<lambda>limit.
            Inr \<lparr>capability_id = cid, canonical_operation = cop, protocol_operation = pop, required_scopes = scopes,
                 side_effects = effects, capability_verification = verif, timeout_ms = timeout, concurrency_limit = limit\<rparr>))))))))
      | _ \<Rightarrow> Inl (TypeError ''object is not subscriptable''))"

fun parse_capabilities :: "json list \<Rightarrow> capability_descriptor list result" where
  "parse_capabilities [] = Inr []"
| "parse_capabilities (v # vs) = bind (parse_capability v) (\<lambda>c. bind (parse_capabilities vs) (\<lambda>cs. Inr (c # cs)))"

definition parse_auth :: "json_object \<Rightarrow> auth_profile result" where
  "parse_auth d =
     bind (item d ''auth_type'') (\<lambda>ty.
     bind (item d ''credential_binding'') (\<lambda>binding.
     bind (item d ''storage_policy'') (\<lambda>storage.
     bind (item d ''requires_user_presence'') (\<lambda>presence.
     bind (item d ''delegation_allowed'') (\<lambda>delegation.
     bind (expect_tuple (get_or d ''scopes'' (JArr [])) ''scopes'') (\<lambda>scopes.
       Inr \<lparr>auth_type = ty, credential_binding = binding, storage_policy = storage, requires_user_presence = presence,
            delegation_allowed = delegation, auth_scopes = scopes, issuer = get_or d ''issuer'' JNull,
            audience = get_or d ''audience'' JNull\<rparr>))))))"

definition parse_session :: "json_object \<Rightarrow> session_state result" where
  "parse_session d =
     bind (item d ''state_id'') (\<lambda>sid.
     bind (bind (item d ''transport_semantics'') (enum_of ''TransportSemantics'' transports)) (\<lambda>sem.
     bind (item d ''state_owner'') (\<lambda>owner.
     bind (item d ''resumable'') (\<lambda>res.
     bind (expect_mapping (get_or d ''protocol_state'' (JObj [])) ''protocol_state'') (\<lambda>st.
       Inr \<lparr>state_id = sid, semantics = sem, state_owner = owner, resumable = res, protocol_state = st\<rparr>)))))"

definition parse_lease :: "json_object \<Rightarrow> health_lease result" where
  "parse_lease d =
     bind (item d ''lease_id'') (\<lambda>lid.
     bind (item d ''subject_id'') (\<lambda>subject.
     bind (item d ''issued_at'') (\<lambda>issued.
     bind (item d ''expires_at'') (\<lambda>expires.
     bind (item d ''heartbeat_interval_s'') (\<lambda>beat.
     bind (item d ''grace_s'') (\<lambda>grace.
     bind (bind (item d ''status'') (enum_of ''HealthStatus'' health_statuses)) (\<lambda>st.
     bind (item d ''last_seen_at'') (\<lambda>seen.
     bind (item d ''renewal_counter'') (\<lambda>renewals.
       Inr \<lparr>lease_id = lid, subject_id = subject, issued_at = issued, expires_at = expires, heartbeat_interval_s = beat,
            grace_s = grace, health = st, last_seen_at = seen, renewal_counter = renewals\<rparr>)))))))))"

definition manifest_from_dict :: "json_object \<Rightarrow> manifest result" where
  "manifest_from_dict raw =
     bind (bind (item raw ''protocol'') (\<lambda>v. expect_mapping v ''protocol'')) (\<lambda>protocol.
     bind (bind (item raw ''auth_profile'') (\<lambda>v. expect_mapping v ''auth_profile'')) (\<lambda>auth_raw.
     bind (bind (item raw ''session_state'') (\<lambda>v. expect_mapping v ''session_state'')) (\<lambda>session_raw.
     bind (bind (item raw ''health_lease'') (\<lambda>v. expect_mapping v ''health_lease'')) (\<lambda>health_raw.
     bind (bind (item raw ''artifact'') (\<lambda>v. expect_mapping v ''artifact'')) (\<lambda>artifact_raw.
     bind (bind (item raw ''capabilities'') (\<lambda>v. case v of JArr xs \<Rightarrow> Inr xs
             | _ \<Rightarrow> Inl (TypeError ''capabilities must be an array''))) (\<lambda>capabilities_raw.
     bind (parse_capabilities capabilities_raw) (\<lambda>caps.
     bind (item raw ''schema_version'') (\<lambda>schema.
     bind (item raw ''adapter_id'') (\<lambda>aid.
     bind (item raw ''adapter_version'') (\<lambda>version.
     bind (item raw ''adapter_type'') (\<lambda>ty.
     bind (bind (item protocol ''family'') (enum_of ''ProtocolFamily'' protocol_families)) (\<lambda>fam.
     bind (item protocol ''version'') (\<lambda>pversion.
     bind (item raw ''endpoint'') (\<lambda>ep.
     bind (bind (item raw ''authorization_state'') (enum_of ''AuthorizationState'' authorization_states)) (\<lambda>astate.
     bind (bind (item raw ''trust_tier'') (enum_of ''TrustTier'' trust_tiers)) (\<lambda>tier.
     bind (bind (item raw ''discovery'') (\<lambda>v. expect_mapping v ''discovery'')) (\<lambda>disc.
     bind (parse_auth auth_raw) (\<lambda>au.
     bind (parse_session session_raw) (\<lambda>se.
     bind (parse_lease health_raw) (\<lambda>le.
     bind (expect_mapping (get_or raw ''metadata'' (JObj [])) ''metadata'') (\<lambda>meta.
       Inr \<lparr>schema_version = schema, adapter_id = aid, adapter_version = version, adapter_type = ty, family = fam,
            protocol_version = pversion, endpoint = ep, authorization = astate, trust = tier, discovery = disc, auth = au,
            session = se, lease = le, manifest_capabilities = caps,
            artifact = \<lparr>artifact_sha256 = get_or artifact_raw ''sha256'' JNull, artifact_source = get_or artifact_raw ''source'' JNull,
                        artifact_license = get_or artifact_raw ''license'' JNull\<rparr>,
            metadata = meta\<rparr>)))))))))))))))))))))"

section \<open>Secrets\<close>

definition forbidden_secret_keys :: "string list" where
  "forbidden_secret_keys = [''password'', ''secret'', ''token'', ''token_value'', ''api_key'', ''api_key_value'', ''credential'',
     ''credential_value'', ''private_key'']"

text \<open>The paths of the forbidden keys, anywhere in the value.\<close>

primrec find_secret_keys :: "json \<Rightarrow> string \<Rightarrow> string list" where
  "find_secret_keys JNull = (\<lambda>path. [])"
| "find_secret_keys (JBool b) = (\<lambda>path. [])"
| "find_secret_keys (JInt i) = (\<lambda>path. [])"
| "find_secret_keys (JStr s) = (\<lambda>path. [])"
| "find_secret_keys (JArr xs) =
     (\<lambda>path. concat (map (\<lambda>(i, f). f (path @ ''['' @ nat_text i @ '']'')) (List.enumerate 0 (map find_secret_keys xs))))"
| "find_secret_keys (JObj d) =
     (\<lambda>path. concat (map (\<lambda>(k, f). (if lower k \<in> set forbidden_secret_keys then [path @ ''.'' @ k] else []) @ f (path @ ''.'' @ k))
        (map (map_prod id find_secret_keys) d)))"

section \<open>Validation\<close>

text \<open>\<open>value in {...}\<close> for a set of strings: an array or object cannot be hashed.\<close>

definition in_strings :: "json \<Rightarrow> string list \<Rightarrow> bool result" where
  "in_strings v names =
     (case v of
        JStr s \<Rightarrow> Inr (s \<in> set names)
      | JArr _ \<Rightarrow> Inl (TypeError ''unhashable type: list'')
      | JObj _ \<Rightarrow> Inl (TypeError ''unhashable type: dict'')
      | _ \<Rightarrow> Inr False)"

definition id_start :: "char \<Rightarrow> bool" where
  "id_start c = (let n = (of_char c :: nat) in 97 \<le> n \<and> n \<le> 122 \<or> 48 \<le> n \<and> n \<le> 57)"

definition id_char :: "char \<Rightarrow> bool" where
  "id_char c = (id_start c \<or> c \<in> set ''._:-'')"

text \<open>\<open>_ID_RE.fullmatch(value)\<close> and \<open>_SHA256_RE.fullmatch(value)\<close>\<close>

definition matches_id :: "json \<Rightarrow> bool result" where
  "matches_id v =
     (case v of
        JStr s \<Rightarrow> Inr (3 \<le> length s \<and> length s \<le> 128 \<and> id_start (hd s) \<and> list_all id_char (tl s))
      | _ \<Rightarrow> Inl (TypeError ''expected string or bytes-like object''))"

definition hex_char :: "char \<Rightarrow> bool" where
  "hex_char c = (let n = (of_char c :: nat) in 48 \<le> n \<and> n \<le> 57 \<or> 97 \<le> n \<and> n \<le> 102)"

definition matches_sha :: "json \<Rightarrow> bool result" where
  "matches_sha v =
     (case v of
        JStr s \<Rightarrow> Inr (length s = 64 \<and> list_all hex_char s)
      | _ \<Rightarrow> Inl (TypeError ''expected string or bytes-like object''))"

text \<open>An integer in a comparison or sum; a boolean is one.\<close>

definition number :: "json \<Rightarrow> int result" where
  "number v = (case v of JInt i \<Rightarrow> Inr i | JBool b \<Rightarrow> Inr (if b then 1 else 0) | _ \<Rightarrow> Inl (TypeError ''unsupported operand type''))"

definition flag :: "bool \<Rightarrow> string \<Rightarrow> string list" where
  "flag b m = (if b then [m] else [])"

definition protocol_errors :: "manifest \<Rightarrow> string list" where
  "protocol_errors m =
     (case family m of
        A2A \<Rightarrow>
          flag (protocol_version m \<noteq> JStr ''1.0'') ''a2a protocol must use wire version 1.0''
          @ flag (get (discovery m) ''spec_release'' \<noteq> Some (JStr ''1.0.0'')) ''a2a discovery must pin specification release 1.0.0''
          @ flag (\<not> (case get (discovery m) ''agent_card_url'' of Some (JStr s) \<Rightarrow> startswith s ''https://'' | _ \<Rightarrow> False))
              ''A2A requires an HTTPS Agent Card URL''
      | MCP \<Rightarrow>
          flag (protocol_version m \<noteq> JStr ''2026-07-28'') ''mcp protocol must be pinned to 2026-07-28''
          @ flag (semantics (session m) \<noteq> STATELESS_REQUEST) ''MCP 2026-07-28 must use stateless_request transport semantics''
          @ flag (get (protocol_state (session m)) ''session_id'' \<noteq> None \<or> get (protocol_state (session m)) ''Mcp-Session-Id'' \<noteq> None)
              ''legacy MCP session identifiers are forbidden''
          @ flag (get (protocol_state (session m)) ''initialize'' = Some (JBool True)
                  \<or> get (protocol_state (session m)) ''initialized'' = Some (JBool True))
              ''legacy MCP initialize handshake state is forbidden'')"

fun family_value :: "protocol_family \<Rightarrow> string" where
  "family_value A2A = ''a2a''"
| "family_value MCP = ''mcp''"

definition text_of :: "json \<Rightarrow> string" where
  "text_of v = (case v of JStr s \<Rightarrow> s | _ \<Rightarrow> [])"

text \<open>One capability, with the identifiers seen before it.\<close>

definition capability_errors :: "manifest \<Rightarrow> descriptor option \<Rightarrow> string list \<Rightarrow> capability_descriptor \<Rightarrow> string list result" where
  "capability_errors m desc seen c =
     bind (matches_id (capability_id c)) (\<lambda>id_ok.
     (let cid = text_of (capability_id c) in
     bind (in_strings (side_effects c) [''none'', ''reversible'', ''irreversible'']) (\<lambda>effects_ok.
     bind (in_strings (capability_verification c) [''required'', ''optional'', ''none'']) (\<lambda>verif_ok.
     bind (number (timeout_ms c)) (\<lambda>timeout.
     bind (number (concurrency_limit c)) (\<lambda>limit.
       Inr (flag (\<not> id_ok \<or> CHR ''*'' \<in> set cid) (cid @ '': invalid capability_id'')
          @ flag (cid \<in> set seen) (''duplicate capability_id: '' @ cid)
          @ flag (\<not> effects_ok) (cid @ '': invalid side_effects'')
          @ flag (\<not> verif_ok) (cid @ '': invalid verification'')
          @ flag (side_effects c = JStr ''irreversible'' \<and> capability_verification c \<noteq> JStr ''required'')
              (cid @ '': irreversible capability requires verification'')
          @ flag (\<not> (1 \<le> timeout \<and> timeout \<le> 3600000)) (cid @ '': timeout_ms out of bounds'')
          @ flag (\<not> (1 \<le> limit \<and> limit \<le> 1024)) (cid @ '': concurrency_limit out of bounds'')
          @ flag (\<not> set (required_scopes c) \<subseteq> set (auth_scopes (auth m))) (cid @ '': required scope is not granted'')
          @ (case desc of None \<Rightarrow> [] | Some d \<Rightarrow>
               flag (\<not> list_ex (\<lambda>x. canonical_operation c = JStr x) (operations d))
                 (cid @ '': canonical operation is not registered for '' @ text_of (adapter_id m))))))))))"

fun all_capability_errors :: "manifest \<Rightarrow> descriptor option \<Rightarrow> string list \<Rightarrow> capability_descriptor list \<Rightarrow> string list result" where
  "all_capability_errors m desc seen [] = Inr []"
| "all_capability_errors m desc seen (c # cs) =
     bind (capability_errors m desc seen c) (\<lambda>es.
     bind (all_capability_errors m desc (text_of (capability_id c) # seen) cs) (\<lambda>rest. Inr (es @ rest)))"

definition parse_datetime :: "json \<Rightarrow> int result" where
  "parse_datetime v =
     (case v of
        JStr s \<Rightarrow>
          (case fromisoformat s of
             NotIso \<Rightarrow> Inl (ValueError ''Invalid isoformat string'')
           | Naive _ \<Rightarrow> Inl (ValueError ''timestamp must include an offset'')
           | Aware t \<Rightarrow> if instant t then Inr t else Inl OverflowError)
      | _ \<Rightarrow> Inl (TypeError ''fromisoformat: argument must be str''))"

text \<open>\<open>datetime.timestamp()\<close>, with the rounding of the float as a parameter.\<close>

definition unix_epoch :: int where
  "unix_epoch = 719162 * usec_per_day"

definition timestamp :: "(rat \<Rightarrow> rat) \<Rightarrow> int \<Rightarrow> rat" where
  "timestamp rnd t = rnd (of_int (t - unix_epoch) / 1000000)"

definition lease_errors :: "(rat \<Rightarrow> rat) \<Rightarrow> int \<Rightarrow> health_lease \<Rightarrow> string list result" where
  "lease_errors rnd now l =
     (case bind (parse_datetime (issued_at l)) (\<lambda>issued.
           bind (parse_datetime (expires_at l)) (\<lambda>expires.
           bind (parse_datetime (last_seen_at l)) (\<lambda>seen.
           bind (if health l \<in> {HEALTHY, DEGRADED}
                 then bind (number (grace_s l)) (\<lambda>grace.
                        Inr (flag (timestamp rnd now > rnd (timestamp rnd expires + rnd (of_int grace)))
                               ''health lease is expired beyond grace''))
                 else Inr []) (\<lambda>late.
             Inr (flag (expires \<le> issued) ''health lease expires_at must follow issued_at''
                @ flag (seen < issued) ''health lease last_seen_at predates issued_at''
                @ late))))) of
        Inl (ValueError msg) \<Rightarrow> Inr [''invalid health timestamp: '' @ msg]
      | r \<Rightarrow> r)"

fun error_text :: "py_error \<Rightarrow> string" where
  "error_text (KeyError k) = CHR 0x27 # k @ [CHR 0x27]"
| "error_text (ValueError m) = m"
| "error_text (TypeError m) = m"
| "error_text _ = []"

definition known_auth_types :: "string list" where
  "known_auth_types = [''none'', ''api_key'', ''bearer'', ''oauth2'', ''oidc'', ''mtls'', ''local_identity'']"

definition check_manifest :: "(rat \<Rightarrow> rat) \<Rightarrow> catalog \<Rightarrow> int \<Rightarrow> manifest \<Rightarrow> string list result" where
  "check_manifest rnd cat now m =
     bind (matches_id (adapter_id m)) (\<lambda>id_ok.
     bind (in_strings (adapter_id m) [''a2a'', ''mcp'']) (\<lambda>known.
     bind (in_strings (adapter_type m) [''declarative'', ''executable'', ''remote'']) (\<lambda>type_ok.
     (let aid = text_of (adapter_id m);
          desc = (case get_descriptor aid cat of Inl _ \<Rightarrow> None | Inr d \<Rightarrow> Some d) in
     bind (if adapter_type m = JStr ''executable''
           then (if artifact_sha256 (artifact m) = JNull then Inr False else matches_sha (artifact_sha256 (artifact m)))
           else Inr True) (\<lambda>sha_ok.
     bind (in_strings (auth_type (auth m)) known_auth_types) (\<lambda>auth_ok.
     bind (all_capability_errors m desc [] (manifest_capabilities m)) (\<lambda>cap_errors.
     bind (lease_errors rnd now (lease m)) (\<lambda>late.
       Inr (flag (schema_version m \<noteq> JStr ''automation-os.adapter/1.0'') ''unsupported schema_version''
          @ flag (\<not> id_ok) ''invalid adapter_id''
          @ flag (\<not> known) ''interop adapter_id must be a2a or mcp''
          @ flag (\<not> type_ok) ''unsupported adapter_type''
          @ flag (case endpoint m of JStr s \<Rightarrow> blank s | _ \<Rightarrow> True) ''endpoint is required''
          @ protocol_errors m
          @ flag (adapter_id m \<noteq> JStr (family_value (family m))) ''adapter_id must match the protocol family''
          @ flag (desc = None) ''adapter is absent from the Automation OS federation catalog''
          @ flag (case desc of None \<Rightarrow> False | Some d \<Rightarrow> desc_kind d \<noteq> PROTOCOL) ''interop adapter must map to a PROTOCOL catalog descriptor''
          @ flag (get (metadata m) ''discovery_is_authority'' = Some (JBool True)) ''discovery cannot be authorization authority''
          @ flag (\<not> sha_ok) ''executable adapter requires SHA-256 identity''
          @ flag (\<not> auth_ok) ''unsupported auth_type''
          @ cap_errors
          @ flag (list_ex (\<lambda>c. side_effects c = JStr ''irreversible'') (manifest_capabilities m) \<and> adapter_type m = JStr ''remote''
                  \<and> auth_type (auth m) = JStr ''none'') ''remote irreversible capability cannot use auth_type=none''
          @ late)))))))))"

definition validate_manifest_dict :: "(rat \<Rightarrow> rat) \<Rightarrow> catalog \<Rightarrow> int \<Rightarrow> json_object \<Rightarrow> string list result" where
  "validate_manifest_dict rnd cat now raw =
     (let hits = find_secret_keys (JObj raw) ''$'';
          errors = flag (hits \<noteq> []) (''inline credentials forbidden: '' @ join '','' hits)
      in case manifest_from_dict raw of
           Inl e \<Rightarrow> Inr (errors @ [''manifest parse failed: '' @ error_text e])
         | Inr m \<Rightarrow> bind (check_manifest rnd cat now m) (\<lambda>es. Inr (errors @ es)))"

section \<open>Routes\<close>

definition is_route_eligible :: "(rat \<Rightarrow> rat) \<Rightarrow> catalog \<Rightarrow> int \<Rightarrow> json_object \<Rightarrow> bool result" where
  "is_route_eligible rnd cat now raw =
     bind (validate_manifest_dict rnd cat now raw) (\<lambda>errors.
       if errors \<noteq> [] then Inr False
       else bind (manifest_from_dict raw) (\<lambda>m.
         if authorization m \<noteq> AUTHORIZED then Inr False
         else if trust m \<in> {SUPERSEDED, TIER_REJECTED} then Inr False
         else if health (lease m) \<notin> {HEALTHY, DEGRADED} then Inr False
         else bind (get_descriptor (text_of (adapter_id m)) cat) (\<lambda>d.
           Inr (desc_status d \<notin> {NOT_CONFIGURED, BLOCKED}))))"

definition trust_rank :: "trust_tier \<Rightarrow> nat" where
  "trust_rank t = (case t of CANONICAL \<Rightarrow> 0 | COMPATIBLE_MODULE \<Rightarrow> 1 | EXPERIMENTAL \<Rightarrow> 2 | _ \<Rightarrow> 9)"

definition route_key :: "manifest \<Rightarrow> nat \<times> nat \<times> string" where
  "route_key m = (if health (lease m) = HEALTHY then 0 else 1, trust_rank (trust m), text_of (adapter_id m))"

fun route_candidates :: "(rat \<Rightarrow> rat) \<Rightarrow> catalog \<Rightarrow> int \<Rightarrow> string \<Rightarrow> json_object list \<Rightarrow>
    ((nat \<times> nat \<times> string) \<times> json_object) list result" where
  "route_candidates rnd cat now cid [] = Inr []"
| "route_candidates rnd cat now cid (raw # raws) =
     bind (is_route_eligible rnd cat now raw) (\<lambda>ok.
     bind (if \<not> ok then Inr []
           else bind (manifest_from_dict raw) (\<lambda>m.
             Inr (if list_ex (\<lambda>c. capability_id c = JStr cid) (manifest_capabilities m) then [(route_key m, raw)] else []))) (\<lambda>here.
     bind (route_candidates rnd cat now cid raws) (\<lambda>rest. Inr (here @ rest))))"

definition select_route :: "(rat \<Rightarrow> rat) \<Rightarrow> catalog \<Rightarrow> int \<Rightarrow> string \<Rightarrow> json_object list \<Rightarrow> json_object option result" where
  "select_route rnd cat now cid raws =
     bind (route_candidates rnd cat now cid raws) (\<lambda>cs.
       Inr (case sort_key fst cs of [] \<Rightarrow> None | (k, raw) # _ \<Rightarrow> Some raw))"

section \<open>What validation accepts\<close>

lemma flag_Nil [simp]: "flag b m = [] \<longleftrightarrow> \<not> b"
  by (simp add: flag_def)

lemma capability_accepted:
  assumes "all_capability_errors m desc seen cs = Inr []" "c \<in> set cs"
  shows "\<exists>seen'. capability_errors m desc seen' c = Inr []"
  using assms by (induction cs arbitrary: seen) (auto simp: bind_Inr)

lemma capability_errors_Nil:
  assumes "capability_errors m (Some d) seen c = Inr []"
  shows "set (required_scopes c) \<subseteq> set (auth_scopes (auth m)) \<and> (\<exists>x\<in>set (operations d). canonical_operation c = JStr x)
    \<and> (side_effects c = JStr ''irreversible'' \<longrightarrow> capability_verification c = JStr ''required'')
    \<and> (\<exists>timeout. number (timeout_ms c) = Inr timeout \<and> 1 \<le> timeout \<and> timeout \<le> 3600000)"
  using assms by (auto simp: capability_errors_def bind_Inr Let_def list_ex_iff)

definition lease_live :: "(rat \<Rightarrow> rat) \<Rightarrow> int \<Rightarrow> health_lease \<Rightarrow> bool" where
  "lease_live rnd now l \<longleftrightarrow> (\<exists>issued expires seen grace. parse_datetime (issued_at l) = Inr issued
     \<and> parse_datetime (expires_at l) = Inr expires \<and> parse_datetime (last_seen_at l) = Inr seen \<and> number (grace_s l) = Inr grace
     \<and> issued < expires \<and> issued \<le> seen \<and> timestamp rnd now \<le> rnd (timestamp rnd expires + rnd (of_int grace)))"

lemma lease_errors_Nil:
  assumes "lease_errors rnd now l = Inr []" "health l \<in> {HEALTHY, DEGRADED}"
  shows "lease_live rnd now l"
  using assms by (auto simp: lease_errors_def lease_live_def bind_def not_less not_le split: sum.splits py_error.splits if_splits)

lemma check_manifest_Nil:
  assumes "check_manifest rnd cat now m = Inr []"
  shows "adapter_id m = JStr (family_value (family m))"
    "\<exists>d. get_descriptor (family_value (family m)) cat = Inr d \<and> desc_kind d = PROTOCOL
       \<and> all_capability_errors m (Some d) [] (manifest_capabilities m) = Inr []"
    "lease_errors rnd now (lease m) = Inr []" "protocol_errors m = []"
    "list_ex (\<lambda>c. side_effects c = JStr ''irreversible'') (manifest_capabilities m) \<Longrightarrow>
       adapter_type m \<noteq> JStr ''remote'' \<or> auth_type (auth m) \<noteq> JStr ''none''"
proof -
  obtain d where f: "adapter_id m = JStr (family_value (family m))"
    "(case get_descriptor (text_of (adapter_id m)) cat of Inl _ \<Rightarrow> None | Inr d \<Rightarrow> Some d) = Some d" "desc_kind d = PROTOCOL"
    "all_capability_errors m (Some d) [] (manifest_capabilities m) = Inr []"
    "lease_errors rnd now (lease m) = Inr []" "protocol_errors m = []"
    "list_ex (\<lambda>c. side_effects c = JStr ''irreversible'') (manifest_capabilities m) \<Longrightarrow>
       adapter_type m \<noteq> JStr ''remote'' \<or> auth_type (auth m) \<noteq> JStr ''none''"
    using assms unfolding check_manifest_def Let_def bind_Inr
    by (cases "case get_descriptor (text_of (adapter_id m)) cat of Inl _ \<Rightarrow> None | Inr d \<Rightarrow> Some d") auto
  then show "adapter_id m = JStr (family_value (family m))"
    "\<exists>d. get_descriptor (family_value (family m)) cat = Inr d \<and> desc_kind d = PROTOCOL
       \<and> all_capability_errors m (Some d) [] (manifest_capabilities m) = Inr []"
    "lease_errors rnd now (lease m) = Inr []" "protocol_errors m = []"
    "list_ex (\<lambda>c. side_effects c = JStr ''irreversible'') (manifest_capabilities m) \<Longrightarrow>
       adapter_type m \<noteq> JStr ''remote'' \<or> auth_type (auth m) \<noteq> JStr ''none''"
    by (auto simp: text_of_def split: sum.splits)
qed

text \<open>A manifest that may be routed to.\<close>

definition routable :: "(rat \<Rightarrow> rat) \<Rightarrow> catalog \<Rightarrow> int \<Rightarrow> json_object \<Rightarrow> manifest \<Rightarrow> bool" where
  "routable rnd cat now raw m \<longleftrightarrow> validate_manifest_dict rnd cat now raw = Inr [] \<and> manifest_from_dict raw = Inr m
     \<and> authorization m = AUTHORIZED \<and> trust m \<in> {CANONICAL, COMPATIBLE_MODULE, EXPERIMENTAL} \<and> health (lease m) \<in> {HEALTHY, DEGRADED}
     \<and> (\<exists>d. get_descriptor (text_of (adapter_id m)) cat = Inr d \<and> desc_status d \<notin> {NOT_CONFIGURED, BLOCKED})"

lemma eligible_iff: "is_route_eligible rnd cat now raw = Inr True \<longleftrightarrow> (\<exists>m. routable rnd cat now raw m)"
proof (cases "validate_manifest_dict rnd cat now raw")
  case (Inr errors)
  have t: "t \<in> {CANONICAL, COMPATIBLE_MODULE, EXPERIMENTAL} \<longleftrightarrow> t \<notin> {SUPERSEDED, TIER_REJECTED}" for t by (cases t) auto
  show ?thesis
  proof (cases "manifest_from_dict raw")
    case m: (Inr m)
    then show ?thesis unfolding is_route_eligible_def routable_def t
      by (cases "get_descriptor (text_of (adapter_id m)) cat") (simp_all add: Inr)
  qed (simp add: is_route_eligible_def routable_def Inr)
qed (simp add: is_route_eligible_def routable_def)

definition offers :: "string \<Rightarrow> manifest \<Rightarrow> bool" where
  "offers cid m \<longleftrightarrow> (\<exists>c\<in>set (manifest_capabilities m). capability_id c = JStr cid)"

lemma candidates_set:
  assumes "route_candidates rnd cat now cid raws = Inr cs"
  shows "set cs = {(route_key m, raw) | raw m. raw \<in> set raws \<and> routable rnd cat now raw m \<and> offers cid m}"
  using assms
proof (induction raws arbitrary: cs)
  case (Cons raw raws)
  obtain ok here rest where r: "is_route_eligible rnd cat now raw = Inr ok" "route_candidates rnd cat now cid raws = Inr rest"
    "(if \<not> ok then Inr [] else bind (manifest_from_dict raw) (\<lambda>m.
             Inr (if list_ex (\<lambda>c. capability_id c = JStr cid) (manifest_capabilities m) then [(route_key m, raw)] else []))) = Inr here"
    "cs = here @ rest" using Cons.prems by (auto simp: bind_Inr)
  have "set here = {(route_key m, raw) | m. routable rnd cat now raw m \<and> offers cid m}"
  proof (cases ok)
    case True
    then have "is_route_eligible rnd cat now raw = Inr True" using r(1) by simp
    then obtain m where m: "routable rnd cat now raw m" unfolding eligible_iff by blast
    then have "manifest_from_dict raw = Inr m" by (simp add: routable_def)
    then show ?thesis using r(3) True m by (auto simp: offers_def list_ex_iff routable_def split: if_splits)
  next
    case False
    then have "\<not> routable rnd cat now raw m" for m using r(1) eligible_iff [of rnd cat now raw] by auto
    then show ?thesis using r(3) False by auto
  qed
  then show ?case using Cons.IH [OF r(2)] r(4) by auto
qed simp

section \<open>Properties\<close>

text \<open>
  C34. A route leads only to a manifest that may be used, and to the best one. The manifest that is chosen is
  one of the given, holds no credential under a forbidden key anywhere, is authorized, of an admitted tier
  and healthy or degraded within its lease; its id is that of its protocol, whose descriptor in the catalog
  is a configured protocol; it offers the capability, whose scopes are granted, whose operation the
  descriptor has, and which is verified when it is irreversible and not reached remotely without
  authentication. No given manifest that may be used and offers the capability ranks before it, and
  \<open>None\<close> is answered exactly when there is none.
\<close>

theorem selected_route_is_sound:
  assumes sel: "select_route rnd cat now cid raws = Inr choice"
  shows "case choice of
      None \<Rightarrow> \<not> (\<exists>raw\<in>set raws. \<exists>m. routable rnd cat now raw m \<and> offers cid m)
    | Some raw \<Rightarrow> raw \<in> set raws \<and> find_secret_keys (JObj raw) ''$'' = []
        \<and> (\<exists>m d c. manifest_from_dict raw = Inr m \<and> authorization m = AUTHORIZED \<and> trust m \<in> {CANONICAL, COMPATIBLE_MODULE, EXPERIMENTAL}
             \<and> health (lease m) \<in> {HEALTHY, DEGRADED} \<and> lease_live rnd now (lease m) \<and> adapter_id m = JStr (family_value (family m))
             \<and> get_descriptor (family_value (family m)) cat = Inr d \<and> desc_kind d = PROTOCOL \<and> desc_status d \<notin> {NOT_CONFIGURED, BLOCKED}
             \<and> c \<in> set (manifest_capabilities m) \<and> capability_id c = JStr cid
             \<and> set (required_scopes c) \<subseteq> set (auth_scopes (auth m)) \<and> (\<exists>x\<in>set (operations d). canonical_operation c = JStr x)
             \<and> (side_effects c = JStr ''irreversible'' \<longrightarrow> capability_verification c = JStr ''required''
                  \<and> (adapter_type m \<noteq> JStr ''remote'' \<or> auth_type (auth m) \<noteq> JStr ''none''))
             \<and> (\<forall>raw'\<in>set raws. \<forall>m'. routable rnd cat now raw' m' \<and> offers cid m' \<longrightarrow> route_key m \<le> route_key m'))"
proof -
  obtain cs where cs: "route_candidates rnd cat now cid raws = Inr cs"
    "choice = (case sort_key fst cs of [] \<Rightarrow> None | (k, raw) # _ \<Rightarrow> Some raw)"
    using sel by (auto simp: select_route_def bind_Inr)
  note set = candidates_set [OF cs(1)]
  show ?thesis
  proof (cases "sort_key fst cs")
    case Nil
    then have e: "set cs = {}" by (metis set_sort list.set(1))
    have "\<not> (\<exists>raw\<in>set raws. \<exists>m. routable rnd cat now raw m \<and> offers cid m)"
    proof
      assume "\<exists>raw\<in>set raws. \<exists>m. routable rnd cat now raw m \<and> offers cid m"
      then obtain raw m where "raw \<in> set raws" "routable rnd cat now raw m" "offers cid m" by blast
      then have "(route_key m, raw) \<in> set cs" unfolding set by blast
      then show False using e by simp
    qed
    then show ?thesis using cs(2) Nil by simp
  next
    case (Cons p ps)
    obtain k raw where p: "p = (k, raw)" by (rule prod.exhaust)
    have "sorted (map fst (p # ps))" using sorted_sort_key [of fst cs] unfolding Cons .
    moreover have "set cs = set (p # ps)" unfolding Cons [symmetric] by simp
    ultimately have least: "k \<le> fst q" if "q \<in> set cs" for q using that p by auto
    have "p \<in> set cs" using Cons by (metis list.set_intros(1) set_sort)
    then obtain m where m: "k = route_key m" "raw \<in> set raws" "routable rnd cat now raw m" "offers cid m" using set p by auto
    have v: "validate_manifest_dict rnd cat now raw = Inr []" "manifest_from_dict raw = Inr m" using m(3) by (simp_all add: routable_def)
    then have ck: "check_manifest rnd cat now m = Inr []" "find_secret_keys (JObj raw) ''$'' = []"
      by (auto simp: validate_manifest_dict_def Let_def bind_Inr simp del: find_secret_keys.simps)
    obtain c where c: "c \<in> set (manifest_capabilities m)" "capability_id c = JStr cid" using m(4) by (auto simp: offers_def)
    obtain d where d: "get_descriptor (family_value (family m)) cat = Inr d" "desc_kind d = PROTOCOL"
      "all_capability_errors m (Some d) [] (manifest_capabilities m) = Inr []" using check_manifest_Nil(2) [OF ck(1)] by blast
    obtain seen where "capability_errors m (Some d) seen c = Inr []" using capability_accepted [OF d(3) c(1)] by blast
    note ok = capability_errors_Nil [OF this]
    have st: "desc_status d \<notin> {NOT_CONFIGURED, BLOCKED}" using m(3) d(1) check_manifest_Nil(1) [OF ck(1)] by (auto simp: routable_def text_of_def)
    have live: "lease_live rnd now (lease m)" using lease_errors_Nil [OF check_manifest_Nil(3) [OF ck(1)]] m(3) by (simp add: routable_def)
    have best: "route_key m \<le> route_key m'" if "raw' \<in> set raws" "routable rnd cat now raw' m'" "offers cid m'" for raw' m'
      using least [of "(route_key m', raw')"] that set m(1) by auto
    have remote: "side_effects c = JStr ''irreversible'' \<Longrightarrow> adapter_type m \<noteq> JStr ''remote'' \<or> auth_type (auth m) \<noteq> JStr ''none''"
      using check_manifest_Nil(5) [OF ck(1)] c(1) by (auto simp: list_ex_iff)
    have ch: "choice = Some raw" using cs(2) Cons p by simp
    have rt: "authorization m = AUTHORIZED" "trust m \<in> {CANONICAL, COMPATIBLE_MODULE, EXPERIMENTAL}" "health (lease m) \<in> {HEALTHY, DEGRADED}"
      using m(3) by (simp_all add: routable_def)
    show ?thesis unfolding ch option.case
      by (rule conjI [OF m(2) conjI [OF ck(2)]], rule exI [of _ m], rule exI [of _ d], rule exI [of _ c])
        (use rt v(2) check_manifest_Nil(1) [OF ck(1)] d(1,2) st live c ok best remote in blast)
  qed
qed

text \<open>
  C35. One malformed manifest stops all routing: when a manifest is parsed but its adapter id is not a string,
  no check reports it, and choosing a route among manifests that contain it raises, whatever the
  capability, as long as the ones before it raise nothing.
\<close>

theorem malformed_manifest_stops_routing:
  assumes parsed: "manifest_from_dict raw = Inr m" and id: "\<not> is_str (adapter_id m)"
    and before: "route_candidates rnd cat now cid before = Inr cs"
  shows "validate_manifest_dict rnd cat now raw = Inl (TypeError ''expected string or bytes-like object'')
    \<and> select_route rnd cat now cid (before @ raw # after) = Inl (TypeError ''expected string or bytes-like object'')"
proof -
  have m: "matches_id (adapter_id m) = Inl (TypeError ''expected string or bytes-like object'')"
    using id by (simp add: matches_id_def is_str_def split: json.splits)
  then have v: "validate_manifest_dict rnd cat now raw = Inl (TypeError ''expected string or bytes-like object'')"
    using parsed by (simp add: validate_manifest_dict_def check_manifest_def Let_def)
  have r: "route_candidates rnd cat now cid (raw # after) = Inl (TypeError ''expected string or bytes-like object'')"
    by (simp add: is_route_eligible_def v)
  have "route_candidates rnd cat now cid (before @ raw # after) = Inl (TypeError ''expected string or bytes-like object'')"
    using before
  proof (induction before arbitrary: cs)
    case (Cons x xs)
    then show ?case by (auto simp: bind_Inr)
  qed (use r in simp)
  then show ?thesis using v by (simp add: select_route_def)
qed

section \<open>A manifest\<close>

definition demo_manifest :: "json \<Rightarrow> json_object" where
  "demo_manifest aid =
     [(''protocol'', JObj [(''family'', JStr ''a2a''), (''version'', JStr ''1.0'')]),
      (''auth_profile'', JObj [(''auth_type'', JStr ''oauth2''), (''credential_binding'', JStr ''b''), (''storage_policy'', JStr ''s''),
         (''requires_user_presence'', JBool False), (''delegation_allowed'', JBool False), (''scopes'', JArr [JStr ''send''])]),
      (''session_state'', JObj [(''state_id'', JStr ''s''), (''transport_semantics'', JStr ''task_state''), (''state_owner'', JStr ''o''),
         (''resumable'', JBool True)]),
      (''health_lease'', JObj [(''lease_id'', JStr ''l''), (''subject_id'', JStr ''s''), (''issued_at'', JStr (isoformat 0)),
         (''expires_at'', JStr (isoformat 1000000)), (''heartbeat_interval_s'', JInt 1), (''grace_s'', JInt 0), (''status'', JStr ''healthy''),
         (''last_seen_at'', JStr (isoformat 0)), (''renewal_counter'', JInt 0)]),
      (''artifact'', JObj []),
      (''capabilities'', JArr [JObj [(''capability_id'', JStr ''agent.send''), (''canonical_operation'', JStr ''agent.message''),
         (''protocol_operation'', JStr ''message/send''), (''required_scopes'', JArr [JStr ''send'']), (''side_effects'', JStr ''irreversible''),
         (''verification'', JStr ''required''), (''timeout_ms'', JInt 1000), (''concurrency_limit'', JInt 1)]]),
      (''schema_version'', JStr ''automation-os.adapter/1.0''), (''adapter_id'', aid), (''adapter_version'', JStr ''1''),
      (''adapter_type'', JStr ''remote''), (''endpoint'', JStr ''e''), (''authorization_state'', JStr ''authorized''),
      (''trust_tier'', JStr ''CANONICAL''),
      (''discovery'', JObj [(''spec_release'', JStr ''1.0.0''), (''agent_card_url'', JStr ''https://card'')])]"

definition demo_catalog :: catalog where
  "demo_catalog = [entry ''a2a'' PROTOCOL [''agent.message''] CONNECTED_VALIDATED False []]"

definition demo_parsed :: "json \<Rightarrow> manifest" where
  "demo_parsed aid =
     \<lparr>schema_version = JStr ''automation-os.adapter/1.0'', adapter_id = aid, adapter_version = JStr ''1'', adapter_type = JStr ''remote'',
      family = A2A, protocol_version = JStr ''1.0'', endpoint = JStr ''e'', authorization = AUTHORIZED, trust = CANONICAL,
      discovery = [(''spec_release'', JStr ''1.0.0''), (''agent_card_url'', JStr ''https://card'')],
      auth = \<lparr>auth_type = JStr ''oauth2'', credential_binding = JStr ''b'', storage_policy = JStr ''s'', requires_user_presence = JBool False,
        delegation_allowed = JBool False, auth_scopes = [''send''], issuer = JNull, audience = JNull\<rparr>,
      session = \<lparr>state_id = JStr ''s'', semantics = TASK_STATE, state_owner = JStr ''o'', resumable = JBool True, protocol_state = []\<rparr>,
      lease = \<lparr>lease_id = JStr ''l'', subject_id = JStr ''s'', issued_at = JStr (isoformat 0), expires_at = JStr (isoformat 1000000),
        heartbeat_interval_s = JInt 1, grace_s = JInt 0, health = HEALTHY, last_seen_at = JStr (isoformat 0), renewal_counter = JInt 0\<rparr>,
      manifest_capabilities = [\<lparr>capability_id = JStr ''agent.send'', canonical_operation = JStr ''agent.message'',
        protocol_operation = JStr ''message/send'', required_scopes = [''send''], side_effects = JStr ''irreversible'',
        capability_verification = JStr ''required'', timeout_ms = JInt 1000, concurrency_limit = JInt 1\<rparr>],
      artifact = \<lparr>artifact_sha256 = JNull, artifact_source = JNull, artifact_license = JNull\<rparr>, metadata = []\<rparr>"

lemma demo_parses: "manifest_from_dict (demo_manifest aid) = Inr (demo_parsed aid)"
  by (simp add: manifest_from_dict_def demo_manifest_def item_def get_def get_or_def expect_mapping_def expect_tuple_def is_str_def
      parse_capability_def parse_auth_def parse_session_def parse_lease_def enum_of_def transports_def health_statuses_def
      protocol_families_def authorization_states_def trust_tiers_def demo_parsed_def)

lemma demo_no_secrets: "find_secret_keys (JObj (demo_manifest (JStr ''a2a''))) ''$'' = []"
  by (simp add: demo_manifest_def forbidden_secret_keys_def lower_def lower_char_def)

lemma demo_lease: "lease_errors id 0 (lease (demo_parsed aid)) = Inr []"
  using fromisoformat_isoformat [of 0] fromisoformat_isoformat [of 1000000]
  by (simp add: lease_errors_def demo_parsed_def parse_datetime_def instant_def max_instant_def usec_per_day_def number_def timestamp_def)

lemma demo_descriptor: "get_descriptor ''a2a'' demo_catalog = Inr (entry ''a2a'' PROTOCOL [''agent.message''] CONNECTED_VALIDATED False [])"
  by (simp add: get_descriptor_def demo_catalog_def entry_def select_one_Cons)

lemma demo_checks: "check_manifest id demo_catalog 0 (demo_parsed (JStr ''a2a'')) = Inr []"
proof -
  have f: "adapter_id (demo_parsed (JStr ''a2a'')) = JStr ''a2a''" "family (demo_parsed (JStr ''a2a'')) = A2A" by (simp_all add: demo_parsed_def)
  have p: "protocol_errors (demo_parsed (JStr ''a2a'')) = []"
    by (simp add: protocol_errors_def demo_parsed_def get_def startswith_def)
  have c: "all_capability_errors (demo_parsed (JStr ''a2a'')) (Some (entry ''a2a'' PROTOCOL [''agent.message''] CONNECTED_VALIDATED False [])) []
      (manifest_capabilities (demo_parsed (JStr ''a2a''))) = Inr []"
    by (simp add: demo_parsed_def capability_errors_def matches_id_def id_start_def id_char_def text_of_def in_strings_def number_def entry_def)
  have a: "matches_id (JStr ''a2a'') = Inr True" by (simp add: matches_id_def id_start_def id_char_def)
  show ?thesis unfolding check_manifest_def f a
    by (simp add: text_of_def demo_descriptor demo_lease p c in_strings_def)
      (simp add: demo_parsed_def known_auth_types_def get_def entry_def not_blank isspace_def)
qed

lemma demo_eligible: "route_candidates id demo_catalog 0 ''agent.send'' [demo_manifest (JStr ''a2a'')]
    = Inr [(route_key (demo_parsed (JStr ''a2a'')), demo_manifest (JStr ''a2a''))]"
proof -
  have "validate_manifest_dict id demo_catalog 0 (demo_manifest (JStr ''a2a'')) = Inr []"
    unfolding validate_manifest_dict_def Let_def demo_no_secrets demo_parses by (simp add: demo_checks)
  then have "is_route_eligible id demo_catalog 0 (demo_manifest (JStr ''a2a'')) = Inr True"
    unfolding is_route_eligible_def demo_parses
    by (simp add: demo_parsed_def text_of_def demo_descriptor) (simp add: entry_def)
  then show ?thesis by (simp add: demo_parses) (simp add: demo_parsed_def)
qed

lemma selected_route_is_sound_witness:
  "select_route id demo_catalog 0 ''agent.send'' [demo_manifest (JStr ''a2a'')] = Inr (Some (demo_manifest (JStr ''a2a'')))
   \<and> find_secret_keys (JObj (demo_manifest (JStr ''a2a''))) ''$'' = []"
proof -
  have sel: "select_route id demo_catalog 0 ''agent.send'' [demo_manifest (JStr ''a2a'')] = Inr (Some (demo_manifest (JStr ''a2a'')))"
    unfolding select_route_def demo_eligible by simp
  from selected_route_is_sound [OF sel] sel show ?thesis unfolding option.case by blast
qed

lemma malformed_manifest_stops_routing_witness:
  "select_route id demo_catalog 0 ''agent.send'' [demo_manifest (JStr ''a2a''), demo_manifest (JInt 1)]
   = Inl (TypeError ''expected string or bytes-like object'')"
proof -
  have "\<not> is_str (adapter_id (demo_parsed (JInt 1)))" by (simp add: demo_parsed_def is_str_def)
  from malformed_manifest_stops_routing [OF demo_parses this demo_eligible, of "[]"] show ?thesis by simp
qed

end
