(* ===== verification/Provider_Registry.thy ===== *)
theory Provider_Registry
  imports Pipeline Op_Machine
begin

text \<open>
  \<open>frost_core/providers.py\<close>: the registry of providers and the selection of one under a routing policy.
  Times, health and latency are exact; \<open>ProviderRecord\<close> is stored decoded.
\<close>

section \<open>Data\<close>

datatype provider_maturity = DISCOVERED | HOST_VALIDATED | CONNECTED_VALIDATED | DEVICE_VALIDATED | ENDURANCE_VALIDATED
  | PROMOTED | DEFAULT_ELIGIBLE

fun maturity_rank :: "provider_maturity \<Rightarrow> int" where
  "maturity_rank DISCOVERED = 0"
| "maturity_rank HOST_VALIDATED = 1"
| "maturity_rank CONNECTED_VALIDATED = 2"
| "maturity_rank DEVICE_VALIDATED = 3"
| "maturity_rank ENDURANCE_VALIDATED = 4"
| "maturity_rank PROMOTED = 5"
| "maturity_rank DEFAULT_ELIGIBLE = 6"

fun maturity_name :: "provider_maturity \<Rightarrow> string" where
  "maturity_name DISCOVERED = ''DISCOVERED''"
| "maturity_name HOST_VALIDATED = ''HOST_VALIDATED''"
| "maturity_name CONNECTED_VALIDATED = ''CONNECTED_VALIDATED''"
| "maturity_name DEVICE_VALIDATED = ''DEVICE_VALIDATED''"
| "maturity_name ENDURANCE_VALIDATED = ''ENDURANCE_VALIDATED''"
| "maturity_name PROMOTED = ''PROMOTED''"
| "maturity_name DEFAULT_ELIGIBLE = ''DEFAULT_ELIGIBLE''"

datatype availability = AVAILABLE | DEGRADED | UNAVAILABLE | UNKNOWN

fun availability_value :: "availability \<Rightarrow> string" where
  "availability_value AVAILABLE = ''AVAILABLE''"
| "availability_value DEGRADED = ''DEGRADED''"
| "availability_value UNAVAILABLE = ''UNAVAILABLE''"
| "availability_value UNKNOWN = ''UNKNOWN''"

fun availability_rank :: "availability \<Rightarrow> nat" where
  "availability_rank AVAILABLE = 0"
| "availability_rank DEGRADED = 1"
| "availability_rank UNKNOWN = 2"
| "availability_rank UNAVAILABLE = 3"

record provider =
  provider_id :: string
  provider_type :: string
  provides :: "string list"
  maturity :: provider_maturity
  availability_of :: availability
  deployment_identity :: "string option"
  source_identity :: "string option"
  health :: rat
  latency_ms :: "rat option"
  cost_rank :: int
  limitations :: "string list"
  provider_metadata :: json_object
  provider_updated :: string

definition supports :: "provider \<Rightarrow> string \<Rightarrow> bool" where
  "supports p cap \<longleftrightarrow> cap \<in> set (provides p) \<or> ''*'' \<in> set (provides p)"

record routing_policy =
  minimum_maturity :: provider_maturity
  preferred_provider_ids :: "string list"
  allowed_provider_types :: "string list"
  allow_degraded :: bool
  max_latency_ms :: "rat option"
  max_cost_rank :: "int option"
  require_source_identity :: bool

record route_decision =
  route_capability :: string
  chosen_provider :: provider
  candidates_considered :: "string list"
  rationale :: "string list"

record provider_row =
  row_provider :: provider
  row_updated :: string

type_synonym registry = "provider_row list"

section \<open>The registry\<close>

text \<open>What \<open>_decode\<close> gives back of a record: the metadata with their keys sorted.\<close>

definition decoded :: "provider \<Rightarrow> provider" where
  "decoded p = p\<lparr>provider_metadata := (case sort_keys (JObj (provider_metadata p)) of JObj d \<Rightarrow> d | _ \<Rightarrow> [])\<rparr>"

definition upsert :: "int \<Rightarrow> provider \<Rightarrow> registry \<Rightarrow> (unit, registry) outcome" where
  "upsert now p rows =
     (if blank (provider_id p) \<or> blank (provider_type p)
      then (Inl (ValueError ''provider_id and provider_type are required''), rows)
      else if provides p = [] then (Inl (ValueError ''provider must declare at least one capability''), rows)
      else if \<not> (0 \<le> health p \<and> health p \<le> 1) then (Inl (ValueError ''health must be between 0 and 1''), rows)
      else (Inr (), upsert_by (\<lambda>r. provider_id (row_provider r))
              (\<lambda>r. r\<lparr>row_provider := decoded p, row_updated := isoformat now\<rparr>)
              \<lparr>row_provider = decoded p, row_updated = isoformat now\<rparr> rows))"

definition get_provider :: "string \<Rightarrow> registry \<Rightarrow> provider result" where
  "get_provider i rows = (case select_one (\<lambda>r. provider_id (row_provider r) = i) rows of
     None \<Rightarrow> Inl (KeyError i) | Some r \<Rightarrow> Inr (row_provider r))"

definition list_providers :: "registry \<Rightarrow> provider list" where
  "list_providers rows = sort_key provider_id (map row_provider rows)"

section \<open>Selection\<close>

definition reject_reason :: "provider \<Rightarrow> string \<Rightarrow> routing_policy \<Rightarrow> string option" where
  "reject_reason p cap pol =
     (if \<not> supports p cap then Some ''unsupported_capability''
      else if maturity_rank (maturity p) < maturity_rank (minimum_maturity pol) then Some ''insufficient_maturity''
      else if availability_of p = UNAVAILABLE then Some ''unavailable''
      else if availability_of p = DEGRADED \<and> \<not> allow_degraded pol then Some ''degraded_disallowed''
      else if allowed_provider_types pol \<noteq> [] \<and> provider_type p \<notin> set (allowed_provider_types pol) then Some ''provider_type_disallowed''
      else if (case max_latency_ms pol of None \<Rightarrow> False
               | Some b \<Rightarrow> (case latency_ms p of None \<Rightarrow> True | Some l \<Rightarrow> l > b)) then Some ''latency_bound''
      else if (case max_cost_rank pol of None \<Rightarrow> False | Some b \<Rightarrow> cost_rank p > b) then Some ''cost_bound''
      else if require_source_identity pol \<and> (case source_identity p of None \<Rightarrow> True | Some s \<Rightarrow> s = []) then Some ''missing_source_identity''
      else None)"

text \<open>\<open>{provider_id: index for index, provider_id in enumerate(...)}\<close>: the last index of an id counts.\<close>

definition preference :: "routing_policy \<Rightarrow> (string \<times> nat) list" where
  "preference pol = map (\<lambda>(i, x). (x, i)) (rev (List.enumerate 0 (preferred_provider_ids pol)))"

definition preferred_rank :: "routing_policy \<Rightarrow> string \<Rightarrow> nat" where
  "preferred_rank pol i = (case map_of (preference pol) i of Some n \<Rightarrow> n
     | None \<Rightarrow> card (set (preferred_provider_ids pol)) + 1)"

definition latency_key :: "rat option \<Rightarrow> nat \<times> rat" where
  "latency_key l = (case l of None \<Rightarrow> (1, 0) | Some x \<Rightarrow> (0, x))"

definition selection_key :: "routing_policy \<Rightarrow> provider \<Rightarrow> nat \<times> nat \<times> int \<times> rat \<times> int \<times> (nat \<times> rat) \<times> string" where
  "selection_key pol p = (preferred_rank pol (provider_id p), availability_rank (availability_of p), - maturity_rank (maturity p),
     - health p, cost_rank p, latency_key (latency_ms p), provider_id p)"

definition rationale_of :: "routing_policy \<Rightarrow> provider \<Rightarrow> string list" where
  "rationale_of pol p =
     [''maturity>='' @ maturity_name (minimum_maturity pol), ''availability='' @ availability_value (availability_of p),
      ''health='' @ fixed3 (health p), ''cost_rank='' @ int_text (cost_rank p)]
     @ (case map_of (preference pol) (provider_id p) of None \<Rightarrow> [] | Some n \<Rightarrow> [''preferred_rank='' @ nat_text n])"

definition rejections :: "string \<Rightarrow> routing_policy \<Rightarrow> provider list \<Rightarrow> string list" where
  "rejections cap pol ps = concat (map (\<lambda>p. case reject_reason p cap pol of None \<Rightarrow> [] | Some r \<Rightarrow> [provider_id p @ '':'' @ r]) ps)"

definition select :: "string \<Rightarrow> routing_policy \<Rightarrow> registry \<Rightarrow> route_decision result" where
  "select cap pol rows =
     (if blank cap then Inl (ValueError ''capability must not be empty'')
      else (let ps = list_providers rows; candidates = filter (\<lambda>p. reject_reason p cap pol = None) ps;
                rejected = rejections cap pol ps
            in case first_by (selection_key pol) candidates of
                 None \<Rightarrow> Inl (LookupError (''no provider satisfies routing policy ('' @
                           (if rejected \<noteq> [] then join '', '' rejected else ''registry empty'') @ '')''))
               | Some p \<Rightarrow> Inr \<lparr>route_capability = cap, chosen_provider = p, candidates_considered = map provider_id candidates,
                              rationale = rationale_of pol p\<rparr>))"

section \<open>Any registrations\<close>

datatype registry_op = Upsert int provider

fun run_registry :: "registry_op \<Rightarrow> registry \<Rightarrow> registry" where
  "run_registry (Upsert now p) rows = snd (upsert now p rows)"

definition registry_inv :: "registry \<Rightarrow> bool" where
  "registry_inv rows \<longleftrightarrow> distinct (map (\<lambda>r. provider_id (row_provider r)) rows)"

lemma decoded_id [simp]: "provider_id (decoded p) = provider_id p"
  by (simp add: decoded_def)

lemma distinct_upsert_by:
  assumes "distinct (map key rows)" "\<And>r. key r = key new \<Longrightarrow> key (f r) = key new"
  shows "distinct (map key (upsert_by key f new rows))"
proof (cases "\<exists>r\<in>set rows. key r = key new")
  case True
  have "map key (update_where (\<lambda>r. key r = key new) f rows) = map key rows"
    by (rule map_update_where) (simp add: assms(2))
  then show ?thesis using True assms(1) by (simp add: upsert_by_def)
qed (use assms(1) in \<open>auto simp: upsert_by_def\<close>)

interpretation registry: op_machine run_registry "[]" registry_inv
proof
  show "registry_inv []" by (simp add: registry_inv_def)
  show "registry_inv (run_registry op rows)" if inv: "registry_inv rows" for op rows
  proof (cases op)
    case (Upsert now p)
    then show ?thesis using inv unfolding registry_inv_def
      by (auto simp: upsert_def intro!: distinct_upsert_by)
  qed
qed

lemma list_providers_facts:
  assumes "registry_inv rows"
  shows "p \<in> set (list_providers rows) \<longleftrightarrow> get_provider (provider_id p) rows = Inr p"
    "distinct (map provider_id (list_providers rows))" "sorted (map provider_id (list_providers rows))"
proof -
  have d: "distinct (map provider_id (map row_provider rows))" using assms by (simp add: registry_inv_def comp_def)
  show "distinct (map provider_id (list_providers rows))"
    using d unfolding list_providers_def by (metis distinct_map distinct_sort set_sort)
  show "sorted (map provider_id (list_providers rows))" by (simp add: list_providers_def)
  have "get_provider (provider_id p) rows = Inr p \<longleftrightarrow> (\<exists>r\<in>set rows. row_provider r = p)"
  proof
    assume "\<exists>r\<in>set rows. row_provider r = p"
    then obtain r where r: "r \<in> set rows" "row_provider r = p" by blast
    then have "select_one (\<lambda>x. provider_id (row_provider x) = provider_id p) rows = Some r"
      using select_one_unique [of "\<lambda>x. provider_id (row_provider x)" rows r] assms by (simp add: registry_inv_def)
    then show "get_provider (provider_id p) rows = Inr p" using r by (simp add: get_provider_def)
  qed (auto simp: get_provider_def dest: select_one_SomeD split: option.splits)
  then show "p \<in> set (list_providers rows) \<longleftrightarrow> get_provider (provider_id p) rows = Inr p" by (auto simp: list_providers_def)
qed

lemma preferred_rank_less:
  assumes "distinct (preferred_provider_ids pol)" "i \<in> set (preferred_provider_ids pol)"
  shows "preferred_rank pol i < length (preferred_provider_ids pol)
    \<and> preferred_provider_ids pol ! preferred_rank pol i = i"
proof -
  let ?ps = "preferred_provider_ids pol"
  obtain n where n: "n < length ?ps" "?ps ! n = i" using assms(2) by (auto simp: in_set_conv_nth)
  have "(i, n) \<in> set (preference pol)" using n by (force simp: preference_def in_set_enumerate_eq)
  moreover have "map fst (preference pol) = rev (map snd (List.enumerate 0 ?ps))"
    unfolding preference_def rev_map by (simp add: comp_def split_beta del: map_snd_enumerate)
  then have "distinct (map fst (preference pol))" using assms(1) by simp
  ultimately have "map_of (preference pol) i = Some n" by simp
  then show ?thesis using n by (simp add: preferred_rank_def)
qed

lemma preferred_rank_other: "i \<notin> set (preferred_provider_ids pol) \<Longrightarrow> preferred_rank pol i = card (set (preferred_provider_ids pol)) + 1"
proof -
  assume "i \<notin> set (preferred_provider_ids pol)"
  then have "map_of (preference pol) i = None"
    by (auto simp: map_of_eq_None_iff preference_def in_set_enumerate_eq)
  then show ?thesis by (simp add: preferred_rank_def)
qed

section \<open>Properties\<close>

text \<open>What a policy admits.\<close>

definition admissible :: "string \<Rightarrow> routing_policy \<Rightarrow> provider \<Rightarrow> bool" where
  "admissible cap pol p \<longleftrightarrow> supports p cap \<and> maturity_rank (minimum_maturity pol) \<le> maturity_rank (maturity p)
     \<and> availability_of p \<noteq> UNAVAILABLE \<and> (availability_of p = DEGRADED \<longrightarrow> allow_degraded pol)
     \<and> (allowed_provider_types pol = [] \<or> provider_type p \<in> set (allowed_provider_types pol))
     \<and> (\<forall>b. max_latency_ms pol = Some b \<longrightarrow> (\<exists>l. latency_ms p = Some l \<and> l \<le> b))
     \<and> (\<forall>b. max_cost_rank pol = Some b \<longrightarrow> cost_rank p \<le> b)
     \<and> (require_source_identity pol \<longrightarrow> source_identity p \<notin> {None, Some []})"

lemma reject_reason_None: "reject_reason p cap pol = None \<longleftrightarrow> admissible cap pol p"
  by (auto simp: reject_reason_def admissible_def not_less not_le split: option.splits if_splits)

text \<open>
  C36. Selection keeps to the policy: after any registrations, the provider that is selected is the
  registered one of its id, satisfies every bound of the policy, and comes first by preference,
  availability, maturity, health, cost, latency and id among all registered ones that do; the candidates
  are exactly these, by id. \<open>LookupError\<close> is raised exactly when there are none. When the policy lists no id
  twice, an admissible provider that it prefers is never passed over for one that it does not list.
\<close>

theorem selection_keeps_to_policy:
  fixes ops
  defines "rows \<equiv> run_all run_registry ops []"
  assumes cap: "\<not> blank cap"
  shows "case select cap pol rows of
      Inl err \<Rightarrow> (\<exists>m. err = LookupError m) \<and> \<not> (\<exists>p. get_provider (provider_id p) rows = Inr p \<and> admissible cap pol p)
    | Inr d \<Rightarrow> get_provider (provider_id (chosen_provider d)) rows = Inr (chosen_provider d)
        \<and> admissible cap pol (chosen_provider d)
        \<and> sorted (candidates_considered d) \<and> distinct (candidates_considered d)
        \<and> set (candidates_considered d) = {provider_id p | p. get_provider (provider_id p) rows = Inr p \<and> admissible cap pol p}
        \<and> (\<forall>p. get_provider (provider_id p) rows = Inr p \<and> admissible cap pol p
             \<longrightarrow> selection_key pol (chosen_provider d) \<le> selection_key pol p
               \<and> (distinct (preferred_provider_ids pol) \<and> provider_id p \<in> set (preferred_provider_ids pol)
                  \<longrightarrow> provider_id (chosen_provider d) \<in> set (preferred_provider_ids pol)))"
proof -
  have inv: "registry_inv rows" unfolding rows_def by (rule registry.reached_inv)
  note facts = list_providers_facts [OF inv]
  define cs where "cs = filter (\<lambda>p. reject_reason p cap pol = None) (list_providers rows)"
  have mem: "p \<in> set cs \<longleftrightarrow> get_provider (provider_id p) rows = Inr p \<and> admissible cap pol p" for p
    by (auto simp: cs_def facts(1) reject_reason_None)
  show ?thesis
  proof (cases "first_by (selection_key pol) cs")
    case None
    then have "cs = []" by (simp add: first_by_None)
    then have "\<not> (\<exists>p. get_provider (provider_id p) rows = Inr p \<and> admissible cap pol p)" using mem by force
    then show ?thesis using None cap by (simp add: select_def Let_def flip: cs_def)
  next
    case (Some c)
    have c: "c \<in> set cs" "\<forall>p\<in>set cs. selection_key pol c \<le> selection_key pol p" using first_by_SomeD [OF Some] by auto
    have s: "select cap pol rows = Inr \<lparr>route_capability = cap, chosen_provider = c, candidates_considered = map provider_id cs,
        rationale = rationale_of pol c\<rparr>" using Some cap by (simp add: select_def Let_def flip: cs_def)
    have pref: "provider_id c \<in> set (preferred_provider_ids pol)"
      if d: "distinct (preferred_provider_ids pol)" and p: "p \<in> set cs" "provider_id p \<in> set (preferred_provider_ids pol)" for p
    proof (rule ccontr)
      assume "provider_id c \<notin> set (preferred_provider_ids pol)"
      then have "preferred_rank pol (provider_id c) = length (preferred_provider_ids pol) + 1"
        using preferred_rank_other distinct_card [OF d] by simp
      moreover have "preferred_rank pol (provider_id p) < length (preferred_provider_ids pol)" using preferred_rank_less [OF d p(2)] by blast
      moreover have "preferred_rank pol (provider_id c) \<le> preferred_rank pol (provider_id p)" using c(2) p(1) by (auto simp: selection_key_def)
      ultimately show False by simp
    qed
    have "sorted (map provider_id cs)" using facts(3) unfolding cs_def by (simp add: sorted_filter)
    moreover have "distinct (map provider_id cs)" using facts(2) unfolding cs_def by (rule distinct_map_filter)
    ultimately show ?thesis unfolding s sum.case route_decision.simps using c mem pref by auto
  qed
qed

text \<open>An id that is listed again and again ranks behind the ids that are not listed.\<close>

lemma repeated_preference_ranks_last:
  "i \<noteq> j \<Longrightarrow> preferred_provider_ids pol = replicate 4 j @ [i] \<Longrightarrow> k \<notin> {i, j} \<Longrightarrow> preferred_rank pol k < preferred_rank pol i"
  by (simp add: preferred_rank_def preference_def numeral_eq_Suc)

definition demo_provider :: provider where
  "demo_provider = \<lparr>provider_id = ''p'', provider_type = ''t'', provides = [''c''], maturity = PROMOTED, availability_of = AVAILABLE,
     deployment_identity = None, source_identity = Some ''s'', health = 1, latency_ms = None, cost_rank = 100, limitations = [],
     provider_metadata = [], provider_updated = ''u''\<rparr>"

definition demo_policy :: routing_policy where
  "demo_policy = \<lparr>minimum_maturity = HOST_VALIDATED, preferred_provider_ids = [''p''], allowed_provider_types = [], allow_degraded = False,
     max_latency_ms = None, max_cost_rank = None, require_source_identity = True\<rparr>"

lemma selection_keeps_to_policy_witness:
  "\<exists>d. select ''c'' demo_policy (run_all run_registry [Upsert 0 demo_provider] []) = Inr d
     \<and> admissible ''c'' demo_policy (chosen_provider d)"
proof -
  let ?rows = "run_all run_registry [Upsert 0 demo_provider] []"
  have nb: "\<not> blank ''c''" "\<not> blank ''p''" "\<not> blank ''t''" by (simp_all add: not_blank isspace_def)
  have p: "get_provider (provider_id demo_provider) ?rows = Inr demo_provider"
    using nb by (simp add: upsert_def demo_provider_def decoded_def upsert_by_def get_provider_def select_one_Cons)
  have r: "admissible ''c'' demo_policy demo_provider"
    by (simp add: admissible_def demo_provider_def demo_policy_def supports_def)
  show ?thesis
  proof (cases "select ''c'' demo_policy ?rows")
    case (Inl err)
    then show ?thesis using selection_keeps_to_policy [OF nb(1), where pol = demo_policy and ops = "[Upsert 0 demo_provider]"] p r by auto
  next
    case (Inr d)
    then show ?thesis using selection_keeps_to_policy [OF nb(1), where pol = demo_policy and ops = "[Upsert 0 demo_provider]"] by auto
  qed
qed

end
