(* ===== verification/Compute_Router.thy ===== *)
theory Compute_Router
  imports Py_Prelude
begin

text \<open>
  \<open>frost_core/external_evidence_gates.py\<close> and \<open>frost_core/compute_router.py\<close>: the gates that only evidence from
  outside can satisfy, and the routing of a workload past them. Costs are exact up to the rounding \<open>rnd\<close> of
  the floating point operations.
\<close>

section \<open>External gates\<close>

datatype gate_type = PROVIDER_HELD_RECORDS | ORIGINAL_EVIDENCE_BYTES | OWNER_AUTHORIZATION_FACT | PHYSICAL_ANDROID_EXECUTION
  | OAUTH_EXTERNAL_CONSENT

datatype gate_status = SATISFIED | PENDING_EXTERNAL | BLOCKED_CONSENT | NOT_OBSERVED | REJECTED_SUBSTITUTE

record evidence_candidate =
  source_class :: string
  evidence_origin :: string
  authentic :: bool
  owner_attested :: bool
  consent_granted :: bool
  device_origin :: bool
  original_bytes :: bool

record gate_decision =
  decided_gate :: gate_type
  gate_status_of :: gate_status
  gate_reason :: string

definition evaluate_gate :: "gate_type \<Rightarrow> evidence_candidate list \<Rightarrow> gate_decision" where
  "evaluate_gate g xs =
     (case g of
        PROVIDER_HELD_RECORDS \<Rightarrow>
          if list_ex (\<lambda>i. authentic i \<and> source_class i = ''provider_record'') xs
          then \<lparr>decided_gate = g, gate_status_of = SATISFIED, gate_reason = ''provider-originated record observed''\<rparr>
          else if xs \<noteq> []
          then \<lparr>decided_gate = g, gate_status_of = REJECTED_SUBSTITUTE,
                gate_reason = ''non-provider evidence cannot satisfy provider-held-record gate''\<rparr>
          else \<lparr>decided_gate = g, gate_status_of = PENDING_EXTERNAL,
                gate_reason = ''provider-originated records not currently available''\<rparr>
      | ORIGINAL_EVIDENCE_BYTES \<Rightarrow>
          if list_ex (\<lambda>i. authentic i \<and> original_bytes i) xs
          then \<lparr>decided_gate = g, gate_status_of = SATISFIED, gate_reason = ''original bytes observed''\<rparr>
          else if xs \<noteq> []
          then \<lparr>decided_gate = g, gate_status_of = REJECTED_SUBSTITUTE,
                gate_reason = ''summary/reconstruction/hash-only evidence cannot substitute for original bytes''\<rparr>
          else \<lparr>decided_gate = g, gate_status_of = PENDING_EXTERNAL, gate_reason = ''original bytes not currently accessible''\<rparr>
      | OWNER_AUTHORIZATION_FACT \<Rightarrow>
          if list_ex owner_attested xs
          then \<lparr>decided_gate = g, gate_status_of = SATISFIED, gate_reason = ''owner authorization attestation observed''\<rparr>
          else if xs \<noteq> []
          then \<lparr>decided_gate = g, gate_status_of = REJECTED_SUBSTITUTE,
                gate_reason = ''behavioral or technical inference cannot establish owner authorization''\<rparr>
          else \<lparr>decided_gate = g, gate_status_of = PENDING_EXTERNAL, gate_reason = ''owner authorization fact not established''\<rparr>
      | PHYSICAL_ANDROID_EXECUTION \<Rightarrow>
          if list_ex (\<lambda>i. authentic i \<and> device_origin i) xs
          then \<lparr>decided_gate = g, gate_status_of = SATISFIED, gate_reason = ''authentic Android/device-origin evidence observed''\<rparr>
          else if xs \<noteq> []
          then \<lparr>decided_gate = g, gate_status_of = REJECTED_SUBSTITUTE,
                gate_reason = ''host/cloud/simulation evidence cannot substitute for physical Android execution''\<rparr>
          else \<lparr>decided_gate = g, gate_status_of = NOT_OBSERVED,
                gate_reason = ''no authentic Android/device-origin evidence observed''\<rparr>
      | OAUTH_EXTERNAL_CONSENT \<Rightarrow>
          if list_ex consent_granted xs
          then \<lparr>decided_gate = g, gate_status_of = SATISFIED, gate_reason = ''OAuth consent observed''\<rparr>
          else if xs \<noteq> []
          then \<lparr>decided_gate = g, gate_status_of = REJECTED_SUBSTITUTE,
                gate_reason = ''credentials or assumed scope cannot substitute for explicit OAuth consent''\<rparr>
          else \<lparr>decided_gate = g, gate_status_of = BLOCKED_CONSENT, gate_reason = ''OAuth consent not granted''\<rparr>)"

section \<open>Routing\<close>

datatype provider_status = CONNECTED | AVAILABLE_NOT_CONNECTED | STATUS_BLOCKED_CONSENT | REQUIRES_CONFIG | NOT_AVAILABLE

record compute_provider =
  compute_id :: string
  provider_class :: string
  compute_status :: provider_status
  compute_capabilities :: "string set"
  allowed_workloads :: "string set"
  prohibited_uses :: "string set"
  cost :: rat
  latency :: rat
  privacy_penalty :: rat
  verification_value :: rat

record workload =
  workload_type :: string
  required_capabilities :: "string set"
  requires_physical_android :: bool
  requires_provider_record :: bool
  requires_original_bytes :: bool
  requires_owner_authorization :: bool
  requires_oauth_consent :: bool

record routing_decision =
  routed_provider :: "string option"
  routed :: bool
  route_reason :: string
  route_score :: "rat option"

fun gate_name :: "gate_type \<Rightarrow> string" where
  "gate_name PROVIDER_HELD_RECORDS = ''PROVIDER_HELD_RECORDS''"
| "gate_name ORIGINAL_EVIDENCE_BYTES = ''ORIGINAL_EVIDENCE_BYTES''"
| "gate_name OWNER_AUTHORIZATION_FACT = ''OWNER_AUTHORIZATION_FACT''"
| "gate_name PHYSICAL_ANDROID_EXECUTION = ''PHYSICAL_ANDROID_EXECUTION''"
| "gate_name OAUTH_EXTERNAL_CONSENT = ''OAUTH_EXTERNAL_CONSENT''"

definition blocked_by_external_gate :: "workload \<Rightarrow> string option" where
  "blocked_by_external_gate w =
     (if requires_physical_android w then Some ''PHYSICAL_ANDROID_EXECUTION''
      else if requires_provider_record w then Some ''PROVIDER_HELD_RECORDS''
      else if requires_original_bytes w then Some ''ORIGINAL_EVIDENCE_BYTES''
      else if requires_owner_authorization w then Some ''OWNER_AUTHORIZATION_FACT''
      else if requires_oauth_consent w then Some ''OAUTH_EXTERNAL_CONSENT''
      else None)"

definition can_compute :: "workload \<Rightarrow> compute_provider \<Rightarrow> bool" where
  "can_compute w p =
     (if compute_status p \<noteq> CONNECTED then False
      else if workload_type w \<notin> allowed_workloads p then False
      else if \<not> required_capabilities w \<subseteq> compute_capabilities p then False
      else if ''evidence_substitution'' \<in> prohibited_uses p \<and> blocked_by_external_gate w \<noteq> None then False
      else True)"

definition compute_score :: "(rat \<Rightarrow> rat) \<Rightarrow> compute_provider \<Rightarrow> rat" where
  "compute_score rnd p =
     rnd (rnd (rnd (rnd (verification_value p * 3) - rnd (cost p * 2)) - latency p) - rnd (privacy_penalty p * 2))"

text \<open>\<open>max(eligible, key=...)\<close>: the first of the greatest.\<close>

fun max_by :: "('a \<Rightarrow> 'k::linorder) \<Rightarrow> 'a \<Rightarrow> 'a list \<Rightarrow> 'a" where
  "max_by key best [] = best"
| "max_by key best (x # xs) = max_by key (if key best < key x then x else best) xs"

definition route_workload :: "(rat \<Rightarrow> rat) \<Rightarrow> workload \<Rightarrow> compute_provider list \<Rightarrow> string set \<Rightarrow> routing_decision" where
  "route_workload rnd w providers satisfied =
     (let gate = blocked_by_external_gate w
      in case (case gate of None \<Rightarrow> None | Some g \<Rightarrow> if g \<notin> satisfied then Some g else None) of
           Some g \<Rightarrow> \<lparr>routed_provider = None, routed = False, route_reason = ''blocked by external gate '' @ g, route_score = None\<rparr>
         | None \<Rightarrow>
             (case map (\<lambda>p. (compute_score rnd p, p)) (filter (can_compute w) providers) of
                [] \<Rightarrow> \<lparr>routed_provider = None, routed = False,
                       route_reason = ''no connected provider satisfies workload contract'', route_score = None\<rparr>
              | x # xs \<Rightarrow>
                  (case max_by (\<lambda>(sc, p). (sc, compute_id p)) x xs of
                     (sc, p) \<Rightarrow> \<lparr>routed_provider = Some (compute_id p), routed = True,
                                  route_reason = ''best eligible bounded provider'', route_score = Some sc\<rparr>)))"

section \<open>Properties\<close>

text \<open>The evidence a gate asks for, and the gates a workload asks for.\<close>

fun satisfies :: "gate_type \<Rightarrow> evidence_candidate \<Rightarrow> bool" where
  "satisfies PROVIDER_HELD_RECORDS i = (authentic i \<and> source_class i = ''provider_record'')"
| "satisfies ORIGINAL_EVIDENCE_BYTES i = (authentic i \<and> original_bytes i)"
| "satisfies OWNER_AUTHORIZATION_FACT i = owner_attested i"
| "satisfies PHYSICAL_ANDROID_EXECUTION i = (authentic i \<and> device_origin i)"
| "satisfies OAUTH_EXTERNAL_CONSENT i = consent_granted i"

definition required_gates :: "workload \<Rightarrow> gate_type set" where
  "required_gates w = {g. case g of PROVIDER_HELD_RECORDS \<Rightarrow> requires_provider_record w
     | ORIGINAL_EVIDENCE_BYTES \<Rightarrow> requires_original_bytes w | OWNER_AUTHORIZATION_FACT \<Rightarrow> requires_owner_authorization w
     | PHYSICAL_ANDROID_EXECUTION \<Rightarrow> requires_physical_android w | OAUTH_EXTERNAL_CONSENT \<Rightarrow> requires_oauth_consent w}"

definition best_for :: "(rat \<Rightarrow> rat) \<Rightarrow> workload \<Rightarrow> compute_provider list \<Rightarrow> compute_provider \<Rightarrow> bool" where
  "best_for rnd w providers p \<longleftrightarrow> p \<in> set providers \<and> can_compute w p
     \<and> (\<forall>q\<in>set providers. can_compute w q \<longrightarrow> compute_score rnd q \<le> compute_score rnd p)"

lemma gate_satisfied_iff: "gate_status_of (evaluate_gate g xs) = SATISFIED \<longleftrightarrow> list_ex (satisfies g) xs"
  by (cases g) (simp_all add: evaluate_gate_def list_ex_iff)

lemma max_by_facts: "max_by key x xs \<in> set (x # xs) \<and> (\<forall>y\<in>set (x # xs). key y \<le> key (max_by key x xs))"
proof (induction xs arbitrary: x)
  case (Cons y xs)
  let ?b = "if key x < key y then y else x"
  have "key x \<le> key ?b" "key y \<le> key ?b" by auto
  then show ?case using Cons.IH [of ?b] by (auto intro: order_trans)
qed simp

text \<open>
  C37. Only the first gate counts. A gate is satisfied exactly by evidence of the kind it asks for. A workload
  without gates is routed to a connected provider that allows it, has its capabilities and scores best,
  exactly when there is one. But a workload with several gates passes as soon as the first of them, in the
  order of the code, is satisfied: the others are not looked at.
\<close>

theorem only_first_gate_counts:
  fixes rnd w providers satisfied
  defines "d \<equiv> route_workload rnd w providers satisfied"
  shows "(gate_status_of (evaluate_gate g xs) = SATISFIED \<longleftrightarrow> list_ex (satisfies g) xs)
    \<and> (routed d \<longleftrightarrow> list_ex (can_compute w) providers
         \<and> (case find (\<lambda>g. g \<in> required_gates w) [PHYSICAL_ANDROID_EXECUTION, PROVIDER_HELD_RECORDS, ORIGINAL_EVIDENCE_BYTES,
                OWNER_AUTHORIZATION_FACT, OAUTH_EXTERNAL_CONSENT] of None \<Rightarrow> True | Some g \<Rightarrow> gate_name g \<in> satisfied))
    \<and> (case routed_provider d of None \<Rightarrow> \<not> routed d
       | Some i \<Rightarrow> routed d \<and> (\<exists>p. compute_id p = i \<and> best_for rnd w providers p \<and> route_score d = Some (compute_score rnd p)))"
proof -
  let ?gates = "[PHYSICAL_ANDROID_EXECUTION, PROVIDER_HELD_RECORDS, ORIGINAL_EVIDENCE_BYTES, OWNER_AUTHORIZATION_FACT, OAUTH_EXTERNAL_CONSENT]"
  have first: "blocked_by_external_gate w = map_option gate_name (find (\<lambda>g. g \<in> required_gates w) ?gates)"
    by (simp add: blocked_by_external_gate_def required_gates_def)
  let ?es = "map (\<lambda>p. (compute_score rnd p, p)) (filter (can_compute w) providers)"
  show ?thesis
  proof (cases "case find (\<lambda>g. g \<in> required_gates w) ?gates of None \<Rightarrow> True | Some g \<Rightarrow> gate_name g \<in> satisfied")
    case False
    then have "\<not> routed d" "routed_provider d = None"
      by (auto simp: d_def route_workload_def first split: option.splits simp del: find.simps)
    then show ?thesis using False gate_satisfied_iff by simp
  next
    case True
    then have d: "d = (case ?es of
                [] \<Rightarrow> \<lparr>routed_provider = None, routed = False,
                       route_reason = ''no connected provider satisfies workload contract'', route_score = None\<rparr>
              | x # xs \<Rightarrow>
                  (case max_by (\<lambda>(sc, p). (sc, compute_id p)) x xs of
                     (sc, p) \<Rightarrow> \<lparr>routed_provider = Some (compute_id p), routed = True,
                                  route_reason = ''best eligible bounded provider'', route_score = Some sc\<rparr>))"
      by (auto simp: d_def route_workload_def first split: option.splits simp del: find.simps)
    show ?thesis
    proof (cases ?es)
      case Nil
      then have "\<not> list_ex (can_compute w) providers" by (auto simp: list_ex_iff filter_empty_conv)
      then show ?thesis using d Nil gate_satisfied_iff by simp
    next
      case (Cons x xs)
      obtain sc p where m: "max_by (\<lambda>(sc, p). (sc, compute_id p)) x xs = (sc, p)" by (rule prod.exhaust)
      have set: "set (x # xs) = (\<lambda>p. (compute_score rnd p, p)) ` {p \<in> set providers. can_compute w p}"
        unfolding Cons [symmetric] by simp
      have "(sc, p) \<in> set (x # xs)" and best: "\<And>y. y \<in> set (x # xs) \<Longrightarrow> (\<lambda>(sc, p). (sc, compute_id p)) y \<le> (sc, compute_id p)"
        using max_by_facts [of "\<lambda>(sc, p). (sc, compute_id p)" x xs] unfolding m by auto
      then have p: "sc = compute_score rnd p" "p \<in> set providers" "can_compute w p" unfolding set by auto
      have "compute_score rnd q \<le> compute_score rnd p" if "q \<in> set providers" "can_compute w q" for q
        using best [of "(compute_score rnd q, q)"] that unfolding set p(1) by auto
      then have "best_for rnd w providers p" using p by (simp add: best_for_def)
      moreover have "list_ex (can_compute w) providers" using p by (auto simp: list_ex_iff)
      ultimately show ?thesis using d Cons m True p(1) gate_satisfied_iff by auto
    qed
  qed
qed

end
