(* ===== verification/Continuity_Proposal.thy ===== *)
theory Continuity_Proposal
  imports Object_Store_Claims
begin

text \<open>
  \<open>frost_core/continuity_proposal.py\<close>: a historical export becomes one immutable proposal in the object store.
  The export is a JSON object; \<open>rep\<close> is Python's \<open>repr\<close> of an array or object, which the code only uses to
  turn a field of the wrong type into text. Bytes are character strings,
  a payload is JSON without floats, which \<open>_jsonable\<close> keeps as it is, and a name quoted in an error message is one without
  quotes or control characters.
\<close>

section \<open>Fields\<close>

definition str_of :: "(json \<Rightarrow> string) \<Rightarrow> json \<Rightarrow> string" where
  "str_of rep v =
     (case v of
        JNull \<Rightarrow> ''None''
      | JBool b \<Rightarrow> if b then ''True'' else ''False''
      | JInt i \<Rightarrow> int_text i
      | JStr s \<Rightarrow> s
      | _ \<Rightarrow> rep v)"

definition field_or_null :: "json_object \<Rightarrow> string \<Rightarrow> json" where
  "field_or_null d k = (case get d k of None \<Rightarrow> JNull | Some v \<Rightarrow> v)"

text \<open>\<open>str(raw.get(key) or "").strip()\<close>\<close>

definition text_field :: "(json \<Rightarrow> string) \<Rightarrow> json_object \<Rightarrow> string \<Rightarrow> string" where
  "text_field rep d k = (let v = field_or_null d k in strip (if truthy v then str_of rep v else []))"

text \<open>\<open>for raw in (export.get(key) or [])\<close>, after the check that it is no string.\<close>

definition sequence_field :: "json_object \<Rightarrow> string \<Rightarrow> json list result" where
  "sequence_field d k =
     (case field_or_null d k of
        JArr xs \<Rightarrow> Inr xs
      | JStr s \<Rightarrow> if s = [] then Inr [] else Inl (TypeError (k @ '' must be a sequence of mappings''))
      | JObj ms \<Rightarrow> Inr (map (\<lambda>(key, v). JStr key) ms)
      | v \<Rightarrow> if truthy v then Inl (TypeError ''object is not iterable'') else Inr [])"

definition opt_text :: "string \<Rightarrow> string option" where
  "opt_text s = (if s = [] then None else Some s)"

definition quoted :: "string \<Rightarrow> string" where
  "quoted s = CHR 0x27 # s @ [CHR 0x27]"

section \<open>Entities\<close>

record entity =
  stable_id :: string
  entity_source :: string
  entity_type :: string
  epistemic_status :: "string option"
  revision_parent :: "string option"
  entity_payload :: json

definition stable_source_identity :: "(string \<Rightarrow> string) \<Rightarrow> string \<Rightarrow> string \<Rightarrow> string \<Rightarrow> string" where
  "stable_source_identity H system ty i = canonical_sha256 H
     (JObj [(''source_system'', JStr system), (''entity_type'', JStr ty), (''source_id'', JStr i)])"

definition read_entity :: "(string \<Rightarrow> string) \<Rightarrow> (json \<Rightarrow> string) \<Rightarrow> string \<Rightarrow> string list \<Rightarrow> json \<Rightarrow> entity result" where
  "read_entity H rep system seen v =
     (case v of
        JObj d \<Rightarrow>
          (let i = text_field rep d ''source_id''; ty = text_field rep d ''entity_type'';
               status = field_or_null d ''epistemic_status''; parent = field_or_null d ''revision_parent''; p = field_or_null d ''payload''
           in if i = [] \<or> ty = [] then Inl (ValueError ''entity source_id and entity_type are required'')
              else if i \<in> set seen then Inl (ValueError (''duplicate entity source_id: '' @ i))
              else if status \<noteq> JNull \<and> strip (str_of rep status) = [] then Inl (ValueError (''empty epistemic_status for '' @ i))
              else Inr \<lparr>stable_id = stable_source_identity H system ty i, entity_source = i, entity_type = ty,
                        epistemic_status = (if status = JNull then None else Some (strip (str_of rep status))),
                        revision_parent = (if parent = JNull then None else opt_text (strip (str_of rep parent))),
                        entity_payload = (if truthy p then p else JObj [])\<rparr>)
      | _ \<Rightarrow> Inl (TypeError ''each entity must be a mapping''))"

text \<open>The loop over the items: \<open>seen\<close> holds the keys of the items before.\<close>

fun read_all :: "(string list \<Rightarrow> 'v \<Rightarrow> 'x result) \<Rightarrow> ('x \<Rightarrow> string) \<Rightarrow> string list \<Rightarrow> 'v list \<Rightarrow> 'x list result" where
  "read_all f key seen [] = Inr []"
| "read_all f key seen (v # vs) =
     (case f seen v of
        Inl e \<Rightarrow> Inl e
      | Inr x \<Rightarrow> (case read_all f key (key x # seen) vs of Inl e \<Rightarrow> Inl e | Inr xs \<Rightarrow> Inr (x # xs)))"

fun check_parents :: "string set \<Rightarrow> entity list \<Rightarrow> unit result" where
  "check_parents ids [] = Inr ()"
| "check_parents ids (x # xs) =
     (case revision_parent x of
        Some p \<Rightarrow> if p \<notin> ids
                  then Inl (ValueError (''revision_parent '' @ quoted p @ '' for '' @ quoted (entity_source x) @ '' is not present''))
                  else check_parents ids xs
      | None \<Rightarrow> check_parents ids xs)"

definition normalize_entities :: "(string \<Rightarrow> string) \<Rightarrow> (json \<Rightarrow> string) \<Rightarrow> string \<Rightarrow> json_object \<Rightarrow> entity list result" where
  "normalize_entities H rep system raw =
     (case sequence_field raw ''entities'' of
        Inl e \<Rightarrow> Inl e
      | Inr vs \<Rightarrow>
          (case read_all (read_entity H rep system) entity_source [] vs of
             Inl e \<Rightarrow> Inl e
           | Inr xs \<Rightarrow>
               (let result = sort_key stable_id xs
                in case check_parents (set (map entity_source result)) result of Inl e \<Rightarrow> Inl e | Inr _ \<Rightarrow> Inr result)))"

section \<open>Relationships\<close>

record relationship =
  rel_source :: string
  rel_name :: string
  rel_target :: string
  source_endpoint_type :: string
  target_endpoint_type :: string

definition rel_key :: "relationship \<Rightarrow> string \<times> string \<times> string" where
  "rel_key r = (rel_source r, rel_name r, rel_target r)"

definition read_relationship :: "(json \<Rightarrow> string) \<Rightarrow> string set \<Rightarrow> json \<Rightarrow> relationship result" where
  "read_relationship rep ids v =
     (case v of
        JObj d \<Rightarrow>
          (let s = text_field rep d ''source_id''; n = text_field rep d ''relation''; t = text_field rep d ''target_id''
           in if s = [] \<or> n = [] \<or> t = [] then Inl (ValueError ''relationship source_id, relation, and target_id are required'')
              else if s \<notin> ids \<or> t \<notin> ids
              then Inl (ValueError (''relationship endpoints must exist in export: '' @ quoted s @ '' -> '' @ quoted t))
              else Inr \<lparr>rel_source = s, rel_name = n, rel_target = t,
                        source_endpoint_type = text_field rep d ''source_endpoint_type'',
                        target_endpoint_type = text_field rep d ''target_endpoint_type''\<rparr>)
      | _ \<Rightarrow> Inl (TypeError ''each relationship must be a mapping''))"

fun read_relationships :: "(json \<Rightarrow> string) \<Rightarrow> string set \<Rightarrow> (string \<times> string \<times> string) set \<Rightarrow> json list \<Rightarrow> relationship list result" where
  "read_relationships rep ids seen [] = Inr []"
| "read_relationships rep ids seen (v # vs) =
     (case read_relationship rep ids v of
        Inl e \<Rightarrow> Inl e
      | Inr r \<Rightarrow>
          if rel_key r \<in> seen then read_relationships rep ids seen vs
          else (case read_relationships rep ids (insert (rel_key r) seen) vs of Inl e \<Rightarrow> Inl e | Inr rs \<Rightarrow> Inr (r # rs)))"

definition normalize_relationships :: "(json \<Rightarrow> string) \<Rightarrow> string set \<Rightarrow> json_object \<Rightarrow> relationship list result" where
  "normalize_relationships rep ids raw =
     (case sequence_field raw ''relationships'' of
        Inl e \<Rightarrow> Inl e
      | Inr vs \<Rightarrow> (case read_relationships rep ids {} vs of Inl e \<Rightarrow> Inl e | Inr rs \<Rightarrow> Inr (sort_key rel_key rs)))"

section \<open>Artifacts\<close>

record artifact =
  artifact_id :: string
  artifact_sha :: string
  artifact_verification :: string
  media_type :: "string option"
  logical_ref :: "string option"

datatype supplied = Bytes string | Not_Bytes

definition is_lower_sha :: "string \<Rightarrow> bool" where
  "is_lower_sha s \<longleftrightarrow> length s = 64 \<and> list_all (\<lambda>c. c \<in> set ''0123456789abcdef'') s"

definition verify_artifact :: "(string \<Rightarrow> string) \<Rightarrow> (string \<times> supplied) list \<Rightarrow> string \<Rightarrow> string \<Rightarrow> string result" where
  "verify_artifact H payloads i sha =
     (case map_of payloads i of
        None \<Rightarrow> Inr ''HASH_PRESERVED_BYTES_NOT_PROVIDED''
      | Some Not_Bytes \<Rightarrow> Inl (TypeError (''artifact payload for '' @ quoted i @ '' must be bytes''))
      | Some (Bytes b) \<Rightarrow>
          if H b \<noteq> sha
          then Inl (ValueError (''artifact SHA-256 mismatch for '' @ quoted i @ '': expected '' @ sha @ '', got '' @ H b))
          else Inr ''SHA256_VERIFIED_FROM_SUPPLIED_BYTES'')"

definition read_artifact :: "(string \<Rightarrow> string) \<Rightarrow> (json \<Rightarrow> string) \<Rightarrow> (string \<times> supplied) list \<Rightarrow> string list \<Rightarrow> json \<Rightarrow> artifact result" where
  "read_artifact H rep payloads seen v =
     (case v of
        JObj d \<Rightarrow>
          (let i = text_field rep d ''artifact_id''; sha = lower (text_field rep d ''sha256'')
           in if i = [] then Inl (ValueError ''artifact_id is required'')
              else if i \<in> set seen then Inl (ValueError (''duplicate artifact_id: '' @ i))
              else if \<not> is_lower_sha sha then Inl (ValueError (''artifact '' @ quoted i @ '' requires lowercase SHA-256''))
              else (case verify_artifact H payloads i sha of
                Inl e \<Rightarrow> Inl e
              | Inr ver \<Rightarrow> Inr \<lparr>artifact_id = i, artifact_sha = sha, artifact_verification = ver,
                             media_type = opt_text (text_field rep d ''media_type''), logical_ref = opt_text (text_field rep d ''logical_ref'')\<rparr>))
      | _ \<Rightarrow> Inl (TypeError ''each artifact must be a mapping''))"

definition normalize_artifacts :: "(string \<Rightarrow> string) \<Rightarrow> (json \<Rightarrow> string) \<Rightarrow> (string \<times> supplied) list \<Rightarrow> json_object \<Rightarrow> artifact list result" where
  "normalize_artifacts H rep payloads raw =
     (case sequence_field raw ''artifacts'' of
        Inl e \<Rightarrow> Inl e
      | Inr vs \<Rightarrow> (case read_all (read_artifact H rep payloads) artifact_id [] vs of Inl e \<Rightarrow> Inl e | Inr xs \<Rightarrow> Inr (sort_key artifact_id xs)))"

section \<open>The proposal\<close>

record proposal =
  source_system :: string
  export_version :: string
  source_digest :: string
  entities :: "entity list"
  relationships :: "relationship list"
  artifacts :: "artifact list"

definition entity_json :: "entity \<Rightarrow> json" where
  "entity_json x = JObj
     [(''stable_id'', JStr (stable_id x)), (''source_id'', JStr (entity_source x)), (''entity_type'', JStr (entity_type x)),
      (''epistemic_status'', opt_str (epistemic_status x)), (''revision_parent'', opt_str (revision_parent x)),
      (''payload'', entity_payload x)]"

definition relationship_json :: "relationship \<Rightarrow> json" where
  "relationship_json r = JObj
     ([(''source_id'', JStr (rel_source r)), (''relation'', JStr (rel_name r)), (''target_id'', JStr (rel_target r))]
      @ (if source_endpoint_type r \<noteq> [] then [(''source_endpoint_type'', JStr (source_endpoint_type r))] else [])
      @ (if target_endpoint_type r \<noteq> [] then [(''target_endpoint_type'', JStr (target_endpoint_type r))] else []))"

definition artifact_json :: "artifact \<Rightarrow> json" where
  "artifact_json x = JObj
     [(''artifact_id'', JStr (artifact_id x)), (''sha256'', JStr (artifact_sha x)), (''verification'', JStr (artifact_verification x)),
      (''media_type'', opt_str (media_type x)), (''logical_ref'', opt_str (logical_ref x))]"

definition content_digest :: "(string \<Rightarrow> string) \<Rightarrow> string \<Rightarrow> string \<Rightarrow> entity list \<Rightarrow> relationship list \<Rightarrow> artifact list \<Rightarrow> string" where
  "content_digest H system version es rs xs = canonical_sha256 H (JObj
     [(''source_system'', JStr system), (''export_version'', JStr version), (''entities'', JArr (map entity_json es)),
      (''relationships'', JArr (map relationship_json rs)), (''artifacts'', JArr (map artifact_json xs))])"


definition compile :: "(string \<Rightarrow> string) \<Rightarrow> (json \<Rightarrow> string) \<Rightarrow> (string \<times> supplied) list \<Rightarrow> json_object \<Rightarrow> proposal result" where
  "compile H rep payloads raw =
     (let system = text_field rep raw ''source_system''; version = text_field rep raw ''export_version''
      in if system = [] then Inl (ValueError ''source_system is required'')
         else if version = [] then Inl (ValueError ''export_version is required'')
         else (case normalize_entities H rep system raw of
            Inl e \<Rightarrow> Inl e
          | Inr es \<Rightarrow>
              (case normalize_relationships rep (set (map entity_source es)) raw of
                 Inl e \<Rightarrow> Inl e
               | Inr rs \<Rightarrow>
                   (case normalize_artifacts H rep payloads raw of
                      Inl e \<Rightarrow> Inl e
                    | Inr xs \<Rightarrow> Inr \<lparr>source_system = system, export_version = version,
                                   source_digest = content_digest H system version es rs xs,
                                   entities = es, relationships = rs, artifacts = xs\<rparr>))))"



section \<open>What the readers accept\<close>

definition read_ok :: "(string list \<Rightarrow> 'v \<Rightarrow> 'x result) \<Rightarrow> ('x \<Rightarrow> string) \<Rightarrow> bool" where
  "read_ok f key \<longleftrightarrow> (\<forall>seen v x. f seen v = Inr x \<longleftrightarrow> f [] v = Inr x \<and> key x \<notin> set seen)"

lemma read_entity_ok: "read_ok (read_entity H rep system) entity_source"
  by (auto simp: read_ok_def read_entity_def Let_def split: json.splits if_splits)

lemma read_artifact_ok: "read_ok (read_artifact H rep payloads) artifact_id"
  by (auto simp: read_ok_def read_artifact_def Let_def split: json.splits if_splits sum.splits)

text \<open>Reading a list succeeds when every item can be read and no key occurs twice.\<close>

lemma read_all_iff:
  assumes "read_ok f key"
  shows "read_all f key seen vs = Inr xs \<longleftrightarrow> list_all2 (\<lambda>v x. f [] v = Inr x) vs xs
     \<and> distinct (map key xs) \<and> (\<forall>x\<in>set xs. key x \<notin> set seen)"
proof (induction vs arbitrary: seen xs)
  case (Cons v vs)
  have r: "f seen v = Inr x \<longleftrightarrow> f [] v = Inr x \<and> key x \<notin> set seen" for x
    using assms unfolding read_ok_def by blast
  have e: "read_all f key seen (v # vs) = Inr xs \<longleftrightarrow>
      (\<exists>x ys. xs = x # ys \<and> f seen v = Inr x \<and> read_all f key (key x # seen) vs = Inr ys)"
    by (auto split: sum.splits)
  show ?case unfolding e r Cons.IH
  proof
    assume "\<exists>x ys. xs = x # ys \<and> (f [] v = Inr x \<and> key x \<notin> set seen) \<and> list_all2 (\<lambda>v x. f [] v = Inr x) vs ys
      \<and> distinct (map key ys) \<and> (\<forall>z\<in>set ys. key z \<notin> set (key x # seen))"
    then show "list_all2 (\<lambda>v x. f [] v = Inr x) (v # vs) xs \<and> distinct (map key xs) \<and> (\<forall>x\<in>set xs. key x \<notin> set seen)"
      by (elim exE conjE) (auto simp: image_iff)
  next
    assume "list_all2 (\<lambda>v x. f [] v = Inr x) (v # vs) xs \<and> distinct (map key xs) \<and> (\<forall>x\<in>set xs. key x \<notin> set seen)"
    then obtain x ys where "xs = x # ys" "f [] v = Inr x" "list_all2 (\<lambda>v x. f [] v = Inr x) vs ys"
        "distinct (map key (x # ys))" "\<forall>z\<in>set (x # ys). key z \<notin> set seen"
      by (auto simp: list_all2_Cons1)
    then show "\<exists>x ys. xs = x # ys \<and> (f [] v = Inr x \<and> key x \<notin> set seen) \<and> list_all2 (\<lambda>v x. f [] v = Inr x) vs ys
      \<and> distinct (map key ys) \<and> (\<forall>z\<in>set ys. key z \<notin> set (key x # seen))"
      by (intro exI[of _ x] exI[of _ ys]) (auto simp: image_iff)
  qed
qed auto

lemma read_relationships_facts:
  "read_relationships rep ids seen vs = Inr rs \<Longrightarrow> distinct (map rel_key rs) \<and> set (map rel_key rs) \<inter> seen = {}
     \<and> (\<forall>r\<in>set rs. rel_source r \<in> ids \<and> rel_target r \<in> ids)"
proof (induction vs arbitrary: seen rs)
  case (Cons v vs)
  obtain r where r: "read_relationship rep ids v = Inr r" using Cons.prems by (auto split: sum.splits)
  then have k: "rel_source r \<in> ids \<and> rel_target r \<in> ids"
    by (auto simp: read_relationship_def Let_def split: json.splits if_splits)
  show ?case
  proof (cases "rel_key r \<in> seen")
    case True
    then show ?thesis using Cons r by simp
  next
    case False
    then obtain rs' where "read_relationships rep ids (insert (rel_key r) seen) vs = Inr rs'" "rs = r # rs'"
      using Cons.prems r by (auto split: sum.splits)
    then show ?thesis using Cons.IH k False by fastforce
  qed
qed simp

lemma check_parents_iff: "check_parents ids xs = Inr () \<longleftrightarrow> (\<forall>x\<in>set xs. \<forall>p. revision_parent x = Some p \<longrightarrow> p \<in> ids)"
  by (induction xs) (auto split: option.split)

definition artifact_honest :: "(string \<Rightarrow> string) \<Rightarrow> (string \<times> supplied) list \<Rightarrow> artifact \<Rightarrow> bool" where
  "artifact_honest H payloads x \<longleftrightarrow> is_lower_sha (artifact_sha x)
     \<and> (case map_of payloads (artifact_id x) of
          None \<Rightarrow> artifact_verification x = ''HASH_PRESERVED_BYTES_NOT_PROVIDED''
        | Some b \<Rightarrow> (\<exists>bytes. b = Bytes bytes \<and> H bytes = artifact_sha x)
                     \<and> artifact_verification x = ''SHA256_VERIFIED_FROM_SUPPLIED_BYTES'')"

lemma read_artifact_honest: "read_artifact H rep payloads seen v = Inr x \<Longrightarrow> artifact_honest H payloads x"
  by (auto simp: read_artifact_def verify_artifact_def artifact_honest_def Let_def split: json.splits if_splits sum.splits option.splits
      supplied.splits)

text \<open>A sorted list is determined by its members when no two have the same key.\<close>

lemma sort_permuted:
  assumes "mset xs = mset ys" "distinct (map f xs)" shows "sort_key f xs = sort_key f ys"
proof -
  have "inj_on f (set xs)" using assms(2) by (simp add: distinct_map)
  then show ?thesis using assms(1) by (intro sort_key_inj_key_eq) simp_all
qed

lemma list_all2_permuted:
  assumes "list_all2 (\<lambda>v x. f v = Inr x) vs xs" "mset vs' = mset vs"
  shows "\<exists>xs'. list_all2 (\<lambda>v x. f v = Inr x) vs' xs' \<and> mset xs' = mset xs"
proof -
  have xs: "map f vs = map Inr xs" using assms(1) by (induction rule: list_all2_induct) auto
  define g where "g = (\<lambda>v. case f v of Inr x \<Rightarrow> x | Inl _ \<Rightarrow> undefined)"
  have g: "xs = map g vs" using assms(1) by (induction rule: list_all2_induct) (auto simp: g_def)
  have "\<forall>v\<in>set vs'. f v = Inr (g v)"
  proof
    fix v assume "v \<in> set vs'"
    then have "v \<in> set vs" using assms(2) by (metis set_mset_mset)
    then have "f v \<in> Inr ` set xs" using xs by (metis image_eqI list.set_map)
    then show "f v = Inr (g v)" by (auto simp: g_def)
  qed
  then have "list_all2 (\<lambda>v x. f v = Inr x) vs' (map g vs')" by (simp add: list_all2_map2 list_all2_same)
  moreover have "mset (map g vs') = mset xs" unfolding g using assms(2) by simp
  ultimately show ?thesis by blast
qed

section \<open>The lists of an accepted export\<close>

lemma normalize_entities_iff:
  "normalize_entities H rep system raw = Inr es \<longleftrightarrow>
     (\<exists>vs xs. sequence_field raw ''entities'' = Inr vs \<and> list_all2 (\<lambda>v x. read_entity H rep system [] v = Inr x) vs xs
        \<and> distinct (map entity_source xs) \<and> es = sort_key stable_id xs
        \<and> (\<forall>x\<in>set xs. \<forall>p. revision_parent x = Some p \<longrightarrow> p \<in> entity_source ` set xs))"
proof -
  have "normalize_entities H rep system raw = Inr es \<longleftrightarrow>
     (\<exists>vs xs. sequence_field raw ''entities'' = Inr vs \<and> read_all (read_entity H rep system) entity_source [] vs = Inr xs
        \<and> check_parents (entity_source ` set xs) (sort_key stable_id xs) = Inr () \<and> es = sort_key stable_id xs)"
    by (auto simp: normalize_entities_def Let_def split: sum.splits)
  then show ?thesis unfolding read_all_iff [OF read_entity_ok] check_parents_iff by auto
qed

lemma normalize_artifacts_iff:
  "normalize_artifacts H rep payloads raw = Inr ys \<longleftrightarrow>
     (\<exists>vs xs. sequence_field raw ''artifacts'' = Inr vs \<and> list_all2 (\<lambda>v x. read_artifact H rep payloads [] v = Inr x) vs xs
        \<and> distinct (map artifact_id xs) \<and> ys = sort_key artifact_id xs)"
proof -
  have "normalize_artifacts H rep payloads raw = Inr ys \<longleftrightarrow>
     (\<exists>vs xs. sequence_field raw ''artifacts'' = Inr vs \<and> read_all (read_artifact H rep payloads) artifact_id [] vs = Inr xs
        \<and> ys = sort_key artifact_id xs)"
    by (auto simp: normalize_artifacts_def split: sum.splits)
  then show ?thesis unfolding read_all_iff [OF read_artifact_ok] by auto
qed

lemma distinct_map_sort: "distinct (map f xs) \<Longrightarrow> distinct (map f (sort_key g xs))"
  by (simp add: distinct_map)

lemma compile_iff:
  "compile H rep payloads raw = Inr p \<longleftrightarrow>
     (\<exists>es rs xs. text_field rep raw ''source_system'' \<noteq> [] \<and> text_field rep raw ''export_version'' \<noteq> []
        \<and> normalize_entities H rep (text_field rep raw ''source_system'') raw = Inr es
        \<and> normalize_relationships rep (entity_source ` set es) raw = Inr rs \<and> normalize_artifacts H rep payloads raw = Inr xs
        \<and> p = \<lparr>source_system = text_field rep raw ''source_system'', export_version = text_field rep raw ''export_version'',
               source_digest = content_digest H (text_field rep raw ''source_system'') (text_field rep raw ''export_version'') es rs xs,
               entities = es, relationships = rs, artifacts = xs\<rparr>)"
  by (auto simp: compile_def Let_def split: sum.splits)

section \<open>Properties\<close>

text \<open>
  C38. A compiled proposal is closed and honest: no source id and no artifact id occurs twice, no relationship is
  repeated, every revision parent and both ends of every relationship are entities of the proposal, and an artifact
  is called verified exactly when its bytes were supplied, in which case they hash to the digest it records.
\<close>
theorem proposals_are_closed:
  assumes "compile H rep payloads raw = Inr p"
  shows "distinct (map entity_source (entities p))
    \<and> (\<forall>x\<in>set (entities p). \<forall>q. revision_parent x = Some q \<longrightarrow> q \<in> entity_source ` set (entities p))
    \<and> distinct (map rel_key (relationships p))
    \<and> (\<forall>r\<in>set (relationships p). {rel_source r, rel_target r} \<subseteq> entity_source ` set (entities p))
    \<and> distinct (map artifact_id (artifacts p)) \<and> (\<forall>x\<in>set (artifacts p). artifact_honest H payloads x)"
proof -
  obtain es rs xs where es: "normalize_entities H rep (text_field rep raw ''source_system'') raw = Inr es"
    and rs: "normalize_relationships rep (entity_source ` set es) raw = Inr rs" and xs: "normalize_artifacts H rep payloads raw = Inr xs"
    and p: "entities p = es" "relationships p = rs" "artifacts p = xs"
    using assms unfolding compile_iff by auto
  obtain ys where ys: "es = sort_key stable_id ys" "distinct (map entity_source ys)"
      "\<forall>x\<in>set ys. \<forall>p. revision_parent x = Some p \<longrightarrow> p \<in> entity_source ` set ys"
    using es unfolding normalize_entities_iff by blast
  obtain vs zs where zs: "xs = sort_key artifact_id zs" "distinct (map artifact_id zs)"
      "list_all2 (\<lambda>v x. read_artifact H rep payloads [] v = Inr x) vs zs"
    using xs unfolding normalize_artifacts_iff by blast
  have honest: "\<forall>x\<in>set zs. artifact_honest H payloads x"
    using zs(3) by (induction rule: list_all2_induct) (auto dest: read_artifact_honest)
  obtain ws us where us: "read_relationships rep (entity_source ` set es) {} ws = Inr us" "rs = sort_key rel_key us"
    using rs by (auto simp: normalize_relationships_def split: sum.splits)
  show ?thesis using ys zs(1,2) honest read_relationships_facts [OF us(1)]
    by (auto simp: p us(2) distinct_map_sort)
qed




lemma distinct_permuted: "mset xs' = mset xs \<Longrightarrow> distinct (map f xs') = distinct (map f xs)"
  by (metis mset_eq_imp_distinct_iff mset_map)

lemma normalize_entities_permuted:
  assumes es: "normalize_entities H rep system raw = Inr es" and d: "distinct (map stable_id es)"
    and f: "sequence_field raw ''entities'' = Inr vs" "sequence_field raw' ''entities'' = Inr vs'" and m: "mset vs' = mset vs"
  shows "normalize_entities H rep system raw' = Inr es"
proof -
  obtain xs where xs: "list_all2 (\<lambda>v x. read_entity H rep system [] v = Inr x) vs xs" "distinct (map entity_source xs)"
      "es = sort_key stable_id xs" "\<forall>x\<in>set xs. \<forall>p. revision_parent x = Some p \<longrightarrow> p \<in> entity_source ` set xs"
    using es f(1) unfolding normalize_entities_iff by auto
  obtain xs' where xs': "list_all2 (\<lambda>v x. read_entity H rep system [] v = Inr x) vs' xs'" "mset xs' = mset xs"
    using list_all2_permuted [OF xs(1) m] by blast
  have "distinct (map stable_id xs)" using d xs(3) by (simp add: distinct_map)
  then have "distinct (map stable_id xs')" using distinct_permuted [OF xs'(2)] by blast
  then have "es = sort_key stable_id xs'" unfolding xs(3) by (intro sort_permuted [symmetric] xs'(2))
  moreover have "set xs' = set xs" using xs'(2) by (rule mset_eq_setD)
  ultimately show ?thesis
    unfolding normalize_entities_iff using f(2) xs'(1) xs(2,4) distinct_permuted [OF xs'(2), of entity_source] by auto
qed

lemma normalize_artifacts_permuted:
  assumes ys: "normalize_artifacts H rep payloads raw = Inr ys"
    and f: "sequence_field raw ''artifacts'' = Inr vs" "sequence_field raw' ''artifacts'' = Inr vs'" and m: "mset vs' = mset vs"
  shows "normalize_artifacts H rep payloads raw' = Inr ys"
proof -
  obtain xs where xs: "list_all2 (\<lambda>v x. read_artifact H rep payloads [] v = Inr x) vs xs" "distinct (map artifact_id xs)"
      "ys = sort_key artifact_id xs"
    using ys f(1) unfolding normalize_artifacts_iff by auto
  obtain xs' where xs': "list_all2 (\<lambda>v x. read_artifact H rep payloads [] v = Inr x) vs' xs'" "mset xs' = mset xs"
    using list_all2_permuted [OF xs(1) m] by blast
  have d: "distinct (map artifact_id xs')" using xs(2) distinct_permuted [OF xs'(2)] by blast
  then have "ys = sort_key artifact_id xs'" unfolding xs(3) by (intro sort_permuted [symmetric] xs'(2))
  then show ?thesis unfolding normalize_artifacts_iff using f(2) xs'(1) d by auto
qed

text \<open>
  C39. The order of the entities and of the artifacts in an export is immaterial: when the entities of the proposal
  have different stable ids (two equal ones would be a hash collision), permuting them in the export, and
  its artifacts, compiles to the very same proposal, digest included.
\<close>
theorem export_order_is_immaterial:
  assumes "compile H rep payloads raw = Inr p" and "distinct (map stable_id (entities p))"
    and "\<forall>k. k \<noteq> ''entities'' \<and> k \<noteq> ''artifacts'' \<longrightarrow> get raw' k = get raw k"
    and "sequence_field raw ''entities'' = Inr es" and "sequence_field raw' ''entities'' = Inr es'" and "mset es' = mset es"
    and "sequence_field raw ''artifacts'' = Inr xs" and "sequence_field raw' ''artifacts'' = Inr xs'" and "mset xs' = mset xs"
  shows "compile H rep payloads raw' = Inr p"
proof -
  have f: "text_field rep raw' k = text_field rep raw k" "sequence_field raw' k = sequence_field raw k"
    if "k \<noteq> ''entities''" "k \<noteq> ''artifacts''" for k
    using assms(3) that by (simp_all add: text_field_def sequence_field_def field_or_null_def)
  have "normalize_relationships rep ids raw' = normalize_relationships rep ids raw" for ids
    using f(2) [of "''relationships''"] by (simp add: normalize_relationships_def)
  then show ?thesis
    using assms(1,2) f(1) [of "''source_system''"] f(1) [of "''export_version''"]
      normalize_entities_permuted [OF _ _ assms(4-6)] normalize_artifacts_permuted [OF _ assms(7-9)]
    unfolding compile_iff by auto
qed

section \<open>A concrete export\<close>

definition demo_hash :: "string \<Rightarrow> string" where
  "demo_hash s = replicate 64 CHR ''a''"

definition demo_entities :: "json list" where
  "demo_entities =
     [JObj [(''source_id'', JStr ''s1''), (''entity_type'', JStr ''claim''), (''epistemic_status'', JStr ''OPEN'')]]"

definition demo_artifacts :: "json list" where
  "demo_artifacts =
     [JObj [(''artifact_id'', JStr ''log''), (''sha256'', JStr (replicate 64 CHR ''A''))],
      JObj [(''artifact_id'', JStr ''fig''), (''sha256'', JStr (replicate 64 CHR ''b''))]]"

definition demo_export :: "json list \<Rightarrow> json_object" where
  "demo_export xs =
     [(''source_system'', JStr ''lab''), (''export_version'', JStr ''v1''), (''entities'', JArr demo_entities), (''artifacts'', JArr xs)]"

definition demo_compiled :: "json list \<Rightarrow> proposal result" where
  "demo_compiled xs = compile demo_hash (\<lambda>_. []) [(''log'', Bytes ''bytes'')] (demo_export xs)"

lemma demo_accepted:
  "case demo_compiled demo_artifacts of
     Inr p \<Rightarrow> length (artifacts p) = 2 \<and> map entity_source (entities p) = [''s1''] | Inl _ \<Rightarrow> False"
  unfolding demo_compiled_def demo_export_def demo_entities_def demo_artifacts_def demo_hash_def by code_simp

lemma proposals_are_closed_witness:
  "\<exists>p. demo_compiled demo_artifacts = Inr p \<and> length (artifacts p) = 2 \<and> distinct (map artifact_id (artifacts p))"
proof -
  obtain p where p: "demo_compiled demo_artifacts = Inr p" "length (artifacts p) = 2"
    using demo_accepted by (auto split: sum.splits)
  show ?thesis using p proposals_are_closed [OF p(1) [unfolded demo_compiled_def]] by blast
qed

lemma export_order_is_immaterial_witness: "demo_compiled (rev demo_artifacts) = demo_compiled demo_artifacts"
proof -
  obtain p where p: "demo_compiled demo_artifacts = Inr p" "map entity_source (entities p) = [''s1'']"
    using demo_accepted by (auto split: sum.splits)
  obtain x where x: "entities p = [x]" using p(2) by (cases "entities p") auto
  have f: "sequence_field (demo_export xs) ''artifacts'' = Inr xs" "sequence_field (demo_export xs) ''entities'' = Inr demo_entities"
      for xs
    by (simp_all add: demo_export_def sequence_field_def field_or_null_def get_def)
  have same: "\<forall>k. k \<noteq> ''entities'' \<and> k \<noteq> ''artifacts'' \<longrightarrow> get (demo_export (rev demo_artifacts)) k = get (demo_export demo_artifacts) k"
    by (simp add: demo_export_def get_def)
  have "demo_compiled (rev demo_artifacts) = Inr p" unfolding demo_compiled_def
    by (rule export_order_is_immaterial [OF p(1) [unfolded demo_compiled_def] _ same f(2) f(2) refl f(1) f(1)]) (simp_all add: x)
  then show ?thesis by (simp add: p(1))
qed

end
