(* ===== verification/External_Sources.thy ===== *)
theory External_Sources
  imports Object_Store_Claims
begin

text \<open>
  \<open>frost_core/external_ai_evidence.py\<close>: conversations of external AI systems become source locators and, when
  their text was acquired, transcripts in the object store. \<open>H\<close> is SHA-256 of a text and \<open>clk i\<close> the \<open>i\<close>-th
  reading of the clock.
\<close>

section \<open>Ingestion\<close>

text \<open>\<open>str.upper()\<close> on the code points below 256; the two letters with a capital above are left as they are.\<close>

definition upper_letter :: "char \<Rightarrow> string" where
  "upper_letter c =
     (let n = (of_char c :: nat)
      in if n = 223 then ''SS''
         else if 97 \<le> n \<and> n \<le> 122 \<or> 224 \<le> n \<and> n \<le> 254 \<and> n \<noteq> 247 then [char_of (n - 32)] else [c])"

definition upper :: "string \<Rightarrow> string" where
  "upper s = concat (map upper_letter s)"

text \<open>\<open>str(conversation_id or "").strip() or None\<close>\<close>

definition optional_text :: "string option \<Rightarrow> string option" where
  "optional_text v = (let t = strip (case v of None \<Rightarrow> [] | Some s \<Rightarrow> s) in if t = [] then None else Some t)"

record external_request =
  platform :: string
  request_ref :: string
  acquisition_status :: string
  completeness :: string
  conversation :: "string option"
  transcript_text :: "string option"
  transcript_sha :: "string option"
  attachments :: "json_object list"
  request_metadata :: json_object

record external_receipt =
  source_id :: string
  transcript_id :: "string option"
  receipt_status :: string
  receipt_completeness :: string
  analysis_ready :: bool

definition allowed_status :: "string set" where
  "allowed_status = {''ACQUIRED'', ''PARTIAL'', ''UNAVAILABLE''}"

definition allowed_completeness :: "string set" where
  "allowed_completeness = {''COMPLETE'', ''PARTIAL'', ''UNKNOWN''}"

text \<open>The request with its texts stripped and folded.\<close>

definition normalized :: "external_request \<Rightarrow> external_request" where
  "normalized q = q\<lparr>platform := lower (strip (platform q)), request_ref := strip (request_ref q),
     acquisition_status := upper (strip (acquisition_status q)), completeness := upper (strip (completeness q)),
     conversation := optional_text (conversation q)\<rparr>"

definition check_request :: "external_request \<Rightarrow> unit result" where
  "check_request q =
     (if platform q = [] then Inl (ValueError ''platform is required'')
      else if request_ref q = [] then Inl (ValueError ''source_ref is required'')
      else if acquisition_status q \<notin> allowed_status
      then Inl (ValueError (''unsupported acquisition_status: '' @ acquisition_status q))
      else if completeness q \<notin> allowed_completeness
      then Inl (ValueError (''unsupported completeness: '' @ completeness q))
      else Inr ())"

definition source_payload :: "external_request \<Rightarrow> json" where
  "source_payload q = JObj
     [(''platform'', JStr (platform q)), (''source_ref'', JStr (request_ref q)), (''conversation_id'', opt_str (conversation q)),
      (''acquisition_status'', JStr (acquisition_status q)), (''completeness'', JStr (completeness q)),
      (''attachments'', JArr (map JObj (attachments q))), (''metadata'', JObj (request_metadata q))]"

definition put_source :: "(string \<Rightarrow> string) \<Rightarrow> rat \<Rightarrow> external_request \<Rightarrow> store \<Rightarrow> (string, store) outcome" where
  "put_source H now q s = put_object H now ''external_ai_source'' (source_payload q) (''external_ai:'' @ platform q) (request_ref q)
     ''EXTERNAL_AI_LOCATOR'' None s"

text \<open>The checks after the locator was stored: the text of the transcript, or \<open>None\<close> for an unavailable source.\<close>

definition check_transcript :: "(string \<Rightarrow> string) \<Rightarrow> external_request \<Rightarrow> string option result" where
  "check_transcript H q =
     (if acquisition_status q = ''UNAVAILABLE''
      then if transcript_text q \<noteq> None \<or> transcript_sha q \<noteq> None
           then Inl (ValueError ''UNAVAILABLE source may not include transcript content or hash'')
           else if completeness q \<noteq> ''UNKNOWN'' then Inl (ValueError ''UNAVAILABLE source completeness must be UNKNOWN'')
           else Inr None
      else (case transcript_text q of
          None \<Rightarrow> Inl (ValueError (acquisition_status q @ '' source requires transcript_text''))
        | Some txt \<Rightarrow>
            (case transcript_sha q of
               None \<Rightarrow> Inl (ValueError (acquisition_status q @ '' source requires transcript_sha256''))
             | Some sha \<Rightarrow>
                 if acquisition_status q = ''ACQUIRED'' \<and> completeness q = ''UNKNOWN''
                 then Inl (ValueError ''ACQUIRED source completeness must be COMPLETE or PARTIAL'')
                 else if acquisition_status q = ''PARTIAL'' \<and> completeness q \<noteq> ''PARTIAL''
                 then Inl (ValueError ''PARTIAL source completeness must be PARTIAL'')
                 else if H txt \<noteq> lower (strip sha) then Inl (ValueError ''transcript_sha256 does not match transcript_text'')
                 else Inr (Some txt))))"

definition transcript_payload :: "(string \<Rightarrow> string) \<Rightarrow> external_request \<Rightarrow> string \<Rightarrow> string \<Rightarrow> json" where
  "transcript_payload H q sid txt = JObj
     [(''platform'', JStr (platform q)), (''source_id'', JStr sid), (''conversation_id'', opt_str (conversation q)), (''text'', JStr txt),
      (''sha256'', JStr (H txt)), (''completeness'', JStr (completeness q))]"

definition put_transcript :: "(string \<Rightarrow> string) \<Rightarrow> rat \<Rightarrow> external_request \<Rightarrow> string \<Rightarrow> string \<Rightarrow> store \<Rightarrow> (string, store) outcome" where
  "put_transcript H now q sid txt s = put_object H now ''external_ai_transcript'' (transcript_payload H q sid txt)
     (''external_ai:'' @ platform q) (request_ref q) ''EXTERNAL_AI_PRIMARY_SOURCE'' None s"

definition ingest_external :: "(string \<Rightarrow> string) \<Rightarrow> (nat \<Rightarrow> rat) \<Rightarrow> external_request \<Rightarrow> store \<Rightarrow> (external_receipt, store) outcome" where
  "ingest_external H clk req s =
     (let q = normalized req
      in case check_request q of
           Inl e \<Rightarrow> (Inl e, s)
         | Inr _ \<Rightarrow>
             (case put_source H (clk 0) q s of
                (Inl e, s1) \<Rightarrow> (Inl e, s1)
              | (Inr sid, s1) \<Rightarrow>
                  (case check_transcript H q of
                     Inl e \<Rightarrow> (Inl e, s1)
                   | Inr None \<Rightarrow> (Inr \<lparr>source_id = sid, transcript_id = None, receipt_status = acquisition_status q,
                                  receipt_completeness = completeness q, analysis_ready = False\<rparr>, s1)
                   | Inr (Some txt) \<Rightarrow>
                       (case put_transcript H (clk 1) q sid txt s1 of
                          (Inl e, s2) \<Rightarrow> (Inl e, s2)
                        | (Inr tid, s2) \<Rightarrow>
                            (case link (clk 2) sid ''HAS_TRANSCRIPT'' tid s2 of
                               (Inl e, s3) \<Rightarrow> (Inl e, s3)
                             | (Inr _, s3) \<Rightarrow> (Inr \<lparr>source_id = sid, transcript_id = Some tid, receipt_status = acquisition_status q,
                                                 receipt_completeness = completeness q, analysis_ready = True\<rparr>, s3))))))"

section \<open>What is stored\<close>

text \<open>An object of the given kind and payload, up to a collision of the hash of its envelope.\<close>

definition stored :: "(string \<Rightarrow> string) \<Rightarrow> store \<Rightarrow> string \<Rightarrow> string \<Rightarrow> json \<Rightarrow> bool" where
  "stored H s oid k p \<longleftrightarrow> (\<exists>r. get_object oid s = Inr r
     \<and> (kind r = k \<and> payload r = sort_keys p
        \<or> (let a = dumps compact (envelope (kind r) (payload r)); b = dumps compact (envelope k p) in a \<noteq> b \<and> H a = H b)))"

lemma stored_grows: "stored H s oid k p \<Longrightarrow> grows s t \<Longrightarrow> stored H t oid k p"
  unfolding stored_def using get_object_grows by blast

lemma put_stored:
  assumes inv: "store_inv H s" and put: "put_object H now k p st sr ec t s = (Inr oid, s')" and k: "strip k = k"
  shows "stored H s' oid k p \<and> known oid s' \<and> store_inv H s' \<and> grows s s'"
proof -
  have g: "store_inv H s'" "grows s s'" using put_object_good [OF inv] put unfolding good_def by (metis snd_conv)+
  obtain r where r: "get_object oid s' = Inr r" and d: "object_id_of H (kind r) (payload r) = object_id_of H k p"
    using put_then_get [OF inv put] k by auto
  have "sort_keys (payload r) = payload r"
    using r g(1) select_one_SomeD unfolding get_object_def store_inv_def object_ok_def by (fastforce split: option.splits)
  then have "stored H s' oid k p"
    using r d envelope_text [of "kind r" "payload r" k p]
    unfolding stored_def object_id_of_def canonical_sha256_def Let_def by metis
  then show ?thesis using g put_known [OF put] by blast
qed

lemma kinds_stripped: "strip ''external_ai_source'' = ''external_ai_source''" "strip ''external_ai_transcript'' = ''external_ai_transcript''"
    "strip ''HAS_TRANSCRIPT'' = ''HAS_TRANSCRIPT''"
  by code_simp+

lemma linked_there: "known a s \<Longrightarrow> known b s \<Longrightarrow> strip rel = rel \<Longrightarrow> rel \<noteq> [] \<Longrightarrow>
    \<exists>s'. link now a rel b s = (Inr (), s') \<and> objects s' = objects s \<and> (\<exists>l\<in>set (links s'). link_key l = (a, rel, b))"
  unfolding link_def Let_def using key_insert_new [of link_key "\<lparr>parent_id = a, relation = rel, child_id = b, linked_at = now\<rparr>" "links s"]
  by (auto simp: link_key_def)

text \<open>
  Only acquired conversations are ready for analysis. From any reachable store, an ingestion that answers has
  stored the locator of the source; it is ready for analysis exactly when a transcript was given whose digest is
  the given one, and then the transcript is stored with its text, digest and completeness and linked to the
  source. One that raises has stored no transcript and no link, but when the request is refused only after its
  source was checked, the locator stays in the store with the status that was claimed. All of this holds after
  any later operations.
\<close>
theorem only_acquired_text_is_ready:
  fixes H ops later clk req
  defines "s \<equiv> run_all (run_store H) ops empty_store" and "q \<equiv> normalized req"
  shows "case ingest_external H clk req s of (res, s') \<Rightarrow> (let t = run_all (run_store H) later s' in
      (case res of
         Inl e \<Rightarrow> links s' = links s \<and> length (objects s') \<le> length (objects s) + 1
           \<and> (case check_request q of
                Inl e' \<Rightarrow> e = e' \<and> s' = s
              | Inr _ \<Rightarrow> check_transcript H q = Inl e \<and> (\<exists>oid. stored H t oid ''external_ai_source'' (source_payload q)))
       | Inr rc \<Rightarrow> stored H t (source_id rc) ''external_ai_source'' (source_payload q)
           \<and> receipt_status rc = acquisition_status q \<and> receipt_completeness rc = completeness q
           \<and> (case transcript_id rc of
                None \<Rightarrow> \<not> analysis_ready rc \<and> acquisition_status q = ''UNAVAILABLE'' \<and> transcript_text req = None
              | Some tid \<Rightarrow> analysis_ready rc \<and> acquisition_status q \<in> {''ACQUIRED'', ''PARTIAL''} \<and> completeness q \<in> {''COMPLETE'', ''PARTIAL''}
                  \<and> (\<exists>txt sha. transcript_text req = Some txt \<and> transcript_sha req = Some sha \<and> H txt = lower (strip sha)
                        \<and> stored H t tid ''external_ai_transcript'' (transcript_payload H q (source_id rc) txt))
                  \<and> (\<exists>l\<in>set (links t). link_key l = (source_id rc, ''HAS_TRANSCRIPT'', tid)))))"
proof (cases "check_request q")
  case (Inl e)
  then show ?thesis by (simp add: ingest_external_def q_def)
next
  case (Inr u)
  have inv: "store_inv H s" unfolding s_def by (rule store.reached_inv)
  have status: "acquisition_status q \<in> allowed_status" "completeness q \<in> allowed_completeness"
    using Inr by (auto simp: check_request_def split: if_splits)
  obtain sid s1 where p1: "put_source H (clk 0) q s = (Inr sid, s1)"
    unfolding put_source_def using put_outcome [of "''external_ai_source''"] kinds_stripped(1) by (metis list.distinct(1))
  note f1 = put_stored [OF inv p1 [unfolded put_source_def] kinds_stripped(1)]
  have l1: "links s1 = links s" "length (objects s1) \<le> length (objects s) + 1"
    using p1 by (auto simp: put_source_def put_object_def insert_new_def Let_def split: if_splits)
  have later: "grows u (run_all (run_store H) later u)" if "store_inv H u" for u by (rule store.run_all_older [OF that])
  show ?thesis
  proof (cases "check_transcript H q")
    case (Inl e)
    have "stored H (run_all (run_store H) later s1) sid ''external_ai_source'' (source_payload q)"
      using f1 later [of s1] stored_grows by blast
    then show ?thesis using Inl Inr p1 l1 by (auto simp: ingest_external_def Let_def simp flip: q_def)
  next
    case checked: (Inr r)
    show ?thesis
    proof (cases r)
      case None
      have "acquisition_status q = ''UNAVAILABLE'' \<and> transcript_text req = None"
        using checked None by (auto simp: check_transcript_def q_def normalized_def split: if_splits option.splits)
      moreover have "stored H (run_all (run_store H) later s1) sid ''external_ai_source'' (source_payload q)"
        using f1 later [of s1] stored_grows by blast
      ultimately show ?thesis using Inr p1 checked None
        by (auto simp: ingest_external_def Let_def simp flip: q_def)
    next
      case (Some body)
      obtain tid s2 where p2: "put_transcript H (clk 1) q sid body s1 = (Inr tid, s2)"
        unfolding put_transcript_def using put_outcome [of "''external_ai_transcript''"] kinds_stripped(2) by (metis list.distinct(1))
      have "store_inv H s1" using f1 by blast
      note f2 = put_stored [OF this p2 [unfolded put_transcript_def] kinds_stripped(2)]
      have "known sid s2" using f1 f2 known_grows by blast
      then obtain s3 where l3: "link (clk 2) sid ''HAS_TRANSCRIPT'' tid s2 = (Inr (), s3)"
          "\<exists>l\<in>set (links s3). link_key l = (sid, ''HAS_TRANSCRIPT'', tid)"
        using linked_there [OF _ _ kinds_stripped(3), of sid s2 tid "clk 2"] f2 by auto
      have g3: "store_inv H s3" "grows s2 s3" using link_good [of H s2 "clk 2" sid "''HAS_TRANSCRIPT''" tid] f2 l3(1)
        unfolding good_def by (metis snd_conv)+
      have t: "grows s3 (run_all (run_store H) later s3)" using later g3(1) by blast
      have facts: "stored H (run_all (run_store H) later s3) sid ''external_ai_source'' (source_payload q)"
          "stored H (run_all (run_store H) later s3) tid ''external_ai_transcript'' (transcript_payload H q sid body)"
          "\<exists>l\<in>set (links (run_all (run_store H) later s3)). link_key l = (sid, ''HAS_TRANSCRIPT'', tid)"
        using f1 f2 g3(2) t stored_grows l3(2) unfolding grows_def by (blast dest: set_mono_prefix)+
      obtain sha where c: "acquisition_status q \<noteq> ''UNAVAILABLE''" "transcript_text req = Some body" "transcript_sha req = Some sha"
          "H body = lower (strip sha)" "acquisition_status q = ''ACQUIRED'' \<Longrightarrow> completeness q \<noteq> ''UNKNOWN''"
          "acquisition_status q = ''PARTIAL'' \<Longrightarrow> completeness q = ''PARTIAL''"
        using checked Some by (auto simp: check_transcript_def q_def normalized_def split: if_splits option.splits)
      have res: "ingest_external H clk req s = (Inr \<lparr>source_id = sid, transcript_id = Some tid, receipt_status = acquisition_status q,
          receipt_completeness = completeness q, analysis_ready = True\<rparr>, s3)"
        using Inr p1 checked Some p2 l3(1) by (simp add: ingest_external_def Let_def flip: q_def)
      show ?thesis unfolding res using facts c status
        by (auto simp: Let_def allowed_status_def allowed_completeness_def)
    qed
  qed
qed

end

