(* ===== verification/Spec2Isabelle.thy ===== *)
theory Spec2Isabelle
  imports Effect_Claims Condition_Watch_Claims Capability_Factory Supervisor_Rest
    Object_Store_Claims Reconciliation_Claims Governance_Claims Execution_Plane_Claims
    Governance_Bundle_Claims Event_State_Claims Engine_Core_Claims Pipeline_Claims
    Adapter_Gateway_Claims Intelligence_Properties Fleet_Properties Advance_Claims
    Scientific_Branches Wordbook_Evolution Interop Provider_Registry Compute_Router
    Continuity_Proposal External_Sources
begin

text \<open>
  A verification development for the control plane of Frost Forge: the Python packages
  \<open>frost_core\<close> and \<open>centinal26\<close> under \<open>src/src\<close>. The control plane records what agents propose,
  decides what they may do, executes it once, verifies it independently, and keeps evidence of every
  step. Most components are a SQLite file with a class over it, so a component is a record of tables,
  and each public method is one definition on it, with the branches of the code in their order.

  \<^bold>\<open>The program and the theories.\<close>

  \<^item> \<open>Py_Prelude\<close>, \<open>Iso_Time\<close>, \<open>Py_Json\<close>, \<open>Json_Facts\<close>, \<open>Hash_Chain\<close>, \<open>Op_Machine\<close>: the library. Exceptions
    as values, the SQL the code uses on lists of rows, UTC instants and their ISO text, JSON values with
    Python's equality and the injective canonical text, hash-chained tables (locale \<open>hash_chain\<close>), and
    machines with an invariant and a preorder (locales \<open>op_machine\<close>, \<open>evolving_machine\<close>), which every
    stateful component instantiates with its own operations.
  \<^item> \<open>Effects\<close>, \<open>Effect_Protocol\<close>, \<open>Effect_Claims\<close>: \<open>frost_core/effects.py\<close>, the ledger of the protocol
    \<open>frost-effect/1.0\<close>: submission, authorization, claims with leases, execution, verification, recovery.
    \<open>Effect_Protocol\<close> is the abstract protocol, an inductive step relation on rows, and every operation
    refines it.
  \<^item> \<open>Condition_Watch\<close>, \<open>Condition_Watch_Claims\<close>: \<open>frost_core/condition_watch.py\<close>, watches on external
    conditions and the outbox that notifies each terminal state once.
  \<^item> \<open>Capability_Factory\<close>: \<open>frost_core/capability_factory.py\<close>, the promotion of capabilities through gates.
  \<^item> \<open>Supervisor\<close>, \<open>Supervisor_Claims\<close>, \<open>Supervisor_Rest\<close>: \<open>frost_core/supervisor.py\<close>, the leased job queue
    and its dispatcher, with the termination of \<open>run_until_idle\<close>.
  \<^item> \<open>Object_Store\<close>, \<open>Object_Store_Claims\<close>: \<open>frost_core/object_store.py\<close>, content-addressed objects,
    provenance, links and compare-and-swap aliases.
  \<^item> \<open>Reconciliation\<close>, \<open>Reconciliation_Claims\<close>: \<open>frost_core/reconciliation.py\<close>, the difference between desired
    and observed state and the ledger of decisions.
  \<^item> \<open>Objective_Integrity\<close>, \<open>Runtime_Governance\<close>, \<open>Governance_Claims\<close>: \<open>frost_core/objective_integrity.py\<close>
    and \<open>runtime_governance.py\<close>, owner authorization of objectives, capability tokens and delegation, and
    the gate before a consequential invocation. Both work on the object store.
  \<^item> \<open>Agent_Execution_Plane\<close>, \<open>Execution_Plane_Claims\<close>: \<open>centinal26/agent_execution_plane.py\<close>, the authority
    decision for a task and its execution; it calls the runtime gate.
  \<^item> \<open>Governance_Bundle\<close>, \<open>Governance_Bundle_Claims\<close>: \<open>centinal26/governance.py\<close>, the bundle validator.
  \<^item> \<open>Event_State\<close>, \<open>Event_State_Claims\<close>: \<open>centinal26/event_state.py\<close>, the append-only event log, its
    reducer and the ready tasks.
  \<^item> \<open>Audit_Log\<close>, \<open>Engine_Core\<close>, \<open>Engine_Core_Claims\<close>: \<open>centinal26/core.py\<close>, grants, the audit file and the
    first engine.
  \<^item> \<open>Pipeline\<close>, \<open>Pipeline_Runs\<close>, \<open>Pipeline_Workers\<close>, \<open>Pipeline_Claims\<close>: \<open>centinal26/pipeline.py\<close>, the
    durable queue, the evidence files and the engine that commits state on verified evidence.
    \<open>Pipeline_Runs\<close> says what one run does, \<open>Pipeline_Workers\<close> interleaves workers.
  \<^item> \<open>Federation\<close>, \<open>Adapter_Gateway\<close>, \<open>Adapter_Gateway_Claims\<close>: \<open>frost_core/federation.py\<close> and
    \<open>centinal26/adapter_gateway.py\<close>, the catalog of adapters and the proposal-only gateway that turns their
    requests into sources and tasks of the event log.
  \<^item> \<open>Intelligence_Controller\<close>, \<open>Intelligence_Claims\<close>, \<open>Intelligence_Properties\<close>:
    \<open>frost_core/intelligence_controller.py\<close>, observed changes, scheduled work with leases, and the reviews of
    conversations by ISO week. The offset of the local zone is a parameter; its endless loop is not modelled.
  \<^item> \<open>Fleet_Controller\<close>, \<open>Fleet_Claims\<close>, \<open>Fleet_Properties\<close>: \<open>frost_core/fleet_controller.py\<close>, contracts
    between roles, their claims, results, verdicts and handoffs, and the error budgets. A claim is two steps,
    its reading of the rows and its transaction, as processes interleave between them. The score is exact and
    the rounding to a float (\<open>rnd\<close>) a parameter, as is its JSON number (\<open>num\<close>).
  \<^item> \<open>Improvement_Controller\<close>: \<open>frost_core/improvement_controller.py\<close>, the lifecycle gate and the selection of
    candidates.
  \<^item> \<open>Advance\<close>, \<open>Advance_Claims\<close>: \<open>centinal26/advance.py\<close> and the ranked loop of \<open>improvement_cycle.py\<close>. A
    world is the event log and the engine of \<open>Pipeline\<close>; both loops are one recursion over the choice of the
    next task (locale \<open>scheduler\<close>). The loop that runs a job to its end takes fuel; more than the starts any
    job or capability allows is enough.
  \<^item> \<open>Interop\<close>: \<open>centinal26/interop.py\<close>, the manifests of A2A and MCP adapters, their check against the catalog of
    \<open>Federation\<close>, and the choice of a route.
  \<^item> \<open>Provider_Registry\<close>, \<open>Compute_Router\<close>: \<open>frost_core/providers.py\<close>, \<open>external_evidence_gates.py\<close> and
    \<open>compute_router.py\<close>, the inventory of providers, the selection under a policy, the evidence an external gate
    asks for and the routing of a workload behind such gates. Scores are rationals with a rounding parameter.
  \<^item> \<open>Scientific_Branches\<close>: \<open>frost_core/sdos.py\<close>, theory branches, experiments and the history of their status.
  \<^item> \<open>Continuity_Proposal\<close>: \<open>frost_core/continuity_proposal.py\<close>, the compilation of a historical export into one
    proposal, stored in \<open>Object_Store\<close>.
  \<^item> \<open>External_Sources\<close>: \<open>frost_core/external_ai_evidence.py\<close>, conversations of external systems as source locators
    and transcripts in \<open>Object_Store\<close>; only acquired text is ready for analysis.
  \<^item> \<open>Wordbook_Evolution\<close>: \<open>wordbook/evolution.py\<close>, the schedule of a hundred cycles and the ledger that accepts
    them in order.

  \<^bold>\<open>How state and operations correspond.\<close> A table is the list of its rows in insertion order; a \<open>SELECT\<close>
  without \<open>ORDER BY\<close> reads in that order and a sort is stable. A method returns the pair of its outcome
  (\<open>Inl\<close> an exception, \<open>Inr\<close> the value) and the state after the call. A call is one transaction: writes
  before a raise are kept where the code has committed them and dropped where it rolls back. JSON columns
  are kept decoded. What the code reads from outside is an argument: the clock (\<open>now\<close>, or \<open>clk i\<close> for the
  \<open>i\<close>-th reading of a call), the fresh UUIDs, SHA-256 (\<open>H\<close>, any function: no property needs more, and
  tamper evidence names the colliding texts). Code that is passed in is a parameter: verifiers, handlers,
  capabilities and their reducers, the started process, the policy file.

  \<^bold>\<open>Modelling decisions.\<close> Strings are characters with code points below 256. Instants are microseconds
  since year 1; a result after year 9999 raises \<open>OverflowError\<close>. A \<open>REAL\<close> time is a rational number. JSON
  numbers are integers; where the code puts a float into a JSON value, the value that stands for it is a
  parameter. Exception texts are kept where the code builds them; texts of Python itself are shortened.
  \<open>run_until_idle\<close> has a bound in the code, and its theorem shows that the attempts left in the queue
  bound the batches it needs; every other loop runs over a table or a list.

  \<^bold>\<open>What the properties show.\<close> Histories and audit chains verify after any run, and no operation changes a
  settled row. An effect, a process or a promotion needs an authorization that matches it exactly.
  Verification is independent of execution, and what is recorded as verified is backed by evidence.
  Idempotent submission, exactly-once notification, compare-and-swap and content addressing hold over any
  later operations. Recovery and dispatch terminate. Where the code falls short of this, the theorem says
  how: a stale worker requeues a verified job, two workers that claim at once
  are both granted a contract, an interrupted task is left for good, one malformed manifest stops all routing, and
  a workload behind several gates passes with the first.

  \<^bold>\<open>Not modelled.\<close> Providers and adapters that are network or file I/O (Gemini, backups, archives, exports, device
  and visual adapters), command lines, sandboxes that run processes in git worktrees and the evolution kernel over
  them, the static tables of the qualification reports, forecasts that are floating point computations
  (\<open>future.py\<close>, \<open>future_capabilities.py\<close>, \<open>strategic.py\<close>), the policy that walks the file system
  (\<open>manifest_policy.py\<close>), and the numerical harnesses under \<open>candidates\<close>, \<open>scripts\<close> and the physics checks. SQLite
  itself is trusted: transactions are atomic, constraints hold.
\<close>

end
